(* ===== verification/Prelude.thy ===== *)
theory Prelude
  imports Main "HOL-Library.AList" "HOL-Library.Multiset"
begin

text \<open>
  Shared ground of the Sablier development: the fact collections, Go maps as association
  lists, and the functions of Go's standard library that the source calls on strings,
  numbers and durations.

  \<^item> A Go map is an association list with distinct keys (\<open>wf_map\<close>). The position of an entry
    stands for the order in which one \<open>range\<close> over the map visits it, which Go leaves open:
    a lemma about every association list holds for every iteration order.
  \<^item> A Go string is a \<^typ>\<open>string\<close> of bytes. White space and letter case are those of ASCII,
    the only characters that the labels, names and clock values of the source use.
  \<^item> A \<open>time.Time\<close> is a count of nanoseconds and a \<open>time.Duration\<close> a signed number of
    nanoseconds; both are \<^typ>\<open>int\<close>.
\<close>

section \<open>Fact collections and types\<close>

named_theorems gomap_simps \<open>equations that read a Go map after an update\<close>
named_theorems wf_intros \<open>operations that keep a well-formedness predicate\<close>

type_synonym ('k, 'v) gomap = "('k \<times> 'v) list"
type_synonym time = int
type_synonym duration = int

abbreviation Microsecond :: duration where "Microsecond \<equiv> 1000"
abbreviation Millisecond :: duration where "Millisecond \<equiv> 1000000"
abbreviation Second :: duration where "Second \<equiv> 1000000000"
abbreviation Minute :: duration where "Minute \<equiv> 60000000000"
abbreviation Hour :: duration where "Hour \<equiv> 3600000000000"

section \<open>Go maps\<close>

definition wf_map :: "('k, 'v) gomap \<Rightarrow> bool" where
  "wf_map m \<longleftrightarrow> distinct (map fst m)"

abbreviation map_put :: "'k \<Rightarrow> 'v \<Rightarrow> ('k, 'v) gomap \<Rightarrow> ('k, 'v) gomap" where
  "map_put \<equiv> AList.update"

abbreviation map_del :: "'k \<Rightarrow> ('k, 'v) gomap \<Rightarrow> ('k, 'v) gomap" where
  "map_del \<equiv> AList.delete"

abbreviation map_keys :: "('k, 'v) gomap \<Rightarrow> 'k list" where
  "map_keys m \<equiv> map fst m"

text \<open>Reading a slice-valued map: a missing key reads as the nil slice.\<close>

definition map_list :: "('k, 'v list) gomap \<Rightarrow> 'k \<Rightarrow> 'v list" where
  "map_list m k = (case map_of m k of None \<Rightarrow> [] | Some vs \<Rightarrow> vs)"

lemma wf_map_Nil [simp]: "wf_map []"
  by (simp add: wf_map_def)

lemma wf_map_put [wf_intros]: "wf_map m \<Longrightarrow> wf_map (map_put k v m)"
  by (simp add: wf_map_def distinct_update)

lemma wf_map_del [wf_intros]: "wf_map m \<Longrightarrow> wf_map (map_del k m)"
  by (simp add: wf_map_def distinct_delete)

lemma wf_map_filter [wf_intros]: "wf_map m \<Longrightarrow> wf_map (filter P m)"
  by (induction m) (auto simp: wf_map_def)

lemma map_of_put [gomap_simps]: "map_of (map_put k v m) = (map_of m)(k \<mapsto> v)"
  by (rule update_conv')

lemma map_of_del [gomap_simps]: "map_of (map_del k m) = (map_of m)(k := None)"
  by (rule delete_conv')

lemma wf_map_mem: "wf_map m \<Longrightarrow> (k, v) \<in> set m \<longleftrightarrow> map_of m k = Some v"
  by (simp add: wf_map_def)

lemma set_map_keys: "set (map_keys m) = dom (map_of m)"
  by (simp add: dom_map_of_conv_image_fst)

lemma map_list_put [gomap_simps]:
  "map_list (map_put k vs m) = (map_list m)(k := vs)"
  by (rule ext) (simp add: map_list_def map_of_put)

lemma map_list_del [gomap_simps]:
  "map_list (map_del k m) = (map_list m)(k := [])"
  by (rule ext) (simp add: map_list_def map_of_del)

lemma map_list_Nil [simp]: "map_list [] = (\<lambda>_. [])"
  by (rule ext) (simp add: map_list_def)

lemma map_of_filter_key:
  "map_of (filter (\<lambda>(k, v). P k) m) k = (if P k then map_of m k else None)"
  by (induction m) auto

lemma map_of_filter_wf:
  "wf_map m \<Longrightarrow>
   map_of (filter (\<lambda>(k, v). P k v) m) k =
     (case map_of m k of None \<Rightarrow> None | Some v \<Rightarrow> if P k v then Some v else None)"
proof (induction m)
  case (Cons e m)
  obtain a b where e: "e = (a, b)" by (cases e)
  from Cons.prems have wf: "wf_map m" and fresh: "map_of m a = None"
    by (auto simp: wf_map_def e map_of_eq_None_iff)
  show ?case using Cons.IH [OF wf] fresh
    by (auto simp: e)
qed simp

lemma map_of_map_keyed:
  "map_of (map (\<lambda>(k, v). (k, f k v)) m) k = map_option (f k) (map_of m k)"
  by (induction m) auto

section \<open>Lists\<close>

text \<open>Swapping two elements of a slice.\<close>

definition Swap :: "nat \<Rightarrow> nat \<Rightarrow> 'a list \<Rightarrow> 'a list" where
  "Swap i j xs = xs[i := xs ! j, j := xs ! i]"

lemma length_Swap [simp]: "length (Swap i j xs) = length xs"
  by (simp add: Swap_def)

lemma nth_Swap:
  "i < length xs \<Longrightarrow> j < length xs \<Longrightarrow> k < length xs \<Longrightarrow>
   Swap i j xs ! k = (if k = j then xs ! i else if k = i then xs ! j else xs ! k)"
  by (auto simp: Swap_def nth_list_update)

lemma mset_Swap [simp]:
  assumes "i < length xs" "j < length xs"
  shows "mset (Swap i j xs) = mset xs"
  unfolding Swap_def using assms mset_swap [of j xs i] by simp

lemma set_Swap [simp]:
  "i < length xs \<Longrightarrow> j < length xs \<Longrightarrow> set (Swap i j xs) = set xs"
  by (metis mset_Swap mset_eq_setD)

lemma mset_butlast_last: "xs \<noteq> [] \<Longrightarrow> mset xs = add_mset (last xs) (mset (butlast xs))"
  by (cases xs rule: rev_cases) auto

lemma Swap_same [simp]: "Swap i i xs = xs"
  by (simp add: Swap_def)

text \<open>Removing later duplicates while keeping the first occurrence, as the \<open>seen\<close> loops do.\<close>

fun dedup_loop :: "string list \<Rightarrow> string list \<Rightarrow> string list" where
  "dedup_loop seen [] = []"
| "dedup_loop seen (p # ps) =
     (if p \<noteq> [] \<and> p \<notin> set seen then p # dedup_loop (p # seen) ps else dedup_loop seen ps)"

lemma set_dedup_loop: "set (dedup_loop seen ps) = {p \<in> set ps. p \<noteq> [] \<and> p \<notin> set seen}"
  by (induction seen ps rule: dedup_loop.induct) auto

lemma distinct_dedup_loop: "distinct (dedup_loop seen ps)"
  by (induction seen ps rule: dedup_loop.induct) (auto simp: set_dedup_loop)

lemma dedup_loop_id:
  "distinct ps \<Longrightarrow> [] \<notin> set ps \<Longrightarrow> set ps \<inter> set seen = {} \<Longrightarrow> dedup_loop seen ps = ps"
  by (induction ps arbitrary: seen) auto

end
