(* ===== verification/Go_Lib.thy ===== *)
theory Go_Lib
  imports Prelude
begin

text \<open>
  The functions of Go's standard library that the source applies to label values and names:
  \<open>strings\<close> (\<open>Split\<close>, \<open>Join\<close>, \<open>TrimSpace\<close>, \<open>ToLower\<close>, \<open>CutPrefix\<close>, \<open>CutLast\<close>),
  \<open>strconv\<close> (\<open>Atoi\<close>, \<open>ParseInt\<close>, \<open>ParseUint\<close>, \<open>ParseBool\<close>) and \<open>time.ParseDuration\<close>. A
  function that returns an error returns \<open>None\<close> where the source only tests whether there is
  one.
\<close>

section \<open>Strings\<close>

fun Split :: "char \<Rightarrow> string \<Rightarrow> string list" where
  "Split c [] = [[]]"
| "Split c (x # xs) =
     (if x = c then [] # Split c xs
      else case Split c xs of [] \<Rightarrow> [[x]] | p # ps \<Rightarrow> (x # p) # ps)"

fun Join :: "string list \<Rightarrow> string \<Rightarrow> string" where
  "Join [] sep = []"
| "Join [p] sep = p"
| "Join (p # q # ps) sep = p @ sep @ Join (q # ps) sep"

definition is_space :: "char \<Rightarrow> bool" where
  "is_space c \<longleftrightarrow> c \<in> {CHR 0x09, CHR 0x0A, CHR 0x0B, CHR 0x0C, CHR 0x0D, CHR '' ''}"

definition TrimSpace :: "string \<Rightarrow> string" where
  "TrimSpace s = rev (dropWhile is_space (rev (dropWhile is_space s)))"

definition lower_char :: "char \<Rightarrow> char" where
  "lower_char c = (let n = of_char c :: nat in if 65 \<le> n \<and> n \<le> 90 then char_of (n + 32) else c)"

definition ToLower :: "string \<Rightarrow> string" where
  "ToLower s = map lower_char s"

definition CutPrefix :: "string \<Rightarrow> string \<Rightarrow> string \<times> bool" where
  "CutPrefix s prefix =
     (if take (length prefix) s = prefix then (drop (length prefix) s, True) else (s, False))"

definition TrimPrefix :: "string \<Rightarrow> string \<Rightarrow> string" where
  "TrimPrefix s prefix = fst (CutPrefix s prefix)"

text \<open>Cutting around the last occurrence of a one-byte separator.\<close>

definition CutLast :: "string \<Rightarrow> char \<Rightarrow> string \<times> string \<times> bool" where
  "CutLast s c =
     (if c \<in> set s
      then (rev (tl (dropWhile (\<lambda>x. x \<noteq> c) (rev s))), rev (takeWhile (\<lambda>x. x \<noteq> c) (rev s)), True)
      else (s, [], False))"

lemma Split_not_Nil [simp]: "Split c s \<noteq> []"
  by (induction s) (auto split: list.splits)

lemma Split_no_sep: "c \<notin> set s \<Longrightarrow> Split c s = [s]"
  by (induction s) auto

lemma Split_append_sep: "c \<notin> set p \<Longrightarrow> Split c (p @ c # s) = p # Split c s"
  by (induction p) auto

lemma Split_parts: "p \<in> set (Split c s) \<Longrightarrow> c \<notin> set p"
  by (induction s arbitrary: p) (auto split: list.splits if_splits)

lemma Split_Join:
  "ps \<noteq> [] \<Longrightarrow> \<forall>p \<in> set ps. c \<notin> set p \<Longrightarrow> Split c (Join ps [c]) = ps"
proof (induction ps "[c]" rule: Join.induct)
  case (2 p)
  then show ?case by (simp add: Split_no_sep)
next
  case (3 p q ps)
  then show ?case using Split_append_sep [of c p] by simp
qed simp

lemma TrimSpace_Nil [simp]: "TrimSpace [] = []"
  by (simp add: TrimSpace_def)

lemma TrimSpace_id:
  "s = [] \<or> \<not> is_space (hd s) \<and> \<not> is_space (last s) \<Longrightarrow> TrimSpace s = s"
proof (cases s)
  case (Cons c cs)
  assume "s = [] \<or> \<not> is_space (hd s) \<and> \<not> is_space (last s)"
  with Cons have h: "\<not> is_space c" and l: "\<not> is_space (last s)" by auto
  have "dropWhile is_space s = s" using Cons h by simp
  moreover have "dropWhile is_space (rev s) = rev s"
    using Cons l by (metis dropWhile_eq_self_iff hd_rev)
  ultimately show ?thesis by (simp add: TrimSpace_def)
qed simp

lemma TrimSpace_ends:
  "TrimSpace s = [] \<or> \<not> is_space (hd (TrimSpace s)) \<and> \<not> is_space (last (TrimSpace s))"
proof (cases "TrimSpace s = []")
  case False
  let ?d = "dropWhile is_space s"
  have t: "TrimSpace s = rev (dropWhile is_space (rev ?d))" by (simp add: TrimSpace_def)
  with False have ne: "dropWhile is_space (rev ?d) \<noteq> []" by simp
  then have "\<not> is_space (hd (dropWhile is_space (rev ?d)))" by (rule hd_dropWhile)
  then have l: "\<not> is_space (last (TrimSpace s))" using ne by (simp add: t last_rev)
  have "?d = TrimSpace s @ rev (takeWhile is_space (rev ?d))"
    by (metis t rev_append rev_rev_ident takeWhile_dropWhile_id)
  then have "hd ?d = hd (TrimSpace s)" "?d \<noteq> []" using False by (metis hd_append2, metis append_is_Nil_conv)
  then have "\<not> is_space (hd (TrimSpace s))" using hd_dropWhile by metis
  with l show ?thesis by simp
qed simp

lemma TrimSpace_idem [simp]: "TrimSpace (TrimSpace s) = TrimSpace s"
  by (rule TrimSpace_id) (rule TrimSpace_ends)

lemma set_TrimSpace: "set (TrimSpace s) \<subseteq> set s"
  by (metis (no_types) TrimSpace_def dual_order.trans set_dropWhileD set_rev subsetI)

section \<open>Numbers\<close>

definition digit :: "char \<Rightarrow> int option" where
  "digit c = (let n = int (of_char c) in if 48 \<le> n \<and> n \<le> 57 then Some (n - 48) else None)"

fun digits_val :: "int \<Rightarrow> string \<Rightarrow> int option" where
  "digits_val acc [] = Some acc"
| "digits_val acc (c # cs) =
     (case digit c of None \<Rightarrow> None | Some d \<Rightarrow> digits_val (10 * acc + d) cs)"

definition ParseUint :: "nat \<Rightarrow> string \<Rightarrow> int option" where
  "ParseUint bits s =
     (if s = [] then None
      else case digits_val 0 s of None \<Rightarrow> None | Some n \<Rightarrow> if n < 2 ^ bits then Some n else None)"

definition ParseInt :: "nat \<Rightarrow> string \<Rightarrow> int option" where
  "ParseInt bits s =
     (case s of
        [] \<Rightarrow> None
      | c # cs \<Rightarrow>
          (let neg = (c = CHR ''-'');
               body = (if c = CHR ''+'' \<or> c = CHR ''-'' then cs else s)
           in if body = [] then None
              else case digits_val 0 body of
                     None \<Rightarrow> None
                   | Some n \<Rightarrow>
                       if \<not> neg \<and> n \<ge> 2 ^ (bits - 1) \<or> neg \<and> n > 2 ^ (bits - 1) then None
                       else Some (if neg then - n else n)))"

definition Atoi :: "string \<Rightarrow> int option" where
  "Atoi s = ParseInt 64 s"

definition ParseBool :: "string \<Rightarrow> bool option" where
  "ParseBool s =
     (if s \<in> {''1'', ''t'', ''T'', ''true'', ''TRUE'', ''True''} then Some True
      else if s \<in> {''0'', ''f'', ''F'', ''false'', ''FALSE'', ''False''} then Some False
      else None)"

lemma digit_bounds: "digit c = Some d \<Longrightarrow> 0 \<le> d \<and> d \<le> 9"
  by (auto simp: digit_def Let_def split: if_splits)

lemma digits_val_nonneg: "digits_val acc s = Some n \<Longrightarrow> 0 \<le> acc \<Longrightarrow> 0 \<le> n"
proof (induction s arbitrary: acc)
  case (Cons c cs)
  then obtain d where "digit c = Some d" "digits_val (10 * acc + d) cs = Some n"
    by (auto split: option.splits)
  with Cons digit_bounds show ?case by force
qed simp

lemma ParseUint_bounds: "ParseUint bits s = Some n \<Longrightarrow> 0 \<le> n \<and> n < 2 ^ bits"
  by (auto simp: ParseUint_def split: if_splits option.splits dest: digits_val_nonneg)

lemma ParseInt_bounds:
  assumes "ParseInt bits s = Some i"
  shows "- (2 ^ (bits - 1)) \<le> i \<and> i < 2 ^ (bits - 1)"
proof -
  obtain body n where "digits_val 0 body = Some n"
    and i: "i = - n \<and> n \<le> 2 ^ (bits - 1) \<or> i = n \<and> n < 2 ^ (bits - 1)"
    using assms
    by (auto simp: ParseInt_def Let_def not_le not_less simp del: digits_val.simps
        split: list.splits option.splits if_splits)
  then have "0 \<le> n" using digits_val_nonneg by force
  moreover have "(0::int) < 2 ^ (bits - 1)" by simp
  ultimately show ?thesis using i by linarith
qed

definition digit_char :: "int \<Rightarrow> char" where
  "digit_char d = char_of (48 + nat d)"

lemma digit_digit_char [simp]: "0 \<le> d \<Longrightarrow> d < 10 \<Longrightarrow> digit (digit_char d) = Some d"
proof -
  assume d: "0 \<le> d" "d < 10"
  have "int (of_char (digit_char d)) = 48 + d" using d by (simp add: digit_char_def)
  with d show ?thesis by (simp add: digit_def)
qed

text \<open>The conversions to 64 bits and to a signed 32-bit integer, which wrap around.\<close>

definition uint64 :: "int \<Rightarrow> int" where
  "uint64 n = n mod 2 ^ 64"

definition int32 :: "int \<Rightarrow> int" where
  "int32 n = (n + 2 ^ 31) mod 2 ^ 32 - 2 ^ 31"

lemma int32_bounds: "- (2 ^ 31) \<le> int32 n \<and> int32 n < 2 ^ 31 \<and> (int32 n = n \<longleftrightarrow> - (2 ^ 31) \<le> n \<and> n < 2 ^ 31)"
proof -
  have "0 \<le> (n + 2 ^ 31) mod 2 ^ 32" "(n + 2 ^ 31) mod 2 ^ 32 < 2 ^ 32" by simp_all
  moreover have "(n + 2 ^ 31) mod 2 ^ 32 = n + 2 ^ 31" if "- (2 ^ 31) \<le> n" "n < 2 ^ 31" using that by simp
  ultimately show ?thesis unfolding int32_def by fastforce
qed

section \<open>Durations\<close>

definition duration_unit :: "string \<Rightarrow> int option" where
  "duration_unit u =
     (if u = ''ns'' then Some 1
      else if u = ''us'' \<or> u = [CHR 0xC2, CHR 0xB5, CHR ''s''] \<or> u = [CHR 0xCE, CHR 0xBC, CHR ''s'']
        then Some 1000
      else if u = ''ms'' then Some 1000000
      else if u = ''s'' then Some 1000000000
      else if u = ''m'' then Some 60000000000
      else if u = ''h'' then Some 3600000000000
      else None)"

definition is_digit :: "char \<Rightarrow> bool" where
  "is_digit c \<longleftrightarrow> digit c \<noteq> None"

text \<open>\<open>leadingFraction\<close>: digits that would overflow are skipped, keeping value and scale.\<close>

fun fraction_val :: "int \<Rightarrow> int \<Rightarrow> bool \<Rightarrow> string \<Rightarrow> int \<times> int" where
  "fraction_val x scale over [] = (x, scale)"
| "fraction_val x scale over (c # cs) =
     (let y = 10 * x + the (digit c)
      in if over \<or> x > (2 ^ 63 - 1) div 10 \<or> y > 2 ^ 63 then fraction_val x scale True cs
         else fraction_val y (10 * scale) False cs)"

text \<open>The digits before the point, the digits after it, and what follows the number.\<close>

definition duration_number :: "string \<Rightarrow> string \<times> string \<times> string" where
  "duration_number s =
     (case dropWhile is_digit s of
        [] \<Rightarrow> (takeWhile is_digit s, [], [])
      | c # cs \<Rightarrow>
          if c = CHR ''.'' then (takeWhile is_digit s, takeWhile is_digit cs, dropWhile is_digit cs)
          else (takeWhile is_digit s, [], c # cs))"

definition is_unit_char :: "char \<Rightarrow> bool" where
  "is_unit_char c \<longleftrightarrow> c \<noteq> CHR ''.'' \<and> \<not> is_digit c"

text \<open>
  The value of a number with a unit, in nanoseconds. The fraction is the exact quotient,
  rounded down; Go computes the same product in floating point.
\<close>

definition duration_value :: "string \<Rightarrow> string \<Rightarrow> int \<Rightarrow> int option" where
  "duration_value ds fs unit =
     (let v = the (digits_val 0 ds); (f, scale) = fraction_val 0 1 False fs;
          w = v * unit + (if f > 0 then f * unit div scale else 0)
      in if v > 2 ^ 63 \<or> v > 2 ^ 63 div unit \<or> w > 2 ^ 63 then None else Some w)"

definition duration_part :: "string \<Rightarrow> (int \<times> string) option" where
  "duration_part s =
     (case duration_number s of (ds, fs, s2) \<Rightarrow>
        if ds = [] \<and> fs = [] \<or> takeWhile is_unit_char s2 = [] then None
        else case duration_unit (takeWhile is_unit_char s2) of
               None \<Rightarrow> None
             | Some unit \<Rightarrow>
                 map_option (\<lambda>w. (w, dropWhile is_unit_char s2)) (duration_value ds fs unit))"

lemma duration_number_shorter: "duration_number s = (ds, fs, r) \<Longrightarrow> length r \<le> length s"
proof (cases "dropWhile is_digit s")
  case Nil
  then show "duration_number s = (ds, fs, r) \<Longrightarrow> length r \<le> length s"
    by (simp add: duration_number_def)
next
  case (Cons c cs)
  then have "length (c # cs) \<le> length s" by (metis length_dropWhile_le)
  moreover from this have "length (dropWhile is_digit cs) \<le> length s"
    using length_dropWhile_le [of is_digit cs] by simp
  ultimately show "duration_number s = (ds, fs, r) \<Longrightarrow> length r \<le> length s"
    unfolding duration_number_def Cons by (cases "c = CHR ''.''") auto
qed

lemma dropWhile_shorter: "takeWhile P xs \<noteq> [] \<Longrightarrow> length (dropWhile P xs) < length xs"
  by (metis length_append length_greater_0_conv less_add_same_cancel2 takeWhile_dropWhile_id)

lemma duration_part_shorter: "duration_part s = Some (w, r) \<Longrightarrow> length r < length s"
proof -
  assume a: "duration_part s = Some (w, r)"
  obtain ds fs s2 where n: "duration_number s = (ds, fs, s2)" by (cases "duration_number s")
  with a have r: "r = dropWhile is_unit_char s2" and u: "takeWhile is_unit_char s2 \<noteq> []"
    unfolding duration_part_def by (auto split: if_splits option.splits)
  from dropWhile_shorter [OF u] have "length r < length s2" by (simp add: r)
  with duration_number_shorter [OF n] show ?thesis by simp
qed

function duration_sum :: "int \<Rightarrow> string \<Rightarrow> int option" where
  "duration_sum d s =
     (if s = [] then Some d
      else case duration_part s of
             None \<Rightarrow> None
           | Some (w, r) \<Rightarrow> if d + w > 2 ^ 63 then None else duration_sum (d + w) r)"
  by pat_completeness auto
termination
  by (relation "measure (\<lambda>(d, s). length s)") (auto dest: duration_part_shorter)

declare duration_sum.simps [simp del]

definition ParseDuration :: "string \<Rightarrow> duration option" where
  "ParseDuration s =
     (let neg = (s \<noteq> [] \<and> hd s = CHR ''-'');
          body = (if s \<noteq> [] \<and> (hd s = CHR ''-'' \<or> hd s = CHR ''+'') then tl s else s)
      in if body = ''0'' then Some 0
         else if body = [] then None
         else case duration_sum 0 body of
                None \<Rightarrow> None
              | Some d \<Rightarrow>
                  if neg then Some (- d)
                  else if d > 2 ^ 63 - 1 then None else Some d)"

lemma duration_sum_bound: "duration_sum d s = Some n \<Longrightarrow> d \<le> 2 ^ 63 \<Longrightarrow> n \<le> 2 ^ 63"
proof (induction d s rule: duration_sum.induct)
  case (1 d s)
  show ?case
  proof (cases "s = []")
    case True
    with "1.prems" show ?thesis by (simp add: duration_sum.simps)
  next
    case False
    with "1.prems"(1) obtain w r where w: "duration_part s = Some (w, r)" "\<not> d + w > 2 ^ 63"
      "duration_sum (d + w) r = Some n"
      by (subst (asm) duration_sum.simps) (auto split: option.splits if_splits)
    show ?thesis by (rule "1.IH" [OF False w(1) refl w(2,3)]) (use w(2) in simp)
  qed
qed

end
