(* ===== verification/Running_Hours.thy ===== *)
theory Running_Hours
  imports Go_Lib
begin

text \<open>
  The keep-warm windows of \<open>pkg/sablier/running_hours.go\<close>: parsing \<open>HH:MM-HH:MM\<close> and the
  list of weekdays, the window around a time, and the time that remains in it.

  What Go's \<open>time\<close> package knows about a location is the record \<open>location\<close>: the midnight of
  the local day of an instant, the local hour and minute, and the local weekday.
  \<open>fixed_zone\<close> is a location with a constant offset from UTC, \<open>spring_zone\<close> one in which the
  clock skips an hour.
\<close>

section \<open>Locations\<close>

datatype weekday = Sunday | Monday | Tuesday | Wednesday | Thursday | Friday | Saturday

record location =
  loc_midnight :: "time \<Rightarrow> time"
  loc_hour :: "time \<Rightarrow> int"
  loc_minute :: "time \<Rightarrow> int"
  loc_weekday :: "time \<Rightarrow> weekday"

abbreviation Day :: duration where "Day \<equiv> 86400000000000"

definition weekday_of :: "int \<Rightarrow> weekday" where
  "weekday_of d = [Sunday, Monday, Tuesday, Wednesday, Thursday, Friday, Saturday] ! nat (d mod 7)"

text \<open>The first of January 1970 was a Thursday.\<close>

definition fixed_zone :: "duration \<Rightarrow> location" where
  "fixed_zone off =
     \<lparr>loc_midnight = (\<lambda>t. (t + off) div Day * Day - off),
      loc_hour = (\<lambda>t. (t + off) mod Day div Hour),
      loc_minute = (\<lambda>t. (t + off) mod Day div Minute mod 60),
      loc_weekday = (\<lambda>t. weekday_of ((t + off) div Day + 4))\<rparr>"

text \<open>One day, from midnight at instant 0, on which the clock jumps from 02:00 to 03:00.\<close>

definition spring_zone :: location where
  "spring_zone =
     \<lparr>loc_midnight = (\<lambda>t. 0),
      loc_hour = (\<lambda>t. if t < 2 * Hour then t div Hour else t div Hour + 1),
      loc_minute = (\<lambda>t. t div Minute mod 60),
      loc_weekday = (\<lambda>t. Sunday)\<rparr>"

section \<open>Parsing\<close>

datatype rh_error =
    BadWindow string
  | BadClock string
  | BadHour string
  | BadMinute string
  | ClockRange string
  | EmptyWindow string
  | UnknownDay string string
  | NoDays string

record RunningHours =
  startMinute :: int
  endMinute :: int

definition parseClock :: "string \<Rightarrow> rh_error + int" where
  "parseClock s =
     (case Split (CHR '':'') (TrimSpace s) of
        [c0, c1] \<Rightarrow>
          (case Atoi c0 of
             None \<Rightarrow> Inl (BadHour s)
           | Some h \<Rightarrow> (case Atoi c1 of
                 None \<Rightarrow> Inl (BadMinute s)
               | Some m \<Rightarrow>
                   if h < 0 \<or> h > 23 \<or> m < 0 \<or> m > 59 then Inl (ClockRange s)
                   else Inr (h * 60 + m)))
      | _ \<Rightarrow> Inl (BadClock s))"

definition ParseRunningHours :: "string \<Rightarrow> rh_error + RunningHours" where
  "ParseRunningHours v =
     (case Split (CHR ''-'') v of
        [p0, p1] \<Rightarrow>
          (case parseClock p0 of
             Inl e \<Rightarrow> Inl e
           | Inr start \<Rightarrow> (case parseClock p1 of
                 Inl e \<Rightarrow> Inl e
               | Inr end' \<Rightarrow>
                   if start = end' then Inl (EmptyWindow v)
                   else Inr \<lparr>startMinute = start, endMinute = end'\<rparr>))
      | _ \<Rightarrow> Inl (BadWindow v))"

definition weekdayNames :: "(string, weekday) gomap" where
  "weekdayNames =
     [(''sun'', Sunday), (''sunday'', Sunday),
      (''mon'', Monday), (''monday'', Monday),
      (''tue'', Tuesday), (''tuesday'', Tuesday),
      (''wed'', Wednesday), (''wednesday'', Wednesday),
      (''thu'', Thursday), (''thursday'', Thursday),
      (''fri'', Friday), (''friday'', Friday),
      (''sat'', Saturday), (''saturday'', Saturday)]"

fun parse_days :: "string \<Rightarrow> string list \<Rightarrow> (weekday, bool) gomap \<Rightarrow> rh_error + (weekday, bool) gomap" where
  "parse_days v [] days = (if days = [] then Inl (NoDays v) else Inr days)"
| "parse_days v (p # ps) days =
     (let token = ToLower (TrimSpace p)
      in if token = [] then parse_days v ps days
         else case map_of weekdayNames token of
                None \<Rightarrow> Inl (UnknownDay v (TrimSpace p))
              | Some wd \<Rightarrow> parse_days v ps (map_put wd True days))"

definition ParseRunningDays :: "string \<Rightarrow> rh_error + (weekday, bool) gomap" where
  "ParseRunningDays v = parse_days v (Split (CHR '','') v) []"

definition days_Contains :: "(weekday, bool) gomap \<Rightarrow> weekday \<Rightarrow> bool" where
  "days_Contains d day = (case map_of d day of None \<Rightarrow> False | Some b \<Rightarrow> b)"

section \<open>The window around a time\<close>

definition WindowAt :: "location \<Rightarrow> RunningHours \<Rightarrow> time \<Rightarrow> time \<times> time \<times> bool" where
  "WindowAt loc r now =
     (let midnight = loc_midnight loc now;
          nowMinute = loc_hour loc now * 60 + loc_minute loc now
      in if startMinute r < endMinute r then
           let start = midnight + startMinute r * Minute;
               end' = midnight + endMinute r * Minute
           in (start, end', \<not> now < start \<and> now < end')
         else if nowMinute \<ge> startMinute r then
           let start = midnight + startMinute r * Minute;
               end' = midnight + (24 * Hour + endMinute r * Minute)
           in (start, end', \<not> now < start \<and> now < end')
         else
           let start = midnight + (- 24 * Hour + startMinute r * Minute);
               end' = midnight + endMinute r * Minute
           in (start, end', \<not> now < start \<and> now < end'))"

definition runningHoursRemaining ::
  "location \<Rightarrow> string \<Rightarrow> string \<Rightarrow> time \<Rightarrow> rh_error + (duration \<times> bool)" where
  "runningHoursRemaining loc hours days now =
     (case ParseRunningHours hours of
        Inl e \<Rightarrow> Inl e
      | Inr rh \<Rightarrow>
          (case WindowAt loc rh now of (start, end', in') \<Rightarrow>
             if \<not> in' then Inr (0, False)
             else if days \<noteq> [] then
               (case ParseRunningDays days of
                  Inl e \<Rightarrow> Inl e
                | Inr rd \<Rightarrow>
                    if \<not> days_Contains rd (loc_weekday loc start) then Inr (0, False)
                    else Inr (max (end' - now) 0, True))
             else Inr (max (end' - now) 0, True)))"

section \<open>Parsing is sound and complete for clock values\<close>

lemma parseClock_bounds: "parseClock s = Inr m \<Longrightarrow> 0 \<le> m \<and> m < 1440"
  by (auto simp: parseClock_def split: list.splits option.splits if_splits)

lemma ParseRunningHours_bounds:
  "ParseRunningHours v = Inr r \<Longrightarrow>
   0 \<le> startMinute r \<and> startMinute r < 1440 \<and> 0 \<le> endMinute r \<and> endMinute r < 1440 \<and>
   startMinute r \<noteq> endMinute r"
  by (auto simp: ParseRunningHours_def split: list.splits sum.splits if_splits
      dest!: parseClock_bounds)

definition two_digits :: "int \<Rightarrow> string" where
  "two_digits n = [digit_char (n div 10), digit_char (n mod 10)]"

definition clock_text :: "int \<Rightarrow> string" where
  "clock_text m = two_digits (m div 60) @ '':'' @ two_digits (m mod 60)"

lemma digit_char_neq:
  "0 \<le> d \<Longrightarrow> d < 10 \<Longrightarrow> digit c = None \<Longrightarrow> digit_char d \<noteq> c"
  by auto

lemma digit_None [simp]:
  "digit (CHR '':'') = None" "digit (CHR ''-'') = None" "digit (CHR ''+'') = None"
  by (simp_all add: digit_def)

lemma digit_space: "is_space c \<Longrightarrow> digit c = None"
  by (auto simp: is_space_def digit_def)

lemma Atoi_two_digits: "0 \<le> n \<Longrightarrow> n < 100 \<Longrightarrow> Atoi (two_digits n) = Some n"
proof -
  assume n: "0 \<le> n" "n < 100"
  then have d: "0 \<le> n div 10" "n div 10 < 10" "0 \<le> n mod 10" "n mod 10 < 10" by auto
  have "digit_char (n div 10) \<noteq> CHR ''-''" "digit_char (n div 10) \<noteq> CHR ''+''"
    using d digit_char_neq by auto
  with n d show ?thesis by (simp add: Atoi_def ParseInt_def two_digits_def)
qed

lemma two_digits_digit:
  assumes "0 \<le> n" "n < 100" "c \<in> set (two_digits n)"
  shows "digit c \<noteq> None"
proof -
  have "0 \<le> n div 10" "n div 10 < 10" "0 \<le> n mod 10" "n mod 10 < 10" using assms by auto
  with assms(3) show ?thesis by (auto simp: two_digits_def)
qed

lemma two_digits_avoid: "0 \<le> n \<Longrightarrow> n < 100 \<Longrightarrow> digit c = None \<Longrightarrow> c \<notin> set (two_digits n)"
  using two_digits_digit by blast

lemma two_digits_ends: "two_digits n \<noteq> []" "hd (two_digits n) \<in> set (two_digits n)"
  "last (two_digits n) \<in> set (two_digits n)"
  by (simp_all add: two_digits_def)

lemma minute_parts: "0 \<le> m \<Longrightarrow> m < 1440 \<Longrightarrow>
   0 \<le> m div 60 \<and> m div 60 < 24 \<and> m div 60 < 100 \<and> 0 \<le> m mod 60 \<and> m mod 60 < 60 \<and> m mod 60 < (100::int)"
  by auto

lemma clock_text_avoid:
  assumes "0 \<le> m" "m < 1440" "digit c = None" "c \<noteq> CHR '':''"
  shows "c \<notin> set (clock_text m)"
  using assms minute_parts [OF assms(1,2)] two_digits_avoid by (simp add: clock_text_def)

lemma parseClock_text:
  assumes "0 \<le> m" "m < 1440"
  shows "parseClock (clock_text m) = Inr m"
proof -
  note h = minute_parts [OF assms]
  have "clock_text m \<noteq> []" "hd (clock_text m) \<in> set (two_digits (m div 60))"
    "last (clock_text m) \<in> set (two_digits (m mod 60))"
    using two_digits_ends by (simp_all add: clock_text_def)
  then have "\<not> is_space (hd (clock_text m)) \<and> \<not> is_space (last (clock_text m))"
    using h two_digits_digit digit_space by blast
  then have trim: "TrimSpace (clock_text m) = clock_text m" by (simp add: TrimSpace_id)
  have "CHR '':'' \<notin> set (two_digits (m div 60))" "CHR '':'' \<notin> set (two_digits (m mod 60))"
    using h two_digits_avoid by simp_all
  then have split: "Split (CHR '':'') (clock_text m) = [two_digits (m div 60), two_digits (m mod 60)]"
    by (simp add: clock_text_def Split_append_sep Split_no_sep)
  have "Atoi (two_digits (m div 60)) = Some (m div 60)" "Atoi (two_digits (m mod 60)) = Some (m mod 60)"
    using h Atoi_two_digits by simp_all
  moreover have "m div 60 * 60 + m mod 60 = m" by simp
  moreover have "\<not> (m div 60 < 0 \<or> m div 60 > 23 \<or> m mod 60 < 0 \<or> m mod 60 > 59)"
    using h by linarith
  ultimately show ?thesis
    by (simp only: parseClock_def trim split list.case option.case if_False)
qed

text \<open>
  Every window can be written down and is read back as it was: for distinct minutes of
  the day \<open>s\<close> and \<open>e\<close>, \<open>ParseRunningHours\<close> of \<open>HH:MM-HH:MM\<close> gives exactly these minutes,
  overnight windows included.
\<close>

theorem running_hours_roundtrip:
  assumes "0 \<le> s" "s < 1440" "0 \<le> e" "e < 1440" "s \<noteq> e"
  shows "ParseRunningHours (clock_text s @ ''-'' @ clock_text e) =
         Inr \<lparr>startMinute = s, endMinute = e\<rparr>"
proof -
  have dash: "CHR ''-'' \<notin> set (clock_text m)" if "0 \<le> m" "m < 1440" for m
    using that by (intro clock_text_avoid) simp_all
  have "Split (CHR ''-'') (clock_text s @ ''-'' @ clock_text e) = [clock_text s, clock_text e]"
    using dash assms by (simp add: Split_append_sep Split_no_sep)
  with assms show ?thesis
    by (simp add: ParseRunningHours_def parseClock_text)
qed

theorem running_hours_roundtrip_witness:
  "ParseRunningHours (clock_text 1320 @ ''-'' @ clock_text 360) =
   Inr \<lparr>startMinute = 1320, endMinute = 360\<rparr>"
  using running_hours_roundtrip [of 1320 360] by simp

section \<open>The window in a zone with a fixed offset\<close>

text \<open>Whether a minute of the day lies in a window; an overnight window wraps around midnight.\<close>

definition in_window :: "RunningHours \<Rightarrow> int \<Rightarrow> bool" where
  "in_window r m \<longleftrightarrow>
     (if startMinute r < endMinute r then startMinute r \<le> m \<and> m < endMinute r
      else startMinute r \<le> m \<or> m < endMinute r)"

abbreviation valid_hours :: "RunningHours \<Rightarrow> bool" where
  "valid_hours r \<equiv> 0 \<le> startMinute r \<and> startMinute r < 1440 \<and> 0 \<le> endMinute r \<and>
     endMinute r < 1440 \<and> startMinute r \<noteq> endMinute r"

definition minute_of_day :: "location \<Rightarrow> time \<Rightarrow> int" where
  "minute_of_day loc t = loc_hour loc t * 60 + loc_minute loc t"

lemma fixed_zone_day:
  "loc_midnight (fixed_zone off) t = t - (t + off) mod Day"
  "minute_of_day (fixed_zone off) t = (t + off) mod Day div Minute"
proof -
  have "(t + off) div Day * Day = t + off - (t + off) mod Day"
    by (simp add: minus_mod_eq_div_mult)
  then show "loc_midnight (fixed_zone off) t = t - (t + off) mod Day"
    by (simp add: fixed_zone_def)
  have "(t + off) mod Day div Hour = (t + off) mod Day div Minute div 60"
    by (simp add: zdiv_zmult2_eq [symmetric])
  then show "minute_of_day (fixed_zone off) t = (t + off) mod Day div Minute"
    by (simp add: minute_of_day_def fixed_zone_def)
qed

lemma mod_pos_unique_wrap:
  "- 1440 \<le> a - b \<Longrightarrow> a - b < 0 \<Longrightarrow> (a - b) mod 1440 = 1440 + a - b" for a b :: int
  using mod_pos_pos_trivial [of "1440 + a - b" 1440] mod_add_self1 [of 1440 "a - b"]
  by (simp add: algebra_simps)

lemma minute_le_iff: "k \<le> x div Minute \<longleftrightarrow> k * Minute \<le> x" for k x :: int
proof -
  have "x = x div Minute * Minute + x mod Minute" "0 \<le> x mod Minute" "x mod Minute < Minute"
    by simp_all
  then show ?thesis by linarith
qed

lemma WindowAt_wall_clock:
  assumes r: "valid_hours r" and w: "WindowAt (fixed_zone off) r now = (s, e, in')"
  shows "in' = in_window r (minute_of_day (fixed_zone off) now) \<and>
    (in' \<longrightarrow> s \<le> now \<and> now < e \<and> e - s = (endMinute r - startMinute r) mod 1440 * Minute \<and>
       minute_of_day (fixed_zone off) e = endMinute r \<and>
       minute_of_day (fixed_zone off) s = startMinute r)"
proof -
  let ?z = "fixed_zone off" and ?x = "(now + off) mod Day"
  have x: "0 \<le> ?x" "?x < Day" by simp_all
  have mid: "loc_midnight ?z now = now - ?x" and m: "minute_of_day ?z now = ?x div Minute"
    by (rule fixed_zone_day)+
  have clock: "loc_hour ?z now * 60 + loc_minute ?z now = ?x div Minute"
    using m by (simp add: minute_of_day_def)
  have at: "minute_of_day ?z (now - ?x + d * Day + k * Minute) = k" if "0 \<le> k" "k < 1440" for k d
  proof -
    have "now + off = (now + off) div Day * Day + ?x" by simp
    then have "now - ?x + d * Day + k * Minute + off = k * Minute + ((now + off) div Day + d) * Day"
      by (simp add: algebra_simps)
    then have "(now - ?x + d * Day + k * Minute + off) mod Day = (k * Minute) mod Day"
      by (simp only: mod_mult_self1)
    also have "\<dots> = k * Minute" using that by simp
    finally show ?thesis by (simp add: fixed_zone_day(2))
  qed
  note at0 = at [where d = 0, simplified]
  note le = minute_le_iff [of _ ?x]
  have lt: "?x div Minute < k \<longleftrightarrow> ?x < k * Minute" for k using le [of k] by linarith
  show ?thesis
  proof (cases "startMinute r < endMinute r")
    case True
    then have span: "(endMinute r - startMinute r) mod 1440 = endMinute r - startMinute r"
      using r by simp
    have se: "s = now - ?x + startMinute r * Minute" "e = now - ?x + endMinute r * Minute"
      and i: "in' \<longleftrightarrow> \<not> now < s \<and> now < e"
      using w True by (auto simp: WindowAt_def Let_def mid)
    have "in' = in_window r (minute_of_day ?z now)"
      unfolding i se m in_window_def le lt using True by auto
    moreover have "minute_of_day ?z e = endMinute r" "minute_of_day ?z s = startMinute r"
      unfolding se using at0 r by simp_all
    moreover have "e - s = (endMinute r - startMinute r) mod 1440 * Minute"
      unfolding span se by simp
    ultimately show ?thesis using i by auto
  next
    case False
    then have span: "(endMinute r - startMinute r) mod 1440 = 1440 + endMinute r - startMinute r"
      using r by (intro mod_pos_unique_wrap) simp_all
    show ?thesis
    proof (cases "startMinute r \<le> ?x div Minute")
      case today: True
      have se: "s = now - ?x + startMinute r * Minute" "e = now - ?x + 1 * Day + endMinute r * Minute"
        and i: "in' \<longleftrightarrow> \<not> now < s \<and> now < e"
        using w False today by (auto simp: WindowAt_def Let_def mid clock)
      have "startMinute r * Minute \<le> ?x" using today le by blast
      then have "in'" unfolding i se using x r by linarith
      moreover have "in_window r (minute_of_day ?z now)" using False today by (simp add: in_window_def m)
      moreover have "minute_of_day ?z e = endMinute r" "minute_of_day ?z s = startMinute r"
        unfolding se using at0 at [where d = 1] r by simp_all
      moreover have "e - s = (endMinute r - startMinute r) mod 1440 * Minute"
        unfolding span se by simp
      ultimately show ?thesis using i by auto
    next
      case yesterday: False
      have se: "s = now - ?x + - 1 * Day + startMinute r * Minute" "e = now - ?x + endMinute r * Minute"
        and i: "in' \<longleftrightarrow> \<not> now < s \<and> now < e"
        using w False yesterday by (auto simp: WindowAt_def Let_def mid clock)
      have "\<not> now < s" unfolding se using x r by linarith
      then have "in' = in_window r (minute_of_day ?z now)"
        unfolding i in_window_def m le lt using False yesterday le by (auto simp: se)
      moreover have "minute_of_day ?z e = endMinute r" "minute_of_day ?z s = startMinute r"
        unfolding se using at0 at [where d = "- 1"] r by simp_all
      moreover have "e - s = (endMinute r - startMinute r) mod 1440 * Minute"
        unfolding span se by simp
      ultimately show ?thesis using i by auto
    qed
  qed
qed

lemma WindowAt_window:
  "valid_hours r \<Longrightarrow> WindowAt (fixed_zone off) r now = (s, e, i) \<Longrightarrow> i \<Longrightarrow>
   s \<le> now \<and> now < e \<and> e - s = (endMinute r - startMinute r) mod 1440 * Minute \<and>
   minute_of_day (fixed_zone off) e = endMinute r \<and> minute_of_day (fixed_zone off) s = startMinute r"
  using WindowAt_wall_clock by blast

text \<open>
  C38: in every zone with a fixed offset from UTC, \<open>WindowAt\<close> decides by the wall clock: the
  time is in the window exactly if the local minute of the day is, overnight windows
  included. When it is, the returned bounds enclose the time, lie as far apart as the two
  clock values, and the end falls on the end minute of the window.
\<close>

theorem WindowAt_fixed_zone:
  assumes "valid_hours r" "WindowAt (fixed_zone off) r now = (s, e, in')"
  shows "in' = in_window r (minute_of_day (fixed_zone off) now) \<and>
    (in' \<longrightarrow> s \<le> now \<and> now < e \<and> e - s = (endMinute r - startMinute r) mod 1440 * Minute \<and>
       minute_of_day (fixed_zone off) e = endMinute r \<and>
       minute_of_day (fixed_zone off) s = startMinute r)"
  using assms by (rule WindowAt_wall_clock)

theorem WindowAt_fixed_zone_witness:
  "in_window \<lparr>startMinute = 1320, endMinute = 360\<rparr> (minute_of_day (fixed_zone Hour) (2 * Hour))"
  using WindowAt_fixed_zone
    [where r = "\<lparr>startMinute = 1320, endMinute = 360\<rparr>" and off = Hour and now = "2 * Hour" and
       s = "- 3 * Hour" and e = "5 * Hour" and in' = True]
  by (simp add: WindowAt_def Let_def fixed_zone_def)

section \<open>The days and the time that remains\<close>

text \<open>The weekday a token names, and whether it may stand in the list.\<close>

definition day_of_token :: "string \<Rightarrow> weekday option" where
  "day_of_token p = map_of weekdayNames (ToLower (TrimSpace p))"

definition good_token :: "string \<Rightarrow> bool" where
  "good_token p \<longleftrightarrow> TrimSpace p = [] \<or> day_of_token p \<noteq> None"

lemma day_of_blank: "TrimSpace p = [] \<Longrightarrow> day_of_token p = None"
  by (simp add: day_of_token_def weekdayNames_def ToLower_def)

lemma ToLower_eq_Nil [simp]: "ToLower s = [] \<longleftrightarrow> s = []"
  by (simp add: ToLower_def)

lemma parse_days_spec:
  "parse_days v ps days = Inr d \<Longrightarrow>
   (\<forall>p\<in>set ps. good_token p) \<and> d \<noteq> [] \<and>
   (\<forall>wd. days_Contains d wd \<longleftrightarrow> days_Contains days wd \<or> (\<exists>p\<in>set ps. day_of_token p = Some wd))"
proof (induction ps arbitrary: days)
  case Nil
  then show ?case by (auto split: if_splits)
next
  case (Cons p ps)
  show ?case
  proof (cases "TrimSpace p = []")
    case True
    with Cons show ?thesis by (simp add: good_token_def day_of_blank)
  next
    case False
    with Cons.prems obtain wd where wd: "day_of_token p = Some wd"
      and rest: "parse_days v ps (map_put wd True days) = Inr d"
      by (auto simp: Let_def day_of_token_def split: option.splits)
    from Cons.IH [OF rest] wd show ?thesis
      by (auto simp: good_token_def days_Contains_def map_of_put)
  qed
qed

lemma map_put_not_Nil: "map_put k v m \<noteq> []"
  using map_of_put [of k v m] by (metis fun_upd_same map_of.simps(1) option.distinct(1))

lemma parse_days_complete:
  "\<forall>p\<in>set ps. good_token p \<Longrightarrow> days \<noteq> [] \<or> (\<exists>p\<in>set ps. day_of_token p \<noteq> None) \<Longrightarrow>
   \<exists>d. parse_days v ps days = Inr d"
proof (induction ps arbitrary: days)
  case (Cons p ps)
  show ?case
  proof (cases "TrimSpace p = []")
    case True
    with Cons show ?thesis by (simp add: day_of_blank)
  next
    case False
    with Cons.prems(1) obtain wd where "day_of_token p = Some wd" by (auto simp: good_token_def)
    moreover from Cons obtain d where "parse_days v ps (map_put wd True days) = Inr d"
      using map_put_not_Nil by fastforce
    ultimately show ?thesis using False by (simp add: Let_def day_of_token_def)
  qed
qed simp

text \<open>
  A list of days is accepted exactly if every token that is not blank names a weekday
  (in any letter case, in full or abbreviated) and at least one does, and the set it denotes
  contains exactly the weekdays that are named.
\<close>

theorem running_days_denotation:
  "(\<exists>d. ParseRunningDays v = Inr d \<and>
        (\<forall>wd. days_Contains d wd \<longleftrightarrow> (\<exists>p\<in>set (Split (CHR '','') v). day_of_token p = Some wd)))
   \<longleftrightarrow> (\<forall>p\<in>set (Split (CHR '','') v). good_token p) \<and>
       (\<exists>p\<in>set (Split (CHR '','') v). day_of_token p \<noteq> None)"
  (is "?accepted \<longleftrightarrow> ?good \<and> ?some")
proof
  assume ?accepted
  then obtain d where d: "ParseRunningDays v = Inr d" by blast
  note spec = parse_days_spec [OF d [unfolded ParseRunningDays_def]]
  moreover have ?some
  proof (rule ccontr)
    assume "\<not> ?some"
    then have blank: "\<forall>p\<in>set (Split (CHR '','') v). TrimSpace p = []"
      using spec by (auto simp: good_token_def)
    have "parse_days v ps [] = Inl (NoDays v)" if "\<forall>p\<in>set ps. TrimSpace p = []" for ps
      using that by (induction ps) simp_all
    with blank d show False by (simp add: ParseRunningDays_def)
  qed
  ultimately show "?good \<and> ?some" by blast
next
  assume "?good \<and> ?some"
  then obtain d where d: "ParseRunningDays v = Inr d"
    using parse_days_complete unfolding ParseRunningDays_def by blast
  with parse_days_spec [OF d [unfolded ParseRunningDays_def]] show ?accepted
    by (simp add: days_Contains_def)
qed

theorem running_days_denotation_witness:
  "\<exists>d. ParseRunningDays ''Mon, FRIDAY,'' = Inr d \<and>
       (\<forall>wd. days_Contains d wd \<longleftrightarrow>
          (\<exists>p\<in>set (Split (CHR '','') ''Mon, FRIDAY,''). day_of_token p = Some wd))"
  by (rule iffD2 [OF running_days_denotation]) code_simp

text \<open>
  When an instance is kept warm, in a zone with a fixed offset, both texts are valid, the
  remaining time is positive and at most a day, it ends at the window's end minute, and the
  window began, at its start minute and less than a day ago, on one of the listed days. An
  overnight window thus belongs to the day on which it began.
\<close>

theorem running_hours_remaining:
  assumes "runningHoursRemaining (fixed_zone off) hours days now = Inr (remaining, True)"
  shows "\<exists>r start. ParseRunningHours hours = Inr r \<and>
     0 < remaining \<and> remaining \<le> Day \<and>
     minute_of_day (fixed_zone off) (now + remaining) = endMinute r \<and>
     start \<le> now \<and> now < start + Day \<and> minute_of_day (fixed_zone off) start = startMinute r \<and>
     (days \<noteq> [] \<longrightarrow> (\<exists>p\<in>set (Split (CHR '','') days).
        day_of_token p = Some (loc_weekday (fixed_zone off) start)))"
proof -
  let ?z = "fixed_zone off"
  from assms obtain r where r: "ParseRunningHours hours = Inr r"
    by (auto simp: runningHoursRemaining_def split: sum.splits)
  obtain s e i where w: "WindowAt ?z r now = (s, e, i)" by (cases "WindowAt ?z r now")
  from assms r w have i: i and rem: "remaining = max (e - now) 0"
    and d: "days \<noteq> [] \<Longrightarrow> \<exists>rd. ParseRunningDays days = Inr rd \<and> days_Contains rd (loc_weekday ?z s)"
    by (auto simp: runningHoursRemaining_def split: sum.splits if_splits)
  note win = WindowAt_window [OF ParseRunningHours_bounds [OF r] w i]
  have "0 \<le> (endMinute r - startMinute r) mod 1440" "(endMinute r - startMinute r) mod 1440 < 1440"
    by simp_all
  then have "e - s < Day" using win by linarith
  moreover have "s \<le> now" "now < e" using win by simp_all
  ultimately have rem': "remaining = e - now" "0 < remaining" "remaining \<le> Day" "now < s + Day"
    using rem by linarith+
  have "\<exists>p\<in>set (Split (CHR '','') days). day_of_token p = Some (loc_weekday ?z s)" if ne: "days \<noteq> []"
  proof -
    from d [OF ne] obtain rd where "ParseRunningDays days = Inr rd" "days_Contains rd (loc_weekday ?z s)"
      by blast
    with parse_days_spec [of days "Split (CHR '','') days" "[]" rd] show ?thesis
      by (simp add: ParseRunningDays_def days_Contains_def)
  qed
  with r rem' win show ?thesis by (intro exI [of _ r] exI [of _ s]) simp
qed

theorem running_hours_remaining_witness:
  "\<exists>r start. ParseRunningHours ''22:00-06:00'' = Inr r \<and>
     0 < 3 * Hour \<and> 3 * Hour \<le> Day \<and>
     minute_of_day (fixed_zone Hour) (2 * Hour + 3 * Hour) = endMinute r \<and>
     start \<le> 2 * Hour \<and> 2 * Hour < start + Day \<and>
     minute_of_day (fixed_zone Hour) start = startMinute r \<and>
     (''Wed'' \<noteq> [] \<longrightarrow> (\<exists>p\<in>set (Split (CHR '','') ''Wed'').
        day_of_token p = Some (loc_weekday (fixed_zone Hour) start)))"
  by (rule running_hours_remaining) code_simp

text \<open>
  On a day on which the clock jumps forward, the window is placed by elapsed time since
  midnight and not by the wall clock: at 09:30 local time the window 09:00-18:00 is reported
  as not active, and at 18:30 it still is.
\<close>

theorem WindowAt_spring_forward:
  "let r = \<lparr>startMinute = 540, endMinute = 1080\<rparr>; morning = 8 * Hour + 30 * Minute;
       evening = 17 * Hour + 30 * Minute
   in ParseRunningHours ''09:00-18:00'' = Inr r \<and>
      minute_of_day spring_zone morning = 9 * 60 + 30 \<and> \<not> snd (snd (WindowAt spring_zone r morning)) \<and>
      minute_of_day spring_zone evening = 18 * 60 + 30 \<and> snd (snd (WindowAt spring_zone r evening))"
  by code_simp

end
