(* ===== verification/Instance.thy ===== *)
theory Instance
  imports Running_Hours
begin

text \<open>
  An instance as Sablier sees it: \<open>pkg/sablier/instance.go\<close>, \<open>instance_config.go\<close>,
  \<open>instance_provider.go\<close> and \<open>labels.go\<close>. The record \<open>InstanceInfo\<close> is what a provider
  reports of a workload, \<open>InstanceConfig\<close> the typed form of its \<open>sablier.*\<close> labels.
  A pointer that may be nil is an option, a nil slice the empty list. An \<open>int32\<close> or
  \<open>uint16\<close> is an \<^typ>\<open>int\<close>, within its bounds by \<open>scale_config_bounds\<close>. The warnings that
  the parser logs for a value it ignores are not part of its result.
\<close>

section \<open>Labels\<close>

definition LabelEnable :: string where "LabelEnable = ''sablier.enable''"
definition LabelGroup :: string where "LabelGroup = ''sablier.group''"
definition LabelReadyAfter :: string where "LabelReadyAfter = ''sablier.ready-after''"
definition LabelReadyOnStart :: string where "LabelReadyOnStart = ''sablier.ready-on-start''"
definition LabelRunningHours :: string where "LabelRunningHours = ''sablier.running-hours''"
definition LabelRunningDays :: string where "LabelRunningDays = ''sablier.running-days''"
definition LabelAntiAffinity :: string where "LabelAntiAffinity = ''sablier.anti-affinity''"
definition LabelIdleReplicas :: string where "LabelIdleReplicas = ''sablier.idle.replicas''"
definition LabelIdleCPU :: string where "LabelIdleCPU = ''sablier.idle.cpu''"
definition LabelIdleMemory :: string where "LabelIdleMemory = ''sablier.idle.memory''"
definition LabelActiveReplicas :: string where "LabelActiveReplicas = ''sablier.active.replicas''"
definition LabelActiveCPU :: string where "LabelActiveCPU = ''sablier.active.cpu''"
definition LabelActiveMemory :: string where "LabelActiveMemory = ''sablier.active.memory''"
definition LabelIdleBlkioWeight :: string where "LabelIdleBlkioWeight = ''sablier.idle.blkio-weight''"
definition LabelActiveBlkioWeight :: string where "LabelActiveBlkioWeight = ''sablier.active.blkio-weight''"
definition LabelIdleBlkioWeightDevice :: string where "LabelIdleBlkioWeightDevice = ''sablier.idle.blkio-weight-device''"
definition LabelActiveBlkioWeightDevice :: string where "LabelActiveBlkioWeightDevice = ''sablier.active.blkio-weight-device''"
definition LabelIdleBlkioReadBps :: string where "LabelIdleBlkioReadBps = ''sablier.idle.blkio-device-read-bps''"
definition LabelActiveBlkioReadBps :: string where "LabelActiveBlkioReadBps = ''sablier.active.blkio-device-read-bps''"
definition LabelIdleBlkioWriteBps :: string where "LabelIdleBlkioWriteBps = ''sablier.idle.blkio-device-write-bps''"
definition LabelActiveBlkioWriteBps :: string where "LabelActiveBlkioWriteBps = ''sablier.active.blkio-device-write-bps''"
definition LabelIdleBlkioReadIOps :: string where "LabelIdleBlkioReadIOps = ''sablier.idle.blkio-device-read-iops''"
definition LabelActiveBlkioReadIOps :: string where "LabelActiveBlkioReadIOps = ''sablier.active.blkio-device-read-iops''"
definition LabelIdleBlkioWriteIOps :: string where "LabelIdleBlkioWriteIOps = ''sablier.idle.blkio-device-write-iops''"
definition LabelActiveBlkioWriteIOps :: string where "LabelActiveBlkioWriteIOps = ''sablier.active.blkio-device-write-iops''"

text \<open>Reading a label: a missing one reads as the empty string.\<close>

type_synonym labels = "(string, string) gomap"

definition label_value :: "labels \<Rightarrow> string \<Rightarrow> string" where
  "label_value labels k = (case map_of labels k of None \<Rightarrow> [] | Some v \<Rightarrow> v)"

section \<open>Data\<close>

text \<open>\<open>InstanceStatusUnset\<close> is the zero value of the Go type, the empty string.\<close>

datatype InstanceStatus =
    InstanceStatusUnset
  | InstanceStatusStopped
  | InstanceStatusStarting
  | InstanceStatusReady
  | InstanceStatusError
  | InstanceStatusCompleted
  | InstanceStatusNotReady

datatype ProviderType =
    ProviderUnset
  | ProviderDocker
  | ProviderSwarm
  | ProviderKubernetes
  | ProviderPodman
  | ProviderSystemd

record DockerContainerInfo =
  docker_ID :: string
  docker_Image :: string
  docker_Labels :: labels

record SwarmServiceInfo =
  swarm_ID :: string
  swarm_Image :: string
  swarm_Labels :: labels

record KubernetesWorkloadInfo =
  k8s_Namespace :: string
  k8s_Kind :: string
  k8s_Image :: string
  k8s_Labels :: labels

record PodmanContainerInfo =
  podman_ID :: string
  podman_Image :: string
  podman_Labels :: labels

record BlkioWeightDevice =
  wd_Path :: string
  wd_Weight :: int

record BlkioThrottleDevice =
  td_Path :: string
  td_Rate :: string

record ResourceProfile =
  Replicas :: int
  CPU :: string
  Memory :: string
  BlkioWeight :: int
  BlkioWeightDevices :: "BlkioWeightDevice list"
  BlkioDeviceReadBps :: "BlkioThrottleDevice list"
  BlkioDeviceWriteBps :: "BlkioThrottleDevice list"
  BlkioDeviceReadIOps :: "BlkioThrottleDevice list"
  BlkioDeviceWriteIOps :: "BlkioThrottleDevice list"

record ScaleConfig =
  Idle :: ResourceProfile
  Active :: ResourceProfile

record InstanceConfig =
  cfg_Enabled :: bool
  cfg_Groups :: "string list"
  cfg_ReadyAfter :: duration
  cfg_ReadyOnStart :: bool
  cfg_RunningHours :: string
  cfg_RunningDays :: string
  cfg_AntiAffinity :: "string list"
  cfg_Scale :: "ScaleConfig option"

record InstanceInfo =
  i_Name :: string
  i_CurrentReplicas :: int
  i_DesiredReplicas :: int
  i_Status :: InstanceStatus
  i_Groups :: "string list"
  i_Enabled :: string
  i_Message :: string
  i_Provider :: ProviderType
  i_Docker :: "DockerContainerInfo option"
  i_Swarm :: "SwarmServiceInfo option"
  i_Kubernetes :: "KubernetesWorkloadInfo option"
  i_Podman :: "PodmanContainerInfo option"
  i_ReadyAfter :: duration
  i_ReadyAt :: "time option"
  i_RunningHours :: string
  i_RunningDays :: string
  i_ReadyOnStart :: bool
  i_AntiAffinity :: "string list"
  i_ScaleConfig :: "ScaleConfig option"
  i_Config :: "InstanceConfig option"

record InstanceConfiguration =
  c_Name :: string
  c_Groups :: "string list"
  c_Enabled :: string

text \<open>The zero value of the struct, from which composite literals start.\<close>

definition zero_InstanceInfo :: InstanceInfo where
  "zero_InstanceInfo =
     \<lparr>i_Name = [], i_CurrentReplicas = 0, i_DesiredReplicas = 0, i_Status = InstanceStatusUnset,
      i_Groups = [], i_Enabled = [], i_Message = [], i_Provider = ProviderUnset, i_Docker = None,
      i_Swarm = None, i_Kubernetes = None, i_Podman = None, i_ReadyAfter = 0, i_ReadyAt = None,
      i_RunningHours = [], i_RunningDays = [], i_ReadyOnStart = False, i_AntiAffinity = [],
      i_ScaleConfig = None, i_Config = None\<rparr>"

section \<open>Operations\<close>

definition IsEnabled :: "InstanceInfo \<Rightarrow> bool" where
  "IsEnabled instance =
     (case i_Config instance of
        Some cfg \<Rightarrow> cfg_Enabled cfg
      | None \<Rightarrow> i_Enabled instance = ''true'')"

definition c_IsEnabled :: "InstanceConfiguration \<Rightarrow> bool" where
  "c_IsEnabled c \<longleftrightarrow> c_Enabled c = ''true''"

definition HasBlkioDeviceLimits :: "ResourceProfile \<Rightarrow> bool" where
  "HasBlkioDeviceLimits r \<longleftrightarrow>
     BlkioWeightDevices r \<noteq> [] \<or> BlkioDeviceReadBps r \<noteq> [] \<or> BlkioDeviceWriteBps r \<noteq> [] \<or>
     BlkioDeviceReadIOps r \<noteq> [] \<or> BlkioDeviceWriteIOps r \<noteq> []"

definition HasResources :: "ResourceProfile \<Rightarrow> bool" where
  "HasResources r \<longleftrightarrow>
     CPU r \<noteq> [] \<or> Memory r \<noteq> [] \<or> BlkioWeight r \<noteq> 0 \<or> HasBlkioDeviceLimits r"

definition IsReady :: "time \<Rightarrow> InstanceInfo \<Rightarrow> bool" where
  "IsReady now instance =
     (if i_ReadyOnStart instance then True
      else if i_Status instance \<noteq> InstanceStatusReady then False
      else case i_ReadyAt instance of
             None \<Rightarrow> True
           | Some at \<Rightarrow> i_ReadyAfter instance = 0 \<or> now - at \<ge> i_ReadyAfter instance)"

fun parse_weight_devices :: "string list \<Rightarrow> BlkioWeightDevice list" where
  "parse_weight_devices [] = []"
| "parse_weight_devices (entry # es) =
     (case CutLast (TrimSpace entry) (CHR '':'') of (path, wstr, ok) \<Rightarrow>
        if \<not> ok \<or> path = [] then parse_weight_devices es
        else case ParseUint 16 (TrimSpace wstr) of
               None \<Rightarrow> parse_weight_devices es
             | Some n \<Rightarrow>
                 if n < 10 \<or> n > 1000 then parse_weight_devices es
                 else \<lparr>wd_Path = path, wd_Weight = n\<rparr> # parse_weight_devices es)"

definition parseWeightDevices :: "string \<Rightarrow> BlkioWeightDevice list" where
  "parseWeightDevices s = parse_weight_devices (Split (CHR '','') s)"

fun parse_throttle_devices :: "string list \<Rightarrow> BlkioThrottleDevice list" where
  "parse_throttle_devices [] = []"
| "parse_throttle_devices (entry # es) =
     (case CutLast (TrimSpace entry) (CHR '':'') of (path, r, ok) \<Rightarrow>
        let rate = TrimSpace r
        in if \<not> ok \<or> path = [] \<or> rate = [] then parse_throttle_devices es
           else \<lparr>td_Path = path, td_Rate = rate\<rparr> # parse_throttle_devices es)"

definition parseThrottleDevices :: "string \<Rightarrow> BlkioThrottleDevice list" where
  "parseThrottleDevices s = parse_throttle_devices (Split (CHR '','') s)"

text \<open>The blocks of \<open>ScaleConfigFromLabels\<close> that are repeated for both profiles.\<close>

definition label_replicas :: "labels \<Rightarrow> string \<Rightarrow> int \<Rightarrow> int" where
  "label_replicas labels k dflt =
     (case map_of labels k of
        None \<Rightarrow> dflt
      | Some v \<Rightarrow> (case ParseInt 32 v of
            None \<Rightarrow> dflt
          | Some n \<Rightarrow> if n \<ge> 0 then n else dflt))"

definition label_blkio_weight :: "labels \<Rightarrow> string \<Rightarrow> int" where
  "label_blkio_weight labels k =
     (case map_of labels k of
        None \<Rightarrow> 0
      | Some v \<Rightarrow> (case ParseUint 16 v of
            None \<Rightarrow> 0
          | Some n \<Rightarrow> if n \<ge> 10 \<and> n \<le> 1000 then n else 0))"

definition label_weight_devices :: "labels \<Rightarrow> string \<Rightarrow> BlkioWeightDevice list" where
  "label_weight_devices labels k =
     (let v = label_value labels k in if v \<noteq> [] then parseWeightDevices v else [])"

definition label_throttle_devices :: "labels \<Rightarrow> string \<Rightarrow> BlkioThrottleDevice list" where
  "label_throttle_devices labels k =
     (let v = label_value labels k in if v \<noteq> [] then parseThrottleDevices v else [])"

definition ScaleConfigFromLabels :: "labels \<Rightarrow> ScaleConfig" where
  "ScaleConfigFromLabels labels =
     \<lparr>Idle =
        \<lparr>Replicas = label_replicas labels LabelIdleReplicas 0,
         CPU = label_value labels LabelIdleCPU,
         Memory = label_value labels LabelIdleMemory,
         BlkioWeight = label_blkio_weight labels LabelIdleBlkioWeight,
         BlkioWeightDevices = label_weight_devices labels LabelIdleBlkioWeightDevice,
         BlkioDeviceReadBps = label_throttle_devices labels LabelIdleBlkioReadBps,
         BlkioDeviceWriteBps = label_throttle_devices labels LabelIdleBlkioWriteBps,
         BlkioDeviceReadIOps = label_throttle_devices labels LabelIdleBlkioReadIOps,
         BlkioDeviceWriteIOps = label_throttle_devices labels LabelIdleBlkioWriteIOps\<rparr>,
      Active =
        \<lparr>Replicas = label_replicas labels LabelActiveReplicas 1,
         CPU = label_value labels LabelActiveCPU,
         Memory = label_value labels LabelActiveMemory,
         BlkioWeight = label_blkio_weight labels LabelActiveBlkioWeight,
         BlkioWeightDevices = label_weight_devices labels LabelActiveBlkioWeightDevice,
         BlkioDeviceReadBps = label_throttle_devices labels LabelActiveBlkioReadBps,
         BlkioDeviceWriteBps = label_throttle_devices labels LabelActiveBlkioWriteBps,
         BlkioDeviceReadIOps = label_throttle_devices labels LabelActiveBlkioReadIOps,
         BlkioDeviceWriteIOps = label_throttle_devices labels LabelActiveBlkioWriteIOps\<rparr>\<rparr>"

definition ParseGroups :: "string \<Rightarrow> string list" where
  "ParseGroups label =
     (if label = [] then [''default'']
      else let out = dedup_loop [] (map TrimSpace (Split (CHR '','') label))
           in if out = [] then [''default''] else out)"

definition ParseAntiAffinity :: "string \<Rightarrow> string list" where
  "ParseAntiAffinity label = dedup_loop [] (map TrimSpace (Split (CHR '','') label))"

definition scale_present :: "ScaleConfig \<Rightarrow> bool" where
  "scale_present sc \<longleftrightarrow>
     Replicas (Idle sc) > 0 \<or> HasResources (Idle sc) \<or>
     Replicas (Active sc) > 1 \<or> HasResources (Active sc)"

definition InstanceConfigFromLabels :: "labels \<Rightarrow> InstanceConfig" where
  "InstanceConfigFromLabels labels =
     (let enabled = (label_value labels LabelEnable = ''true'');
          after = label_value labels LabelReadyAfter;
          hours = label_value labels LabelRunningHours;
          days = label_value labels LabelRunningDays;
          onstart = label_value labels LabelReadyOnStart;
          anti = label_value labels LabelAntiAffinity;
          sc = ScaleConfigFromLabels labels
      in \<lparr>cfg_Enabled = enabled,
          cfg_Groups = (if enabled then ParseGroups (label_value labels LabelGroup) else []),
          cfg_ReadyAfter =
            (if after \<noteq> [] then case ParseDuration after of Some d \<Rightarrow> d | None \<Rightarrow> 0 else 0),
          cfg_ReadyOnStart =
            (if onstart \<noteq> [] then case ParseBool onstart of None \<Rightarrow> False | Some b \<Rightarrow> b else False),
          cfg_RunningHours =
            (if hours \<noteq> [] then case ParseRunningHours hours of Inr _ \<Rightarrow> hours | Inl _ \<Rightarrow> [] else []),
          cfg_RunningDays =
            (if days \<noteq> [] then case ParseRunningDays days of Inr _ \<Rightarrow> days | Inl _ \<Rightarrow> [] else []),
          cfg_AntiAffinity = (if anti \<noteq> [] then ParseAntiAffinity anti else []),
          cfg_Scale = (if scale_present sc then Some sc else None)\<rparr>)"

definition PopulateEnabledAndGroup :: "InstanceInfo \<Rightarrow> labels \<Rightarrow> InstanceInfo" where
  "PopulateEnabledAndGroup info labels =
     (let cfg = InstanceConfigFromLabels labels
      in info\<lparr>i_Config := Some cfg,
              i_Enabled := label_value labels LabelEnable,
              i_Groups := cfg_Groups cfg,
              i_ReadyAfter := cfg_ReadyAfter cfg,
              i_RunningHours := cfg_RunningHours cfg,
              i_RunningDays := cfg_RunningDays cfg,
              i_ReadyOnStart := cfg_ReadyOnStart cfg,
              i_AntiAffinity := cfg_AntiAffinity cfg,
              i_ScaleConfig := cfg_Scale cfg\<rparr>)"

section \<open>Groups\<close>

lemma trimmed_parts:
  "p \<in> set (map TrimSpace (Split c s)) \<Longrightarrow> c \<notin> set p \<and> TrimSpace p = p"
  using set_TrimSpace Split_parts by fastforce

definition named_parts :: "string \<Rightarrow> string set" where
  "named_parts s = {p \<in> set (map TrimSpace (Split (CHR '','') s)). p \<noteq> []}"

lemma set_dedup_parts:
  "set (dedup_loop [] (map TrimSpace (Split (CHR '','') s))) = named_parts s"
  by (simp add: set_dedup_loop named_parts_def)

lemma named_parts_Nil [simp]: "named_parts [] = {}"
  by (simp add: named_parts_def)

lemma set_ParseAntiAffinity: "set (ParseAntiAffinity s) = named_parts s"
  by (simp add: ParseAntiAffinity_def set_dedup_parts)

lemma ParseGroups_conv:
  "ParseGroups s = (if named_parts s = {} then [''default''] else ParseAntiAffinity s)"
proof -
  have "(dedup_loop [] (map TrimSpace (Split (CHR '','') s)) = []) \<longleftrightarrow> named_parts s = {}"
    using set_dedup_parts [of s] by (metis set_empty)
  then show ?thesis by (auto simp: ParseGroups_def ParseAntiAffinity_def Let_def)
qed

lemma distinct_ParseAntiAffinity: "distinct (ParseAntiAffinity s)"
  by (simp add: ParseAntiAffinity_def distinct_dedup_loop)

lemma distinct_ParseGroups: "distinct (ParseGroups s)"
  by (simp add: ParseGroups_conv distinct_ParseAntiAffinity)

lemma set_ParseGroups:
  "set (ParseGroups s) = (if named_parts s = {} then {''default''} else named_parts s)"
  by (simp add: ParseGroups_conv set_ParseAntiAffinity)

lemma ParseGroups_not_Nil: "ParseGroups s \<noteq> []"
  using set_ParseAntiAffinity [of s] by (auto simp: ParseGroups_conv)

text \<open>A list of names that can be written as a label value.\<close>

definition clean_names :: "string list \<Rightarrow> bool" where
  "clean_names gs \<longleftrightarrow> gs \<noteq> [] \<and> distinct gs \<and>
     (\<forall>g\<in>set gs. g \<noteq> [] \<and> TrimSpace g = g \<and> CHR '','' \<notin> set g)"

lemma ParseAntiAffinity_Join: "clean_names gs \<Longrightarrow> ParseAntiAffinity (Join gs '','') = gs"
proof -
  assume c: "clean_names gs"
  then have "Split (CHR '','') (Join gs '','') = gs" by (simp add: clean_names_def Split_Join)
  moreover have "map TrimSpace gs = gs" using c by (simp add: clean_names_def map_idI)
  ultimately show ?thesis
    using c dedup_loop_id [of gs "[]"] by (auto simp: ParseAntiAffinity_def clean_names_def)
qed

text \<open>
  A group label denotes a list of distinct names, never empty: the trimmed parts of the
  label that are not blank, or \<open>default\<close> when there are none. Every list of clean names,
  written with commas, is read back unchanged, as groups and as anti-affinity groups.
\<close>

theorem groups_label_denotation:
  "ParseGroups s \<noteq> [] \<and> distinct (ParseGroups s) \<and>
   set (ParseGroups s) = (if named_parts s = {} then {''default''} else named_parts s) \<and>
   distinct (ParseAntiAffinity s) \<and> set (ParseAntiAffinity s) = named_parts s \<and>
   (clean_names gs \<longrightarrow>
      ParseGroups (Join gs '','') = gs \<and> ParseAntiAffinity (Join gs '','') = gs)"
proof -
  have "ParseGroups (Join gs '','') = gs" if c: "clean_names gs"
    using c ParseAntiAffinity_Join [OF c] set_ParseAntiAffinity [of "Join gs '',''"]
    by (auto simp: ParseGroups_conv clean_names_def)
  then show ?thesis
    by (simp add: ParseGroups_not_Nil distinct_ParseGroups distinct_ParseAntiAffinity
        set_ParseAntiAffinity ParseAntiAffinity_Join set_ParseGroups)
qed

theorem groups_label_denotation_witness:
  "ParseGroups (Join [''team-a'', ''team-b''] '','') = [''team-a'', ''team-b'']"
  using groups_label_denotation [where gs = "[''team-a'', ''team-b'']"]
  by (simp add: clean_names_def TrimSpace_def is_space_def)

section \<open>Resource profiles\<close>

definition weight_ok :: "int \<Rightarrow> bool" where
  "weight_ok w \<longleftrightarrow> 10 \<le> w \<and> w \<le> 1000"

definition throttle_ok :: "BlkioThrottleDevice \<Rightarrow> bool" where
  "throttle_ok d \<longleftrightarrow> td_Path d \<noteq> [] \<and> td_Rate d \<noteq> []"

definition profile_ok :: "ResourceProfile \<Rightarrow> bool" where
  "profile_ok r \<longleftrightarrow>
     0 \<le> Replicas r \<and> Replicas r < 2 ^ 31 \<and> (BlkioWeight r = 0 \<or> weight_ok (BlkioWeight r)) \<and>
     (\<forall>d\<in>set (BlkioWeightDevices r). wd_Path d \<noteq> [] \<and> weight_ok (wd_Weight d)) \<and>
     (\<forall>d\<in>set (BlkioDeviceReadBps r) \<union> set (BlkioDeviceWriteBps r) \<union>
          set (BlkioDeviceReadIOps r) \<union> set (BlkioDeviceWriteIOps r). throttle_ok d)"

lemma label_replicas_bounds:
  "0 \<le> dflt \<Longrightarrow> dflt < 2 ^ 31 \<Longrightarrow> 0 \<le> label_replicas l k dflt \<and> label_replicas l k dflt < 2 ^ 31"
  using ParseInt_bounds [of 32] by (auto simp: label_replicas_def split: option.splits)

lemma label_blkio_weight_ok: "label_blkio_weight l k = 0 \<or> weight_ok (label_blkio_weight l k)"
  by (auto simp: label_blkio_weight_def weight_ok_def split: option.splits)

lemma parse_weight_devices_ok:
  "d \<in> set (parse_weight_devices es) \<Longrightarrow> wd_Path d \<noteq> [] \<and> weight_ok (wd_Weight d)"
proof (induction es)
  case (Cons e es)
  obtain path w ok where c: "CutLast (TrimSpace e) (CHR '':'') = (path, w, ok)"
    by (cases "CutLast (TrimSpace e) (CHR '':'')")
  show ?case
    using Cons unfolding parse_weight_devices.simps c
    by (cases "ParseUint 16 (TrimSpace w)") (auto simp: weight_ok_def split: if_splits)
qed simp

lemma label_weight_devices_ok:
  "d \<in> set (label_weight_devices l k) \<Longrightarrow> wd_Path d \<noteq> [] \<and> weight_ok (wd_Weight d)"
  using parse_weight_devices_ok
  by (auto simp: label_weight_devices_def parseWeightDevices_def Let_def split: if_splits)

lemma parse_throttle_devices_ok: "d \<in> set (parse_throttle_devices es) \<Longrightarrow> throttle_ok d"
proof (induction es)
  case (Cons e es)
  obtain path r ok where c: "CutLast (TrimSpace e) (CHR '':'') = (path, r, ok)"
    by (cases "CutLast (TrimSpace e) (CHR '':'')")
  show ?case
    using Cons unfolding parse_throttle_devices.simps c
    by (auto simp: throttle_ok_def Let_def split: if_splits)
qed simp

lemma label_throttle_devices_ok: "d \<in> set (label_throttle_devices l k) \<Longrightarrow> throttle_ok d"
  using parse_throttle_devices_ok
  by (auto simp: label_throttle_devices_def parseThrottleDevices_def Let_def split: if_splits)

text \<open>
  Whatever the labels hold, both profiles are within their documented bounds: replica
  counts fit a non-negative \<open>int32\<close>, every I/O weight that is set lies in 10..1000, and every
  per-device limit has a path and a rate. Without the idle replica label the workload is
  stopped when idle, without the active one it runs one replica.
\<close>

theorem scale_config_bounds:
  "profile_ok (Idle (ScaleConfigFromLabels labels)) \<and>
   profile_ok (Active (ScaleConfigFromLabels labels)) \<and>
   (map_of labels LabelIdleReplicas = None \<longrightarrow> Replicas (Idle (ScaleConfigFromLabels labels)) = 0) \<and>
   (map_of labels LabelActiveReplicas = None \<longrightarrow> Replicas (Active (ScaleConfigFromLabels labels)) = 1)"
proof -
  have "profile_ok (Idle (ScaleConfigFromLabels labels))"
    using label_replicas_bounds [of 0] label_blkio_weight_ok label_weight_devices_ok label_throttle_devices_ok
    by (auto simp: profile_ok_def ScaleConfigFromLabels_def)
  moreover have "profile_ok (Active (ScaleConfigFromLabels labels))"
    using label_replicas_bounds [of 1] label_blkio_weight_ok label_weight_devices_ok label_throttle_devices_ok
    by (auto simp: profile_ok_def ScaleConfigFromLabels_def)
  ultimately show ?thesis by (simp add: ScaleConfigFromLabels_def label_replicas_def)
qed

theorem scale_config_bounds_witness:
  "Replicas (Active (ScaleConfigFromLabels [(LabelIdleReplicas, ''2'')])) = 1"
  using scale_config_bounds [of "[(LabelIdleReplicas, ''2'')]"]
  by (simp add: LabelIdleReplicas_def LabelActiveReplicas_def)

section \<open>The parsed configuration\<close>

text \<open>
  C39: the configuration parsed from any labels can be used without further checks: an instance
  is enabled exactly if its label is \<open>true\<close>, it is in some group exactly if it is enabled, and
  its running hours never make \<open>runningHoursRemaining\<close> fail. The reported instance agrees: the
  typed flag and the raw flat field give the same answer.
\<close>

theorem parsed_config_usable:
  "let info = PopulateEnabledAndGroup info0 labels
   in (IsEnabled info \<longleftrightarrow> label_value labels LabelEnable = ''true'') \<and>
      (IsEnabled info \<longleftrightarrow> i_Enabled info = ''true'') \<and>
      (IsEnabled info \<longleftrightarrow> i_Groups info \<noteq> []) \<and> distinct (i_Groups info) \<and>
      i_Name info = i_Name info0 \<and> i_Status info = i_Status info0 \<and>
      (i_RunningHours info \<noteq> [] \<longrightarrow>
         (\<exists>remaining inWindow.
            runningHoursRemaining loc (i_RunningHours info) (i_RunningDays info) now =
            Inr (remaining, inWindow)))"
proof -
  define info where "info = PopulateEnabledAndGroup info0 labels"
  have hours: "\<exists>rh. ParseRunningHours (i_RunningHours info) = Inr rh" if "i_RunningHours info \<noteq> []"
    using that
    by (auto simp: info_def PopulateEnabledAndGroup_def InstanceConfigFromLabels_def Let_def
        split: sum.splits if_splits)
  have days: "\<exists>rd. ParseRunningDays (i_RunningDays info) = Inr rd" if "i_RunningDays info \<noteq> []"
    using that
    by (auto simp: info_def PopulateEnabledAndGroup_def InstanceConfigFromLabels_def Let_def
        split: sum.splits if_splits)
  have "\<exists>remaining inWindow. runningHoursRemaining loc (i_RunningHours info) (i_RunningDays info) now =
      Inr (remaining, inWindow)" if ne: "i_RunningHours info \<noteq> []"
  proof -
    have "\<not> isl (runningHoursRemaining loc (i_RunningHours info) (i_RunningDays info) now)"
      using hours [OF ne] days by (auto simp: runningHoursRemaining_def split: prod.splits if_splits)
    then show ?thesis by (cases "runningHoursRemaining loc (i_RunningHours info) (i_RunningDays info) now") auto
  qed
  then show ?thesis
    unfolding info_def [symmetric] Let_def
    by (auto simp: info_def PopulateEnabledAndGroup_def InstanceConfigFromLabels_def Let_def
        IsEnabled_def ParseGroups_not_Nil distinct_ParseGroups)
qed

theorem parsed_config_usable_witness:
  "\<exists>remaining inWindow. runningHoursRemaining (fixed_zone 0) ''09:00-18:00'' [] 0 = Inr (remaining, inWindow)"
proof -
  let ?l = "[(LabelRunningHours, ''09:00-18:00''), (LabelRunningDays, ''nope'')]"
  have "i_RunningHours (PopulateEnabledAndGroup zero_InstanceInfo ?l) = ''09:00-18:00''"
    "i_RunningDays (PopulateEnabledAndGroup zero_InstanceInfo ?l) = []"
    by code_simp+
  with parsed_config_usable [of zero_InstanceInfo ?l "fixed_zone 0" 0] show ?thesis
    by (simp add: Let_def)
qed

text \<open>
  An instance that reported ready counts as ready from \<open>ReadyAfter\<close> later on, and stays so
  as time goes by; with ready-on-start it is ready at once whatever its status.
\<close>

theorem ready_after_settles:
  "(i_ReadyOnStart i \<longrightarrow> IsReady t i) \<and>
   (\<not> i_ReadyOnStart i \<and> IsReady t i \<longrightarrow> i_Status i = InstanceStatusReady) \<and>
   (\<not> i_ReadyOnStart i \<and> i_Status i = InstanceStatusReady \<and> i_ReadyAt i = Some at \<and> i_ReadyAfter i \<noteq> 0 \<longrightarrow>
      (IsReady t i \<longleftrightarrow> at + i_ReadyAfter i \<le> t)) \<and>
   (IsReady t i \<and> t \<le> t' \<longrightarrow> IsReady t' i)"
  by (auto simp: IsReady_def split: option.splits if_splits)

theorem ready_after_settles_witness:
  "IsReady 40 (zero_InstanceInfo\<lparr>i_Status := InstanceStatusReady, i_ReadyAt := Some 10, i_ReadyAfter := 30\<rparr>)"
  using ready_after_settles
    [of "zero_InstanceInfo\<lparr>i_Status := InstanceStatusReady, i_ReadyAt := Some 10, i_ReadyAfter := 30\<rparr>" 40 10 40]
  by (simp add: zero_InstanceInfo_def)

text \<open>
  The scale configuration is exposed when a scale label sets anything but the defaults,
  with one exception: \<open>sablier.active.replicas\<close> set to 0 differs from the default 1 and still
  leaves the configuration unset.
\<close>

theorem scale_exposed:
  "(cfg_Scale (InstanceConfigFromLabels labels) \<noteq> None \<longleftrightarrow>
      scale_present (ScaleConfigFromLabels labels)) \<and>
   Replicas (Active (ScaleConfigFromLabels [(LabelActiveReplicas, ''0'')])) = 0 \<and>
   cfg_Scale (InstanceConfigFromLabels [(LabelActiveReplicas, ''0'')]) = None"
  by (rule conjI, simp add: InstanceConfigFromLabels_def Let_def, rule conjI) code_simp+

end
