(* ===== verification/Group_Registry.thy ===== *)
theory Group_Registry
  imports Instance
begin

text \<open>
  The group registry of \<open>pkg/sablier/group_registry.go\<close>, which maps group names to the
  instances that belong to them and is used for the groups and for the anti-affinity index,
  and its reconciliation with the provider in \<open>group_watch.go\<close>.

  A registry is a Go map from group names to member slices. What it means is a relation
  between instances and groups (\<open>member_of\<close>). The locale \<open>membership_index\<close> states what
  \<open>Sync\<close> and \<open>Remove\<close> promise about that relation, and proves once what a series of them
  does; the registry is an interpretation of it. The mutex makes each operation atomic, and
  the copies that \<open>Get\<close>, \<open>Set\<close> and \<open>Snapshot\<close> make are values here.
\<close>

section \<open>Data and operations\<close>

type_synonym registry = "(string, string list) gomap"

definition newGroupRegistry :: registry where
  "newGroupRegistry = []"

definition stringSet :: "string list \<Rightarrow> (string, bool) gomap" where
  "stringSet ss = fold (\<lambda>s m. map_put s True m) ss []"

definition set_has :: "(string, bool) gomap \<Rightarrow> string \<Rightarrow> bool" where
  "set_has m k = (case map_of m k of None \<Rightarrow> False | Some b \<Rightarrow> b)"

definition Snapshot :: "registry \<Rightarrow> registry" where
  "Snapshot data = fold (\<lambda>(k, v) out. map_put k v out) data []"

text \<open>\<open>maps.EqualFunc\<close> with \<open>slices.Equal\<close>.\<close>

definition maps_Equal :: "registry \<Rightarrow> registry \<Rightarrow> bool" where
  "maps_Equal m1 m2 \<longleftrightarrow> length m1 = length m2 \<and> (\<forall>(k, v)\<in>set m1. map_of m2 k = Some v)"

definition reg_Set :: "registry option \<Rightarrow> registry \<Rightarrow> registry \<times> registry option \<times> bool" where
  "reg_Set groups_arg data =
     (let groups = (case groups_arg of None \<Rightarrow> [] | Some g \<Rightarrow> g)
      in if maps_Equal data groups then (data, None, False)
         else (Snapshot groups, Some (Snapshot data), True))"

definition reg_Get :: "registry \<Rightarrow> string \<Rightarrow> string list \<times> bool" where
  "reg_Get data grp = (case map_of data grp of None \<Rightarrow> ([], False) | Some names \<Rightarrow> (names, True))"

definition reg_Keys :: "registry \<Rightarrow> string list" where
  "reg_Keys data = map_keys data"

definition groupsOf :: "string \<Rightarrow> registry \<Rightarrow> string list" where
  "groupsOf inst data = map fst (filter (\<lambda>(group, instances). inst \<in> set instances) data)"

definition removeFromGroup :: "string \<Rightarrow> string \<Rightarrow> registry \<Rightarrow> registry" where
  "removeFromGroup inst grp data =
     (let filtered = filter (\<lambda>m. m \<noteq> inst) (map_list data grp)
      in if filtered = [] then map_del grp data else map_put grp filtered data)"

fun sync_add :: "string \<Rightarrow> (string, bool) gomap \<Rightarrow> string list \<Rightarrow> registry \<Rightarrow> registry \<times> string list" where
  "sync_add inst current [] data = (data, [])"
| "sync_add inst current (g # gs) data =
     (if \<not> set_has current g then
        (case sync_add inst current gs (map_put g (map_list data g @ [inst]) data) of
           (data', added) \<Rightarrow> (data', g # added))
      else sync_add inst current gs data)"

fun sync_remove :: "string \<Rightarrow> (string, bool) gomap \<Rightarrow> string list \<Rightarrow> registry \<Rightarrow> registry \<times> string list" where
  "sync_remove inst desired [] data = (data, [])"
| "sync_remove inst desired (g # gs) data =
     (if \<not> set_has desired g then
        (case sync_remove inst desired gs (removeFromGroup inst g data) of
           (data', removed) \<Rightarrow> (data', g # removed))
      else sync_remove inst desired gs data)"

definition reg_Sync :: "string \<Rightarrow> string list \<Rightarrow> registry \<Rightarrow> registry \<times> string list \<times> string list" where
  "reg_Sync inst newGroups data =
     (let current = stringSet (groupsOf inst data); desired = stringSet newGroups;
          (data1, added) = sync_add inst current (map_keys desired) data;
          (data2, removed) = sync_remove inst desired (map_keys current) data1
      in (data2, added, removed))"

definition reg_Remove :: "string \<Rightarrow> registry \<Rightarrow> registry \<times> string list" where
  "reg_Remove inst data =
     (let groups = groupsOf inst data in (fold (removeFromGroup inst) groups data, groups))"

text \<open>
  The nested loop that turns group \<open>\<rightarrow>\<close> instances around, in \<open>InstanceSnapshot\<close> and in
  \<open>reconcileGroups\<close>.
\<close>

definition invert_groups :: "registry \<Rightarrow> registry" where
  "invert_groups data =
     fold (\<lambda>(group, instances) out.
            fold (\<lambda>inst out. map_put inst (map_list out inst @ [group]) out) instances out)
       data []"

definition InstanceSnapshot :: "registry \<Rightarrow> registry" where
  "InstanceSnapshot data = invert_groups data"

section \<open>Watching the provider\<close>

datatype InstanceEventType =
    InstanceEventStopped
  | InstanceEventStarted
  | InstanceEventCreated
  | InstanceEventUpdated
  | InstanceEventRemoved

record InstanceEvent =
  ev_Type :: InstanceEventType
  ev_Info :: InstanceInfo

definition equalStringSliceSets :: "string list \<Rightarrow> string list \<Rightarrow> bool" where
  "equalStringSliceSets a b \<longleftrightarrow>
     length a = length b \<and> (let setA = stringSet a in list_all (\<lambda>v. set_has setA v) b)"

text \<open>The \<open>switch\<close> of \<open>handleGroupEvent\<close>, which updates the memberships.\<close>

definition group_event :: "InstanceEvent \<Rightarrow> registry \<Rightarrow> registry" where
  "group_event event data =
     (let info = ev_Info event
      in case ev_Type event of
           InstanceEventCreated \<Rightarrow>
             if i_Groups info = [] then data
             else fst (reg_Sync (i_Name info) (i_Groups info) data)
         | InstanceEventUpdated \<Rightarrow>
             (let currentGroups = groupsOf (i_Name info) data; newGroups = i_Groups info
              in if equalStringSliceSets currentGroups newGroups then data
                 else if newGroups = [] then fst (reg_Remove (i_Name info) data)
                 else fst (reg_Sync (i_Name info) newGroups data))
         | InstanceEventRemoved \<Rightarrow> fst (reg_Remove (i_Name info) data)
         | _ \<Rightarrow> data)"

text \<open>
  The provider's answer is an error, the nil map (\<open>Inr None\<close>) or a map. The instances that
  are looked for in the second loop are those of the snapshot taken after the first.
\<close>

definition sync_all :: "registry \<Rightarrow> registry \<Rightarrow> registry" where
  "sync_all newInstanceToGroups data =
     fold (\<lambda>(inst, gs) d. fst (reg_Sync inst gs d)) newInstanceToGroups data"

definition drop_unlisted :: "registry \<Rightarrow> string list \<Rightarrow> registry \<Rightarrow> registry" where
  "drop_unlisted newInstanceToGroups insts data =
     fold (\<lambda>inst d. if map_of newInstanceToGroups inst = None then fst (reg_Remove inst d) else d) insts data"

definition reconcileGroups :: "'e + registry option \<Rightarrow> registry \<Rightarrow> registry" where
  "reconcileGroups answer data =
     (case answer of
        Inl err \<Rightarrow> data
      | Inr None \<Rightarrow> data
      | Inr (Some groups) \<Rightarrow>
          (let newInstanceToGroups = invert_groups groups;
               data1 = sync_all newInstanceToGroups data
           in drop_unlisted newInstanceToGroups (map_keys (InstanceSnapshot data1)) data1))"

section \<open>The membership relation\<close>

definition member_of :: "registry \<Rightarrow> string \<Rightarrow> string \<Rightarrow> bool" where
  "member_of data inst grp \<longleftrightarrow> inst \<in> set (map_list data grp)"

lemma dom_stringSet: "dom (map_of (fold (\<lambda>s m. map_put s True m) ss m)) = set ss \<union> dom (map_of m)"
  by (induction ss arbitrary: m) (auto simp: map_of_put)

lemma ran_stringSet: "ran (map_of (fold (\<lambda>s m. map_put s True m) ss m)) \<subseteq> insert True (ran (map_of m))"
proof (induction ss arbitrary: m)
  case (Cons s ss)
  from Cons.IH [of "map_put s True m"] show ?case
    by (fastforce simp: map_of_put ran_def split: if_splits)
qed auto

lemma set_has_stringSet [simp]: "set_has (stringSet ss) k \<longleftrightarrow> k \<in> set ss"
proof -
  have d: "dom (map_of (stringSet ss)) = set ss" and r: "ran (map_of (stringSet ss)) \<subseteq> {True}"
    using dom_stringSet [of ss "[]"] ran_stringSet [of ss "[]"] by (simp_all add: stringSet_def)
  show ?thesis
  proof (cases "map_of (stringSet ss) k")
    case None
    with d have "k \<notin> set ss" by (metis domIff)
    with None show ?thesis by (simp add: set_has_def)
  next
    case (Some b)
    with d r have "k \<in> set ss" "b" by (auto simp: ran_def)
    with Some show ?thesis by (simp add: set_has_def)
  qed
qed

lemma wf_stringSet: "wf_map (stringSet ss)"
proof -
  have "wf_map m \<Longrightarrow> wf_map (fold (\<lambda>s m. map_put s True m) ss m)" for m :: "(string, bool) gomap"
    by (induction ss arbitrary: m) (auto intro: wf_intros)
  then show ?thesis by (simp add: stringSet_def)
qed

lemma set_keys_stringSet [simp]: "fst ` set (stringSet ss) = set ss"
  using dom_stringSet [of ss "[]"] by (simp add: stringSet_def dom_map_of_conv_image_fst)

lemma member_of_mem: "wf_map data \<Longrightarrow> member_of data j g \<longleftrightarrow> (\<exists>is. (g, is) \<in> set data \<and> j \<in> set is)"
  by (cases "map_of data g") (auto simp: member_of_def map_list_def wf_map_mem)

lemma set_groupsOf: "wf_map data \<Longrightarrow> set (groupsOf inst data) = {g. member_of data inst g}"
  by (force simp: groupsOf_def member_of_def map_list_def wf_map_mem split: option.splits)

lemma wf_removeFromGroup [wf_intros]: "wf_map data \<Longrightarrow> wf_map (removeFromGroup i g data)"
  by (auto simp: removeFromGroup_def Let_def intro: wf_intros)

lemma member_of_removeFromGroup:
  "member_of (removeFromGroup i g data) j h \<longleftrightarrow> member_of data j h \<and> (j \<noteq> i \<or> h \<noteq> g)"
proof -
  have eq: "map_list (removeFromGroup i g data) h =
      (if h = g then filter (\<lambda>m. m \<noteq> i) (map_list data g) else map_list data h)"
    by (auto simp: removeFromGroup_def Let_def gomap_simps)
  show ?thesis by (auto simp: member_of_def eq)
qed

lemma member_of_fold_remove:
  "member_of (fold (removeFromGroup i) gs data) j h \<longleftrightarrow> member_of data j h \<and> (j \<noteq> i \<or> h \<notin> set gs)"
  by (induction gs arbitrary: data) (auto simp: member_of_removeFromGroup)

lemma wf_fold_remove: "wf_map data \<Longrightarrow> wf_map (fold (removeFromGroup i) gs data)"
  by (induction gs arbitrary: data) (auto intro: wf_intros)

lemma sync_add_spec:
  "sync_add i current gs data = (data', added) \<Longrightarrow>
   added = filter (\<lambda>g. \<not> set_has current g) gs \<and>
   (wf_map data \<longrightarrow> wf_map data') \<and>
   (\<forall>j h. member_of data' j h \<longleftrightarrow> member_of data j h \<or> j = i \<and> h \<in> set added)"
proof (induction gs arbitrary: data added)
  case (Cons g gs)
  show ?case
  proof (cases "set_has current g")
    case True
    with Cons show ?thesis by simp
  next
    case False
    let ?d = "map_put g (map_list data g @ [i]) data"
    obtain ad where s: "sync_add i current gs ?d = (data', ad)" and a: "added = g # ad"
      using Cons.prems False by (auto split: prod.splits)
    have "member_of ?d j h \<longleftrightarrow> member_of data j h \<or> j = i \<and> h = g" for j h
      by (auto simp: member_of_def gomap_simps)
    with Cons.IH [OF s] a False show ?thesis by (auto intro: wf_intros)
  qed
qed simp

lemma sync_remove_spec:
  "sync_remove i desired gs data = (data', removed) \<Longrightarrow>
   removed = filter (\<lambda>g. \<not> set_has desired g) gs \<and>
   (wf_map data \<longrightarrow> wf_map data') \<and>
   (\<forall>j h. member_of data' j h \<longleftrightarrow> member_of data j h \<and> (j \<noteq> i \<or> h \<notin> set removed))"
proof (induction gs arbitrary: data removed)
  case (Cons g gs)
  show ?case
  proof (cases "set_has desired g")
    case True
    with Cons show ?thesis by simp
  next
    case False
    obtain re where s: "sync_remove i desired gs (removeFromGroup i g data) = (data', re)"
      and r: "removed = g # re"
      using Cons.prems False by (auto split: prod.splits)
    from Cons.IH [OF s] r False show ?thesis
      by (auto simp: member_of_removeFromGroup intro: wf_intros)
  qed
qed simp

lemma reg_Sync_spec:
  assumes s: "reg_Sync i gs data = (data', added, removed)" and wf: "wf_map data"
  shows "wf_map data' \<and> (\<forall>j g. member_of data' j g \<longleftrightarrow> (if j = i then g \<in> set gs else member_of data j g)) \<and>
    set added = set gs - {g. member_of data i g} \<and> set removed = {g. member_of data i g} - set gs \<and>
    distinct added \<and> distinct removed"
proof -
  let ?c = "stringSet (groupsOf i data)" and ?d = "stringSet gs"
  obtain data1 where a: "sync_add i ?c (map_keys ?d) data = (data1, added)"
    and r: "sync_remove i ?d (map_keys ?c) data1 = (data', removed)"
    using s by (auto simp: reg_Sync_def Let_def split: prod.splits)
  note A = sync_add_spec [OF a] and R = sync_remove_spec [OF r] and G = set_groupsOf [OF wf, of i]
  have "set added = set gs - {g. member_of data i g}" "set removed = {g. member_of data i g} - set gs"
    using A R G by auto
  moreover have "distinct added" "distinct removed"
    using A R wf_stringSet by (simp_all add: wf_map_def)
  ultimately show ?thesis using A R wf by auto
qed

lemma reg_Remove_spec:
  assumes "wf_map data"
  shows "wf_map (fst (reg_Remove i data)) \<and>
    (\<forall>j g. member_of (fst (reg_Remove i data)) j g \<longleftrightarrow> j \<noteq> i \<and> member_of data j g) \<and>
    set (snd (reg_Remove i data)) = {g. member_of data i g}"
  using assms set_groupsOf [OF assms, of i]
  by (auto simp: reg_Remove_def Let_def member_of_fold_remove wf_fold_remove)

lemma invert_inner:
  "map_list (fold (\<lambda>inst out. map_put inst (map_list out inst @ [g]) out) is out) j =
   map_list out j @ replicate (count_list is j) g"
  by (induction "is" arbitrary: out) (auto simp: gomap_simps replicate_append_same)

lemma invert_outer:
  "set (map_list (fold (\<lambda>(group, instances) out.
      fold (\<lambda>inst out. map_put inst (map_list out inst @ [group]) out) instances out) data out) j) =
   set (map_list out j) \<union> {g. \<exists>is. (g, is) \<in> set data \<and> j \<in> set is}"
proof (induction data arbitrary: out)
  case (Cons e data)
  obtain g "is" where e: "e = (g, is)" by (cases e)
  have "set (replicate (count_list is j) g) = (if j \<in> set is then {g} else {})"
    by (auto simp: count_list_0_iff)
  with Cons.IH show ?case by (auto simp: e invert_inner)
qed simp

lemma set_invert_groups:
  "wf_map data \<Longrightarrow> set (map_list (invert_groups data) j) = {g. member_of data j g}"
  by (simp add: invert_groups_def invert_outer member_of_mem)

definition no_empty :: "registry \<Rightarrow> bool" where
  "no_empty out \<longleftrightarrow> (\<forall>vs\<in>ran (map_of out). vs \<noteq> [])"

lemma no_empty_put: "no_empty out \<Longrightarrow> vs \<noteq> [] \<Longrightarrow> no_empty (map_put k vs out)"
  by (auto simp: no_empty_def ran_def map_of_put)

lemma wf_invert_groups: "wf_map (invert_groups data) \<and> no_empty (invert_groups data)"
proof -
  have inner: "wf_map out \<and> no_empty out \<Longrightarrow>
      wf_map (fold (\<lambda>inst out. map_put inst (map_list out inst @ [g]) out) is out) \<and>
      no_empty (fold (\<lambda>inst out. map_put inst (map_list out inst @ [g]) out) is out)" for out :: registry and g "is"
    by (induction "is" arbitrary: out) (auto intro: wf_intros no_empty_put)
  have "wf_map out \<and> no_empty out \<Longrightarrow>
      wf_map (fold (\<lambda>(group, instances) out.
        fold (\<lambda>inst out. map_put inst (map_list out inst @ [group]) out) instances out) data out) \<and>
      no_empty (fold (\<lambda>(group, instances) out.
        fold (\<lambda>inst out. map_put inst (map_list out inst @ [group]) out) instances out) data out)" for out :: registry
    using inner by (induction data arbitrary: out) auto
  from this [of "[]"] show ?thesis unfolding invert_groups_def by (simp add: no_empty_def)
qed

lemma keys_invert_groups:
  assumes "wf_map data"
  shows "j \<in> set (map_keys (invert_groups data)) \<longleftrightarrow> (\<exists>g. member_of data j g)"
proof -
  have "j \<in> set (map_keys (invert_groups data)) \<longleftrightarrow> map_of (invert_groups data) j \<noteq> None"
    unfolding set_map_keys by (simp add: domIff)
  also have "\<dots> \<longleftrightarrow> map_list (invert_groups data) j \<noteq> []"
    using wf_invert_groups [of data]
    by (auto simp: map_list_def no_empty_def split: option.splits intro: ranI)
  also have "\<dots> \<longleftrightarrow> {g. member_of data j g} \<noteq> {}"
    using set_invert_groups [OF assms, of j] by (metis set_empty)
  finally show ?thesis by auto
qed

section \<open>The interface of a membership index\<close>

text \<open>
  \<open>rel r i g\<close> says that instance \<open>i\<close> is a member of group \<open>g\<close>. Setting the memberships of
  one instance and removing one instance leave every other instance alone.
\<close>

locale membership_index =
  fixes inv :: "'r \<Rightarrow> bool"
    and rel :: "'r \<Rightarrow> string \<Rightarrow> string \<Rightarrow> bool"
    and sync :: "string \<Rightarrow> string list \<Rightarrow> 'r \<Rightarrow> 'r"
    and remove :: "string \<Rightarrow> 'r \<Rightarrow> 'r"
  assumes inv_sync: "inv r \<Longrightarrow> inv (sync i gs r)"
    and rel_sync: "inv r \<Longrightarrow> rel (sync i gs r) j g \<longleftrightarrow> (if j = i then g \<in> set gs else rel r j g)"
    and inv_remove: "inv r \<Longrightarrow> inv (remove i r)"
    and rel_remove: "inv r \<Longrightarrow> rel (remove i r) j g \<longleftrightarrow> j \<noteq> i \<and> rel r j g"
begin

lemma sync_fold:
  assumes "inv r" "distinct (map fst m)"
  shows "inv (fold (\<lambda>(i, gs) r. sync i gs r) m r) \<and>
    (\<forall>j g. rel (fold (\<lambda>(i, gs) r. sync i gs r) m r) j g \<longleftrightarrow>
       (case map_of m j of None \<Rightarrow> rel r j g | Some gs \<Rightarrow> g \<in> set gs))"
  using assms
proof (induction m arbitrary: r)
  case (Cons e m)
  obtain i gs where e: "e = (i, gs)" by (cases e)
  have "map_of m i = None" using Cons.prems by (simp add: e map_of_eq_None_iff)
  moreover have "inv (sync i gs r)" using Cons.prems inv_sync by simp
  ultimately show ?case
    using Cons.IH [of "sync i gs r"] Cons.prems rel_sync [of r i gs]
    by (auto simp: e split: option.splits)
qed simp

lemma remove_fold:
  assumes "inv r"
  shows "inv (fold (\<lambda>i r. if P i then remove i r else r) is r) \<and>
    (\<forall>j g. rel (fold (\<lambda>i r. if P i then remove i r else r) is r) j g \<longleftrightarrow>
       rel r j g \<and> \<not> (j \<in> set is \<and> P j))"
  using assms
proof (induction "is" arbitrary: r)
  case (Cons i "is")
  show ?case
    using Cons.IH [of "remove i r"] Cons.IH [of r] Cons.prems inv_remove [of r i] rel_remove [of r i]
    by (cases "P i") auto
qed simp

lemma rebuild:
  assumes "inv r" "distinct (map fst m)"
    and "\<And>r' j. inv r' \<Longrightarrow> j \<in> set (insts r') \<longleftrightarrow> (\<exists>g. rel r' j g)"
  shows "\<forall>j g. let r1 = fold (\<lambda>(i, gs) r. sync i gs r) m r
     in rel (fold (\<lambda>i r. if map_of m i = None then remove i r else r) (insts r1) r1) j g \<longleftrightarrow>
        (case map_of m j of None \<Rightarrow> False | Some gs \<Rightarrow> g \<in> set gs)"
proof -
  define r1 where "r1 = fold (\<lambda>(i, gs) r. sync i gs r) m r"
  note S = sync_fold [OF assms(1,2), folded r1_def]
  note R = remove_fold [of r1 "\<lambda>i. map_of m i = None" "insts r1"]
  show ?thesis unfolding r1_def [symmetric] Let_def
    using S R assms(3) [of r1] by (auto split: option.splits)
qed

end

interpretation reg: membership_index wf_map member_of "\<lambda>i gs d. fst (reg_Sync i gs d)"
  "\<lambda>i d. fst (reg_Remove i d)"
proof
  fix r :: registry and i gs j g
  assume wf: "wf_map r"
  obtain d a b where s: "reg_Sync i gs r = (d, a, b)" by (cases "reg_Sync i gs r")
  show "wf_map (fst (reg_Sync i gs r))"
    "member_of (fst (reg_Sync i gs r)) j g \<longleftrightarrow> (if j = i then g \<in> set gs else member_of r j g)"
    using reg_Sync_spec [OF s wf] by (simp_all add: s)
  show "wf_map (fst (reg_Remove i r))"
    "member_of (fst (reg_Remove i r)) j g \<longleftrightarrow> j \<noteq> i \<and> member_of r j g"
    using reg_Remove_spec [OF wf] by simp_all
qed

section \<open>Properties\<close>

text \<open>
  C14: \<open>Sync\<close> makes the instance a member of exactly the given groups and leaves every other
  instance alone; it reports exactly the groups that were gained and lost, each once.
  \<open>Remove\<close> takes the instance out of every group and reports those. The index by instance
  is the inverse of the registry.
\<close>

theorem registry_refines_relation:
  assumes "wf_map data" "reg_Sync i gs data = (data', added, removed)"
  shows "wf_map data' \<and>
    (\<forall>j g. member_of data' j g \<longleftrightarrow> (if j = i then g \<in> set gs else member_of data j g)) \<and>
    set added = set gs - set (groupsOf i data) \<and> set removed = set (groupsOf i data) - set gs \<and>
    distinct added \<and> distinct removed \<and>
    (\<forall>j g. member_of (fst (reg_Remove i data)) j g \<longleftrightarrow> j \<noteq> i \<and> member_of data j g) \<and>
    set (snd (reg_Remove i data)) = set (groupsOf i data) \<and>
    (\<forall>j g. g \<in> set (map_list (InstanceSnapshot data) j) \<longleftrightarrow> j \<in> set (map_list data g))"
  using reg_Sync_spec [OF assms(2,1)] reg_Remove_spec [OF assms(1), of i]
    set_groupsOf [OF assms(1)] set_invert_groups [OF assms(1)]
  by (simp add: InstanceSnapshot_def member_of_def)

theorem registry_refines_relation_witness:
  "groupsOf ''db'' (fst (reg_Sync ''db'' [''b'', ''c''] [(''a'', [''db'', ''web'']), (''b'', [''db''])])) = [''b'', ''c''] \<and>
   (\<forall>j g. member_of [(''a'', [''web'']), (''b'', [''db'']), (''c'', [''db''])] j g \<longleftrightarrow>
      (if j = ''db'' then g \<in> set [''b'', ''c'']
       else member_of [(''a'', [''db'', ''web'']), (''b'', [''db''])] j g))"
proof -
  have s: "reg_Sync ''db'' [''b'', ''c''] [(''a'', [''db'', ''web'']), (''b'', [''db''])] =
      ([(''a'', [''web'']), (''b'', [''db'']), (''c'', [''db''])], [''c''], [''a''])"
    by code_simp
  with registry_refines_relation [OF _ s] show ?thesis by (simp add: wf_map_def groupsOf_def)
qed

text \<open>
  After a reconciliation with the provider's groups, an instance is a member of a group
  exactly if the provider lists it there, whatever the registry held before; an error or a
  nil answer changes nothing.
\<close>

theorem reconcileGroups_converges:
  assumes "wf_map data" "wf_map groups"
  shows "(\<forall>i g. member_of (reconcileGroups (Inr (Some groups) :: 'e + registry option) data) i g \<longleftrightarrow>
        member_of groups i g) \<and>
    reconcileGroups (Inl err :: 'e + registry option) data = data \<and>
    reconcileGroups (Inr None :: 'e + registry option) data = data"
proof -
  have keys: "j \<in> set (map_keys (InstanceSnapshot r)) \<longleftrightarrow> (\<exists>g. member_of r j g)" if "wf_map r" for r j
    using keys_invert_groups [OF that] by (simp add: InstanceSnapshot_def)
  have "distinct (map fst (invert_groups groups))" using wf_invert_groups by (simp add: wf_map_def)
  from reg.rebuild [OF assms(1) this keys] have
    "member_of (reconcileGroups (Inr (Some groups) :: 'e + registry option) data) i g \<longleftrightarrow>
      (case map_of (invert_groups groups) i of None \<Rightarrow> False | Some gs \<Rightarrow> g \<in> set gs)" for i g
    by (simp add: reconcileGroups_def sync_all_def drop_unlisted_def Let_def)
  moreover have "(case map_of (invert_groups groups) i of None \<Rightarrow> False | Some gs \<Rightarrow> g \<in> set gs) \<longleftrightarrow>
      g \<in> set (map_list (invert_groups groups) i)" for i g
    by (simp add: map_list_def split: option.splits)
  ultimately show ?thesis
    by (simp add: set_invert_groups [OF assms(2)] reconcileGroups_def)
qed

theorem reconcileGroups_converges_witness:
  "member_of (reconcileGroups (Inr (Some [(''a'', [''web''])]) :: unit + registry option) [(''b'', [''web'', ''db''])]) ''web'' ''a''"
proof -
  have "member_of [(''a'', [''web''])] ''web'' ''a''" by (simp add: member_of_def map_list_def)
  with reconcileGroups_converges [of "[(''b'', [''web'', ''db''])]" "[(''a'', [''web''])]" "()"]
  show ?thesis by (simp add: wf_map_def)
qed

lemma equalStringSliceSets_distinct:
  assumes "distinct a" "distinct b"
  shows "equalStringSliceSets a b \<longleftrightarrow> set a = set b"
proof
  assume "equalStringSliceSets a b"
  then have "length a = length b" "set b \<subseteq> set a"
    by (auto simp: equalStringSliceSets_def list_all_iff)
  with assms show "set a = set b"
    by (metis card_subset_eq distinct_card finite_set)
next
  assume "set a = set b"
  moreover from this assms have "length a = length b" by (metis distinct_card)
  ultimately show "equalStringSliceSets a b"
    by (simp add: equalStringSliceSets_def list_all_iff)
qed

lemma distinct_groupsOf: "wf_map data \<Longrightarrow> distinct (groupsOf i data)"
  unfolding groupsOf_def wf_map_def by (simp add: distinct_map_filter)

text \<open>
  An event leaves the registry as the instance's labels say: after a creation or an update
  the instance is a member of exactly the groups it reports, an instance that was removed or
  lost its groups is a member of none, and no event touches another instance. A created
  instance without groups is left as it is.
\<close>

theorem group_event_memberships:
  assumes wf: "wf_map data" and d: "distinct (i_Groups (ev_Info e))"
  shows "wf_map (group_event e data) \<and>
    (\<forall>j g. member_of (group_event e data) j g \<longleftrightarrow>
       (if j \<noteq> i_Name (ev_Info e) then member_of data j g
        else case ev_Type e of
               InstanceEventCreated \<Rightarrow>
                 if i_Groups (ev_Info e) = [] then member_of data j g else g \<in> set (i_Groups (ev_Info e))
             | InstanceEventUpdated \<Rightarrow> g \<in> set (i_Groups (ev_Info e))
             | InstanceEventRemoved \<Rightarrow> False
             | _ \<Rightarrow> member_of data j g))"
proof (cases "ev_Type e")
  case InstanceEventUpdated
  let ?i = "i_Name (ev_Info e)" and ?gs = "i_Groups (ev_Info e)"
  have eq: "equalStringSliceSets (groupsOf ?i data) ?gs \<longleftrightarrow> {g. member_of data ?i g} = set ?gs"
    using equalStringSliceSets_distinct [OF distinct_groupsOf [OF wf] d] set_groupsOf [OF wf] by simp
  show ?thesis
  proof (cases "equalStringSliceSets (groupsOf ?i data) ?gs")
    case True
    with eq show ?thesis by (auto simp: group_event_def InstanceEventUpdated wf)
  next
    case False
    then show ?thesis
      using reg.rel_sync [OF wf] reg.rel_remove [OF wf] reg.inv_sync [OF wf] reg.inv_remove [OF wf]
      by (auto simp: group_event_def InstanceEventUpdated Let_def)
  qed
qed (use reg.rel_sync [OF wf] reg.rel_remove [OF wf] reg.inv_sync [OF wf] reg.inv_remove [OF wf] wf
     in \<open>auto simp: group_event_def Let_def\<close>)

theorem group_event_memberships_witness:
  "member_of
     (group_event \<lparr>ev_Type = InstanceEventUpdated,
        ev_Info = zero_InstanceInfo\<lparr>i_Name := ''web'', i_Groups := [''b'']\<rparr>\<rparr> [(''a'', [''web''])])
     ''web'' ''b''"
  using group_event_memberships
    [of "[(''a'', [''web''])]"
        "\<lparr>ev_Type = InstanceEventUpdated, ev_Info = zero_InstanceInfo\<lparr>i_Name := ''web'', i_Groups := [''b'']\<rparr>\<rparr>"]
  by (simp add: wf_map_def)

text \<open>
  On slices without duplicates \<open>equalStringSliceSets\<close> is equality of sets, in any order.
  With duplicates it is not symmetric: \<open>[x, y]\<close> counts as equal to \<open>[x, x]\<close>.
\<close>

theorem equalStringSliceSets_sets:
  "(distinct a \<and> distinct b \<longrightarrow> (equalStringSliceSets a b \<longleftrightarrow> set a = set b)) \<and>
   equalStringSliceSets [''x'', ''y''] [''x'', ''x''] \<and>
   \<not> equalStringSliceSets [''x'', ''x''] [''x'', ''y'']"
  by (intro conjI impI equalStringSliceSets_distinct) (auto simp: equalStringSliceSets_def)

theorem equalStringSliceSets_sets_witness:
  "equalStringSliceSets [''a'', ''b''] [''b'', ''a'']"
  using equalStringSliceSets_sets [of "[''a'', ''b'']" "[''b'', ''a'']"] by auto

lemma Snapshot_map_of: "wf_map data \<Longrightarrow> map_of (Snapshot data) = map_of data \<and> wf_map (Snapshot data)"
proof -
  have "wf_map out \<Longrightarrow> distinct (map fst data) \<Longrightarrow>
      map_of (fold (\<lambda>(k, v) out. map_put k v out) data out) = map_of out ++ map_of data \<and>
      wf_map (fold (\<lambda>(k, v) out. map_put k v out) data out)" for out
  proof (induction data arbitrary: out)
    case (Cons e data)
    obtain k v where e: "e = (k, v)" by (cases e)
    from Cons.prems have "map_of data k = None" by (simp add: e map_of_eq_None_iff)
    then have "(map_of out)(k \<mapsto> v) ++ map_of data = map_of out ++ map_of (e # data)"
      by (auto simp: e map_add_def split: option.splits)
    with Cons.IH [of "map_put k v out"] Cons.prems show ?case
      by (simp add: e map_of_put wf_map_put del: fun_upd_apply)
  qed simp
  from this [of "[]"] show "wf_map data \<Longrightarrow> ?thesis" by (simp add: Snapshot_def wf_map_def)
qed

lemma maps_Equal_iff:
  assumes "wf_map m1" "wf_map m2"
  shows "maps_Equal m1 m2 \<longleftrightarrow> map_of m1 = map_of m2"
proof -
  have card: "length m = card (dom (map_of m))" if "wf_map m" for m :: registry
    using that distinct_card [of "map fst m"] by (simp add: wf_map_def dom_map_of_conv_image_fst)
  show ?thesis
  proof
    assume e: "maps_Equal m1 m2"
    then have sub: "\<And>k v. map_of m1 k = Some v \<Longrightarrow> map_of m2 k = Some v"
      using wf_map_mem [OF assms(1)] by (fastforce simp: maps_Equal_def)
    then have "dom (map_of m1) \<subseteq> dom (map_of m2)" by auto
    moreover have "card (dom (map_of m1)) = card (dom (map_of m2))"
      using e card assms by (simp add: maps_Equal_def)
    ultimately have "dom (map_of m1) = dom (map_of m2)" by (simp add: card_subset_eq finite_dom_map_of)
    with sub show "map_of m1 = map_of m2" by (intro ext) (metis domD domIff option.exhaust)
  next
    assume "map_of m1 = map_of m2"
    then show "maps_Equal m1 m2"
      using card assms wf_map_mem [OF assms(1)] by (auto simp: maps_Equal_def)
  qed
qed

text \<open>
  \<open>Set\<close> makes the registry equal to the given map, reports a change exactly if there was
  one, and then returns what the registry held; \<open>Get\<close> reads it.
\<close>

theorem registry_set_get:
  assumes "wf_map data" "wf_map groups" "reg_Set (Some groups) data = (data', old, changed)"
  shows "wf_map data' \<and> map_of data' = map_of groups \<and> (changed \<longleftrightarrow> map_of groups \<noteq> map_of data) \<and>
    (changed \<longrightarrow> (\<exists>prev. old = Some prev \<and> map_of prev = map_of data)) \<and>
    reg_Get data' g = (map_list groups g, g \<in> set (reg_Keys groups))"
proof -
  have "g \<in> set (reg_Keys groups) \<longleftrightarrow> map_of groups g \<noteq> None"
    unfolding reg_Keys_def set_map_keys by (simp add: domIff)
  with assms maps_Equal_iff [OF assms(1,2)] Snapshot_map_of [OF assms(1)] Snapshot_map_of [OF assms(2)]
  show ?thesis
    by (auto simp: reg_Set_def reg_Get_def map_list_def split: if_splits option.splits)
qed

theorem registry_set_get_witness:
  "reg_Get [(''a'', [''web''])] ''a'' = (map_list [(''a'', [''web''])] ''a'', ''a'' \<in> set (reg_Keys [(''a'', [''web''])]))"
  using registry_set_get [of "[]" "[(''a'', [''web''])]" "[(''a'', [''web''])]" "Some []" True "''a''"]
  by (simp add: wf_map_def reg_Set_def maps_Equal_def Snapshot_def)

end
