(* ===== verification/Session.thy ===== *)
theory Session
  imports Group_Registry "HOL-Library.List_Lexorder" "HOL-Library.Char_ord"
begin

text \<open>
  Errors, the state of a session and its persisted form: \<open>pkg/sablier/errors.go\<close>,
  \<open>session.go\<close>, \<open>session_record.go\<close> and the data of \<open>session_request.go\<close>.

  A Go \<open>error\<close> is a value of \<open>goerror\<close>, and \<open>nil\<close> is \<open>None\<close>. \<open>ErrText\<close> is an error with a
  fixed text, \<open>ErrWrap\<close> a text that wraps a cause with \<open>%w\<close>, so that \<open>errors.Is\<close> finds the
  cause (\<open>errors_Is\<close>).
\<close>

section \<open>Printing\<close>

fun nat_text :: "nat \<Rightarrow> string" where
  "nat_text n = (if n < 10 then [digit_char (int n)] else nat_text (n div 10) @ [digit_char (int (n mod 10))])"

declare nat_text.simps [simp del]

definition int_text :: "int \<Rightarrow> string" where
  "int_text n = (if n < 0 then ''-'' @ nat_text (nat (- n)) else nat_text (nat n))"

text \<open>\<open>fmtFrac\<close> of Go's \<open>time\<close>: the last \<open>prec\<close> digits as a fraction without trailing zeros.\<close>

fun frac_digits :: "nat \<Rightarrow> int \<Rightarrow> string" where
  "frac_digits 0 v = []"
| "frac_digits (Suc prec) v = frac_digits prec (v div 10) @ [digit_char (v mod 10)]"

definition fmtFrac :: "int \<Rightarrow> nat \<Rightarrow> string" where
  "fmtFrac v prec =
     (let ds = rev (dropWhile (\<lambda>c. c = CHR ''0'') (rev (frac_digits prec v)))
      in if ds = [] then [] else CHR ''.'' # ds)"

definition Duration_String :: "duration \<Rightarrow> string" where
  "Duration_String d =
     (let u = \<bar>d\<bar>; sign = (if d < 0 then ''-'' else []); txt = (\<lambda>n. nat_text (nat n))
      in if u < Second then
           (if u = 0 then ''0s''
            else if u < Microsecond then sign @ txt u @ ''ns''
            else if u < Millisecond then
              sign @ txt (u div Microsecond) @ fmtFrac u 3 @ [CHR 0xC2, CHR 0xB5, CHR ''s'']
            else sign @ txt (u div Millisecond) @ fmtFrac u 6 @ ''ms'')
         else
           let secs = u div Second; mins = secs div 60; hours = mins div 60
           in sign @ (if hours > 0 then txt hours @ ''h'' else []) @
              (if mins > 0 then txt (mins mod 60) @ ''m'' else []) @
              txt (secs mod 60) @ fmtFrac u 9 @ ''s'')"

definition status_text :: "InstanceStatus \<Rightarrow> string" where
  "status_text s =
     (case s of
        InstanceStatusUnset \<Rightarrow> []
      | InstanceStatusStopped \<Rightarrow> ''stopped''
      | InstanceStatusStarting \<Rightarrow> ''starting''
      | InstanceStatusReady \<Rightarrow> ''ready''
      | InstanceStatusError \<Rightarrow> ''error''
      | InstanceStatusCompleted \<Rightarrow> ''completed''
      | InstanceStatusNotReady \<Rightarrow> ''not-ready'')"

section \<open>Errors\<close>

datatype goerror =
    ErrText string
  | ErrWrap string goerror
  | ErrJoin "goerror list"
  | ErrKeyNotFound
  | ErrGroupNotFound string "string list"
  | ErrRequestBinding goerror
  | ErrTimeout duration "InstanceInfoWithError list"
  | ErrInstanceNotManaged string
and InstanceInfoWithError =
    InstanceInfoWithError (iw_Instance: InstanceInfo) (iw_Error: "goerror option") (iw_Optional: bool)

text \<open>\<open>errors.Is\<close> for a sentinel value: the error itself or one it wraps.\<close>

fun errors_Is :: "goerror \<Rightarrow> goerror \<Rightarrow> bool" where
  "errors_Is (ErrWrap m e) target \<longleftrightarrow> ErrWrap m e = target \<or> errors_Is e target"
| "errors_Is (ErrJoin es) target \<longleftrightarrow> ErrJoin es = target \<or> (\<exists>e\<in>set es. errors_Is e target)"
| "errors_Is e target \<longleftrightarrow> e = target"

fun Error_text :: "goerror \<Rightarrow> string"
  and reason_text :: "InstanceInfoWithError \<Rightarrow> string" where
  "Error_text (ErrText m) = m"
| "Error_text (ErrWrap m e) = m @ '': '' @ Error_text e"
| "Error_text (ErrJoin es) = Join (map Error_text es) ''\<newline>''"
| "Error_text ErrKeyNotFound = ''key not found''"
| "Error_text (ErrGroupNotFound g available) = ''group '' @ g @ '' not found''"
| "Error_text (ErrRequestBinding e) = Error_text e"
| "Error_text (ErrTimeout d insts) =
     (if insts = [] then ''timeout after '' @ Duration_String d
      else ''timeout after '' @ Duration_String d @ '': '' @ Join (map reason_text insts) ''; '')"
| "Error_text (ErrInstanceNotManaged n) = ''instance '' @ n @ '' is not managed by sablier''"
| "reason_text (InstanceInfoWithError i err opt) =
     (case err of
        Some e \<Rightarrow> i_Name i @ '': '' @ Error_text e
      | None \<Rightarrow>
          if i_Message i \<noteq> [] then
            i_Name i @ '': '' @ status_text (i_Status i) @ '' ('' @ i_Message i @ '')''
          else i_Name i @ '': '' @ status_text (i_Status i))"

definition InstanceReasons :: "InstanceInfoWithError list \<Rightarrow> string list" where
  "InstanceReasons insts = map reason_text insts"

section \<open>The state of a session\<close>

text \<open>A nil map reads like the empty one.\<close>

record SessionState =
  Instances :: "(string, InstanceInfoWithError) gomap"

text \<open>An instance that keeps the session from being ready.\<close>

definition blocks :: "time \<Rightarrow> InstanceInfoWithError \<Rightarrow> bool" where
  "blocks now v \<longleftrightarrow> \<not> iw_Optional v \<and> (iw_Error v \<noteq> None \<or> \<not> IsReady now (iw_Instance v))"

fun ready_loop :: "time \<Rightarrow> InstanceInfoWithError list \<Rightarrow> bool" where
  "ready_loop now [] = True"
| "ready_loop now (v # vs) =
     (if iw_Optional v then ready_loop now vs
      else if iw_Error v \<noteq> None \<or> \<not> IsReady now (iw_Instance v) then False
      else ready_loop now vs)"

definition SessionState_IsReady :: "time \<Rightarrow> SessionState \<Rightarrow> bool" where
  "SessionState_IsReady now s = ready_loop now (map snd (Instances s))"

fun not_ready_loop :: "time \<Rightarrow> InstanceInfoWithError list \<Rightarrow> InstanceInfoWithError list" where
  "not_ready_loop now [] = []"
| "not_ready_loop now (v # vs) =
     (if iw_Optional v then not_ready_loop now vs
      else if iw_Error v \<noteq> None \<or> \<not> IsReady now (iw_Instance v) then v # not_ready_loop now vs
      else not_ready_loop now vs)"

definition NotReadyInstances :: "time \<Rightarrow> SessionState \<Rightarrow> InstanceInfoWithError list" where
  "NotReadyInstances now s =
     sort_key (\<lambda>v. i_Name (iw_Instance v)) (not_ready_loop now (map snd (Instances s)))"

fun errors_loop :: "(string \<times> InstanceInfoWithError) list \<Rightarrow> goerror list" where
  "errors_loop [] = []"
| "errors_loop ((name, v) # vs) =
     (if iw_Optional v then errors_loop vs
      else case iw_Error v of None \<Rightarrow> errors_loop vs | Some e \<Rightarrow> ErrWrap name e # errors_loop vs)"

definition InstanceErrors :: "SessionState \<Rightarrow> goerror option" where
  "InstanceErrors s =
     (let errs = errors_loop (Instances s) in if errs = [] then None else Some (ErrJoin errs))"

definition SessionState_Status :: "time \<Rightarrow> SessionState \<Rightarrow> string" where
  "SessionState_Status now s = (if SessionState_IsReady now s then ''ready'' else ''not-ready'')"

lemma ready_loop_iff: "ready_loop now vs \<longleftrightarrow> (\<forall>v\<in>set vs. \<not> blocks now v)"
  by (induction vs) (auto simp: blocks_def)

lemma not_ready_loop_filter: "not_ready_loop now vs = filter (blocks now) vs"
  by (induction vs) (auto simp: blocks_def)

lemma errors_loop_Nil: "errors_loop vs = [] \<longleftrightarrow> (\<forall>(n, v)\<in>set vs. iw_Optional v \<or> iw_Error v = None)"
  by (induction vs rule: errors_loop.induct) (auto split: option.splits)

lemma errors_loop_mem:
  "ErrWrap n e \<in> set (errors_loop vs) \<longleftrightarrow> (\<exists>v. (n, v) \<in> set vs \<and> \<not> iw_Optional v \<and> iw_Error v = Some e)"
  by (induction vs rule: errors_loop.induct) (auto split: option.splits)

text \<open>
  A session is ready exactly if no gating instance has an error or is not ready; optional
  members never count. The not-ready instances are then exactly the gating ones that are
  pending, each once and sorted by name, so the list is empty exactly if the session is ready.
  There is a joined error exactly if a gating instance failed; it wraps the failure of each
  such instance, and such a session is not ready.
\<close>

theorem session_readiness:
  "(SessionState_IsReady now s \<longleftrightarrow> (\<forall>(n, v)\<in>set (Instances s). \<not> blocks now v)) \<and>
   (NotReadyInstances now s = [] \<longleftrightarrow> SessionState_IsReady now s) \<and>
   mset (NotReadyInstances now s) = filter_mset (blocks now) (mset (map snd (Instances s))) \<and>
   sorted (map (\<lambda>v. i_Name (iw_Instance v)) (NotReadyInstances now s)) \<and>
   (InstanceErrors s = None \<longleftrightarrow> (\<forall>(n, v)\<in>set (Instances s). iw_Optional v \<or> iw_Error v = None)) \<and>
   (InstanceErrors s \<noteq> None \<longrightarrow> \<not> SessionState_IsReady now s) \<and>
   (\<forall>(n, v)\<in>set (Instances s). \<forall>e. \<not> iw_Optional v \<and> iw_Error v = Some e \<longrightarrow>
      (\<exists>err. InstanceErrors s = Some err \<and> errors_Is err e))"
proof -
  have ready: "SessionState_IsReady now s \<longleftrightarrow> (\<forall>(n, v)\<in>set (Instances s). \<not> blocks now v)"
    by (auto simp: SessionState_IsReady_def ready_loop_iff)
  have nri: "NotReadyInstances now s = sort_key (\<lambda>v. i_Name (iw_Instance v)) (filter (blocks now) (map snd (Instances s)))"
    by (simp add: NotReadyInstances_def not_ready_loop_filter)
  have empty: "NotReadyInstances now s = [] \<longleftrightarrow> SessionState_IsReady now s"
  proof -
    have "NotReadyInstances now s = [] \<longleftrightarrow> set (NotReadyInstances now s) = {}" by simp
    then show ?thesis by (auto simp: nri ready filter_empty_conv)
  qed
  have errs: "InstanceErrors s = None \<longleftrightarrow> (\<forall>(n, v)\<in>set (Instances s). iw_Optional v \<or> iw_Error v = None)"
    by (auto simp: InstanceErrors_def Let_def errors_loop_Nil)
  have "\<exists>err. InstanceErrors s = Some err \<and> errors_Is err e"
    if "(n, v) \<in> set (Instances s)" "\<not> iw_Optional v" "iw_Error v = Some e" for n v e
  proof -
    have m: "ErrWrap n e \<in> set (errors_loop (Instances s))" using that errors_loop_mem by blast
    have "errors_Is e e" by (cases e) auto
    then have "errors_Is (ErrWrap n e) e" by simp
    with m have "errors_Is (ErrJoin (errors_loop (Instances s))) e"
      unfolding errors_Is.simps(2) by blast
    moreover have "InstanceErrors s = Some (ErrJoin (errors_loop (Instances s)))"
      using m by (auto simp: InstanceErrors_def Let_def)
    ultimately show ?thesis by blast
  qed
  moreover have "InstanceErrors s \<noteq> None \<longrightarrow> \<not> SessionState_IsReady now s"
    using errs ready by (fastforce simp: blocks_def)
  ultimately show ?thesis using ready empty errs
    by (auto simp: nri mset_filter simp del: mset_map map_map)
qed

theorem session_readiness_witness:
  "\<not> SessionState_IsReady 0 \<lparr>Instances =
     [(''web'', InstanceInfoWithError zero_InstanceInfo (Some ErrKeyNotFound) False)]\<rparr>"
  using session_readiness [of 0 "\<lparr>Instances =
     [(''web'', InstanceInfoWithError zero_InstanceInfo (Some ErrKeyNotFound) False)]\<rparr>"]
  by (simp add: InstanceErrors_def blocks_def)

section \<open>The persisted record\<close>

definition SessionRecordVersion :: int where
  "SessionRecordVersion = 1"

record SessionRecord =
  Version :: int
  Instance :: InstanceInfo

definition NewSessionRecord :: "InstanceInfo \<Rightarrow> SessionRecord" where
  "NewSessionRecord i = \<lparr>Version = SessionRecordVersion, Instance = i\<rparr>"

text \<open>
  A JSON document, as \<open>json.Unmarshal\<close> reads it: what it decodes to as a record (the keys
  \<open>v\<close> and \<open>instance\<close>, absent keys leaving the zero value) and as a bare instance (the keys
  of \<open>InstanceInfo\<close>, of which a record document has none). Each may fail.
\<close>

record session_doc =
  as_record :: "goerror + SessionRecord"
  as_instance :: "goerror + InstanceInfo"

definition record_doc :: "SessionRecord \<Rightarrow> session_doc" where
  "record_doc r = \<lparr>as_record = Inr r, as_instance = Inr zero_InstanceInfo\<rparr>"

definition instance_doc :: "InstanceInfo \<Rightarrow> session_doc" where
  "instance_doc i = \<lparr>as_record = Inr \<lparr>Version = 0, Instance = zero_InstanceInfo\<rparr>, as_instance = Inr i\<rparr>"

definition SessionRecord_UnmarshalJSON :: "session_doc \<Rightarrow> goerror + SessionRecord" where
  "SessionRecord_UnmarshalJSON b =
     (case as_record b of
        Inl err \<Rightarrow> Inl err
      | Inr p \<Rightarrow>
          if Version p = 0 then
            (case as_instance b of
               Inl err \<Rightarrow> Inl err
             | Inr legacy \<Rightarrow> Inr \<lparr>Version = SessionRecordVersion, Instance = legacy\<rparr>)
          else Inr p)"

text \<open>
  A record is read back as it was written, and a document from before versioning, a bare
  instance, is read as the record that today's code would have written for it. Whatever is
  read carries a version other than 0.
\<close>

theorem session_record_roundtrip:
  "SessionRecord_UnmarshalJSON (record_doc (NewSessionRecord i)) = Inr (NewSessionRecord i) \<and>
   SessionRecord_UnmarshalJSON (instance_doc i) = Inr (NewSessionRecord i) \<and>
   (SessionRecord_UnmarshalJSON b = Inr r \<longrightarrow> Version r \<noteq> 0)"
  by (auto simp: SessionRecord_UnmarshalJSON_def record_doc_def instance_doc_def NewSessionRecord_def
      SessionRecordVersion_def split: sum.splits if_splits)

theorem session_record_roundtrip_witness:
  "Version (NewSessionRecord zero_InstanceInfo) \<noteq> 0"
  using session_record_roundtrip [of zero_InstanceInfo "instance_doc zero_InstanceInfo" "NewSessionRecord zero_InstanceInfo"]
  by simp

end
