(* ===== verification/Dependency.thy ===== *)
theory Dependency
  imports Session
begin

text \<open>
  The dependency graph of \<open>pkg/sablier/instance_dependency.go\<close>: the conditions a dependency
  must reach, the resolution of the graph from the provider's hints, and the search for a
  cycle. Starting the instances of the graph is in \<open>Sablier_State\<close>.

  The two recursions are given fuel, the depth of the recursion, and return \<open>None\<close> when it is
  used up. \<open>resolve_total\<close> and \<open>dependency_cycle_detection\<close> show how much is enough: the number
  of instances for the first, and for the second one more than the number of nodes of the
  graph, which is what \<open>dependencyGraphCycle\<close> uses.
\<close>

section \<open>Conditions\<close>

record InstanceDependency =
  dep_Name :: string
  dep_Condition :: string

definition dependencyPollInterval :: duration where
  "dependencyPollInterval = 500 * Millisecond"

definition dependencyConditionSatisfied :: "InstanceStatus \<Rightarrow> string \<Rightarrow> bool" where
  "dependencyConditionSatisfied status condition =
     (if condition = ''service_healthy'' then status = InstanceStatusReady
      else if condition = ''service_completed_successfully'' then status = InstanceStatusCompleted
      else if condition = ''service_running_or_healthy'' then
        status = InstanceStatusStarting \<or> status = InstanceStatusReady
      else status = InstanceStatusStarting \<or> status = InstanceStatusReady \<or>
           status = InstanceStatusCompleted)"

section \<open>Resolving the graph\<close>

text \<open>The verb \<open>%q\<close> on a name without quotes, backslashes or control characters.\<close>

definition quoted :: "string \<Rightarrow> string" where
  "quoted s = [CHR 0x22] @ s @ [CHR 0x22]"

type_synonym depgraph = "(string, InstanceDependency list) gomap"

text \<open>\<open>deps_of\<close> is the provider's \<open>InstanceDependencies\<close>.\<close>

fun resolveDependencyGraph ::
    "nat \<Rightarrow> (string \<Rightarrow> goerror + InstanceDependency list) \<Rightarrow> string \<Rightarrow> depgraph \<Rightarrow> (goerror + depgraph) option"
  and resolve_list ::
    "nat \<Rightarrow> (string \<Rightarrow> goerror + InstanceDependency list) \<Rightarrow> InstanceDependency list \<Rightarrow> depgraph \<Rightarrow>
     (goerror + depgraph) option" where
  "resolveDependencyGraph 0 deps_of name graph = None"
| "resolveDependencyGraph (Suc n) deps_of name graph =
     (if map_of graph name \<noteq> None then Some (Inr graph)
      else case deps_of name of
             Inl err \<Rightarrow> Some (Inl (ErrWrap (''cannot resolve dependencies of '' @ quoted name) err))
           | Inr deps \<Rightarrow> resolve_list n deps_of deps (map_put name deps graph))"
| "resolve_list n deps_of [] graph = Some (Inr graph)"
| "resolve_list n deps_of (dep # deps) graph =
     (case resolveDependencyGraph n deps_of (dep_Name dep) graph of
        None \<Rightarrow> None
      | Some (Inl err) \<Rightarrow> Some (Inl err)
      | Some (Inr graph') \<Rightarrow> resolve_list n deps_of deps graph')"

section \<open>Looking for a cycle\<close>

datatype color = visiting | visited

text \<open>
  The search returns whether there is a cycle, the offending path (joined by the caller) and
  the colours. A node without a colour was not reached yet.
\<close>

fun visit :: "nat \<Rightarrow> depgraph \<Rightarrow> string \<Rightarrow> string list \<Rightarrow> (string, color) gomap \<Rightarrow>
      (string list option \<times> (string, color) gomap) option"
  and visit_deps :: "nat \<Rightarrow> depgraph \<Rightarrow> string \<Rightarrow> string list \<Rightarrow> InstanceDependency list \<Rightarrow> (string, color) gomap \<Rightarrow>
      (string list option \<times> (string, color) gomap) option" where
  "visit 0 graph node path state = None"
| "visit (Suc n) graph node path state =
     visit_deps n graph node (path @ [node]) (map_list graph node) (map_put node visiting state)"
| "visit_deps n graph node path [] state = Some (None, map_put node visited state)"
| "visit_deps n graph node path (dep # deps) state =
     (case map_of state (dep_Name dep) of
        Some visiting \<Rightarrow> Some (Some (path @ [dep_Name dep]), state)
      | Some visited \<Rightarrow> visit_deps n graph node path deps state
      | None \<Rightarrow>
          (case visit n graph (dep_Name dep) path state of
             None \<Rightarrow> None
           | Some (Some p, state') \<Rightarrow> Some (Some p, state')
           | Some (None, state') \<Rightarrow> visit_deps n graph node path deps state'))"

definition cycle_path :: "string \<Rightarrow> depgraph \<Rightarrow> string list option option" where
  "cycle_path root graph = map_option fst (visit (Suc (length graph)) graph root [] [])"

definition dependencyGraphCycle :: "string \<Rightarrow> depgraph \<Rightarrow> (bool \<times> string) option" where
  "dependencyGraphCycle root graph =
     (case cycle_path root graph of
        None \<Rightarrow> None
      | Some (Some p) \<Rightarrow> Some (True, Join p '' -> '')
      | Some None \<Rightarrow> Some (False, []))"

section \<open>The graph as a relation\<close>

definition edges :: "depgraph \<Rightarrow> (string \<times> string) set" where
  "edges graph = {(a, b). b \<in> dep_Name ` set (map_list graph a)}"

definition is_color :: "(string, color) gomap \<Rightarrow> color \<Rightarrow> string set" where
  "is_color state c = {a. map_of state a = Some c}"

text \<open>A path of the graph, as a list of nodes.\<close>

fun walk :: "depgraph \<Rightarrow> string list \<Rightarrow> bool" where
  "walk graph [] = True"
| "walk graph [a] = True"
| "walk graph (a # b # p) \<longleftrightarrow> (a, b) \<in> edges graph \<and> walk graph (b # p)"

lemma walk_snoc: "walk graph (p @ [a, b]) \<longleftrightarrow> walk graph (p @ [a]) \<and> (a, b) \<in> edges graph"
  by (induction graph p rule: walk.induct) auto

lemma walk_extend:
  "path \<noteq> [] \<Longrightarrow> walk graph path \<Longrightarrow> (last path, b) \<in> edges graph \<Longrightarrow> walk graph (path @ [b])"
  by (cases path rule: rev_cases) (simp_all add: walk_snoc)

lemma walk_reach: "walk graph (p @ [a]) \<Longrightarrow> b \<in> set p \<Longrightarrow> (b, a) \<in> (edges graph)\<^sup>+"
proof (induction p arbitrary: a rule: rev_induct)
  case (snoc c p)
  then have "walk graph (p @ [c])" "(c, a) \<in> edges graph" using walk_snoc [of graph p c a] by auto
  with snoc.IH [of c] snoc.prems(2) show ?case by (auto intro: trancl_into_trancl)
qed simp

lemma keys_edges: "(a, b) \<in> edges graph \<Longrightarrow> a \<in> set (map_keys graph)"
  unfolding set_map_keys by (cases "map_of graph a") (auto simp: edges_def map_list_def)

text \<open>The finished nodes: closed under edges, and on no cycle.\<close>

definition finished :: "depgraph \<Rightarrow> string set \<Rightarrow> bool" where
  "finished graph V \<longleftrightarrow> (\<forall>a\<in>V. \<forall>b. (a, b) \<in> edges graph \<longrightarrow> b \<in> V) \<and> (\<forall>a\<in>V. (a, a) \<notin> (edges graph)\<^sup>+)"

lemma finished_reach: "(a, b) \<in> (edges graph)\<^sup>* \<Longrightarrow> finished graph V \<Longrightarrow> a \<in> V \<Longrightarrow> b \<in> V"
  by (induction rule: rtrancl_induct) (auto simp: finished_def)

lemma finished_insert:
  assumes f: "finished graph V" and succ: "\<forall>b. (a, b) \<in> edges graph \<longrightarrow> b \<in> V" and a: "a \<notin> V"
  shows "finished graph (insert a V)"
proof -
  have "(a, a) \<notin> (edges graph)\<^sup>+"
  proof
    assume "(a, a) \<in> (edges graph)\<^sup>+"
    then obtain b where "(a, b) \<in> edges graph" "(b, a) \<in> (edges graph)\<^sup>*" by (metis tranclD)
    with succ finished_reach [OF _ f] a show False by blast
  qed
  with f succ show ?thesis by (auto simp: finished_def)
qed

text \<open>What the search keeps: the nodes on the path are the ones being visited.\<close>

definition search_ok :: "depgraph \<Rightarrow> string list \<Rightarrow> (string, color) gomap \<Rightarrow> bool" where
  "search_ok graph path state \<longleftrightarrow> is_color state visiting = set path \<and>
     finished graph (is_color state visited)"

lemma is_color_put:
  "is_color (map_put a c state) d = (if c = d then insert a (is_color state d) else is_color state d - {a})"
  by (auto simp: is_color_def map_of_put)

lemma colors_disjoint: "is_color state visiting \<inter> is_color state visited = {}"
  by (auto simp: is_color_def)

text \<open>
  The result of a search that did not run out of fuel: a path from the first node that ends in
  a node it contains already, or every node finished that was, and the searched ones as well.
\<close>

definition found :: "depgraph \<Rightarrow> string list \<Rightarrow> string list \<Rightarrow> bool" where
  "found graph path p \<longleftrightarrow> walk graph p \<and> (\<exists>q. p = path @ q) \<and> last p \<in> set (butlast p)"

lemma visit_sound:
  "visit n graph node path state = Some (r, state') \<Longrightarrow> search_ok graph path state \<Longrightarrow>
   map_of state node = None \<Longrightarrow> walk graph (path @ [node]) \<Longrightarrow>
   (case r of
      Some p \<Rightarrow> found graph (path @ [node]) p
    | None \<Rightarrow> search_ok graph path state' \<and> is_color state visited \<subseteq> is_color state' visited \<and>
        node \<in> is_color state' visited)"
  "visit_deps n graph node path1 deps state = Some (r, state') \<Longrightarrow> path1 = path @ [node] \<Longrightarrow>
   search_ok graph path1 state \<Longrightarrow> node \<notin> set path \<Longrightarrow> walk graph path1 \<Longrightarrow>
   map_list graph node = pre @ deps \<Longrightarrow> dep_Name ` set pre \<subseteq> is_color state visited \<Longrightarrow>
   (case r of
      Some p \<Rightarrow> found graph (path @ [node]) p
    | None \<Rightarrow> search_ok graph path state' \<and> is_color state visited \<subseteq> is_color state' visited \<and>
        node \<in> is_color state' visited)"
proof (induction n graph node path state and n graph node path1 deps state
    arbitrary: r state' and r state' path pre rule: visit_visit_deps.induct)
  case (2 n graph node path state)
  let ?s = "map_put node visiting state"
  have white: "node \<notin> is_color state visiting" "node \<notin> is_color state visited"
    using "2.prems" by (simp_all add: is_color_def)
  have "search_ok graph (path @ [node]) ?s"
    using "2.prems"(2) white by (simp add: search_ok_def is_color_put)
  moreover have "node \<notin> set path" using "2.prems"(2) white by (simp add: search_ok_def)
  moreover have "is_color ?s visited = is_color state visited" using white by (simp add: is_color_put)
  ultimately show ?case
    using "2.IH" [of r state' path "[]"] "2.prems" by (simp split: option.splits)
next
  case (3 n graph node path1 state)
  have V: "is_color state' visited = insert node (is_color state visited)"
    "is_color state' visiting = is_color state visiting - {node}"
    using "3.prems"(1) by (auto simp: is_color_put)
  have "node \<notin> is_color state visited"
    using "3.prems" colors_disjoint [of state] by (auto simp: search_ok_def)
  moreover have "\<forall>b. (node, b) \<in> edges graph \<longrightarrow> b \<in> is_color state visited"
    using "3.prems"(6,7) by (auto simp: edges_def)
  ultimately have "finished graph (insert node (is_color state visited))"
    using "3.prems"(3) by (intro finished_insert) (simp_all add: search_ok_def)
  with V "3.prems" show ?case by (auto simp: search_ok_def)
next
  case (4 n graph node path1 dep deps state)
  let ?d = "dep_Name dep"
  have e: "(node, ?d) \<in> edges graph" using "4.prems"(6) by (simp add: edges_def)
  have w: "walk graph (path1 @ [?d])" using "4.prems"(2,5) e walk_snoc by simp
  show ?case
  proof (cases "map_of state ?d")
    case (Some c)
    show ?thesis
    proof (cases c)
      case visiting
      then have "?d \<in> set path1" using Some "4.prems"(3) by (auto simp: search_ok_def is_color_def)
      moreover have "r = Some (path1 @ [?d])" using "4.prems"(1) Some visiting by simp
      ultimately show ?thesis using w "4.prems"(2) by (auto simp: found_def butlast_append)
    next
      case visited
      then have "dep_Name ` set (pre @ [dep]) \<subseteq> is_color state visited"
        using Some "4.prems"(7) by (simp add: is_color_def)
      with "4.IH"(3) [OF Some visited, of r state' path "pre @ [dep]"] "4.prems" Some visited
      show ?thesis by simp
    qed
  next
    case None
    then obtain r1 s1 where v: "visit n graph ?d path1 state = Some (r1, s1)"
      using "4.prems"(1) by (auto split: option.splits)
    note IH = "4.IH"(1) [OF None v "4.prems"(3) None w]
    show ?thesis
    proof (cases r1)
      case (Some p)
      with "4.prems"(1) None v have "r = Some p" by simp
      with IH Some "4.prems"(2) show ?thesis by (auto simp: found_def)
    next
      case r1: None
      with IH have s1: "search_ok graph path1 s1" "is_color state visited \<subseteq> is_color s1 visited"
        "?d \<in> is_color s1 visited" by simp_all
      have "visit_deps n graph node path1 deps s1 = Some (r, state')"
        using "4.prems"(1) None v r1 by simp
      moreover have "dep_Name ` set (pre @ [dep]) \<subseteq> is_color s1 visited" using s1 "4.prems"(7) by auto
      ultimately have "case r of
          Some p \<Rightarrow> found graph (path @ [node]) p
        | None \<Rightarrow> search_ok graph path state' \<and> is_color s1 visited \<subseteq> is_color state' visited \<and>
            node \<in> is_color state' visited"
        using "4.IH"(2) [OF None v refl r1, of r state' path "pre @ [dep]"] s1(1) "4.prems"(2,4,5,6) by simp
      with s1(2) show ?thesis by (auto split: option.splits)
    qed
  qed
qed simp_all

text \<open>Enough fuel: the path is duplicate-free and, but for its last node, inside the graph.\<close>

lemma path_short:
  assumes "distinct path" "set path \<subseteq> set (map_keys graph)"
  shows "length path \<le> length (graph :: depgraph)"
proof -
  have "length path = card (set path)" using assms(1) by (simp add: distinct_card)
  also have "\<dots> \<le> card (set (map_keys graph))" using assms(2) by (intro card_mono) simp_all
  also have "\<dots> \<le> length graph" using card_length [of "map_keys graph"] by simp
  finally show ?thesis .
qed

lemma visit_total:
  "search_ok graph path state \<Longrightarrow> map_of state node = None \<Longrightarrow> walk graph (path @ [node]) \<Longrightarrow>
   distinct path \<Longrightarrow> set path \<subseteq> set (map_keys graph) \<Longrightarrow> length graph < n + length path \<Longrightarrow>
   visit n graph node path state \<noteq> None"
  "path1 = path @ [node] \<Longrightarrow> search_ok graph path1 state \<Longrightarrow> walk graph path1 \<Longrightarrow>
   distinct path1 \<Longrightarrow> set path \<subseteq> set (map_keys graph) \<Longrightarrow> length graph < n + length path1 \<Longrightarrow>
   map_list graph node = pre @ deps \<Longrightarrow> visit_deps n graph node path1 deps state \<noteq> None"
proof (induction n graph node path state and n graph node path1 deps state
    arbitrary: and path pre rule: visit_visit_deps.induct)
  case (1 graph node path state)
  then show ?case using path_short [of path graph] by simp
next
  case (2 n graph node path state)
  have white: "node \<notin> is_color state visiting" "node \<notin> is_color state visited"
    using "2.prems" by (simp_all add: is_color_def)
  then have "search_ok graph (path @ [node]) (map_put node visiting state)" "node \<notin> set path"
    using "2.prems"(1) by (simp_all add: search_ok_def is_color_put)
  with "2.IH" [of path "[]"] "2.prems" show ?case by simp
next
  case (4 n graph node path1 dep deps state)
  let ?d = "dep_Name dep"
  have e: "(node, ?d) \<in> edges graph" using "4.prems"(7) by (simp add: edges_def)
  have w: "walk graph (path1 @ [?d])" using "4.prems"(1,3) e walk_snoc by simp
  have keys: "set path1 \<subseteq> set (map_keys graph)" using "4.prems"(1,5) keys_edges [OF e] by simp
  have pre: "map_list graph node = (pre @ [dep]) @ deps" using "4.prems"(7) by simp
  show ?case
  proof (cases "map_of state ?d")
    case (Some c)
    with "4.IH"(3) [OF Some _ "4.prems"(1-6) pre] show ?thesis by (cases c) auto
  next
    case None
    with "4.IH"(1) [OF None "4.prems"(2) None w "4.prems"(4) keys "4.prems"(6)]
    obtain r s1 where v: "visit n graph ?d path1 state = Some (r, s1)" by auto
    show ?thesis
    proof (cases r)
      case r: None
      then have "search_ok graph path1 s1" using visit_sound(1) [OF v "4.prems"(2) None w] by simp
      from "4.IH"(2) [OF None v refl r "4.prems"(1) this "4.prems"(3-6) pre] None v r show ?thesis by simp
    qed (use None v in simp)
  qed
qed simp_all

lemma walk_last_cycle:
  assumes "walk graph p" "last p \<in> set (butlast p)" "hd p = root"
  shows "\<exists>n. (root, n) \<in> (edges graph)\<^sup>* \<and> (n, n) \<in> (edges graph)\<^sup>+"
proof -
  from assms(2) have ne: "p \<noteq> []" by auto
  then have p: "walk graph (butlast p @ [last p])" using assms(1) by simp
  from assms(2) have "butlast p \<noteq> []" by auto
  then have "root \<in> set (butlast p)"
    using assms(3) ne by (metis append_butlast_last_id hd_append2 hd_in_set)
  with walk_reach [OF p] assms(2) show ?thesis by (meson trancl_into_rtrancl)
qed

lemma walk_keys: "walk graph (p @ [a]) \<Longrightarrow> set p \<subseteq> set (map_keys graph)"
proof (induction p arbitrary: a rule: rev_induct)
  case (snoc c p)
  then have "walk graph (p @ [c])" "(c, a) \<in> edges graph" using walk_snoc [of graph p c a] by auto
  with snoc.IH [of c] keys_edges show ?case by auto
qed simp

lemma walk_distinct: "walk graph p \<Longrightarrow> \<forall>x\<in>set p. (x, x) \<notin> (edges graph)\<^sup>+ \<Longrightarrow> distinct p"
proof (induction p rule: rev_induct)
  case (snoc a p)
  have "walk graph p"
    using snoc.prems(1) by (cases p rule: rev_cases) (simp_all add: walk_snoc)
  with snoc walk_reach [of graph p a a] show ?case by auto
qed simp

lemma walk_from:
  assumes "walk graph p" "x \<in> set p"
  shows "(hd p, x) \<in> (edges graph)\<^sup>*"
  using assms
proof (induction p rule: walk.induct)
  case (3 graph a b p)
  then show ?case by (auto intro: converse_rtrancl_into_rtrancl)
qed auto

section \<open>Properties\<close>

lemma cycle_path_cases:
  "\<exists>r state'. visit (Suc (length graph)) graph root [] [] = Some (r, state') \<and> cycle_path root graph = Some r"
proof -
  have "search_ok graph [] []" by (simp add: search_ok_def is_color_def finished_def)
  then have "visit (Suc (length graph)) graph root [] [] \<noteq> None" by (intro visit_total(1)) simp_all
  then show ?thesis by (auto simp: cycle_path_def simp del: visit.simps)
qed

lemma dependency_cycle_result:
  "\<exists>r. cycle_path root graph = Some r \<and>
     dependencyGraphCycle root graph =
       Some (case r of None \<Rightarrow> (False, []) | Some p \<Rightarrow> (True, Join p '' -> '')) \<and>
     (r \<noteq> None \<longleftrightarrow> (\<exists>n. (root, n) \<in> (edges graph)\<^sup>* \<and> (n, n) \<in> (edges graph)\<^sup>+)) \<and>
     (\<forall>p. r = Some p \<longrightarrow> p \<noteq> [] \<and> hd p = root \<and> walk graph p \<and> last p \<in> set (butlast p))"
proof -
  obtain r s where v: "visit (Suc (length graph)) graph root [] [] = Some (r, s)"
    and r: "cycle_path root graph = Some r" using cycle_path_cases by blast
  have init: "search_ok graph [] []" by (simp add: search_ok_def is_color_def finished_def)
  note S = visit_sound(1) [OF v init]
  have path: "p \<noteq> [] \<and> hd p = root \<and> walk graph p \<and> last p \<in> set (butlast p)" if "r = Some p" for p
    using S that by (auto simp: found_def)
  have "r \<noteq> None \<longleftrightarrow> (\<exists>n. (root, n) \<in> (edges graph)\<^sup>* \<and> (n, n) \<in> (edges graph)\<^sup>+)"
  proof (cases r)
    case None
    with S have "finished graph (is_color s visited)" "root \<in> is_color s visited"
      by (simp_all add: search_ok_def)
    then have "\<nexists>n. (root, n) \<in> (edges graph)\<^sup>* \<and> (n, n) \<in> (edges graph)\<^sup>+"
      using finished_reach unfolding finished_def by meson
    with None show ?thesis by simp
  next
    case (Some p)
    with path [OF Some] walk_last_cycle [of graph p root] show ?thesis by simp
  qed
  with r path show ?thesis
    by (intro exI [of _ r]) (simp add: dependencyGraphCycle_def split: option.splits)
qed

lemma dependency_cycle_exact:
  "(\<exists>p. dependencyGraphCycle root graph = Some (True, p)) \<and>
     (\<exists>n. (root, n) \<in> (edges graph)\<^sup>* \<and> (n, n) \<in> (edges graph)\<^sup>+) \<or>
   dependencyGraphCycle root graph = Some (False, []) \<and>
     \<not> (\<exists>n. (root, n) \<in> (edges graph)\<^sup>* \<and> (n, n) \<in> (edges graph)\<^sup>+)"
proof -
  obtain r where "dependencyGraphCycle root graph =
      Some (case r of None \<Rightarrow> (False, []) | Some p \<Rightarrow> (True, Join p '' -> ''))"
    "r \<noteq> None \<longleftrightarrow> (\<exists>n. (root, n) \<in> (edges graph)\<^sup>* \<and> (n, n) \<in> (edges graph)\<^sup>+)"
    using dependency_cycle_result by blast
  then show ?thesis by (cases r) auto
qed

text \<open>
  C10: the search for a cycle always ends, and it is exact: it reports a cycle if and only if
  some instance that the root depends on, directly or not, depends on itself. A reported path
  starts at the root, follows dependencies, and ends in an instance that it already contains.
\<close>

theorem dependency_cycle_detection:
  "\<exists>r. cycle_path root graph = Some r \<and>
     dependencyGraphCycle root graph =
       Some (case r of None \<Rightarrow> (False, []) | Some p \<Rightarrow> (True, Join p '' -> '')) \<and>
     (r \<noteq> None \<longleftrightarrow> (\<exists>n. (root, n) \<in> (edges graph)\<^sup>* \<and> (n, n) \<in> (edges graph)\<^sup>+)) \<and>
     (\<forall>p. r = Some p \<longrightarrow> p \<noteq> [] \<and> hd p = root \<and> walk graph p \<and> last p \<in> set (butlast p))"
  by (rule dependency_cycle_result)

theorem dependency_cycle_detection_witness:
  "\<exists>n. (''a'', n) \<in> (edges [(''a'', [\<lparr>dep_Name = ''b'', dep_Condition = []\<rparr>]), (''b'', [\<lparr>dep_Name = ''b'', dep_Condition = []\<rparr>])])\<^sup>* \<and>
       (n, n) \<in> (edges [(''a'', [\<lparr>dep_Name = ''b'', dep_Condition = []\<rparr>]), (''b'', [\<lparr>dep_Name = ''b'', dep_Condition = []\<rparr>])])\<^sup>+"
proof -
  have "cycle_path ''a'' [(''a'', [\<lparr>dep_Name = ''b'', dep_Condition = []\<rparr>]), (''b'', [\<lparr>dep_Name = ''b'', dep_Condition = []\<rparr>])] =
      Some (Some [''a'', ''b'', ''b''])"
    by code_simp
  with dependency_cycle_detection
    [of "''a''" "[(''a'', [\<lparr>dep_Name = ''b'', dep_Condition = []\<rparr>]), (''b'', [\<lparr>dep_Name = ''b'', dep_Condition = []\<rparr>])]"]
  show ?thesis by auto
qed

section \<open>The resolved graph\<close>

definition depends :: "(string \<Rightarrow> goerror + InstanceDependency list) \<Rightarrow> (string \<times> string) set" where
  "depends deps_of = {(a, b). \<exists>ds. deps_of a = Inr ds \<and> b \<in> dep_Name ` set ds}"

definition reports :: "(string \<Rightarrow> goerror + InstanceDependency list) \<Rightarrow> depgraph \<Rightarrow> bool" where
  "reports deps_of graph \<longleftrightarrow> (\<forall>a ds. map_of graph a = Some ds \<longrightarrow> deps_of a = Inr ds)"

definition nodes :: "depgraph \<Rightarrow> string set" where
  "nodes graph = dom (map_of graph)"

lemma nodes_Nil [simp]: "nodes [] = {}"
  and nodes_put [simp]: "nodes (map_put n ds g) = insert n (nodes g)"
  and nodes_None: "map_of g n = None \<longleftrightarrow> n \<notin> nodes g"
  by (auto simp: nodes_def map_of_put)

text \<open>Growing a graph from the names \<open>from\<close>: every new node has all its dependencies.\<close>

definition grown :: "(string \<Rightarrow> goerror + InstanceDependency list) \<Rightarrow> string set \<Rightarrow> depgraph \<Rightarrow> depgraph \<Rightarrow> bool" where
  "grown deps_of from graph graph' \<longleftrightarrow>
     reports deps_of graph' \<and> nodes graph \<subseteq> nodes graph' \<and> from \<subseteq> nodes graph' \<and>
     (\<forall>a\<in>nodes graph' - nodes graph.
        (\<forall>b. (a, b) \<in> depends deps_of \<longrightarrow> b \<in> nodes graph') \<and>
        (\<exists>f\<in>from. (f, a) \<in> (depends deps_of)\<^sup>*))"

lemma grownD:
  assumes "grown deps_of from g g'"
  shows "nodes g \<subseteq> nodes g'" "from \<subseteq> nodes g'" "reports deps_of g'"
    "a \<in> nodes g' \<Longrightarrow> a \<notin> nodes g \<Longrightarrow> (a, b) \<in> depends deps_of \<Longrightarrow> b \<in> nodes g'"
    "a \<in> nodes g' \<Longrightarrow> a \<notin> nodes g \<Longrightarrow> \<exists>f\<in>from. (f, a) \<in> (depends deps_of)\<^sup>*"
  using assms unfolding grown_def by blast+

lemma grown_trans:
  assumes a: "grown deps_of F g1 g2" and b: "grown deps_of G g2 g3"
  shows "grown deps_of (F \<union> G) g1 g3"
proof -
  have 1: "b \<in> nodes g3" if "n \<in> nodes g3 - nodes g1" "(n, b) \<in> depends deps_of" for n b
    using that grownD(4) [OF a, of n b] grownD(4) [OF b, of n b] grownD(1) [OF b] by blast
  have 2: "\<exists>f\<in>F \<union> G. (f, n) \<in> (depends deps_of)\<^sup>*" if "n \<in> nodes g3 - nodes g1" for n
    using that grownD(5) [OF a, of n] grownD(5) [OF b, of n] by blast
  show ?thesis unfolding grown_def
    using 1 2 grownD(1-3) [OF a] grownD(1-3) [OF b] by blast
qed

lemma grown_node:
  assumes new: "map_of g name = None" and deps: "deps_of name = Inr ds"
    and g: "grown deps_of (dep_Name ` set ds) (map_put name ds g) g'"
  shows "grown deps_of {name} g g'"
proof -
  have D: "(name, b) \<in> depends deps_of \<longleftrightarrow> b \<in> dep_Name ` set ds" for b
    using deps by (simp add: depends_def)
  note G = grownD(1-3) [OF g, simplified]
  have 1: "b \<in> nodes g'" if "n \<in> nodes g' - nodes g" "(n, b) \<in> depends deps_of" for n b
    using that D G(2) grownD(4) [OF g, of n b] by (cases "n = name") auto
  have 2: "(name, n) \<in> (depends deps_of)\<^sup>*" if n: "n \<in> nodes g' - nodes g" for n
  proof (cases "n = name")
    case False
    with n grownD(5) [OF g, of n] obtain f where "f \<in> dep_Name ` set ds" "(f, n) \<in> (depends deps_of)\<^sup>*"
      by auto
    with D show ?thesis by (blast intro: converse_rtrancl_into_rtrancl)
  qed simp
  show ?thesis unfolding grown_def using 1 2 G by blast
qed

lemma reports_put: "reports deps_of g \<Longrightarrow> deps_of name = Inr ds \<Longrightarrow> reports deps_of (map_put name ds g)"
  by (auto simp: reports_def map_of_put)

lemma resolve_grown:
  "resolveDependencyGraph n deps_of name g = Some (Inr g') \<Longrightarrow> reports deps_of g \<Longrightarrow> grown deps_of {name} g g'"
  "resolve_list n deps_of deps g = Some (Inr g') \<Longrightarrow> reports deps_of g \<Longrightarrow>
   grown deps_of (dep_Name ` set deps) g g'"
proof (induction n deps_of name g and n deps_of deps g arbitrary: g' and g'
    rule: resolveDependencyGraph_resolve_list.induct)
  case (2 n deps_of name g)
  show ?case
  proof (cases "map_of g name")
    case (Some ds)
    with "2.prems" show ?thesis using nodes_None [of g name] by (auto simp: grown_def)
  next
    case None
    with "2.prems" obtain ds where ds: "deps_of name = Inr ds"
      and r: "resolve_list n deps_of ds (map_put name ds g) = Some (Inr g')"
      by (auto split: sum.splits)
    have "\<not> map_of g name \<noteq> None" using None by simp
    from "2.IH" [OF this ds r reports_put [OF "2.prems"(2) ds]] show ?thesis
      using None ds by (intro grown_node) simp_all
  qed
next
  case (3 n deps_of g)
  then show ?case by (auto simp: grown_def)
next
  case (4 n deps_of dep deps g)
  then obtain g1 where g1: "resolveDependencyGraph n deps_of (dep_Name dep) g = Some (Inr g1)"
    and r: "resolve_list n deps_of deps g1 = Some (Inr g')"
    by (auto split: option.splits sum.splits)
  have G: "grown deps_of {dep_Name dep} g g1" using "4.IH"(1) [OF g1 "4.prems"(2)] .
  then have "reports deps_of g1" by (simp add: grown_def)
  from grown_trans [OF G "4.IH"(2) [OF g1 refl r this]] show ?case by simp
qed simp

lemma resolve_wf:
  "resolveDependencyGraph n deps_of name g = Some (Inr g') \<Longrightarrow> wf_map g \<Longrightarrow> wf_map g'"
  "resolve_list n deps_of deps g = Some (Inr g') \<Longrightarrow> wf_map g \<Longrightarrow> wf_map g'"
  by (induction n deps_of name g and n deps_of deps g arbitrary: g' and g'
      rule: resolveDependencyGraph_resolve_list.induct)
    (auto split: if_splits sum.splits option.splits intro: wf_intros)

lemma length_nodes: "wf_map g \<Longrightarrow> length g = card (nodes g)"
  using distinct_card [of "map fst g"] by (simp add: wf_map_def nodes_def dom_map_of_conv_image_fst)

lemma resolve_error:
  "resolveDependencyGraph n deps_of name g = Some (Inl err) \<Longrightarrow>
   \<exists>a cause. (name, a) \<in> (depends deps_of)\<^sup>* \<and> deps_of a = Inl cause \<and>
     err = ErrWrap (''cannot resolve dependencies of '' @ quoted a) cause"
  "resolve_list n deps_of deps g = Some (Inl err) \<Longrightarrow>
   \<exists>f\<in>dep_Name ` set deps. \<exists>a cause. (f, a) \<in> (depends deps_of)\<^sup>* \<and> deps_of a = Inl cause \<and>
     err = ErrWrap (''cannot resolve dependencies of '' @ quoted a) cause"
proof (induction n deps_of name g and n deps_of deps g
    rule: resolveDependencyGraph_resolve_list.induct)
  case (2 n deps_of name g)
  from "2.prems" have new: "\<not> map_of g name \<noteq> None" by (auto split: if_splits)
  show ?case
  proof (cases "deps_of name")
    case (Inl e)
    with "2.prems" new show ?thesis by auto
  next
    case (Inr ds)
    with "2.prems" new have "resolve_list n deps_of ds (map_put name ds g) = Some (Inl err)" by simp
    from "2.IH" [OF new Inr this] obtain f a cause where f: "f \<in> dep_Name ` set ds"
      and a: "(f, a) \<in> (depends deps_of)\<^sup>*" "deps_of a = Inl cause"
        "err = ErrWrap (''cannot resolve dependencies of '' @ quoted a) cause" by blast
    have "(name, f) \<in> depends deps_of" using f Inr by (simp add: depends_def)
    with a show ?thesis by (blast intro: converse_rtrancl_into_rtrancl)
  qed
next
  case (4 n deps_of dep deps g)
  show ?case
  proof (cases "resolveDependencyGraph n deps_of (dep_Name dep) g")
    case (Some r)
    show ?thesis
    proof (cases r)
      case (Inl e)
      with "4.prems" Some "4.IH"(1) show ?thesis by auto
    next
      case (Inr g1)
      with "4.prems" Some "4.IH"(2) [OF Some Inr] show ?thesis by auto
    qed
  qed (use "4.prems" in simp)
qed simp_all

lemma resolve_total:
  "finite U \<Longrightarrow> depends deps_of `` U \<subseteq> U \<Longrightarrow> reports deps_of g \<Longrightarrow> card (U - nodes g) < n \<Longrightarrow>
   name \<in> U \<Longrightarrow> resolveDependencyGraph n deps_of name g \<noteq> None"
  "finite U \<Longrightarrow> depends deps_of `` U \<subseteq> U \<Longrightarrow> reports deps_of g \<Longrightarrow> card (U - nodes g) < n \<Longrightarrow>
   dep_Name ` set deps \<subseteq> U \<Longrightarrow> resolve_list n deps_of deps g \<noteq> None"
proof (induction n deps_of name g and n deps_of deps g
    rule: resolveDependencyGraph_resolve_list.induct)
  case (2 n deps_of name g)
  show ?case
  proof (cases "map_of g name = None \<and> (\<exists>ds. deps_of name = Inr ds)")
    case True
    then obtain ds where new: "map_of g name = None" and ds: "deps_of name = Inr ds" by blast
    have "U - nodes (map_put name ds g) \<subset> U - nodes g" using "2.prems"(5) new nodes_None by auto
    then have "card (U - nodes (map_put name ds g)) < card (U - nodes g)"
      using "2.prems"(1) by (intro psubset_card_mono) simp_all
    then have "card (U - nodes (map_put name ds g)) < n" using "2.prems"(4) by simp
    moreover have "dep_Name ` set ds \<subseteq> U" using "2.prems"(2,5) ds by (auto simp: depends_def)
    ultimately have "resolve_list n deps_of ds (map_put name ds g) \<noteq> None"
      using new "2.prems"(1-3) reports_put [OF "2.prems"(3) ds] by (intro "2.IH") (auto simp: ds)
    with new ds show ?thesis by simp
  qed (auto split: sum.splits)
next
  case (4 n deps_of dep deps g)
  from "4.IH"(1) "4.prems" obtain r where r: "resolveDependencyGraph n deps_of (dep_Name dep) g = Some r" by auto
  show ?case
  proof (cases r)
    case (Inr g1)
    have G: "grown deps_of {dep_Name dep} g g1"
      using resolve_grown(1) [OF r [unfolded Inr] "4.prems"(3)] .
    then have "card (U - nodes g1) \<le> card (U - nodes g)"
      using "4.prems"(1) by (intro card_mono) (auto simp: grown_def)
    moreover have "reports deps_of g1" using G by (simp add: grown_def)
    ultimately have "resolve_list n deps_of deps g1 \<noteq> None"
      using "4.prems" by (intro "4.IH"(2) [OF r Inr]) auto
    with r Inr show ?thesis by simp
  qed (simp add: r)
qed simp_all

text \<open>
  C18: if an instance has only finitely many direct and indirect dependencies, the resolution
  ends, cyclic configurations included; the depth of the recursion never exceeds the number of
  instances by more than one. When it succeeds, the graph holds exactly these instances, each
  with the dependencies that the provider reports; when it fails, the provider failed for one
  of them, and the error wraps that failure.
\<close>

theorem resolution_complete:
  assumes "finite U" "name \<in> U" "depends deps_of `` U \<subseteq> U"
  shows "\<exists>r. resolveDependencyGraph (Suc (card U)) deps_of name [] = Some r \<and>
    (case r of
       Inr graph \<Rightarrow>
         nodes graph = {a. (name, a) \<in> (depends deps_of)\<^sup>*} \<and> reports deps_of graph
     | Inl err \<Rightarrow>
         \<exists>a cause. (name, a) \<in> (depends deps_of)\<^sup>* \<and> deps_of a = Inl cause \<and> errors_Is err cause)"
proof -
  have rep: "reports deps_of []" by (simp add: reports_def)
  have "resolveDependencyGraph (Suc (card U)) deps_of name [] \<noteq> None"
    using assms rep by (intro resolve_total(1)) simp_all
  then obtain r where r: "resolveDependencyGraph (Suc (card U)) deps_of name [] = Some r" by auto
  show ?thesis
  proof (cases r)
    case (Inl err)
    have "errors_Is cause cause" for cause by (cases cause) auto
    with resolve_error(1) [OF r [unfolded Inl]] r Inl show ?thesis by fastforce
  next
    case (Inr g)
    have G: "grown deps_of {name} [] g" using resolve_grown(1) [OF r [unfolded Inr] rep] .
    have "(name, a) \<in> (depends deps_of)\<^sup>* \<Longrightarrow> a \<in> nodes g" for a
      by (induction rule: rtrancl_induct) (use G in \<open>auto simp: grown_def\<close>)
    moreover have "(name, a) \<in> (depends deps_of)\<^sup>*" if "a \<in> nodes g" for a
      using G that unfolding grown_def by auto
    ultimately have "nodes g = {a. (name, a) \<in> (depends deps_of)\<^sup>*}" by blast
    with r Inr G show ?thesis by (simp add: grown_def)
  qed
qed

theorem resolution_complete_witness:
  "\<exists>r. resolveDependencyGraph (Suc (card {''a'', ''b''}))
      (\<lambda>n. Inr (if n = ''a'' then [\<lparr>dep_Name = ''b'', dep_Condition = []\<rparr>] else [])) ''a'' [] = Some r \<and>
    (case r of
       Inr graph \<Rightarrow>
         nodes graph = {a. (''a'', a) \<in> (depends (\<lambda>n. Inr (if n = ''a'' then [\<lparr>dep_Name = ''b'', dep_Condition = []\<rparr>] else [])))\<^sup>*} \<and>
         reports (\<lambda>n. Inr (if n = ''a'' then [\<lparr>dep_Name = ''b'', dep_Condition = []\<rparr>] else [])) graph
     | Inl err \<Rightarrow>
         \<exists>a cause. (''a'', a) \<in> (depends (\<lambda>n. Inr (if n = ''a'' then [\<lparr>dep_Name = ''b'', dep_Condition = []\<rparr>] else [])))\<^sup>* \<and>
           Inr (if a = ''a'' then [\<lparr>dep_Name = ''b'', dep_Condition = []\<rparr>] else []) = Inl cause \<and> errors_Is err cause)"
  by (rule resolution_complete) (auto simp: depends_def)

text \<open>
  The conditions are ordered: a ready dependency satisfies every condition but successful
  completion, a completed one-shot only that one and the default, a stopped or failed one none.
\<close>

theorem condition_table:
  "(dependencyConditionSatisfied InstanceStatusReady c \<longleftrightarrow> c \<noteq> ''service_completed_successfully'') \<and>
   (dependencyConditionSatisfied InstanceStatusCompleted c \<longleftrightarrow>
      c \<noteq> ''service_healthy'' \<and> c \<noteq> ''service_running_or_healthy'') \<and>
   (dependencyConditionSatisfied InstanceStatusStarting c \<longleftrightarrow>
      c \<noteq> ''service_healthy'' \<and> c \<noteq> ''service_completed_successfully'') \<and>
   \<not> dependencyConditionSatisfied InstanceStatusStopped c \<and>
   \<not> dependencyConditionSatisfied InstanceStatusError c \<and>
   \<not> dependencyConditionSatisfied InstanceStatusNotReady c"
  by (auto simp: dependencyConditionSatisfied_def)

end
