(* ===== verification/Heap_Ops.thy ===== *)
theory Heap_Ops
  imports Prelude
begin

text \<open>
  The array-based binary heap of \<open>pkg/tinykv/heap.go\<close>. The Go interface value
  (\<open>Len\<close>, \<open>Less\<close>, \<open>Swap\<close>, \<open>Push\<close>, \<open>Pop\<close>) is a slice, here a list, together with the
  \<open>Less\<close> of its elements. A loop is a recursive function; \<open>Pop\<close> and \<open>Remove\<close> return
  \<open>None\<close> where the Go code indexes out of range and panics.

  The proofs live in the locale \<open>heap_order\<close>, whose laws are those of a strict weak order.
  A heap is repaired from a state in which the order may fail at one position only, upwards
  (\<open>hole_up\<close>) or downwards (\<open>hole\<close>).
\<close>

section \<open>Operations\<close>

function up :: "('a \<Rightarrow> 'a \<Rightarrow> bool) \<Rightarrow> 'a list \<Rightarrow> nat \<Rightarrow> 'a list" where
  "up lt h j =
     (let i = (j - 1) div 2 in
      if i = j \<or> \<not> lt (h ! j) (h ! i) then h else up lt (Swap i j h) i)"
  by pat_completeness auto
termination
  by (relation "measure (\<lambda>(lt, h, j). j)") auto

text \<open>The loop of \<open>down\<close>: the slice and the final position.\<close>

function down_loop :: "('a \<Rightarrow> 'a \<Rightarrow> bool) \<Rightarrow> 'a list \<Rightarrow> nat \<Rightarrow> nat \<Rightarrow> 'a list \<times> nat" where
  "down_loop lt h i n =
     (let j1 = 2 * i + 1 in
      if j1 \<ge> n then (h, i)
      else let j2 = j1 + 1;
               j = (if j2 < n \<and> lt (h ! j2) (h ! j1) then j2 else j1)
           in if \<not> lt (h ! j) (h ! i) then (h, i)
              else down_loop lt (Swap i j h) j n)"
  by pat_completeness auto
termination
  by (relation "measure (\<lambda>(lt, h, i, n). n - i)") (auto simp: Let_def)

definition down :: "('a \<Rightarrow> 'a \<Rightarrow> bool) \<Rightarrow> 'a list \<Rightarrow> nat \<Rightarrow> nat \<Rightarrow> 'a list \<times> bool" where
  "down lt h i0 n = (case down_loop lt h i0 n of (h', i) \<Rightarrow> (h', i0 < i))"

text \<open>The loop of \<open>Init\<close> runs \<open>down\<close> at \<open>k - 1\<close>, \<open>k - 2\<close>, \dots, \<open>0\<close>.\<close>

fun init_loop :: "('a \<Rightarrow> 'a \<Rightarrow> bool) \<Rightarrow> 'a list \<Rightarrow> nat \<Rightarrow> nat \<Rightarrow> 'a list" where
  "init_loop lt h 0 n = h"
| "init_loop lt h (Suc k) n = init_loop lt (fst (down lt h k n)) k n"

definition heap_Init :: "('a \<Rightarrow> 'a \<Rightarrow> bool) \<Rightarrow> 'a list \<Rightarrow> 'a list" where
  "heap_Init lt h = (let n = length h in init_loop lt h (n div 2) n)"

definition heap_Push :: "('a \<Rightarrow> 'a \<Rightarrow> bool) \<Rightarrow> 'a list \<Rightarrow> 'a \<Rightarrow> 'a list" where
  "heap_Push lt h x = (let h1 = h @ [x] in up lt h1 (length h1 - 1))"

definition heap_Pop :: "('a \<Rightarrow> 'a \<Rightarrow> bool) \<Rightarrow> 'a list \<Rightarrow> ('a \<times> 'a list) option" where
  "heap_Pop lt h =
     (if h = [] then None
      else let n = length h - 1;
               h1 = Swap 0 n h;
               h2 = fst (down lt h1 0 n)
           in Some (last h2, butlast h2))"

definition heap_Remove :: "('a \<Rightarrow> 'a \<Rightarrow> bool) \<Rightarrow> 'a list \<Rightarrow> nat \<Rightarrow> ('a \<times> 'a list) option" where
  "heap_Remove lt h i =
     (if length h \<le> i then None
      else let n = length h - 1;
               h' = (if n \<noteq> i
                     then (case down lt (Swap i n h) i n of
                             (h1, moved) \<Rightarrow> if \<not> moved then up lt h1 i else h1)
                     else h)
           in Some (last h', butlast h'))"

definition heap_Fix :: "('a \<Rightarrow> 'a \<Rightarrow> bool) \<Rightarrow> 'a list \<Rightarrow> nat \<Rightarrow> 'a list" where
  "heap_Fix lt h i =
     (case down lt h i (length h) of (h1, moved) \<Rightarrow> if \<not> moved then up lt h1 i else h1)"

declare up.simps [simp del] down_loop.simps [simp del]

section \<open>Parents and children\<close>

definition par :: "nat \<Rightarrow> nat" where
  "par c = (c - 1) div 2"

lemma par_less: "0 < c \<Longrightarrow> par c < c"
  by (auto simp: par_def)

lemma par_le: "par c \<le> c"
  by (auto simp: par_def)

lemma par_eq_iff: "0 < c \<Longrightarrow> par c = i \<longleftrightarrow> c = 2 * i + 1 \<or> c = 2 * i + 2"
  by (auto simp: par_def)

lemma par_child [simp]: "par (Suc (2 * i)) = i" "par (Suc (Suc (2 * i))) = i"
  by (auto simp: par_def)

lemma up_unfold:
  "up lt h j = (if par j = j \<or> \<not> lt (h ! j) (h ! par j) then h
                  else up lt (Swap (par j) j h) (par j))"
  by (subst up.simps) (simp add: par_def Let_def)

lemma up_mset: "j < length h \<Longrightarrow> mset (up lt h j) = mset h"
proof (induction lt h j rule: up.induct)
  case (1 lt h j)
  have "par j < length h" using "1.prems" par_le [of j] by simp
  with 1 show ?case
    by (subst up_unfold) (auto simp: par_def)
qed

text \<open>The child that \<open>down\<close> compares with position \<open>i\<close>: the smaller of the two.\<close>

definition min_child :: "('a \<Rightarrow> 'a \<Rightarrow> bool) \<Rightarrow> 'a list \<Rightarrow> nat \<Rightarrow> nat \<Rightarrow> nat" where
  "min_child lt h i n =
     (if 2 * i + 2 < n \<and> lt (h ! (2 * i + 2)) (h ! (2 * i + 1)) then 2 * i + 2 else 2 * i + 1)"

lemma down_loop_unfold:
  "down_loop lt h i n =
     (if n \<le> 2 * i + 1 \<or> \<not> lt (h ! min_child lt h i n) (h ! i) then (h, i)
      else down_loop lt (Swap i (min_child lt h i n) h) (min_child lt h i n) n)"
  by (subst down_loop.simps) (simp add: Let_def min_child_def)

lemma min_child_less: "\<not> n \<le> 2 * i + 1 \<Longrightarrow> min_child lt h i n < n"
  by (auto simp: min_child_def)

lemma min_child_greater: "i < min_child lt h i n"
  by (auto simp: min_child_def)

lemma par_min_child [simp]: "par (min_child lt h i n) = i"
  by (auto simp: min_child_def)

lemma down_loop_mset:
  "i < length h \<Longrightarrow> n \<le> length h \<Longrightarrow> down_loop lt h i n = (h', i') \<Longrightarrow>
   mset h' = mset h \<and> i \<le> i'"
proof (induction "n - i" arbitrary: i h rule: less_induct)
  case (less i h)
  let ?j = "min_child lt h i n"
  show ?case
  proof (cases "n \<le> 2 * i + 1 \<or> \<not> lt (h ! ?j) (h ! i)")
    case True
    with less.prems show ?thesis by (simp add: down_loop_unfold [of lt h i])
  next
    case False
    have j: "?j < n" "i < ?j" using False min_child_less min_child_greater by auto
    from False less.prems have "down_loop lt (Swap i ?j h) ?j n = (h', i')"
      by (simp add: down_loop_unfold [of lt h i])
    with less.hyps [of ?j "Swap i ?j h"] j less.prems
    have "mset h' = mset (Swap i ?j h) \<and> ?j \<le> i'" by simp
    with j less.prems show ?thesis by auto
  qed
qed

lemma down_mset: "i < length h \<Longrightarrow> n \<le> length h \<Longrightarrow> mset (fst (down lt h i n)) = mset h"
  using down_loop_mset [of i h n lt] by (simp add: down_def split: prod.splits)

lemma length_down [simp]:
  "i < length h \<Longrightarrow> n \<le> length h \<Longrightarrow> length (fst (down lt h i n)) = length h"
  by (metis down_mset size_mset)

lemma length_up [simp]: "j < length h \<Longrightarrow> length (up lt h j) = length h"
  by (metis up_mset size_mset)

text \<open>Neither loop touches a position from \<open>n\<close> on.\<close>

lemma down_loop_frame:
  "n \<le> length h \<Longrightarrow> n \<le> k \<Longrightarrow> k < length h \<Longrightarrow> fst (down_loop lt h i n) ! k = h ! k"
proof (induction "n - i" arbitrary: i h rule: less_induct)
  case (less i h)
  let ?j = "min_child lt h i n"
  show ?case
  proof (cases "n \<le> 2 * i + 1 \<or> \<not> lt (h ! ?j) (h ! i)")
    case True
    then show ?thesis by (simp add: down_loop_unfold [of lt h i])
  next
    case False
    have j: "?j < n" "i < ?j" using False min_child_less min_child_greater by auto
    with less.hyps [of ?j "Swap i ?j h"] less.prems False show ?thesis
      by (simp add: down_loop_unfold [of lt h i] nth_Swap)
  qed
qed

lemma down_frame:
  "n \<le> length h \<Longrightarrow> n \<le> k \<Longrightarrow> k < length h \<Longrightarrow> fst (down lt h i n) ! k = h ! k"
  using down_loop_frame [of n h k lt i] by (cases "down_loop lt h i n") (simp add: down_def)

lemma up_frame: "j < k \<Longrightarrow> k < length h \<Longrightarrow> up lt h j ! k = h ! k"
proof (induction j arbitrary: h rule: less_induct)
  case (less j h)
  show ?case
  proof (cases "par j = j \<or> \<not> lt (h ! j) (h ! par j)")
    case True
    then show ?thesis by (simp add: up_unfold [of lt h j])
  next
    case False
    have ij: "par j < j" using False par_le [of j] by auto
    with less.IH [of "par j" "Swap (par j) j h"] less.prems False show ?thesis
      by (simp add: up_unfold [of lt h j] nth_Swap)
  qed
qed

section \<open>The heap order\<close>

definition ordered_at :: "('a \<Rightarrow> 'a \<Rightarrow> bool) \<Rightarrow> 'a list \<Rightarrow> nat \<Rightarrow> bool" where
  "ordered_at lt h c \<longleftrightarrow> \<not> lt (h ! c) (h ! par c)"

text \<open>The heap order among the positions below \<open>n\<close> whose parents are at least \<open>m\<close>.\<close>

definition partial_heap :: "('a \<Rightarrow> 'a \<Rightarrow> bool) \<Rightarrow> 'a list \<Rightarrow> nat \<Rightarrow> nat \<Rightarrow> bool" where
  "partial_heap lt h m n \<longleftrightarrow> (\<forall>c. 0 < c \<and> c < n \<and> m \<le> par c \<longrightarrow> ordered_at lt h c)"

definition is_heap :: "('a \<Rightarrow> 'a \<Rightarrow> bool) \<Rightarrow> 'a list \<Rightarrow> bool" where
  "is_heap lt h \<longleftrightarrow> partial_heap lt h 0 (length h)"

lemma partial_heap_cong:
  assumes "partial_heap lt h m n" "\<And>c. c < n \<Longrightarrow> h' ! c = h ! c"
  shows "partial_heap lt h' m n"
  unfolding partial_heap_def ordered_at_def
proof (intro allI impI)
  fix c assume c: "0 < c \<and> c < n \<and> m \<le> par c"
  then have "par c < n" using par_less [of c] by auto
  with c assms show "\<not> lt (h' ! c) (h' ! par c)"
    by (auto simp: partial_heap_def ordered_at_def)
qed

lemma partial_heap_butlast:
  "partial_heap lt h 0 (length h - 1) \<Longrightarrow> is_heap lt (butlast h)"
  unfolding is_heap_def
  by (rule partial_heap_cong [of lt h]) (simp_all add: nth_butlast)

lemma partial_heap_mono: "partial_heap lt h m n \<Longrightarrow> n' \<le> n \<Longrightarrow> partial_heap lt h m n'"
  by (auto simp: partial_heap_def)

text \<open>The order may fail at \<open>i\<close>, against its parent and its children.\<close>

definition hole :: "('a \<Rightarrow> 'a \<Rightarrow> bool) \<Rightarrow> 'a list \<Rightarrow> nat \<Rightarrow> nat \<Rightarrow> nat \<Rightarrow> bool" where
  "hole lt h m n i \<longleftrightarrow> (\<forall>c. 0 < c \<and> c < n \<and> m \<le> par c \<longrightarrow>
     (c \<noteq> i \<and> par c \<noteq> i \<longrightarrow> ordered_at lt h c) \<and>
     (par c = i \<and> 0 < i \<and> m \<le> par i \<longrightarrow> \<not> lt (h ! c) (h ! par i)))"

text \<open>The order may fail between \<open>i\<close> and its parent only.\<close>

definition hole_up :: "('a \<Rightarrow> 'a \<Rightarrow> bool) \<Rightarrow> 'a list \<Rightarrow> nat \<Rightarrow> nat \<Rightarrow> bool" where
  "hole_up lt h n i \<longleftrightarrow> (\<forall>c. 0 < c \<and> c < n \<longrightarrow>
     (c \<noteq> i \<longrightarrow> ordered_at lt h c) \<and>
     (par c = i \<and> 0 < i \<longrightarrow> \<not> lt (h ! c) (h ! par i)))"

text \<open>The remark in the source that \<open>Pop\<close> is \<open>Remove\<close> at index \<open>0\<close>.\<close>

lemma heap_Pop_Remove: "h \<noteq> [] \<Longrightarrow> heap_Pop lt h = heap_Remove lt h 0"
proof -
  have up0: "up lt g 0 = g" for g by (simp add: up_unfold par_def)
  have down0: "down lt g 0 0 = (g, False)" for g
    by (simp add: down_def down_loop_unfold [of lt g 0 0])
  assume "h \<noteq> []"
  then show ?thesis
    by (auto simp: heap_Pop_def heap_Remove_def Let_def up0 down0 split: prod.splits)
qed

locale heap_order =
  fixes lt :: "'a \<Rightarrow> 'a \<Rightarrow> bool"
  assumes less_asym: "lt a b \<Longrightarrow> \<not> lt b a"
    and nless_trans: "\<not> lt b a \<Longrightarrow> \<not> lt c b \<Longrightarrow> \<not> lt c a"
begin

lemma up_heap:
  assumes "hole_up lt h n j" "j < n" "n \<le> length h"
  shows "partial_heap lt (up lt h j) 0 n"
  using assms
proof (induction j arbitrary: h rule: less_induct)
  case (less j h)
  show ?case
  proof (cases "par j = j \<or> \<not> lt (h ! j) (h ! par j)")
    case True
    then have "j = 0 \<or> ordered_at lt h j"
      by (auto simp: ordered_at_def par_def)
    with less.prems(1) have "partial_heap lt h 0 n"
      by (auto simp: partial_heap_def hole_up_def)
    with True show ?thesis by (simp add: up_unfold [of lt h j])
  next
    case False
    let ?i = "par j" and ?s = "Swap (par j) j h"
    have ij: "?i < j" "0 < j" using False par_le [of j] by (auto simp: par_def)
    have len: "?i < length h" "j < length h" using ij less.prems by auto
    have "hole_up lt ?s n ?i"
      unfolding hole_up_def
    proof (intro allI impI conjI)
      fix c assume c: "0 < c \<and> c < n"
      then have cl: "c < length h" "par c < length h" "par c < c"
        using less.prems par_less [of c] by auto
      show "ordered_at lt ?s c" if "c \<noteq> ?i"
      proof (cases "c = j")
        case True
        with False ij len show ?thesis
          by (auto simp: ordered_at_def nth_Swap dest: less_asym)
      next
        case False
        note cj = this
        have ok: "\<not> lt (h ! c) (h ! par c)"
          using c cj less.prems(1) by (auto simp: hole_up_def ordered_at_def)
        have gp: "par c = j \<Longrightarrow> \<not> lt (h ! c) (h ! ?i)"
          using c ij less.prems(1) by (auto simp: hole_up_def)
        have sib: "par c = ?i \<Longrightarrow> \<not> lt (h ! c) (h ! j)"
          using ok \<open>\<not> (par j = j \<or> \<not> lt (h ! j) (h ! par j))\<close>
          by (metis less_asym nless_trans)
        from that cj ok gp sib cl len ij show ?thesis
          by (auto simp: ordered_at_def nth_Swap)
      qed
      show "\<not> lt (?s ! c) (?s ! par ?i)" if "par c = ?i \<and> 0 < ?i"
      proof -
        have gi: "par ?i < ?i" using that par_less by auto
        have up1: "\<not> lt (h ! ?i) (h ! par ?i)"
          using that ij less.prems by (auto simp: hole_up_def ordered_at_def)
        have "\<not> lt (h ! c) (h ! ?i)" if "c \<noteq> j"
          using c that \<open>par c = ?i \<and> 0 < ?i\<close> less.prems(1)
          by (auto simp: hole_up_def ordered_at_def)
        with up1 have "\<not> lt (h ! c) (h ! par ?i)" if "c \<noteq> j"
          using that nless_trans by blast
        with up1 gi that cl len ij show ?thesis
          by (auto simp: nth_Swap)
      qed
    qed
    with less.IH [of ?i ?s] ij less.prems have "partial_heap lt (up lt ?s ?i) 0 n"
      by simp
    with False show ?thesis by (simp add: up_unfold [of lt h j])
  qed
qed

lemma min_child_min:
  assumes "c < n" "0 < c" "par c = i"
  shows "\<not> lt (h ! c) (h ! min_child lt h i n)"
proof -
  have "c = 2 * i + 1 \<or> c = 2 * i + 2" using assms par_eq_iff by auto
  then show ?thesis using assms(1) less_asym [of "h ! (2 * i + 2)" "h ! (2 * i + 1)"]
      less_asym [of "h ! c" "h ! c"]
    by (auto simp: min_child_def)
qed

text \<open>One iteration of \<open>down\<close> moves the hole to the child and leaves position \<open>i\<close> in order.\<close>

lemma hole_step:
  assumes hole: "hole lt h m n i" and n: "n \<le> length h" and mi: "m \<le> i"
    and more: "\<not> n \<le> 2 * i + 1" and lt: "lt (h ! min_child lt h i n) (h ! i)"
  defines "j \<equiv> min_child lt h i n"
  shows "hole lt (Swap i j h) m n j \<and> ordered_at lt (Swap i j h) j \<and>
         (0 < i \<and> m \<le> par i \<longrightarrow> ordered_at lt (Swap i j h) i)"
proof -
  have j: "j < n" "i < j" "par j = i" "0 < j"
    using more min_child_less [of n i lt h] min_child_greater [of i lt h n]
    by (auto simp: j_def)
  then have len: "i < length h" "j < length h" using n by auto
  have oj: "ordered_at lt (Swap i j h) j"
    using lt j len less_asym by (auto simp: ordered_at_def nth_Swap j_def)
  have oi: "ordered_at lt (Swap i j h) i" if "0 < i \<and> m \<le> par i"
  proof -
    have "par i < i" using that par_less by auto
    moreover have "\<not> lt (h ! j) (h ! par i)"
      using that hole j mi by (auto simp: hole_def)
    ultimately show ?thesis using j len by (auto simp: ordered_at_def nth_Swap)
  qed
  have "hole lt (Swap i j h) m n j"
    unfolding hole_def
  proof (intro allI impI conjI)
    fix c assume c: "0 < c \<and> c < n \<and> m \<le> par c"
    then have cl: "c < length h" "par c < length h" "par c < c"
      using n par_less [of c] by auto
    show "ordered_at lt (Swap i j h) c" if cj: "c \<noteq> j \<and> par c \<noteq> j"
    proof (cases "c = i")
      case True
      with oi c show ?thesis by auto
    next
      case ci: False
      show ?thesis
      proof (cases "par c = i")
        case True
        have "\<not> lt (h ! c) (h ! j)" using c True min_child_min by (auto simp: j_def)
        with ci cj True cl len show ?thesis by (auto simp: ordered_at_def nth_Swap)
      next
        case False
        with c ci hole have "ordered_at lt h c" by (auto simp: hole_def)
        with ci cj False cl len show ?thesis by (auto simp: ordered_at_def nth_Swap)
      qed
    qed
    show "\<not> lt (Swap i j h ! c) (Swap i j h ! par j)" if "par c = j \<and> 0 < j \<and> m \<le> par j"
    proof -
      have "c \<noteq> i" "c \<noteq> j" using that cl j by auto
      moreover have "ordered_at lt h c"
        using c that hole j \<open>c \<noteq> i\<close> by (auto simp: hole_def)
      ultimately show ?thesis using that cl len j
        by (auto simp: ordered_at_def nth_Swap)
    qed
  qed
  with oj oi show ?thesis by blast
qed

lemma hole_closed:
  assumes "hole lt h m n i" "0 < i \<and> m \<le> par i \<longrightarrow> ordered_at lt h i"
    and stop: "n \<le> 2 * i + 1 \<or> \<not> lt (h ! min_child lt h i n) (h ! i)"
  shows "partial_heap lt h m n"
  unfolding partial_heap_def
proof (intro allI impI)
  fix c assume c: "0 < c \<and> c < n \<and> m \<le> par c"
  show "ordered_at lt h c"
  proof (cases "par c = i")
    case True
    then have "\<not> n \<le> 2 * i + 1" using c par_eq_iff by auto
    with stop have "\<not> lt (h ! min_child lt h i n) (h ! i)" by simp
    moreover have "\<not> lt (h ! c) (h ! min_child lt h i n)"
      using c True min_child_min by auto
    ultimately show ?thesis using True nless_trans by (auto simp: ordered_at_def)
  next
    case False
    with c assms(1,2) show ?thesis by (cases "c = i") (auto simp: hole_def)
  qed
qed

lemma down_loop_heap:
  "hole lt h m n i \<Longrightarrow> (0 < i \<and> m \<le> par i \<longrightarrow> ordered_at lt h i) \<Longrightarrow>
   n \<le> length h \<Longrightarrow> m \<le> i \<Longrightarrow> partial_heap lt (fst (down_loop lt h i n)) m n"
proof (induction "n - i" arbitrary: i h rule: less_induct)
  case (less i h)
  let ?j = "min_child lt h i n"
  show ?case
  proof (cases "n \<le> 2 * i + 1 \<or> \<not> lt (h ! ?j) (h ! i)")
    case True
    with less.prems hole_closed show ?thesis by (simp add: down_loop_unfold [of lt h i])
  next
    case False
    have j: "?j < n" "i < ?j" using False min_child_less min_child_greater by auto
    have "hole lt (Swap i ?j h) m n ?j \<and> ordered_at lt (Swap i ?j h) ?j"
      using hole_step [of h m n i] False less.prems by auto
    with less.hyps [of ?j "Swap i ?j h"] j less.prems
    have "partial_heap lt (fst (down_loop lt (Swap i ?j h) ?j n)) m n" by simp
    with False show ?thesis by (simp add: down_loop_unfold [of lt h i])
  qed
qed

lemma down_hole:
  assumes "hole lt h m n i" "n \<le> length h" "m \<le> i" "i < length h"
    and d: "down lt h i n = (h', moved)"
  shows "if moved then partial_heap lt h' m n
         else h' = h \<and> (\<forall>c. 0 < c \<and> c < n \<and> par c = i \<longrightarrow> ordered_at lt h c)"
proof (cases "n \<le> 2 * i + 1 \<or> \<not> lt (h ! min_child lt h i n) (h ! i)")
  case True
  then have "h' = h" "\<not> moved"
    using d by (auto simp: down_def down_loop_unfold [of lt h i n])
  moreover have "ordered_at lt h c" if c: "0 < c" "c < n" "par c = i" for c
  proof -
    have "\<not> n \<le> 2 * i + 1" using c par_eq_iff by auto
    with True have "\<not> lt (h ! min_child lt h i n) (h ! i)" by simp
    with min_child_min [OF c(2,1,3)] c show ?thesis
      using nless_trans by (auto simp: ordered_at_def)
  qed
  ultimately show ?thesis by simp
next
  case False
  let ?j = "min_child lt h i n" and ?s = "Swap i (min_child lt h i n) h"
  have j: "?j < n" "i < ?j" using False min_child_less min_child_greater by auto
  have s: "hole lt ?s m n ?j \<and> ordered_at lt ?s ?j"
    using hole_step [of h m n i] False assms by auto
  obtain k where k: "down_loop lt ?s ?j n = (h', k)" "moved \<longleftrightarrow> i < k"
    using d False by (auto simp: down_def down_loop_unfold [of lt h i n] split: prod.splits)
  have "?j \<le> k" using down_loop_mset [of ?j ?s n lt h' k] k j assms by simp
  with j k have "moved" by simp
  moreover have "partial_heap lt h' m n"
    using down_loop_heap [of ?s m n ?j] s k j assms by simp
  ultimately show ?thesis by simp
qed

subsection \<open>The operations keep the heap order\<close>

lemma heap_root_min:
  assumes "is_heap lt h" "k < length h"
  shows "\<not> lt (h ! k) (h ! 0)"
  using assms(2)
proof (induction k rule: less_induct)
  case (less k)
  show ?case
  proof (cases "k = 0")
    case True
    then show ?thesis using less_asym by blast
  next
    case False
    then have pk: "par k < k" using par_less by auto
    with less have "\<not> lt (h ! par k) (h ! 0)" by simp
    moreover have "\<not> lt (h ! k) (h ! par k)"
      using False assms(1) less.prems by (auto simp: is_heap_def partial_heap_def ordered_at_def)
    ultimately show ?thesis using nless_trans by blast
  qed
qed

lemma heap_Push_heap:
  assumes "is_heap lt h"
  shows "is_heap lt (heap_Push lt h x) \<and> mset (heap_Push lt h x) = add_mset x (mset h)"
proof -
  let ?h = "h @ [x]"
  have "hole_up lt ?h (length ?h) (length h)"
    unfolding hole_up_def
  proof (intro allI impI conjI)
    fix c assume c: "0 < c \<and> c < length ?h"
    then have p: "par c < c" using par_less by auto
    show "ordered_at lt ?h c" if "c \<noteq> length h"
      using that c p assms
      by (auto simp: ordered_at_def nth_append is_heap_def partial_heap_def)
    show "\<not> lt (?h ! c) (?h ! par (length h))" if "par c = length h \<and> 0 < length h"
      using that c p by simp
  qed
  then have "partial_heap lt (up lt ?h (length h)) 0 (length ?h)"
    by (rule up_heap) auto
  moreover have "mset (up lt ?h (length h)) = add_mset x (mset h)"
    using up_mset [of "length h" ?h lt] by simp
  ultimately show ?thesis by (simp add: heap_Push_def is_heap_def)
qed

text \<open>Overwriting one position of a heap leaves a hole there.\<close>

lemma heap_hole:
  assumes "partial_heap lt h 0 n" "n \<le> length h" "\<And>c. c < n \<Longrightarrow> c \<noteq> i \<Longrightarrow> h' ! c = h ! c"
  shows "hole lt h' 0 n i"
  unfolding hole_def
proof (intro allI impI conjI)
  fix c assume c: "0 < c \<and> c < n \<and> 0 \<le> par c"
  then have p: "par c < c" using par_less by auto
  have ok: "\<not> lt (h ! c) (h ! par c)"
    using c assms(1) by (auto simp: partial_heap_def ordered_at_def)
  show "ordered_at lt h' c" if "c \<noteq> i \<and> par c \<noteq> i"
    using that ok c p assms(3) by (simp add: ordered_at_def)
  show "\<not> lt (h' ! c) (h' ! par i)" if i: "par c = i \<and> 0 < i \<and> 0 \<le> par i"
  proof -
    have pi: "par i < i" "i < n" using i p c par_less [of i] by auto
    have "\<not> lt (h ! i) (h ! par i)"
      using i pi assms(1) by (auto simp: partial_heap_def ordered_at_def)
    with ok i have "\<not> lt (h ! c) (h ! par i)" using nless_trans by blast
    with i p pi c assms(3) show ?thesis by simp
  qed
qed

lemma fix_at_heap:
  assumes "hole lt h 0 n i" "i < n" "n \<le> length h" and d: "down lt h i n = (h1, moved)"
  shows "partial_heap lt (if \<not> moved then up lt h1 i else h1) 0 n"
proof (cases moved)
  case True
  with down_hole [OF assms(1) assms(3) _ _ d] assms(2,3) show ?thesis by simp
next
  case False
  with down_hole [OF assms(1) assms(3) _ _ d] assms(2,3)
  have h1: "h1 = h" and ch: "\<forall>c. 0 < c \<and> c < n \<and> par c = i \<longrightarrow> ordered_at lt h c" by auto
  have "hole_up lt h n i"
    using assms(1) ch by (auto simp: hole_up_def hole_def)
  with False h1 assms show ?thesis by (simp add: up_heap)
qed

lemma heap_Fix_heap:
  assumes "is_heap lt h" "i < length h"
  shows "is_heap lt (heap_Fix lt (h[i := x]) i) \<and> mset (heap_Fix lt (h[i := x]) i) = mset (h[i := x])"
proof -
  let ?h = "h[i := x]"
  obtain h1 moved where d: "down lt ?h i (length h) = (h1, moved)" by (cases "down lt ?h i (length h)")
  have m1: "mset h1 = mset ?h" using down_mset [of i ?h "length h" lt] d assms(2) by simp
  then have l1: "length h1 = length h" by (metis length_list_update size_mset)
  have "hole lt ?h 0 (length h) i"
    using assms(1) by (intro heap_hole [of h]) (auto simp: is_heap_def)
  from fix_at_heap [OF this assms(2) _ d]
  have "partial_heap lt (if \<not> moved then up lt h1 i else h1) 0 (length h)" by simp
  with d l1 m1 assms(2) show ?thesis
    by (auto simp: heap_Fix_def is_heap_def up_mset)
qed

lemma heap_Remove_heap:
  assumes "is_heap lt h" "i < length h"
  shows "\<exists>h'. heap_Remove lt h i = Some (h ! i, h') \<and> is_heap lt h' \<and>
              mset h = add_mset (h ! i) (mset h')"
proof -
  let ?n = "length h - 1"
  define r where "r = (if ?n \<noteq> i then (case down lt (Swap i ?n h) i ?n of
              (h1, moved) \<Rightarrow> if \<not> moved then up lt h1 i else h1) else h)"
  have R: "heap_Remove lt h i = Some (last r, butlast r)"
    using assms(2) by (simp add: heap_Remove_def Let_def r_def)
  have n: "?n < length h" using assms(2) by simp
  have key: "partial_heap lt r 0 ?n \<and> mset r = mset h \<and> r ! ?n = h ! i"
  proof (cases "?n = i")
    case True
    with assms show ?thesis by (auto simp: r_def is_heap_def intro: partial_heap_mono)
  next
    case False
    then have i: "i < ?n" using assms(2) by simp
    let ?s = "Swap i ?n h"
    obtain h1 moved where d: "down lt ?s i ?n = (h1, moved)" by (cases "down lt ?s i ?n")
    have m1: "mset h1 = mset h" using down_mset [of i ?s ?n lt] d n i by simp
    then have l1: "length h1 = length h" by (metis size_mset)
    have f1: "h1 ! ?n = h ! i"
      using down_frame [of ?n ?s ?n lt i] d n i by (simp add: nth_Swap)
    have "partial_heap lt h 0 ?n"
      using assms(1) by (auto simp: is_heap_def intro: partial_heap_mono)
    then have "hole lt ?s 0 ?n i"
      by (rule heap_hole) (use n i in \<open>auto simp: nth_Swap\<close>)
    from fix_at_heap [OF this i _ d] n
    have "partial_heap lt (if \<not> moved then up lt h1 i else h1) 0 ?n" by simp
    with False d m1 f1 l1 i n show ?thesis
      by (auto simp: r_def up_mset up_frame)
  qed
  then have l: "length r = length h" by (metis size_mset)
  with n have ne: "r \<noteq> []" by auto
  then have last: "last r = h ! i" using key l by (simp add: last_conv_nth)
  have "mset h = add_mset (last r) (mset (butlast r))"
    using key mset_butlast_last [OF ne] by simp
  moreover have "is_heap lt (butlast r)" using key l by (intro partial_heap_butlast) simp
  ultimately show ?thesis using R last by auto
qed

lemma heap_Pop_heap:
  assumes "is_heap lt h" "h \<noteq> []"
  shows "\<exists>h'. heap_Pop lt h = Some (h ! 0, h') \<and> is_heap lt h' \<and>
              mset h = add_mset (h ! 0) (mset h')"
  using heap_Remove_heap [OF assms(1), of 0] assms(2) by (simp add: heap_Pop_Remove)

lemma init_loop_heap:
  "partial_heap lt h k n \<Longrightarrow> n \<le> length h \<Longrightarrow> k \<le> n \<Longrightarrow>
   partial_heap lt (init_loop lt h k n) 0 n \<and> mset (init_loop lt h k n) = mset h"
proof (induction k arbitrary: h)
  case 0
  then show ?case by simp
next
  case (Suc k)
  let ?d = "fst (down lt h k n)"
  have k: "k < length h" "k < n" using Suc.prems by auto
  have "hole lt h k n k"
    unfolding hole_def
  proof (intro allI impI conjI)
    fix c assume c: "0 < c \<and> c < n \<and> k \<le> par c"
    show "ordered_at lt h c" if "c \<noteq> k \<and> par c \<noteq> k"
      using that c Suc.prems(1) by (auto simp: partial_heap_def)
    show "\<not> lt (h ! c) (h ! par k)" if "par c = k \<and> 0 < k \<and> k \<le> par k"
      using that par_less [of k] by auto
  qed
  moreover have "0 < k \<and> k \<le> par k \<longrightarrow> ordered_at lt h k" using par_less [of k] by auto
  ultimately have "partial_heap lt (fst (down_loop lt h k n)) k n"
    using down_loop_heap Suc.prems(2) by blast
  then have "partial_heap lt ?d k n" by (cases "down_loop lt h k n") (simp add: down_def)
  with Suc.IH [of ?d] Suc.prems k show ?case by (simp add: down_mset)
qed

lemma heap_Init_heap: "is_heap lt (heap_Init lt h) \<and> mset (heap_Init lt h) = mset h"
proof -
  have "partial_heap lt h (length h div 2) (length h)"
    by (auto simp: partial_heap_def par_def)
  from init_loop_heap [OF this]
  have "partial_heap lt (heap_Init lt h) 0 (length h) \<and> mset (heap_Init lt h) = mset h"
    by (simp add: heap_Init_def Let_def)
  then show ?thesis by (metis is_heap_def size_mset)
qed

end

end
