(* ===== verification/Timeout_Heap.thy ===== *)
theory Timeout_Heap
  imports Heap_Ops
begin

text \<open>
  The timeouts of \<open>pkg/tinykv\<close> and their heap: the type \<open>timeout\<close> with \<open>newTimeout\<close> and
  \<open>expired\<close>, the slice type \<open>th\<close> (\<open>tinykv.go\<close>) and the specialised heap of
  \<open>timeout_heap.go\<close>. The specialised routines are the generic ones of \<open>heap.go\<close> at the
  order of \<open>th\<close>, and the heap implements the interface \<open>min_queue\<close> that the key-value
  store relies on.

  A \<open>*timeout\<close> is never written after \<open>newTimeout\<close> made it, so the pointer is modelled by
  the value it points to; a nil pointer is \<open>None\<close>. Every function that reads the clock takes
  the time it reads.
\<close>

section \<open>Timeouts\<close>

record timeout =
  expiresAt :: time
  expiresAfter :: duration
  to_key :: string

definition newTimeout :: "time \<Rightarrow> string \<Rightarrow> duration \<Rightarrow> timeout" where
  "newTimeout now key d = \<lparr>expiresAt = now + d, expiresAfter = d, to_key = key\<rparr>"

definition expired :: "time \<Rightarrow> timeout option \<Rightarrow> bool" where
  "expired now t = (case t of None \<Rightarrow> False | Some t' \<Rightarrow> now > expiresAt t')"

lemma expired_mono: "expired now t \<Longrightarrow> now \<le> now' \<Longrightarrow> expired now' t"
  by (auto simp: expired_def split: option.splits)

section \<open>The slice of timeouts\<close>

definition th_Less :: "timeout \<Rightarrow> timeout \<Rightarrow> bool" where
  "th_Less a b \<longleftrightarrow> expiresAt a < expiresAt b"

definition th_Push :: "timeout list \<Rightarrow> timeout \<Rightarrow> timeout list" where
  "th_Push h x = h @ [x]"

definition th_Pop :: "timeout list \<Rightarrow> (timeout \<times> timeout list) option" where
  "th_Pop h = (if h = [] then None else Some (h ! (length h - 1), take (length h - 1) h))"

section \<open>The specialised heap\<close>

function timeheapup :: "timeout list \<Rightarrow> nat \<Rightarrow> timeout list" where
  "timeheapup h j =
     (let i = (j - 1) div 2 in
      if i = j \<or> \<not> th_Less (h ! j) (h ! i) then h else timeheapup (Swap i j h) i)"
  by pat_completeness auto
termination
  by (relation "measure (\<lambda>(h, j). j)") auto

function timeheapdown_loop :: "timeout list \<Rightarrow> nat \<Rightarrow> nat \<Rightarrow> timeout list \<times> nat" where
  "timeheapdown_loop h i n =
     (let j1 = 2 * i + 1 in
      if j1 \<ge> n then (h, i)
      else let j2 = j1 + 1;
               j = (if j2 < n \<and> th_Less (h ! j2) (h ! j1) then j2 else j1)
           in if \<not> th_Less (h ! j) (h ! i) then (h, i)
              else timeheapdown_loop (Swap i j h) j n)"
  by pat_completeness auto
termination
  by (relation "measure (\<lambda>(h, i, n). n - i)") (auto simp: Let_def)

definition timeheapdown :: "timeout list \<Rightarrow> nat \<Rightarrow> nat \<Rightarrow> timeout list \<times> bool" where
  "timeheapdown h i0 n = (case timeheapdown_loop h i0 n of (h', i) \<Rightarrow> (h', i0 < i))"

definition timeheapPush :: "timeout list \<Rightarrow> timeout \<Rightarrow> timeout list" where
  "timeheapPush h x = (let h1 = th_Push h x in timeheapup h1 (length h1 - 1))"

definition timeheapPop :: "timeout list \<Rightarrow> (timeout \<times> timeout list) option" where
  "timeheapPop h =
     (if h = [] then None
      else let n = length h - 1; h1 = Swap 0 n h in th_Pop (fst (timeheapdown h1 0 n)))"

declare timeheapup.simps [simp del] timeheapdown_loop.simps [simp del]

section \<open>The specialised heap is the generic one\<close>

lemma timeheapup_eq: "timeheapup h j = up th_Less h j"
proof (induction h j rule: timeheapup.induct)
  case (1 h j)
  then show ?case
    by (subst timeheapup.simps, subst up.simps) (simp add: Let_def)
qed

lemma timeheapdown_loop_eq: "timeheapdown_loop h i n = down_loop th_Less h i n"
proof (induction h i n rule: timeheapdown_loop.induct)
  case (1 h i n)
  then show ?case
    by (subst timeheapdown_loop.simps, subst down_loop.simps) (simp add: Let_def)
qed

lemma timeheapdown_eq: "timeheapdown h i n = down th_Less h i n"
  by (simp add: timeheapdown_def down_def timeheapdown_loop_eq)

lemma timeheapPush_eq: "timeheapPush h x = heap_Push th_Less h x"
  by (simp add: timeheapPush_def heap_Push_def th_Push_def timeheapup_eq)

lemma timeheapPop_eq: "timeheapPop h = heap_Pop th_Less h"
proof (cases "h = []")
  case True
  then show ?thesis by (simp add: timeheapPop_def heap_Pop_def)
next
  case False
  let ?d = "fst (down th_Less (Swap 0 (length h - 1) h) 0 (length h - 1))"
  have len: "length ?d = length h" using False by simp
  with False have ne: "?d \<noteq> []" by (metis length_0_conv)
  have "th_Pop ?d = Some (last ?d, butlast ?d)"
    using ne by (simp add: th_Pop_def last_conv_nth butlast_conv_take)
  with False show ?thesis by (simp add: timeheapPop_def heap_Pop_def timeheapdown_eq Let_def)
qed

interpretation th: heap_order th_Less
  by unfold_locales (auto simp: th_Less_def)

section \<open>The interface the store relies on\<close>

text \<open>
  A queue of elements with a deadline: its content is a multiset, \<open>push\<close> adds one element
  and \<open>pop\<close> takes the front one out, whose deadline no element undercuts.
\<close>

locale min_queue =
  fixes push :: "'q \<Rightarrow> 'a \<Rightarrow> 'q"
    and pop :: "'q \<Rightarrow> ('a \<times> 'q) option"
    and front :: "'q \<Rightarrow> 'a"
    and content :: "'q \<Rightarrow> 'a multiset"
    and deadline :: "'a \<Rightarrow> int"
    and invar :: "'q \<Rightarrow> bool"
  assumes invar_push: "invar q \<Longrightarrow> invar (push q x)"
    and content_push: "invar q \<Longrightarrow> content (push q x) = add_mset x (content q)"
    and pop_Some: "invar q \<Longrightarrow> content q \<noteq> {#} \<Longrightarrow>
      \<exists>q'. pop q = Some (front q, q') \<and> invar q' \<and> content q = add_mset (front q) (content q')"
    and front_min: "invar q \<Longrightarrow> x \<in># content q \<Longrightarrow> deadline (front q) \<le> deadline x"
begin

lemma pop_invar: "invar q \<Longrightarrow> content q \<noteq> {#} \<Longrightarrow> pop q = Some (x, q') \<Longrightarrow> invar q'"
  using pop_Some by fastforce

lemma pop_content:
  "invar q \<Longrightarrow> content q \<noteq> {#} \<Longrightarrow> pop q = Some (x, q') \<Longrightarrow>
   x = front q \<and> content q = add_mset x (content q')"
  using pop_Some by fastforce

lemma front_late: "invar q \<Longrightarrow> now \<le> deadline (front q) \<Longrightarrow> x \<in># content q \<Longrightarrow> now \<le> deadline x"
  using front_min order_trans by blast

end

abbreviation th_heap :: "timeout list \<Rightarrow> bool" where
  "th_heap \<equiv> is_heap th_Less"

interpretation thq: min_queue timeheapPush timeheapPop "\<lambda>h. h ! 0" mset expiresAt th_heap
proof
  fix h :: "timeout list" and x
  assume h: "th_heap h"
  show "th_heap (timeheapPush h x)" "mset (timeheapPush h x) = add_mset x (mset h)"
    using th.heap_Push_heap [OF h] by (simp_all add: timeheapPush_eq)
  show "\<exists>h'. timeheapPop h = Some (h ! 0, h') \<and> th_heap h' \<and> mset h = add_mset (h ! 0) (mset h')"
    if "mset h \<noteq> {#}"
    using th.heap_Pop_heap [OF h] that by (simp add: timeheapPop_eq)
  show "expiresAt (h ! 0) \<le> expiresAt x" if "x \<in># mset h"
    using that th.heap_root_min [OF h] by (auto simp: in_set_conv_nth th_Less_def not_less)
qed

text \<open>
  C16: the timeout heap of \<open>timeout_heap.go\<close> is a priority queue. Pushing a timeout keeps the
  heap order and adds exactly that timeout; popping a non-empty heap succeeds, returns the
  element at index 0, which expires no later than any that remains, keeps the order and
  removes exactly that element.
\<close>

theorem timeheap_priority_queue:
  assumes "th_heap h"
  shows "th_heap (timeheapPush h x) \<and> mset (timeheapPush h x) = add_mset x (mset h) \<and>
    (h \<noteq> [] \<longrightarrow> (\<exists>h'. timeheapPop h = Some (h ! 0, h') \<and> th_heap h' \<and>
       mset h = add_mset (h ! 0) (mset h') \<and> (\<forall>t \<in> set h'. expiresAt (h ! 0) \<le> expiresAt t)))"
proof -
  have "\<exists>h'. timeheapPop h = Some (h ! 0, h') \<and> th_heap h' \<and>
       mset h = add_mset (h ! 0) (mset h') \<and> (\<forall>t \<in> set h'. expiresAt (h ! 0) \<le> expiresAt t)"
    if ne: "h \<noteq> []"
  proof -
    obtain h' where h': "timeheapPop h = Some (h ! 0, h')" "th_heap h'"
      "mset h = add_mset (h ! 0) (mset h')"
      using thq.pop_Some [OF assms] ne by auto
    have "\<forall>t \<in> set h'. expiresAt (h ! 0) \<le> expiresAt t"
      using thq.front_min [OF assms] h'(3) by simp
    with h' show ?thesis by blast
  qed
  with thq.invar_push [OF assms] thq.content_push [OF assms] show ?thesis by blast
qed

theorem timeheap_priority_queue_witness:
  "th_heap [newTimeout 0 ''a'' 5, newTimeout 0 ''b'' 9] \<and>
   mset (timeheapPush [newTimeout 0 ''a'' 5, newTimeout 0 ''b'' 9] (newTimeout 0 ''c'' 3)) =
     {#newTimeout 0 ''a'' 5, newTimeout 0 ''b'' 9, newTimeout 0 ''c'' 3#}"
proof -
  have h: "th_heap [newTimeout 0 ''a'' 5, newTimeout 0 ''b'' 9]"
    by (auto simp: is_heap_def partial_heap_def ordered_at_def th_Less_def newTimeout_def par_def
        less_Suc_eq)
  show ?thesis
    using h timeheap_priority_queue [OF h, of "newTimeout 0 ''c'' 3"] by (simp add: add_mset_commute)
qed

text \<open>
  The remaining routines of \<open>heap.go\<close>, for every strict weak order: \<open>Init\<close> turns any
  slice into a heap with the same elements, \<open>Fix\<close> restores the heap order after the element
  at an index was overwritten, and \<open>Remove\<close> takes exactly the element at the index out of a
  heap and leaves a heap.
\<close>

theorem heap_go_routines:
  assumes asym: "\<And>a b. lt a b \<Longrightarrow> \<not> lt b a"
    and trans: "\<And>a b c. \<not> lt b a \<Longrightarrow> \<not> lt c b \<Longrightarrow> \<not> lt c a"
    and heap: "is_heap lt h" and i: "i < length h"
  shows "is_heap lt (heap_Init lt xs) \<and> mset (heap_Init lt xs) = mset xs \<and>
    is_heap lt (heap_Fix lt (h[i := x]) i) \<and> mset (heap_Fix lt (h[i := x]) i) = mset (h[i := x]) \<and>
    (\<exists>h'. heap_Remove lt h i = Some (h ! i, h') \<and> is_heap lt h' \<and>
          mset h = add_mset (h ! i) (mset h'))"
proof -
  have ho: "heap_order lt" by (rule heap_order.intro) (use asym trans in blast)+
  show ?thesis
    using heap_order.heap_Init_heap [OF ho, of xs] heap_order.heap_Fix_heap [OF ho heap i, of x]
      heap_order.heap_Remove_heap [OF ho heap i] by blast
qed

theorem heap_go_routines_witness:
  "is_heap (<) (heap_Init (<) [3, 1, 2 :: nat]) \<and>
   (\<exists>h'. heap_Remove (<) [1, 3, 2 :: nat] 0 = Some (1, h') \<and> is_heap (<) h')"
proof -
  have h: "is_heap (<) [1, 3, 2 :: nat]"
    by (auto simp: is_heap_def partial_heap_def ordered_at_def par_def less_Suc_eq)
  show ?thesis
    using heap_go_routines [of "(<)" "[1, 3, 2 :: nat]" 0 "[3, 1, 2]" 5, OF _ _ h] by auto
qed

end
