(* ===== verification/TinyKV.thy ===== *)
theory TinyKV
  imports Timeout_Heap
begin

text \<open>
  The expiring key-value store of \<open>pkg/tinykv/tinykv.go\<close>.

  The state keeps the map of entries, the heap of timeouts, the expiration interval, whether
  the sweep was stopped, whether a callback is installed, and the notifications handed to
  the goroutines that \<open>Get\<close> and \<open>expireFunc\<close> spawn, in the order of spawning. One operation
  holds the lock and reads the clock at one time \<open>now\<close>.
\<close>

section \<open>State\<close>

record 'v kv_entry =
  e_timeout :: "timeout option"
  e_value :: 'v

record 'v kvstore =
  kv_kv :: "(string, 'v kv_entry) gomap"
  kv_heap :: "timeout list"
  expirationInterval :: duration
  kv_stop :: bool
  has_onExpire :: bool
  spawned :: "(string \<times> 'v) list"

definition tinykv_New :: "duration \<Rightarrow> bool \<Rightarrow> 'v kvstore" where
  "tinykv_New interval cb =
     (let interval' = (if interval \<le> 0 then Second * 20 else interval)
      in \<lparr>kv_kv = [], kv_heap = [], expirationInterval = interval', kv_stop = False,
          has_onExpire = cb, spawned = []\<rparr>)"

definition SetOnExpire :: "bool \<Rightarrow> 'v kvstore \<Rightarrow> 'v kvstore" where
  "SetOnExpire cb s = s\<lparr>has_onExpire := cb\<rparr>"

definition tinykv_Stop :: "'v kvstore \<Rightarrow> 'v kvstore" where
  "tinykv_Stop s = s\<lparr>kv_stop := True\<rparr>"

section \<open>Notifications\<close>

text \<open>
  A callback runs on a state of its own and may panic; \<open>try\<close> turns the panic into an error
  that \<open>notifyExpirations\<close> drops.
\<close>

datatype panic = PanicError string | PanicValue string

definition try_run :: "('s \<Rightarrow> 's \<times> panic option) \<Rightarrow> 's \<Rightarrow> 's \<times> string option" where
  "try_run f s =
     (case f s of
        (s', None) \<Rightarrow> (s', None)
      | (s', Some (PanicError e)) \<Rightarrow> (s', Some e)
      | (s', Some (PanicValue v)) \<Rightarrow> (s', Some (''RECOVERED, UNKNOWN ERROR: '' @ v)))"

fun notifyExpirations ::
  "(string \<times> 'v) list \<Rightarrow> (string \<Rightarrow> 'v \<Rightarrow> 's \<Rightarrow> 's \<times> panic option) option \<Rightarrow> 's \<Rightarrow> 's" where
  "notifyExpirations exp None s = s"
| "notifyExpirations [] (Some f) s = s"
| "notifyExpirations ((k, v) # rest) (Some f) s =
     notifyExpirations rest (Some f) (fst (try_run (f k v) s))"

definition spawn_notify :: "(string \<times> 'v) list \<Rightarrow> 'v kvstore \<Rightarrow> 'v kvstore" where
  "spawn_notify exp s = (if has_onExpire s then s\<lparr>spawned := spawned s @ exp\<rparr> else s)"

section \<open>Operations\<close>

definition kv_Delete :: "string \<Rightarrow> 'v kvstore \<Rightarrow> 'v kvstore" where
  "kv_Delete k s = s\<lparr>kv_kv := map_del k (kv_kv s)\<rparr>"

definition kv_Get :: "time \<Rightarrow> string \<Rightarrow> 'v kvstore \<Rightarrow> 'v option \<times> 'v kvstore" where
  "kv_Get now k s =
     (case map_of (kv_kv s) k of
        None \<Rightarrow> (None, s)
      | Some e \<Rightarrow>
          if expired now (e_timeout e)
          then (None, (spawn_notify [(k, e_value e)] s)\<lparr>kv_kv := map_del k (kv_kv s)\<rparr>)
          else (Some (e_value e), s))"

definition kv_Keys :: "'v kvstore \<Rightarrow> string list" where
  "kv_Keys s = map fst (kv_kv s)"

definition kv_Values :: "'v kvstore \<Rightarrow> 'v list" where
  "kv_Values s = map (\<lambda>(k, e). e_value e) (kv_kv s)"

definition kv_Entries :: "'v kvstore \<Rightarrow> (string, 'v kv_entry) gomap" where
  "kv_Entries s =
     map (\<lambda>(k, e). (k, \<lparr>e_timeout = (case e_timeout e of
             None \<Rightarrow> None
           | Some t \<Rightarrow> Some \<lparr>expiresAt = expiresAt t, expiresAfter = expiresAfter t, to_key = k\<rparr>),
         e_value = e_value e\<rparr>)) (kv_kv s)"

definition kv_Range :: "time \<Rightarrow> 'v kvstore \<Rightarrow> (string \<times> 'v \<times> time) list" where
  "kv_Range now s =
     concat (map (\<lambda>(k, e). case e_timeout e of
         None \<Rightarrow> []
       | Some t \<Rightarrow> if expired now (Some t) then [] else [(k, e_value e, expiresAt t)]) (kv_kv s))"

definition kv_Put :: "time \<Rightarrow> string \<Rightarrow> 'v \<Rightarrow> duration \<Rightarrow> 'v kvstore \<Rightarrow> 'v kvstore" where
  "kv_Put now k v d s =
     (let t = newTimeout now k d
      in s\<lparr>kv_heap := timeheapPush (kv_heap s) t,
           kv_kv := map_put k \<lparr>e_timeout = Some t, e_value = v\<rparr> (kv_kv s)\<rparr>)"

section \<open>JSON documents\<close>

text \<open>
  The store is written as one object per entry, with the value and the absolute expiry. The
  document is modelled after parsing: an association list from keys to the two members. An
  entry without a timeout marshals to no bytes at all, which \<open>json.Marshal\<close> rejects.
\<close>

definition entry_MarshalJSON :: "'v kv_entry \<Rightarrow> ('v \<times> time) option" where
  "entry_MarshalJSON e = (case e_timeout e of None \<Rightarrow> None | Some t \<Rightarrow> Some (e_value e, expiresAt t))"

definition kv_MarshalJSON :: "'v kvstore \<Rightarrow> (string, 'v \<times> time) gomap option" where
  "kv_MarshalJSON s =
     (if \<exists>(k, e) \<in> set (kv_kv s). entry_MarshalJSON e = None then None
      else Some (map (\<lambda>(k, e). (k, the (entry_MarshalJSON e))) (kv_kv s)))"

record 'v minimalEntry =
  me_Value :: "'v option"
  me_ExpiresAfter :: duration
  me_expired :: bool

definition minimalEntry_UnmarshalJSON :: "time \<Rightarrow> 'v \<times> time \<Rightarrow> 'v minimalEntry" where
  "minimalEntry_UnmarshalJSON now = (\<lambda>(v, at).
     if at > now then \<lparr>me_Value = Some v, me_ExpiresAfter = at - now, me_expired = False\<rparr>
     else \<lparr>me_Value = None, me_ExpiresAfter = 0, me_expired = True\<rparr>)"

text \<open>All entries are decoded at \<open>now\<close>; the \<open>Put\<close>s that follow read the clock at \<open>now'\<close>.\<close>

fun put_entries :: "time \<Rightarrow> (string \<times> 'v minimalEntry) list \<Rightarrow> 'v kvstore \<Rightarrow> 'v kvstore" where
  "put_entries now' [] s = s"
| "put_entries now' ((k, e) # es) s =
     put_entries now' es
       (case me_Value e of
          Some v \<Rightarrow> if \<not> me_expired e then kv_Put now' k v (me_ExpiresAfter e) s else s
        | None \<Rightarrow> s)"

definition kv_UnmarshalJSON ::
  "time \<Rightarrow> time \<Rightarrow> (string, 'v \<times> time) gomap \<Rightarrow> 'v kvstore \<Rightarrow> 'v kvstore" where
  "kv_UnmarshalJSON now now' doc s =
     put_entries now' (map (\<lambda>(k, d). (k, minimalEntry_UnmarshalJSON now d)) doc) s"

section \<open>The sweep\<close>

text \<open>
  The loop of \<open>expireFunc\<close>: it pops stale timeouts and collects the keys of expired ones. The
  counter \<open>c\<close> grows while the heap shrinks, and the loop ends when they meet, so one call
  looks at no more than half of the heap.
\<close>

function expire_loop ::
  "time \<Rightarrow> (string, 'v kv_entry) gomap \<Rightarrow> nat \<Rightarrow> timeout list \<Rightarrow> (string, 'v) gomap \<Rightarrow>
   timeout list \<times> (string, 'v) gomap \<times> duration" where
  "expire_loop now m c h exp =
     (if h = [] \<or> c \<ge> length h then (h, exp, 0)
      else case map_of m (to_key (h ! 0)) of
          None \<Rightarrow> (case timeheapPop h of
                     None \<Rightarrow> (h, exp, 0)
                   | Some (_, h') \<Rightarrow> expire_loop now m (Suc c) h' exp)
        | Some e \<Rightarrow>
            if \<not> expired now (Some (h ! 0))
            then (h, exp, (let i = expiresAt (h ! 0) - now
                           in if i < 0 then expiresAfter (h ! 0) else i))
            else (case timeheapPop h of
                    None \<Rightarrow> (h, exp, 0)
                  | Some (t, h') \<Rightarrow>
                      expire_loop now m (Suc c) h' (map_put (to_key t) (e_value e) exp)))"
  by pat_completeness auto
termination
  by (relation "measure (\<lambda>(now, m, c, h, exp). length h - c)") (auto simp: timeheapPop_def th_Pop_def
      timeheapdown_eq Let_def split: if_splits)

definition expireFunc :: "time \<Rightarrow> 'v kvstore \<Rightarrow> duration \<times> 'v kvstore" where
  "expireFunc now s =
     (if kv_heap s = [] then (0, s)
      else case expire_loop now (kv_kv s) 0 (kv_heap s) [] of
        (h, exp, interval) \<Rightarrow>
          (let exp' = filter (\<lambda>(k, v). case map_of (kv_kv s) k of
                          None \<Rightarrow> False
                        | Some cur \<Rightarrow> e_timeout cur \<noteq> None \<and> expired now (e_timeout cur)) exp;
               m' = fold (\<lambda>(k, v). map_del k) exp' (kv_kv s);
               s' = (spawn_notify exp' s)\<lparr>kv_kv := m', kv_heap := h\<rparr>;
               interval' = (if interval = 0 \<and> h \<noteq> []
                            then let i = expiresAt (h ! 0) - now
                                 in if i < 0 then expiresAfter (h ! 0) else i
                            else interval)
           in (interval', s')))"

text \<open>One wake-up of \<open>expireLoop\<close>: the sweep and the interval until the next one.\<close>

definition next_interval :: "duration \<Rightarrow> duration \<Rightarrow> duration \<Rightarrow> duration" where
  "next_interval expInt interval v0 =
     (let v = (if v0 < 0 then - 1 * v0 else v0);
          i = (if v > 0 \<and> v \<le> expInt then (2 * interval + v) div 3 else interval)
      in if i \<le> 0 then Millisecond else i)"

definition expireLoop_step :: "time \<Rightarrow> duration \<Rightarrow> 'v kvstore \<Rightarrow> duration \<times> 'v kvstore" where
  "expireLoop_step now interval s =
     (if kv_stop s then (interval, s)
      else case expireFunc now s of
        (v, s') \<Rightarrow> (next_interval (expirationInterval s) interval v, s'))"

declare expire_loop.simps [simp del]

section \<open>Invariant and abstract view\<close>

text \<open>
  Every entry carries a timeout for its own key, and that timeout is in the heap: the sweep
  cannot overlook an entry.
\<close>

definition kv_inv :: "'v kvstore \<Rightarrow> bool" where
  "kv_inv s \<longleftrightarrow> wf_map (kv_kv s) \<and> th_heap (kv_heap s) \<and> 0 < expirationInterval s \<and>
     (\<forall>k e. map_of (kv_kv s) k = Some e \<longrightarrow>
        (\<exists>t. e_timeout e = Some t \<and> to_key t = k \<and> t \<in> set (kv_heap s)))"

text \<open>What a client can see at time \<open>now\<close>: the live entries with their expiry.\<close>

definition kv_view :: "time \<Rightarrow> 'v kvstore \<Rightarrow> string \<Rightarrow> ('v \<times> time) option" where
  "kv_view now s k =
     (case map_of (kv_kv s) k of
        None \<Rightarrow> None
      | Some e \<Rightarrow> (case e_timeout e of
            None \<Rightarrow> None
          | Some t \<Rightarrow> if expired now (Some t) then None else Some (e_value e, expiresAt t)))"

lemma kv_inv_timeout:
  "kv_inv s \<Longrightarrow> map_of (kv_kv s) k = Some e \<Longrightarrow>
   \<exists>t. e_timeout e = Some t \<and> to_key t = k \<and> t \<in> set (kv_heap s)"
  by (simp add: kv_inv_def)

lemma th_heap_Nil [simp]: "th_heap []"
  by (simp add: is_heap_def partial_heap_def)

lemma tinykv_New_inv [wf_intros]: "kv_inv (tinykv_New i cb)"
  by (simp add: tinykv_New_def kv_inv_def Let_def)

lemma spawn_notify_simps [simp]:
  "kv_kv (spawn_notify exp s) = kv_kv s" "kv_heap (spawn_notify exp s) = kv_heap s"
  "expirationInterval (spawn_notify exp s) = expirationInterval s"
  "kv_stop (spawn_notify exp s) = kv_stop s" "has_onExpire (spawn_notify exp s) = has_onExpire s"
  by (auto simp: spawn_notify_def)

lemma kv_Delete_inv [wf_intros]: "kv_inv s \<Longrightarrow> kv_inv (kv_Delete k s)"
  by (auto simp: kv_inv_def kv_Delete_def gomap_simps intro: wf_intros)

lemma kv_Get_inv [wf_intros]: "kv_inv s \<Longrightarrow> kv_inv (snd (kv_Get now k s))"
  by (auto simp: kv_inv_def kv_Get_def gomap_simps intro: wf_intros split: option.splits)

lemma kv_Put_inv [wf_intros]:
  assumes "kv_inv s"
  shows "kv_inv (kv_Put now k v d s)"
proof -
  have "th_heap (kv_heap s)" using assms by (simp add: kv_inv_def)
  note thq.invar_push [OF this] thq.content_push [OF this]
  then have "th_heap (timeheapPush (kv_heap s) t)" "set (timeheapPush (kv_heap s) t) = insert t (set (kv_heap s))" for t
    by (simp, metis set_mset_add_mset_insert set_mset_mset)
  with assms show ?thesis
    by (fastforce simp: kv_inv_def kv_Put_def Let_def gomap_simps newTimeout_def intro: wf_intros)
qed

section \<open>The sweep\<close>

lemma timeheapPop_props:
  assumes "th_heap h" "h \<noteq> []"
  obtains h' where "timeheapPop h = Some (h ! 0, h')" "th_heap h'" "set h = insert (h ! 0) (set h')"
    "length h = Suc (length h')"
proof -
  obtain h' where h': "timeheapPop h = Some (h ! 0, h')" "th_heap h'" "mset h = add_mset (h ! 0) (mset h')"
    using thq.pop_Some [OF assms(1)] assms(2) by auto
  have "set h = insert (h ! 0) (set h')" "length h = Suc (length h')"
    using h'(3) by (metis set_mset_add_mset_insert set_mset_mset, metis size_add_mset size_mset)
  with h' that show ?thesis by blast
qed

text \<open>
  What one run of the loop does: it only pops; a popped timeout was stale or expired, and then
  its key was collected with the value the map holds for it.
\<close>

definition loop_ok where
  "loop_ok now m h exp h' exp' \<longleftrightarrow>
     th_heap h' \<and> set h' \<subseteq> set h \<and> length h' \<le> length h \<and>
     dom (map_of exp) \<subseteq> dom (map_of exp') \<and>
     (\<forall>t \<in> set h - set h'. map_of m (to_key t) = None \<or>
        expired now (Some t) \<and> to_key t \<in> dom (map_of exp')) \<and>
     (\<forall>k v. map_of exp' k = Some v \<longrightarrow>
        map_of exp k = Some v \<or> (\<exists>e. map_of m k = Some e \<and> v = e_value e)) \<and>
     (wf_map exp \<longrightarrow> wf_map exp')"

lemma loop_ok_refl: "th_heap h \<Longrightarrow> loop_ok now m h exp h exp"
  by (simp add: loop_ok_def)

lemma loop_ok_popped:
  "loop_ok now m h exp h' exp' \<Longrightarrow> t \<in> set h \<Longrightarrow> t \<notin> set h' \<Longrightarrow>
   map_of m (to_key t) = None \<or> expired now (Some t) \<and> to_key t \<in> dom (map_of exp')"
  by (simp add: loop_ok_def)

lemma loop_ok_pop:
  assumes ok: "loop_ok now m g exp1 h' exp'" and h: "set h = insert t (set g)" "length h = Suc (length g)"
    and t: "map_of m (to_key t) = None \<and> exp1 = exp \<or>
       (\<exists>e. map_of m (to_key t) = Some e \<and> expired now (Some t) \<and>
            exp1 = map_put (to_key t) (e_value e) exp)"
  shows "loop_ok now m h exp h' exp'"
proof -
  have dom: "dom (map_of exp) \<subseteq> dom (map_of exp1)" and wf: "wf_map exp \<longrightarrow> wf_map exp1"
    and tk: "map_of m (to_key t) = None \<or> expired now (Some t) \<and> to_key t \<in> dom (map_of exp1)"
    and val: "\<And>k v. map_of exp1 k = Some v \<Longrightarrow>
        map_of exp k = Some v \<or> (\<exists>e. map_of m k = Some e \<and> v = e_value e)"
    using t by (auto simp: gomap_simps wf_map_put split: if_splits)
  have "map_of exp k = Some v \<or> (\<exists>e. map_of m k = Some e \<and> v = e_value e)"
    if "map_of exp' k = Some v" for k v
    using ok that val unfolding loop_ok_def by blast
  moreover have dom': "dom (map_of exp1) \<subseteq> dom (map_of exp')" using ok by (simp add: loop_ok_def)
  moreover have "map_of m (to_key x) = None \<or> expired now (Some x) \<and> to_key x \<in> dom (map_of exp')"
    if "x \<in> set h - set h'" for x
    using that h(1) loop_ok_popped [OF ok, of x] tk dom' by auto
  moreover have "th_heap h'" "set h' \<subseteq> set h" "length h' \<le> length h" "wf_map exp \<longrightarrow> wf_map exp'"
    using ok h wf by (auto simp: loop_ok_def)
  ultimately show ?thesis using dom unfolding loop_ok_def by blast
qed

lemma expire_loop_ok:
  "th_heap h \<Longrightarrow> expire_loop now m c h exp = (h', exp', i) \<Longrightarrow> loop_ok now m h exp h' exp'"
proof (induction now m c h exp arbitrary: h' exp' i rule: expire_loop.induct)
  case (1 now m c h exp)
  show ?case
  proof (cases "h = [] \<or> c \<ge> length h")
    case True
    with "1.prems" show ?thesis by (subst (asm) expire_loop.simps) (auto intro: loop_ok_refl)
  next
    case False
    then have ne: "h \<noteq> []" by simp
    obtain g where g: "timeheapPop h = Some (h ! 0, g)" "th_heap g" "set h = insert (h ! 0) (set g)"
      "length h = Suc (length g)"
      using timeheapPop_props [OF "1.prems"(1) ne] by blast
    show ?thesis
    proof (cases "map_of m (to_key (h ! 0))")
      case None
      with "1.prems"(2) False g have rec: "expire_loop now m (Suc c) g exp = (h', exp', i)"
        by (subst (asm) expire_loop.simps) simp
      from "1.IH"(1) [OF False None g(1) refl g(2) rec]
      show ?thesis by (rule loop_ok_pop [OF _ g(3,4)]) (use None in simp)
    next
      case (Some e)
      show ?thesis
      proof (cases "expired now (Some (h ! 0))")
        case e: True
        with "1.prems"(2) False g Some
        have rec: "expire_loop now m (Suc c) g (map_put (to_key (h ! 0)) (e_value e) exp) = (h', exp', i)"
          by (subst (asm) expire_loop.simps) simp
        from "1.IH"(2) [OF False Some _ g(1) refl g(2) rec] e
        have "loop_ok now m g (map_put (to_key (h ! 0)) (e_value e) exp) h' exp'" by simp
        then show ?thesis by (rule loop_ok_pop [OF _ g(3,4)]) (use Some e in simp)
      next
        case e: False
        with "1.prems" False Some show ?thesis
          by (subst (asm) expire_loop.simps) (auto intro: loop_ok_refl)
      qed
    qed
  qed
qed

text \<open>A call makes progress unless the front timeout is live.\<close>

lemma expire_loop_progress:
  assumes "th_heap h" "h \<noteq> []" "expire_loop now m 0 h exp = (h', exp', i)"
  shows "length h' < length h \<or> h' = h \<and> \<not> expired now (Some (h ! 0))"
proof -
  obtain g where g: "timeheapPop h = Some (h ! 0, g)" "th_heap g" "length h = Suc (length g)"
    using timeheapPop_props [OF assms(1,2)] by metis
  have shorter: "length h' < length h" if "expire_loop now m c g exp1 = (h', exp', i)" for c exp1
    using expire_loop_ok [OF g(2) that] g(3) by (simp add: loop_ok_def)
  show ?thesis
  proof (cases "map_of m (to_key (h ! 0))")
    case None
    with assms(2,3) g have "expire_loop now m (Suc 0) g exp = (h', exp', i)"
      by (simp add: expire_loop.simps [of now m 0 h exp])
    then show ?thesis using shorter by blast
  next
    case (Some e)
    show ?thesis
    proof (cases "expired now (Some (h ! 0))")
      case True
      with Some assms(2,3) g
      have "expire_loop now m (Suc 0) g (map_put (to_key (h ! 0)) (e_value e) exp) = (h', exp', i)"
        by (simp add: expire_loop.simps [of now m 0 h exp])
      then show ?thesis using shorter by blast
    next
      case False
      with Some assms(2,3) show ?thesis by (simp add: expire_loop.simps [of now m 0 h exp])
    qed
  qed
qed

lemma map_of_fold_del:
  "map_of (fold (\<lambda>(k, v). map_del k) es m) k = (if k \<in> fst ` set es then None else map_of m k)"
  by (induction es arbitrary: m) (auto simp: gomap_simps)

lemma wf_map_fold_del: "wf_map m \<Longrightarrow> wf_map (fold (\<lambda>(k, v). map_del k) es m)"
  by (induction es arbitrary: m) (auto intro: wf_intros)

text \<open>The set of keys one sweep removes, with the values it reports for them.\<close>

definition swept :: "time \<Rightarrow> 'v kvstore \<Rightarrow> 'v kvstore \<Rightarrow> (string \<times> 'v) list \<Rightarrow> bool" where
  "swept now s s' exp \<longleftrightarrow>
     distinct (map fst exp) \<and>
     (\<forall>k v. (k, v) \<in> set exp \<longrightarrow>
        (\<exists>e. map_of (kv_kv s) k = Some e \<and> expired now (e_timeout e) \<and> v = e_value e)) \<and>
     (\<forall>k. map_of (kv_kv s') k = (if k \<in> fst ` set exp then None else map_of (kv_kv s) k)) \<and>
     spawned s' = (if has_onExpire s then spawned s @ exp else spawned s)"

lemma expireFunc_swept:
  assumes inv: "kv_inv s" and e: "expireFunc now s = (i, s')"
  shows "kv_inv s' \<and> has_onExpire s' = has_onExpire s \<and> expirationInterval s' = expirationInterval s \<and>
     (\<exists>exp. swept now s s' exp) \<and>
     (length (kv_heap s') < length (kv_heap s) \<or>
      kv_heap s' = kv_heap s \<and> (kv_heap s = [] \<or> \<not> expired now (Some (kv_heap s ! 0))))"
proof (cases "kv_heap s = []")
  case True
  with e have "s' = s" by (simp add: expireFunc_def)
  moreover have "swept now s s []" by (simp add: swept_def)
  ultimately show ?thesis using inv True by blast
next
  case False
  obtain h exp j where loop: "expire_loop now (kv_kv s) 0 (kv_heap s) [] = (h, exp, j)"
    by (cases "expire_loop now (kv_kv s) 0 (kv_heap s) []")
  let ?P = "\<lambda>k. case map_of (kv_kv s) k of None \<Rightarrow> False
                | Some cur \<Rightarrow> e_timeout cur \<noteq> None \<and> expired now (e_timeout cur)"
  define exp' where "exp' = filter (\<lambda>(k, v). ?P k) exp"
  have s': "s' = (spawn_notify exp' s)\<lparr>kv_kv := fold (\<lambda>(k, v). map_del k) exp' (kv_kv s), kv_heap := h\<rparr>"
    using e False loop by (simp add: expireFunc_def exp'_def Let_def)
  have heap: "th_heap (kv_heap s)" using inv by (simp add: kv_inv_def)
  note ok = expire_loop_ok [OF heap loop, unfolded loop_ok_def]
  have wf: "wf_map exp" using ok by simp
  have mem: "(k, v) \<in> set exp' \<longleftrightarrow> map_of exp k = Some v \<and> ?P k" for k v
    using wf_map_mem [OF wf] by (auto simp: exp'_def)
  have keys: "k \<in> fst ` set exp' \<longleftrightarrow> k \<in> dom (map_of exp) \<and> ?P k" for k
    using mem by force
  have "distinct (map fst exp')" using wf by (auto simp: exp'_def wf_map_def distinct_map_filter)
  moreover have "\<exists>e. map_of (kv_kv s) k = Some e \<and> expired now (e_timeout e) \<and> v = e_value e"
    if "(k, v) \<in> set exp'" for k v
    using that ok unfolding mem by (fastforce split: option.splits)
  ultimately have sw: "swept now s s' exp'"
    by (simp add: swept_def s' map_of_fold_del spawn_notify_def)
  have "\<exists>t. e_timeout en = Some t \<and> to_key t = k \<and> t \<in> set h"
    if en: "map_of (kv_kv s') k = Some en" for k en
  proof -
    have k: "k \<notin> fst ` set exp'" "map_of (kv_kv s) k = Some en"
      using en by (simp_all add: s' map_of_fold_del split: if_splits)
    obtain t where t: "e_timeout en = Some t" "to_key t = k" "t \<in> set (kv_heap s)"
      using kv_inv_timeout [OF inv k(2)] by blast
    have "t \<in> set h"
    proof (rule ccontr)
      assume "t \<notin> set h"
      with t loop_ok_popped [OF expire_loop_ok [OF heap loop], of t] k(2)
      have "expired now (Some t)" "k \<in> dom (map_of exp)" by auto
      with t k keys show False by simp
    qed
    with t show ?thesis by blast
  qed
  moreover have "wf_map (kv_kv s')" using inv by (simp add: s' kv_inv_def wf_map_fold_del)
  ultimately have "kv_inv s'" using inv ok by (simp add: kv_inv_def s')
  moreover have "length h < length (kv_heap s) \<or> h = kv_heap s \<and> \<not> expired now (Some (kv_heap s ! 0))"
    using expire_loop_progress [OF heap False loop] .
  ultimately show ?thesis using sw by (auto simp: s')
qed

section \<open>The store as an expiring map\<close>

text \<open>
  The contract of an expiring map: what is visible at a time, how each operation changes it,
  and that the sweep is invisible. It is what the session store needs of this component.
\<close>

locale expiring_map =
  fixes get :: "time \<Rightarrow> string \<Rightarrow> 's \<Rightarrow> 'v option \<times> 's"
    and put :: "time \<Rightarrow> string \<Rightarrow> 'v \<Rightarrow> duration \<Rightarrow> 's \<Rightarrow> 's"
    and del :: "string \<Rightarrow> 's \<Rightarrow> 's"
    and sweep :: "time \<Rightarrow> 's \<Rightarrow> 's"
    and range :: "time \<Rightarrow> 's \<Rightarrow> (string \<times> 'v \<times> time) list"
    and view :: "time \<Rightarrow> 's \<Rightarrow> string \<Rightarrow> ('v \<times> time) option"
    and invar :: "'s \<Rightarrow> bool"
  assumes invar_get: "invar s \<Longrightarrow> invar (snd (get t k s))"
    and invar_put: "invar s \<Longrightarrow> invar (put t k v d s)"
    and invar_del: "invar s \<Longrightarrow> invar (del k s)"
    and invar_sweep: "invar s \<Longrightarrow> invar (sweep t s)"
    and get_val: "invar s \<Longrightarrow> fst (get t k s) = map_option fst (view t s k)"
    and get_view: "invar s \<Longrightarrow> t \<le> t' \<Longrightarrow> view t' (snd (get t k s)) = view t' s"
    and put_view: "invar s \<Longrightarrow>
      view t' (put t k v d s) = (view t' s)(k := if t' \<le> t + d then Some (v, t + d) else None)"
    and del_view: "view t (del k s) = (view t s)(k := None)"
    and sweep_view: "invar s \<Longrightarrow> t \<le> t' \<Longrightarrow> view t' (sweep t s) = view t' s"
    and range_view: "invar s \<Longrightarrow> (k, v, at) \<in> set (range t s) \<longleftrightarrow> view t s k = Some (v, at)"
begin

lemma put_sweep_get:
  assumes "invar s" "t \<le> t1" "t1 \<le> t2"
  shows "fst (get t2 k' (sweep t1 (put t k v d s))) =
         (if k' = k then if t2 \<le> t + d then Some v else None else fst (get t2 k' s))"
  using assms by (simp add: get_val invar_put invar_sweep sweep_view put_view)

lemma get_get:
  assumes "invar s" "t \<le> t'"
  shows "fst (get t' k' (snd (get t k s))) = fst (get t' k' s)"
  using assms by (simp add: get_val get_view invar_get)

end

lemma kv_view_Get:
  "kv_inv s \<Longrightarrow> fst (kv_Get now k s) = map_option fst (kv_view now s k)"
  using kv_inv_timeout [of s k]
  by (auto simp: kv_Get_def kv_view_def split: option.splits)

lemma kv_view_after_Get:
  assumes "kv_inv s" "now \<le> now'"
  shows "kv_view now' (snd (kv_Get now k s)) = kv_view now' s"
proof (rule ext)
  fix k'
  show "kv_view now' (snd (kv_Get now k s)) k' = kv_view now' s k'"
    using assms(2)
    by (auto simp: kv_Get_def kv_view_def gomap_simps split: option.splits dest: expired_mono)
qed

lemma kv_view_Put:
  "kv_view now' (kv_Put now k v d s) =
   (kv_view now' s)(k := if now' \<le> now + d then Some (v, now + d) else None)"
  by (rule ext) (simp add: kv_view_def kv_Put_def Let_def gomap_simps newTimeout_def expired_def)

lemma kv_view_Delete: "kv_view now (kv_Delete k s) = (kv_view now s)(k := None)"
  by (rule ext) (simp add: kv_view_def kv_Delete_def gomap_simps)

lemma kv_view_swept:
  assumes "swept now s s' exp" "now \<le> now'"
  shows "kv_view now' s' = kv_view now' s"
proof (rule ext)
  fix k
  show "kv_view now' s' k = kv_view now' s k"
  proof (cases "k \<in> fst ` set exp")
    case True
    then obtain e where "map_of (kv_kv s) k = Some e" "expired now (e_timeout e)"
      using assms(1) by (force simp: swept_def)
    with True assms show ?thesis
      by (auto simp: kv_view_def swept_def split: option.splits dest: expired_mono)
  next
    case False
    with assms(1) show ?thesis by (simp add: kv_view_def swept_def)
  qed
qed

lemma kv_Range_view:
  assumes "kv_inv s"
  shows "(k, v, at) \<in> set (kv_Range now s) \<longleftrightarrow> kv_view now s k = Some (v, at)"
proof -
  have wf: "wf_map (kv_kv s)" using assms by (simp add: kv_inv_def)
  have "(k, v, at) \<in> set (kv_Range now s) \<longleftrightarrow>
    (\<exists>e t. (k, e) \<in> set (kv_kv s) \<and> e_timeout e = Some t \<and> \<not> expired now (Some t) \<and>
           v = e_value e \<and> at = expiresAt t)"
  proof (induction "kv_kv s" arbitrary: s)
    case Nil
    then show ?case by (simp add: kv_Range_def)
  next
    case (Cons x m)
    obtain k' e where x: "x = (k', e)" by (cases x)
    have "kv_kv (s\<lparr>kv_kv := m\<rparr>) = m" by simp
    from Cons.hyps(1) [OF this [symmetric]] Cons.hyps(2) [symmetric] show ?case
      by (auto simp: kv_Range_def x split: option.splits if_splits) metis
  qed
  also have "\<dots> \<longleftrightarrow> kv_view now s k = Some (v, at)"
    unfolding wf_map_mem [OF wf] kv_view_def
    by (cases "map_of (kv_kv s) k") (auto split: option.splits)
  finally show ?thesis .
qed

lemma sweep_step:
  assumes "kv_inv s"
  obtains exp where "swept now s (snd (expireFunc now s)) exp" "kv_inv (snd (expireFunc now s))"
  using expireFunc_swept [OF assms, of now "fst (expireFunc now s)" "snd (expireFunc now s)"] by auto

interpretation kvm: expiring_map kv_Get kv_Put kv_Delete "\<lambda>now s. snd (expireFunc now s)"
  kv_Range kv_view kv_inv
proof
  fix s :: "'v kvstore" and t t' k v d at
  show "kv_view t (kv_Delete k s) = (kv_view t s)(k := None)" by (rule kv_view_Delete)
  assume inv: "kv_inv s"
  show "kv_inv (snd (kv_Get t k s))" "kv_inv (kv_Put t k v d s)" "kv_inv (kv_Delete k s)"
    using inv by (auto intro: wf_intros)
  show "kv_inv (snd (expireFunc t s))" using sweep_step [OF inv] by blast
  show "fst (kv_Get t k s) = map_option fst (kv_view t s k)" using inv by (rule kv_view_Get)
  show "kv_view t' (kv_Put t k v d s) =
      (kv_view t' s)(k := if t' \<le> t + d then Some (v, t + d) else None)" by (rule kv_view_Put)
  show "(k, v, at) \<in> set (kv_Range t s) \<longleftrightarrow> kv_view t s k = Some (v, at)"
    using inv by (rule kv_Range_view)
  show "kv_view t' (snd (kv_Get t k s)) = kv_view t' s" if "t \<le> t'"
    using inv that by (rule kv_view_after_Get)
  show "kv_view t' (snd (expireFunc t s)) = kv_view t' s" if "t \<le> t'"
    using sweep_step [OF inv, of t] kv_view_swept that by metis
qed

section \<open>Repeated sweeps\<close>

abbreviation sweeps :: "time \<Rightarrow> nat \<Rightarrow> 'v kvstore \<Rightarrow> 'v kvstore" where
  "sweeps now n \<equiv> ((\<lambda>s. snd (expireFunc now s)) ^^ n)"

definition settled :: "time \<Rightarrow> 'v kvstore \<Rightarrow> bool" where
  "settled now s \<longleftrightarrow> (\<forall>k e. map_of (kv_kv s) k = Some e \<longrightarrow> \<not> expired now (e_timeout e))"

lemma settled_front:
  assumes inv: "kv_inv s" and front: "kv_heap s = [] \<or> \<not> expired now (Some (kv_heap s ! 0))"
  shows "settled now s"
  unfolding settled_def
proof (intro allI impI)
  fix k e assume "map_of (kv_kv s) k = Some e"
  then obtain t where t: "e_timeout e = Some t" "t \<in> set (kv_heap s)"
    using kv_inv_timeout [OF inv] by blast
  have "th_heap (kv_heap s)" using inv by (simp add: kv_inv_def)
  moreover have "now \<le> expiresAt (kv_heap s ! 0)" using front t by (auto simp: expired_def)
  ultimately have "now \<le> expiresAt t" using thq.front_late t(2) by (metis set_mset_mset)
  with t show "\<not> expired now (e_timeout e)" by (simp add: expired_def)
qed

lemma swept_keep:
  assumes sw: "swept now s s' exp" and k: "map_of (kv_kv s) k = Some e"
  shows "map_of (kv_kv s') k = Some e \<or> map_of (kv_kv s') k = None \<and>
      expired now (e_timeout e) \<and> (has_onExpire s \<longrightarrow> (k, e_value e) \<in> set (spawned s'))"
proof (cases "k \<in> fst ` set exp")
  case True
  then obtain v where v: "(k, v) \<in> set exp" by force
  with sw k have "expired now (e_timeout e)" "v = e_value e" by (fastforce simp: swept_def)+
  with v True sw show ?thesis by (simp add: swept_def)
next
  case False
  with sw k show ?thesis by (simp add: swept_def)
qed

lemma sweeps_ok:
  assumes "kv_inv s"
  shows "kv_inv (sweeps now n s) \<and> has_onExpire (sweeps now n s) = has_onExpire s \<and>
    (\<forall>k e. map_of (kv_kv s) k = Some e \<longrightarrow>
       map_of (kv_kv (sweeps now n s)) k = Some e \<or>
       map_of (kv_kv (sweeps now n s)) k = None \<and> expired now (e_timeout e) \<and>
         (has_onExpire s \<longrightarrow> (k, e_value e) \<in> set (spawned (sweeps now n s)))) \<and>
    (settled now (sweeps now n s) \<or> length (kv_heap (sweeps now n s)) + n \<le> length (kv_heap s))"
proof (induction n)
  case 0
  then show ?case using assms by simp
next
  case (Suc n)
  let ?s = "sweeps now n s" and ?s' = "snd (expireFunc now (sweeps now n s))"
  obtain exp where sw: "swept now ?s ?s' exp" and inv': "kv_inv ?s'"
    and cb: "has_onExpire ?s' = has_onExpire ?s"
    and len: "length (kv_heap ?s') < length (kv_heap ?s) \<or>
      kv_heap ?s' = kv_heap ?s \<and> (kv_heap ?s = [] \<or> \<not> expired now (Some (kv_heap ?s ! 0)))"
    using expireFunc_swept [of ?s now "fst (expireFunc now ?s)" ?s'] Suc.IH by auto
  have keep: "map_of (kv_kv ?s') k = Some e \<or> map_of (kv_kv ?s') k = None \<and>
      expired now (e_timeout e) \<and> (has_onExpire s \<longrightarrow> (k, e_value e) \<in> set (spawned ?s'))"
    if "map_of (kv_kv ?s) k = Some e" for k e
    using swept_keep [OF sw that] Suc.IH by simp
  have more: "set (spawned ?s) \<subseteq> set (spawned ?s')" using sw by (auto simp: swept_def)
  have none: "map_of (kv_kv ?s') k = None" if "map_of (kv_kv ?s) k = None" for k
    using that sw by (simp add: swept_def)
  have "settled now ?s'" if "settled now ?s"
    using that sw by (simp add: settled_def swept_def)
  moreover have "settled now ?s'" if "kv_heap ?s' = kv_heap ?s"
      "kv_heap ?s = [] \<or> \<not> expired now (Some (kv_heap ?s ! 0))"
    using settled_front [OF inv', of now] that by simp
  ultimately have "settled now ?s' \<or> length (kv_heap ?s') + Suc n \<le> length (kv_heap s)"
    using Suc.IH len by fastforce
  moreover have "map_of (kv_kv ?s') k = Some e \<or> map_of (kv_kv ?s') k = None \<and>
      expired now (e_timeout e) \<and> (has_onExpire s \<longrightarrow> (k, e_value e) \<in> set (spawned ?s'))"
    if "map_of (kv_kv s) k = Some e" for k e
    using that Suc.IH keep none more by blast
  ultimately show ?case using inv' cb Suc.IH by simp
qed

text \<open>
  C7: one sweep of \<open>expireFunc\<close> removes a set of keys that had all expired and no other
  entry, and the goroutine it spawns reports exactly these keys, each once and with the value
  stored for it. In particular a key renewed before the sweep stays, and no removed key goes
  unreported (issue 1110 in the source).
\<close>

theorem expireFunc_removes_exactly_notified:
  assumes "kv_inv s" "has_onExpire s"
  shows "\<exists>exp. spawned (snd (expireFunc now s)) = spawned s @ exp \<and> distinct (map fst exp) \<and>
    (\<forall>k v. (k, v) \<in> set exp \<longrightarrow>
       (\<exists>e. map_of (kv_kv s) k = Some e \<and> expired now (e_timeout e) \<and> v = e_value e)) \<and>
    (\<forall>k. map_of (kv_kv (snd (expireFunc now s))) k =
         (if k \<in> fst ` set exp then None else map_of (kv_kv s) k))"
  using sweep_step [OF assms(1), of now] assms(2) unfolding swept_def by (metis (no_types))

text \<open>
  C19: repeated sweeps finish. After as many sweeps as the heap has timeouts, no expired entry
  is left, every entry that had expired was reported to the callback, and every other entry
  is still stored. One sweep alone does not give this: its loop stops half way through the
  heap.
\<close>

theorem sweeps_finish:
  assumes inv: "kv_inv s" and cb: "has_onExpire s" and n: "length (kv_heap s) \<le> n"
    and k: "map_of (kv_kv s) k = Some e"
  shows "if expired now (e_timeout e)
         then map_of (kv_kv (sweeps now n s)) k = None \<and> (k, e_value e) \<in> set (spawned (sweeps now n s))
         else map_of (kv_kv (sweeps now n s)) k = Some e"
proof -
  note ok = sweeps_ok [OF inv, where now = now and n = n]
  have "settled now (sweeps now n s)"
  proof (cases "settled now (sweeps now n s)")
    case False
    with ok have "length (kv_heap (sweeps now n s)) + n \<le> length (kv_heap s)" by blast
    with n have "kv_heap (sweeps now n s) = []" by (cases "kv_heap (sweeps now n s)") auto
    with ok settled_front show ?thesis by blast
  qed simp
  then have "\<not> (map_of (kv_kv (sweeps now n s)) k = Some e \<and> expired now (e_timeout e))"
    unfolding settled_def by blast
  with ok k cb show ?thesis by auto
qed

text \<open>
  C9: the contract of \<open>Put\<close> and \<open>Get\<close>. A value put at time \<open>t\<close> for \<open>d\<close> is returned by every
  \<open>Get\<close> up to time \<open>t + d\<close> and by none after it, even when a sweep ran in between, and other
  keys read as if neither had happened.
\<close>

theorem put_get_until_expiry:
  assumes "kv_inv s" "t \<le> t1" "t1 \<le> t2"
  shows "fst (kv_Get t2 k' (snd (expireFunc t1 (kv_Put t k v d s)))) =
         (if k' = k then if t2 \<le> t + d then Some v else None else fst (kv_Get t2 k' s))"
  using assms by (rule kvm.put_sweep_get)

section \<open>Snapshots\<close>

lemma kv_view_put_entries:
  "distinct (map fst es) \<Longrightarrow>
   kv_view t (put_entries now' es s) k =
     (case map_of es k of
        None \<Rightarrow> kv_view t s k
      | Some e \<Rightarrow> (case me_Value e of
            None \<Rightarrow> kv_view t s k
          | Some v \<Rightarrow>
              if me_expired e then kv_view t s k
              else if t \<le> now' + me_ExpiresAfter e then Some (v, now' + me_ExpiresAfter e) else None))"
proof (induction es arbitrary: s)
  case Nil
  then show ?case by simp
next
  case (Cons x es)
  obtain k' e where x: "x = (k', e)" by (cases x)
  have fresh: "map_of es k' = None"
    using Cons.prems by (simp add: x map_of_eq_None_iff)
  show ?case
    using Cons fresh by (cases "k = k'") (auto simp: x kv_view_Put split: option.splits)
qed

lemma kv_MarshalJSON_Some:
  assumes inv: "kv_inv s"
  shows "kv_MarshalJSON s = Some (map (\<lambda>(k, e). (k, the (entry_MarshalJSON e))) (kv_kv s))"
proof -
  have wf: "wf_map (kv_kv s)" using inv by (simp add: kv_inv_def)
  have "entry_MarshalJSON e \<noteq> None" if "(k, e) \<in> set (kv_kv s)" for k e
    using kv_inv_timeout [OF inv, of k e] that
    by (auto simp: entry_MarshalJSON_def wf_map_mem [OF wf])
  then show ?thesis by (auto simp: kv_MarshalJSON_def)
qed

lemma put_entries_inv: "kv_inv s \<Longrightarrow> kv_inv (put_entries now es s)"
  by (induction now es s rule: put_entries.induct) (auto simp: wf_intros split: option.splits)

lemma snapshot_view:
  assumes inv: "kv_inv s"
  shows "\<exists>doc. kv_MarshalJSON s = Some doc \<and>
    (\<forall>k t. kv_view t (kv_UnmarshalJSON now now' doc (tinykv_New i cb)) k =
       (case kv_view (now + 1) s k of
          None \<Rightarrow> None
        | Some (v, at) \<Rightarrow> if t \<le> at + (now' - now) then Some (v, at + (now' - now)) else None))"
proof -
  let ?doc = "map (\<lambda>(k, e). (k, the (entry_MarshalJSON e))) (kv_kv s)"
  let ?es = "map (\<lambda>(k, d). (k, minimalEntry_UnmarshalJSON now d)) ?doc"
  have "distinct (map fst ?es)"
    using inv by (simp add: kv_inv_def wf_map_def comp_def case_prod_unfold)
  note view = kv_view_put_entries [OF this, where now' = now']
  have es: "map_of ?es k = map_option (\<lambda>e. minimalEntry_UnmarshalJSON now (the (entry_MarshalJSON e)))
              (map_of (kv_kv s) k)" for k
    by (simp only: map_of_map_keyed option.map_comp comp_def)
  have empty: "kv_view t (tinykv_New i cb) k = None" for t k
    by (simp add: kv_view_def tinykv_New_def Let_def)
  have "kv_view t (kv_UnmarshalJSON now now' ?doc (tinykv_New i cb)) k =
       (case kv_view (now + 1) s k of
          None \<Rightarrow> None
        | Some (v, at) \<Rightarrow> if t \<le> at + (now' - now) then Some (v, at + (now' - now)) else None)" for k t
  proof (cases "map_of (kv_kv s) k")
    case None
    then show ?thesis unfolding kv_UnmarshalJSON_def view es by (simp add: empty kv_view_def [of "now + 1"])
  next
    case (Some e)
    then obtain u where "e_timeout e = Some u" using kv_inv_timeout [OF inv Some] by blast
    with Some show ?thesis unfolding kv_UnmarshalJSON_def view es
      by (auto simp: empty kv_view_def [of "now + 1"] entry_MarshalJSON_def
          minimalEntry_UnmarshalJSON_def expired_def)
  qed
  with kv_MarshalJSON_Some [OF inv] show ?thesis by blast
qed

text \<open>
  A snapshot survives a restart. A store that satisfies the invariant marshals, and the
  document read back into a new store holds exactly the entries that had not expired when it
  was read, with the value they had and the expiry they had, moved only by the time that
  passed between decoding an entry and putting it.
\<close>

theorem snapshot_roundtrip:
  assumes inv: "kv_inv s"
  shows "\<exists>doc. kv_MarshalJSON s = Some doc \<and>
    (\<forall>k t. kv_view t (kv_UnmarshalJSON now now' doc (tinykv_New i cb)) k =
       (case kv_view (now + 1) s k of
          None \<Rightarrow> None
        | Some (v, at) \<Rightarrow> if t \<le> at + (now' - now) then Some (v, at + (now' - now)) else None))"
  using snapshot_view [OF inv] by blast

section \<open>Intervals and callbacks\<close>

text \<open>
  The sweep never sleeps too long or not at all: from an interval between one nanosecond
  and the configured expiration interval, whatever the sweep reports, the next interval is
  again in that range.
\<close>

theorem next_interval_bounds:
  assumes "0 < interval" "interval \<le> expInt"
  shows "0 < next_interval expInt interval v \<and> next_interval expInt interval v \<le> expInt"
proof -
  have step: "0 < (2 * interval + w) div 3 \<and> (2 * interval + w) div 3 \<le> expInt"
    if w: "0 < w" "w \<le> expInt" for w
  proof -
    have "3 div 3 \<le> (2 * interval + w) div 3" "(2 * interval + w) div 3 \<le> (3 * expInt) div 3"
      by (rule zdiv_mono1; use w assms in simp)+
    then show ?thesis by simp
  qed
  show ?thesis
    using step [of v] step [of "- v"] assms
    by (auto simp only: next_interval_def Let_def mult_minus_left mult_1 not_less not_le
        split: if_split)
qed

lemma fst_try_run [simp]: "fst (try_run g s) = fst (g s)"
  by (auto simp: try_run_def split: prod.splits option.splits panic.splits)

text \<open>
  Every expired entry reaches its callback, in order, even when earlier callbacks panic:
  \<open>try\<close> confines a panic to the entry that caused it.
\<close>

theorem notifyExpirations_runs_all:
  "notifyExpirations exp (Some f) s = fold (\<lambda>(k, v) s. fst (f k v s)) exp s"
  by (induction exp arbitrary: s) auto

section \<open>Witnesses\<close>

definition demo_store :: "nat kvstore" where
  "demo_store = kv_Put 0 ''b'' 8 20 (kv_Put 0 ''a'' 7 5 (tinykv_New 10 True))"

lemma demo_store_inv: "kv_inv demo_store"
  unfolding demo_store_def by (intro wf_intros)

lemma demo_store_simps:
  "has_onExpire demo_store"
  "map_of (kv_kv demo_store) ''a'' = Some \<lparr>e_timeout = Some (newTimeout 0 ''a'' 5), e_value = 7\<rparr>"
  "length (kv_heap demo_store) = 2"
  "kv_view 7 demo_store ''a'' = None" "kv_view 7 demo_store ''b'' = Some (8, 20)"
  by (simp_all add: demo_store_def kv_Put_def tinykv_New_def Let_def timeheapPush_eq heap_Push_def
      kv_view_def newTimeout_def expired_def)

theorem expireFunc_removes_exactly_notified_witness:
  "kv_inv demo_store \<and> has_onExpire demo_store \<and>
   (\<exists>exp. spawned (snd (expireFunc 6 demo_store)) = spawned demo_store @ exp \<and> distinct (map fst exp))"
  using demo_store_inv demo_store_simps(1)
    expireFunc_removes_exactly_notified [OF demo_store_inv demo_store_simps(1), of 6] by blast

theorem sweeps_finish_witness:
  "map_of (kv_kv (sweeps 6 2 demo_store)) ''a'' = None \<and>
   (''a'', 7) \<in> set (spawned (sweeps 6 2 demo_store))"
  using sweeps_finish [OF demo_store_inv demo_store_simps(1) _ demo_store_simps(2), of 2 6]
  by (simp add: demo_store_simps expired_def newTimeout_def)

theorem put_get_until_expiry_witness:
  "fst (kv_Get 9 ''c'' (snd (expireFunc 8 (kv_Put 1 ''c'' 3 8 demo_store)))) = Some 3 \<and>
   fst (kv_Get 10 ''c'' (snd (expireFunc 8 (kv_Put 1 ''c'' 3 8 demo_store)))) = None"
  using put_get_until_expiry [OF demo_store_inv, of 1 8 9 "''c''" "''c''" 3 8]
    put_get_until_expiry [OF demo_store_inv, of 1 8 10 "''c''" "''c''" 3 8] by simp

theorem snapshot_roundtrip_witness:
  "\<exists>doc. kv_MarshalJSON demo_store = Some doc \<and>
     kv_view 10 (kv_UnmarshalJSON 6 6 doc (tinykv_New 10 True)) ''a'' = None \<and>
     kv_view 10 (kv_UnmarshalJSON 6 6 doc (tinykv_New 10 True)) ''b'' = Some (8, 20)"
proof -
  obtain doc where "kv_MarshalJSON demo_store = Some doc"
    "\<forall>k t. kv_view t (kv_UnmarshalJSON 6 6 doc (tinykv_New 10 True)) k =
       (case kv_view (6 + 1) demo_store k of
          None \<Rightarrow> None
        | Some (v, at) \<Rightarrow> if t \<le> at + (6 - 6) then Some (v, at + (6 - 6)) else None)"
    using snapshot_roundtrip [OF demo_store_inv, of 6 6 10 True] by blast
  then show ?thesis by (simp add: demo_store_simps)
qed

theorem next_interval_bounds_witness:
  "0 < next_interval 10 4 (- 7) \<and> next_interval 10 4 (- 7) \<le> 10"
  using next_interval_bounds [of 4 10 "- 7"] by simp

end
