(* ===== verification/Session_Store.thy ===== *)
theory Session_Store
  imports TinyKV Session
begin

text \<open>
  The session store: the \<open>Store\<close> interface of \<open>pkg/sablier/store.go\<close>, its in-memory
  implementation on tinykv (\<open>pkg/store/inmemory\<close>) and the one on a Valkey server
  (\<open>pkg/store/valkey\<close>).

  \<open>store_ops\<close> is the interface as the core calls it, over a state of the implementation's
  own type; the clock is an argument of each operation. The locale \<open>session_store\<close> is what
  the core relies on, and the in-memory store is an interpretation of it. The Valkey client is
  third-party code: the operations that call it take it as a record of functions, and what the
  server documents about them is the predicate \<open>valkey_laws\<close>.
\<close>

section \<open>The interface\<close>

record 'st store_ops =
  st_Get :: "time \<Rightarrow> string \<Rightarrow> 'st \<Rightarrow> (goerror + InstanceInfo) \<times> 'st"
  st_Put :: "time \<Rightarrow> InstanceInfo \<Rightarrow> duration \<Rightarrow> 'st \<Rightarrow> goerror option \<times> 'st"
  st_Delete :: "time \<Rightarrow> string \<Rightarrow> 'st \<Rightarrow> goerror option \<times> 'st"
  st_Range :: "time \<Rightarrow> 'st \<Rightarrow> (InstanceInfo \<times> time) list \<times> goerror option"

text \<open>
  A store that does not fail: \<open>view t s k\<close> is the live session of \<open>k\<close> at time \<open>t\<close> with its
  expiry, and the operations read and write it.
\<close>

locale session_store =
  fixes ops :: "'st store_ops"
    and view :: "time \<Rightarrow> 'st \<Rightarrow> string \<Rightarrow> (InstanceInfo \<times> time) option"
    and invar :: "'st \<Rightarrow> bool"
  assumes get_result: "invar s \<Longrightarrow>
      fst (st_Get ops t k s) = (case view t s k of None \<Rightarrow> Inl ErrKeyNotFound | Some (i, at) \<Rightarrow> Inr i)"
    and get_keeps: "invar s \<Longrightarrow> invar (snd (st_Get ops t k s))"
    and get_view: "invar s \<Longrightarrow> t \<le> t' \<Longrightarrow> view t' (snd (st_Get ops t k s)) = view t' s"
    and put_result: "invar s \<Longrightarrow> fst (st_Put ops t i d s) = None"
    and put_keeps: "invar s \<Longrightarrow> invar (snd (st_Put ops t i d s))"
    and put_view: "invar s \<Longrightarrow> view t' (snd (st_Put ops t i d s)) =
      (view t' s)(i_Name i := if t' \<le> t + d then Some (i, t + d) else None)"
    and delete_result: "invar s \<Longrightarrow> fst (st_Delete ops t k s) = None"
    and delete_keeps: "invar s \<Longrightarrow> invar (snd (st_Delete ops t k s))"
    and delete_view: "invar s \<Longrightarrow> view t' (snd (st_Delete ops t k s)) = (view t' s)(k := None)"
    and range_result: "invar s \<Longrightarrow> snd (st_Range ops t s) = None"
    and range_view: "invar s \<Longrightarrow>
      (i, at) \<in> set (fst (st_Range ops t s)) \<longleftrightarrow> (\<exists>k. view t s k = Some (i, at))"
begin

text \<open>Whether a session is live, and that reading sessions changes nothing that can be read.\<close>

lemma get_live: "invar s \<Longrightarrow> (\<exists>i. fst (st_Get ops t k s) = Inr i) \<longleftrightarrow> view t s k \<noteq> None"
  by (auto simp: get_result split: option.splits)

lemma get_missing: "invar s \<Longrightarrow> fst (st_Get ops t k s) = Inl e \<longleftrightarrow> view t s k = None \<and> e = ErrKeyNotFound"
  by (auto simp: get_result split: option.splits)

lemma put_get:
  "invar s \<Longrightarrow> t \<le> t' \<Longrightarrow> t' \<le> t + d \<Longrightarrow> fst (st_Get ops t' (i_Name i) (snd (st_Put ops t i d s))) = Inr i"
  by (simp add: get_result put_keeps put_view)

lemma delete_get:
  "invar s \<Longrightarrow> fst (st_Get ops t' k (snd (st_Delete ops t k s))) = Inl ErrKeyNotFound"
  by (simp add: get_result delete_keeps delete_view)

end

section \<open>In memory\<close>

type_synonym InMemory = "SessionRecord kvstore"

definition NewInMemory :: InMemory where
  "NewInMemory = tinykv_New (1 * Second) False"

definition InMemory_UnmarshalJSON :: "time \<Rightarrow> time \<Rightarrow> (string, SessionRecord \<times> time) gomap \<Rightarrow> InMemory \<Rightarrow> InMemory" where
  "InMemory_UnmarshalJSON now now' bytes i = kv_UnmarshalJSON now now' bytes i"

definition InMemory_MarshalJSON :: "InMemory \<Rightarrow> (string, SessionRecord \<times> time) gomap option" where
  "InMemory_MarshalJSON i = kv_MarshalJSON i"

definition InMemory_Get :: "time \<Rightarrow> string \<Rightarrow> InMemory \<Rightarrow> (goerror + InstanceInfo) \<times> InMemory" where
  "InMemory_Get now s i =
     (case kv_Get now s i of
        (None, i') \<Rightarrow> (Inl ErrKeyNotFound, i')
      | (Some val, i') \<Rightarrow> (Inr (Instance val), i'))"

definition InMemory_Put :: "time \<Rightarrow> InstanceInfo \<Rightarrow> duration \<Rightarrow> InMemory \<Rightarrow> goerror option \<times> InMemory" where
  "InMemory_Put now state duration i = (None, kv_Put now (i_Name state) (NewSessionRecord state) duration i)"

definition InMemory_Delete :: "time \<Rightarrow> string \<Rightarrow> InMemory \<Rightarrow> goerror option \<times> InMemory" where
  "InMemory_Delete now s i = (None, kv_Delete s i)"

definition InMemory_Range :: "time \<Rightarrow> InMemory \<Rightarrow> (InstanceInfo \<times> time) list \<times> goerror option" where
  "InMemory_Range now i = (map (\<lambda>(k, value, at). (Instance value, at)) (kv_Range now i), None)"

text \<open>The callback that the store runs for an expired key passes the key on.\<close>

definition InMemory_OnExpire :: "(string \<Rightarrow> 's \<Rightarrow> 's \<times> panic option) \<Rightarrow> InMemory \<Rightarrow>
    (string \<Rightarrow> SessionRecord \<Rightarrow> 's \<Rightarrow> 's \<times> panic option) \<times> InMemory" where
  "InMemory_OnExpire f i = ((\<lambda>k v. f k), SetOnExpire True i)"

definition inmemory_ops :: "InMemory store_ops" where
  "inmemory_ops = \<lparr>st_Get = InMemory_Get, st_Put = InMemory_Put, st_Delete = InMemory_Delete,
     st_Range = InMemory_Range\<rparr>"

definition inmemory_view :: "time \<Rightarrow> InMemory \<Rightarrow> string \<Rightarrow> (InstanceInfo \<times> time) option" where
  "inmemory_view t s k = map_option (\<lambda>(r, at). (Instance r, at)) (kv_view t s k)"

lemma NewInMemory_inv: "kv_inv NewInMemory"
  by (simp add: NewInMemory_def tinykv_New_def kv_inv_def)

interpretation mem: session_store inmemory_ops inmemory_view kv_inv
proof
  fix s :: InMemory and t t' k i d at
  assume inv: "kv_inv s"
  show "fst (st_Get inmemory_ops t k s) =
      (case inmemory_view t s k of None \<Rightarrow> Inl ErrKeyNotFound | Some (i, at) \<Rightarrow> Inr i)"
    using kvm.get_val [OF inv, of t k]
    by (cases "kv_view t s k"; cases "kv_Get t k s") (auto simp: inmemory_ops_def InMemory_Get_def inmemory_view_def)
  have get: "snd (st_Get inmemory_ops t k s) = snd (kv_Get t k s)"
    by (simp add: inmemory_ops_def InMemory_Get_def split: prod.splits option.splits)
  show "kv_inv (snd (st_Get inmemory_ops t k s))" unfolding get using inv by (rule kvm.invar_get)
  show "inmemory_view t' (snd (st_Get inmemory_ops t k s)) = inmemory_view t' s" if "t \<le> t'"
    unfolding get using kvm.get_view [OF inv that, of k] by (simp add: inmemory_view_def fun_eq_iff)
  show "fst (st_Put inmemory_ops t i d s) = None" "fst (st_Delete inmemory_ops t k s) = None"
    "snd (st_Range inmemory_ops t s) = None"
    by (simp_all add: inmemory_ops_def InMemory_Put_def InMemory_Delete_def InMemory_Range_def)
  show "kv_inv (snd (st_Put inmemory_ops t i d s))" "kv_inv (snd (st_Delete inmemory_ops t k s))"
    using inv kvm.invar_put kvm.invar_del
    by (simp_all add: inmemory_ops_def InMemory_Put_def InMemory_Delete_def)
  show "inmemory_view t' (snd (st_Put inmemory_ops t i d s)) =
      (inmemory_view t' s)(i_Name i := if t' \<le> t + d then Some (i, t + d) else None)"
    by (auto simp: inmemory_ops_def InMemory_Put_def inmemory_view_def kvm.put_view [OF inv]
        NewSessionRecord_def fun_eq_iff)
  show "inmemory_view t' (snd (st_Delete inmemory_ops t k s)) = (inmemory_view t' s)(k := None)"
    by (simp add: inmemory_ops_def InMemory_Delete_def inmemory_view_def kvm.del_view fun_eq_iff)
  show "(i, at) \<in> set (fst (st_Range inmemory_ops t s)) \<longleftrightarrow> (\<exists>k. inmemory_view t s k = Some (i, at))"
    using kvm.range_view [OF inv, of _ _ _ t]
    by (force simp: inmemory_ops_def InMemory_Range_def inmemory_view_def)
qed

text \<open>
  C8: the in-memory store keeps a session until it expires: after \<open>Put\<close> for \<open>d\<close> at time \<open>t\<close>, \<open>Get\<close>
  at a later time returns the instance up to \<open>t + d\<close> and reports a missing key after that,
  other sessions read as before, and \<open>Range\<close> lists exactly the live sessions. \<open>Delete\<close> ends a
  session at once.
\<close>

theorem inmemory_sessions:
  assumes "kv_inv s" "t \<le> t'"
  shows "fst (InMemory_Get t' k (snd (InMemory_Put t i d s))) =
      (if k = i_Name i then if t' \<le> t + d then Inr i else Inl ErrKeyNotFound
       else fst (InMemory_Get t' k s)) \<and>
    fst (InMemory_Get t' k (snd (InMemory_Delete t k s))) = Inl ErrKeyNotFound \<and>
    ((i', at) \<in> set (fst (InMemory_Range t' (snd (InMemory_Put t i d s)))) \<longleftrightarrow>
      i' = i \<and> at = t + d \<and> t' \<le> t + d \<or>
      (\<exists>k. k \<noteq> i_Name i \<and> inmemory_view t' s k = Some (i', at)))"
proof -
  let ?s = "snd (InMemory_Put t i d s)"
  have inv: "kv_inv ?s" using mem.put_keeps [OF assms(1), of t i d] by (simp add: inmemory_ops_def)
  have view: "inmemory_view t' ?s = (inmemory_view t' s)(i_Name i := if t' \<le> t + d then Some (i, t + d) else None)"
    using mem.put_view [OF assms(1), of t' t i d] by (simp add: inmemory_ops_def)
  have "fst (InMemory_Get t' k ?s) = (if k = i_Name i then if t' \<le> t + d then Inr i else Inl ErrKeyNotFound
       else fst (InMemory_Get t' k s))"
    using mem.get_result [OF inv, of t' k] mem.get_result [OF assms(1), of t' k] view
    by (simp add: inmemory_ops_def)
  moreover have "fst (InMemory_Get t' k (snd (InMemory_Delete t k s))) = Inl ErrKeyNotFound"
    using mem.delete_get [OF assms(1), of t' k t] by (simp add: inmemory_ops_def)
  moreover have "(i', at) \<in> set (fst (InMemory_Range t' ?s)) \<longleftrightarrow> (\<exists>k. inmemory_view t' ?s k = Some (i', at))"
    using mem.range_view [OF inv, of i' at t'] by (simp add: inmemory_ops_def)
  ultimately show ?thesis by (auto simp: view split: if_splits)
qed

theorem inmemory_sessions_witness:
  "fst (InMemory_Get 5 ''web'' (snd (InMemory_Put 0 (zero_InstanceInfo\<lparr>i_Name := ''web''\<rparr>) 10 NewInMemory))) =
   Inr (zero_InstanceInfo\<lparr>i_Name := ''web''\<rparr>)"
  using inmemory_sessions [OF NewInMemory_inv, of 0 5 "''web''" "zero_InstanceInfo\<lparr>i_Name := ''web''\<rparr>" 10]
  by simp

section \<open>On a Valkey server\<close>

text \<open>
  The client, as the store calls it: the replies to PING, CONFIG SET, GET, SET EX, DEL, SCAN
  and PTTL. Documents are those of \<open>SessionRecord\<close>.
\<close>

datatype vk_reply = VkNil | VkError goerror | VkBytes session_doc

record 'c valkey_client =
  vk_ping :: "'c \<Rightarrow> goerror option"
  vk_config_set :: "string \<Rightarrow> string \<Rightarrow> 'c \<Rightarrow> goerror option \<times> 'c"
  vk_get :: "time \<Rightarrow> string \<Rightarrow> 'c \<Rightarrow> vk_reply"
  vk_set_ex :: "time \<Rightarrow> string \<Rightarrow> session_doc \<Rightarrow> duration \<Rightarrow> 'c \<Rightarrow> goerror option \<times> 'c"
  vk_del :: "time \<Rightarrow> string \<Rightarrow> 'c \<Rightarrow> goerror option \<times> 'c"
  vk_scan :: "int \<Rightarrow> 'c \<Rightarrow> goerror + (string list \<times> int)"
  vk_pttl :: "time \<Rightarrow> string \<Rightarrow> 'c \<Rightarrow> goerror + int"

definition ValKey_New :: "'c valkey_client \<Rightarrow> 'c \<Rightarrow> goerror option \<times> 'c" where
  "ValKey_New client c =
     (case vk_ping client c of
        Some err \<Rightarrow> (Some err, c)
      | None \<Rightarrow> vk_config_set client ''notify-keyspace-events'' ''KEx'' c)"

definition ValKey_Get :: "'c valkey_client \<Rightarrow> time \<Rightarrow> string \<Rightarrow> 'c \<Rightarrow> goerror + InstanceInfo" where
  "ValKey_Get client now s c =
     (case vk_get client now s c of
        VkNil \<Rightarrow> Inl ErrKeyNotFound
      | VkError err \<Rightarrow> Inl err
      | VkBytes b \<Rightarrow>
          (case SessionRecord_UnmarshalJSON b of
             Inl err \<Rightarrow> Inl err
           | Inr r \<Rightarrow> Inr (Instance r)))"

definition ValKey_Put :: "'c valkey_client \<Rightarrow> time \<Rightarrow> InstanceInfo \<Rightarrow> duration \<Rightarrow> 'c \<Rightarrow> goerror option \<times> 'c" where
  "ValKey_Put client now state duration c =
     vk_set_ex client now (i_Name state) (record_doc (NewSessionRecord state)) duration c"

definition ValKey_Delete :: "'c valkey_client \<Rightarrow> time \<Rightarrow> string \<Rightarrow> 'c \<Rightarrow> goerror option \<times> 'c" where
  "ValKey_Delete client now s c = vk_del client now s c"

text \<open>
  The body of the loop of \<open>Range\<close> for one key, the loop over one page, which returns what was
  passed to the callback, an error, and the keys seen so far, and the loop that follows the
  cursor until it is 0. That loop is given fuel, since only the server bounds it: \<open>None\<close> means
  that it is still running.
\<close>

datatype range_result = Skip | Fail goerror | Emit InstanceInfo time

definition range_key :: "'c valkey_client \<Rightarrow> time \<Rightarrow> 'c \<Rightarrow> string \<Rightarrow> range_result" where
  "range_key client now c key =
     (case vk_pttl client now key c of
        Inl err \<Rightarrow> Fail err
      | Inr pttl \<Rightarrow>
          if pttl \<le> 0 then Skip
          else let expiresAt = now + pttl * Millisecond
               in case vk_get client now key c of
                    VkNil \<Rightarrow> Skip
                  | VkError err \<Rightarrow> Fail err
                  | VkBytes b \<Rightarrow>
                      (case SessionRecord_UnmarshalJSON b of
                         Inl err \<Rightarrow> Skip
                       | Inr r \<Rightarrow>
                           if i_Name (Instance r) \<noteq> key then Skip else Emit (Instance r) expiresAt))"

fun range_page :: "'c valkey_client \<Rightarrow> time \<Rightarrow> 'c \<Rightarrow> string list \<Rightarrow> string list \<Rightarrow>
    (InstanceInfo \<times> time) list \<times> goerror option \<times> string list" where
  "range_page client now c seen [] = ([], None, seen)"
| "range_page client now c seen (key # keys) =
     (if key \<in> set seen then range_page client now c seen keys
      else case range_key client now c key of
             Fail err \<Rightarrow> ([], Some err, key # seen)
           | Skip \<Rightarrow> range_page client now c (key # seen) keys
           | Emit i at \<Rightarrow>
               (case range_page client now c (key # seen) keys of
                  (out, err, seen') \<Rightarrow> ((i, at) # out, err, seen')))"

fun range_scan :: "nat \<Rightarrow> 'c valkey_client \<Rightarrow> time \<Rightarrow> 'c \<Rightarrow> string list \<Rightarrow> int \<Rightarrow>
    ((InstanceInfo \<times> time) list \<times> goerror option) option" where
  "range_scan 0 client now c seen cursor = None"
| "range_scan (Suc n) client now c seen cursor =
     (case vk_scan client cursor c of
        Inl err \<Rightarrow> Some ([], Some err)
      | Inr (elements, cursor') \<Rightarrow>
          (case range_page client now c seen elements of
             (out, Some err, seen') \<Rightarrow> Some (out, Some err)
           | (out, None, seen') \<Rightarrow>
               if cursor' = 0 then Some (out, None)
               else (case range_scan n client now c seen' cursor' of
                       None \<Rightarrow> None
                     | Some (out', err) \<Rightarrow> Some (out @ out', err))))"

definition ValKey_Range :: "nat \<Rightarrow> 'c valkey_client \<Rightarrow> time \<Rightarrow> 'c \<Rightarrow>
    ((InstanceInfo \<times> time) list \<times> goerror option) option" where
  "ValKey_Range fuel client now c = range_scan fuel client now c [] 0"

text \<open>The handler of a keyspace notification: the key the callback is called with, if any.\<close>

definition ValKey_OnExpire :: "string \<Rightarrow> string \<Rightarrow> string option" where
  "ValKey_OnExpire channel message =
     (if message = ''expired'' then let split = Split (CHR '':'') channel in Some (last split) else None)"

text \<open>
  What the server documents: a value set with an expiry of whole seconds can be read until it
  expires, a deleted one cannot, and other keys are unaffected.
\<close>

definition valkey_laws :: "'c valkey_client \<Rightarrow> (time \<Rightarrow> 'c \<Rightarrow> string \<Rightarrow> session_doc option) \<Rightarrow> bool" where
  "valkey_laws client content \<longleftrightarrow>
     (\<forall>t k c. vk_get client t k c = (case content t c k of None \<Rightarrow> VkNil | Some b \<Rightarrow> VkBytes b)) \<and>
     (\<forall>t t' k b n c. 1 \<le> n \<longrightarrow> fst (vk_set_ex client t k b (n * Second) c) = None \<and>
        content t' (snd (vk_set_ex client t k b (n * Second) c)) =
        (content t' c)(k := if t' \<le> t + n * Second then Some b else None)) \<and>
     (\<forall>t t' k c. fst (vk_del client t k c) = None \<and>
        content t' (snd (vk_del client t k c)) = (content t' c)(k := None))"

text \<open>
  On a server that behaves as documented, the Valkey store keeps a session for its whole
  number of seconds and not longer, leaves other keys alone, forgets a deleted session, and
  also reads the bare instances that older versions wrote.
\<close>

theorem valkey_sessions:
  assumes "valkey_laws client content" "1 \<le> n"
  shows "fst (ValKey_Put client t i (n * Second) c) = None \<and>
    ValKey_Get client t' k (snd (ValKey_Put client t i (n * Second) c)) =
      (if k = i_Name i then if t' \<le> t + n * Second then Inr i else Inl ErrKeyNotFound
       else ValKey_Get client t' k c) \<and>
    ValKey_Get client t' k (snd (ValKey_Delete client t k c)) = Inl ErrKeyNotFound \<and>
    (content t' c k = Some (instance_doc i) \<longrightarrow> ValKey_Get client t' k c = Inr i)"
  using assms
  by (auto simp: valkey_laws_def ValKey_Put_def ValKey_Get_def ValKey_Delete_def record_doc_def
      instance_doc_def SessionRecord_UnmarshalJSON_def NewSessionRecord_def SessionRecordVersion_def
      split: if_splits)

text \<open>A server that keeps documents with their expiry in a list.\<close>

type_synonym list_server = "(string, session_doc \<times> time) gomap"

definition server_content :: "time \<Rightarrow> list_server \<Rightarrow> string \<Rightarrow> session_doc option" where
  "server_content t c k = (case map_of c k of None \<Rightarrow> None | Some (b, at) \<Rightarrow> if t \<le> at then Some b else None)"

definition list_client :: "list_server valkey_client" where
  "list_client =
     \<lparr>vk_ping = (\<lambda>c. None), vk_config_set = (\<lambda>p v c. (None, c)),
      vk_get = (\<lambda>t k c. case server_content t c k of None \<Rightarrow> VkNil | Some b \<Rightarrow> VkBytes b),
      vk_set_ex = (\<lambda>t k b d c. (None, map_put k (b, t + d) c)),
      vk_del = (\<lambda>t k c. (None, map_del k c)),
      vk_scan = (\<lambda>cur c. Inr (map fst c @ map fst c, 0)),
      vk_pttl = (\<lambda>t k c. Inr (case map_of c k of None \<Rightarrow> - 2 | Some (b, at) \<Rightarrow> (at - t) div Millisecond))\<rparr>"

lemma list_client_laws: "valkey_laws list_client server_content"
  by (auto simp: valkey_laws_def list_client_def server_content_def gomap_simps fun_eq_iff)

theorem valkey_sessions_witness:
  "ValKey_Get list_client Second ''web''
     (snd (ValKey_Put list_client 0 (zero_InstanceInfo\<lparr>i_Name := ''web''\<rparr>) (5 * Second) [])) =
   Inr (zero_InstanceInfo\<lparr>i_Name := ''web''\<rparr>)"
  using valkey_sessions [OF list_client_laws, of 5 0 "zero_InstanceInfo\<lparr>i_Name := ''web''\<rparr>" "[]" Second "''web''"]
  by simp

text \<open>A session as \<open>Range\<close> reports it: live, under its own key, with the expiry of its TTL.\<close>

definition listed :: "'c valkey_client \<Rightarrow> time \<Rightarrow> 'c \<Rightarrow> InstanceInfo \<Rightarrow> time \<Rightarrow> bool" where
  "listed client now c i at \<longleftrightarrow> ValKey_Get client now (i_Name i) c = Inr i \<and>
     (\<exists>pttl. vk_pttl client now (i_Name i) c = Inr pttl \<and> 0 < pttl \<and> at = now + pttl * Millisecond)"

lemma range_key_Emit: "range_key client now c key = Emit i at \<Longrightarrow> i_Name i = key \<and> listed client now c i at"
  by (auto simp: range_key_def listed_def ValKey_Get_def Let_def
      split: sum.splits if_splits vk_reply.splits)

definition page_ok :: "'c valkey_client \<Rightarrow> time \<Rightarrow> 'c \<Rightarrow> string list \<Rightarrow> (InstanceInfo \<times> time) list \<Rightarrow> bool" where
  "page_ok client now c seen out \<longleftrightarrow> distinct (map (\<lambda>(i, at). i_Name i) out) \<and>
     (\<forall>i at. (i, at) \<in> set out \<longrightarrow> i_Name i \<notin> set seen \<and> listed client now c i at)"

lemma page_ok_mono: "page_ok client now c seen out \<Longrightarrow> set seen' \<subseteq> set seen \<Longrightarrow> page_ok client now c seen' out"
  by (auto simp: page_ok_def)

lemma range_page_spec:
  "range_page client now c seen keys = (out, err, seen') \<Longrightarrow>
   page_ok client now c seen out \<and> set seen \<subseteq> set seen' \<and> (\<forall>i at. (i, at) \<in> set out \<longrightarrow> i_Name i \<in> set seen')"
proof (induction keys arbitrary: seen out)
  case Nil
  then show ?case by (simp add: page_ok_def)
next
  case (Cons key keys)
  show ?case
  proof (cases "key \<in> set seen")
    case True
    with Cons show ?thesis by simp
  next
    case new: False
    show ?thesis
    proof (cases "range_key client now c key")
      case Skip
      with Cons.prems new have "range_page client now c (key # seen) keys = (out, err, seen')" by simp
      from Cons.IH [OF this] show ?thesis using page_ok_mono by fastforce
    next
      case (Fail e)
      with Cons.prems new show ?thesis by (auto simp: page_ok_def)
    next
      case (Emit i at)
      with Cons.prems new obtain o2 where r: "range_page client now c (key # seen) keys = (o2, err, seen')"
        and out: "out = (i, at) # o2" by (auto split: prod.splits)
      from Cons.IH [OF r] range_key_Emit [OF Emit] new show ?thesis
        unfolding out page_ok_def by (fastforce split: prod.splits)
    qed
  qed
qed

lemma page_ok_append:
  assumes "page_ok client now c seen o1" "page_ok client now c seen' o2" "set seen \<subseteq> set seen'"
    "\<forall>i at. (i, at) \<in> set o1 \<longrightarrow> i_Name i \<in> set seen'"
  shows "page_ok client now c seen (o1 @ o2)"
proof -
  have "(\<lambda>(i, at). i_Name i) ` set o1 \<subseteq> set seen'" using assms(4) by auto
  moreover have "(\<lambda>(i, at). i_Name i) ` set o2 \<inter> set seen' = {}" using assms(2) by (auto simp: page_ok_def)
  ultimately show ?thesis using assms(1-3) unfolding page_ok_def by auto
qed

lemma range_scan_spec:
  "range_scan n client now c seen cursor = Some (out, err) \<Longrightarrow> page_ok client now c seen out"
proof (induction n arbitrary: seen cursor out err)
  case (Suc n)
  show ?case
  proof (cases "vk_scan client cursor c")
    case (Inl e)
    with Suc.prems show ?thesis by (simp add: page_ok_def)
  next
    case (Inr p)
    obtain elements cursor' where p: "p = (elements, cursor')" by (cases p)
    obtain o1 e1 seen' where r: "range_page client now c seen elements = (o1, e1, seen')"
      by (cases "range_page client now c seen elements")
    note P = range_page_spec [OF r]
    show ?thesis
    proof (cases "e1 \<noteq> None \<or> cursor' = 0")
      case True
      with Suc.prems Inr p r have "out = o1" by (auto split: option.splits)
      with P show ?thesis by simp
    next
      case False
      with Suc.prems Inr p r obtain o2 where s: "range_scan n client now c seen' cursor' = Some (o2, err)"
        and out: "out = o1 @ o2" by (auto split: option.splits)
      from page_ok_append [OF _ Suc.IH [OF s]] P show ?thesis unfolding out by blast
    qed
  qed
qed simp

lemma range_scan_ends:
  assumes "\<forall>j\<le>n. vk_scan client (cur j) c = Inr (el j, cur (Suc j))" "cur (Suc n) = 0"
  shows "j + m = n \<Longrightarrow> range_scan (Suc m) client now c seen (cur j) \<noteq> None"
proof (induction m arbitrary: j seen)
  case 0
  with assms show ?case by (auto split: prod.splits option.splits)
next
  case (Suc m)
  then have v: "vk_scan client (cur j) c = Inr (el j, cur (Suc j))" using assms by simp
  obtain out err seen' where r: "range_page client now c seen (el j) = (out, err, seen')"
    by (cases "range_page client now c seen (el j)")
  have "range_scan (Suc m) client now c seen' (cur (Suc j)) \<noteq> None"
    using Suc.prems by (intro Suc.IH) simp
  then show ?case
    unfolding range_scan.simps(2) [of "Suc m"] v sum.case prod.case r
    by (cases err) (auto simp del: range_scan.simps split: option.splits)
qed

text \<open>
  Whatever the server's SCAN returns, \<open>Range\<close> passes each session to the callback at most once,
  under its own key, with the value \<open>Get\<close> returns and the expiry of its live TTL. When the
  cursors of \<open>n + 1\<close> pages lead back to 0, it ends after that many rounds.
\<close>

theorem valkey_range_sound:
  assumes "\<forall>j\<le>n. vk_scan client (cur j) c = Inr (el j, cur (Suc j))" "cur 0 = 0" "cur (Suc n) = 0"
  shows "\<exists>out err. ValKey_Range (Suc n) client now c = Some (out, err) \<and>
    distinct (map (\<lambda>(i, at). i_Name i) out) \<and>
    (\<forall>i at. (i, at) \<in> set out \<longrightarrow> listed client now c i at)"
proof -
  have "range_scan (Suc n) client now c [] 0 \<noteq> None"
    using range_scan_ends [OF assms(1,3), of 0 n now "[]"] assms(2) by simp
  then obtain out err where s: "range_scan (Suc n) client now c [] 0 = Some (out, err)" by auto
  from range_scan_spec [OF s] s show ?thesis by (auto simp: ValKey_Range_def page_ok_def)
qed

theorem valkey_range_sound_witness:
  "\<exists>out err. ValKey_Range (Suc 0) list_client 0 [(''web'', (record_doc (NewSessionRecord zero_InstanceInfo), Second))] = Some (out, err) \<and>
    distinct (map (\<lambda>(i, at). i_Name i) out) \<and>
    (\<forall>i at. (i, at) \<in> set out \<longrightarrow>
       listed list_client 0 [(''web'', (record_doc (NewSessionRecord zero_InstanceInfo), Second))] i at)"
  by (rule valkey_range_sound [where cur = "\<lambda>_. 0" and el = "\<lambda>_. [''web'', ''web'']"])
    (simp_all add: list_client_def)

text \<open>
  An expiry notification on the keyspace channel of a database yields the session's key when
  the key has no colon; of a key with a colon only the part after the last colon is passed on,
  which is not the key.
\<close>

theorem valkey_expired_key:
  "(CHR '':'' \<notin> set key \<longrightarrow>
      ValKey_OnExpire (''__keyspace@0__:'' @ key) ''expired'' = Some key) \<and>
   (message \<noteq> ''expired'' \<longrightarrow> ValKey_OnExpire channel message = None) \<and>
   ValKey_OnExpire (''__keyspace@0__:'' @ pre @ '':'' @ post) ''expired'' \<noteq> Some (pre @ '':'' @ post)"
proof -
  have k: "ValKey_OnExpire (''__keyspace@0__:'' @ s) ''expired'' = Some (last (Split (CHR '':'') s))" for s
    using Split_append_sep [of "CHR '':''" "''__keyspace@0__''" s]
    by (simp add: ValKey_OnExpire_def)
  have "CHR '':'' \<notin> set (last (Split (CHR '':'') (pre @ '':'' @ post)))"
    by (rule Split_parts [of _ _ "pre @ '':'' @ post"]) (rule last_in_set, simp)
  then have "last (Split (CHR '':'') (pre @ '':'' @ post)) \<noteq> pre @ '':'' @ post"
    by (metis append_Cons in_set_conv_decomp)
  with k show ?thesis by (auto simp: Split_no_sep ValKey_OnExpire_def simp del: append.simps)
qed

theorem valkey_expired_key_witness:
  "ValKey_OnExpire (''__keyspace@0__:'' @ ''web'') ''expired'' = Some ''web''"
  using valkey_expired_key [of "''web''" "[]" "[]" "[]" "[]"] by auto

end
