(* ===== verification/Sablier_State.thy ===== *)
theory Sablier_State
  imports Dependency Session_Store
begin

text \<open>
  The state of the \<open>Sablier\<close> object (\<open>pkg/sablier/sablier.go\<close>), the provider interface
  (\<open>provider.go\<close>), and the start of an instance together with its dependencies
  (\<open>instance_dependency.go\<close>).

  The record \<open>sablier\<close> has a field for each field of the struct. A provider and a store are
  records of functions over a state of their own, \<open>s_world\<close> and \<open>s_sessions\<close>. A pointer to
  a \<open>pendingStart\<close> or \<open>depStart\<close> is an index into a heap, so that a comparison of pointers is
  one of indices. Three fields record what happened, for the theorems to talk about: the
  calls of the provider (\<open>s_trace\<close>), the calls of the metrics recorder (\<open>s_metrics\<close>) and the
  goroutines that were started (\<open>s_goroutines\<close>). Logging and tracing spans are left out.

  What the rest of the world does while a start waits is the record \<open>schedule\<close>: how the
  provider's state changes between two polls, how many polls a wait makes before its context is
  done, and what a start that is in flight elsewhere returns. The theorems hold for all of them.
  The dependencies of one instance are handled one after the other; the code handles them
  concurrently.
\<close>

section \<open>State\<close>

record 'w provider_ops =
  p_Start :: "string \<Rightarrow> 'w \<Rightarrow> goerror option \<times> 'w"
  p_Stop :: "string \<Rightarrow> 'w \<Rightarrow> goerror option \<times> 'w"
  p_Inspect :: "string \<Rightarrow> 'w \<Rightarrow> goerror + InstanceInfo"
  p_Groups :: "'w \<Rightarrow> goerror + registry option"
  p_List :: "bool \<Rightarrow> 'w \<Rightarrow> goerror + InstanceConfiguration list"
  p_Dependencies :: "string \<Rightarrow> 'w \<Rightarrow> goerror + InstanceDependency list"

record pendingStart =
  ps_done :: bool
  ps_err :: "goerror option"
  ps_info :: InstanceInfo

record depStart =
  ds_done :: bool
  ds_err :: "goerror option"

datatype provider_call =
    CallStart string
  | CallStop string
  | Inspected string InstanceStatus

datatype metric =
    RecordReadyWaitBegin string
  | RecordReadyWaitEnd string
  | DiscardReadyWait string
  | RecordActiveInstance string
  | RecordInactiveInstance string
  | RecordInstanceStartEnd string
  | RecordInstanceStartFailure string
  | RecordInstanceStop string string

datatype goroutine =
    GoStart string nat
  | GoReconcileAntiAffinity
  | GoStopExpired string

record ('st, 'w) sablier =
  s_provider :: "'w provider_ops"
  s_store :: "'st store_ops"
  s_world :: 'w
  s_sessions :: 'st
  s_groups :: registry
  s_antiAffinity :: registry
  s_suppressed :: "(string, unit) gomap"
  s_pendingStarts :: "(string, nat) gomap"
  s_psHeap :: "pendingStart list"
  s_depStarts :: "(string, nat) gomap"
  s_dsHeap :: "depStart list"
  s_BlockingRefreshFrequency :: duration
  s_InstanceStartTimeout :: duration
  s_ExternallyStartedScanInterval :: duration
  s_DefaultSessionDuration :: duration
  s_RunningHoursRefreshFrequency :: duration
  s_rejectUnlabeledRequests :: bool
  s_verifyEnabledOnExpiration :: bool
  s_metrics :: "metric list"
  s_trace :: "provider_call list"
  s_goroutines :: "goroutine list"

definition sablier_New :: "'st store_ops \<Rightarrow> 'st \<Rightarrow> 'w provider_ops \<Rightarrow> 'w \<Rightarrow> ('st, 'w) sablier" where
  "sablier_New st st0 p w0 =
     \<lparr>s_provider = p, s_store = st, s_world = w0, s_sessions = st0,
      s_groups = newGroupRegistry, s_antiAffinity = newGroupRegistry, s_suppressed = [],
      s_pendingStarts = [], s_psHeap = [], s_depStarts = [], s_dsHeap = [],
      s_BlockingRefreshFrequency = 5 * Second, s_InstanceStartTimeout = 5 * Minute,
      s_ExternallyStartedScanInterval = 30 * Second, s_DefaultSessionDuration = 5 * Minute,
      s_RunningHoursRefreshFrequency = 30 * Second, s_rejectUnlabeledRequests = False,
      s_verifyEnabledOnExpiration = False, s_metrics = [], s_trace = [], s_goroutines = []\<rparr>"

definition WithRejectUnlabeledRequests :: "bool \<Rightarrow> ('st, 'w) sablier \<Rightarrow> ('st, 'w) sablier" where
  "WithRejectUnlabeledRequests reject s = s\<lparr>s_rejectUnlabeledRequests := reject\<rparr>"

definition WithVerifyEnabledOnExpiration :: "bool \<Rightarrow> ('st, 'w) sablier \<Rightarrow> ('st, 'w) sablier" where
  "WithVerifyEnabledOnExpiration verify s = s\<lparr>s_verifyEnabledOnExpiration := verify\<rparr>"

text \<open>Calls of the provider, the store and the recorder.\<close>

definition call_Start :: "string \<Rightarrow> ('st, 'w) sablier \<Rightarrow> goerror option \<times> ('st, 'w) sablier" where
  "call_Start name s =
     (case p_Start (s_provider s) name (s_world s) of
        (err, w) \<Rightarrow> (err, s\<lparr>s_world := w, s_trace := s_trace s @ [CallStart name]\<rparr>))"

definition call_Stop :: "string \<Rightarrow> ('st, 'w) sablier \<Rightarrow> goerror option \<times> ('st, 'w) sablier" where
  "call_Stop name s =
     (case p_Stop (s_provider s) name (s_world s) of
        (err, w) \<Rightarrow> (err, s\<lparr>s_world := w, s_trace := s_trace s @ [CallStop name]\<rparr>))"

definition call_Inspect :: "string \<Rightarrow> ('st, 'w) sablier \<Rightarrow> (goerror + InstanceInfo) \<times> ('st, 'w) sablier" where
  "call_Inspect name s =
     (case p_Inspect (s_provider s) name (s_world s) of
        Inl err \<Rightarrow> (Inl err, s)
      | Inr info \<Rightarrow> (Inr info, s\<lparr>s_trace := s_trace s @ [Inspected name (i_Status info)]\<rparr>))"

definition sess_Get :: "time \<Rightarrow> string \<Rightarrow> ('st, 'w) sablier \<Rightarrow> (goerror + InstanceInfo) \<times> ('st, 'w) sablier" where
  "sess_Get now k s = (case st_Get (s_store s) now k (s_sessions s) of (r, st) \<Rightarrow> (r, s\<lparr>s_sessions := st\<rparr>))"

definition sess_Put :: "time \<Rightarrow> InstanceInfo \<Rightarrow> duration \<Rightarrow> ('st, 'w) sablier \<Rightarrow> goerror option \<times> ('st, 'w) sablier" where
  "sess_Put now i d s = (case st_Put (s_store s) now i d (s_sessions s) of (e, st) \<Rightarrow> (e, s\<lparr>s_sessions := st\<rparr>))"

definition sess_Delete :: "time \<Rightarrow> string \<Rightarrow> ('st, 'w) sablier \<Rightarrow> goerror option \<times> ('st, 'w) sablier" where
  "sess_Delete now k s = (case st_Delete (s_store s) now k (s_sessions s) of (e, st) \<Rightarrow> (e, s\<lparr>s_sessions := st\<rparr>))"

definition record_metric :: "metric \<Rightarrow> ('st, 'w) sablier \<Rightarrow> ('st, 'w) sablier" where
  "record_metric m s = s\<lparr>s_metrics := s_metrics s @ [m]\<rparr>"

definition go :: "goroutine \<Rightarrow> ('st, 'w) sablier \<Rightarrow> ('st, 'w) sablier" where
  "go g s = s\<lparr>s_goroutines := s_goroutines s @ [g]\<rparr>"

section \<open>Accessors of the registry and the sessions\<close>

definition Groups :: "('st, 'w) sablier \<Rightarrow> registry" where
  "Groups s = Snapshot (s_groups s)"

definition SetGroups :: "registry option \<Rightarrow> ('st, 'w) sablier \<Rightarrow> ('st, 'w) sablier" where
  "SetGroups groups s = s\<lparr>s_groups := fst (reg_Set groups (s_groups s))\<rparr>"

definition GroupsForInstance :: "string \<Rightarrow> ('st, 'w) sablier \<Rightarrow> string list" where
  "GroupsForInstance name s = groupsOf name (s_groups s)"

definition SyncInstanceGroups :: "string \<Rightarrow> string list \<Rightarrow> ('st, 'w) sablier \<Rightarrow> (string list \<times> string list) \<times> ('st, 'w) sablier" where
  "SyncInstanceGroups inst newGroups s =
     (case reg_Sync inst newGroups (s_groups s) of
        (d, added, removed) \<Rightarrow> ((added, removed), s\<lparr>s_groups := d\<rparr>))"

definition RemoveInstanceFromAllGroups :: "string \<Rightarrow> ('st, 'w) sablier \<Rightarrow> string list \<times> ('st, 'w) sablier" where
  "RemoveInstanceFromAllGroups inst s =
     (case reg_Remove inst (s_groups s) of (d, groups) \<Rightarrow> (groups, s\<lparr>s_groups := d\<rparr>))"

definition RemoveInstance :: "time \<Rightarrow> string \<Rightarrow> ('st, 'w) sablier \<Rightarrow> goerror option \<times> ('st, 'w) sablier" where
  "RemoveInstance now name s = sess_Delete now name s"

record SessionEntry =
  se_Instance :: string
  se_Group :: string
  se_ExpiresAt :: time

definition SessionsSnapshot :: "time \<Rightarrow> ('st, 'w) sablier \<Rightarrow> SessionEntry list" where
  "SessionsSnapshot now s =
     (case st_Range (s_store s) now (s_sessions s) of
        (entries, None) \<Rightarrow>
          map (\<lambda>(info, expiresAt).
                 \<lparr>se_Instance = i_Name info,
                  se_Group = (if i_Groups info \<noteq> [] then i_Groups info ! 0 else []),
                  se_ExpiresAt = expiresAt\<rparr>) entries
      | (entries, Some err) \<Rightarrow> [])"

section \<open>Starting a dependency\<close>

record 'w schedule =
  sc_tick :: "'w \<Rightarrow> 'w"
  sc_polls :: "string \<Rightarrow> nat"
  sc_other :: "string \<Rightarrow> goerror option"
  sc_fuel :: nat

text \<open>The error of a context that is done.\<close>

definition ctx_Err :: goerror where
  "ctx_Err = ErrText ''context deadline exceeded''"

text \<open>
  \<open>ensureDependencyStarted\<close>: the first critical section decides what to do, the second one
  publishes the outcome of the start.
\<close>

datatype dep_decision = DepManaged | DepWait nat | DepStart nat

definition dep_enter :: "string \<Rightarrow> ('st, 'w) sablier \<Rightarrow> dep_decision \<times> ('st, 'w) sablier" where
  "dep_enter name s =
     (if map_of (s_pendingStarts s) name \<noteq> None then (DepManaged, s)
      else case map_of (s_depStarts s) name of
             Some ds \<Rightarrow> (DepWait ds, s)
           | None \<Rightarrow>
               (let ds = length (s_dsHeap s)
                in (DepStart ds, s\<lparr>s_dsHeap := s_dsHeap s @ [\<lparr>ds_done = False, ds_err = None\<rparr>],
                                   s_depStarts := map_put name ds (s_depStarts s)\<rparr>)))"

definition dep_finish :: "string \<Rightarrow> nat \<Rightarrow> goerror option \<Rightarrow> ('st, 'w) sablier \<Rightarrow> ('st, 'w) sablier" where
  "dep_finish name ds err s =
     s\<lparr>s_dsHeap := (s_dsHeap s)[ds := \<lparr>ds_done = True, ds_err = err\<rparr>],
       s_depStarts := (if map_of (s_depStarts s) name = Some ds then map_del name (s_depStarts s)
                       else s_depStarts s)\<rparr>"

definition ensureDependencyStarted :: "'w schedule \<Rightarrow> string \<Rightarrow> ('st, 'w) sablier \<Rightarrow> goerror option \<times> ('st, 'w) sablier" where
  "ensureDependencyStarted sch name s =
     (case dep_enter name s of
        (DepManaged, s1) \<Rightarrow> (None, s1)
      | (DepWait ds, s1) \<Rightarrow> (sc_other sch name, s1)
      | (DepStart ds, s1) \<Rightarrow>
          (case call_Start name s1 of
             (err0, s2) \<Rightarrow>
               (let err = map_option (ErrWrap (''cannot start dependency '' @ quoted name)) err0
                in (err, dep_finish name ds err s2))))"

fun waitForDependencyCondition :: "nat \<Rightarrow> ('w \<Rightarrow> 'w) \<Rightarrow> string \<Rightarrow> string \<Rightarrow> ('st, 'w) sablier \<Rightarrow>
    goerror option \<times> ('st, 'w) sablier" where
  "waitForDependencyCondition polls tick name condition s =
     (case call_Inspect name s of
        (Inl err, s1) \<Rightarrow> (Some (ErrWrap (''cannot inspect dependency '' @ quoted name) err), s1)
      | (Inr info, s1) \<Rightarrow>
          if i_Status info = InstanceStatusError then
            (Some (ErrText (''dependency '' @ quoted name @ '' is in error state'' @
               (if i_Message info \<noteq> [] then '': '' @ i_Message info else []))), s1)
          else if dependencyConditionSatisfied (i_Status info) condition then (None, s1)
          else case polls of
                 0 \<Rightarrow> (Some (ErrWrap (''timed out waiting for dependency '' @ quoted name @
                         '' (condition: '' @ condition @ '')'') ctx_Err), s1)
               | Suc n \<Rightarrow> waitForDependencyCondition n tick name condition (s1\<lparr>s_world := tick (s_world s1)\<rparr>))"

declare waitForDependencyCondition.simps [simp del]

text \<open>
  The memo of one \<open>startWithDependencies\<close> call: a node that is in progress maps to \<open>None\<close>, a
  finished one to its error. The recursion has fuel for its depth, and \<open>None\<close> means that it was
  used up.
\<close>

type_synonym dependencyMemo = "(string, goerror option option) gomap"

definition newDependencyMemo :: dependencyMemo where
  "newDependencyMemo = []"

definition memo_load :: "string \<Rightarrow> dependencyMemo \<Rightarrow> goerror option option option \<times> dependencyMemo" where
  "memo_load node m =
     (case map_of m node of Some r \<Rightarrow> (Some r, m) | None \<Rightarrow> (None, map_put node None m))"

fun satisfyDependencies :: "nat \<Rightarrow> 'w schedule \<Rightarrow> depgraph \<Rightarrow> InstanceDependency list \<Rightarrow>
      ('st, 'w) sablier \<Rightarrow> dependencyMemo \<Rightarrow> (goerror option \<times> ('st, 'w) sablier \<times> dependencyMemo) option"
  and startDependencyNode :: "nat \<Rightarrow> 'w schedule \<Rightarrow> depgraph \<Rightarrow> string \<Rightarrow>
      ('st, 'w) sablier \<Rightarrow> dependencyMemo \<Rightarrow> (goerror option \<times> ('st, 'w) sablier \<times> dependencyMemo) option" where
  "satisfyDependencies n sch graph [] s memo = Some (None, s, memo)"
| "satisfyDependencies n sch graph (dep # deps) s memo =
     (case call_Inspect (dep_Name dep) s of
        (r, s1) \<Rightarrow>
          if (case r of Inr info \<Rightarrow> dependencyConditionSatisfied (i_Status info) (dep_Condition dep) | Inl e \<Rightarrow> False)
          then satisfyDependencies n sch graph deps s1 memo
          else case startDependencyNode n sch graph (dep_Name dep) s1 memo of
                 None \<Rightarrow> None
               | Some (Some err, s2, memo2) \<Rightarrow> Some (Some err, s2, memo2)
               | Some (None, s2, memo2) \<Rightarrow>
                   (case waitForDependencyCondition (sc_polls sch (dep_Name dep)) (sc_tick sch)
                           (dep_Name dep) (dep_Condition dep) s2 of
                      (Some err, s3) \<Rightarrow> Some (Some err, s3, memo2)
                    | (None, s3) \<Rightarrow> satisfyDependencies n sch graph deps s3 memo2))"
| "startDependencyNode 0 sch graph node s memo = None"
| "startDependencyNode (Suc n) sch graph node s memo =
     (case memo_load node memo of
        (Some (Some err), memo1) \<Rightarrow> Some (err, s, memo1)
      | (Some None, memo1) \<Rightarrow> Some (Some ctx_Err, s, memo1)
      | (None, memo1) \<Rightarrow>
          (case satisfyDependencies n sch graph (map_list graph node) s memo1 of
             None \<Rightarrow> None
           | Some (err, s2, memo2) \<Rightarrow>
               (case (if err = None then ensureDependencyStarted sch node s2 else (err, s2)) of
                  (err', s3) \<Rightarrow> Some (err', s3, map_put node (Some err') memo2))))"

definition startWithDependencies :: "'w schedule \<Rightarrow> string \<Rightarrow> ('st, 'w) sablier \<Rightarrow>
    (goerror option \<times> ('st, 'w) sablier) option" where
  "startWithDependencies sch name s =
     (case resolveDependencyGraph (sc_fuel sch) (\<lambda>n. p_Dependencies (s_provider s) n (s_world s)) name [] of
        None \<Rightarrow> None
      | Some (Inl err) \<Rightarrow> Some (Some err, s)
      | Some (Inr graph) \<Rightarrow>
          (case dependencyGraphCycle name graph of
             None \<Rightarrow> None
           | Some (True, path) \<Rightarrow> Some (call_Start name s)
           | Some (False, path) \<Rightarrow>
               (case satisfyDependencies (sc_fuel sch) sch graph (map_list graph name) s newDependencyMemo of
                  None \<Rightarrow> None
                | Some (Some err, s1, memo) \<Rightarrow> Some (Some err, s1)
                | Some (None, s1, memo) \<Rightarrow> Some (call_Start name s1))))"

section \<open>What the provider sees of a start\<close>

text \<open>
  \<open>met graph tr n\<close>: the calls \<open>tr\<close> show that each dependency of \<open>n\<close> had reached its condition.
  \<open>ordered graph base tr\<close>: each start among the calls \<open>tr\<close> that follow \<open>base\<close> comes after its
  dependencies had reached their conditions.
\<close>

definition dep_met :: "provider_call list \<Rightarrow> InstanceDependency \<Rightarrow> bool" where
  "dep_met tr d \<longleftrightarrow> (\<exists>st. Inspected (dep_Name d) st \<in> set tr \<and> dependencyConditionSatisfied st (dep_Condition d))"

definition met :: "depgraph \<Rightarrow> provider_call list \<Rightarrow> string \<Rightarrow> bool" where
  "met graph tr n \<longleftrightarrow> (\<forall>d\<in>set (map_list graph n). dep_met tr d)"

fun ordered :: "depgraph \<Rightarrow> provider_call list \<Rightarrow> provider_call list \<Rightarrow> bool" where
  "ordered graph base [] = True"
| "ordered graph base (CallStart n # tr) \<longleftrightarrow> met graph base n \<and> ordered graph (base @ [CallStart n]) tr"
| "ordered graph base (c # tr) \<longleftrightarrow> ordered graph (base @ [c]) tr"

definition starts :: "provider_call list \<Rightarrow> string list" where
  "starts tr = concat (map (\<lambda>c. case c of CallStart n \<Rightarrow> [n] | _ \<Rightarrow> []) tr)"

lemma starts_simps [simp]:
  "starts [] = []" "starts (CallStart n # tr) = n # starts tr" "starts (CallStop n # tr) = starts tr"
  "starts (Inspected n st # tr) = starts tr" "starts (tr1 @ tr2) = starts tr1 @ starts tr2"
  by (simp_all add: starts_def)

lemma dep_met_mono: "dep_met tr d \<Longrightarrow> set tr \<subseteq> set tr' \<Longrightarrow> dep_met tr' d"
  by (auto simp: dep_met_def)

lemma met_mono: "met graph tr n \<Longrightarrow> set tr \<subseteq> set tr' \<Longrightarrow> met graph tr' n"
  using dep_met_mono by (auto simp: met_def)

lemma ordered_append: "ordered graph base (t1 @ t2) \<longleftrightarrow> ordered graph base t1 \<and> ordered graph (base @ t1) t2"
  by (induction graph base t1 rule: ordered.induct) simp_all

lemma ordered_mono: "ordered graph base tr \<Longrightarrow> set base \<subseteq> set base' \<Longrightarrow> ordered graph base' tr"
proof (induction tr arbitrary: base base')
  case (Cons c tr)
  have "set (base @ [c]) \<subseteq> set (base' @ [c])" using Cons.prems by auto
  with Cons.IH [of "base @ [c]" "base' @ [c]"] Cons.prems met_mono [of graph base _ base'] show ?case
    by (cases c) auto
qed simp

lemma ordered_no_starts: "starts tr = [] \<Longrightarrow> ordered graph base tr"
  by (induction graph base tr rule: ordered.induct) simp_all

text \<open>The calls that a step adds to the trace, when nothing else of the trace changes.\<close>

definition adds :: "('st, 'w) sablier \<Rightarrow> ('st, 'w) sablier \<Rightarrow> provider_call list \<Rightarrow> bool" where
  "adds s s' tr \<longleftrightarrow> s_trace s' = s_trace s @ tr"

lemma adds_refl: "adds s s []"
  by (simp add: adds_def)

lemma adds_trans: "adds s s1 t1 \<Longrightarrow> adds s1 s2 t2 \<Longrightarrow> adds s s2 (t1 @ t2)"
  by (simp add: adds_def)

lemma call_Inspect_adds:
  "call_Inspect name s = (r, s') \<Longrightarrow>
   adds s s' (case r of Inl e \<Rightarrow> [] | Inr info \<Rightarrow> [Inspected name (i_Status info)])"
  by (auto simp: call_Inspect_def adds_def split: sum.splits)

lemma call_Start_adds: "call_Start name s = (err, s') \<Longrightarrow> adds s s' [CallStart name]"
  by (auto simp: call_Start_def adds_def split: prod.splits)

lemma ensureDependencyStarted_adds:
  "ensureDependencyStarted sch name s = (err, s') \<Longrightarrow> \<exists>tr. adds s s' tr \<and> (tr = [] \<or> tr = [CallStart name])"
  by (auto simp: ensureDependencyStarted_def dep_enter_def call_Start_def dep_finish_def adds_def Let_def
      split: prod.splits dep_decision.splits option.splits if_splits)

lemma wait_adds:
  "waitForDependencyCondition polls tick name condition s = (err, s') \<Longrightarrow>
   \<exists>tr. adds s s' tr \<and> starts tr = [] \<and>
     (err = None \<longrightarrow> (\<exists>st. Inspected name st \<in> set tr \<and> dependencyConditionSatisfied st condition))"
proof (induction polls arbitrary: s)
  case 0
  obtain r s1 where c: "call_Inspect name s = (r, s1)" by (cases "call_Inspect name s")
  from call_Inspect_adds [OF c] 0 c show ?case
    by (subst (asm) waitForDependencyCondition.simps) (cases r, auto split: if_splits)
next
  case (Suc n)
  obtain r s1 where c: "call_Inspect name s = (r, s1)" by (cases "call_Inspect name s")
  note A = call_Inspect_adds [OF c]
  show ?case
  proof (cases r)
    case (Inl e)
    with A c Suc.prems show ?thesis by (subst (asm) waitForDependencyCondition.simps) auto
  next
    case (Inr info)
    let ?s = "s1\<lparr>s_world := tick (s_world s1)\<rparr>" and ?i = "[Inspected name (i_Status info)]"
    show ?thesis
    proof (cases "i_Status info = InstanceStatusError \<or> dependencyConditionSatisfied (i_Status info) condition")
      case True
      with A c Suc.prems Inr show ?thesis
        by (subst (asm) waitForDependencyCondition.simps) (auto split: if_splits)
    next
      case False
      with c Suc.prems Inr have "waitForDependencyCondition n tick name condition ?s = (err, s')"
        by (subst (asm) waitForDependencyCondition.simps) simp
      from Suc.IH [OF this] obtain tr where tr: "adds ?s s' tr" "starts tr = []"
        "err = None \<longrightarrow> (\<exists>st. Inspected name st \<in> set tr \<and> dependencyConditionSatisfied st condition)"
        by blast
      have "adds s s' (?i @ tr)" using A Inr tr(1) by (simp add: adds_def)
      with tr(2,3) show ?thesis by (intro exI [of _ "?i @ tr"]) auto
    qed
  qed
qed

text \<open>What handling dependencies adds: an ordered list of calls that starts only new nodes, once each.\<close>

definition touched :: "dependencyMemo \<Rightarrow> string set" where
  "touched memo = dom (map_of memo)"

lemma touched_put [simp]: "touched (map_put n v memo) = insert n (touched memo)"
  by (auto simp: touched_def map_of_put)

definition dep_calls :: "depgraph \<Rightarrow> dependencyMemo \<Rightarrow> dependencyMemo \<Rightarrow> provider_call list \<Rightarrow> bool" where
  "dep_calls graph memo memo' tr \<longleftrightarrow> ordered graph [] tr \<and> distinct (starts tr) \<and>
     touched memo \<subseteq> touched memo' \<and> set (starts tr) \<subseteq> touched memo' - touched memo"

lemma dep_calls_append:
  assumes "dep_calls graph m1 m2 t1" "dep_calls graph m2 m3 t2"
  shows "dep_calls graph m1 m3 (t1 @ t2)"
proof -
  have "ordered graph t1 t2" using assms(2) by (auto simp: dep_calls_def intro: ordered_mono)
  with assms show ?thesis unfolding dep_calls_def ordered_append starts_simps by auto
qed

lemma dep_calls_no_starts: "starts tr = [] \<Longrightarrow> dep_calls graph m m tr"
  by (simp add: dep_calls_def ordered_no_starts)

lemma dep_calls_node:
  assumes new: "node \<notin> touched memo" and c: "dep_calls graph (map_put node None memo) memo2 tr"
    and tr2: "tr2 = [] \<or> tr2 = [CallStart node] \<and> met graph tr node"
  shows "dep_calls graph memo (map_put node v memo2) (tr @ tr2)"
  using assms unfolding dep_calls_def ordered_append starts_simps by auto

lemma satisfy_calls:
  "satisfyDependencies n sch graph deps s memo = Some (err, s', memo') \<Longrightarrow>
   \<exists>tr. adds s s' tr \<and> dep_calls graph memo memo' tr \<and> (err = None \<longrightarrow> (\<forall>d\<in>set deps. dep_met tr d))"
  "startDependencyNode n sch graph node s memo = Some (err, s', memo') \<Longrightarrow>
   \<exists>tr. adds s s' tr \<and> dep_calls graph memo memo' tr"
proof (induction n sch graph deps s memo and n sch graph node s memo
    arbitrary: err s' memo' and err s' memo' rule: satisfyDependencies_startDependencyNode.induct)
  case (1 n sch graph s memo)
  then show ?case by (intro exI [of _ "[]"]) (simp add: adds_refl dep_calls_no_starts)
next
  case (2 n sch graph dep deps s memo)
  obtain r s1 where c: "call_Inspect (dep_Name dep) s = (r, s1)" by (cases "call_Inspect (dep_Name dep) s")
  define t1 where "t1 = (case r of Inl e \<Rightarrow> [] | Inr info \<Rightarrow> [Inspected (dep_Name dep) (i_Status info)])"
  have A: "adds s s1 t1" using call_Inspect_adds [OF c] by (simp add: t1_def)
  have D: "dep_calls graph memo memo t1" by (intro dep_calls_no_starts) (simp add: t1_def split: sum.splits)
  let ?sat = "case r of Inr info \<Rightarrow> dependencyConditionSatisfied (i_Status info) (dep_Condition dep) | Inl e \<Rightarrow> False"
  show ?case
  proof (cases ?sat)
    case True
    then have m: "dep_met t1 dep" by (auto simp: dep_met_def t1_def split: sum.splits)
    have "satisfyDependencies n sch graph deps s1 memo = Some (err, s', memo')"
      using "2.prems" c True by simp
    from "2.IH"(1) [OF c [symmetric] True this] obtain tr where "adds s1 s' tr" "dep_calls graph memo memo' tr"
      "err = None \<longrightarrow> (\<forall>d\<in>set deps. dep_met tr d)" by blast
    with A D m show ?thesis
      by (intro exI [of _ "t1 @ tr"]) (auto intro: adds_trans dep_calls_append dep_met_mono)
  next
    case False
    then obtain e2 s2 memo2 where st: "startDependencyNode n sch graph (dep_Name dep) s1 memo = Some (e2, s2, memo2)"
      using "2.prems" c by (auto split: option.splits prod.splits)
    from "2.IH"(2) [OF c [symmetric] False st] obtain t2 where t2: "adds s1 s2 t2" "dep_calls graph memo memo2 t2" by blast
    have t12: "adds s s2 (t1 @ t2)" "dep_calls graph memo memo2 (t1 @ t2)"
      using A D t2 by (auto intro: adds_trans dep_calls_append)
    show ?thesis
    proof (cases e2)
      case (Some e)
      with "2.prems" c False st have "err = Some e" "s' = s2" "memo' = memo2" by auto
      with t12 show ?thesis by blast
    next
      case None
      obtain e3 s3 where w: "waitForDependencyCondition (sc_polls sch (dep_Name dep)) (sc_tick sch)
          (dep_Name dep) (dep_Condition dep) s2 = (e3, s3)"
        by (cases "waitForDependencyCondition (sc_polls sch (dep_Name dep)) (sc_tick sch)
          (dep_Name dep) (dep_Condition dep) s2")
      from wait_adds [OF w] obtain t3 where t3: "adds s2 s3 t3" "starts t3 = []"
        "e3 = None \<longrightarrow> dep_met t3 dep" by (auto simp: dep_met_def)
      define u where "u = (t1 @ t2) @ t3"
      have t123: "adds s s3 u" "dep_calls graph memo memo2 u" "e3 = None \<longrightarrow> dep_met u dep"
        using adds_trans [OF t12(1) t3(1)] dep_calls_append [OF t12(2) dep_calls_no_starts [OF t3(2)]] t3(3)
        by (auto simp: u_def intro: dep_met_mono)
      show ?thesis
      proof (cases e3)
        case e3: (Some e)
        have "(err, s', memo') = (Some e, s3, memo2)"
          using "2.prems" c False st None w e3 by auto
        with t123 show ?thesis by blast
      next
        case e3: None
        have rest: "satisfyDependencies n sch graph deps s3 memo2 = Some (err, s', memo')"
          using "2.prems" c False st None w e3 by auto
        from "2.IH"(3) [OF c [symmetric] False st refl None refl w [symmetric] e3 rest] obtain t4
          where "adds s3 s' t4" "dep_calls graph memo2 memo' t4" "err = None \<longrightarrow> (\<forall>d\<in>set deps. dep_met t4 d)"
          by blast
        with t123 e3 show ?thesis
          by (intro exI [of _ "u @ t4"]) (auto intro: adds_trans dep_calls_append dep_met_mono)
      qed
    qed
  qed
next
  case (4 n sch graph node s memo)
  show ?case
  proof (cases "map_of memo node")
    case (Some r)
    with "4.prems" have "s' = s" "memo' = memo" by (auto simp: memo_load_def split: option.splits)
    then show ?thesis by (intro exI [of _ "[]"]) (simp add: adds_refl dep_calls_no_starts)
  next
    case None
    let ?m = "map_put node None memo"
    have l: "memo_load node memo = (None, ?m)" by (simp add: memo_load_def None)
    obtain e1 s2 memo2 where sat: "satisfyDependencies n sch graph (map_list graph node) s ?m = Some (e1, s2, memo2)"
      using "4.prems" l by (auto split: option.splits prod.splits)
    from "4.IH" [OF l [symmetric] refl sat] obtain tr where tr: "adds s s2 tr" "dep_calls graph ?m memo2 tr"
      "e1 = None \<longrightarrow> met graph tr node" by (auto simp: met_def)
    obtain e2 s3 where e: "(if e1 = None then ensureDependencyStarted sch node s2 else (e1, s2)) = (e2, s3)"
      by (cases "if e1 = None then ensureDependencyStarted sch node s2 else (e1, s2)")
    have eq: "s' = s3" "memo' = map_put node (Some e2) memo2" using "4.prems" l sat e by auto
    have "\<exists>tr2. adds s2 s3 tr2 \<and> (tr2 = [] \<or> tr2 = [CallStart node] \<and> met graph tr node)"
      using e tr(3) ensureDependencyStarted_adds [of sch node s2 e2 s3] adds_refl [of s2]
      by (auto split: if_splits)
    then obtain tr2 where tr2: "adds s2 s3 tr2" "tr2 = [] \<or> tr2 = [CallStart node] \<and> met graph tr node" by blast
    have "node \<notin> touched memo" using None by (auto simp: touched_def)
    from dep_calls_node [OF this tr(2) tr2(2)] adds_trans [OF tr(1) tr2(1)] show ?thesis
      unfolding eq by blast
  qed
qed simp

lemma satisfy_touched:
  "satisfyDependencies n sch graph deps s memo = Some (err, s', memo') \<Longrightarrow>
   touched memo' \<subseteq> touched memo \<union> {x. \<exists>d\<in>set deps. (dep_Name d, x) \<in> (edges graph)\<^sup>*}"
  "startDependencyNode n sch graph node s memo = Some (err, s', memo') \<Longrightarrow>
   touched memo' \<subseteq> touched memo \<union> {x. (node, x) \<in> (edges graph)\<^sup>*}"
proof (induction n sch graph deps s memo and n sch graph node s memo
    arbitrary: err s' memo' and err s' memo' rule: satisfyDependencies_startDependencyNode.induct)
  case (2 n sch graph dep deps s memo)
  obtain r s1 where c: "call_Inspect (dep_Name dep) s = (r, s1)" by (cases "call_Inspect (dep_Name dep) s")
  show ?case
  proof (cases "case r of Inr info \<Rightarrow> dependencyConditionSatisfied (i_Status info) (dep_Condition dep) | Inl e \<Rightarrow> False")
    case True
    have "satisfyDependencies n sch graph deps s1 memo = Some (err, s', memo')" using "2.prems" c True by simp
    from "2.IH"(1) [OF c [symmetric] True this] show ?thesis by auto
  next
    case False
    then obtain e2 s2 memo2 where st: "startDependencyNode n sch graph (dep_Name dep) s1 memo = Some (e2, s2, memo2)"
      using "2.prems" c by (auto split: option.splits prod.splits)
    note T = "2.IH"(2) [OF c [symmetric] False st]
    obtain e3 s3 where w: "waitForDependencyCondition (sc_polls sch (dep_Name dep)) (sc_tick sch)
        (dep_Name dep) (dep_Condition dep) s2 = (e3, s3)" by (rule prod.exhaust)
    show ?thesis
    proof (cases "e2 = None \<and> e3 = None")
      case True
      with "2.prems" c False st w have "satisfyDependencies n sch graph deps s3 memo2 = Some (err, s', memo')" by auto
      with "2.IH"(3) [OF c [symmetric] False st refl _ refl w [symmetric] _ this] True T show ?thesis by auto
    next
      case other: False
      with "2.prems" c False st w have "memo' = memo2" by (auto split: option.splits)
      with T show ?thesis by auto
    qed
  qed
next
  case (4 n sch graph node s memo)
  show ?case
  proof (cases "map_of memo node")
    case (Some r)
    with "4.prems" show ?thesis by (auto simp: memo_load_def split: option.splits)
  next
    case None
    let ?m = "map_put node None memo"
    have l: "memo_load node memo = (None, ?m)" by (simp add: memo_load_def None)
    obtain e1 s2 memo2 where sat: "satisfyDependencies n sch graph (map_list graph node) s ?m = Some (e1, s2, memo2)"
      using "4.prems" l by (auto split: option.splits prod.splits)
    have "touched memo' = insert node (touched memo2)"
      using "4.prems" l sat by (auto split: prod.splits)
    moreover have "(node, x) \<in> (edges graph)\<^sup>*"
      if "d \<in> set (map_list graph node)" "(dep_Name d, x) \<in> (edges graph)\<^sup>*" for d x
      using that by (intro converse_rtrancl_into_rtrancl [of node "dep_Name d"]) (auto simp: edges_def)
    ultimately show ?thesis using "4.IH" [OF l [symmetric] refl sat] by auto
  qed
qed auto

lemma satisfy_total:
  "\<forall>x. (root, x) \<in> (edges graph)\<^sup>* \<longrightarrow> (x, x) \<notin> (edges graph)\<^sup>+ \<Longrightarrow> path \<noteq> [] \<Longrightarrow> hd path = root \<Longrightarrow>
   walk graph path \<Longrightarrow> \<forall>d\<in>set deps. (last path, dep_Name d) \<in> edges graph \<Longrightarrow>
   length graph < n + length path \<Longrightarrow> satisfyDependencies n sch graph deps s memo \<noteq> None"
  "\<forall>x. (root, x) \<in> (edges graph)\<^sup>* \<longrightarrow> (x, x) \<notin> (edges graph)\<^sup>+ \<Longrightarrow> path \<noteq> [] \<Longrightarrow> hd path = root \<Longrightarrow>
   walk graph (path @ [node]) \<Longrightarrow> length graph < n + length path \<Longrightarrow>
   startDependencyNode n sch graph node s memo \<noteq> None"
proof (induction n sch graph deps s memo and n sch graph node s memo
    arbitrary: path and path rule: satisfyDependencies_startDependencyNode.induct)
  case (2 n sch graph dep deps s memo)
  obtain r s1 where c: "call_Inspect (dep_Name dep) s = (r, s1)" by (cases "call_Inspect (dep_Name dep) s")
  have rest: "\<forall>d\<in>set deps. (last path, dep_Name d) \<in> edges graph" using "2.prems"(5) by simp
  show ?case
  proof (cases "case r of Inr info \<Rightarrow> dependencyConditionSatisfied (i_Status info) (dep_Condition dep) | Inl e \<Rightarrow> False")
    case True
    from "2.IH"(1) [OF c [symmetric] True "2.prems"(1-4) rest "2.prems"(6)] c True show ?thesis by simp
  next
    case False
    have "walk graph (path @ [dep_Name dep])"
      using "2.prems"(2,4,5) by (simp add: walk_extend)
    from "2.IH"(2) [OF c [symmetric] False "2.prems"(1-3) this "2.prems"(6)] obtain e2 s2 memo2
      where st: "startDependencyNode n sch graph (dep_Name dep) s1 memo = Some (e2, s2, memo2)" by auto
    obtain e3 s3 where w: "waitForDependencyCondition (sc_polls sch (dep_Name dep)) (sc_tick sch)
        (dep_Name dep) (dep_Condition dep) s2 = (e3, s3)" by (rule prod.exhaust)
    show ?thesis
    proof (cases "e2 = None \<and> e3 = None")
      case True
      with "2.IH"(3) [OF c [symmetric] False st refl _ refl w [symmetric] _ "2.prems"(1-4) rest "2.prems"(6)]
      have "satisfyDependencies n sch graph deps s3 memo2 \<noteq> None" by simp
      with c False st w True show ?thesis by auto
    qed (use c False st w in \<open>auto split: option.splits\<close>)
  qed
next
  case (3 sch graph node s memo)
  have "\<forall>x\<in>set (path @ [node]). (x, x) \<notin> (edges graph)\<^sup>+"
    using "3.prems"(1-4) walk_from [OF "3.prems"(4)] by auto
  from walk_distinct [OF "3.prems"(4) this] path_short [of path graph] walk_keys [OF "3.prems"(4)] "3.prems"(5)
  show ?case by simp
next
  case (4 n sch graph node s memo)
  show ?case
  proof (cases "map_of memo node")
    case (Some r)
    then show ?thesis by (cases r) (simp_all add: memo_load_def)
  next
    case None
    have l: "memo_load node memo = (None, map_put node None memo)" by (simp add: memo_load_def None)
    have "satisfyDependencies n sch graph (map_list graph node) s (map_put node None memo) \<noteq> None"
      using "4.prems" by (intro "4.IH" [OF l [symmetric] refl, of "path @ [node]"]) (auto simp: edges_def)
    with l show ?thesis by (auto split: prod.splits)
  qed
qed simp

text \<open>
  What the main theorem needs of the graph and of the dependencies that were satisfied: the graph
  stays inside a closed set of instances, and without a cycle the instance itself is not among
  the dependencies that were started.
\<close>

lemma resolved_bounded:
  assumes "finite U" "name \<in> U" "depends deps `` U \<subseteq> U"
    and "resolveDependencyGraph k deps name [] = Some (Inr graph)"
  shows "length graph \<le> card U"
proof -
  have "nodes graph \<subseteq> U"
  proof
    fix x assume "x \<in> nodes graph"
    then have "(name, x) \<in> (depends deps)\<^sup>*"
      using grownD(5) [OF resolve_grown(1) [OF assms(4)], of x] by (simp add: reports_def)
    then show "x \<in> U" by (induction rule: rtrancl_induct) (use assms in auto)
  qed
  then show ?thesis using length_nodes resolve_wf(1) [OF assms(4)] card_mono [OF assms(1)] by simp
qed

lemma satisfied_dependencies:
  assumes acyc: "\<not> (\<exists>n. (name, n) \<in> (edges graph)\<^sup>* \<and> (n, n) \<in> (edges graph)\<^sup>+)"
    and sat: "satisfyDependencies k sch graph (map_list graph name) s newDependencyMemo = Some (err, s1, memo)"
  shows "\<exists>tr. adds s s1 tr \<and> distinct (starts tr) \<and> ordered graph [] tr \<and> name \<notin> set (starts tr) \<and>
    (err = None \<longrightarrow> ordered graph [] (tr @ [CallStart name]))"
proof -
  from satisfy_calls(1) [OF sat] obtain tr where tr: "adds s s1 tr"
    "dep_calls graph newDependencyMemo memo tr" "err = None \<longrightarrow> met graph tr name" by (auto simp: met_def)
  have "name \<notin> touched memo"
  proof
    assume "name \<in> touched memo"
    moreover have "touched newDependencyMemo = {}" by (simp add: newDependencyMemo_def touched_def)
    ultimately obtain d where d: "d \<in> set (map_list graph name)" "(dep_Name d, name) \<in> (edges graph)\<^sup>*"
      using satisfy_touched(1) [OF sat] by auto
    from d(1) have "(name, dep_Name d) \<in> edges graph" by (simp add: edges_def)
    with d(2) have "(name, name) \<in> (edges graph)\<^sup>+" by (rule rtrancl_into_trancl2 [rotated])
    with acyc show False by blast
  qed
  with tr(2) have new: "name \<notin> set (starts tr)" by (auto simp: dep_calls_def)
  have "ordered graph [] (tr @ [CallStart name])" if "err = None"
    using tr that by (simp add: dep_calls_def ordered_append)
  with tr new show ?thesis by (intro exI [of _ tr]) (auto simp: dep_calls_def)
qed


text \<open>
  A small provider: its world maps names to instances, a start makes an instance ready and a
  stop makes it stopped, and dependencies are given by a function.
\<close>

type_synonym list_world = "(string, InstanceInfo) gomap"

definition list_provider :: "(string \<Rightarrow> InstanceDependency list) \<Rightarrow> list_world provider_ops" where
  "list_provider deps =
     \<lparr>p_Start = (\<lambda>n w. case map_of w n of
          None \<Rightarrow> (Some (ErrText ''no such instance''), w)
        | Some i \<Rightarrow> (None, map_put n (i\<lparr>i_Status := InstanceStatusReady\<rparr>) w)),
      p_Stop = (\<lambda>n w. case map_of w n of
          None \<Rightarrow> (Some (ErrText ''no such instance''), w)
        | Some i \<Rightarrow> (None, map_put n (i\<lparr>i_Status := InstanceStatusStopped\<rparr>) w)),
      p_Inspect = (\<lambda>n w. case map_of w n of
          None \<Rightarrow> Inl (ErrText ''no such instance'')
        | Some i \<Rightarrow> Inr i),
      p_Groups = (\<lambda>w. Inr None),
      p_List = (\<lambda>all w. Inr (map (\<lambda>(n, i). \<lparr>c_Name = n, c_Groups = i_Groups i, c_Enabled = i_Enabled i\<rparr>)
          (filter (\<lambda>(n, i). all \<or> i_Status i = InstanceStatusReady) w))),
      p_Dependencies = (\<lambda>n w. Inr (deps n))\<rparr>"

definition stopped_instance :: "string \<Rightarrow> InstanceInfo" where
  "stopped_instance n = zero_InstanceInfo\<lparr>i_Name := n, i_Status := InstanceStatusStopped, i_Enabled := ''true''\<rparr>"

definition web_db :: "string \<Rightarrow> InstanceDependency list" where
  "web_db n = (if n = ''web'' then [\<lparr>dep_Name = ''db'', dep_Condition = ''service_healthy''\<rparr>] else [])"

definition demo_sablier :: "(InMemory, list_world) sablier" where
  "demo_sablier = sablier_New inmemory_ops NewInMemory (list_provider web_db)
     [(''web'', stopped_instance ''web''), (''db'', stopped_instance ''db'')]"

definition demo_schedule :: "list_world schedule" where
  "demo_schedule = \<lparr>sc_tick = (\<lambda>w. w), sc_polls = (\<lambda>_. 1), sc_other = (\<lambda>_. None), sc_fuel = 3\<rparr>"


end
