(* ===== verification/Starts.thy ===== *)
theory Starts
  imports Sablier_State
begin

text \<open>
  The start of an instance on request, \<open>pkg/sablier/instance_request.go\<close> up to \<open>requestStart\<close>:
  the table of pending starts, the two critical sections of \<open>requestStart\<close> with the
  provider's inspection between them, and the goroutine that performs the start.

  \<open>requestStart\<close> is the composition of its sections. How the sections of concurrent requests
  and goroutines interleave is the step relation \<open>start_step\<close>, over the same definitions: a
  section under \<open>pendingMu\<close> is one step, everything else may happen between two of them.
\<close>

section \<open>Pending starts\<close>

definition consumePendingError :: "string \<Rightarrow> ('st, 'w) sablier \<Rightarrow> (bool \<times> goerror option) \<times> ('st, 'w) sablier" where
  "consumePendingError name s =
     (case map_of (s_pendingStarts s) name of
        None \<Rightarrow> ((False, None), s)
      | Some p \<Rightarrow>
          (let ps = s_psHeap s ! p
           in if ps_done ps then
                (let s1 = s\<lparr>s_pendingStarts := map_del name (s_pendingStarts s)\<rparr>
                 in case ps_err ps of
                      Some err \<Rightarrow> ((False, Some (ErrWrap ''instance start failed'' err)), s1)
                    | None \<Rightarrow> ((False, None), s1))
              else ((True, None), s)))"

text \<open>
  The channel of \<open>startsDone\<close> is the list of the starts it waits for, and the nil channel is
  \<open>None\<close>; it is closed when all of them are done.
\<close>

definition startsDone :: "string list \<Rightarrow> ('st, 'w) sablier \<Rightarrow> nat list option" where
  "startsDone names s =
     (let pending = concat (map (\<lambda>name. case map_of (s_pendingStarts s) name of
                                     Some p \<Rightarrow> [p] | None \<Rightarrow> []) names)
      in if pending = [] then None else Some pending)"

definition startsDone_closed :: "nat list \<Rightarrow> ('st, 'w) sablier \<Rightarrow> bool" where
  "startsDone_closed pending s \<longleftrightarrow> list_all (\<lambda>p. ps_done (s_psHeap s ! p)) pending"

section \<open>Requesting a start\<close>

text \<open>The first critical section: \<open>Some r\<close> when \<open>requestStart\<close> returns \<open>r\<close> there.\<close>

definition requestStart_check :: "string \<Rightarrow> ('st, 'w) sablier \<Rightarrow> (goerror + InstanceInfo) option \<times> ('st, 'w) sablier" where
  "requestStart_check name s =
     (case map_of (s_pendingStarts s) name of
        None \<Rightarrow> (None, s)
      | Some p \<Rightarrow>
          (let ps = s_psHeap s ! p
           in if ps_done ps then
                (case ps_err ps of
                   Some err \<Rightarrow> (Some (Inl (ErrWrap ''instance start failed'' err)),
                                s\<lparr>s_pendingStarts := map_del name (s_pendingStarts s)\<rparr>)
                 | None \<Rightarrow> (None, s\<lparr>s_pendingStarts := map_del name (s_pendingStarts s)\<rparr>))
              else (Some (Inr (ps_info ps)), s)))"

definition bare_info :: "string \<Rightarrow> InstanceInfo" where
  "bare_info name = zero_InstanceInfo\<lparr>i_Name := name, i_CurrentReplicas := 0, i_DesiredReplicas := 1\<rparr>"

definition requestStart_inspect :: "string \<Rightarrow> bool \<Rightarrow> ('st, 'w) sablier \<Rightarrow> (goerror + InstanceInfo) \<times> ('st, 'w) sablier" where
  "requestStart_inspect name rejectUnlabeled s =
     (case call_Inspect name s of
        (Inl err, s1) \<Rightarrow>
          if rejectUnlabeled then (Inl err, s1)
          else (Inr ((bare_info name)\<lparr>i_Status := InstanceStatusStarting\<rparr>), s1)
      | (Inr info, s1) \<Rightarrow>
          if rejectUnlabeled \<and> \<not> IsEnabled info then (Inl (ErrInstanceNotManaged name), s1)
          else (Inr (info\<lparr>i_Status := InstanceStatusStarting\<rparr>), s1))"

text \<open>The second critical section, the metrics and the \<open>go\<close> statement.\<close>

definition register_new :: "string \<Rightarrow> InstanceInfo \<Rightarrow> ('st, 'w) sablier \<Rightarrow> InstanceInfo \<times> ('st, 'w) sablier" where
  "register_new name info s =
     (let p = length (s_psHeap s);
          s1 = s\<lparr>s_psHeap := s_psHeap s @ [\<lparr>ps_done = False, ps_err = None, ps_info = info\<rparr>],
                 s_pendingStarts := map_put name p (s_pendingStarts s)\<rparr>
      in (info, go (GoStart name p)
           (record_metric (RecordActiveInstance name) (record_metric (RecordReadyWaitBegin name) s1))))"

definition requestStart_register :: "string \<Rightarrow> InstanceInfo \<Rightarrow> ('st, 'w) sablier \<Rightarrow> InstanceInfo \<times> ('st, 'w) sablier" where
  "requestStart_register name info s =
     (case map_of (s_pendingStarts s) name of
        Some existing \<Rightarrow>
          if ps_done (s_psHeap s ! existing)
          then register_new name info (s\<lparr>s_pendingStarts := map_del name (s_pendingStarts s)\<rparr>)
          else (ps_info (s_psHeap s ! existing), s)
      | None \<Rightarrow> register_new name info s)"

definition requestStart :: "string \<Rightarrow> bool \<Rightarrow> ('st, 'w) sablier \<Rightarrow> (goerror + InstanceInfo) \<times> ('st, 'w) sablier" where
  "requestStart name rejectUnlabeled s =
     (case requestStart_check name s of
        (Some r, s1) \<Rightarrow> (r, s1)
      | (None, s1) \<Rightarrow>
          (case requestStart_inspect name rejectUnlabeled s1 of
             (Inl err, s2) \<Rightarrow> (Inl err, s2)
           | (Inr info, s2) \<Rightarrow>
               (case requestStart_register name info s2 of (i, s3) \<Rightarrow> (Inr i, s3))))"

section \<open>The goroutine of a start\<close>

text \<open>Its end: the outcome is recorded, then the deferred \<open>close\<close> of \<open>done\<close> runs.\<close>

definition start_result :: "string \<Rightarrow> nat \<Rightarrow> goerror option \<Rightarrow> ('st, 'w) sablier \<Rightarrow> ('st, 'w) sablier" where
  "start_result name p err s =
     (case err of
        Some e \<Rightarrow> record_metric (RecordInstanceStartFailure name)
                    (s\<lparr>s_psHeap := (s_psHeap s)[p := (s_psHeap s ! p)\<lparr>ps_err := Some e\<rparr>]\<rparr>)
      | None \<Rightarrow>
          (let s1 = record_metric (RecordInstanceStartEnd name) s
           in if map_of (s_pendingStarts s1) name = Some p
              then s1\<lparr>s_pendingStarts := map_del name (s_pendingStarts s1)\<rparr> else s1))"

definition start_close :: "nat \<Rightarrow> ('st, 'w) sablier \<Rightarrow> ('st, 'w) sablier" where
  "start_close p s = s\<lparr>s_psHeap := (s_psHeap s)[p := (s_psHeap s ! p)\<lparr>ps_done := True\<rparr>]\<rparr>"

definition run_start :: "'w schedule \<Rightarrow> string \<Rightarrow> nat \<Rightarrow> ('st, 'w) sablier \<Rightarrow> ('st, 'w) sablier option" where
  "run_start sch name p s =
     (case startWithDependencies sch name s of
        None \<Rightarrow> None
      | Some (err, s1) \<Rightarrow> Some (start_close p (start_result name p err s1)))"

section \<open>Interleavings\<close>

text \<open>
  A thread is a request between the sections of \<open>requestStart\<close> or the goroutine of a start:
  while it starts the instance, and after it has recorded the outcome.
\<close>

datatype thread =
    Checked string bool
  | Registering string InstanceInfo
  | Starting string nat
  | Reported string nat

text \<open>The part of the state that only the operations above change.\<close>

abbreviation same_starts :: "('st, 'w) sablier \<Rightarrow> ('st, 'w) sablier \<Rightarrow> bool" where
  "same_starts s s' \<equiv> s_pendingStarts s' = s_pendingStarts s \<and> s_psHeap s' = s_psHeap s"

inductive start_step :: "('st, 'w) sablier \<times> thread multiset \<Rightarrow> ('st, 'w) sablier \<times> thread multiset \<Rightarrow> bool" where
  check_return: "requestStart_check name s = (Some r, s') \<Longrightarrow> start_step (s, T) (s', T)"
| check_continue: "requestStart_check name s = (None, s') \<Longrightarrow>
    start_step (s, T) (s', add_mset (Checked name reject) T)"
| inspect_fail: "requestStart_inspect name reject s = (Inl err, s') \<Longrightarrow>
    start_step (s, add_mset (Checked name reject) T) (s', T)"
| inspect_ok: "requestStart_inspect name reject s = (Inr info, s') \<Longrightarrow>
    start_step (s, add_mset (Checked name reject) T) (s', add_mset (Registering name info) T)"
| register_join: "requestStart_register name info s = (i, s') \<Longrightarrow> s_goroutines s' = s_goroutines s \<Longrightarrow>
    start_step (s, add_mset (Registering name info) T) (s', T)"
| register_go: "requestStart_register name info s = (i, s') \<Longrightarrow>
    s_goroutines s' = s_goroutines s @ [GoStart name p] \<Longrightarrow>
    start_step (s, add_mset (Registering name info) T) (s', add_mset (Starting name p) T)"
| finish: "same_starts s s1 \<Longrightarrow>
    start_step (s, add_mset (Starting name p) T) (start_result name p err s1, add_mset (Reported name p) T)"
| close: "start_step (s, add_mset (Reported name p) T) (start_close p s, T)"
| consume: "consumePendingError name s = (r, s') \<Longrightarrow> start_step (s, T) (s', T)"
| elsewhere: "same_starts s s' \<Longrightarrow> start_step (s, T) (s', T)"

inductive_cases start_stepE: "start_step (s, T) (s', T')"

inductive reachable :: "('st, 'w) sablier \<times> thread multiset \<Rightarrow> bool" where
  init: "s_pendingStarts s = [] \<Longrightarrow> reachable (s, {#})"
| step: "reachable c \<Longrightarrow> start_step c c' \<Longrightarrow> reachable c'"

section \<open>Invariant\<close>

fun pointers :: "thread \<Rightarrow> nat list" where
  "pointers (Starting n p) = [p]"
| "pointers (Reported n p) = [p]"
| "pointers _ = []"

text \<open>
  A running start is the current entry of its name and is not done; every pointer belongs to
  one goroutine at most; an entry that is not done has its goroutine.
\<close>

definition sinv :: "(string, nat) gomap \<Rightarrow> pendingStart list \<Rightarrow> thread multiset \<Rightarrow> bool" where
  "sinv P H T \<longleftrightarrow>
     (\<forall>n p. Starting n p \<in># T \<longrightarrow> map_of P n = Some p) \<and>
     (\<forall>t p. t \<in># T \<longrightarrow> p \<in> set (pointers t) \<longrightarrow> p < length H \<and> \<not> ps_done (H ! p)) \<and>
     (\<forall>p. size (filter_mset (\<lambda>t. p \<in> set (pointers t)) T) \<le> 1) \<and>
     (\<forall>n p. map_of P n = Some p \<longrightarrow> p < length H \<and>
        (ps_done (H ! p) \<or> Starting n p \<in># T \<or> Reported n p \<in># T))"

definition starts_inv :: "('st, 'w) sablier \<times> thread multiset \<Rightarrow> bool" where
  "starts_inv c = (case c of (s, T) \<Rightarrow> sinv (s_pendingStarts s) (s_psHeap s) T)"

lemma sinvD:
  assumes "sinv P H T"
  shows "Starting n p \<in># T \<Longrightarrow> map_of P n = Some p"
    "t \<in># T \<Longrightarrow> p \<in> set (pointers t) \<Longrightarrow> p < length H \<and> \<not> ps_done (H ! p)"
    "size (filter_mset (\<lambda>t. p \<in> set (pointers t)) T) \<le> 1"
    "map_of P n = Some p \<Longrightarrow> p < length H \<and> (ps_done (H ! p) \<or> Starting n p \<in># T \<or> Reported n p \<in># T)"
  using assms unfolding sinv_def by blast+

lemma filter_mset_none:
  assumes "\<And>t. t \<in># T \<Longrightarrow> \<not> P t"
  shows "filter_mset P T = {#}"
proof -
  have "set_mset (filter_mset P T) = {}" using assms by auto
  then show ?thesis by (simp only: set_mset_eq_empty_iff)
qed

lemma size_filter_mset_mono:
  "(\<And>t. t \<in># T \<Longrightarrow> P t \<Longrightarrow> Q t) \<Longrightarrow> size (filter_mset P T) \<le> size (filter_mset Q T)"
  by (induction T) auto

lemma sinv_unique:
  assumes "sinv P H (add_mset t T)" "p \<in> set (pointers t)" "t' \<in># T"
  shows "p \<notin> set (pointers t')"
proof
  assume p: "p \<in> set (pointers t')"
  from multi_member_split [OF assms(3)] obtain T' where T: "T = add_mset t' T'" by blast
  have "size (filter_mset (\<lambda>t. p \<in> set (pointers t)) (add_mset t T)) \<le> 1" by (rule sinvD(3) [OF assms(1)])
  with p assms(2) show False by (simp add: T)
qed

lemma sinv_request:
  assumes "pointers t = []"
  shows "sinv P H (add_mset t T) \<longleftrightarrow> sinv P H T"
  using assms unfolding sinv_def by (cases t) auto

lemma sinv_del_done:
  assumes i: "sinv P H T" and p: "map_of P n = Some p" "ps_done (H ! p)"
  shows "sinv (map_del n P) H T"
proof -
  have "m \<noteq> n" if "Starting m q \<in># T" for m q
    using sinvD(1) [OF i that] sinvD(2) [OF i that, of q] p by auto
  then show ?thesis using i unfolding sinv_def map_of_del by (auto split: if_splits)
qed

lemma sinv_new:
  assumes i: "sinv P H T" and n: "map_of P n = None" and d: "\<not> ps_done ps"
  shows "sinv (map_put n (length H) P) (H @ [ps]) (add_mset (Starting n (length H)) T)"
proof -
  have fresh: "length H \<notin> set (pointers t)" if "t \<in># T" for t
    using sinvD(2) [OF i that] by blast
  then have "filter_mset (\<lambda>t. length H \<in> set (pointers t)) T = {#}" by (rule filter_mset_none)
  moreover have "Starting n q \<notin># T" for q using sinvD(1) [OF i, of n q] n by auto
  ultimately show ?thesis
    using i d fresh unfolding sinv_def map_of_put
    by (auto simp: nth_append less_Suc_eq split: if_splits)
qed

lemma nth_upd: "p < length H \<Longrightarrow> H[p := x] ! q = (if q = p then x else H ! q)"
  by (auto simp: nth_list_update)

lemma sinv_fail:
  assumes i: "sinv P H (add_mset (Starting n p) T)"
  shows "sinv P (H[p := (H ! p)\<lparr>ps_err := e\<rparr>]) (add_mset (Reported n p) T)"
proof -
  have p: "p < length H" using sinvD(2) [OF i, of "Starting n p" p] by simp
  have eq: "ps_done (H[p := (H ! p)\<lparr>ps_err := e\<rparr>] ! q) = ps_done (H ! q)" for q
    using p by (simp add: nth_upd)
  have size: "size (filter_mset (\<lambda>t. q \<in> set (pointers t)) (add_mset (Reported n p) T)) =
      size (filter_mset (\<lambda>t. q \<in> set (pointers t)) (add_mset (Starting n p) T))" for q by simp
  show ?thesis using i p unfolding sinv_def eq size by auto
qed

lemma sinv_success:
  assumes i: "sinv P H (add_mset (Starting n p) T)"
  shows "map_of P n = Some p \<and> sinv (map_del n P) H (add_mset (Reported n p) T)"
proof -
  have P: "map_of P n = Some p" using sinvD(1) [OF i, of n p] by simp
  have "m \<noteq> n" if m: "Starting m q \<in># T" for m q
    using sinvD(1) [OF i, of m q] sinv_unique [OF i, of p] m P by force
  moreover have size: "size (filter_mset (\<lambda>t. q \<in> set (pointers t)) (add_mset (Reported n p) T)) =
      size (filter_mset (\<lambda>t. q \<in> set (pointers t)) (add_mset (Starting n p) T))" for q by simp
  ultimately show ?thesis using i P unfolding sinv_def size map_of_del by (auto split: if_splits)
qed

lemma sinv_close:
  assumes i: "sinv P H (add_mset (Reported n p) T)"
  shows "sinv P (H[p := (H ! p)\<lparr>ps_done := True\<rparr>]) T"
proof -
  have p: "p < length H" using sinvD(2) [OF i, of "Reported n p" p] by simp
  have eq: "ps_done (H[p := (H ! p)\<lparr>ps_done := True\<rparr>] ! q) \<longleftrightarrow> q = p \<or> ps_done (H ! q)" for q
    using p by (simp add: nth_upd)
  have other: "p \<notin> set (pointers t)" if "t \<in># T" for t using sinv_unique [OF i _ that] by simp
  have "size (filter_mset (\<lambda>t. q \<in> set (pointers t)) T) \<le> 1" for q
  proof -
    have "size (filter_mset (\<lambda>t. q \<in> set (pointers t)) T) \<le>
        size (filter_mset (\<lambda>t. q \<in> set (pointers t)) (add_mset (Reported n p) T))" by simp
    also have "\<dots> \<le> 1" by (rule sinvD(3) [OF i])
    finally show ?thesis .
  qed
  then show ?thesis using i other unfolding sinv_def eq by auto
qed

lemma start_step_inv: "start_step c c' \<Longrightarrow> starts_inv c \<Longrightarrow> starts_inv c'"
proof (induction rule: start_step.induct)
  case (check_return name s r s' T)
  then show ?case
    by (auto simp: starts_inv_def requestStart_check_def Let_def intro: sinv_del_done
        split: option.splits if_splits)
next
  case (check_continue name s s' T reject)
  then show ?case
    by (auto simp: starts_inv_def requestStart_check_def Let_def sinv_request intro: sinv_del_done
        split: option.splits if_splits)
next
  case (inspect_fail name reject s err s' T)
  then show ?case
    by (auto simp: starts_inv_def requestStart_inspect_def call_Inspect_def sinv_request
        split: prod.splits sum.splits if_splits)
next
  case (inspect_ok name reject s info s' T)
  then show ?case
    by (auto simp: starts_inv_def requestStart_inspect_def call_Inspect_def sinv_request
        split: prod.splits sum.splits if_splits)
next
  case (register_join name info s i s' T)
  then show ?case
    by (auto simp: starts_inv_def requestStart_register_def register_new_def go_def record_metric_def Let_def
        sinv_request split: option.splits if_splits)
next
  case (register_go name info s i s' p T)
  then have I: "sinv (s_pendingStarts s) (s_psHeap s) T" by (simp add: starts_inv_def sinv_request)
  from register_go.hyps show ?case
    using sinv_new [OF I] sinv_new [OF sinv_del_done [OF I]]
    by (auto simp: starts_inv_def requestStart_register_def register_new_def go_def record_metric_def Let_def
        map_of_del split: option.splits if_splits)
next
  case (finish s s1 name p T err)
  then show ?case
    using sinv_fail [of "s_pendingStarts s" "s_psHeap s" name p T err]
      sinv_success [of "s_pendingStarts s" "s_psHeap s" name p T]
    by (auto simp: starts_inv_def start_result_def record_metric_def Let_def split: option.splits)
next
  case (close s name p T)
  then show ?case by (simp add: starts_inv_def start_close_def sinv_close)
next
  case (consume name s r s' T)
  then show ?case
    by (auto simp: starts_inv_def consumePendingError_def Let_def intro: sinv_del_done
        split: option.splits if_splits)
qed (simp add: starts_inv_def)

lemma reachable_inv: "reachable c \<Longrightarrow> starts_inv c"
proof (induction rule: reachable.induct)
  case (init s)
  then show ?case by (simp add: starts_inv_def sinv_def)
next
  case (step c c')
  then show ?case by (blast intro: start_step_inv)
qed

text \<open>
  C3: in every interleaving of requests and start goroutines, at most one goroutine at a time is
  starting an instance, and while it does, every other request for the instance is answered
  with its cached info and starts nothing. An entry in the table of pending starts that is not
  done always has a goroutine that will close it, so no request waits for a start that nobody
  performs.
\<close>

theorem single_flight:
  assumes "reachable (s, T)"
  shows "size (filter_mset (\<lambda>t. \<exists>p. t = Starting name p) T) \<le> 1 \<and>
    (Starting name p \<in># T \<longrightarrow>
       requestStart name reject s = (Inr (ps_info (s_psHeap s ! p)), s) \<and>
       requestStart_register name info s = (ps_info (s_psHeap s ! p), s)) \<and>
    (map_of (s_pendingStarts s) name = Some q \<longrightarrow>
       ps_done (s_psHeap s ! q) \<or> Starting name q \<in># T \<or> Reported name q \<in># T)"
proof -
  have I: "sinv (s_pendingStarts s) (s_psHeap s) T" using reachable_inv [OF assms] by (simp add: starts_inv_def)
  have "size (filter_mset (\<lambda>t. \<exists>p. t = Starting name p) T) \<le> 1"
  proof (cases "map_of (s_pendingStarts s) name")
    case None
    then have e: "filter_mset (\<lambda>t. \<exists>p. t = Starting name p) T = {#}"
      using sinvD(1) [OF I] by (intro filter_mset_none) auto
    show ?thesis unfolding e by simp
  next
    case (Some p)
    have "size (filter_mset (\<lambda>t. \<exists>p. t = Starting name p) T) \<le> size (filter_mset (\<lambda>t. p \<in> set (pointers t)) T)"
      using sinvD(1) [OF I, of name] Some by (intro size_filter_mset_mono) auto
    with sinvD(3) [OF I, of p] show ?thesis by (rule order.trans [rotated])
  qed
  moreover have "requestStart name reject s = (Inr (ps_info (s_psHeap s ! p)), s) \<and>
       requestStart_register name info s = (ps_info (s_psHeap s ! p), s)" if st: "Starting name p \<in># T"
    using sinvD(1) [OF I st] sinvD(2) [OF I st, of p]
    by (simp add: requestStart_def requestStart_check_def requestStart_register_def)
  ultimately show ?thesis using sinvD(4) [OF I, of name q] by blast
qed

text \<open>The small provider of before, after a request for \<open>web\<close>.\<close>

definition demo_requested :: "(InMemory, list_world) sablier" where
  "demo_requested = snd (requestStart ''web'' False demo_sablier)"

lemma demo_requested_reachable: "reachable (demo_requested, {#Starting ''web'' 0#})"
proof -
  define s1 where "s1 = snd (requestStart_check ''web'' demo_sablier)"
  define s2 where "s2 = snd (requestStart_inspect ''web'' False s1)"
  let ?i = "stopped_instance ''web''\<lparr>i_Status := InstanceStatusStarting\<rparr>"
  have "fst (requestStart_check ''web'' demo_sablier) = None" by code_simp
  then have c: "requestStart_check ''web'' demo_sablier = (None, s1)" by (simp add: prod_eq_iff s1_def)
  have "fst (requestStart_inspect ''web'' False s1) = Inr ?i" unfolding s1_def by code_simp
  then have i: "requestStart_inspect ''web'' False s1 = (Inr ?i, s2)" by (simp add: prod_eq_iff s2_def)
  obtain j s3 where r: "requestStart_register ''web'' ?i s2 = (j, s3)"
    by (cases "requestStart_register ''web'' ?i s2")
  have s3: "s3 = demo_requested" by (simp add: demo_requested_def requestStart_def c i r)
  have e: "s_goroutines s2 = []" unfolding s2_def s1_def by code_simp
  have "s_goroutines demo_requested = [GoStart ''web'' 0]" by code_simp
  with e have g: "s_goroutines s3 = s_goroutines s2 @ [GoStart ''web'' 0]" by (simp add: s3)
  have "reachable (demo_sablier, {#})" by (rule reachable.init) (simp add: demo_sablier_def sablier_New_def)
  from reachable.step [OF this start_step.check_continue [OF c]]
  have "reachable (s1, add_mset (Checked ''web'' False) {#})" .
  from reachable.step [OF this start_step.inspect_ok [OF i]]
  have "reachable (s2, add_mset (Registering ''web'' ?i) {#})" .
  from reachable.step [OF this start_step.register_go [OF r g]] show ?thesis by (simp add: s3)
qed

theorem single_flight_witness:
  "requestStart_register ''web'' zero_InstanceInfo demo_requested =
     (ps_info (s_psHeap demo_requested ! 0), demo_requested)"
  using single_flight [OF demo_requested_reachable, of "''web''" 0] by simp

section \<open>Failed starts\<close>



text \<open>
  With unlabelled requests rejected, an instance that is not labelled \<open>sablier.enable=true\<close>, or
  that cannot be inspected, is never started: the request fails and neither a pending entry nor
  a goroutine nor a metric is created for it.
\<close>

theorem unlabeled_never_started:
  assumes "map_of (s_pendingStarts s) name = None"
    and "\<forall>info. p_Inspect (s_provider s) name (s_world s) = Inr info \<longrightarrow> \<not> IsEnabled info"
  shows "\<exists>err s'. requestStart name True s = (Inl err, s') \<and>
    s_pendingStarts s' = s_pendingStarts s \<and> s_goroutines s' = s_goroutines s \<and>
    s_metrics s' = s_metrics s \<and> s_world s' = s_world s \<and> s_sessions s' = s_sessions s"
  using assms
  by (auto simp: requestStart_def requestStart_check_def requestStart_inspect_def call_Inspect_def
      split: sum.splits)

theorem unlabeled_never_started_witness:
  "\<exists>err s'. requestStart ''ghost'' True demo_sablier = (Inl err, s') \<and>
    s_pendingStarts s' = s_pendingStarts demo_sablier \<and> s_goroutines s' = s_goroutines demo_sablier \<and>
    s_metrics s' = s_metrics demo_sablier \<and> s_world s' = s_world demo_sablier \<and>
    s_sessions s' = s_sessions demo_sablier"
  by (rule unlabeled_never_started)
    (simp_all add: demo_sablier_def sablier_New_def list_provider_def)

end
