(* ===== verification/Requests.thy ===== *)
theory Requests
  imports Starts
begin

text \<open>
  Requests for instances and sessions: \<open>instanceRequest\<close> of \<open>pkg/sablier/instance_request.go\<close>,
  the part of \<open>anti_affinity.go\<close> that it calls, and \<open>session_request.go\<close>.

  A request reads the clock once, at \<open>now\<close>, in the location \<open>loc\<close>. The instances of a session
  are requested one after the other here and concurrently in the code. The lemmas about the
  sessions are proved in the context of \<open>session_store\<close>, for every store that keeps its
  contract.
\<close>

section \<open>Anti-affinity, as the request path sees it\<close>

definition hasAntiAffinity :: "('st, 'w) sablier \<Rightarrow> bool" where
  "hasAntiAffinity s \<longleftrightarrow> reg_Keys (s_antiAffinity s) \<noteq> []"

definition triggerAntiAffinityReconcile :: "('st, 'w) sablier \<Rightarrow> ('st, 'w) sablier" where
  "triggerAntiAffinityReconcile s = (if \<not> hasAntiAffinity s then s else go GoReconcileAntiAffinity s)"

fun member_active :: "time \<Rightarrow> string list \<Rightarrow> ('st, 'w) sablier \<Rightarrow> bool \<times> ('st, 'w) sablier" where
  "member_active now [] s = (False, s)"
| "member_active now (member # ms) s =
     (case sess_Get now member s of
        (Inr info, s1) \<Rightarrow> (True, s1)
      | (Inl err, s1) \<Rightarrow> member_active now ms s1)"

definition isGroupActive :: "time \<Rightarrow> string \<Rightarrow> ('st, 'w) sablier \<Rightarrow> bool \<times> ('st, 'w) sablier" where
  "isGroupActive now grp s =
     (case map_of (Snapshot (s_groups s)) grp of
        None \<Rightarrow> (False, s)
      | Some members \<Rightarrow> member_active now members s)"

fun hold_loop :: "time \<Rightarrow> string list \<Rightarrow> ('st, 'w) sablier \<Rightarrow> string \<times> ('st, 'w) sablier" where
  "hold_loop now [] s = ([], s)"
| "hold_loop now (g # gs) s =
     (case isGroupActive now g s of
        (True, s1) \<Rightarrow> (g, s1)
      | (False, s1) \<Rightarrow> hold_loop now gs s1)"

definition antiAffinityHold :: "time \<Rightarrow> string \<Rightarrow> ('st, 'w) sablier \<Rightarrow> string \<times> ('st, 'w) sablier" where
  "antiAffinityHold now name s = hold_loop now (groupsOf name (s_antiAffinity s)) s"

section \<open>Requesting one instance\<close>

definition effectiveDuration :: "location \<Rightarrow> time \<Rightarrow> InstanceInfo \<Rightarrow> duration \<Rightarrow> duration" where
  "effectiveDuration loc now state duration =
     (if i_RunningHours state \<noteq> [] then
        (case runningHoursRemaining loc (i_RunningHours state) (i_RunningDays state) now of
           Inl err \<Rightarrow> duration
         | Inr (remaining, inWindow) \<Rightarrow>
             if inWindow \<and> remaining > duration then remaining else duration)
      else duration)"

definition held_info :: "string \<Rightarrow> string \<Rightarrow> InstanceInfo" where
  "held_info name grp =
     (bare_info name)\<lparr>i_Status := InstanceStatusNotReady,
        i_Message := ''paused while group '' @ quoted grp @ '' is active (anti-affinity)''\<rparr>"

text \<open>
  The middle of \<open>instanceRequest\<close>: the session is read, started or refreshed. The result carries
  whether the session is new.
\<close>

definition refresh_state :: "time \<Rightarrow> string \<Rightarrow> InstanceInfo \<Rightarrow> ('st, 'w) sablier \<Rightarrow>
    (goerror + InstanceInfo) \<times> ('st, 'w) sablier" where
  "refresh_state now name state s =
     (if i_Status state = InstanceStatusReady then (Inr state, s)
      else case consumePendingError name s of
             ((pending, Some err), s1) \<Rightarrow> (Inl err, s1)
           | ((True, None), s1) \<Rightarrow> (Inr state, s1)
           | ((False, None), s1) \<Rightarrow>
               (case call_Inspect name s1 of
                  (Inl err, s2) \<Rightarrow> (Inl err, s2)
                | (Inr info, s2) \<Rightarrow>
                    if i_Status info = InstanceStatusReady
                    then (Inr (info\<lparr>i_ReadyAt := Some now\<rparr>), record_metric (RecordReadyWaitEnd name) s2)
                    else (Inr info, s2)))"

definition session_state :: "time \<Rightarrow> string \<Rightarrow> bool \<Rightarrow> ('st, 'w) sablier \<Rightarrow>
    (goerror + (InstanceInfo \<times> bool)) \<times> ('st, 'w) sablier" where
  "session_state now name rejectUnlabeled s =
     (case sess_Get now name s of
        (Inl err, s1) \<Rightarrow>
          if errors_Is err ErrKeyNotFound then
            (case requestStart name rejectUnlabeled s1 of
               (Inl e, s2) \<Rightarrow> (Inl e, s2)
             | (Inr state, s2) \<Rightarrow> (Inr (state, True), s2))
          else (Inl (ErrWrap ''cannot retrieve instance from store'' err), s1)
      | (Inr state, s1) \<Rightarrow>
          (case refresh_state now name state s1 of
             (Inl e, s2) \<Rightarrow> (Inl e, s2)
           | (Inr state', s2) \<Rightarrow> (Inr (state', False), s2)))"

definition instanceRequest :: "location \<Rightarrow> time \<Rightarrow> string \<Rightarrow> duration \<Rightarrow> bool \<Rightarrow> ('st, 'w) sablier \<Rightarrow>
    (goerror + InstanceInfo) \<times> ('st, 'w) sablier" where
  "instanceRequest loc now name duration rejectUnlabeled s =
     (if name = [] then (Inl (ErrText ''instance name cannot be empty''), s)
      else case antiAffinityHold now name s of
        (grp, s1) \<Rightarrow>
          if grp \<noteq> [] then (Inr (held_info name grp), s1)
          else case session_state now name rejectUnlabeled s1 of
            (Inl err, s2) \<Rightarrow> (Inl err, s2)
          | (Inr (state, newSession), s2) \<Rightarrow>
              (case sess_Put now state (effectiveDuration loc now state duration) s2 of
                 (Some err, s3) \<Rightarrow> (Inl (ErrWrap ''could not put instance to store'' err), s3)
               | (None, s3) \<Rightarrow>
                   (Inr state, if newSession then triggerAntiAffinityReconcile s3 else s3)))"

definition InstanceRequest :: "location \<Rightarrow> time \<Rightarrow> string \<Rightarrow> duration \<Rightarrow> ('st, 'w) sablier \<Rightarrow>
    (goerror + InstanceInfo) \<times> ('st, 'w) sablier" where
  "InstanceRequest loc now name duration s = instanceRequest loc now name duration False s"

section \<open>Requesting a session\<close>

definition OptionalPrefix :: string where
  "OptionalPrefix = ''optional:''"

fun session_loop :: "location \<Rightarrow> time \<Rightarrow> string list \<Rightarrow> duration \<Rightarrow> bool \<Rightarrow>
    (string, InstanceInfoWithError) gomap \<Rightarrow> ('st, 'w) sablier \<Rightarrow>
    (string, InstanceInfoWithError) gomap \<times> ('st, 'w) sablier" where
  "session_loop loc now [] duration rejectUnlabeled insts s = (insts, s)"
| "session_loop loc now (n # names) duration rejectUnlabeled insts s =
     (case CutPrefix n OptionalPrefix of
        (name, optional) \<Rightarrow>
          (case instanceRequest loc now name duration rejectUnlabeled s of
             (r, s1) \<Rightarrow>
               session_loop loc now names duration rejectUnlabeled
                 (map_put name
                    (case r of
                       Inl err \<Rightarrow> InstanceInfoWithError zero_InstanceInfo (Some err) optional
                     | Inr state \<Rightarrow> InstanceInfoWithError state None optional) insts) s1))"

definition requestSession :: "location \<Rightarrow> time \<Rightarrow> string list \<Rightarrow> duration \<Rightarrow> bool \<Rightarrow> ('st, 'w) sablier \<Rightarrow>
    (goerror + SessionState) \<times> ('st, 'w) sablier" where
  "requestSession loc now names duration rejectUnlabeled s =
     (if names = [] then (Inl (ErrText ''names cannot be empty''), s)
      else case session_loop loc now names duration rejectUnlabeled [] s of
             (insts, s1) \<Rightarrow> (Inr \<lparr>Instances = insts\<rparr>, s1))"

definition RequestSession :: "location \<Rightarrow> time \<Rightarrow> string list \<Rightarrow> duration \<Rightarrow> ('st, 'w) sablier \<Rightarrow>
    (goerror + SessionState) \<times> ('st, 'w) sablier" where
  "RequestSession loc now names duration s = requestSession loc now names duration (s_rejectUnlabeledRequests s) s"

text \<open>The lookup that both group requests begin with.\<close>

definition group_names :: "string \<Rightarrow> ('st, 'w) sablier \<Rightarrow> goerror + string list" where
  "group_names grp s =
     (if grp = [] then Inl (ErrText ''group is mandatory'')
      else case reg_Get (s_groups s) grp of
             (names, False) \<Rightarrow> Inl (ErrGroupNotFound grp (reg_Keys (s_groups s)))
           | (names, True) \<Rightarrow> if names = [] then Inl (ErrText ''group has no member'') else Inr names)"

definition RequestSessionGroup :: "location \<Rightarrow> time \<Rightarrow> string \<Rightarrow> duration \<Rightarrow> ('st, 'w) sablier \<Rightarrow>
    (goerror + SessionState) \<times> ('st, 'w) sablier" where
  "RequestSessionGroup loc now grp duration s =
     (case group_names grp s of
        Inl err \<Rightarrow> (Inl err, s)
      | Inr names \<Rightarrow> requestSession loc now names duration False s)"

section \<open>Waiting for a session\<close>

definition blockingFirstRecheck :: duration where
  "blockingFirstRecheck = 100 * Millisecond"

text \<open>
  What the blocking request waits for, in the order in which it happens: the timer or the
  completion of the starts in progress wakes it up for a new check, at a time and after the
  rest of the system has made some progress; or the caller cancels, or the timeout fires.
\<close>

datatype ('st, 'w) wake =
    TimerFired time "('st, 'w) sablier \<Rightarrow> ('st, 'w) sablier"
  | StartsCompleted time "('st, 'w) sablier \<Rightarrow> ('st, 'w) sablier"
  | CtxDone
  | TimeoutFired time

record ('st, 'w) waiting =
  w_delay :: duration
  w_maxDelay :: duration
  w_started :: "nat list option"
  w_last :: SessionState
  w_timers :: "duration list"

datatype wait_result =
    Waiting
  | Returned "goerror + SessionState"

text \<open>One check of the polling goroutine; \<open>Waiting\<close> resets the timer.\<close>

definition poll_step :: "location \<Rightarrow> time \<Rightarrow> string list \<Rightarrow> duration \<Rightarrow> bool \<Rightarrow> ('st, 'w) waiting \<Rightarrow>
    ('st, 'w) sablier \<Rightarrow> wait_result \<times> ('st, 'w) waiting \<times> ('st, 'w) sablier" where
  "poll_step loc now names duration rejectUnlabeled w s =
     (case requestSession loc now names duration rejectUnlabeled s of
        (Inl err, s1) \<Rightarrow> (Returned (Inl err), w, s1)
      | (Inr session, s1) \<Rightarrow>
          if SessionState_IsReady now session then (Returned (Inr session), w, s1)
          else case InstanceErrors session of
                 Some err \<Rightarrow> (Returned (Inl err), w, s1)
               | None \<Rightarrow> (Waiting, w\<lparr>w_last := session, w_timers := w_timers w @ [w_delay w]\<rparr>, s1))"

fun wait_loop :: "location \<Rightarrow> string list \<Rightarrow> duration \<Rightarrow> duration \<Rightarrow> bool \<Rightarrow> ('st, 'w) wake list \<Rightarrow>
    ('st, 'w) waiting \<Rightarrow> ('st, 'w) sablier \<Rightarrow> wait_result \<times> ('st, 'w) waiting \<times> ('st, 'w) sablier" where
  "wait_loop loc names duration timeout reject [] w s = (Waiting, w, s)"
| "wait_loop loc names duration timeout reject (CtxDone # es) w s =
     (Returned (Inl (ErrWrap ''request cancelled by user'' ctx_Err)), w, s)"
| "wait_loop loc names duration timeout reject (TimeoutFired now # es) w s =
     (Returned (Inl (ErrTimeout timeout (NotReadyInstances now (w_last w)))), w, s)"
| "wait_loop loc names duration timeout reject (TimerFired now env # es) w s =
     (case poll_step loc now names duration reject (w\<lparr>w_delay := min (w_delay w * 2) (w_maxDelay w)\<rparr>) (env s) of
        (Returned r, w1, s1) \<Rightarrow> (Returned r, w1, s1)
      | (Waiting, w1, s1) \<Rightarrow> wait_loop loc names duration timeout reject es w1 s1)"
| "wait_loop loc names duration timeout reject (StartsCompleted now env # es) w s =
     (case w_started w of
        None \<Rightarrow> wait_loop loc names duration timeout reject es w (env s)
      | Some pending \<Rightarrow>
          if \<not> startsDone_closed pending (env s) then wait_loop loc names duration timeout reject es w (env s)
          else case poll_step loc now names duration reject (w\<lparr>w_started := None\<rparr>) (env s) of
                 (Returned r, w1, s1) \<Rightarrow> (Returned r, w1, s1)
               | (Waiting, w1, s1) \<Rightarrow> wait_loop loc names duration timeout reject es w1 s1)"

definition requestReadySession :: "location \<Rightarrow> time \<Rightarrow> string list \<Rightarrow> duration \<Rightarrow> duration \<Rightarrow> bool \<Rightarrow>
    ('st, 'w) wake list \<Rightarrow> ('st, 'w) sablier \<Rightarrow> wait_result \<times> duration list \<times> ('st, 'w) sablier" where
  "requestReadySession loc now names duration timeout rejectUnlabeled events s =
     (case requestSession loc now names duration rejectUnlabeled s of
        (Inl err, s1) \<Rightarrow> (Returned (Inl err), [], s1)
      | (Inr session, s1) \<Rightarrow>
          if SessionState_IsReady now session then (Returned (Inr session), [], s1)
          else case InstanceErrors session of
                 Some err \<Rightarrow> (Returned (Inl err), [], s1)
               | None \<Rightarrow>
                   (let maxDelay = (if s_BlockingRefreshFrequency s1 \<le> 0 then blockingFirstRecheck
                                    else s_BlockingRefreshFrequency s1);
                        delay = min blockingFirstRecheck maxDelay;
                        w = \<lparr>w_delay = delay, w_maxDelay = maxDelay, w_started = startsDone names s1,
                             w_last = session, w_timers = [delay]\<rparr>
                    in case wait_loop loc names duration timeout rejectUnlabeled events w s1 of
                         (r, w', s') \<Rightarrow> (r, w_timers w', s')))"

definition RequestReadySession :: "location \<Rightarrow> time \<Rightarrow> string list \<Rightarrow> duration \<Rightarrow> duration \<Rightarrow>
    ('st, 'w) wake list \<Rightarrow> ('st, 'w) sablier \<Rightarrow> wait_result \<times> duration list \<times> ('st, 'w) sablier" where
  "RequestReadySession loc now names duration timeout events s =
     requestReadySession loc now names duration timeout (s_rejectUnlabeledRequests s) events s"

definition RequestReadySessionGroup :: "location \<Rightarrow> time \<Rightarrow> string \<Rightarrow> duration \<Rightarrow> duration \<Rightarrow>
    ('st, 'w) wake list \<Rightarrow> ('st, 'w) sablier \<Rightarrow> wait_result \<times> duration list \<times> ('st, 'w) sablier" where
  "RequestReadySessionGroup loc now grp duration timeout events s =
     (case group_names grp s of
        Inl err \<Rightarrow> (Returned (Inl err), [], s)
      | Inr names \<Rightarrow> requestReadySession loc now names duration timeout False events s)"

section \<open>Reading sessions is invisible\<close>

text \<open>Only the store's own state changed, and not what it shows from \<open>now\<close> on.\<close>

definition quiet :: "(time \<Rightarrow> 'st \<Rightarrow> string \<Rightarrow> (InstanceInfo \<times> time) option) \<Rightarrow> ('st \<Rightarrow> bool) \<Rightarrow> time \<Rightarrow>
    ('st, 'w) sablier \<Rightarrow> ('st, 'w) sablier \<Rightarrow> bool" where
  "quiet view invar now s s' \<longleftrightarrow>
     (\<exists>st. s' = s\<lparr>s_sessions := st\<rparr> \<and> invar st \<and> (\<forall>t'\<ge>now. view t' st = view t' (s_sessions s)))"

lemma quiet_fields:
  assumes "quiet view invar now s s'"
  shows "s_store s' = s_store s" "s_groups s' = s_groups s" "s_antiAffinity s' = s_antiAffinity s"
    "s_pendingStarts s' = s_pendingStarts s" "s_psHeap s' = s_psHeap s" "s_world s' = s_world s"
    "s_goroutines s' = s_goroutines s" "s_trace s' = s_trace s" "s_metrics s' = s_metrics s"
    "s_suppressed s' = s_suppressed s" "s_provider s' = s_provider s" "invar (s_sessions s')"
  using assms by (auto simp: quiet_def)

lemma quiet_view: "quiet view invar now s s' \<Longrightarrow> now \<le> t \<Longrightarrow> view t (s_sessions s') = view t (s_sessions s)"
  by (auto simp: quiet_def)

lemma quiet_trans: "quiet view invar now s s1 \<Longrightarrow> quiet view invar now s1 s2 \<Longrightarrow> quiet view invar now s s2"
  by (auto simp: quiet_def)

lemma quiet_refl: "invar (s_sessions s) \<Longrightarrow> quiet view invar now s s"
  unfolding quiet_def by (intro exI [of _ "s_sessions s"]) simp

text \<open>A group with a live session, and an instance that such a group forces to be idle.\<close>

definition group_live :: "(time \<Rightarrow> 'st \<Rightarrow> string \<Rightarrow> (InstanceInfo \<times> time) option) \<Rightarrow> time \<Rightarrow> ('st, 'w) sablier \<Rightarrow> string \<Rightarrow> bool" where
  "group_live view now s g \<longleftrightarrow> (\<exists>m. member_of (s_groups s) m g \<and> view now (s_sessions s) m \<noteq> None)"

definition held :: "(time \<Rightarrow> 'st \<Rightarrow> string \<Rightarrow> (InstanceInfo \<times> time) option) \<Rightarrow> time \<Rightarrow> ('st, 'w) sablier \<Rightarrow> string \<Rightarrow> bool" where
  "held view now s n \<longleftrightarrow> (\<exists>g. member_of (s_antiAffinity s) n g \<and> group_live view now s g)"

text \<open>What the request path needs of the state: the store's invariant and well-formed registries.\<close>

definition sab_ok :: "'st store_ops \<Rightarrow> ('st \<Rightarrow> bool) \<Rightarrow> ('st, 'w) sablier \<Rightarrow> bool" where
  "sab_ok ops invar s \<longleftrightarrow> s_store s = ops \<and> invar (s_sessions s) \<and> wf_map (s_groups s) \<and> wf_map (s_antiAffinity s) \<and>
     (\<forall>n. \<not> member_of (s_antiAffinity s) n [])"

text \<open>Steps that leave the sessions and the registries alone.\<close>

definition same_core :: "('st, 'w) sablier \<Rightarrow> ('st, 'w) sablier \<Rightarrow> bool" where
  "same_core s s' \<longleftrightarrow> s_store s' = s_store s \<and> s_sessions s' = s_sessions s \<and> s_groups s' = s_groups s \<and>
     s_antiAffinity s' = s_antiAffinity s \<and> s_suppressed s' = s_suppressed s"

lemma same_core_trans: "same_core s s1 \<Longrightarrow> same_core s1 s2 \<Longrightarrow> same_core s s2"
  by (simp add: same_core_def)

lemma same_core_inspect: "call_Inspect n s = (r, s') \<Longrightarrow> same_core s s'"
  by (auto simp: call_Inspect_def same_core_def split: sum.splits)

lemma same_core_consume: "consumePendingError n s = (r, s') \<Longrightarrow> same_core s s'"
  by (auto simp: consumePendingError_def same_core_def Let_def split: option.splits if_splits)

lemma same_core_requestStart: "requestStart n rj s = (r, s') \<Longrightarrow> same_core s s'"
  by (auto simp: requestStart_def requestStart_check_def requestStart_inspect_def requestStart_register_def
      register_new_def go_def record_metric_def call_Inspect_def same_core_def Let_def
      split: prod.splits option.splits sum.splits if_splits)

lemma same_core_refresh: "refresh_state now n st s = (r, s') \<Longrightarrow> same_core s s'"
  by (auto simp: refresh_state_def consumePendingError_def call_Inspect_def record_metric_def same_core_def Let_def
      split: prod.splits option.splits sum.splits if_splits bool.splits)

lemma same_core_trigger: "same_core s (triggerAntiAffinityReconcile s)"
  by (simp add: triggerAntiAffinityReconcile_def go_def same_core_def)

context session_store
begin

lemma sess_Get_quiet:
  "s_store s = ops \<Longrightarrow> invar (s_sessions s) \<Longrightarrow> sess_Get now k s = (r, s') \<Longrightarrow>
   quiet view invar now s s' \<and>
   r = (case view now (s_sessions s) k of None \<Rightarrow> Inl ErrKeyNotFound | Some (i, at) \<Rightarrow> Inr i)"
  using get_result [of "s_sessions s" now k] get_keeps [of "s_sessions s" now k]
    get_view [of "s_sessions s" now _ k]
  by (auto simp: sess_Get_def quiet_def split: prod.splits)

lemma member_active_quiet:
  "s_store s = ops \<Longrightarrow> invar (s_sessions s) \<Longrightarrow> member_active now ms s = (b, s') \<Longrightarrow>
   quiet view invar now s s' \<and> (b \<longleftrightarrow> (\<exists>m\<in>set ms. view now (s_sessions s) m \<noteq> None))"
proof (induction ms arbitrary: s)
  case Nil
  then show ?case by (simp add: quiet_refl)
next
  case (Cons m ms)
  obtain r s1 where g: "sess_Get now m s = (r, s1)" by (cases "sess_Get now m s")
  note G = sess_Get_quiet [OF Cons.prems(1,2) g]
  show ?case
  proof (cases r)
    case (Inr i)
    with G Cons.prems g show ?thesis by (auto split: option.splits)
  next
    case (Inl e)
    with G have m: "view now (s_sessions s) m = None" by (auto split: option.splits)
    from Inl Cons.prems g have "member_active now ms s1 = (b, s')" by simp
    from Cons.IH [OF _ _ this] G quiet_fields(1,12) [of view invar now s s1] Cons.prems(1)
    have "quiet view invar now s1 s'" "b \<longleftrightarrow> (\<exists>m\<in>set ms. view now (s_sessions s1) m \<noteq> None)" by auto
    with G m quiet_view [of view invar now s s1 now] show ?thesis by (auto intro: quiet_trans)
  qed
qed

lemma isGroupActive_quiet:
  assumes "s_store s = ops" "invar (s_sessions s)" "wf_map (s_groups s)" "isGroupActive now g s = (b, s')"
  shows "quiet view invar now s s' \<and> (b \<longleftrightarrow> group_live view now s g)"
proof (cases "map_of (s_groups s) g")
  case None
  with assms Snapshot_map_of [OF assms(3)] show ?thesis
    by (auto simp: isGroupActive_def group_live_def member_of_def map_list_def quiet_refl)
next
  case (Some ms)
  with assms(4) Snapshot_map_of [OF assms(3)] have "member_active now ms s = (b, s')"
    by (simp add: isGroupActive_def)
  from member_active_quiet [OF assms(1,2) this] Some show ?thesis
    by (auto simp: group_live_def member_of_def map_list_def)
qed

lemma group_live_quiet: "quiet view invar now s s' \<Longrightarrow> group_live view now s' g \<longleftrightarrow> group_live view now s g"
  using quiet_view [of view invar now s s' now] quiet_fields(2) [of view invar now s s']
  by (simp add: group_live_def)

lemma hold_loop_quiet:
  "s_store s = ops \<Longrightarrow> invar (s_sessions s) \<Longrightarrow> wf_map (s_groups s) \<Longrightarrow> hold_loop now gs s = (g, s') \<Longrightarrow>
   [] \<notin> set gs \<Longrightarrow>
   quiet view invar now s s' \<and> (g \<noteq> [] \<longleftrightarrow> (\<exists>h\<in>set gs. group_live view now s h)) \<and>
   (g \<noteq> [] \<longrightarrow> g \<in> set gs \<and> group_live view now s g)"
proof (induction gs arbitrary: s)
  case Nil
  then show ?case by (simp add: quiet_refl)
next
  case (Cons h gs)
  obtain b s1 where a: "isGroupActive now h s = (b, s1)" by (cases "isGroupActive now h s")
  note A = isGroupActive_quiet [OF Cons.prems(1-3) a]
  show ?case
  proof (cases b)
    case True
    with A Cons.prems a show ?thesis by auto
  next
    case False
    with Cons.prems a have "hold_loop now gs s1 = (g, s')" by simp
    with Cons.IH [of s1] Cons.prems A quiet_fields [of view invar now s s1]
    have "quiet view invar now s1 s'" "g \<noteq> [] \<longleftrightarrow> (\<exists>h\<in>set gs. group_live view now s1 h)"
      "g \<noteq> [] \<longrightarrow> g \<in> set gs \<and> group_live view now s1 g" by auto
    with A False group_live_quiet [of now s s1] show ?thesis by (auto intro: quiet_trans)
  qed
qed

lemma sab_ok_quiet: "sab_ok ops invar s \<Longrightarrow> quiet view invar now s s' \<Longrightarrow> sab_ok ops invar s'"
  using quiet_fields [of view invar now s s'] by (simp add: sab_ok_def)

lemma antiAffinityHold_quiet:
  assumes "sab_ok ops invar s" "antiAffinityHold now name s = (g, s')"
  shows "quiet view invar now s s' \<and> (g \<noteq> [] \<longleftrightarrow> held view now s name) \<and>
    (g \<noteq> [] \<longrightarrow> member_of (s_antiAffinity s) name g \<and> group_live view now s g)"
proof -
  have G: "set (groupsOf name (s_antiAffinity s)) = {g. member_of (s_antiAffinity s) name g}"
    using assms(1) set_groupsOf by (auto simp: sab_ok_def)
  with hold_loop_quiet [of s now "groupsOf name (s_antiAffinity s)" g s'] assms show ?thesis
    by (auto simp: sab_ok_def antiAffinityHold_def held_def)
qed

lemma sess_Put_view:
  assumes "s_store s = ops" "invar (s_sessions s)" "sess_Put now i d s = (e, s')"
  shows "e = None \<and> (\<exists>st. s' = s\<lparr>s_sessions := st\<rparr> \<and> invar st \<and>
    (\<forall>t'. view t' st = (view t' (s_sessions s))(i_Name i := if t' \<le> now + d then Some (i, now + d) else None)))"
  using assms put_result [of "s_sessions s" now i d] put_keeps [of "s_sessions s" now i d]
    put_view [of "s_sessions s" _ now i d]
  by (auto simp: sess_Put_def split: prod.splits)

lemma sess_Delete_view:
  assumes "s_store s = ops" "invar (s_sessions s)" "sess_Delete now k s = (e, s')"
  shows "e = None \<and> (\<exists>st. s' = s\<lparr>s_sessions := st\<rparr> \<and> invar st \<and>
    (\<forall>t'. view t' st = (view t' (s_sessions s))(k := None)))"
  using assms delete_result [of "s_sessions s" now k] delete_keeps [of "s_sessions s" now k]
    delete_view [of "s_sessions s" _ now k]
  by (auto simp: sess_Delete_def split: prod.splits)

lemma session_state_view:
  assumes ok: "sab_ok ops invar s" and ss: "session_state now name rj s = (r, s')"
  shows "sab_ok ops invar s' \<and> (\<forall>t'\<ge>now. view t' (s_sessions s') = view t' (s_sessions s)) \<and>
    s_groups s' = s_groups s \<and> s_antiAffinity s' = s_antiAffinity s \<and>
    (\<forall>st b. r = Inr (st, b) \<longrightarrow> (b \<longleftrightarrow> view now (s_sessions s) name = None))"
proof -
  obtain g s1 where g: "sess_Get now name s = (g, s1)" by (cases "sess_Get now name s")
  have G: "quiet view invar now s s1"
    "g = (case view now (s_sessions s) name of None \<Rightarrow> Inl ErrKeyNotFound | Some (i, at) \<Rightarrow> Inr i)"
    using sess_Get_quiet [OF _ _ g] ok by (auto simp: sab_ok_def)
  have ok1: "sab_ok ops invar s1" using ok G(1) by (rule sab_ok_quiet)
  have core: "same_core s1 s'" and b: "\<forall>st b. r = Inr (st, b) \<longrightarrow> (b \<longleftrightarrow> view now (s_sessions s) name = None)"
    using ss g G(2) same_core_requestStart [of name rj s1] same_core_refresh [of now name _ s1]
    by (auto simp: session_state_def split: option.splits prod.splits sum.splits)
  from core ok1 have "sab_ok ops invar s'" by (simp add: sab_ok_def same_core_def)
  with core b G(1) quiet_fields(2,3) [OF G(1)] quiet_view [OF G(1)] show ?thesis
    by (auto simp: same_core_def)
qed

lemma instanceRequest_view:
  assumes ok: "sab_ok ops invar s" and name: "name \<noteq> []"
    and ir: "instanceRequest loc now name d rj s = (r, s')"
  shows "sab_ok ops invar s' \<and>
    (if held view now s name then
       quiet view invar now s s' \<and>
       (\<exists>g. r = Inr (held_info name g) \<and> member_of (s_antiAffinity s) name g \<and> group_live view now s g)
     else
       (\<forall>err. r = Inl err \<longrightarrow> (\<forall>t'\<ge>now. view t' (s_sessions s') = view t' (s_sessions s))) \<and>
       (\<forall>state. r = Inr state \<longrightarrow> (\<forall>t'\<ge>now. view t' (s_sessions s') =
          (view t' (s_sessions s))(i_Name state :=
             let eff = effectiveDuration loc now state d
             in if t' \<le> now + eff then Some (state, now + eff) else None))))"
proof -
  obtain g s1 where h: "antiAffinityHold now name s = (g, s1)" by (cases "antiAffinityHold now name s")
  note H = antiAffinityHold_quiet [OF ok h]
  have ok1: "sab_ok ops invar s1" using ok H by (blast intro: sab_ok_quiet)
  show ?thesis
  proof (cases "g = []")
    case False
    with H h ir name ok1 show ?thesis by (auto simp: instanceRequest_def)
  next
    case True
    obtain q s2 where ss: "session_state now name rj s1 = (q, s2)" by (cases "session_state now name rj s1")
    note S = session_state_view [OF ok1 ss]
    have V: "\<forall>t'\<ge>now. view t' (s_sessions s2) = view t' (s_sessions s)"
      using S H quiet_view [of view invar now s s1] by simp
    show ?thesis
    proof (cases q)
      case (Inl e)
      with ir h True ss name S V H show ?thesis by (auto simp: instanceRequest_def)
    next
      case (Inr p)
      obtain state b where p: "p = (state, b)" by (cases p)
      obtain e s3 where put: "sess_Put now state (effectiveDuration loc now state d) s2 = (e, s3)"
        by (cases "sess_Put now state (effectiveDuration loc now state d) s2")
      have P: "e = None" "\<exists>st. s3 = s2\<lparr>s_sessions := st\<rparr> \<and> invar st \<and>
          (\<forall>t'. view t' st = (view t' (s_sessions s2))(i_Name state :=
             if t' \<le> now + effectiveDuration loc now state d
             then Some (state, now + effectiveDuration loc now state d) else None))"
        using sess_Put_view [OF _ _ put] S by (auto simp: sab_ok_def)
      have s': "s' = s3 \<or> s' = triggerAntiAffinityReconcile s3" and r: "r = Inr state"
        using ir h True ss name Inr p put P(1) by (auto simp: instanceRequest_def split: if_splits)
      then have "same_core s3 s'" using same_core_trigger by (auto simp: same_core_def)
      with P(2) S V H True r show ?thesis by (auto simp: same_core_def sab_ok_def Let_def)
    qed
  qed
qed

end

section \<open>Properties of one request\<close>

text \<open>
  C5: what a request for one instance does to the sessions, for every store that keeps its
  contract. While an antagonist group of the instance has a live session, the request changes
  nothing and reports the instance as not ready, naming such a group. Otherwise a failed
  request leaves every session as it was; a successful one records the returned state for the
  requested duration, extended to the end of an active keep-warm window, and leaves all
  other sessions alone.
\<close>

theorem instance_request_sessions:
  assumes "session_store ops view invar" "sab_ok ops invar s" "name \<noteq> []"
    and "instanceRequest loc now name d rj s = (r, s')"
  shows "sab_ok ops invar s' \<and>
    (if held view now s name then
       quiet view invar now s s' \<and>
       (\<exists>g. r = Inr (held_info name g) \<and> member_of (s_antiAffinity s) name g \<and> group_live view now s g)
     else
       (\<forall>err. r = Inl err \<longrightarrow> (\<forall>t'\<ge>now. view t' (s_sessions s') = view t' (s_sessions s))) \<and>
       (\<forall>state. r = Inr state \<longrightarrow> (\<forall>t'\<ge>now. view t' (s_sessions s') =
          (view t' (s_sessions s))(i_Name state :=
             let eff = effectiveDuration loc now state d
             in if t' \<le> now + eff then Some (state, now + eff) else None))))"
  using session_store.instanceRequest_view [OF assms] .

lemma demo_ok: "sab_ok inmemory_ops kv_inv demo_sablier"
  by (simp add: sab_ok_def demo_sablier_def sablier_New_def NewInMemory_inv newGroupRegistry_def member_of_def)

theorem instance_request_sessions_witness:
  "sab_ok inmemory_ops kv_inv (snd (instanceRequest (fixed_zone 0) 0 ''web'' Minute False demo_sablier))"
  using instance_request_sessions [OF mem.session_store_axioms demo_ok, of "''web''" "fixed_zone 0" 0 Minute False
      "fst (instanceRequest (fixed_zone 0) 0 ''web'' Minute False demo_sablier)"
      "snd (instanceRequest (fixed_zone 0) 0 ''web'' Minute False demo_sablier)"]
  by simp

lemma effectiveDuration_bounds:
  "d \<le> effectiveDuration loc now state d \<and>
   (runningHoursRemaining loc (i_RunningHours state) (i_RunningDays state) now = Inr (remaining, True) \<longrightarrow>
    i_RunningHours state \<noteq> [] \<longrightarrow>
      effectiveDuration loc now state d = max d remaining)"
  by (auto simp: effectiveDuration_def split: sum.splits)

text \<open>
  A request never shortens what the caller asked for: the expiry is the requested duration, or
  the end of the keep-warm window when that is later. In a zone with a fixed offset, an
  instance whose window is active is thereby kept at least until the window's end minute.
\<close>

theorem keep_warm_extends:
  assumes "i_RunningHours state \<noteq> []"
    "runningHoursRemaining (fixed_zone off) (i_RunningHours state) (i_RunningDays state) now = Inr (remaining, True)"
  shows "d \<le> effectiveDuration (fixed_zone off) now state d \<and>
    effectiveDuration (fixed_zone off) now state d = max d remaining \<and>
    (\<exists>rh. ParseRunningHours (i_RunningHours state) = Inr rh \<and>
       minute_of_day (fixed_zone off) (now + remaining) = endMinute rh \<and>
       now + remaining \<le> now + effectiveDuration (fixed_zone off) now state d)"
proof -
  from assms(2) obtain rh where rh: "ParseRunningHours (i_RunningHours state) = Inr rh"
    by (auto simp: runningHoursRemaining_def split: sum.splits)
  obtain s e i where w: "WindowAt (fixed_zone off) rh now = (s, e, i)" by (cases "WindowAt (fixed_zone off) rh now")
  from assms(2) rh w have i: i and rem: "remaining = max (e - now) 0"
    by (auto simp: runningHoursRemaining_def split: sum.splits if_splits)
  note win = WindowAt_window [OF ParseRunningHours_bounds [OF rh] w i]
  then have "now + remaining = e" using rem by simp
  with win rh effectiveDuration_bounds [of d "fixed_zone off" now state remaining] assms show ?thesis by auto
qed

theorem keep_warm_extends_witness:
  "effectiveDuration (fixed_zone 0) (10 * Hour) (zero_InstanceInfo\<lparr>i_RunningHours := ''09:00-18:00''\<rparr>) Minute = 8 * Hour"
proof -
  have "runningHoursRemaining (fixed_zone 0) ''09:00-18:00'' [] (10 * Hour) = Inr (8 * Hour, True)" by code_simp
  then have "runningHoursRemaining (fixed_zone 0) (i_RunningHours (zero_InstanceInfo\<lparr>i_RunningHours := ''09:00-18:00''\<rparr>))
      (i_RunningDays (zero_InstanceInfo\<lparr>i_RunningHours := ''09:00-18:00''\<rparr>)) (10 * Hour) = Inr (8 * Hour, True)"
    by (simp add: zero_InstanceInfo_def)
  from keep_warm_extends [OF _ this, of Minute] show ?thesis by simp
qed

end
