(* ===== verification/Anti_Affinity.thy ===== *)
theory Anti_Affinity
  imports Requests
begin

text \<open>
  Anti-affinity, \<open>pkg/sablier/anti_affinity.go\<close>: the index of antagonist groups, the
  reconciliation that forces instances idle while an antagonist group is active, and the
  restoration of the instances it suppressed.

  A reconciliation holds \<open>affinityMu\<close> throughout and is one step here. The order in which it
  visits the instances is the iteration order of a Go map: the parameter \<open>order\<close>, an arbitrary
  permutation.
\<close>

section \<open>The index\<close>

definition SyncInstanceAntiAffinity :: "string \<Rightarrow> string list \<Rightarrow> ('st, 'w) sablier \<Rightarrow>
    (string list \<times> string list) \<times> ('st, 'w) sablier" where
  "SyncInstanceAntiAffinity inst gs s =
     (case reg_Sync inst gs (s_antiAffinity s) of
        (d, added, removed) \<Rightarrow> ((added, removed), s\<lparr>s_antiAffinity := d\<rparr>))"

definition RemoveInstanceAntiAffinity :: "string \<Rightarrow> ('st, 'w) sablier \<Rightarrow> string list \<times> ('st, 'w) sablier" where
  "RemoveInstanceAntiAffinity inst s =
     (case reg_Remove inst (s_antiAffinity s) of (d, gs) \<Rightarrow> (gs, s\<lparr>s_antiAffinity := d\<rparr>))"

fun registry_loop :: "InstanceConfiguration list \<Rightarrow> ('st, 'w) sablier \<Rightarrow> ('st, 'w) sablier" where
  "registry_loop [] s = s"
| "registry_loop (inst # insts) s =
     (case call_Inspect (c_Name inst) s of
        (Inl inspectErr, s1) \<Rightarrow> registry_loop insts s1
      | (Inr info, s1) \<Rightarrow>
          registry_loop insts (snd (SyncInstanceAntiAffinity (c_Name inst) (i_AntiAffinity info) s1)))"

definition drop_absent :: "string list \<Rightarrow> ('st, 'w) sablier \<Rightarrow> ('st, 'w) sablier" where
  "drop_absent present s =
     fold (\<lambda>inst s. if inst \<notin> set present then snd (RemoveInstanceAntiAffinity inst s) else s)
       (map_keys (InstanceSnapshot (s_antiAffinity s))) s"

definition reconcileAntiAffinityRegistry :: "('st, 'w) sablier \<Rightarrow> ('st, 'w) sablier" where
  "reconcileAntiAffinityRegistry s =
     (case p_List (s_provider s) True (s_world s) of
        Inl err \<Rightarrow> s
      | Inr instances \<Rightarrow> drop_absent (map c_Name instances) (registry_loop instances s))"

section \<open>Suppressing and restoring\<close>

definition suppressForAntiAffinity :: "time \<Rightarrow> string \<Rightarrow> ('st, 'w) sablier \<Rightarrow> ('st, 'w) sablier" where
  "suppressForAntiAffinity now inst s =
     (case sess_Get now inst s of
        (Inl err, s1) \<Rightarrow> s1
      | (Inr info, s1) \<Rightarrow>
          (case call_Stop inst s1 of
             (Some err, s2) \<Rightarrow> s2
           | (None, s2) \<Rightarrow>
               (let s3 = snd (sess_Delete now inst s2)
                in record_metric (RecordInstanceStop inst ''anti-affinity'')
                     (s3\<lparr>s_suppressed := map_put inst () (s_suppressed s3)\<rparr>))))"

definition restoreFromAntiAffinity :: "location \<Rightarrow> time \<Rightarrow> string \<Rightarrow> ('st, 'w) sablier \<Rightarrow> ('st, 'w) sablier" where
  "restoreFromAntiAffinity loc now inst s =
     (case instanceRequest loc now inst (s_DefaultSessionDuration s) False s of
        (Inl err, s1) \<Rightarrow> s1
      | (Inr info, s1) \<Rightarrow> s1\<lparr>s_suppressed := map_del inst (s_suppressed s1)\<rparr>)"

fun active_loop :: "time \<Rightarrow> string list \<Rightarrow> (string, bool) gomap \<Rightarrow> ('st, 'w) sablier \<Rightarrow>
    (string, bool) gomap \<times> ('st, 'w) sablier" where
  "active_loop now [] act s = (act, s)"
| "active_loop now (g # gs) act s =
     (case isGroupActive now g s of (b, s1) \<Rightarrow> active_loop now gs (map_put g b act) s1)"

definition desire :: "bool \<Rightarrow> string \<Rightarrow> (string, bool) gomap \<Rightarrow> (string, bool) gomap" where
  "desire active d m =
     (if active then map_put d True m
      else if map_of m d = None then map_put d False m else m)"

definition desiredSuppress :: "(string, bool) gomap \<Rightarrow> registry \<Rightarrow> (string, bool) gomap" where
  "desiredSuppress act registry =
     fold (\<lambda>(grp, dependents) m. fold (desire (set_has act grp)) dependents m) registry []"

definition reconcile_instance :: "location \<Rightarrow> time \<Rightarrow> string \<times> bool \<Rightarrow> ('st, 'w) sablier \<Rightarrow> ('st, 'w) sablier" where
  "reconcile_instance loc now d s =
     (case d of (inst, suppress) \<Rightarrow>
        (let alreadySuppressed = map_of (s_suppressed s) inst \<noteq> None
         in if suppress \<and> \<not> alreadySuppressed then suppressForAntiAffinity now inst s
            else if \<not> suppress \<and> alreadySuppressed then restoreFromAntiAffinity loc now inst s
            else s))"

type_synonym range_order = "(string, bool) gomap \<Rightarrow> (string, bool) gomap"

definition reconcileAntiAffinity :: "location \<Rightarrow> time \<Rightarrow> range_order \<Rightarrow> ('st, 'w) sablier \<Rightarrow> ('st, 'w) sablier" where
  "reconcileAntiAffinity loc now order s =
     (let registry = Snapshot (s_antiAffinity s)
      in if registry = [] then s
         else case active_loop now (map_keys registry) [] s of
                (act, s1) \<Rightarrow> fold (reconcile_instance loc now) (order (desiredSuppress act registry)) s1)"

definition SeedAntiAffinity :: "location \<Rightarrow> time \<Rightarrow> range_order \<Rightarrow> ('st, 'w) sablier \<Rightarrow> ('st, 'w) sablier" where
  "SeedAntiAffinity loc now order s = reconcileAntiAffinity loc now order (reconcileAntiAffinityRegistry s)"

definition handleAntiAffinityEvent :: "location \<Rightarrow> time \<Rightarrow> range_order \<Rightarrow> InstanceEvent \<Rightarrow> ('st, 'w) sablier \<Rightarrow> ('st, 'w) sablier" where
  "handleAntiAffinityEvent loc now order event s =
     (let name = i_Name (ev_Info event);
          enforce = (\<lambda>added removed s. if added \<noteq> [] \<or> removed \<noteq> [] then reconcileAntiAffinity loc now order s else s)
      in if name = [] then s
         else if ev_Type event \<in> {InstanceEventCreated, InstanceEventUpdated} then
           (case SyncInstanceAntiAffinity name (i_AntiAffinity (ev_Info event)) s of
              ((added, removed), s1) \<Rightarrow> enforce added removed s1)
         else if ev_Type event = InstanceEventRemoved then
           (case RemoveInstanceAntiAffinity name s of
              (removed, s1) \<Rightarrow> enforce [] removed (s1\<lparr>s_suppressed := map_del name (s_suppressed s1)\<rparr>))
         else s)"

section \<open>Names\<close>

text \<open>
  The provider answers for the instance it was asked for, and a pending start carries the name
  it is registered under; then so does every session.
\<close>

definition named_starts :: "('st, 'w) sablier \<Rightarrow> bool" where
  "named_starts s \<longleftrightarrow> (\<forall>n w i. p_Inspect (s_provider s) n w = Inr i \<longrightarrow> i_Name i = n) \<and>
     (\<forall>n p. map_of (s_pendingStarts s) n = Some p \<longrightarrow>
        p < length (s_psHeap s) \<and> i_Name (ps_info (s_psHeap s ! p)) = n)"

definition named_sessions :: "(time \<Rightarrow> 'st \<Rightarrow> string \<Rightarrow> (InstanceInfo \<times> time) option) \<Rightarrow> time \<Rightarrow> ('st, 'w) sablier \<Rightarrow> bool" where
  "named_sessions view now s \<longleftrightarrow> (\<forall>t k i at. now \<le> t \<longrightarrow> view t (s_sessions s) k = Some (i, at) \<longrightarrow> i_Name i = k)"

text \<open>The goroutines that a step starts.\<close>

definition spawns :: "goroutine set \<Rightarrow> ('st, 'w) sablier \<Rightarrow> ('st, 'w) sablier \<Rightarrow> bool" where
  "spawns G s s' \<longleftrightarrow> (\<exists>gs. s_goroutines s' = s_goroutines s @ gs \<and> set gs \<subseteq> G)"

definition start_of :: "string \<Rightarrow> goroutine set" where
  "start_of n = insert GoReconcileAntiAffinity {GoStart n p |p. True}"

lemma spawns_same: "s_goroutines s' = s_goroutines s \<Longrightarrow> spawns G s s'"
  by (simp add: spawns_def)

lemma spawns_trans: "spawns G s s1 \<Longrightarrow> spawns G s1 s2 \<Longrightarrow> spawns G s s2"
  by (auto simp: spawns_def)

lemma spawns_mono: "spawns G s s' \<Longrightarrow> G \<subseteq> H \<Longrightarrow> spawns H s s'"
  by (auto simp: spawns_def)

text \<open>What every step of the request path keeps, next to its sessions and registries.\<close>

definition keeps_names :: "string \<Rightarrow> ('st, 'w) sablier \<Rightarrow> ('st, 'w) sablier \<Rightarrow> bool" where
  "keeps_names n s s' \<longleftrightarrow> (named_starts s \<longrightarrow> named_starts s') \<and> s_provider s' = s_provider s \<and> spawns (start_of n) s s'"

lemma keeps_names_refl: "keeps_names n s s"
  by (simp add: keeps_names_def spawns_same)

lemma keeps_names_trans: "keeps_names n s s1 \<Longrightarrow> keeps_names n s1 s2 \<Longrightarrow> keeps_names n s s2"
  by (auto simp: keeps_names_def intro: spawns_trans)

lemma keeps_names_same:
  "s_provider s' = s_provider s \<Longrightarrow> s_pendingStarts s' = s_pendingStarts s \<Longrightarrow> s_psHeap s' = s_psHeap s \<Longrightarrow>
   s_goroutines s' = s_goroutines s \<Longrightarrow> keeps_names n s s'"
  by (simp add: keeps_names_def named_starts_def spawns_same)

lemma keeps_names_del:
  "s_provider s' = s_provider s \<Longrightarrow> s_pendingStarts s' = map_del m (s_pendingStarts s) \<Longrightarrow> s_psHeap s' = s_psHeap s \<Longrightarrow>
   s_goroutines s' = s_goroutines s \<Longrightarrow> keeps_names n s s'"
  by (auto simp: keeps_names_def named_starts_def spawns_same map_of_del)

lemma call_Inspect_names:
  "call_Inspect n s = (r, s') \<Longrightarrow> keeps_names m s s' \<and> (named_starts s \<longrightarrow> (\<forall>i. r = Inr i \<longrightarrow> i_Name i = n))"
  by (auto simp: call_Inspect_def named_starts_def intro!: keeps_names_same split: sum.splits)

lemma consumePendingError_names: "consumePendingError n s = (r, s') \<Longrightarrow> keeps_names m s s'"
  by (auto simp: consumePendingError_def Let_def intro!: keeps_names_del keeps_names_refl split: option.splits if_splits)

lemma requestStart_check_names:
  "requestStart_check n s = (r, s') \<Longrightarrow>
   keeps_names n s s' \<and> (named_starts s \<longrightarrow> (\<forall>i. r = Some (Inr i) \<longrightarrow> i_Name i = n))"
  by (auto simp: requestStart_check_def Let_def named_starts_def
      intro!: keeps_names_del keeps_names_refl split: option.splits if_splits)

lemma requestStart_inspect_names:
  "requestStart_inspect n rj s = (r, s') \<Longrightarrow>
   keeps_names n s s' \<and> (named_starts s \<longrightarrow> (\<forall>i. r = Inr i \<longrightarrow> i_Name i = n))"
  using call_Inspect_names [of n s _ _ n]
  by (auto simp: requestStart_inspect_def bare_info_def split: prod.splits sum.splits if_splits)

lemma register_new_names:
  assumes "i_Name info = n"
  shows "keeps_names n s (snd (register_new n info s)) \<and> fst (register_new n info s) = info"
proof -
  have "named_starts (snd (register_new n info s))" if "named_starts s"
    using that assms
    by (auto simp: register_new_def named_starts_def Let_def go_def record_metric_def map_of_put nth_append less_Suc_eq)
  then show ?thesis
    by (auto simp: register_new_def keeps_names_def spawns_def start_of_def Let_def go_def record_metric_def)
qed

lemma requestStart_register_names:
  assumes "i_Name info = n" "requestStart_register n info s = (i, s')" "named_starts s"
  shows "keeps_names n s s' \<and> i_Name i = n"
proof (cases "map_of (s_pendingStarts s) n")
  case None
  with assms register_new_names [of info n s] show ?thesis by (simp add: requestStart_register_def)
next
  case (Some p)
  let ?s = "s\<lparr>s_pendingStarts := map_del n (s_pendingStarts s)\<rparr>"
  have "keeps_names n s ?s" by (rule keeps_names_del) simp_all
  with Some assms register_new_names [of info n ?s] show ?thesis
    by (auto simp: requestStart_register_def named_starts_def
        intro: keeps_names_trans keeps_names_refl split: if_splits)
qed

lemma requestStart_names:
  assumes "requestStart n rj s = (r, s')" "named_starts s"
  shows "keeps_names n s s' \<and> (\<forall>i. r = Inr i \<longrightarrow> i_Name i = n)"
proof -
  obtain c s1 where c: "requestStart_check n s = (c, s1)" by (cases "requestStart_check n s")
  note C = requestStart_check_names [OF c]
  show ?thesis
  proof (cases c)
    case (Some x)
    with assms c C show ?thesis by (auto simp: requestStart_def)
  next
    case None
    obtain q s2 where q: "requestStart_inspect n rj s1 = (q, s2)" by (cases "requestStart_inspect n rj s1")
    note Q = requestStart_inspect_names [OF q]
    have n1: "named_starts s1" and k2: "keeps_names n s s2"
      using C Q assms(2) by (auto simp: keeps_names_def intro: spawns_trans)
    show ?thesis
    proof (cases q)
      case (Inl e)
      with None assms c q k2 show ?thesis by (auto simp: requestStart_def)
    next
      case (Inr info)
      obtain i s3 where r: "requestStart_register n info s2 = (i, s3)" by (cases "requestStart_register n info s2")
      have "i_Name info = n" "named_starts s2" using Q n1 Inr by (auto simp: keeps_names_def)
      from requestStart_register_names [OF this(1) r this(2)] Inr None assms c q r k2 show ?thesis
        by (auto simp: requestStart_def intro: keeps_names_trans)
    qed
  qed
qed

lemma refresh_state_names:
  assumes "refresh_state now n st s = (r, s')" "named_starts s" "i_Name st = n"
  shows "keeps_names n s s' \<and> (\<forall>i. r = Inr i \<longrightarrow> i_Name i = n)"
proof (cases "i_Status st = InstanceStatusReady")
  case True
  with assms show ?thesis by (auto simp: refresh_state_def keeps_names_refl)
next
  case False
  obtain p e s1 where c: "consumePendingError n s = ((p, e), s1)" by (cases "consumePendingError n s") auto
  note C = consumePendingError_names [OF c, of n]
  obtain q s2 where q: "call_Inspect n s1 = (q, s2)" by (cases "call_Inspect n s1")
  note Q = call_Inspect_names [OF q, of n]
  have rec: "keeps_names n s2 (record_metric m s2)" for m
    by (rule keeps_names_same) (simp_all add: record_metric_def)
  have k: "keeps_names n s s2" "keeps_names n s (record_metric m s2)" for m
    using C Q rec keeps_names_trans by blast+
  have "named_starts s1" using C assms(2) by (simp add: keeps_names_def)
  with False assms c q C Q k show ?thesis
    by (auto simp: refresh_state_def split: option.splits bool.splits sum.splits if_splits)
qed

section \<open>Requests touch one session\<close>

context session_store
begin

lemma session_state_names:
  assumes ok: "sab_ok ops invar s" and ns: "named_starts s" "named_sessions view now s"
    and ss: "session_state now n rj s = (r, s')"
  shows "keeps_names n s s' \<and> s_suppressed s' = s_suppressed s \<and> (\<forall>st b. r = Inr (st, b) \<longrightarrow> i_Name st = n)"
proof -
  obtain g s1 where g: "sess_Get now n s = (g, s1)" by (cases "sess_Get now n s")
  have G: "quiet view invar now s s1"
    "g = (case view now (s_sessions s) n of None \<Rightarrow> Inl ErrKeyNotFound | Some (i, at) \<Rightarrow> Inr i)"
    using sess_Get_quiet [OF _ _ g] ok by (auto simp: sab_ok_def)
  have k1: "keeps_names n s s1"
    by (rule keeps_names_same) (use quiet_fields [OF G(1)] in simp_all)
  then have n1: "named_starts s1" using ns(1) by (simp add: keeps_names_def)
  have su1: "s_suppressed s1 = s_suppressed s" using quiet_fields [OF G(1)] by simp
  show ?thesis
  proof (cases g)
    case (Inl e)
    then have e: "errors_Is e ErrKeyNotFound" using G(2) by (auto split: option.splits)
    obtain q s2 where q: "requestStart n rj s1 = (q, s2)" by (cases "requestStart n rj s1")
    from requestStart_names [OF q n1] same_core_requestStart [OF q] Inl e g ss k1 su1 q show ?thesis
      by (auto simp: session_state_def same_core_def intro: keeps_names_trans split: sum.splits)
  next
    case (Inr st)
    then have "i_Name st = n" using G(2) ns(2) by (auto simp: named_sessions_def split: option.splits)
    obtain q s2 where q: "refresh_state now n st s1 = (q, s2)" by (cases "refresh_state now n st s1")
    from refresh_state_names [OF q n1 \<open>i_Name st = n\<close>] same_core_refresh [OF q] Inr g ss k1 su1 q show ?thesis
      by (auto simp: session_state_def same_core_def intro: keeps_names_trans split: sum.splits)
  qed
qed

text \<open>What a request for \<open>n\<close> leaves alone, whatever it returns.\<close>

definition request_frame :: "time \<Rightarrow> string \<Rightarrow> ('st, 'w) sablier \<Rightarrow> ('st, 'w) sablier \<Rightarrow> bool" where
  "request_frame now n s s' \<longleftrightarrow> sab_ok ops invar s' \<and> named_starts s' \<and> named_sessions view now s' \<and>
     s_provider s' = s_provider s \<and> s_groups s' = s_groups s \<and> s_antiAffinity s' = s_antiAffinity s \<and>
     s_suppressed s' = s_suppressed s \<and> spawns (start_of n) s s' \<and>
     (\<forall>j t. j \<noteq> n \<longrightarrow> now \<le> t \<longrightarrow> view t (s_sessions s') j = view t (s_sessions s) j)"

lemma quiet_frame:
  assumes "sab_ok ops invar s" "named_starts s" "named_sessions view now s" "quiet view invar now s s'"
  shows "request_frame now n s s'"
  using assms sab_ok_quiet [OF assms(1,4)] quiet_fields [OF assms(4)] quiet_view [OF assms(4)]
  by (auto simp: request_frame_def named_starts_def named_sessions_def intro: spawns_same)

lemma frame_sessions:
  assumes F: "request_frame now n s s2" and inv: "invar st"
    and v: "\<And>t. view t st = (view t (s_sessions s2))(n := x t)"
    and x: "\<And>t i at. x t = Some (i, at) \<Longrightarrow> i_Name i = n"
  shows "request_frame now n s (s2\<lparr>s_sessions := st\<rparr>)"
proof -
  have "named_sessions view now (s2\<lparr>s_sessions := st\<rparr>)"
    using F x by (auto simp: request_frame_def named_sessions_def v)
  moreover have "sab_ok ops invar (s2\<lparr>s_sessions := st\<rparr>)"
    using F inv by (auto simp: request_frame_def sab_ok_def)
  ultimately show ?thesis
    using F by (simp add: request_frame_def named_starts_def spawns_def v)
qed

lemma instanceRequest_frame:
  assumes ok: "sab_ok ops invar s" and ns: "named_starts s" "named_sessions view now s"
    and ir: "instanceRequest loc now n d rj s = (r, s')"
  shows "request_frame now n s s'"
proof (cases "n = []")
  case True
  with ir have "s' = s" by (simp add: instanceRequest_def)
  with quiet_frame [OF ok ns quiet_refl] ok show ?thesis by (simp add: sab_ok_def)
next
  case False
  obtain g s1 where h: "antiAffinityHold now n s = (g, s1)" by (cases "antiAffinityHold now n s")
  have H: "quiet view invar now s s1" using antiAffinityHold_quiet [OF ok h] by simp
  note F = quiet_frame [OF ok ns H, of n]
  show ?thesis
  proof (cases "g = []")
    case False
    with F ir h \<open>n \<noteq> []\<close> show ?thesis by (auto simp: instanceRequest_def)
  next
    case True
    have ok1: "sab_ok ops invar s1" and n1: "named_starts s1" "named_sessions view now s1"
      using F by (auto simp: request_frame_def)
    obtain q s2 where q: "session_state now n rj s1 = (q, s2)" by (cases "session_state now n rj s1")
    note N = session_state_names [OF ok1 n1 q] and V = session_state_view [OF ok1 q]
    have F2: "request_frame now n s s2"
      using F N V n1 by (auto simp: request_frame_def keeps_names_def named_sessions_def intro: spawns_trans)
    show ?thesis
    proof (cases q)
      case (Inl e)
      with F2 True ir h q \<open>n \<noteq> []\<close> show ?thesis by (auto simp: instanceRequest_def)
    next
      case (Inr sb)
      obtain st b where sb: "sb = (st, b)" by (cases sb)
      obtain e s3 where p: "sess_Put now st (effectiveDuration loc now st d) s2 = (e, s3)"
        by (cases "sess_Put now st (effectiveDuration loc now st d) s2")
      have "s_store s2 = ops" "invar (s_sessions s2)" and st: "i_Name st = n"
        using F2 N Inr sb by (simp_all add: request_frame_def sab_ok_def)
      from sess_Put_view [OF this(1,2) p] st obtain st' where s3: "s3 = s2\<lparr>s_sessions := st'\<rparr>" "invar st'"
        and v: "\<And>t. view t st' = (view t (s_sessions s2))(n :=
          if t \<le> now + effectiveDuration loc now st d then Some (st, now + effectiveDuration loc now st d) else None)"
        by blast
      have F3: "request_frame now n s s3"
        unfolding s3(1) by (rule frame_sessions [OF F2 s3(2) v]) (use st in \<open>auto split: if_splits\<close>)
      then have "request_frame now n s (triggerAntiAffinityReconcile s3)"
        by (auto simp: request_frame_def triggerAntiAffinityReconcile_def go_def sab_ok_def named_starts_def
            named_sessions_def spawns_def start_of_def)
      with F3 True ir h q \<open>n \<noteq> []\<close> Inr sb p show ?thesis
        by (auto simp: instanceRequest_def split: option.splits if_splits)
    qed
  qed
qed

end

section \<open>One instance in a reconciliation\<close>

definition marked :: "('st, 'w) sablier \<Rightarrow> string \<Rightarrow> bool" where
  "marked s n \<longleftrightarrow> map_of (s_suppressed s) n \<noteq> None"

definition starts_for :: "string \<Rightarrow> ('st, 'w) sablier \<Rightarrow> goroutine set" where
  "starts_for n s = {g \<in> set (s_goroutines s). \<exists>p. g = GoStart n p}"

definition stop_works :: "('st, 'w) sablier \<Rightarrow> bool" where
  "stop_works s \<longleftrightarrow> (\<forall>n w. fst (p_Stop (s_provider s) n w) = None)"

lemma spawns_other: "spawns (start_of n) s s' \<Longrightarrow> j \<noteq> n \<Longrightarrow> starts_for j s' = starts_for j s"
  by (auto simp: spawns_def start_of_def starts_for_def)

context session_store
begin

definition good :: "time \<Rightarrow> ('st, 'w) sablier \<Rightarrow> bool" where
  "good now s \<longleftrightarrow> sab_ok ops invar s \<and> named_starts s \<and> named_sessions view now s \<and> stop_works s"

text \<open>A step that does not concern \<open>j\<close>.\<close>

definition untouched :: "time \<Rightarrow> string \<Rightarrow> ('st, 'w) sablier \<Rightarrow> ('st, 'w) sablier \<Rightarrow> bool" where
  "untouched now j s s' \<longleftrightarrow> view now (s_sessions s') j = view now (s_sessions s) j \<and>
     (marked s' j \<longleftrightarrow> marked s j) \<and> starts_for j s' = starts_for j s"

lemma untouched_refl: "untouched now j s s"
  by (simp add: untouched_def)

lemma untouched_trans: "untouched now j s s1 \<Longrightarrow> untouched now j s1 s2 \<Longrightarrow> untouched now j s s2"
  by (simp add: untouched_def)

lemma good_quiet: "good now s \<Longrightarrow> quiet view invar now s s' \<Longrightarrow> good now s' \<and> untouched now j s s'"
  using quiet_frame [of s now s' "[]"] quiet_fields [of view invar now s s'] quiet_view [of view invar now s s' now]
  by (simp add: good_def request_frame_def untouched_def marked_def starts_for_def stop_works_def)

lemma suppress_spec:
  assumes "good now s"
  shows "good now (suppressForAntiAffinity now n s) \<and>
    (j \<noteq> n \<longrightarrow> untouched now j s (suppressForAntiAffinity now n s)) \<and>
    view now (s_sessions (suppressForAntiAffinity now n s)) n = None \<and>
    (marked (suppressForAntiAffinity now n s) n \<longleftrightarrow> marked s n \<or> view now (s_sessions s) n \<noteq> None) \<and>
    starts_for n (suppressForAntiAffinity now n s) = starts_for n s"
proof -
  obtain r s1 where g: "sess_Get now n s = (r, s1)" by (cases "sess_Get now n s")
  have G: "quiet view invar now s s1" "r = (case view now (s_sessions s) n of None \<Rightarrow> Inl ErrKeyNotFound | Some (i, at) \<Rightarrow> Inr i)"
    using sess_Get_quiet [OF _ _ g] assms by (auto simp: good_def sab_ok_def)
  have g1: "good now s1" "\<And>j. untouched now j s s1" using good_quiet [OF assms G(1)] by auto
  show ?thesis
  proof (cases "view now (s_sessions s) n")
    case None
    with G g g1 show ?thesis by (auto simp: suppressForAntiAffinity_def untouched_def)
  next
    case (Some ia)
    obtain e w where p: "p_Stop (s_provider s1) n (s_world s1) = (e, w)" by (cases "p_Stop (s_provider s1) n (s_world s1)")
    with g1(1) have e: "e = None" unfolding good_def stop_works_def by (metis fst_conv)
    define s2 where "s2 = s1\<lparr>s_world := w, s_trace := s_trace s1 @ [CallStop n]\<rparr>"
    obtain e3 s3 where d: "sess_Delete now n s2 = (e3, s3)" by (cases "sess_Delete now n s2")
    have s2: "s_store s2 = ops" "invar (s_sessions s2)" using g1(1) by (auto simp: s2_def good_def sab_ok_def)
    from sess_Delete_view [OF s2 d] obtain st where st: "s3 = s2\<lparr>s_sessions := st\<rparr>" "invar st"
      and v: "\<And>t'. view t' st = (view t' (s_sessions s1))(n := None)" by (auto simp: s2_def)
    have "suppressForAntiAffinity now n s =
        s1\<lparr>s_world := w, s_trace := s_trace s1 @ [CallStop n], s_sessions := st,
           s_suppressed := map_put n () (s_suppressed s1),
           s_metrics := s_metrics s1 @ [RecordInstanceStop n ''anti-affinity'']\<rparr>"
      using G g Some p e d st(1)
      by (auto simp: suppressForAntiAffinity_def call_Stop_def s2_def record_metric_def Let_def split: option.splits prod.splits)
    with g1 v st(2) Some show ?thesis
      by (auto simp: good_def sab_ok_def named_starts_def named_sessions_def untouched_def marked_def
          starts_for_def stop_works_def map_of_put)
  qed
qed

lemma restore_spec:
  assumes "good now s"
  shows "good now (restoreFromAntiAffinity loc now n s) \<and>
    (j \<noteq> n \<longrightarrow> untouched now j s (restoreFromAntiAffinity loc now n s))"
proof -
  obtain r s1 where ir: "instanceRequest loc now n (s_DefaultSessionDuration s) False s = (r, s1)"
    by (cases "instanceRequest loc now n (s_DefaultSessionDuration s) False s")
  have F: "request_frame now n s s1"
    using instanceRequest_frame [OF _ _ _ ir] assms by (simp add: good_def)
  have "good now s1" "good now (s1\<lparr>s_suppressed := x\<rparr>)" for x
    using F assms by (auto simp: good_def request_frame_def sab_ok_def named_starts_def named_sessions_def stop_works_def)
  moreover have "untouched now j s s1" "untouched now j s (s1\<lparr>s_suppressed := map_del n (s_suppressed s1)\<rparr>)" if "j \<noteq> n"
    using F that spawns_other [of n s s1 j]
    by (auto simp: untouched_def request_frame_def marked_def starts_for_def map_of_del)
  ultimately show ?thesis using ir by (auto simp: restoreFromAntiAffinity_def split: sum.splits)
qed

lemma reconcile_instance_spec:
  assumes "good now s"
  shows "good now (reconcile_instance loc now (n, b) s) \<and>
    (j \<noteq> n \<longrightarrow> untouched now j s (reconcile_instance loc now (n, b) s)) \<and>
    (b \<and> \<not> marked s n \<longrightarrow> view now (s_sessions (reconcile_instance loc now (n, b) s)) n = None \<and>
       (marked (reconcile_instance loc now (n, b) s) n \<longleftrightarrow> view now (s_sessions s) n \<noteq> None) \<and>
       starts_for n (reconcile_instance loc now (n, b) s) = starts_for n s) \<and>
    ((b \<longleftrightarrow> marked s n) \<longrightarrow> untouched now n s (reconcile_instance loc now (n, b) s))"
  using suppress_spec [OF assms, of n j] restore_spec [OF assms, of loc n j] assms untouched_refl [of now _ s]
  by (auto simp: reconcile_instance_def marked_def Let_def)

lemma reconcile_fold_other:
  "good now s \<Longrightarrow> j \<notin> fst ` set ds \<Longrightarrow>
   good now (fold (reconcile_instance loc now) ds s) \<and> untouched now j s (fold (reconcile_instance loc now) ds s)"
proof (induction ds arbitrary: s)
  case (Cons d ds)
  obtain n b where d: "d = (n, b)" by (cases d)
  from reconcile_instance_spec [OF Cons.prems(1), of loc n b j] Cons.prems(2)
  have "good now (reconcile_instance loc now d s)" "untouched now j s (reconcile_instance loc now d s)"
    by (auto simp: d)
  with Cons.IH [of "reconcile_instance loc now d s"] Cons.prems(2) show ?case
    by (auto intro: untouched_trans)
qed (simp add: untouched_refl)

lemma reconcile_fold:
  assumes "good now s" "distinct (map fst ds)" "(j, b) \<in> set ds"
  shows "good now (fold (reconcile_instance loc now) ds s) \<and>
    (b \<and> \<not> marked s j \<longrightarrow> view now (s_sessions (fold (reconcile_instance loc now) ds s)) j = None \<and>
       (marked (fold (reconcile_instance loc now) ds s) j \<longleftrightarrow> view now (s_sessions s) j \<noteq> None) \<and>
       starts_for j (fold (reconcile_instance loc now) ds s) = starts_for j s) \<and>
    ((b \<longleftrightarrow> marked s j) \<longrightarrow> untouched now j s (fold (reconcile_instance loc now) ds s))"
proof -
  from assms(3) obtain xs ys where ds: "ds = xs @ (j, b) # ys" by (meson split_list)
  with assms(2) have j: "j \<notin> fst ` set xs" "j \<notin> fst ` set ys" by auto
  define s1 where "s1 = fold (reconcile_instance loc now) xs s"
  define s2 where "s2 = reconcile_instance loc now (j, b) s1"
  have 1: "good now s1" "untouched now j s s1" using reconcile_fold_other [OF assms(1) j(1)] by (auto simp: s1_def)
  note 2 = reconcile_instance_spec [OF 1(1), of loc j b j, folded s2_def]
  have 3: "untouched now j s2 (fold (reconcile_instance loc now) ys s2)" "good now (fold (reconcile_instance loc now) ys s2)"
    using reconcile_fold_other [OF _ j(2)] 2 by auto
  have "fold (reconcile_instance loc now) ds s = fold (reconcile_instance loc now) ys s2"
    by (simp add: ds s1_def s2_def)
  with 1 2 3 show ?thesis by (simp add: untouched_def)
qed

end

section \<open>Which instances have to be idle\<close>

lemma desire_fold:
  "map_of (fold (desire b) ds m) j =
     (if j \<in> set ds then Some (b \<or> map_of m j = Some True) else map_of m j) \<and>
   (wf_map m \<longrightarrow> wf_map (fold (desire b) ds m))"
proof (induction ds arbitrary: m)
  case (Cons d ds)
  have "map_of (desire b d m) j = (if j = d then Some (b \<or> map_of m j = Some True) else map_of m j)"
    by (auto simp: desire_def map_of_put)
  moreover have "wf_map m \<longrightarrow> wf_map (desire b d m)" by (auto simp: desire_def intro: wf_intros)
  ultimately show ?case using Cons.IH [of "desire b d m"] by auto
qed simp

lemma desired_fold:
  "map_of (fold (\<lambda>(grp, dependents) m. fold (desire (set_has act grp)) dependents m) reg m) j =
     (if \<exists>g ds. (g, ds) \<in> set reg \<and> j \<in> set ds
      then Some ((\<exists>g ds. (g, ds) \<in> set reg \<and> j \<in> set ds \<and> set_has act g) \<or> map_of m j = Some True)
      else map_of m j) \<and>
   (wf_map m \<longrightarrow> wf_map (fold (\<lambda>(grp, dependents) m. fold (desire (set_has act grp)) dependents m) reg m))"
proof (induction reg arbitrary: m)
  case (Cons e reg)
  obtain g ds where e: "e = (g, ds)" by (cases e)
  show ?case
    using Cons.IH [of "fold (desire (set_has act g)) ds m"] desire_fold [of "set_has act g" ds m j]
    by (auto simp: e)
qed simp

lemma desiredSuppress_spec:
  assumes "wf_map reg"
  shows "map_of (desiredSuppress act reg) j =
      (if \<exists>g. member_of reg j g then Some (\<exists>g. member_of reg j g \<and> set_has act g) else None) \<and>
    wf_map (desiredSuppress act reg)"
  using desired_fold [of act reg "[]" j] member_of_mem [OF assms, of j]
  by (auto simp: desiredSuppress_def)

lemma range_order_keys:
  assumes "\<And>m. mset (order m) = mset m"
  shows "set (order m) = set m" "distinct (map fst (order m)) \<longleftrightarrow> distinct (map fst m)"
proof -
  show "set (order m) = set m" using assms by (rule mset_eq_setD)
  have "mset (map fst (order m)) = mset (map fst m)" using assms by simp
  then show "distinct (map fst (order m)) \<longleftrightarrow> distinct (map fst m)" by (rule mset_eq_imp_distinct_iff)
qed

lemma set_has_put: "set_has (map_put k v m) j \<longleftrightarrow> (if j = k then v else set_has m j)"
  by (simp add: set_has_def map_of_put)

context session_store
begin

lemma active_loop_spec:
  "sab_ok ops invar s \<Longrightarrow> active_loop now gs act s = (act', s') \<Longrightarrow>
   quiet view invar now s s' \<and> (\<forall>g. set_has act' g \<longleftrightarrow> (if g \<in> set gs then group_live view now s g else set_has act g))"
proof (induction gs arbitrary: act s)
  case Nil
  then show ?case by (auto simp: sab_ok_def intro: quiet_refl)
next
  case (Cons h gs)
  obtain b s1 where a: "isGroupActive now h s = (b, s1)" by (cases "isGroupActive now h s")
  have A: "quiet view invar now s s1" "b \<longleftrightarrow> group_live view now s h"
    using isGroupActive_quiet [OF _ _ _ a] Cons.prems(1) by (auto simp: sab_ok_def)
  have "sab_ok ops invar s1" using Cons.prems(1) A(1) by (rule sab_ok_quiet)
  from Cons.IH [OF this] Cons.prems(2) a A group_live_quiet [OF A(1)] show ?case
    by (auto simp: set_has_put intro: quiet_trans)
qed

lemma reconcile_good:
  assumes g: "good now s" and o: "\<And>m. mset (order m) = mset m"
  shows "good now (reconcileAntiAffinity loc now order s) \<and>
    (held view now s j \<and> \<not> marked s j \<longrightarrow>
       view now (s_sessions (reconcileAntiAffinity loc now order s)) j = None \<and>
       (marked (reconcileAntiAffinity loc now order s) j \<longleftrightarrow> view now (s_sessions s) j \<noteq> None) \<and>
       starts_for j (reconcileAntiAffinity loc now order s) = starts_for j s) \<and>
    ((held view now s j \<longleftrightarrow> marked s j) \<longrightarrow> untouched now j s (reconcileAntiAffinity loc now order s))"
proof (cases "Snapshot (s_antiAffinity s) = []")
  case True
  have wf: "wf_map (s_antiAffinity s)" using g by (simp add: good_def sab_ok_def)
  then have "\<not> member_of (s_antiAffinity s) j h" for h
    using Snapshot_map_of [OF wf] True by (auto simp: member_of_def map_list_def)
  with True g show ?thesis
    by (simp add: reconcileAntiAffinity_def held_def untouched_refl)
next
  case False
  let ?reg = "Snapshot (s_antiAffinity s)"
  have wf: "wf_map (s_antiAffinity s)" using g by (simp add: good_def sab_ok_def)
  then have wfr: "wf_map ?reg" and mem: "member_of ?reg = member_of (s_antiAffinity s)"
    using Snapshot_map_of [OF wf] by (auto simp: member_of_def map_list_def fun_eq_iff)
  obtain act s1 where a: "active_loop now (map_keys ?reg) [] s = (act, s1)"
    by (cases "active_loop now (map_keys ?reg) [] s")
  have A: "quiet view invar now s s1"
    "\<And>h. set_has act h \<longleftrightarrow> (if h \<in> set (map_keys ?reg) then group_live view now s h else False)"
    using active_loop_spec [OF _ a] g by (auto simp: good_def set_has_def)
  have keys: "h \<in> set (map_keys ?reg)" if "member_of ?reg j h" for h
    using that member_of_mem [OF wfr] by force
  define ds where "ds = order (desiredSuppress act ?reg)"
  note D = desiredSuppress_spec [OF wfr, of act j]
  have dist: "distinct (map fst ds)" and set_ds: "set ds = set (desiredSuppress act ?reg)"
    using D range_order_keys [OF o] by (auto simp: ds_def wf_map_def)
  have g1: "good now s1" "untouched now j s s1" using good_quiet [OF g A(1)] by auto
  have s': "reconcileAntiAffinity loc now order s = fold (reconcile_instance loc now) ds s1"
    using False a by (simp add: reconcileAntiAffinity_def Let_def ds_def)
  show ?thesis
  proof (cases "\<exists>h. member_of (s_antiAffinity s) j h")
    case False
    then have "map_of (desiredSuppress act ?reg) j = None" using D mem by simp
    then have "j \<notin> fst ` set ds" unfolding set_ds by (simp add: map_of_eq_None_iff)
    from reconcile_fold_other [OF g1(1) this, of loc] g1(2) False show ?thesis
      unfolding s' held_def by (auto intro: untouched_trans)
  next
    case True
    then have "map_of (desiredSuppress act ?reg) j = Some (held view now s j)"
      using D mem keys A(2) by (auto simp: held_def)
    then have "(j, held view now s j) \<in> set ds" unfolding set_ds by (rule map_of_SomeD)
    from reconcile_fold [OF g1(1) dist this, of loc] g1(2) show ?thesis
      unfolding s' by (auto simp: untouched_def)
  qed
qed

lemma reconcile_all:
  assumes "sab_ok ops invar s" "named_starts s" "named_sessions view now s" "stop_works s" "\<And>m. mset (order m) = mset m"
    and s': "s' = reconcileAntiAffinity loc now order s"
  shows "sab_ok ops invar s' \<and>
    (\<forall>j. held view now s j \<and> \<not> marked s j \<longrightarrow>
       view now (s_sessions s') j = None \<and> (marked s' j \<longleftrightarrow> view now (s_sessions s) j \<noteq> None)) \<and>
    (\<forall>j. (held view now s j \<longleftrightarrow> marked s j) \<longrightarrow>
       view now (s_sessions s') j = view now (s_sessions s) j \<and> (marked s' j \<longleftrightarrow> marked s j)) \<and>
    (\<forall>j. held view now s j \<or> \<not> marked s j \<longrightarrow> starts_for j s' = starts_for j s)"
proof -
  have g: "good now s" using assms by (simp add: good_def)
  note R = reconcile_good [OF g assms(5), of loc, folded s']
  show ?thesis
  proof (intro conjI allI impI)
    show "sab_ok ops invar s'" using R by (simp add: good_def)
  qed (use R in \<open>auto simp: untouched_def\<close>)
qed

end

section \<open>Properties\<close>


text \<open>A small system: \<open>web\<close> and \<open>batch\<close> back off from the group of \<open>hub\<close>, and \<open>batch\<close> from that of \<open>web\<close>.\<close>

definition named_provider :: "list_world provider_ops" where
  "named_provider = (list_provider (\<lambda>_. []))
     \<lparr>p_Stop := \<lambda>n w. (None, case map_of w n of None \<Rightarrow> w
        | Some i \<Rightarrow> map_put n (i\<lparr>i_Status := InstanceStatusStopped\<rparr>) w),
      p_Inspect := \<lambda>n w. case map_of w n of None \<Rightarrow> Inl (ErrText ''no such instance'')
        | Some i \<Rightarrow> Inr (i\<lparr>i_Name := n\<rparr>)\<rparr>"

definition rivals :: "(InMemory, list_world) sablier" where
  "rivals = (sablier_New inmemory_ops NewInMemory named_provider
       (map (\<lambda>n. (n, stopped_instance n)) [''web'', ''batch'', ''hub'']))
     \<lparr>s_groups := [(''front'', [''web'']), (''h'', [''hub''])],
      s_antiAffinity := [(''h'', [''web'', ''batch'']), (''front'', [''batch''])]\<rparr>"

definition rivals_hub :: "(InMemory, list_world) sablier" where
  "rivals_hub = rivals\<lparr>s_sessions := snd (InMemory_Put 0 (stopped_instance ''hub'') Minute
     (snd (InMemory_Put 0 (stopped_instance ''web'') Minute NewInMemory)))\<rparr>"

lemma inmemory_Put_view:
  "kv_inv st \<Longrightarrow> kv_inv (snd (InMemory_Put now i d st)) \<and>
   inmemory_view t (snd (InMemory_Put now i d st)) =
     (inmemory_view t st)(i_Name i := if t \<le> now + d then Some (i, now + d) else None)"
  using mem.put_keeps [of st now i d] mem.put_view [of st t now i d] by (simp add: inmemory_ops_def)

lemma inmemory_New_view: "inmemory_view t NewInMemory k = None"
  by (simp add: inmemory_view_def kv_view_def NewInMemory_def tinykv_New_def)

lemma rivals_hub_view:
  "kv_inv (s_sessions rivals_hub)"
  "inmemory_view t (s_sessions rivals_hub) k =
     (if t \<le> Minute \<and> k \<in> {''web'', ''hub''} then Some (stopped_instance k, Minute) else None)"
  using inmemory_Put_view [OF NewInMemory_inv]
    inmemory_Put_view [of "snd (InMemory_Put 0 (stopped_instance ''web'') Minute NewInMemory)"]
  by (auto simp: rivals_hub_def inmemory_New_view stopped_instance_def)

lemma rivals_ok: "named_starts rivals" "stop_works rivals" "sab_ok inmemory_ops kv_inv rivals"
  by (auto simp: rivals_def named_starts_def stop_works_def sab_ok_def named_provider_def sablier_New_def
      list_provider_def NewInMemory_inv wf_map_def member_of_def map_list_def split: option.splits if_splits)

lemma rivals_hub_ok: "named_starts rivals_hub" "stop_works rivals_hub" "sab_ok inmemory_ops kv_inv rivals_hub"
  "named_sessions inmemory_view 0 rivals_hub" "held inmemory_view 0 rivals_hub ''web''" "\<not> marked rivals_hub ''web''"
proof -
  show "named_starts rivals_hub" "stop_works rivals_hub" "sab_ok inmemory_ops kv_inv rivals_hub" "\<not> marked rivals_hub ''web''"
    using rivals_ok rivals_hub_view(1)
    by (simp_all add: rivals_hub_def named_starts_def stop_works_def sab_ok_def marked_def) (simp add: rivals_def sablier_New_def)
  show "named_sessions inmemory_view 0 rivals_hub"
    by (auto simp: named_sessions_def rivals_hub_view(2) stopped_instance_def split: if_splits)
  have "member_of (s_antiAffinity rivals_hub) ''web'' ''h''" "member_of (s_groups rivals_hub) ''hub'' ''h''"
    by (simp_all add: rivals_hub_def rivals_def member_of_def map_list_def)
  then show "held inmemory_view 0 rivals_hub ''web''"
    using rivals_hub_view(2) [of 0 "''hub''"] unfolding held_def group_live_def by force
qed


text \<open>
  A restoration can be lost. \<open>web\<close> and \<open>batch\<close> were both suppressed for the group of
  \<open>hub\<close>, which is idle again. If the reconciliation restores \<open>web\<close> first, the request for
  \<open>batch\<close> is answered with the hold of the group of \<open>web\<close>, without an error: the mark of
  \<open>batch\<close> is dropped although it was not started, and no later reconciliation restores it.
\<close>

theorem restore_lost:
  "(let s' = reconcileAntiAffinity (fixed_zone 0) 0 (\<lambda>m. m) (rivals\<lparr>s_suppressed := [(''web'', ()), (''batch'', ())]\<rparr>)
    in s_suppressed s' = [] \<and> s_goroutines s' = [GoStart ''web'' 0, GoReconcileAntiAffinity] \<and>
       map (i_Name \<circ> fst) (fst (InMemory_Range 0 (s_sessions s'))) = [''web''])"
  by code_simp

section \<open>Rebuilding the index\<close>

lemma SyncInstanceAntiAffinity_index:
  "snd (SyncInstanceAntiAffinity i gs s) = s\<lparr>s_antiAffinity := fst (reg_Sync i gs (s_antiAffinity s))\<rparr>"
  by (simp add: SyncInstanceAntiAffinity_def split: prod.splits)

lemma RemoveInstanceAntiAffinity_index:
  "snd (RemoveInstanceAntiAffinity i s) = s\<lparr>s_antiAffinity := fst (reg_Remove i (s_antiAffinity s))\<rparr>"
  by (simp add: RemoveInstanceAntiAffinity_def split: prod.splits)

lemma registry_loop_spec:
  assumes "wf_map (s_antiAffinity s)"
  shows "wf_map (s_antiAffinity (registry_loop cs s)) \<and>
    (member_of (s_antiAffinity (registry_loop cs s)) j g \<longleftrightarrow>
       (case p_Inspect (s_provider s) j (s_world s) of
          Inr info \<Rightarrow> if j \<in> c_Name ` set cs then g \<in> set (i_AntiAffinity info) else member_of (s_antiAffinity s) j g
        | Inl e \<Rightarrow> member_of (s_antiAffinity s) j g))"
  using assms
proof (induction cs arbitrary: s)
  case (Cons c cs)
  show ?case
  proof (cases "p_Inspect (s_provider s) (c_Name c) (s_world s)")
    case (Inl e)
    then have "registry_loop (c # cs) s = registry_loop cs s" by (simp add: call_Inspect_def)
    with Cons.IH [OF Cons.prems] Inl show ?thesis by (auto split: sum.splits)
  next
    case (Inr info)
    define s1 where "s1 = s\<lparr>s_trace := s_trace s @ [Inspected (c_Name c) (i_Status info)],
      s_antiAffinity := fst (reg_Sync (c_Name c) (i_AntiAffinity info) (s_antiAffinity s))\<rparr>"
    have eq: "registry_loop (c # cs) s = registry_loop cs s1"
      using Inr by (simp add: call_Inspect_def SyncInstanceAntiAffinity_index s1_def)
    have s1: "wf_map (s_antiAffinity s1)" "s_provider s1 = s_provider s" "s_world s1 = s_world s"
      "\<And>j g. member_of (s_antiAffinity s1) j g \<longleftrightarrow>
         (if j = c_Name c then g \<in> set (i_AntiAffinity info) else member_of (s_antiAffinity s) j g)"
      using reg.inv_sync [OF Cons.prems] reg.rel_sync [OF Cons.prems] by (simp_all add: s1_def)
    with Cons.IH [OF s1(1)] Inr show ?thesis unfolding eq by (auto split: sum.splits)
  qed
qed (simp split: sum.splits)

lemma drop_absent_index:
  "s_antiAffinity (fold (\<lambda>inst s. if inst \<notin> P then snd (RemoveInstanceAntiAffinity inst s) else s) is s) =
   fold (\<lambda>inst d. if inst \<notin> P then fst (reg_Remove inst d) else d) is (s_antiAffinity s)"
  by (induction "is" arbitrary: s) (simp_all add: RemoveInstanceAntiAffinity_index)

text \<open>
  Rebuilding the index makes it agree with the labels the provider reports: an instance
  that is listed backs off from exactly the groups of its label, or from those it had if it
  cannot be inspected; an instance that is not listed is dropped.
\<close>

theorem anti_affinity_index_rebuilt:
  assumes wf: "wf_map (s_antiAffinity s)" and l: "p_List (s_provider s) True (s_world s) = Inr cs"
  shows "member_of (s_antiAffinity (reconcileAntiAffinityRegistry s)) j g \<longleftrightarrow>
    j \<in> c_Name ` set cs \<and>
    (case p_Inspect (s_provider s) j (s_world s) of
       Inr info \<Rightarrow> g \<in> set (i_AntiAffinity info)
     | Inl e \<Rightarrow> member_of (s_antiAffinity s) j g)"
proof -
  let ?d = "s_antiAffinity (registry_loop cs s)"
  note L = registry_loop_spec [OF wf, of cs]
  have "j \<in> set (map_keys (InstanceSnapshot ?d))" if "member_of ?d j g" for j g
    using that keys_invert_groups [of ?d j] L [THEN conjunct1] unfolding InstanceSnapshot_def by blast
  with reg.remove_fold [of ?d "\<lambda>i. i \<notin> c_Name ` set cs" "map_keys (InstanceSnapshot ?d)"] L [of j g]
  show ?thesis
    by (auto simp: reconcileAntiAffinityRegistry_def l drop_absent_def drop_absent_index split: sum.splits)
qed

theorem anti_affinity_index_rebuilt_witness:
  "\<not> member_of (s_antiAffinity (reconcileAntiAffinityRegistry rivals)) ''web'' ''h''"
proof -
  have l: "p_List (s_provider rivals) True (s_world rivals) =
      Inr (map (\<lambda>n. \<lparr>c_Name = n, c_Groups = [], c_Enabled = ''true''\<rparr>) [''web'', ''batch'', ''hub''])"
    by (simp add: rivals_def named_provider_def list_provider_def sablier_New_def stopped_instance_def zero_InstanceInfo_def)
  have i: "p_Inspect (s_provider rivals) ''web'' (s_world rivals) = Inr (stopped_instance ''web'')"
    by (simp add: rivals_def named_provider_def sablier_New_def stopped_instance_def)
  have "wf_map (s_antiAffinity rivals)" by (simp add: rivals_def wf_map_def)
  from anti_affinity_index_rebuilt [OF this l, of "''web''" "''h''"] i show ?thesis
    by (simp add: stopped_instance_def zero_InstanceInfo_def)
qed

text \<open>
  An instance that loses its label while it is suppressed keeps the mark and is not started
  again: the event removes it from the index, and the reconciliation visits only instances of
  the index.
\<close>

lemma label_removed_stays_suppressed:
  "(let s' = handleAntiAffinityEvent (fixed_zone 0) 0 (\<lambda>m. m)
       \<lparr>ev_Type = InstanceEventUpdated, ev_Info = stopped_instance ''web''\<rparr>
       (rivals\<lparr>s_antiAffinity := [(''h'', [''web''])], s_suppressed := [(''web'', ())]\<rparr>)
    in s_antiAffinity s' = [] \<and> s_suppressed s' = [(''web'', ())] \<and> s_goroutines s' = [])"
  by code_simp

end
