(* ===== verification/Watchers.thy ===== *)
theory Watchers
  imports Anti_Affinity
begin

text \<open>
  What Sablier does on its own, without a request: the expiration callback
  (\<open>instance_expired.go\<close>), the treatment of instances that were started by others
  (\<open>autostop.go\<close>, \<open>autowarm.go\<close>), the keep-warm windows (\<open>running_hours_watch.go\<close>) and the
  group watch (\<open>group_watch.go\<close>).

  The loops share their \<open>select\<close>: an event of the provider's stream, its end, an error, or the
  ticker. \<open>select_loop\<close> is that loop over the list of what arrives, with the progress of the
  rest of the system in between; the watchers are its instances.
\<close>

section \<open>Expiration\<close>

text \<open>The goroutine of \<open>onInstanceExpired\<close>.\<close>

definition onInstanceExpired :: "bool \<Rightarrow> string \<Rightarrow> ('st, 'w) sablier \<Rightarrow> ('st, 'w) sablier" where
  "onInstanceExpired verifyEnabled key s =
     (let stop = (\<lambda>s. case call_Stop key s of (err, s1) \<Rightarrow>
                    record_metric (DiscardReadyWait key)
                      (record_metric (RecordInactiveInstance key)
                        (record_metric (RecordInstanceStop key ''expired'') s1)))
      in if verifyEnabled then
           (case call_Inspect key s of
              (Inl err, s1) \<Rightarrow> s1
            | (Inr info, s1) \<Rightarrow> if \<not> IsEnabled info then s1 else stop s1)
         else stop s)"

text \<open>
  The callback of the package runs it without the check; the one of a \<open>Sablier\<close> starts the
  goroutine with the configured check and then triggers a reconciliation.
\<close>

definition OnInstanceExpired_func :: "string \<Rightarrow> ('st, 'w) sablier \<Rightarrow> ('st, 'w) sablier" where
  "OnInstanceExpired_func key s = onInstanceExpired False key s"

definition OnInstanceExpired :: "string \<Rightarrow> ('st, 'w) sablier \<Rightarrow> ('st, 'w) sablier" where
  "OnInstanceExpired key s = triggerAntiAffinityReconcile (go (GoStopExpired key) s)"

definition run_expired :: "string \<Rightarrow> ('st, 'w) sablier \<Rightarrow> ('st, 'w) sablier" where
  "run_expired key s = onInstanceExpired (s_verifyEnabledOnExpiration s) key s"

section \<open>Instances started by others\<close>

fun unregistered_loop :: "time \<Rightarrow> InstanceConfiguration list \<Rightarrow> ('st, 'w) sablier \<Rightarrow> string list \<times> ('st, 'w) sablier" where
  "unregistered_loop now [] s = ([], s)"
| "unregistered_loop now (c # cs) s =
     (case sess_Get now (c_Name c) s of
        (r, s1) \<Rightarrow>
          (case unregistered_loop now cs s1 of
             (ns, s2) \<Rightarrow>
               (case r of
                  Inl err \<Rightarrow> (if errors_Is err ErrKeyNotFound then c_Name c # ns else ns, s2)
                | Inr info \<Rightarrow> (ns, s2))))"

definition stopFunc :: "string \<Rightarrow> ('st, 'w) sablier \<Rightarrow> goerror option \<times> ('st, 'w) sablier" where
  "stopFunc name s =
     (case call_Stop name s of
        (Some err, s1) \<Rightarrow> (Some err, s1)
      | (None, s1) \<Rightarrow> (None, record_metric (RecordInstanceStop name ''unregistered'') s1))"

text \<open>The error group runs all stops and returns the first error; here they run in order.\<close>

fun stop_all :: "string list \<Rightarrow> ('st, 'w) sablier \<Rightarrow> goerror option \<times> ('st, 'w) sablier" where
  "stop_all [] s = (None, s)"
| "stop_all (n # ns) s =
     (case stopFunc n s of
        (e, s1) \<Rightarrow> (case stop_all ns s1 of (e', s2) \<Rightarrow> (if e = None then e' else e, s2)))"

definition StopAllUnregisteredInstances :: "time \<Rightarrow> ('st, 'w) sablier \<Rightarrow> goerror option \<times> ('st, 'w) sablier" where
  "StopAllUnregisteredInstances now s =
     (case p_List (s_provider s) False (s_world s) of
        Inl err \<Rightarrow> (Some err, s)
      | Inr instances \<Rightarrow>
          (case unregistered_loop now instances s of (unregistered, s1) \<Rightarrow> stop_all unregistered s1))"

definition isStartedByUs :: "time \<Rightarrow> string \<Rightarrow> ('st, 'w) sablier \<Rightarrow> bool \<times> ('st, 'w) sablier" where
  "isStartedByUs now name s =
     (if map_of (s_pendingStarts s) name \<noteq> None then (True, s)
      else case sess_Get now name s of
             (Inl err, s1) \<Rightarrow> (False, s1)
           | (Inr info, s1) \<Rightarrow> (True, s1))"

definition stop_started :: "time \<Rightarrow> InstanceEvent \<Rightarrow> ('st, 'w) sablier \<Rightarrow> ('st, 'w) sablier" where
  "stop_started now info s =
     (if \<not> IsEnabled (ev_Info info) then s
      else case isStartedByUs now (i_Name (ev_Info info)) s of
             (True, s1) \<Rightarrow> s1
           | (False, s1) \<Rightarrow>
               (case call_Stop (i_Name (ev_Info info)) s1 of
                  (Some err, s2) \<Rightarrow> s2
                | (None, s2) \<Rightarrow> record_metric (RecordInstanceStop (i_Name (ev_Info info)) ''externally-started'') s2))"

definition seedSession :: "time \<Rightarrow> string \<Rightarrow> ('st, 'w) sablier \<Rightarrow> ('st, 'w) sablier" where
  "seedSession now name s =
     (case sess_Get now name s of
        (Inr info, s1) \<Rightarrow> s1
      | (Inl err, s1) \<Rightarrow>
          if \<not> errors_Is err ErrKeyNotFound then s1
          else case call_Inspect name s1 of
                 (Inl err, s2) \<Rightarrow> s2
               | (Inr info, s2) \<Rightarrow>
                   if i_Status info \<noteq> InstanceStatusReady then s2
                   else snd (sess_Put now info (s_DefaultSessionDuration s2) s2))"

fun unregistered_warm :: "time \<Rightarrow> InstanceConfiguration list \<Rightarrow> ('st, 'w) sablier \<Rightarrow> string list \<times> ('st, 'w) sablier" where
  "unregistered_warm now [] s = ([], s)"
| "unregistered_warm now (c # cs) s =
     (case isStartedByUs now (c_Name c) s of
        (b, s1) \<Rightarrow>
          (case unregistered_warm now cs s1 of
             (ns, s2) \<Rightarrow> (if \<not> b then c_Name c # ns else ns, s2)))"

definition WarmAllUnregisteredInstances :: "time \<Rightarrow> ('st, 'w) sablier \<Rightarrow> goerror option \<times> ('st, 'w) sablier" where
  "WarmAllUnregisteredInstances now s =
     (case p_List (s_provider s) False (s_world s) of
        Inl err \<Rightarrow> (Some err, s)
      | Inr instances \<Rightarrow>
          (case unregistered_warm now instances s of
             (unregistered, s1) \<Rightarrow> (None, fold (seedSession now) unregistered s1)))"

definition warm_started :: "time \<Rightarrow> InstanceEvent \<Rightarrow> ('st, 'w) sablier \<Rightarrow> ('st, 'w) sablier" where
  "warm_started now info s =
     (if \<not> IsEnabled (ev_Info info) then s
      else case isStartedByUs now (i_Name (ev_Info info)) s of
             (True, s1) \<Rightarrow> s1
           | (False, s1) \<Rightarrow> seedSession now (i_Name (ev_Info info)) s1)"

section \<open>The loop of a watcher\<close>

datatype 's arrival =
    Cancelled
  | Arrived time InstanceEvent
  | EventsClosed
  | StreamFailed goerror
  | ErrClosed
  | Tick time
  | Elsewhere "'s \<Rightarrow> 's"

text \<open>
  \<open>ev\<close> and \<open>er\<close> say whether the two channels are still selected; what arrives on a channel that
  was set to nil is not received.
\<close>

fun select_loop :: "(time \<Rightarrow> InstanceEvent \<Rightarrow> 's \<Rightarrow> 's) \<Rightarrow> (time \<Rightarrow> 's \<Rightarrow> 's) \<Rightarrow> bool \<Rightarrow> bool \<Rightarrow> 's arrival list \<Rightarrow> 's \<Rightarrow> 's" where
  "select_loop handle tick ev er [] s = s"
| "select_loop handle tick ev er (Cancelled # as) s = s"
| "select_loop handle tick ev er (Arrived now e # as) s = select_loop handle tick ev er as (if ev then handle now e s else s)"
| "select_loop handle tick ev er (EventsClosed # as) s = select_loop handle tick False er as s"
| "select_loop handle tick ev er (StreamFailed err # as) s = select_loop handle tick (ev \<and> \<not> er) False as s"
| "select_loop handle tick ev er (ErrClosed # as) s = select_loop handle tick ev False as s"
| "select_loop handle tick ev er (Tick now # as) s = select_loop handle tick ev er as (tick now s)"
| "select_loop handle tick ev er (Elsewhere f # as) s = select_loop handle tick ev er as (f s)"

definition WatchAndStopExternallyStarted :: "('st, 'w) sablier arrival list \<Rightarrow> ('st, 'w) sablier \<Rightarrow> ('st, 'w) sablier" where
  "WatchAndStopExternallyStarted arrivals s =
     select_loop stop_started (\<lambda>now s. snd (StopAllUnregisteredInstances now s)) True True arrivals s"

definition WatchAndWarmExternallyStarted :: "('st, 'w) sablier arrival list \<Rightarrow> ('st, 'w) sablier \<Rightarrow> ('st, 'w) sablier" where
  "WatchAndWarmExternallyStarted arrivals s =
     select_loop warm_started (\<lambda>now s. snd (WarmAllUnregisteredInstances now s)) True True arrivals s"

section \<open>Keep-warm windows\<close>

fun running_hours_loop :: "location \<Rightarrow> time \<Rightarrow> InstanceConfiguration list \<Rightarrow> ('st, 'w) sablier \<Rightarrow> ('st, 'w) sablier" where
  "running_hours_loop loc now [] s = s"
| "running_hours_loop loc now (configured # cs) s =
     (if \<not> c_IsEnabled configured then running_hours_loop loc now cs s
      else case call_Inspect (c_Name configured) s of
             (Inl err, s1) \<Rightarrow> running_hours_loop loc now cs s1
           | (Inr info, s1) \<Rightarrow>
               if i_RunningHours info = [] then running_hours_loop loc now cs s1
               else case runningHoursRemaining loc (i_RunningHours info) (i_RunningDays info) now of
                      Inl err \<Rightarrow> running_hours_loop loc now cs s1
                    | Inr (remaining, inWindow) \<Rightarrow>
                        if \<not> inWindow \<or> remaining \<le> 0 then running_hours_loop loc now cs s1
                        else running_hours_loop loc now cs (snd (InstanceRequest loc now (i_Name info) remaining s1)))"

definition reconcileRunningHours :: "location \<Rightarrow> time \<Rightarrow> ('st, 'w) sablier \<Rightarrow> ('st, 'w) sablier" where
  "reconcileRunningHours loc now s =
     (case p_List (s_provider s) True (s_world s) of
        Inl err \<Rightarrow> s
      | Inr instances \<Rightarrow> running_hours_loop loc now instances s)"

definition WatchRunningHours :: "location \<Rightarrow> time \<Rightarrow> ('st, 'w) sablier arrival list \<Rightarrow> ('st, 'w) sablier \<Rightarrow> ('st, 'w) sablier" where
  "WatchRunningHours loc now arrivals s =
     select_loop (\<lambda>now e s. s) (reconcileRunningHours loc) False False arrivals (reconcileRunningHours loc now s)"

section \<open>Groups\<close>

definition handleGroupEvent :: "location \<Rightarrow> range_order \<Rightarrow> time \<Rightarrow> InstanceEvent \<Rightarrow> ('st, 'w) sablier \<Rightarrow> ('st, 'w) sablier" where
  "handleGroupEvent loc order now event s =
     (let s1 = handleAntiAffinityEvent loc now order event s
      in s1\<lparr>s_groups := group_event event (s_groups s1)\<rparr>)"

definition resync_groups :: "('st, 'w) sablier \<Rightarrow> ('st, 'w) sablier" where
  "resync_groups s = s\<lparr>s_groups := reconcileGroups (p_Groups (s_provider s) (s_world s)) (s_groups s)\<rparr>"

definition group_tick :: "location \<Rightarrow> range_order \<Rightarrow> time \<Rightarrow> ('st, 'w) sablier \<Rightarrow> ('st, 'w) sablier" where
  "group_tick loc order now s =
     (let s1 = resync_groups s
      in if hasAntiAffinity s1 then reconcileAntiAffinity loc now order (reconcileAntiAffinityRegistry s1) else s1)"

definition GroupWatch :: "location \<Rightarrow> range_order \<Rightarrow> ('st, 'w) sablier arrival list \<Rightarrow> ('st, 'w) sablier \<Rightarrow> ('st, 'w) sablier" where
  "GroupWatch loc order arrivals s =
     select_loop (handleGroupEvent loc order) (group_tick loc order) True True arrivals (resync_groups s)"

section \<open>Who is stopped\<close>

text \<open>Steps that only call the provider and the recorder.\<close>

lemma stopFunc_frame:
  "stopFunc n s = (e, s') \<Longrightarrow>
   s_trace s' = s_trace s @ [CallStop n] \<and> same_core s s' \<and> s_goroutines s' = s_goroutines s \<and>
   s_provider s' = s_provider s"
  by (auto simp: stopFunc_def call_Stop_def record_metric_def same_core_def split: prod.splits option.splits)

lemma stop_all_frame:
  "stop_all ns s = (e, s') \<Longrightarrow>
   s_trace s' = s_trace s @ map CallStop ns \<and> same_core s s' \<and> s_goroutines s' = s_goroutines s"
proof (induction ns arbitrary: s s' e)
  case Nil
  then show ?case by (simp add: same_core_def)
next
  case (Cons n ns)
  obtain e1 s1 where a: "stopFunc n s = (e1, s1)" by (cases "stopFunc n s")
  obtain e2 s2 where b: "stop_all ns s1 = (e2, s2)" by (cases "stop_all ns s1")
  from Cons.prems a b have "s' = s2" by simp
  with stopFunc_frame [OF a] Cons.IH [OF b] show ?case by (auto intro: same_core_trans)
qed

context session_store
begin

lemma isStartedByUs_quiet:
  assumes "sab_ok ops invar s" "isStartedByUs now n s = (b, s')"
  shows "quiet view invar now s s' \<and> (b \<longleftrightarrow> map_of (s_pendingStarts s) n \<noteq> None \<or> view now (s_sessions s) n \<noteq> None)"
proof -
  have st: "s_store s = ops" "invar (s_sessions s)" using assms(1) by (auto simp: sab_ok_def)
  show ?thesis
    using assms(2) sess_Get_quiet [OF st, of now n] quiet_refl [of invar s view now, OF st(2)]
    by (auto simp: isStartedByUs_def split: if_splits prod.splits sum.splits option.splits)
qed

lemma unregistered_loop_quiet:
  "sab_ok ops invar s \<Longrightarrow> unregistered_loop now cs s = (ns, s') \<Longrightarrow>
   quiet view invar now s s' \<and> ns = filter (\<lambda>n. view now (s_sessions s) n = None) (map c_Name cs)"
proof (induction cs arbitrary: s s' ns)
  case Nil
  then show ?case by (auto simp: sab_ok_def intro: quiet_refl)
next
  case (Cons c cs)
  obtain r s1 where g: "sess_Get now (c_Name c) s = (r, s1)" by (cases "sess_Get now (c_Name c) s")
  have G: "quiet view invar now s s1"
    "r = (case view now (s_sessions s) (c_Name c) of None \<Rightarrow> Inl ErrKeyNotFound | Some (i, at) \<Rightarrow> Inr i)"
    using sess_Get_quiet [OF _ _ g] Cons.prems(1) by (auto simp: sab_ok_def)
  obtain ms s2 where l: "unregistered_loop now cs s1 = (ms, s2)" by (cases "unregistered_loop now cs s1")
  note IH = Cons.IH [OF sab_ok_quiet [OF Cons.prems(1) G(1)] l]
  have v: "view now (s_sessions s1) = view now (s_sessions s)" using quiet_view [OF G(1)] by simp
  have "ns = (if view now (s_sessions s) (c_Name c) = None then c_Name c # ms else ms) \<and> s' = s2"
    using Cons.prems(2) g l G(2) by (auto split: option.splits)
  with IH v G(1) show ?case by (auto intro: quiet_trans)
qed

lemma stop_started_spec:
  assumes ok: "sab_ok ops invar s" and s': "s' = stop_started now e s"
  shows "(\<forall>j t. now \<le> t \<longrightarrow> view t (s_sessions s') j = view t (s_sessions s) j) \<and> s_goroutines s' = s_goroutines s \<and>
    s_trace s' = s_trace s @
      (if IsEnabled (ev_Info e) \<and> map_of (s_pendingStarts s) (i_Name (ev_Info e)) = None \<and>
          view now (s_sessions s) (i_Name (ev_Info e)) = None
       then [CallStop (i_Name (ev_Info e))] else [])"
proof (cases "IsEnabled (ev_Info e)")
  case False
  then show ?thesis by (simp add: s' stop_started_def)
next
  case True
  let ?n = "i_Name (ev_Info e)"
  obtain b s1 where i: "isStartedByUs now ?n s = (b, s1)" by (cases "isStartedByUs now ?n s")
  note I = isStartedByUs_quiet [OF ok i]
  then have q: "quiet view invar now s s1" by simp
  have "same_core s1 s' \<and> s_goroutines s' = s_goroutines s1 \<and> s_trace s' = s_trace s1 @ (if b then [] else [CallStop ?n])"
    using True i by (auto simp: s' stop_started_def call_Stop_def record_metric_def same_core_def split: prod.splits option.splits)
  with I quiet_fields [OF q] quiet_view [OF q] True show ?thesis
    by (auto simp: same_core_def)
qed

lemma StopAll_spec:
  assumes ok: "sab_ok ops invar s" and l: "p_List (s_provider s) False (s_world s) = Inr cs"
    and r: "StopAllUnregisteredInstances now s = (err, s')"
  shows "(\<forall>j t. now \<le> t \<longrightarrow> view t (s_sessions s') j = view t (s_sessions s) j) \<and> s_goroutines s' = s_goroutines s \<and>
    s_trace s' = s_trace s @ map CallStop (filter (\<lambda>n. view now (s_sessions s) n = None) (map c_Name cs))"
proof -
  obtain ns s1 where u: "unregistered_loop now cs s = (ns, s1)" by (cases "unregistered_loop now cs s")
  note U = unregistered_loop_quiet [OF ok u]
  then have q: "quiet view invar now s s1" by simp
  from r l u have "stop_all ns s1 = (err, s')" by (simp add: StopAllUnregisteredInstances_def)
  from stop_all_frame [OF this] U quiet_fields [OF q] quiet_view [OF q] show ?thesis
    by (auto simp: same_core_def)
qed

end

text \<open>
  C15: which instances Sablier stops because it did not start them. The event of a started
  instance leads to one stop exactly if the instance is labelled for Sablier, no start of it is
  pending and it has no live session. The periodic scan stops exactly the running instances
  without a live session, each once. Neither touches a session or starts anything.
\<close>

theorem externally_started_stopped:
  assumes "session_store ops view invar" "sab_ok ops invar s"
    and "p_List (s_provider s) False (s_world s) = Inr cs"
    and "s1 = stop_started now e s" "StopAllUnregisteredInstances now s = (err, s2)"
  shows "s_trace s1 = s_trace s @
      (if IsEnabled (ev_Info e) \<and> map_of (s_pendingStarts s) (i_Name (ev_Info e)) = None \<and>
          view now (s_sessions s) (i_Name (ev_Info e)) = None
       then [CallStop (i_Name (ev_Info e))] else []) \<and>
    s_trace s2 = s_trace s @ map CallStop (filter (\<lambda>n. view now (s_sessions s) n = None) (map c_Name cs)) \<and>
    (\<forall>j t. now \<le> t \<longrightarrow> view t (s_sessions s1) j = view t (s_sessions s) j \<and> view t (s_sessions s2) j = view t (s_sessions s) j) \<and>
    s_goroutines s1 = s_goroutines s \<and> s_goroutines s2 = s_goroutines s"
  using session_store.stop_started_spec [OF assms(1,2,4)] session_store.StopAll_spec [OF assms(1-3,5)] by simp

definition rivals_up :: "(InMemory, list_world) sablier" where
  "rivals_up = rivals_hub\<lparr>s_world :=
     map (\<lambda>n. (n, (stopped_instance n)\<lparr>i_Status := InstanceStatusReady\<rparr>)) [''web'', ''batch'']\<rparr>"

lemma rivals_up_ok: "sab_ok inmemory_ops kv_inv rivals_up" "named_starts rivals_up"
  and rivals_up_sessions: "s_sessions rivals_up = s_sessions rivals_hub"
  using rivals_hub_ok by (simp_all add: rivals_up_def sab_ok_def named_starts_def)

lemma rivals_up_list:
  "p_List (s_provider rivals_up) False (s_world rivals_up) =
     Inr (map (\<lambda>n. \<lparr>c_Name = n, c_Groups = [], c_Enabled = ''true''\<rparr>) [''web'', ''batch''])"
  by (simp add: rivals_up_def rivals_hub_def rivals_def named_provider_def list_provider_def sablier_New_def
      stopped_instance_def zero_InstanceInfo_def)

theorem externally_started_stopped_witness:
  "s_trace (snd (StopAllUnregisteredInstances 0 rivals_up)) = [CallStop ''batch''] \<and>
   s_trace (stop_started 0 \<lparr>ev_Type = InstanceEventStarted, ev_Info = stopped_instance ''batch''\<rparr> rivals_up) = [CallStop ''batch'']"
proof -
  have e: "IsEnabled (stopped_instance ''batch'')" by code_simp
  have t: "s_trace rivals_up = []" "s_pendingStarts rivals_up = []"
    by (simp_all add: rivals_up_def rivals_hub_def rivals_def sablier_New_def)
  have n: "i_Name (stopped_instance ''batch'') = ''batch''" by (simp add: stopped_instance_def)
  have "StopAllUnregisteredInstances 0 rivals_up =
      (fst (StopAllUnregisteredInstances 0 rivals_up), snd (StopAllUnregisteredInstances 0 rivals_up))" by simp
  from externally_started_stopped [OF mem.session_store_axioms rivals_up_ok(1) rivals_up_list refl this,
      of "\<lparr>ev_Type = InstanceEventStarted, ev_Info = stopped_instance ''batch''\<rparr>"]
  show ?thesis by (simp add: e t n rivals_up_sessions rivals_hub_view(2))
qed

text \<open>
  A dependency that Sablier started itself has neither a pending start nor a session, so
  the event of its start makes the watcher stop it, if it is labelled: here \<open>db\<close>, right after
  it was started for \<open>web\<close>.
\<close>

theorem own_dependency_stopped:
  "(case startWithDependencies demo_schedule ''web'' demo_sablier of
      Some (None, s) \<Rightarrow>
        starts (s_trace s) = [''db'', ''web''] \<and>
        s_trace (stop_started 0 \<lparr>ev_Type = InstanceEventStarted, ev_Info = stopped_instance ''db''\<rparr> s) =
          s_trace s @ [CallStop ''db'']
    | _ \<Rightarrow> False)"
  by code_simp

section \<open>Warming\<close>

context session_store
begin

definition seed_info :: "time \<Rightarrow> ('st, 'w) sablier \<Rightarrow> string \<Rightarrow> InstanceInfo option" where
  "seed_info now s n =
     (if view now (s_sessions s) n \<noteq> None then None
      else case p_Inspect (s_provider s) n (s_world s) of
             Inl e \<Rightarrow> None
           | Inr info \<Rightarrow> if i_Status info = InstanceStatusReady then Some info else None)"

definition seeded :: "time \<Rightarrow> ('st, 'w) sablier \<Rightarrow> time \<Rightarrow> string \<Rightarrow> (InstanceInfo \<times> time) option" where
  "seeded now s t n =
     (case seed_info now s n of
        None \<Rightarrow> view t (s_sessions s) n
      | Some info \<Rightarrow> if t \<le> now + s_DefaultSessionDuration s then Some (info, now + s_DefaultSessionDuration s) else None)"

text \<open>What seeding does: at most inspections, and new sessions for the default duration.\<close>

definition only_seeds :: "time \<Rightarrow> string set \<Rightarrow> ('st, 'w) sablier \<Rightarrow> ('st, 'w) sablier \<Rightarrow> bool" where
  "only_seeds now N s s' \<longleftrightarrow> sab_ok ops invar s' \<and> named_starts s' \<and> s_provider s' = s_provider s \<and> s_world s' = s_world s \<and>
     s_DefaultSessionDuration s' = s_DefaultSessionDuration s \<and> s_goroutines s' = s_goroutines s \<and>
     s_pendingStarts s' = s_pendingStarts s \<and> starts (s_trace s') = starts (s_trace s) \<and>
     (\<forall>t j. now \<le> t \<longrightarrow> view t (s_sessions s') j = (if j \<in> N then seeded now s t j else view t (s_sessions s) j))"

lemma seedSession_spec:
  assumes ok: "sab_ok ops invar s" and ns: "named_starts s"
  shows "only_seeds now {n} s (seedSession now n s)"
proof -
  obtain r s1 where g: "sess_Get now n s = (r, s1)" by (cases "sess_Get now n s")
  have q: "quiet view invar now s s1"
    and r: "r = (case view now (s_sessions s) n of None \<Rightarrow> Inl ErrKeyNotFound | Some (i, at) \<Rightarrow> Inr i)"
    using sess_Get_quiet [OF _ _ g] ok by (auto simp: sab_ok_def)
  from q obtain st where st: "s1 = s\<lparr>s_sessions := st\<rparr>" "invar st" "\<And>t. now \<le> t \<Longrightarrow> view t st = view t (s_sessions s)"
    by (auto simp: quiet_def)
  have ok1: "sab_ok ops invar (s1\<lparr>s_trace := tr\<rparr>)" for tr using ok st by (simp add: sab_ok_def)
  have same: "only_seeds now {n} s (s1\<lparr>s_trace := s_trace s1 @ tr\<rparr>)" if "seed_info now s n = None" "starts tr = []" for tr
    using that ok1 ns st by (simp add: only_seeds_def named_starts_def seeded_def)
  have same1: "only_seeds now {n} s s1" if "seed_info now s n = None" using same [OF that, of "[]"] by simp
  show ?thesis
  proof (cases "seed_info now s n")
    case None
    with r g st(1) same same1 show ?thesis
      by (auto simp: seedSession_def seed_info_def call_Inspect_def split: prod.splits sum.splits if_splits option.splits)
  next
    case (Some info)
    then have v: "view now (s_sessions s) n = None" and i: "p_Inspect (s_provider s) n (s_world s) = Inr info"
      and ready: "i_Status info = InstanceStatusReady"
      by (auto simp: seed_info_def simp del: not_None_eq split: sum.splits if_splits)
    define d where "d = s_DefaultSessionDuration s"
    define s2 where "s2 = s1\<lparr>s_trace := s_trace s1 @ [Inspected n (i_Status info)]\<rparr>"
    have c: "call_Inspect n s1 = (Inr info, s2)" using i st(1) by (simp add: call_Inspect_def s2_def)
    have name: "i_Name info = n" using ns i by (simp add: named_starts_def)
    obtain e s3 where p: "sess_Put now info d s2 = (e, s3)" by (cases "sess_Put now info d s2")
    have "s_store s2 = ops" "invar (s_sessions s2)" using ok1 by (auto simp: s2_def sab_ok_def)
    from sess_Put_view [OF this p] obtain st' where s3: "s3 = s2\<lparr>s_sessions := st'\<rparr>" and inv': "invar st'"
      and v': "\<And>t. view t st' = (view t (s_sessions s2))(n := if t \<le> now + d then Some (info, now + d) else None)"
      by (auto simp: name)
    have eq: "seedSession now n s = s3"
      using v r g c ready p st(1) by (simp add: seedSession_def s2_def d_def)
    have "sab_ok ops invar s3" using ok1 s3 inv' by (simp add: sab_ok_def s2_def)
    with ns st(1,3) v' Some show ?thesis
      unfolding eq by (simp add: only_seeds_def s3 named_starts_def s2_def d_def seeded_def)
  qed
qed

lemma seed_all_spec:
  assumes "sab_ok ops invar s" "named_starts s" "0 \<le> s_DefaultSessionDuration s"
  shows "only_seeds now (set ns) s (fold (seedSession now) ns s)"
  using assms
proof (induction ns arbitrary: s)
  case Nil
  then show ?case by (simp add: only_seeds_def)
next
  case (Cons n ns)
  define s1 where "s1 = seedSession now n s"
  have S: "only_seeds now {n} s s1" unfolding s1_def using Cons.prems by (intro seedSession_spec)
  then have "only_seeds now (set ns) s1 (fold (seedSession now) ns s1)"
    using Cons.prems by (intro Cons.IH) (simp_all add: only_seeds_def)
  moreover have "seeded now s1 t j = (if j = n then seeded now s t j else seeded now s t j)" if "now \<le> t" for t j
    using S that Cons.prems(3)
    by (auto simp: only_seeds_def seeded_def seed_info_def split: option.splits sum.splits)
  ultimately show ?case using S by (auto simp: only_seeds_def s1_def)
qed

lemma unregistered_warm_quiet:
  "sab_ok ops invar s \<Longrightarrow> unregistered_warm now cs s = (ns, s') \<Longrightarrow>
   quiet view invar now s s' \<and>
   ns = filter (\<lambda>n. map_of (s_pendingStarts s) n = None \<and> view now (s_sessions s) n = None) (map c_Name cs)"
proof (induction cs arbitrary: s s' ns)
  case Nil
  then show ?case by (auto simp: sab_ok_def intro: quiet_refl)
next
  case (Cons c cs)
  obtain b s1 where g: "isStartedByUs now (c_Name c) s = (b, s1)" by (cases "isStartedByUs now (c_Name c) s")
  note G = isStartedByUs_quiet [OF Cons.prems(1) g]
  then have q: "quiet view invar now s s1" by simp
  obtain ms s2 where l: "unregistered_warm now cs s1 = (ms, s2)" by (cases "unregistered_warm now cs s1")
  note IH = Cons.IH [OF sab_ok_quiet [OF Cons.prems(1) q] l]
  have v: "view now (s_sessions s1) = view now (s_sessions s)" "s_pendingStarts s1 = s_pendingStarts s"
    using quiet_view [OF q] quiet_fields [OF q] by simp_all
  have "ns = (if b then ms else c_Name c # ms) \<and> s' = s2" using Cons.prems(2) g l by auto
  with IH v G q show ?case by (auto intro: quiet_trans)
qed

lemma WarmAll_spec:
  assumes ok: "sab_ok ops invar s" and ns: "named_starts s" and d: "0 \<le> s_DefaultSessionDuration s"
    and l: "p_List (s_provider s) False (s_world s) = Inr cs"
  shows "only_seeds now {n \<in> c_Name ` set cs. map_of (s_pendingStarts s) n = None} s
    (snd (WarmAllUnregisteredInstances now s)) \<and> fst (WarmAllUnregisteredInstances now s) = None"
proof -
  obtain ms s1 where u: "unregistered_warm now cs s = (ms, s1)" by (cases "unregistered_warm now cs s")
  note U = unregistered_warm_quiet [OF ok u]
  then have q: "quiet view invar now s s1" by simp
  have st: "s_DefaultSessionDuration s1 = s_DefaultSessionDuration s" using q by (auto simp: quiet_def)
  have "only_seeds now (set ms) s1 (fold (seedSession now) ms s1)"
    using sab_ok_quiet [OF ok q] ns d quiet_fields [OF q]
    by (intro seed_all_spec) (simp_all add: named_starts_def st)
  moreover have "seeded now s1 t j = seeded now s t j" if "now \<le> t" for t j
    using quiet_fields [OF q]
    unfolding seeded_def seed_info_def st quiet_view [OF q that] quiet_view [OF q order_refl] by simp
  moreover have "seeded now s t j = view t (s_sessions s) j" if "view now (s_sessions s) j \<noteq> None" for t j
    using that by (simp add: seeded_def seed_info_def)
  ultimately show ?thesis
    using U quiet_fields [OF q] quiet_view [OF q] l u
    by (auto simp: only_seeds_def WarmAllUnregisteredInstances_def st)
qed

end

text \<open>
  Warming never disturbs: a scan starts and stops nothing, leaves every session that is
  live as it is, also those whose start is pending, and gives each ready instance that has
  none a session for the default duration.
\<close>

theorem externally_started_warmed:
  assumes "session_store ops view invar" "sab_ok ops invar s" "named_starts s" "0 \<le> s_DefaultSessionDuration s"
    and "p_List (s_provider s) False (s_world s) = Inr cs" "WarmAllUnregisteredInstances now s = (err, s')"
  shows "err = None \<and> s_world s' = s_world s \<and> s_goroutines s' = s_goroutines s \<and> starts (s_trace s') = starts (s_trace s) \<and>
    (\<forall>t j. now \<le> t \<longrightarrow> view t (s_sessions s') j =
       (case p_Inspect (s_provider s) j (s_world s) of
          Inl e \<Rightarrow> view t (s_sessions s) j
        | Inr info \<Rightarrow>
            if j \<in> c_Name ` set cs \<and> map_of (s_pendingStarts s) j = None \<and> view now (s_sessions s) j = None \<and>
               i_Status info = InstanceStatusReady
            then (if t \<le> now + s_DefaultSessionDuration s then Some (info, now + s_DefaultSessionDuration s) else None)
            else view t (s_sessions s) j))"
  using session_store.WarmAll_spec [OF assms(1-5), of now] assms(6)
  by (auto simp: session_store.only_seeds_def [OF assms(1)] session_store.seeded_def [OF assms(1)]
      session_store.seed_info_def [OF assms(1)] split: sum.splits)

theorem externally_started_warmed_witness:
  "map_option snd (inmemory_view 0 (s_sessions (snd (WarmAllUnregisteredInstances 0 rivals_up))) ''batch'') = Some (5 * Minute)"
proof -
  have d: "s_DefaultSessionDuration rivals_up = 5 * Minute"
    by (simp add: rivals_up_def rivals_hub_def rivals_def sablier_New_def)
  have i: "p_Inspect (s_provider rivals_up) ''batch'' (s_world rivals_up) =
      Inr ((stopped_instance ''batch'')\<lparr>i_Status := InstanceStatusReady\<rparr>)"
    and p: "s_pendingStarts rivals_up = []"
    by (simp_all add: rivals_up_def rivals_hub_def rivals_def named_provider_def sablier_New_def stopped_instance_def)
  have "WarmAllUnregisteredInstances 0 rivals_up =
      (fst (WarmAllUnregisteredInstances 0 rivals_up), snd (WarmAllUnregisteredInstances 0 rivals_up))" by simp
  from externally_started_warmed [OF mem.session_store_axioms rivals_up_ok _ rivals_up_list this] i p d
  show ?thesis by (simp add: rivals_up_sessions rivals_hub_view(2))
qed

section \<open>Keeping warm\<close>

text \<open>No start is recorded as failed, and a step that does not change that or the provider's state.\<close>

definition no_failed :: "('st, 'w) sablier \<Rightarrow> bool" where
  "no_failed s \<longleftrightarrow> (\<forall>ps\<in>set (s_psHeap s). ps_err ps = None)"

definition calm :: "('st, 'w) sablier \<Rightarrow> ('st, 'w) sablier \<Rightarrow> bool" where
  "calm s s' \<longleftrightarrow> s_world s' = s_world s \<and> s_antiAffinity s' = s_antiAffinity s \<and> (no_failed s \<longrightarrow> no_failed s')"

lemma calm_trans: "calm s s1 \<Longrightarrow> calm s1 s2 \<Longrightarrow> calm s s2"
  by (simp add: calm_def)

lemma calm_Inspect: "call_Inspect n s = (r, s') \<Longrightarrow> calm s s'"
  by (auto simp: call_Inspect_def calm_def no_failed_def split: sum.splits)

lemma calm_trigger: "calm s (triggerAntiAffinityReconcile s)"
  by (simp add: triggerAntiAffinityReconcile_def go_def calm_def no_failed_def)

lemma no_failed_pending:
  "no_failed s \<Longrightarrow> named_starts s \<Longrightarrow> map_of (s_pendingStarts s) n = Some p \<Longrightarrow> ps_err (s_psHeap s ! p) = None"
  by (simp add: no_failed_def named_starts_def)

lemma requestStart_succeeds:
  assumes "no_failed s" "named_starts s" "requestStart n False s = (r, s')"
  shows "calm s s' \<and> (\<exists>i. r = Inr i)"
  using assms no_failed_pending [OF assms(1,2), of n]
  by (auto simp: requestStart_def requestStart_check_def requestStart_inspect_def requestStart_register_def
      register_new_def go_def record_metric_def call_Inspect_def calm_def no_failed_def Let_def
      split: prod.splits option.splits sum.splits if_splits)

lemma refresh_state_succeeds:
  assumes "no_failed s" "named_starts s" "p_Inspect (s_provider s) n (s_world s) = Inr info"
    and "refresh_state now n st s = (r, s')"
  shows "calm s s' \<and> (\<exists>i. r = Inr i)"
  using assms no_failed_pending [OF assms(1,2), of n]
  by (auto simp: refresh_state_def consumePendingError_def record_metric_def call_Inspect_def calm_def no_failed_def Let_def
      split: prod.splits option.splits sum.splits if_splits) metis+

text \<open>The instances that a reconciliation of the windows requests, with the remaining time.\<close>

definition window_due :: "location \<Rightarrow> time \<Rightarrow> ('st, 'w) sablier \<Rightarrow> InstanceConfiguration \<Rightarrow> duration \<Rightarrow> bool" where
  "window_due loc now s c remaining \<longleftrightarrow> c_IsEnabled c \<and> 0 < remaining \<and>
     (\<exists>info. p_Inspect (s_provider s) (c_Name c) (s_world s) = Inr info \<and> i_RunningHours info \<noteq> [] \<and>
        runningHoursRemaining loc (i_RunningHours info) (i_RunningDays info) now = Inr (remaining, True))"

context session_store
begin

definition serving :: "time \<Rightarrow> ('st, 'w) sablier \<Rightarrow> bool" where
  "serving now s \<longleftrightarrow> sab_ok ops invar s \<and> named_starts s \<and> named_sessions view now s \<and> s_antiAffinity s = [] \<and> no_failed s"

lemma serving_trace: "serving now s \<Longrightarrow> serving now (s\<lparr>s_trace := tr\<rparr>)"
  by (simp add: serving_def sab_ok_def named_starts_def named_sessions_def no_failed_def member_of_def)

lemma serving_not_held: "serving now s \<Longrightarrow> \<not> held view now s n"
  by (simp add: serving_def held_def member_of_def)

lemma session_state_succeeds:
  assumes sv: "serving now s" and i: "p_Inspect (s_provider s) n (s_world s) = Inr info"
    and r: "session_state now n False s = (r, s')"
  shows "calm s s' \<and> (\<exists>st b. r = Inr (st, b))"
proof -
  obtain g s1 where g: "sess_Get now n s = (g, s1)" by (cases "sess_Get now n s")
  have q: "quiet view invar now s s1"
    and gr: "g = (case view now (s_sessions s) n of None \<Rightarrow> Inl ErrKeyNotFound | Some (i, at) \<Rightarrow> Inr i)"
    using sess_Get_quiet [OF _ _ g] sv by (auto simp: serving_def sab_ok_def)
  have s1: "no_failed s1" "named_starts s1" "p_Inspect (s_provider s1) n (s_world s1) = Inr info" "calm s s1"
    using sv i quiet_fields [OF q] by (auto simp: serving_def no_failed_def named_starts_def calm_def)
  show ?thesis
    using requestStart_succeeds [OF s1(1,2), of n] refresh_state_succeeds [OF s1(1-3), of now] r g gr s1(4) calm_trans [OF s1(4)]
    by (force simp: session_state_def split: option.splits prod.splits sum.splits)
qed

lemma instanceRequest_serves:
  assumes sv: "serving now s" and n: "n \<noteq> []" and i: "p_Inspect (s_provider s) n (s_world s) = Inr info"
    and r: "instanceRequest loc now n d False s = (r, s')" and d: "0 \<le> d"
  shows "serving now s' \<and> s_world s' = s_world s \<and>
    (\<exists>st at. view now (s_sessions s') n = Some (st, at) \<and> now + d \<le> at)"
proof -
  have ok: "sab_ok ops invar s" and ns: "named_starts s" "named_sessions view now s" and nf: "no_failed s"
    using sv by (auto simp: serving_def)
  obtain g s1 where h: "antiAffinityHold now n s = (g, s1)" by (cases "antiAffinityHold now n s")
  have g: "g = []" and q: "quiet view invar now s s1"
    using antiAffinityHold_quiet [OF ok h] serving_not_held [OF sv] by auto
  note F = quiet_frame [OF ok ns q, of n]
  have sv1: "serving now s1" using sv F quiet_fields [OF q] by (simp add: serving_def request_frame_def no_failed_def)
  obtain x s2 where ss: "session_state now n False s1 = (x, s2)" by (cases "session_state now n False s1")
  from session_state_succeeds [OF sv1 _ ss] i quiet_fields [OF q] obtain st b where x: "x = Inr (st, b)" and c2: "calm s1 s2"
    by auto
  have name: "i_Name st = n"
    using session_state_names [OF _ _ _ ss] sv1 x by (simp add: serving_def)
  define eff where "eff = effectiveDuration loc now st d"
  obtain e s3 where p: "sess_Put now st eff s2 = (e, s3)" by (cases "sess_Put now st eff s2")
  have ok2: "s_store s2 = ops" "invar (s_sessions s2)"
    using session_state_view [OF _ ss] sv1 by (auto simp: serving_def sab_ok_def)
  from sess_Put_view [OF ok2 p] obtain st' where e: "e = None" and s3: "s3 = s2\<lparr>s_sessions := st'\<rparr>"
    and v: "\<And>t. view t st' = (view t (s_sessions s2))(n := if t \<le> now + eff then Some (st, now + eff) else None)"
    by (auto simp: name)
  have s': "s' = (if b then triggerAntiAffinityReconcile s3 else s3)"
    using r h g ss x p e n by (auto simp: instanceRequest_def eff_def)
  have "calm s s1" "calm s2 s3" "calm s3 s'"
    using quiet_fields [OF q] s3 s' calm_trigger [of s3] by (simp_all add: calm_def no_failed_def)
  with c2 have "calm s s'" using calm_trans by blast
  moreover have "d \<le> eff" using effectiveDuration_bounds by (simp add: eff_def)
  moreover have "s_sessions s' = st'" using s' s3 by (simp add: triggerAntiAffinityReconcile_def go_def)
  ultimately show ?thesis
    using instanceRequest_frame [OF ok ns r] v d sv by (auto simp: serving_def request_frame_def calm_def)
qed

lemma running_hours_step:
  assumes sv: "serving now s" and n: "c_Name c \<noteq> []"
  obtains s1 where "running_hours_loop loc now (c # cs) s = running_hours_loop loc now cs s1"
    "serving now s1" "s_world s1 = s_world s" "s_provider s1 = s_provider s"
    "\<And>j. j \<noteq> c_Name c \<Longrightarrow> view now (s_sessions s1) j = view now (s_sessions s) j"
    "\<And>remaining. window_due loc now s c remaining \<Longrightarrow>
       \<exists>st at. view now (s_sessions s1) (c_Name c) = Some (st, at) \<and> now + remaining \<le> at"
proof (cases "\<exists>remaining. window_due loc now s c remaining")
  case True
  then obtain remaining info where en: "c_IsEnabled c" and pos: "0 < remaining" and rh: "i_RunningHours info \<noteq> []"
    and i: "p_Inspect (s_provider s) (c_Name c) (s_world s) = Inr info"
    and w: "runningHoursRemaining loc (i_RunningHours info) (i_RunningDays info) now = Inr (remaining, True)"
    by (auto simp: window_due_def)
  define s0 where "s0 = s\<lparr>s_trace := s_trace s @ [Inspected (c_Name c) (i_Status info)]\<rparr>"
  have sv0: "serving now s0"
    using serving_trace [OF sv] by (simp add: s0_def)
  have name: "i_Name info = c_Name c" using sv i by (simp add: serving_def named_starts_def)
  obtain r s1 where r: "instanceRequest loc now (c_Name c) remaining False s0 = (r, s1)"
    by (cases "instanceRequest loc now (c_Name c) remaining False s0")
  have S: "serving now s1" "s_world s1 = s_world s"
      "\<exists>st at. view now (s_sessions s1) (c_Name c) = Some (st, at) \<and> now + remaining \<le> at"
    using instanceRequest_serves [OF sv0 n _ r] i pos by (auto simp: s0_def)
  have F: "request_frame now (c_Name c) s0 s1"
    using instanceRequest_frame [OF _ _ _ r] sv0 by (simp add: serving_def)
  show thesis
  proof (rule that [of s1])
    show "running_hours_loop loc now (c # cs) s = running_hours_loop loc now cs s1"
      using en i rh w pos r name by (simp add: call_Inspect_def s0_def InstanceRequest_def)
    show "\<exists>st at. view now (s_sessions s1) (c_Name c) = Some (st, at) \<and> now + rem \<le> at"
      if "window_due loc now s c rem" for rem using that i w S(3) by (auto simp: window_due_def)
  qed (use S F in \<open>auto simp: request_frame_def s0_def\<close>)
next
  case False
  define tr where "tr = (case (if c_IsEnabled c then p_Inspect (s_provider s) (c_Name c) (s_world s) else Inl ctx_Err) of
      Inl e \<Rightarrow> [] | Inr info \<Rightarrow> [Inspected (c_Name c) (i_Status info)])"
  show thesis
  proof (rule that [of "s\<lparr>s_trace := s_trace s @ tr\<rparr>"])
    show "running_hours_loop loc now (c # cs) s = running_hours_loop loc now cs (s\<lparr>s_trace := s_trace s @ tr\<rparr>)"
      using False
      by (auto simp: call_Inspect_def tr_def window_due_def split: sum.splits prod.splits) (metis not_le)
    show "serving now (s\<lparr>s_trace := s_trace s @ tr\<rparr>)"
      using sv by (rule serving_trace)
  qed (use False in auto)
qed

lemma running_hours_loop_warm:
  "serving now s \<Longrightarrow> distinct (map c_Name cs) \<Longrightarrow> [] \<notin> set (map c_Name cs) \<Longrightarrow>
   (\<forall>j. j \<notin> c_Name ` set cs \<longrightarrow> view now (s_sessions (running_hours_loop loc now cs s)) j = view now (s_sessions s) j) \<and>
   (\<forall>c remaining. c \<in> set cs \<longrightarrow> window_due loc now s c remaining \<longrightarrow>
      (\<exists>st at. view now (s_sessions (running_hours_loop loc now cs s)) (c_Name c) = Some (st, at) \<and> now + remaining \<le> at))"
proof (induction cs arbitrary: s)
  case (Cons c cs)
  from Cons.prems have "c_Name c \<noteq> []" by auto
  from running_hours_step [OF Cons.prems(1) this, of loc cs] obtain s1 where
    eq: "running_hours_loop loc now (c # cs) s = running_hours_loop loc now cs s1"
    and s1: "serving now s1" "s_world s1 = s_world s" "s_provider s1 = s_provider s"
    and other: "\<And>j. j \<noteq> c_Name c \<Longrightarrow> view now (s_sessions s1) j = view now (s_sessions s) j"
    and warm: "\<And>remaining. window_due loc now s c remaining \<Longrightarrow>
       \<exists>st at. view now (s_sessions s1) (c_Name c) = Some (st, at) \<and> now + remaining \<le> at"
    by blast
  have iw: "window_due loc now s1 = window_due loc now s" using s1 by (simp add: window_due_def fun_eq_iff)
  have IH: "\<And>j. j \<notin> c_Name ` set cs \<Longrightarrow> view now (s_sessions (running_hours_loop loc now cs s1)) j = view now (s_sessions s1) j"
    "\<And>c remaining. c \<in> set cs \<Longrightarrow> window_due loc now s c remaining \<Longrightarrow>
      \<exists>st at. view now (s_sessions (running_hours_loop loc now cs s1)) (c_Name c) = Some (st, at) \<and> now + remaining \<le> at"
    using Cons.IH [OF s1(1)] Cons.prems(2,3) iw by auto
  have "c_Name c \<notin> c_Name ` set cs" using Cons.prems(2) by auto
  then show ?case unfolding eq using IH other warm by auto
qed simp

end


definition office :: "InstanceInfo" where
  "office = (stopped_instance ''web'')\<lparr>i_RunningHours := ''09:00-18:00''\<rparr>"

definition office_sablier :: "(InMemory, list_world) sablier" where
  "office_sablier = sablier_New inmemory_ops NewInMemory named_provider [(''web'', office)]"


text \<open>
  The same reconciliation shortens a longer session: a session that was requested at 17:30
  for four hours ends at 18:00, the end of the window, after the next reconciliation.
\<close>

theorem running_hours_shorten_session:
  "(let at = 17 * Hour + 30 * Minute;
        s = office_sablier\<lparr>s_sessions := snd (InMemory_Put at office (4 * Hour) NewInMemory)\<rparr>
    in map snd (fst (InMemory_Range at (s_sessions s))) = [at + 4 * Hour] \<and>
       map snd (fst (InMemory_Range at (s_sessions (reconcileRunningHours (fixed_zone 0) at s)))) = [18 * Hour])"
  by code_simp

end
