(* ===== verification/Configuration.thy ===== *)
theory Configuration
  imports Go_Lib
begin

text \<open>
  The configuration (\<open>pkg/config\<close>) and how it is put together from the command line, the environment
  and the configuration file (\<open>pkg/sabliercmd/root.go\<close>).

  A struct is a record with its fields. The flags of the command are a table from names to typed
  values; the variables they are bound to are the fields of the configuration, so that the
  configuration is a function of the table (\<open>conf_of\<close>). The libraries pflag and viper are
  parameters: how the text of a value is parsed into a flag, and what is found for a key in the
  environment and the file. A floating-point number is its mantissa and its binary exponent.
\<close>

section \<open>The structs\<close>

datatype float_value = Float int int

record MetricsConfig =
  mc_Enabled :: bool

record Server =
  sc_Port :: int
  sc_BasePath :: string
  sc_Metrics :: MetricsConfig

record Storage =
  st_File :: string

record Kubernetes =
  kc_QPS :: float_value
  kc_Burst :: int
  kc_Delimiter :: string
  kc_ReadyOnFirstReplica :: bool

record Podman =
  pc_Uri :: string

record Docker =
  dc_Strategy :: string
  dc_HonorRestartPolicy :: bool

record Systemd =
  yc_UserInstance :: bool
  yc_UnitPatterns :: "string list"

record ProxmoxLXC =
  xc_URL :: string
  xc_TokenID :: string
  xc_TokenSecret :: string
  xc_TLSInsecure :: bool

record Provider =
  pv_Name :: string
  pv_AutoStopOnStartup :: bool
  pv_AutoStopExternallyStarted :: bool
  pv_AutoWarmExternallyStarted :: bool
  pv_RejectUnlabeledRequests :: bool
  pv_VerifyEnabledOnExpiration :: bool
  pv_Kubernetes :: Kubernetes
  pv_Podman :: Podman
  pv_Docker :: Docker
  pv_ProxmoxLXC :: ProxmoxLXC
  pv_Systemd :: Systemd

record Sessions =
  ss_DefaultDuration :: duration
  ss_ExpirationInterval :: duration

record Logging =
  lg_Level :: string

record DynamicStrategy =
  ds_CustomThemesPath :: string
  ds_ShowDetailsByDefault :: bool
  ds_DefaultTheme :: string
  ds_DefaultRefreshFrequency :: duration

record BlockingStrategy =
  bs_DefaultTimeout :: duration
  bs_DefaultRefreshFrequency :: duration

record Strategy =
  sg_Dynamic :: DynamicStrategy
  sg_Blocking :: BlockingStrategy

record WebhookEndpoint =
  we_URL :: string
  we_Headers :: "(string, string) gomap"
  we_Events :: "string list"

record Webhooks =
  wh_Endpoints :: "WebhookEndpoint list"

record Tracing =
  tr_Enabled :: bool
  tr_ExporterType :: string
  tr_Endpoint :: string
  tr_ServiceName :: string
  tr_SamplingRate :: float_value

record Config =
  cf_Server :: Server
  cf_Storage :: Storage
  cf_Provider :: Provider
  cf_Sessions :: Sessions
  cf_Logging :: Logging
  cf_Strategy :: Strategy
  cf_Webhooks :: Webhooks
  cf_Tracing :: Tracing

section \<open>Defaults\<close>

definition NewServerConfig :: Server where
  "NewServerConfig = \<lparr>sc_Port = 10000, sc_BasePath = ''/'', sc_Metrics = \<lparr>mc_Enabled = False\<rparr>\<rparr>"

definition NewStorageConfig :: Storage where
  "NewStorageConfig = \<lparr>st_File = []\<rparr>"

definition NewProviderConfig :: Provider where
  "NewProviderConfig =
     \<lparr>pv_Name = ''docker'', pv_AutoStopOnStartup = True, pv_AutoStopExternallyStarted = False,
      pv_AutoWarmExternallyStarted = False, pv_RejectUnlabeledRequests = False,
      pv_VerifyEnabledOnExpiration = False,
      pv_Kubernetes = \<lparr>kc_QPS = Float 5 0, kc_Burst = 10, kc_Delimiter = ''_'', kc_ReadyOnFirstReplica = False\<rparr>,
      pv_Podman = \<lparr>pc_Uri = ''unix:///run/podman/podman.sock''\<rparr>,
      pv_Docker = \<lparr>dc_Strategy = ''stop'', dc_HonorRestartPolicy = False\<rparr>,
      pv_ProxmoxLXC = \<lparr>xc_URL = [], xc_TokenID = [], xc_TokenSecret = [], xc_TLSInsecure = False\<rparr>,
      pv_Systemd = \<lparr>yc_UserInstance = False, yc_UnitPatterns = []\<rparr>\<rparr>"

definition NewSessionsConfig :: Sessions where
  "NewSessionsConfig = \<lparr>ss_DefaultDuration = 5 * Minute, ss_ExpirationInterval = 20 * Second\<rparr>"

text \<open>The name of the level is \<open>INFO\<close>.\<close>

definition NewLoggingConfig :: Logging where
  "NewLoggingConfig = \<lparr>lg_Level = ToLower ''INFO''\<rparr>"

definition DefaultCustomThemesPath :: string where
  "DefaultCustomThemesPath = ''/etc/sablier/themes''"

definition newDynamicStrategy :: DynamicStrategy where
  "newDynamicStrategy =
     \<lparr>ds_CustomThemesPath = DefaultCustomThemesPath, ds_ShowDetailsByDefault = True,
      ds_DefaultTheme = ''hacker-terminal'', ds_DefaultRefreshFrequency = 5 * Second\<rparr>"

definition newBlockingStrategy :: BlockingStrategy where
  "newBlockingStrategy = \<lparr>bs_DefaultTimeout = 1 * Minute, bs_DefaultRefreshFrequency = 5 * Second\<rparr>"

definition NewStrategyConfig :: Strategy where
  "NewStrategyConfig = \<lparr>sg_Dynamic = newDynamicStrategy, sg_Blocking = newBlockingStrategy\<rparr>"

definition NewWebhooksConfig :: Webhooks where
  "NewWebhooksConfig = \<lparr>wh_Endpoints = []\<rparr>"

definition NewTracingConfig :: Tracing where
  "NewTracingConfig =
     \<lparr>tr_Enabled = False, tr_ExporterType = ''otlphttp'', tr_Endpoint = ''http://localhost:4318'',
      tr_ServiceName = ''sablier'', tr_SamplingRate = Float 1 0\<rparr>"

definition NewConfig :: Config where
  "NewConfig =
     \<lparr>cf_Server = NewServerConfig, cf_Storage = NewStorageConfig, cf_Provider = NewProviderConfig,
      cf_Sessions = NewSessionsConfig, cf_Logging = NewLoggingConfig, cf_Strategy = NewStrategyConfig,
      cf_Webhooks = NewWebhooksConfig, cf_Tracing = NewTracingConfig\<rparr>"

section \<open>Validity\<close>

datatype config_error =
    MutuallyExclusive
  | UnrecognizedProvider string
  | UnrecognizedStrategy string
  | MissingURL
  | MissingTokenID
  | MissingTokenSecret

definition providers :: "string list" where
  "providers = [''docker'', ''docker_swarm'', ''swarm'', ''kubernetes'', ''podman'', ''proxmox_lxc'', ''systemd'']"

definition dockerStrategies :: "string list" where
  "dockerStrategies = [''stop'', ''pause'']"

definition Docker_IsValid :: "Docker \<Rightarrow> config_error option" where
  "Docker_IsValid d = (if dc_Strategy d \<in> set dockerStrategies then None else Some (UnrecognizedStrategy (dc_Strategy d)))"

definition ProxmoxLXC_IsValid :: "ProxmoxLXC \<Rightarrow> config_error option" where
  "ProxmoxLXC_IsValid p =
     (if xc_URL p = [] then Some MissingURL
      else if xc_TokenID p = [] then Some MissingTokenID
      else if xc_TokenSecret p = [] then Some MissingTokenSecret
      else None)"

text \<open>The body of the loop over the known providers.\<close>

fun find_provider :: "string list \<Rightarrow> Provider \<Rightarrow> config_error option" where
  "find_provider [] pr = Some (UnrecognizedProvider (pv_Name pr))"
| "find_provider (p # ps) pr =
     (if p = pv_Name pr then
        (case (if p = ''docker'' then Docker_IsValid (pv_Docker pr) else None) of
           Some err \<Rightarrow> Some err
         | None \<Rightarrow>
             (case (if p = ''proxmox_lxc'' then ProxmoxLXC_IsValid (pv_ProxmoxLXC pr) else None) of
                Some err \<Rightarrow> Some err
              | None \<Rightarrow> None))
      else find_provider ps pr)"

definition Provider_IsValid :: "Provider \<Rightarrow> config_error option" where
  "Provider_IsValid pr =
     (if pv_AutoStopExternallyStarted pr \<and> pv_AutoWarmExternallyStarted pr then Some MutuallyExclusive
      else find_provider providers pr)"

section \<open>Flags\<close>

datatype flag_value =
    StringV string
  | BoolV bool
  | IntV int
  | FloatV float_value
  | DurationV duration
  | SliceV "string list"

definition NewRootCommand_flags :: "(string \<times> flag_value) list" where
  "NewRootCommand_flags =
     [(''provider.name'', StringV ''docker''),
      (''provider.auto-stop-on-startup'', BoolV True),
      (''provider.auto-stop-externally-started'', BoolV False),
      (''provider.auto-warm-externally-started'', BoolV False),
      (''provider.reject-unlabeled-requests'', BoolV False),
      (''provider.verify-enabled-on-expiration'', BoolV False),
      (''provider.kubernetes.qps'', FloatV (Float 5 0)),
      (''provider.kubernetes.burst'', IntV 10),
      (''provider.kubernetes.delimiter'', StringV ''_''),
      (''provider.kubernetes.ready-on-first-replica'', BoolV False),
      (''provider.podman.uri'', StringV ''unix:///run/podman/podman.sock''),
      (''provider.docker.strategy'', StringV ''stop''),
      (''provider.docker.honor-restart-policy'', BoolV False),
      (''provider.proxmox-lxc.url'', StringV []),
      (''provider.proxmox-lxc.token-id'', StringV []),
      (''provider.proxmox-lxc.token-secret'', StringV []),
      (''provider.proxmox-lxc.tls-insecure'', BoolV False),
      (''provider.systemd.user-instance'', BoolV False),
      (''provider.systemd.unit-patterns'', SliceV []),
      (''server.port'', IntV 10000),
      (''server.base-path'', StringV ''/''),
      (''server.metrics.enabled'', BoolV False),
      (''tracing.enabled'', BoolV False),
      (''tracing.exporter-type'', StringV ''otlphttp''),
      (''tracing.endpoint'', StringV ''http://localhost:4318''),
      (''tracing.service-name'', StringV ''sablier''),
      (''tracing.sampling-rate'', FloatV (Float 1 0)),
      (''storage.file'', StringV []),
      (''sessions.default-duration'', DurationV (5 * Minute)),
      (''sessions.expiration-interval'', DurationV (20 * Second)),
      (''logging.level'', StringV (ToLower ''INFO'')),
      (''strategy.dynamic.custom-themes-path'', StringV DefaultCustomThemesPath),
      (''strategy.dynamic.default-theme'', StringV ''hacker-terminal''),
      (''strategy.dynamic.show-details-by-default'', BoolV True),
      (''strategy.dynamic.default-refresh-frequency'', DurationV (5 * Second)),
      (''strategy.blocking.default-timeout'', DurationV (1 * Minute)),
      (''strategy.blocking.default-refresh-frequency'', DurationV (5 * Second))]"

text \<open>The variables of the flags: a field of the configuration reads the value of its flag.\<close>

fun string_of :: "flag_value option \<Rightarrow> string" where
  "string_of (Some (StringV s)) = s" | "string_of _ = []"

fun bool_of :: "flag_value option \<Rightarrow> bool" where
  "bool_of (Some (BoolV b)) = b" | "bool_of _ = False"

fun int_of :: "flag_value option \<Rightarrow> int" where
  "int_of (Some (IntV i)) = i" | "int_of _ = 0"

fun float_of :: "flag_value option \<Rightarrow> float_value" where
  "float_of (Some (FloatV r)) = r" | "float_of _ = Float 0 0"

fun duration_of :: "flag_value option \<Rightarrow> duration" where
  "duration_of (Some (DurationV d)) = d" | "duration_of _ = 0"

fun slice_of :: "flag_value option \<Rightarrow> string list" where
  "slice_of (Some (SliceV s)) = s" | "slice_of _ = []"

definition conf_of :: "(string \<Rightarrow> flag_value option) \<Rightarrow> Webhooks \<Rightarrow> Config" where
  "conf_of v webhooks =
     \<lparr>cf_Server = \<lparr>sc_Port = int_of (v ''server.port''), sc_BasePath = string_of (v ''server.base-path''),
        sc_Metrics = \<lparr>mc_Enabled = bool_of (v ''server.metrics.enabled'')\<rparr>\<rparr>,
      cf_Storage = \<lparr>st_File = string_of (v ''storage.file'')\<rparr>,
      cf_Provider =
        \<lparr>pv_Name = string_of (v ''provider.name''),
         pv_AutoStopOnStartup = bool_of (v ''provider.auto-stop-on-startup''),
         pv_AutoStopExternallyStarted = bool_of (v ''provider.auto-stop-externally-started''),
         pv_AutoWarmExternallyStarted = bool_of (v ''provider.auto-warm-externally-started''),
         pv_RejectUnlabeledRequests = bool_of (v ''provider.reject-unlabeled-requests''),
         pv_VerifyEnabledOnExpiration = bool_of (v ''provider.verify-enabled-on-expiration''),
         pv_Kubernetes = \<lparr>kc_QPS = float_of (v ''provider.kubernetes.qps''),
           kc_Burst = int_of (v ''provider.kubernetes.burst''),
           kc_Delimiter = string_of (v ''provider.kubernetes.delimiter''),
           kc_ReadyOnFirstReplica = bool_of (v ''provider.kubernetes.ready-on-first-replica'')\<rparr>,
         pv_Podman = \<lparr>pc_Uri = string_of (v ''provider.podman.uri'')\<rparr>,
         pv_Docker = \<lparr>dc_Strategy = string_of (v ''provider.docker.strategy''),
           dc_HonorRestartPolicy = bool_of (v ''provider.docker.honor-restart-policy'')\<rparr>,
         pv_ProxmoxLXC = \<lparr>xc_URL = string_of (v ''provider.proxmox-lxc.url''),
           xc_TokenID = string_of (v ''provider.proxmox-lxc.token-id''),
           xc_TokenSecret = string_of (v ''provider.proxmox-lxc.token-secret''),
           xc_TLSInsecure = bool_of (v ''provider.proxmox-lxc.tls-insecure'')\<rparr>,
         pv_Systemd = \<lparr>yc_UserInstance = bool_of (v ''provider.systemd.user-instance''),
           yc_UnitPatterns = slice_of (v ''provider.systemd.unit-patterns'')\<rparr>\<rparr>,
      cf_Sessions = \<lparr>ss_DefaultDuration = duration_of (v ''sessions.default-duration''),
        ss_ExpirationInterval = duration_of (v ''sessions.expiration-interval'')\<rparr>,
      cf_Logging = \<lparr>lg_Level = string_of (v ''logging.level'')\<rparr>,
      cf_Strategy =
        \<lparr>sg_Dynamic = \<lparr>ds_CustomThemesPath = string_of (v ''strategy.dynamic.custom-themes-path''),
           ds_ShowDetailsByDefault = bool_of (v ''strategy.dynamic.show-details-by-default''),
           ds_DefaultTheme = string_of (v ''strategy.dynamic.default-theme''),
           ds_DefaultRefreshFrequency = duration_of (v ''strategy.dynamic.default-refresh-frequency'')\<rparr>,
         sg_Blocking = \<lparr>bs_DefaultTimeout = duration_of (v ''strategy.blocking.default-timeout''),
           bs_DefaultRefreshFrequency = duration_of (v ''strategy.blocking.default-refresh-frequency'')\<rparr>\<rparr>,
      cf_Webhooks = webhooks,
      cf_Tracing = \<lparr>tr_Enabled = bool_of (v ''tracing.enabled''),
        tr_ExporterType = string_of (v ''tracing.exporter-type''),
        tr_Endpoint = string_of (v ''tracing.endpoint''),
        tr_ServiceName = string_of (v ''tracing.service-name''),
        tr_SamplingRate = float_of (v ''tracing.sampling-rate'')\<rparr>\<rparr>"

section \<open>Slices as text\<close>

text \<open>
  \<open>csv.Writer.Write\<close> with its defaults: a field is quoted when it is a backslash and a dot, holds a
  comma, a quote or a line break, or starts with a space. Spaces outside ASCII are not considered.
\<close>

definition fieldNeedsQuotes :: "string \<Rightarrow> bool" where
  "fieldNeedsQuotes field \<longleftrightarrow>
     field \<noteq> [] \<and>
     (field = [CHR 0x5C, CHR ''.''] \<or>
      (\<exists>c \<in> set field. c \<in> {CHR 0x0A, CHR 0x0D, CHR 0x22, CHR '',''}) \<or> is_space (hd field))"

definition csv_field :: "string \<Rightarrow> string" where
  "csv_field field =
     (if \<not> fieldNeedsQuotes field then field
      else [CHR 0x22] @ concat (map (\<lambda>c. if c = CHR 0x22 then [c, c] else [c]) field) @ [CHR 0x22])"

definition csv_Write :: "string list \<Rightarrow> string" where
  "csv_Write values = Join (map csv_field values) '','' @ [CHR 0x0A]"

definition TrimSuffix :: "string \<Rightarrow> string \<Rightarrow> string" where
  "TrimSuffix s suffix = rev (TrimPrefix (rev s) (rev suffix))"

definition stringSliceToString :: "string list \<Rightarrow> string" where
  "stringSliceToString values = TrimSuffix (csv_Write values) [CHR 0x0A]"

text \<open>
  \<open>csv.Reader.Read\<close> with its defaults, for the one record that a flag is given: a line break ends
  the record outside quotes, a carriage return before it is dropped, and a quote must be
  escaped. Empty lines are skipped. \<open>None\<close> is a parse error or the end of the input. The arguments
  are the part of the field read so far, backwards.
\<close>

fun crlf :: "string \<Rightarrow> string" where
  "crlf [] = []"
| "crlf [c] = (if c = CHR 0x0D then [] else [c])"
| "crlf (c # d # s) = (if c = CHR 0x0D \<and> d = CHR 0x0A then crlf (d # s) else c # crlf (d # s))"

function (sequential) csv_start :: "string \<Rightarrow> string list option"
  and csv_bare :: "string \<Rightarrow> string \<Rightarrow> string list option"
  and csv_quoted :: "string \<Rightarrow> string \<Rightarrow> string list option" where
  "csv_start [] = Some [[]]"
| "csv_start (c # s) = (if c = CHR 0x22 then csv_quoted [] s else csv_bare [] (c # s))"
| "csv_bare acc [] = Some [rev acc]"
| "csv_bare acc (c # s) =
     (if c = CHR '','' then map_option ((#) (rev acc)) (csv_start s)
      else if c = CHR 0x0A then Some [rev acc]
      else if c = CHR 0x22 then None
      else csv_bare (c # acc) s)"
| "csv_quoted acc [] = None"
| "csv_quoted acc (c # s) =
     (if c \<noteq> CHR 0x22 then csv_quoted (c # acc) s
      else case s of
             [] \<Rightarrow> Some [rev acc]
           | d # s' \<Rightarrow>
               if d = CHR 0x22 then csv_quoted (d # acc) s'
               else if d = CHR '','' then map_option ((#) (rev acc)) (csv_start s')
               else if d = CHR 0x0A then Some [rev acc]
               else None)"
  by pat_completeness auto
termination
  by (relation "measure (\<lambda>x. case x of Inl s \<Rightarrow> 2 * length s + 1 | Inr (Inl (acc, s)) \<Rightarrow> 2 * length s | Inr (Inr (acc, s)) \<Rightarrow> 2 * length s)")
    auto

definition csv_Read :: "string \<Rightarrow> string list option" where
  "csv_Read s = (case dropWhile (\<lambda>c. c = CHR 0x0A) (crlf s) of [] \<Rightarrow> None | c # t \<Rightarrow> csv_start (c # t))"

section \<open>Binding\<close>

definition upper_char :: "char \<Rightarrow> char" where
  "upper_char c = (let n = of_char c :: nat in if 97 \<le> n \<and> n \<le> 122 then char_of (n - 32) else c)"

definition ToUpper :: "string \<Rightarrow> string" where
  "ToUpper s = map upper_char s"

text \<open>\<open>strings.ReplaceAll\<close> of one byte by another.\<close>

definition ReplaceAll :: "string \<Rightarrow> char \<Rightarrow> char \<Rightarrow> string" where
  "ReplaceAll s old new = map (\<lambda>c. if c = old then new else c) s"

definition envVar :: "string \<Rightarrow> string" where
  "envVar name = ToUpper (ReplaceAll (ToUpper (ReplaceAll name (CHR ''-'') (CHR ''_''))) (CHR ''.'') (CHR ''_''))"

record flag =
  fg_Name :: string
  fg_Value :: flag_value
  fg_Changed :: bool

text \<open>
  What viper finds for a key that is bound to environment variables: whether it is set, the text of
  its value, and its value as a slice.
\<close>

record viper =
  vp_IsSet :: "string list \<Rightarrow> string \<Rightarrow> bool"
  vp_Get :: "string list \<Rightarrow> string \<Rightarrow> string"
  vp_GetStringSlice :: "string list \<Rightarrow> string \<Rightarrow> string list"

definition bind_flag :: "(flag_value \<Rightarrow> string \<Rightarrow> flag_value) \<Rightarrow> viper \<Rightarrow> flag \<Rightarrow> flag" where
  "bind_flag flag_Set v f =
     (let env = envVar (fg_Name f); bound = [env, ''SABLIER_'' @ env]
      in if \<not> fg_Changed f \<and> vp_IsSet v bound (fg_Name f) then
           (case fg_Value f of
              SliceV _ \<Rightarrow>
                f\<lparr>fg_Value := flag_Set (fg_Value f) (stringSliceToString (vp_GetStringSlice v bound (fg_Name f)))\<rparr>
            | _ \<Rightarrow> f\<lparr>fg_Value := flag_Set (fg_Value f) (vp_Get v bound (fg_Name f))\<rparr>)
         else f)"

definition bindFlags :: "(flag_value \<Rightarrow> string \<Rightarrow> flag_value) \<Rightarrow> viper \<Rightarrow> flag list \<Rightarrow> flag list" where
  "bindFlags flag_Set v fs = map (bind_flag flag_Set v) fs"

datatype 'e read_config = ReadOk | NotFound | ReadError 'e

definition initializeConfig :: "(flag_value \<Rightarrow> string \<Rightarrow> flag_value) \<Rightarrow> 'e read_config \<Rightarrow> viper \<Rightarrow> ('e + Webhooks) \<Rightarrow>
    flag list \<Rightarrow> 'e option \<times> flag list \<times> Webhooks" where
  "initializeConfig flag_Set readInConfig v webhooks fs =
     (case readInConfig of
        ReadError err \<Rightarrow> (Some err, fs, NewWebhooksConfig)
      | _ \<Rightarrow>
          (let fs' = bindFlags flag_Set v fs
           in case webhooks of
                Inl err \<Rightarrow> (Some err, fs', NewWebhooksConfig)
              | Inr w \<Rightarrow> (None, fs', w)))"

definition flag_values :: "flag list \<Rightarrow> string \<Rightarrow> flag_value option" where
  "flag_values fs = map_of (map (\<lambda>f. (fg_Name f, fg_Value f)) fs)"

text \<open>The flags after the command line was parsed: \<open>args\<close> are the values it gives.\<close>

definition parsed_flags :: "(string \<rightharpoonup> flag_value) \<Rightarrow> flag list" where
  "parsed_flags args =
     map (\<lambda>(n, d). case args n of None \<Rightarrow> \<lparr>fg_Name = n, fg_Value = d, fg_Changed = False\<rparr>
                    | Some x \<Rightarrow> \<lparr>fg_Name = n, fg_Value = x, fg_Changed = True\<rparr>)
       NewRootCommand_flags"

section \<open>Reading slices back\<close>

definition no_crlf :: "string \<Rightarrow> bool" where
  "no_crlf s = successively (\<lambda>c d. \<not> (c = CHR 0x0D \<and> d = CHR 0x0A)) s"

lemma crlf_id: "no_crlf s \<Longrightarrow> s = [] \<or> last s \<noteq> CHR 0x0D \<Longrightarrow> crlf s = s"
  by (induction s rule: crlf.induct) (auto simp: no_crlf_def)

lemma no_crlf_append:
  "no_crlf (s @ t) \<longleftrightarrow> no_crlf s \<and> no_crlf t \<and> (s = [] \<or> t = [] \<or> \<not> (last s = CHR 0x0D \<and> hd t = CHR 0x0A))"
  unfolding no_crlf_def successively_append_iff by auto

abbreviation escape :: "string \<Rightarrow> string" where
  "escape s \<equiv> concat (map (\<lambda>c. if c = CHR 0x22 then [c, c] else [c]) s)"

lemma escape_ends: "s \<noteq> [] \<Longrightarrow> escape s \<noteq> [] \<and> hd (escape s) = hd s \<and> last (escape s) = last s"
proof (induction s)
  case (Cons c s)
  then show ?case by (cases s) auto
qed simp

lemma escape_no_crlf: "no_crlf s \<Longrightarrow> no_crlf (escape s)"
proof (induction s)
  case (Cons c s)
  define e where "e = (if c = CHR 0x22 then [c, c] else [c])"
  from Cons.prems have s: "no_crlf s" "s = [] \<or> \<not> (c = CHR 0x0D \<and> hd s = CHR 0x0A)"
    using no_crlf_append [of "[c]" s] by auto
  have "no_crlf e" "last e = c" by (simp_all add: e_def no_crlf_def)
  then have "no_crlf (e @ escape s)"
    using Cons.IH [OF s(1)] s(2) escape_ends [of s] by (cases "s = []") (simp_all add: no_crlf_append)
  then show ?case by (simp add: e_def)
qed (simp add: no_crlf_def)

text \<open>A written field neither starts with a line break nor ends in a carriage return.\<close>

lemma csv_field_ends:
  assumes "no_crlf s"
  shows "no_crlf (csv_field s)"
    and "csv_field s \<noteq> [] \<Longrightarrow> hd (csv_field s) \<noteq> CHR 0x0A \<and> last (csv_field s) \<noteq> CHR 0x0D"
proof -
  have "no_crlf (escape s @ [CHR 0x22])"
    unfolding no_crlf_append using escape_no_crlf [OF assms] by (simp add: no_crlf_def)
  then have "no_crlf ([CHR 0x22] @ escape s @ [CHR 0x22])"
    unfolding no_crlf_append [of "[CHR 0x22]"] by (simp add: no_crlf_def)
  then show "no_crlf (csv_field s)" using assms by (simp add: csv_field_def)
  show "hd (csv_field s) \<noteq> CHR 0x0A \<and> last (csv_field s) \<noteq> CHR 0x0D" if "csv_field s \<noteq> []"
  proof (cases "fieldNeedsQuotes s")
    case False
    with that have "csv_field s = s" "s \<noteq> []" by (auto simp: csv_field_def)
    with False hd_in_set [of s] last_in_set [of s] show ?thesis unfolding fieldNeedsQuotes_def by (metis insertCI)
  qed (simp add: csv_field_def)
qed

lemma csv_quoted_escape: "csv_quoted acc (escape s @ CHR 0x22 # t) = csv_quoted (rev s @ acc) (CHR 0x22 # t)"
  by (induction s arbitrary: acc) (auto simp del: csv_quoted.simps(2) simp: csv_quoted.simps(2) [of _ _ "_ # _"] csv_quoted.simps(2) [of _ _ "_ @ _"])

lemma csv_bare_plain:
  "\<forall>c\<in>set s. c \<notin> {CHR 0x0A, CHR 0x22, CHR '',''} \<Longrightarrow> csv_bare acc (s @ t) = csv_bare (rev s @ acc) t"
  by (induction s arbitrary: acc) auto

lemma csv_start_field:
  "csv_start (csv_field s) = Some [s]"
  "csv_start (csv_field s @ CHR '','' # t) = map_option ((#) s) (csv_start t)"
proof -
  have "csv_start (csv_field s) = Some [s] \<and>
    csv_start (csv_field s @ CHR '','' # t) = map_option ((#) s) (csv_start t)"
  proof (cases "fieldNeedsQuotes s")
    case True
    then show ?thesis
      using csv_quoted_escape [of "[]" s "[]"] csv_quoted_escape [of "[]" s "CHR '','' # t"]
      by (simp add: csv_field_def)
  next
    case False
    then have plain: "\<forall>c\<in>set s. c \<notin> {CHR 0x0A, CHR 0x22, CHR '',''}" by (auto simp: fieldNeedsQuotes_def)
    then show ?thesis
      using False csv_bare_plain [OF plain, of "[]" "[]"] csv_bare_plain [OF plain, of "[]" "CHR '','' # t"]
      by (cases s) (auto simp: csv_field_def)
  qed
  then show "csv_start (csv_field s) = Some [s]"
    "csv_start (csv_field s @ CHR '','' # t) = map_option ((#) s) (csv_start t)" by auto
qed

lemma csv_start_Join: "vs \<noteq> [] \<Longrightarrow> csv_start (Join (map csv_field vs) '','') = Some vs"
  by (induction vs rule: induct_list012) (auto simp: csv_start_field)

lemma Join_fields:
  assumes "vs \<noteq> []" and "\<forall>v\<in>set vs. no_crlf v"
  defines "t \<equiv> Join (map csv_field vs) '',''"
  shows "no_crlf t \<and> (t \<noteq> [] \<longrightarrow> hd t \<noteq> CHR 0x0A \<and> last t \<noteq> CHR 0x0D) \<and> (t = [] \<longrightarrow> vs = [[]])"
  unfolding t_def using assms(1,2)
proof (induction vs rule: induct_list012)
  case (2 v)
  then show ?case using csv_field_ends [of v] by (auto simp: csv_field_def fieldNeedsQuotes_def)
next
  case (3 v w vs)
  let ?t = "Join (map csv_field (w # vs)) '',''"
  have v: "no_crlf v" using 3 by simp
  have "no_crlf ?t" "?t \<noteq> [] \<longrightarrow> hd ?t \<noteq> CHR 0x0A \<and> last ?t \<noteq> CHR 0x0D" using 3 by auto
  then have "no_crlf (csv_field v @ [CHR '',''] @ ?t)"
    using csv_field_ends [OF v] by (simp only: no_crlf_append) (auto simp: no_crlf_def)
  moreover have "hd (csv_field v @ [CHR '',''] @ ?t) \<noteq> CHR 0x0A"
    using csv_field_ends(2) [OF v] by (cases "csv_field v") auto
  moreover have "last (csv_field v @ [CHR '',''] @ ?t) \<noteq> CHR 0x0D"
    using \<open>?t \<noteq> [] \<longrightarrow> _\<close> by (cases "?t = []") auto
  ultimately show ?case by simp
qed simp

text \<open>
  The text that a slice from the environment or the file is turned into is read back by the CSV
  reader as the same slice, for patterns with commas, quotes, spaces and line breaks too. Only a
  carriage return before a line feed is lost, and a slice with one empty string reads as no record.
\<close>

theorem slice_roundtrip:
  assumes "vs \<noteq> []" and "vs \<noteq> [[]]" and "\<forall>v\<in>set vs. no_crlf v"
  shows "csv_Read (stringSliceToString vs) = Some vs"
proof -
  let ?t = "Join (map csv_field vs) '',''"
  have t: "stringSliceToString vs = ?t"
    by (simp add: stringSliceToString_def csv_Write_def TrimSuffix_def TrimPrefix_def CutPrefix_def)
  note J = Join_fields [OF assms(1,3)]
  with assms(2) have ne: "?t \<noteq> []" by blast
  with J have "crlf ?t = ?t" by (intro crlf_id) auto
  moreover have "dropWhile (\<lambda>c. c = CHR 0x0A) ?t = ?t" using J ne by (cases ?t) auto
  moreover obtain c u where "?t = c # u" using ne by (cases ?t) auto
  ultimately show ?thesis using csv_start_Join [OF assms(1)]
    by (simp add: t csv_Read_def del: csv_start.simps)
qed

theorem slice_roundtrip_witness:
  "csv_Read (stringSliceToString [''podman-*.service'', ''a,b'', ''say '' @ [CHR 0x22] @ ''hi'', '' x'']) =
     Some [''podman-*.service'', ''a,b'', ''say '' @ [CHR 0x22] @ ''hi'', '' x'']"
  by (rule slice_roundtrip) (simp_all add: no_crlf_def)

section \<open>Defaults, names and precedence\<close>

text \<open>The documented environment variable of each flag, from the comments of the structs.\<close>

definition documented_env :: "(string \<times> string) list" where
  "documented_env =
     [(''provider.name'', ''SABLIER_PROVIDER_NAME''),
      (''provider.auto-stop-on-startup'', ''SABLIER_PROVIDER_AUTO_STOP_ON_STARTUP''),
      (''provider.auto-stop-externally-started'', ''SABLIER_PROVIDER_AUTO_STOP_EXTERNALLY_STARTED''),
      (''provider.auto-warm-externally-started'', ''SABLIER_PROVIDER_AUTO_WARM_EXTERNALLY_STARTED''),
      (''provider.reject-unlabeled-requests'', ''SABLIER_PROVIDER_REJECT_UNLABELED_REQUESTS''),
      (''provider.verify-enabled-on-expiration'', ''SABLIER_PROVIDER_VERIFY_ENABLED_ON_EXPIRATION''),
      (''provider.kubernetes.qps'', ''SABLIER_PROVIDER_KUBERNETES_QPS''),
      (''provider.kubernetes.burst'', ''SABLIER_PROVIDER_KUBERNETES_BURST''),
      (''provider.kubernetes.delimiter'', ''SABLIER_PROVIDER_KUBERNETES_DELIMITER''),
      (''provider.kubernetes.ready-on-first-replica'', ''SABLIER_PROVIDER_KUBERNETES_READY_ON_FIRST_REPLICA''),
      (''provider.podman.uri'', ''SABLIER_PROVIDER_PODMAN_URI''),
      (''provider.docker.strategy'', ''SABLIER_PROVIDER_DOCKER_STRATEGY''),
      (''provider.docker.honor-restart-policy'', ''SABLIER_PROVIDER_DOCKER_HONOR_RESTART_POLICY''),
      (''provider.proxmox-lxc.url'', ''SABLIER_PROVIDER_PROXMOX_LXC_URL''),
      (''provider.proxmox-lxc.token-id'', ''SABLIER_PROVIDER_PROXMOX_LXC_TOKEN_ID''),
      (''provider.proxmox-lxc.token-secret'', ''SABLIER_PROVIDER_PROXMOX_LXC_TOKEN_SECRET''),
      (''provider.proxmox-lxc.tls-insecure'', ''SABLIER_PROVIDER_PROXMOX_LXC_TLS_INSECURE''),
      (''provider.systemd.user-instance'', ''SABLIER_PROVIDER_SYSTEMD_USER_INSTANCE''),
      (''provider.systemd.unit-patterns'', ''SABLIER_PROVIDER_SYSTEMD_UNIT_PATTERNS''),
      (''server.port'', ''SABLIER_SERVER_PORT''),
      (''server.base-path'', ''SABLIER_SERVER_BASE_PATH''),
      (''server.metrics.enabled'', ''SABLIER_SERVER_METRICS_ENABLED''),
      (''tracing.enabled'', ''SABLIER_TRACING_ENABLED''),
      (''tracing.exporter-type'', ''SABLIER_TRACING_EXPORTER_TYPE''),
      (''tracing.endpoint'', ''SABLIER_TRACING_ENDPOINT''),
      (''tracing.service-name'', ''SABLIER_TRACING_SERVICE_NAME''),
      (''tracing.sampling-rate'', ''SABLIER_TRACING_SAMPLING_RATE''),
      (''storage.file'', ''SABLIER_STORAGE_FILE''),
      (''sessions.default-duration'', ''SABLIER_SESSIONS_DEFAULT_DURATION''),
      (''sessions.expiration-interval'', ''SABLIER_SESSIONS_EXPIRATION_INTERVAL''),
      (''logging.level'', ''SABLIER_LOGGING_LEVEL''),
      (''strategy.dynamic.custom-themes-path'', ''SABLIER_STRATEGY_DYNAMIC_CUSTOM_THEMES_PATH''),
      (''strategy.dynamic.default-theme'', ''SABLIER_STRATEGY_DYNAMIC_DEFAULT_THEME''),
      (''strategy.dynamic.show-details-by-default'', ''SABLIER_STRATEGY_DYNAMIC_SHOW_DETAILS_BY_DEFAULT''),
      (''strategy.dynamic.default-refresh-frequency'', ''SABLIER_STRATEGY_DYNAMIC_DEFAULT_REFRESH_FREQUENCY''),
      (''strategy.blocking.default-timeout'', ''SABLIER_STRATEGY_BLOCKING_DEFAULT_TIMEOUT''),
      (''strategy.blocking.default-refresh-frequency'', ''SABLIER_STRATEGY_BLOCKING_DEFAULT_REFRESH_FREQUENCY'')]"

lemma flag_names_distinct: "distinct (map fst NewRootCommand_flags)"
  by (simp add: NewRootCommand_flags_def)

lemma upper_char_letters [simp]:
  "upper_char (CHR ''a'') = CHR ''A''" "upper_char (CHR ''b'') = CHR ''B''" "upper_char (CHR ''c'')
  = CHR ''C''" "upper_char (CHR ''d'') = CHR ''D''" "upper_char (CHR ''e'') = CHR ''E''" "upper_char
  (CHR ''f'') = CHR ''F''" "upper_char (CHR ''g'') = CHR ''G''" "upper_char (CHR ''h'') = CHR ''H''"
  "upper_char (CHR ''i'') = CHR ''I''" "upper_char (CHR ''j'') = CHR ''J''" "upper_char (CHR ''k'')
  = CHR ''K''" "upper_char (CHR ''l'') = CHR ''L''" "upper_char (CHR ''m'') = CHR ''M''" "upper_char
  (CHR ''n'') = CHR ''N''" "upper_char (CHR ''o'') = CHR ''O''" "upper_char (CHR ''p'') = CHR ''P''"
  "upper_char (CHR ''q'') = CHR ''Q''" "upper_char (CHR ''r'') = CHR ''R''" "upper_char (CHR ''s'')
  = CHR ''S''" "upper_char (CHR ''t'') = CHR ''T''" "upper_char (CHR ''u'') = CHR ''U''" "upper_char
  (CHR ''v'') = CHR ''V''" "upper_char (CHR ''w'') = CHR ''W''" "upper_char (CHR ''x'') = CHR ''X''"
  "upper_char (CHR ''y'') = CHR ''Y''" "upper_char (CHR ''z'') = CHR ''Z''" "upper_char (CHR ''A'')
  = CHR ''A''" "upper_char (CHR ''B'') = CHR ''B''" "upper_char (CHR ''C'') = CHR ''C''" "upper_char
  (CHR ''D'') = CHR ''D''" "upper_char (CHR ''E'') = CHR ''E''" "upper_char (CHR ''F'') = CHR ''F''"
  "upper_char (CHR ''G'') = CHR ''G''" "upper_char (CHR ''H'') = CHR ''H''" "upper_char (CHR ''I'')
  = CHR ''I''" "upper_char (CHR ''J'') = CHR ''J''" "upper_char (CHR ''K'') = CHR ''K''" "upper_char
  (CHR ''L'') = CHR ''L''" "upper_char (CHR ''M'') = CHR ''M''" "upper_char (CHR ''N'') = CHR ''N''"
  "upper_char (CHR ''O'') = CHR ''O''" "upper_char (CHR ''P'') = CHR ''P''" "upper_char (CHR ''Q'')
  = CHR ''Q''" "upper_char (CHR ''R'') = CHR ''R''" "upper_char (CHR ''S'') = CHR ''S''" "upper_char
  (CHR ''T'') = CHR ''T''" "upper_char (CHR ''U'') = CHR ''U''" "upper_char (CHR ''V'') = CHR ''V''"
  "upper_char (CHR ''W'') = CHR ''W''" "upper_char (CHR ''X'') = CHR ''X''" "upper_char (CHR ''Y'')
  = CHR ''Y''" "upper_char (CHR ''Z'') = CHR ''Z''" "upper_char (CHR ''_'') = CHR ''_''" "upper_char
  (CHR ''.'') = CHR ''.''" "upper_char (CHR ''-'') = CHR ''-''"
  by (simp_all add: upper_char_def) (code_simp+)

lemma documented_names: "map (\<lambda>(n, d). (n, ''SABLIER_'' @ envVar n)) NewRootCommand_flags = documented_env"
  by (simp add: NewRootCommand_flags_def documented_env_def envVar_def ToUpper_def ReplaceAll_def)

lemma conf_of_defaults:
  "list_all (\<lambda>(n, d). m n = Some d) NewRootCommand_flags \<Longrightarrow> conf_of m NewWebhooksConfig = NewConfig"
  by (simp add: NewRootCommand_flags_def conf_of_def NewConfig_def NewServerConfig_def NewStorageConfig_def
      NewProviderConfig_def NewSessionsConfig_def NewLoggingConfig_def NewStrategyConfig_def newDynamicStrategy_def
      newBlockingStrategy_def NewTracingConfig_def)

lemma default_values: "flag_values (parsed_flags (\<lambda>_. None)) = map_of NewRootCommand_flags"
  by (simp add: flag_values_def parsed_flags_def comp_def case_prod_unfold)


text \<open>Which configurations of a provider are accepted.\<close>

lemma Provider_IsValid_iff:
  "Provider_IsValid pr = None \<longleftrightarrow>
     \<not> (pv_AutoStopExternallyStarted pr \<and> pv_AutoWarmExternallyStarted pr) \<and> pv_Name pr \<in> set providers \<and>
     (pv_Name pr = ''docker'' \<longrightarrow> dc_Strategy (pv_Docker pr) \<in> {''stop'', ''pause''}) \<and>
     (pv_Name pr = ''proxmox_lxc'' \<longrightarrow> xc_URL (pv_ProxmoxLXC pr) \<noteq> [] \<and> xc_TokenID (pv_ProxmoxLXC pr) \<noteq> [] \<and>
        xc_TokenSecret (pv_ProxmoxLXC pr) \<noteq> [])"
proof -
  have "find_provider ps pr = None \<longleftrightarrow> pv_Name pr \<in> set ps \<and>
      (pv_Name pr = ''docker'' \<longrightarrow> Docker_IsValid (pv_Docker pr) = None) \<and>
      (pv_Name pr = ''proxmox_lxc'' \<longrightarrow> ProxmoxLXC_IsValid (pv_ProxmoxLXC pr) = None)" for ps
    by (induction ps) (auto split: option.splits)
  then show ?thesis
    by (auto simp: Provider_IsValid_def Docker_IsValid_def dockerStrategies_def ProxmoxLXC_IsValid_def
        split: if_splits)
qed

text \<open>
  What viper documents: a key is looked up in the environment under its own name in upper case and
  under the names it is bound to, in this order, where an empty variable counts as missing; then in
  the file.
\<close>

fun first_env :: "(string \<rightharpoonup> string) \<Rightarrow> string list \<Rightarrow> string option" where
  "first_env env [] = None"
| "first_env env (n # ns) =
     (case env n of Some (c # cs) \<Rightarrow> Some (c # cs) | _ \<Rightarrow> first_env env ns)"

definition viper_looks_up :: "viper \<Rightarrow> (string \<rightharpoonup> string) \<Rightarrow> (string \<rightharpoonup> string) \<Rightarrow> bool" where
  "viper_looks_up v env file \<longleftrightarrow>
     (\<forall>bound key.
        (vp_IsSet v bound key \<longleftrightarrow> first_env env (ToUpper key # bound) \<noteq> None \<or> file key \<noteq> None) \<and>
        (\<forall>x. first_env env (ToUpper key # bound) = Some x \<longrightarrow> vp_Get v bound key = x) \<and>
        (\<forall>x. first_env env (ToUpper key # bound) = None \<longrightarrow> file key = Some x \<longrightarrow> vp_Get v bound key = x))"

definition env_names :: "string \<Rightarrow> string list" where
  "env_names n = [ToUpper n, envVar n, ''SABLIER_'' @ envVar n]"

lemma flag_values_bind:
  "flag_values (bindFlags flag_Set v fs) n =
     map_option (\<lambda>f. fg_Value (bind_flag flag_Set v f)) (find (\<lambda>f. fg_Name f = n) fs)"
proof -
  have [simp]: "fg_Name (bind_flag flag_Set v f) = fg_Name f" for f
    by (simp add: bind_flag_def Let_def split: flag_value.splits)
  show ?thesis by (induction fs) (auto simp: flag_values_def bindFlags_def)
qed

lemma bind_flag_changed: "fg_Changed f \<Longrightarrow> bind_flag flag_Set v f = f"
  by (simp add: bind_flag_def)

lemma parsed_flags_find:
  "map_of NewRootCommand_flags n = Some d \<Longrightarrow>
   find (\<lambda>f. fg_Name f = n) (parsed_flags args) =
     Some (case args n of None \<Rightarrow> \<lparr>fg_Name = n, fg_Value = d, fg_Changed = False\<rparr>
           | Some x \<Rightarrow> \<lparr>fg_Name = n, fg_Value = x, fg_Changed = True\<rparr>)"
proof -
  have "map_of ts n = Some d \<Longrightarrow>
      find (\<lambda>f. fg_Name f = n)
        (map (\<lambda>(n, d). case args n of None \<Rightarrow> \<lparr>fg_Name = n, fg_Value = d, fg_Changed = False\<rparr>
                        | Some x \<Rightarrow> \<lparr>fg_Name = n, fg_Value = x, fg_Changed = True\<rparr>) ts) =
      Some (case args n of None \<Rightarrow> \<lparr>fg_Name = n, fg_Value = d, fg_Changed = False\<rparr>
           | Some x \<Rightarrow> \<lparr>fg_Name = n, fg_Value = x, fg_Changed = True\<rparr>)" for ts
    by (induction ts) (auto split: option.splits if_splits)
  then show "map_of NewRootCommand_flags n = Some d \<Longrightarrow> ?thesis" unfolding parsed_flags_def by blast
qed

text \<open>
  Every setting other than the list of unit patterns comes from the command line; else from the
  first of its environment variables that is not empty; else from the file; else it has its default.
  An unreadable file fails, a missing one does not, and webhooks come from the file alone.
\<close>

theorem config_precedence:
  assumes "viper_looks_up v env file" and "map_of NewRootCommand_flags n = Some d" and "\<forall>ps. d \<noteq> SliceV ps"
    and "\<forall>e. r \<noteq> ReadError e"
  shows "\<exists>fs. initializeConfig flag_Set r v (Inr w) (parsed_flags args) = (None, fs, w) \<and>
    flag_values fs n =
      Some (case args n of
              Some x \<Rightarrow> x
            | None \<Rightarrow>
                (case first_env env (env_names n) of
                   Some t \<Rightarrow> flag_Set d t
                 | None \<Rightarrow> (case file n of Some t \<Rightarrow> flag_Set d t | None \<Rightarrow> d)))"
proof -
  let ?f = "\<lparr>fg_Name = n, fg_Value = d, fg_Changed = False\<rparr>"
  let ?bound = "[envVar n, ''SABLIER_'' @ envVar n]"
  have V: "vp_IsSet v ?bound n \<longleftrightarrow> first_env env (env_names n) \<noteq> None \<or> file n \<noteq> None"
    "first_env env (env_names n) = Some x \<Longrightarrow> vp_Get v ?bound n = x"
    "first_env env (env_names n) = None \<Longrightarrow> file n = Some x \<Longrightarrow> vp_Get v ?bound n = x" for x
    using assms(1) unfolding viper_looks_up_def env_names_def by blast+
  have "fg_Value (bind_flag flag_Set v ?f) =
      (if vp_IsSet v ?bound n then flag_Set d (vp_Get v ?bound n) else d)"
    using assms(3) by (cases d) (auto simp: bind_flag_def Let_def)
  also have "\<dots> = (case first_env env (env_names n) of
        Some t \<Rightarrow> flag_Set d t | None \<Rightarrow> (case file n of Some t \<Rightarrow> flag_Set d t | None \<Rightarrow> d))"
    using V by (auto split: option.splits)
  finally have "flag_values (bindFlags flag_Set v (parsed_flags args)) n =
      Some (case args n of Some x \<Rightarrow> x
            | None \<Rightarrow> (case first_env env (env_names n) of Some t \<Rightarrow> flag_Set d t
                 | None \<Rightarrow> (case file n of Some t \<Rightarrow> flag_Set d t | None \<Rightarrow> d)))"
    unfolding flag_values_bind parsed_flags_find [OF assms(2)]
    by (cases "args n") (simp_all add: bind_flag_changed)
  moreover have "initializeConfig flag_Set r v (Inr w) (parsed_flags args) =
      (None, bindFlags flag_Set v (parsed_flags args), w)"
    using assms(4) by (cases r) (auto simp: initializeConfig_def)
  ultimately show ?thesis by blast
qed

text \<open>A viper over a given environment and file, and a parser of port numbers.\<close>

definition env_viper :: "(string \<rightharpoonup> string) \<Rightarrow> (string \<rightharpoonup> string) \<Rightarrow> viper" where
  "env_viper env file =
     \<lparr>vp_IsSet = (\<lambda>bound key. first_env env (ToUpper key # bound) \<noteq> None \<or> file key \<noteq> None),
      vp_Get = (\<lambda>bound key. case first_env env (ToUpper key # bound) of
                  Some x \<Rightarrow> x | None \<Rightarrow> (case file key of Some x \<Rightarrow> x | None \<Rightarrow> [])),
      vp_GetStringSlice = (\<lambda>bound key. [])\<rparr>"

lemma env_viper_looks_up: "viper_looks_up (env_viper env file) env file"
  by (simp add: viper_looks_up_def env_viper_def)

definition set_int :: "flag_value \<Rightarrow> string \<Rightarrow> flag_value" where
  "set_int d t = (case Atoi t of Some i \<Rightarrow> IntV i | None \<Rightarrow> d)"

text \<open>The variable without the prefix, which is not documented, wins.\<close>

theorem config_precedence_witness:
  "\<exists>fs. initializeConfig set_int NotFound
       (env_viper [''SERVER_PORT'' \<mapsto> ''8080'', ''SABLIER_SERVER_PORT'' \<mapsto> ''9090''] (\<lambda>_. None))
       (Inr NewWebhooksConfig) (parsed_flags (\<lambda>_. None)) = (None :: unit option, fs, NewWebhooksConfig) \<and>
     flag_values fs ''server.port'' = Some (IntV 8080)"
proof -
  let ?env = "[''SERVER_PORT'' \<mapsto> ''8080'', ''SABLIER_SERVER_PORT'' \<mapsto> ''9090'']"
  have d: "map_of NewRootCommand_flags ''server.port'' = Some (IntV 10000)"
    using flag_names_distinct by (rule map_of_is_SomeI) (simp add: NewRootCommand_flags_def)
  have "first_env ?env (env_names ''server.port'') = Some ''8080''"
    by (simp add: env_names_def envVar_def ToUpper_def ReplaceAll_def)
  moreover have "set_int (IntV 10000) ''8080'' = IntV 8080" by code_simp
  ultimately show ?thesis
    using config_precedence [OF env_viper_looks_up [of ?env "\<lambda>_. None"] d, where r = NotFound and flag_Set = set_int
        and w = NewWebhooksConfig and args = "\<lambda>_. None"] by simp
qed

end
