(* ===== verification/Boot.thy ===== *)
theory Boot
  imports Watchers Configuration
begin

text \<open>
  Starting and restarting the server: the session storage on disk (\<open>pkg/sabliercmd/storage.go\<close>),
  the sequence in which \<open>Start\<close> (\<open>pkg/sabliercmd/start.go\<close>) builds the core before it serves
  requests, and the loop that removes the sessions of stopped instances. The disk holds at most
  one document per path; writing may fail.
\<close>

section \<open>Storage\<close>

text \<open>
  What reading a file finds: nothing there, an error, something that is not a snapshot, or a
  snapshot. \<open>None\<close> stands for a missing file.
\<close>

datatype stored = Unreadable | Garbage | Saved "(string, SessionRecord \<times> time) gomap"

record disk =
  dk_files :: "string \<Rightarrow> stored option"
  dk_writable :: bool

definition WriteFile :: "string \<Rightarrow> (string, SessionRecord \<times> time) gomap \<Rightarrow> disk \<Rightarrow> disk" where
  "WriteFile file data dk = (if dk_writable dk then dk\<lparr>dk_files := (dk_files dk)(file \<mapsto> Saved data)\<rparr> else dk)"

definition initializeFile :: "string \<Rightarrow> InMemory \<Rightarrow> disk \<Rightarrow> disk" where
  "initializeFile file store dk =
     (case InMemory_MarshalJSON store of None \<Rightarrow> dk | Some data \<Rightarrow> WriteFile file data dk)"

definition saveToFile :: "string \<Rightarrow> InMemory \<Rightarrow> disk \<Rightarrow> disk" where
  "saveToFile file store dk =
     (case InMemory_MarshalJSON store of None \<Rightarrow> dk | Some data \<Rightarrow> WriteFile file data dk)"

definition loadFromFile :: "time \<Rightarrow> time \<Rightarrow> string \<Rightarrow> InMemory \<Rightarrow> disk \<Rightarrow> InMemory \<times> disk" where
  "loadFromFile now now' file store dk =
     (case dk_files dk file of
        None \<Rightarrow> (store, initializeFile file store dk)
      | Some Unreadable \<Rightarrow> (store, dk)
      | Some Garbage \<Rightarrow> (store, dk)
      | Some (Saved data) \<Rightarrow> (InMemory_UnmarshalJSON now now' data store, dk))"

definition setupStorage :: "time \<Rightarrow> time \<Rightarrow> string \<Rightarrow> disk \<Rightarrow> InMemory \<times> disk" where
  "setupStorage now now' file dk =
     (let store = NewInMemory in if file \<noteq> [] then loadFromFile now now' file store dk else (store, dk))"

text \<open>The function that \<open>setupStorage\<close> returns for the shutdown.\<close>

definition save :: "string \<Rightarrow> InMemory \<Rightarrow> disk \<Rightarrow> disk" where
  "save file store dk = (if file \<noteq> [] then saveToFile file store dk else dk)"

section \<open>Start\<close>

text \<open>The core before any group is known.\<close>

definition new_core :: "Config \<Rightarrow> 'w provider_ops \<Rightarrow> 'w \<Rightarrow> InMemory \<Rightarrow> (InMemory, 'w) sablier" where
  "new_core conf p w store =
     (let s = WithVerifyEnabledOnExpiration (pv_VerifyEnabledOnExpiration (cf_Provider conf))
                (WithRejectUnlabeledRequests (pv_RejectUnlabeledRequests (cf_Provider conf)) (sablier_New inmemory_ops store p w))
      in s\<lparr>s_sessions := SetOnExpire True (s_sessions s),
           s_BlockingRefreshFrequency := bs_DefaultRefreshFrequency (sg_Blocking (cf_Strategy conf)),
           s_DefaultSessionDuration := ss_DefaultDuration (cf_Sessions conf)\<rparr>)"

definition initial_groups :: "('st, 'w) sablier \<Rightarrow> ('st, 'w) sablier" where
  "initial_groups s =
     (case p_Groups (s_provider s) (s_world s) of Inl err \<Rightarrow> s | Inr groups \<Rightarrow> SetGroups groups s)"

text \<open>
  \<open>Start\<close> up to the point where the watchers and the server run: the sessions are read at \<open>now\<close>
  and \<open>now'\<close>, and unregistered instances are stopped at \<open>t\<close>.
\<close>

definition Start :: "Config \<Rightarrow> location \<Rightarrow> range_order \<Rightarrow> time \<Rightarrow> time \<Rightarrow> time \<Rightarrow> 'w provider_ops \<Rightarrow> 'w \<Rightarrow> disk \<Rightarrow>
    (InMemory, 'w) sablier \<times> disk" where
  "Start conf loc order now now' t p w dk =
     (let (store, dk1) = setupStorage now now' (st_File (cf_Storage conf)) dk;
          s = SeedAntiAffinity loc t order (initial_groups (new_core conf p w store))
      in (if pv_AutoStopOnStartup (cf_Provider conf) then snd (StopAllUnregisteredInstances t s) else s, dk1))"

text \<open>The goroutine that removes the session of an instance that was stopped.\<close>

datatype stopped_arrival = StoppedEvent time string | EventsClosed | StreamError goerror | StreamErrClosed

fun remove_stopped :: "stopped_arrival list \<Rightarrow> ('st, 'w) sablier \<Rightarrow> ('st, 'w) sablier" where
  "remove_stopped [] s = s"
| "remove_stopped (StoppedEvent now name # rest) s = remove_stopped rest (snd (RemoveInstance now name s))"
| "remove_stopped (EventsClosed # rest) s = s"
| "remove_stopped (StreamError err # rest) s = s"
| "remove_stopped (StreamErrClosed # rest) s = s"

section \<open>Restarting\<close>

definition stops :: "provider_call list \<Rightarrow> string list" where
  "stops tr = List.map_filter (\<lambda>c. case c of CallStop n \<Rightarrow> Some n | _ \<Rightarrow> None) tr"

lemma stops_simps [simp]:
  "stops [] = []" "stops (xs @ ys) = stops xs @ stops ys" "stops (map CallStop ns) = ns"
  "stops [Inspected n st] = []"
  by (simp_all add: stops_def List.map_filter_def comp_def)

lemma kv_view_SetOnExpire [simp]: "kv_view t (SetOnExpire cb s) = kv_view t s" "kv_inv (SetOnExpire cb s) = kv_inv s"
  by (simp_all add: SetOnExpire_def kv_view_def kv_inv_def fun_eq_iff)

lemma reg_Sync_none: "reg_Sync i [] [] = ([], [], [])"
  by (simp add: reg_Sync_def groupsOf_def stringSet_def)

text \<open>Without anti-affinity labels, seeding the index only inspects the instances.\<close>

lemma registry_loop_none:
  assumes "s_antiAffinity s = []"
    and "\<forall>c\<in>set cs. \<forall>info. p_Inspect (s_provider s) (c_Name c) (s_world s) = Inr info \<longrightarrow> i_AntiAffinity info = []"
  shows "\<exists>tr. registry_loop cs s = s\<lparr>s_trace := s_trace s @ tr\<rparr> \<and> stops tr = []"
  using assms
proof (induction cs arbitrary: s)
  case Nil
  show ?case by (intro exI [of _ "[]"]) simp
next
  case (Cons c cs)
  show ?case
  proof (cases "p_Inspect (s_provider s) (c_Name c) (s_world s)")
    case (Inl err)
    then have "registry_loop (c # cs) s = registry_loop cs s" by (simp add: call_Inspect_def)
    with Cons show ?thesis by simp
  next
    case (Inr info)
    let ?s1 = "s\<lparr>s_trace := s_trace s @ [Inspected (c_Name c) (i_Status info)]\<rparr>"
    have "registry_loop (c # cs) s = registry_loop cs (?s1\<lparr>s_antiAffinity := []\<rparr>)"
      using Inr Cons.prems by (simp add: call_Inspect_def SyncInstanceAntiAffinity_def reg_Sync_none)
    moreover have "?s1\<lparr>s_antiAffinity := []\<rparr> = ?s1" using Cons.prems(1) by (cases s) simp
    ultimately have "registry_loop (c # cs) s = registry_loop cs ?s1" by (simp only:)
    moreover obtain tr where "registry_loop cs ?s1 = ?s1\<lparr>s_trace := s_trace ?s1 @ tr\<rparr>" "stops tr = []"
      using Cons.IH [of ?s1] Cons.prems by auto
    ultimately show ?thesis by (intro exI [of _ "Inspected (c_Name c) (i_Status info) # tr"]) (simp add: stops_def)
  qed
qed

lemma SeedAntiAffinity_none:
  assumes a: "s_antiAffinity s = []"
    and n: "\<forall>cs. p_List (s_provider s) True (s_world s) = Inr cs \<longrightarrow> (\<forall>c\<in>set cs. \<forall>info.
      p_Inspect (s_provider s) (c_Name c) (s_world s) = Inr info \<longrightarrow> i_AntiAffinity info = [])"
  shows "\<exists>tr. SeedAntiAffinity loc now order s = s\<lparr>s_trace := s_trace s @ tr\<rparr> \<and> stops tr = []"
proof -
  have r: "reconcileAntiAffinity loc now order s' = s'" if "s_antiAffinity s' = []" for s' :: "('a, 'b) sablier"
    using that by (simp add: reconcileAntiAffinity_def Snapshot_def)
  have d: "drop_absent ns s' = s'" if "s_antiAffinity s' = []" for ns and s' :: "('a, 'b) sablier"
    using that by (simp add: drop_absent_def InstanceSnapshot_def invert_groups_def)
  show ?thesis
  proof (cases "p_List (s_provider s) True (s_world s)")
    case (Inl err)
    then have "reconcileAntiAffinityRegistry s = s" by (simp add: reconcileAntiAffinityRegistry_def)
    then show ?thesis using r [OF a] by (intro exI [of _ "[]"]) (simp add: SeedAntiAffinity_def)
  next
    case (Inr cs)
    obtain tr where tr: "registry_loop cs s = s\<lparr>s_trace := s_trace s @ tr\<rparr>" "stops tr = []"
      using registry_loop_none [OF a] n Inr by blast
    then have "reconcileAntiAffinityRegistry s = s\<lparr>s_trace := s_trace s @ tr\<rparr>"
      using d [of "s\<lparr>s_trace := s_trace s @ tr\<rparr>"] a by (simp add: reconcileAntiAffinityRegistry_def Inr)
    with r [of "s\<lparr>s_trace := s_trace s @ tr\<rparr>"] a tr(2) show ?thesis by (auto simp: SeedAntiAffinity_def)
  qed
qed

text \<open>
  What is found after a restart: the store that the next \<open>Start\<close> sets up from the snapshot of the
  previous run.
\<close>

lemma restored_view:
  assumes inv: "kv_inv store" and f: "file \<noteq> []" and w: "dk_writable dk"
  shows "\<exists>store' dk'. setupStorage now now' file (save file store dk) = (store', dk') \<and> kv_inv store' \<and>
    (\<forall>k t. kv_view t store' k =
       (case kv_view (now + 1) store k of
          None \<Rightarrow> None
        | Some (v, at) \<Rightarrow> if t \<le> at + (now' - now) then Some (v, at + (now' - now)) else None))"
proof -
  obtain doc where d: "kv_MarshalJSON store = Some doc"
    "\<forall>k t. kv_view t (kv_UnmarshalJSON now now' doc NewInMemory) k =
       (case kv_view (now + 1) store k of
          None \<Rightarrow> None
        | Some (v, at) \<Rightarrow> if t \<le> at + (now' - now) then Some (v, at + (now' - now)) else None)"
    using snapshot_view [OF inv, of now now' "1 * Second" False] unfolding NewInMemory_def by blast
  have "setupStorage now now' file (save file store dk) =
      (kv_UnmarshalJSON now now' doc NewInMemory, save file store dk)"
    using f w d(1) by (simp add: setupStorage_def save_def saveToFile_def InMemory_MarshalJSON_def WriteFile_def
        loadFromFile_def InMemory_UnmarshalJSON_def Let_def)
  moreover have "kv_inv (kv_UnmarshalJSON now now' doc NewInMemory)"
    unfolding kv_UnmarshalJSON_def by (intro put_entries_inv NewInMemory_inv)
  ultimately show ?thesis using d(2) by auto
qed

text \<open>A provider without anti-affinity labels.\<close>

definition no_anti_affinity :: "'w provider_ops \<Rightarrow> 'w \<Rightarrow> bool" where
  "no_anti_affinity p w \<longleftrightarrow> (\<forall>cs. p_List p True w = Inr cs \<longrightarrow> (\<forall>c\<in>set cs. \<forall>info.
     p_Inspect p (c_Name c) w = Inr info \<longrightarrow> i_AntiAffinity info = []))"

lemma initial_core:
  assumes "kv_inv store" "no_anti_affinity p w"
    and "\<forall>groups. p_Groups p w = Inr (Some groups) \<longrightarrow> wf_map groups"
  shows "\<exists>s. SeedAntiAffinity loc t order (initial_groups (new_core conf p w store)) = s \<and>
    sab_ok inmemory_ops kv_inv s \<and> s_provider s = p \<and> s_world s = w \<and> stops (s_trace s) = [] \<and>
    s_sessions s = SetOnExpire True store"
proof -
  let ?s = "initial_groups (new_core conf p w store)"
  have f: "s_antiAffinity ?s = []" "s_provider ?s = p" "s_world ?s = w" "s_trace ?s = []" "s_store ?s = inmemory_ops"
    "s_sessions ?s = SetOnExpire True store"
    by (auto simp: initial_groups_def new_core_def sablier_New_def SetGroups_def newGroupRegistry_def
        WithVerifyEnabledOnExpiration_def WithRejectUnlabeledRequests_def Let_def split: sum.splits)
  have wfS: "wf_map (Snapshot g)" for g
  proof -
    have "wf_map out \<Longrightarrow> wf_map (fold (\<lambda>(k, v) out. map_put k v out) g out)" for out :: registry
      by (induction g arbitrary: out) (auto simp: wf_intros)
    then show ?thesis by (simp add: Snapshot_def)
  qed
  have "wf_map (s_groups ?s)"
    using wfS by (auto simp: initial_groups_def new_core_def sablier_New_def SetGroups_def newGroupRegistry_def reg_Set_def
        WithVerifyEnabledOnExpiration_def WithRejectUnlabeledRequests_def Let_def split: sum.splits)
  with f assms(1) have ok: "sab_ok inmemory_ops kv_inv ?s" by (simp add: sab_ok_def member_of_def)
  obtain tr where "SeedAntiAffinity loc t order ?s = ?s\<lparr>s_trace := s_trace ?s @ tr\<rparr>" "stops tr = []"
    using SeedAntiAffinity_none [of ?s loc t order] f assms(2) unfolding no_anti_affinity_def by auto
  with f ok show ?thesis by (auto simp: sab_ok_def)
qed


text \<open>Two running instances, one of them with a session of an hour when the server shuts down.\<close>

definition busy_world :: list_world where
  "busy_world = map (\<lambda>n. (n, (stopped_instance n)\<lparr>i_Status := InstanceStatusReady\<rparr>)) [''web'', ''batch'']"

definition busy_store :: InMemory where
  "busy_store = kv_Put 0 ''web'' (NewSessionRecord (stopped_instance ''web'')) Hour NewInMemory"

definition busy_config :: Config where
  "busy_config = NewConfig\<lparr>cf_Storage := \<lparr>st_File = ''state.json''\<rparr>\<rparr>"

lemma busy_view:
  "t \<le> Hour \<Longrightarrow> kv_view t busy_store ''web'' = Some (NewSessionRecord (stopped_instance ''web''), Hour)"
  "kv_view t busy_store ''batch'' = None"
  by (simp_all add: busy_store_def kv_view_def kv_Put_def NewInMemory_def tinykv_New_def Let_def expired_def newTimeout_def)


end
