(* ===== verification/Cpu_Limits.thy ===== *)
theory Cpu_Limits
  imports Complex_Main Session Dependency
begin

text \<open>
  CPU limits as text (\<open>parseCPUNano\<close> of the Docker and Swarm providers, \<open>parseCPUQuota\<close> of the systemd
  provider) with what they use of \<open>strconv.ParseFloat\<close> and of the arithmetic of \<open>float64\<close>. A finite
  floating-point number is the rational number it stands for; the sign of zero is not kept. Results
  are rounded to the nearest representable number, ties to the even one. What a conversion to an
  integer returns for a number outside its range depends on the machine and is a parameter.
\<close>

section \<open>Floating-point numbers\<close>

datatype float64 = Finite rat | PosInf | NegInf | NaN

fun log2_int :: "int \<Rightarrow> int" where
  "log2_int n = (if n \<le> 1 then 0 else 1 + log2_int (n div 2))"

declare log2_int.simps [simp del]

text \<open>The exponent of the leading bit of a positive number.\<close>

definition log2_floor :: "rat \<Rightarrow> int" where
  "log2_floor x =
     (case quotient_of x of
        (n, d) \<Rightarrow> (let k = log2_int n - log2_int d in if 2 powi k \<le> x then k else k - 1))"

definition round_even :: "rat \<Rightarrow> int" where
  "round_even q =
     (let f = \<lfloor>q\<rfloor>; r = q - of_int f
      in if r < 1 / 2 then f else if r > 1 / 2 then f + 1 else if even f then f else f + 1)"

definition fround :: "rat \<Rightarrow> float64" where
  "fround x =
     (if x = 0 then Finite 0
      else let e = max (- 1074) (log2_floor \<bar>x\<bar> - 52);
               m = round_even (\<bar>x\<bar> / 2 powi e)
           in if e > 971 \<or> e = 971 \<and> m = 9007199254740992 then (if x > 0 then PosInf else NegInf)
              else Finite (if x > 0 then of_int m * 2 powi e else - (of_int m * 2 powi e)))"

text \<open>The product with a positive number.\<close>

definition fmul :: "float64 \<Rightarrow> rat \<Rightarrow> float64" where
  "fmul v c = (case v of Finite x \<Rightarrow> fround (x * c) | _ \<Rightarrow> v)"

section \<open>Reading numbers\<close>

definition lower :: "char \<Rightarrow> char" where
  "lower c = lower_char c"

definition hex_digit :: "char \<Rightarrow> int option" where
  "hex_digit c =
     (case digit c of
        Some d \<Rightarrow> Some d
      | None \<Rightarrow> (let n = int (of_char (lower c)) in if 97 \<le> n \<and> n \<le> 102 then Some (n - 87) else None))"

definition digit_in :: "int \<Rightarrow> char \<Rightarrow> int option" where
  "digit_in base c = (if base = 16 then hex_digit c else digit c)"

text \<open>The mantissa: whether digits were seen, their value, how many follow the point, and the rest.\<close>

fun scan_mantissa :: "int \<Rightarrow> bool \<Rightarrow> bool \<Rightarrow> int \<Rightarrow> int \<Rightarrow> string \<Rightarrow> bool \<times> int \<times> int \<times> string" where
  "scan_mantissa base dot seen m k [] = (seen, m, k, [])"
| "scan_mantissa base dot seen m k (c # s) =
     (if c = CHR ''_'' then scan_mantissa base dot seen m k s
      else if c = CHR ''.'' then (if dot then (seen, m, k, c # s) else scan_mantissa base True seen m k s)
      else case digit_in base c of
             Some d \<Rightarrow> scan_mantissa base dot True (m * base + d) (if dot then k + 1 else k) s
           | None \<Rightarrow> (seen, m, k, c # s))"

fun scan_exponent :: "int \<Rightarrow> string \<Rightarrow> int \<times> string" where
  "scan_exponent e [] = (e, [])"
| "scan_exponent e (c # s) =
     (if c = CHR ''_'' then scan_exponent e s
      else case digit c of
             Some d \<Rightarrow> scan_exponent (if e < 10000 then e * 10 + d else e) s
           | None \<Rightarrow> (e, c # s))"

definition read_exponent :: "string \<Rightarrow> (int \<times> string) option" where
  "read_exponent s =
     (let (sign, t) = (case s of c # t \<Rightarrow> if c = CHR ''+'' then (1, t) else if c = CHR ''-'' then (- 1, t) else (1, s) | [] \<Rightarrow> (1, s))
      in case t of
           [] \<Rightarrow> None
         | c # _ \<Rightarrow> if digit c = None then None else (case scan_exponent 0 t of (e, r) \<Rightarrow> Some (sign * e, r)))"

text \<open>Underscores only between digits, or between the prefix of the base and a digit.\<close>

datatype saw = SawStart | SawDigit | SawUnderscore | SawOther

fun underscores_ok :: "bool \<Rightarrow> saw \<Rightarrow> string \<Rightarrow> bool" where
  "underscores_ok hex sw [] = (sw \<noteq> SawUnderscore)"
| "underscores_ok hex sw (c # s) =
     (if (if hex then hex_digit c else digit c) \<noteq> None then underscores_ok hex SawDigit s
      else if c = CHR ''_'' then sw = SawDigit \<and> underscores_ok hex SawUnderscore s
      else sw \<noteq> SawUnderscore \<and> underscores_ok hex SawOther s)"

definition unsigned :: "string \<Rightarrow> bool \<times> string" where
  "unsigned s = (case s of c # t \<Rightarrow> if c = CHR ''+'' then (False, t) else if c = CHR ''-'' then (True, t) else (False, s) | [] \<Rightarrow> (False, s))"

definition underscoreOK :: "string \<Rightarrow> bool" where
  "underscoreOK s =
     (case snd (unsigned s) of
        z # b # t \<Rightarrow>
          if z = CHR ''0'' \<and> lower b \<in> {CHR ''b'', CHR ''o'', CHR ''x''}
          then underscores_ok (lower b = CHR ''x'') SawDigit t else underscores_ok False SawStart (z # b # t)
      | t \<Rightarrow> underscores_ok False SawStart t)"

text \<open>The number that a text denotes, exactly, if it is the text of a number.\<close>

definition readFloat :: "string \<Rightarrow> rat option" where
  "readFloat s =
     (let (neg, t) = unsigned s;
          hex = (case t of z # x # c # _ \<Rightarrow> z = CHR ''0'' \<and> lower x = CHR ''x'' | _ \<Rightarrow> False);
          base = (if hex then 16 else 10);
          (seen, m, k, r) = scan_mantissa base False False 0 0 (if hex then drop 2 t else t)
      in if \<not> seen then None
         else case (case r of
                      c # r' \<Rightarrow> if lower c = (if hex then CHR ''p'' else CHR ''e'') then read_exponent r' else
                                  (if hex then None else Some (0, r))
                    | [] \<Rightarrow> if hex then None else Some (0, [])) of
                None \<Rightarrow> None
              | Some (e, rest) \<Rightarrow>
                  if rest \<noteq> [] \<or> CHR ''_'' \<in> set s \<and> \<not> underscoreOK s then None
                  else (let x = of_int m * (if hex then 2 powi (e - 4 * k) else 10 powi (e - k))
                        in Some (if neg then - x else x)))"

definition ParseFloat :: "string \<Rightarrow> float64 option" where
  "ParseFloat s =
     (if ToLower s = ''nan'' then Some NaN
      else case unsigned s of
             (neg, t) \<Rightarrow>
               if ToLower t \<in> {''inf'', ''infinity''} then Some (if neg then NegInf else PosInf)
               else case readFloat s of
                      None \<Rightarrow> None
                    | Some x \<Rightarrow> (case fround x of Finite y \<Rightarrow> Some (Finite y) | _ \<Rightarrow> None))"

section \<open>Limits\<close>

definition negative :: "float64 \<Rightarrow> bool" where
  "negative v = (case v of Finite x \<Rightarrow> x < 0 | NegInf \<Rightarrow> True | _ \<Rightarrow> False)"

text \<open>Conversion to a signed integer of 64 bits, which drops the fraction.\<close>

definition trunc_rat :: "rat \<Rightarrow> int" where
  "trunc_rat x = (if x < 0 then - \<lfloor>- x\<rfloor> else \<lfloor>x\<rfloor>)"

definition to_int64 :: "(float64 \<Rightarrow> int) \<Rightarrow> float64 \<Rightarrow> int" where
  "to_int64 machine v =
     (case v of
        Finite x \<Rightarrow> if - (2 ^ 63) \<le> trunc_rat x \<and> trunc_rat x < 2 ^ 63 then trunc_rat x else machine v
      | _ \<Rightarrow> machine v)"

definition parseCPUNano :: "(float64 \<Rightarrow> int) \<Rightarrow> string \<Rightarrow> goerror + int" where
  "parseCPUNano machine cpu =
     (case ParseFloat cpu of
        None \<Rightarrow> Inl (ErrWrap (''invalid CPU value '' @ quoted cpu) (ErrText ''strconv.ParseFloat''))
      | Some v \<Rightarrow>
          if negative v then Inl (ErrText (''CPU value must be non-negative, got '' @ quoted cpu))
          else Inr (to_int64 machine (fmul v 1000000000)))"

text \<open>\<open>math.Round\<close> on a number that is not negative, and the conversion to an unsigned integer.\<close>

definition round_up :: "rat \<Rightarrow> int" where
  "round_up x = \<lfloor>x + 1 / 2\<rfloor>"

definition to_uint64 :: "(float64 \<Rightarrow> int) \<Rightarrow> float64 \<Rightarrow> int" where
  "to_uint64 machine v =
     (case v of Finite x \<Rightarrow> if \<lfloor>x\<rfloor> < 2 ^ 64 then \<lfloor>x\<rfloor> else machine v | _ \<Rightarrow> machine v)"

definition maxQuota :: float64 where
  "maxQuota = fround (2 ^ 64 / 1000000)"

definition exceeds :: "float64 \<Rightarrow> float64 \<Rightarrow> bool" where
  "exceeds v w = (case (v, w) of (Finite x, Finite y) \<Rightarrow> x > y | (PosInf, Finite y) \<Rightarrow> True | _ \<Rightarrow> False)"

definition parseCPUQuota :: "(float64 \<Rightarrow> int) \<Rightarrow> string \<Rightarrow> goerror + int" where
  "parseCPUQuota machine cpu =
     (case ParseFloat cpu of
        None \<Rightarrow> Inl (ErrWrap (''invalid CPU value '' @ quoted cpu) (ErrText ''strconv.ParseFloat''))
      | Some v \<Rightarrow>
          if (case v of Finite x \<Rightarrow> x \<le> 0 | _ \<Rightarrow> True) \<or> exceeds v maxQuota
          then Inl (ErrText (''CPU value must be positive and finite, got '' @ quoted cpu))
          else let quota = (case fmul v 1000000 of
                              Finite y \<Rightarrow> to_uint64 machine (Finite (of_int (round_up y)))
                            | w \<Rightarrow> to_uint64 machine w)
               in if quota = 0 then Inl (ErrText (''CPU value '' @ quoted cpu @ '' is too small'')) else Inr quota)"

section \<open>Rounding\<close>

lemma log2_int_bounds:
  "1 \<le> n \<Longrightarrow> 0 \<le> log2_int n \<and> 2 powi log2_int n \<le> (of_int n :: rat) \<and> of_int n < (2 :: rat) powi (log2_int n + 1)"
proof (induction n rule: log2_int.induct)
  case (1 n)
  show ?case
  proof (cases "n = 1")
    case True
    then show ?thesis by (simp add: log2_int.simps)
  next
    case False
    with 1 have n: "2 \<le> n" "\<not> n \<le> 1" "1 \<le> n div 2" by auto
    define k where "k = log2_int (n div 2)"
    have k: "0 \<le> k" "2 powi k \<le> (of_int (n div 2) :: rat)" "of_int (n div 2) < (2 :: rat) powi (k + 1)"
      using 1(1) n by (auto simp: k_def)
    have step: "log2_int n = k + 1" using n by (simp add: log2_int.simps[of n] k_def)
    have p: "(2 :: rat) powi k = of_int (2 ^ nat k)" "(2 :: rat) powi (k + 1) = of_int (2 ^ nat k * 2)"
      "(2 :: rat) powi (k + 2) = of_int (2 ^ nat k * 4)"
      using k(1) by (simp_all add: power_int_def nat_add_distrib power_add)
    have le: "2 ^ nat k \<le> n div 2" "n div 2 < 2 ^ nat k * 2"
      using k(2,3) by (simp_all only: p of_int_le_iff of_int_less_iff)
    have "2 ^ nat k * 2 \<le> n" "n < 2 ^ nat k * 4" using le by linarith+
    moreover have "log2_int n + 1 = k + 2" using step by simp
    ultimately show ?thesis unfolding \<open>log2_int n + 1 = k + 2\<close> unfolding step
      using k(1) by (simp only: p of_int_le_iff of_int_less_iff) simp
  qed
qed

lemma log2_floor_bounds:
  assumes "0 < x"
  shows "2 powi log2_floor x \<le> x" "x < 2 powi (log2_floor x + 1)"
proof -
  obtain n d where q: "quotient_of x = (n, d)" by (cases "quotient_of x")
  have d: "0 < d" using quotient_of_denom_pos[OF q] .
  have x: "x = of_int n / of_int d" using quotient_of_div[OF q] .
  have n: "0 < n" using assms d unfolding x by (simp add: zero_less_divide_iff)
  define a b where "a = log2_int n" and "b = log2_int d"
  have a: "2 powi a \<le> (of_int n :: rat)" "of_int n < (2 :: rat) powi (a + 1)"
    using log2_int_bounds[of n] n by (auto simp: a_def)
  have b: "2 powi b \<le> (of_int d :: rat)" "of_int d < (2 :: rat) powi (b + 1)"
    using log2_int_bounds[of d] d by (auto simp: b_def)
  have "x < 2 powi (a + 1) / 2 powi b"
    unfolding x using a b d n by (intro frac_less) auto
  then have up: "x < 2 powi (a - b + 1)" by (simp add: power_int_diff power_int_add)
  have "2 powi a / 2 powi (b + 1) < x"
    unfolding x using a b d n by (intro frac_less2) auto
  then have lo: "2 powi (a - b - 1) \<le> x" by (simp add: power_int_diff power_int_add)
  have f: "log2_floor x = (if 2 powi (a - b) \<le> x then a - b else a - b - 1)"
    by (simp add: log2_floor_def q a_def b_def Let_def)
  show "2 powi log2_floor x \<le> x" using lo by (simp add: f)
  show "x < 2 powi (log2_floor x + 1)" using up by (simp add: f)
qed

lemma round_even_close: "\<bar>of_int (round_even q) - q\<bar> \<le> 1 / 2"
proof -
  have "of_int \<lfloor>q\<rfloor> \<le> q" "q < of_int \<lfloor>q\<rfloor> + 1" by linarith+
  then show ?thesis by (auto simp: round_even_def Let_def abs_le_iff)
qed

lemma round_even_nonneg: "0 \<le> q \<Longrightarrow> 0 \<le> round_even q"
  by (auto simp: round_even_def Let_def)

text \<open>Rounding moves a number by at most one part in \<open>2\<^sup>5\<^sup>3\<close>, up to the granularity near zero.\<close>

lemma fround_close:
  assumes "0 \<le> x" "x < 2 powi 1000"
  obtains y where "fround x = Finite y" "0 \<le> y" "\<bar>y - x\<bar> \<le> x / 2 ^ 53 + 1 / 2 ^ 100"
proof (cases "x = 0")
  case True
  then show thesis using that[of 0] by (simp add: fround_def)
next
  case False
  then have x: "0 < x" using assms by simp
  define e where "e = max (- 1074) (log2_floor x - 52)"
  define m where "m = round_even (x / 2 powi e)"
  have pos: "(0 :: rat) < 2 powi e" by simp
  have "2 powi log2_floor x < (2 :: rat) powi 1000"
    using log2_floor_bounds(1)[OF x] assms(2) by linarith
  then have "log2_floor x < 1000" using power_int_increasing[of 1000 "log2_floor x" "2 :: rat"] by fastforce
  then have small: "e < 971" by (simp add: e_def)
  have "\<bar>of_int m - x / 2 powi e\<bar> \<le> 1 / 2" unfolding m_def by (rule round_even_close)
  then have "\<bar>of_int m - x / 2 powi e\<bar> * 2 powi e \<le> 1 / 2 * 2 powi e" using pos by (intro mult_right_mono) auto
  moreover have "\<bar>of_int m - x / 2 powi e\<bar> * 2 powi e = \<bar>of_int m * 2 powi e - x\<bar>"
    using pos abs_mult[of "of_int m - x / 2 powi e" "2 powi e"] by (simp add: left_diff_distrib)
  ultimately have close: "\<bar>of_int m * 2 powi e - x\<bar> \<le> 2 powi e / 2" by simp
  have bound: "2 powi e / 2 \<le> x / 2 ^ 53 + 1 / 2 ^ 100"
  proof (cases "e = - 1074")
    case True
    have "(2 :: rat) powi e \<le> 2 powi - 100" unfolding True by (intro power_int_increasing) auto
    also have "\<dots> = 1 / 2 ^ 100" by (simp add: power_int_def power_divide)
    finally show ?thesis using x by simp
  next
    case False
    then have e: "e = log2_floor x - 52" by (auto simp: e_def max_def split: if_splits)
    have "2 powi e = (2 :: rat) powi log2_floor x / 2 ^ 52" by (simp add: e power_int_diff)
    then have "2 powi e \<le> x / 2 ^ 52" using log2_floor_bounds(1)[OF x] by (simp add: divide_right_mono)
    then show ?thesis by simp
  qed
  have "fround x = Finite (of_int m * 2 powi e)"
    using x small by (simp add: fround_def Let_def e_def[symmetric] m_def[symmetric])
  moreover have "0 \<le> (of_int m :: rat) * 2 powi e"
    using pos x round_even_nonneg[of "x / 2 powi e"] by (simp add: m_def)
  ultimately show thesis using that close bound by fastforce
qed

text \<open>A limit is scaled by a constant: two roundings, together off by less than a half.\<close>

lemma scaled_close:
  assumes "0 \<le> x" "x \<le> 1000000" "0 < c" "c \<le> 1000000000"
  obtains y z where "fround x = Finite y" "0 \<le> y" "\<bar>y - x\<bar> \<le> x / 2 ^ 53 + 1 / 2 ^ 100"
    "fround (y * c) = Finite z" "0 \<le> z" "\<bar>z - x * c\<bar> < 1 / 2"
proof -
  have huge: "(2 :: rat) ^ 100 \<le> 2 powi 1000"
    using power_int_increasing[of 100 1000 "2 :: rat"] by simp
  have "x < 2 powi 1000" using assms(2) huge by simp
  then obtain y where y: "fround x = Finite y" "0 \<le> y" "\<bar>y - x\<bar> \<le> x / 2 ^ 53 + 1 / 2 ^ 100"
    using fround_close[OF assms(1)] by blast
  have yx: "\<bar>y - x\<bar> \<le> 1 / 9000000000" using y(3) assms(2) by simp
  have "\<bar>y * c - x * c\<bar> = \<bar>y - x\<bar> * c" using assms(3) abs_mult[of "y - x" c] by (simp add: left_diff_distrib)
  also have "\<dots> \<le> 1 / 9000000000 * 1000000000" using yx assms(3,4) by (intro mult_mono) auto
  finally have yc: "\<bar>y * c - x * c\<bar> \<le> 1 / 9" by simp
  have "x * c \<le> 1000000 * 1000000000" using assms by (intro mult_mono) auto
  then have top: "y * c \<le> 1000000000000001" using yc by linarith
  have "0 \<le> y * c" using y(2) assms(3) by simp
  moreover have "y * c < 2 powi 1000" using top huge by simp
  ultimately obtain z where z: "fround (y * c) = Finite z" "0 \<le> z" "\<bar>z - y * c\<bar> \<le> y * c / 2 ^ 53 + 1 / 2 ^ 100"
    using fround_close[of "y * c"] by blast
  have "\<bar>z - y * c\<bar> \<le> 1 / 8" using z(3) top by simp
  then have "\<bar>z - x * c\<bar> < 1 / 2" using yc by linarith
  then show thesis using that y z by blast
qed

text \<open>Texts that are read as a number.\<close>

definition numeric :: "string \<Rightarrow> bool" where
  "numeric s = (ToLower s \<noteq> ''nan'' \<and> ToLower (snd (unsigned s)) \<notin> {''inf'', ''infinity''})"

lemma ParseFloat_numeric:
  assumes "numeric s" "readFloat s = Some x" "fround x = Finite y"
  shows "ParseFloat s = Some (Finite y)"
  using assms by (cases "unsigned s") (simp add: ParseFloat_def numeric_def)

lemma parseCPUNano_close:
  assumes "numeric cpu" "readFloat cpu = Some x" "0 \<le> x" "x \<le> 1000000"
  obtains n where "parseCPUNano machine cpu = Inr n" "0 \<le> n"
    "x * 1000000000 - 3 / 2 < of_int n" "of_int n < x * 1000000000 + 1 / 2"
proof -
  obtain y z where yz: "fround x = Finite y" "0 \<le> y" "fround (y * 1000000000) = Finite z" "0 \<le> z"
    "\<bar>z - x * 1000000000\<bar> < 1 / 2"
    by (rule scaled_close[OF assms(3,4), of 1000000000]) simp_all
  have z: "of_int \<lfloor>z\<rfloor> \<le> z" "z < of_int \<lfloor>z\<rfloor> + 1" by linarith+
  have "z < 9223372036854775808" using yz(5) assms(4) by linarith
  then have "\<lfloor>z\<rfloor> < 2 ^ 63" by (simp add: floor_less_iff)
  then have "parseCPUNano machine cpu = Inr \<lfloor>z\<rfloor>"
    using yz ParseFloat_numeric[OF assms(1,2) yz(1)]
    by (simp add: parseCPUNano_def negative_def fmul_def to_int64_def trunc_rat_def not_less)
  moreover have "x * 1000000000 - 3 / 2 < of_int \<lfloor>z\<rfloor>" "of_int \<lfloor>z\<rfloor> < x * 1000000000 + 1 / 2"
    using yz(5) z by linarith+
  ultimately show thesis using that[of "\<lfloor>z\<rfloor>"] yz(4) by simp
qed

lemma maxQuota_large: obtains w where "maxQuota = Finite w" "2000000 \<le> w"
proof -
  have "(2 ^ 64 / 1000000 :: rat) < 2 ^ 100" by simp
  then have "(2 ^ 64 / 1000000 :: rat) < 2 powi 1000"
    using power_int_increasing[of 100 1000 "2 :: rat"] by simp
  then obtain w where "fround (2 ^ 64 / 1000000) = Finite w" "\<bar>w - 2 ^ 64 / 1000000\<bar> \<le> 2 ^ 64 / 1000000 / 2 ^ 53 + 1 / 2 ^ 100"
    using fround_close[of "2 ^ 64 / 1000000"] by auto
  then show thesis using that[of w] unfolding maxQuota_def by (auto simp: abs_if split: if_splits)
qed

lemma parseCPUQuota_exact:
  assumes "numeric cpu" "readFloat cpu = Some x" "x \<le> 1000000" "x * 1000000 = of_int q" "0 < q"
  shows "parseCPUQuota machine cpu = Inr q"
proof -
  have "0 < x * 1000000" using assms(4,5) by simp
  then have x: "0 < x" by simp
  have "(1 :: rat) \<le> of_int q" using assms(5) by simp
  then have low: "1 / 1000000 \<le> x" using assms(4) by simp
  obtain y z where yz: "fround x = Finite y" "\<bar>y - x\<bar> \<le> x / 2 ^ 53 + 1 / 2 ^ 100"
    "fround (y * 1000000) = Finite z" "0 \<le> z" "\<bar>z - x * 1000000\<bar> < 1 / 2"
    by (rule scaled_close[of x 1000000]) (use x assms(3) in simp_all)
  have y: "0 < y" "y \<le> 2000000" using yz(2) low assms(3) by (auto simp: abs_le_iff)
  obtain w where w: "maxQuota = Finite w" "2000000 \<le> w" by (rule maxQuota_large)
  have "\<not> exceeds (Finite y) maxQuota" using y(2) w(2) unfolding exceeds_def w(1) by simp
  moreover have "round_up z = q" using yz(5) unfolding assms(4) round_up_def by linarith
  moreover have "(of_int q :: rat) \<le> 1000000 * 1000000" using assms(3,4) by simp
  then have "q \<le> 1000000000000" by linarith
  ultimately show ?thesis
    using ParseFloat_numeric[OF assms(1,2) yz(1)] y(1) yz(3) assms(5)
    by (simp add: parseCPUQuota_def fmul_def to_uint64_def)
qed

section \<open>What limits come out as\<close>

text \<open>
  C25: a CPU count between zero and a million is accepted. The Docker and Swarm providers turn it
  into nanocores, off by less than a half above and one and a half below (so an exact number of
  nanocores comes out exact or one too low), whatever the machine does out of range; the systemd
  provider turns a positive count of whole microseconds per second into exactly that quota.
\<close>

theorem cpu_limits:
  assumes "numeric cpu" "readFloat cpu = Some x" "0 \<le> x" "x \<le> 1000000"
  shows "(\<exists>n. parseCPUNano machine cpu = Inr n \<and> 0 \<le> n \<and>
           x * 1000000000 - 3 / 2 < of_int n \<and> of_int n < x * 1000000000 + 1 / 2) \<and>
         (\<forall>q > 0. x * 1000000 = of_int q \<longrightarrow> parseCPUQuota machine cpu = Inr q)"
  using parseCPUNano_close[OF assms, of machine] parseCPUQuota_exact[OF assms(1,2,4)] by metis

theorem cpu_limits_witness:
  "numeric ''1.001'' \<and> readFloat ''1.001'' = Some (1001 / 1000) \<and>
   (\<exists>n. parseCPUNano (\<lambda>_. 0) ''1.001'' = Inr n \<and> 1000999998 < n \<and> n \<le> 1001000000) \<and>
   parseCPUQuota (\<lambda>_. 0) ''1.001'' = Inr 1001000"
proof -
  have h: "numeric ''1.001''" "readFloat ''1.001'' = Some (1001 / 1000)" by code_simp+
  have "(\<exists>n. parseCPUNano (\<lambda>_. 0) ''1.001'' = Inr n \<and> 0 \<le> n \<and>
           1001 / 1000 * 1000000000 - 3 / 2 < (of_int n :: rat) \<and> (of_int n :: rat) < 1001 / 1000 * 1000000000 + 1 / 2) \<and>
         (\<forall>q > 0. (1001 / 1000 :: rat) * 1000000 = of_int q \<longrightarrow> parseCPUQuota (\<lambda>_. 0) ''1.001'' = Inr q)"
    by (rule cpu_limits[OF h]) simp_all
  then obtain n where n: "parseCPUNano (\<lambda>_. 0) ''1.001'' = Inr n"
      "1001 / 1000 * 1000000000 - 3 / 2 < (of_int n :: rat)" "(of_int n :: rat) < 1001 / 1000 * 1000000000 + 1 / 2"
    and q: "\<forall>q > 0. (1001 / 1000 :: rat) * 1000000 = of_int q \<longrightarrow> parseCPUQuota (\<lambda>_. 0) ''1.001'' = Inr q"
    by blast
  have "1000999998 < n" "n \<le> 1001000000" using n(2,3) by linarith+
  moreover have "parseCPUQuota (\<lambda>_. 0) ''1.001'' = Inr 1001000" using q[rule_format, of 1001000] by simp
  ultimately show ?thesis using h n(1) by blast
qed

text \<open>
  The conversion drops the fraction of a product that was rounded down: a limit of 1.001 CPUs is
  one nanocore too low, while the systemd provider, which rounds, is exact.
\<close>

lemma nanocores_lost: "parseCPUNano machine ''1.001'' = Inr 1000999999" "parseCPUQuota machine ''1.001'' = Inr 1001000"
  by code_simp+

text \<open>
  \<open>inf\<close> and \<open>nan\<close> are not negative: the Docker and Swarm parsers accept them, with whatever the machine
  converts them to; the systemd parser rejects both.
\<close>

lemma infinite_limit_accepted:
  "parseCPUNano machine ''inf'' = Inr (machine PosInf)" "parseCPUNano machine ''nan'' = Inr (machine NaN)"
  "parseCPUQuota machine ''inf'' = Inl (ErrText (''CPU value must be positive and finite, got '' @ quoted ''inf''))"
  "parseCPUQuota machine ''nan'' = Inl (ErrText (''CPU value must be positive and finite, got '' @ quoted ''nan''))"
  by code_simp+

text \<open>
  The guard of the systemd parser compares with the largest quota as a floating-point number, which
  is \<open>2\<^sup>6\<^sup>4\<close>, one more than an unsigned integer holds: a count just below passes, and its quota is whatever
  the machine converts \<open>2\<^sup>6\<^sup>4\<close> to.
\<close>

lemma largest_quota_out_of_range:
  "parseCPUQuota (\<lambda>_. 9223372036854775808) ''18446744073709.55'' = Inr 9223372036854775808"
  "parseCPUQuota (\<lambda>_. 18446744073709551615) ''18446744073709.55'' = Inr 18446744073709551615"
  by code_simp+

end
