(* ===== verification/Docker.thy ===== *)
theory Docker
  imports Sablier_State
begin

text \<open>
  The Docker provider (\<open>pkg/provider/docker\<close>) and the Podman provider that wraps it. The
  Docker API client is not part of the program: it is a record of functions on the state \<open>'d\<close>
  of the daemon, with the calls the provider makes. The provider carries two functions
  on texts: \<open>RAMInBytes\<close> of \<open>docker/go-units\<close>, a parameter, and \<open>CPUNano\<close>, which the
  constructor sets to \<open>parseCPUNano\<close> of \<open>Cpu_Limits\<close>.
  Logging and tracing are left out.

  What a daemon does is stated as the predicate \<open>docker_daemon\<close>, the documented effect of
  start, stop, pause and unpause on what an inspection shows.
\<close>

section \<open>The Docker API\<close>

record ContainerState =
  cst_Status :: string
  cst_Running :: bool
  cst_Paused :: bool
  cst_ExitCode :: int
  cst_Health :: "string option"

text \<open>
  An inspected container. \<open>sp_HostConfig\<close> is the mode of the restart policy, \<open>None\<close> when there
  is no host configuration.
\<close>

record ContainerSpec =
  sp_ID :: string
  sp_Image :: string
  sp_Labels :: labels
  sp_State :: ContainerState
  sp_HostConfig :: "string option"

record Summary =
  sum_Names :: "string list"
  sum_State :: string
  sum_Labels :: labels

record ThrottleDevice =
  bt_Path :: string
  bt_Rate :: int

record Resources =
  res_NanoCPUs :: int
  res_Memory :: int
  res_MemorySwap :: int
  res_BlkioWeight :: int
  res_BlkioWeightDevice :: "BlkioWeightDevice list"
  res_BlkioDeviceReadBps :: "ThrottleDevice list"
  res_BlkioDeviceWriteBps :: "ThrottleDevice list"
  res_BlkioDeviceReadIOps :: "ThrottleDevice list"
  res_BlkioDeviceWriteIOps :: "ThrottleDevice list"

text \<open>What the \<open>select\<close> after a stop receives.\<close>

datatype wait_result = WaitResponse int | WaitError goerror | WaitCancelled

record 'd docker_client =
  ContainerInspect :: "string \<Rightarrow> 'd \<Rightarrow> goerror + ContainerSpec"
  ContainerList :: "bool \<Rightarrow> string list \<Rightarrow> 'd \<Rightarrow> goerror + Summary list"
  ContainerStart :: "string \<Rightarrow> 'd \<Rightarrow> goerror option \<times> 'd"
  ContainerStop :: "string \<Rightarrow> 'd \<Rightarrow> goerror option \<times> 'd"
  ContainerPause :: "string \<Rightarrow> 'd \<Rightarrow> goerror option \<times> 'd"
  ContainerUnpause :: "string \<Rightarrow> 'd \<Rightarrow> goerror option \<times> 'd"
  ContainerWait :: "string \<Rightarrow> 'd \<Rightarrow> wait_result \<times> 'd"
  ContainerUpdate :: "string \<Rightarrow> Resources \<Rightarrow> 'd \<Rightarrow> goerror option \<times> 'd"

record 'd DockerProvider =
  dp_Client :: "'d docker_client"
  dp_strategy :: string
  dp_HonorRestartPolicy :: bool
  dp_CPUNano :: "string \<Rightarrow> goerror + int"
  dp_RAMInBytes :: "string \<Rightarrow> goerror + int"

section \<open>Compose dependencies\<close>

definition composeProjectLabel :: string where "composeProjectLabel = ''com.docker.compose.project''"
definition composeServiceLabel :: string where "composeServiceLabel = ''com.docker.compose.service''"
definition composeDependsOnLabel :: string where "composeDependsOnLabel = ''com.docker.compose.depends_on''"

record composeDependency =
  cd_Service :: string
  cd_Condition :: string

fun compose_entries :: "string list \<Rightarrow> composeDependency list" where
  "compose_entries [] = []"
| "compose_entries (entry # entries) =
     (let entry = TrimSpace entry in
      if entry = [] then compose_entries entries
      else
        let parts = Split (CHR '':'') entry in
        if length parts < 2 \<or> parts ! 0 = [] then compose_entries entries
        else \<lparr>cd_Service = parts ! 0, cd_Condition = parts ! 1\<rparr> # compose_entries entries)"

definition parseComposeDependsOn :: "string \<Rightarrow> composeDependency list" where
  "parseComposeDependsOn label =
     (let label = TrimSpace label in
      if label = [] then [] else compose_entries (Split (CHR '','') label))"

fun compose_names :: "Summary list \<Rightarrow> string list \<times> string list" where
  "compose_names [] = ([], [])"
| "compose_names (c # cs) =
     (let (names, running) = compose_names cs in
      case sum_Names c of
        [] \<Rightarrow> (names, running)
      | n # ns \<Rightarrow>
          let name = TrimPrefix n ''/'' in
          (name # names, if sum_State c = ''running'' then name # running else running))"

definition label_filter :: "string \<Rightarrow> string \<Rightarrow> string" where
  "label_filter k v = k @ ''='' @ v"

definition findComposeContainer :: "'d DockerProvider \<Rightarrow> string \<Rightarrow> string \<Rightarrow> 'd \<Rightarrow> goerror + string" where
  "findComposeContainer p project service d =
     (let filters = (if project \<noteq> [] then [label_filter composeProjectLabel project] else []) @
                    [label_filter composeServiceLabel service] in
      case ContainerList (dp_Client p) True filters d of
        Inl err \<Rightarrow> Inl (ErrWrap (''cannot list containers for dependency '' @ service) err)
      | Inr containers \<Rightarrow>
          let (names, running) = compose_names containers in
          if running \<noteq> [] then Inr (hd (sort running))
          else if names = [] then Inr []
          else Inr (hd (sort names)))"

fun resolve_compose :: "'d DockerProvider \<Rightarrow> string \<Rightarrow> composeDependency list \<Rightarrow> 'd \<Rightarrow>
    goerror + InstanceDependency list" where
  "resolve_compose p project [] d = Inr []"
| "resolve_compose p project (dep # raw) d =
     (case findComposeContainer p project (cd_Service dep) d of
        Inl err \<Rightarrow> Inl err
      | Inr depName \<Rightarrow>
          if depName = [] then resolve_compose p project raw d
          else case resolve_compose p project raw d of
            Inl err \<Rightarrow> Inl err
          | Inr deps \<Rightarrow> Inr (\<lparr>dep_Name = depName, dep_Condition = cd_Condition dep\<rparr> # deps))"

definition docker_InstanceDependencies :: "'d DockerProvider \<Rightarrow> string \<Rightarrow> 'd \<Rightarrow> goerror + InstanceDependency list" where
  "docker_InstanceDependencies p name d =
     (case ContainerInspect (dp_Client p) name d of
        Inl err \<Rightarrow> Inl (ErrWrap (''cannot inspect dependency container '' @ quoted name) err)
      | Inr spec \<Rightarrow>
          let labels = sp_Labels spec;
              raw = parseComposeDependsOn (label_value labels composeDependsOnLabel);
              project = label_value labels composeProjectLabel in
          if raw = [] then Inr []
          else if project = [] then Inr []
          else resolve_compose p project raw d)"

section \<open>Inspection\<close>

definition restartPolicyMode :: "string option \<Rightarrow> string" where
  "restartPolicyMode hc = (case hc of None \<Rightarrow> ''no'' | Some mode \<Rightarrow> mode)"

definition restartsOnSuccess :: "string \<Rightarrow> bool" where
  "restartsOnSuccess mode \<longleftrightarrow> mode = ''always'' \<or> mode = ''unless-stopped''"

text \<open>The composite literals of \<open>InstanceInspect\<close>, which always desire one replica.\<close>

definition container_info :: "string \<Rightarrow> int \<Rightarrow> InstanceStatus \<Rightarrow> string \<Rightarrow> InstanceInfo" where
  "container_info name current status message =
     zero_InstanceInfo\<lparr>i_Name := name, i_CurrentReplicas := current, i_DesiredReplicas := 1,
                       i_Status := status, i_Message := message\<rparr>"

definition docker_status :: "bool \<Rightarrow> string \<Rightarrow> ContainerState \<Rightarrow> string option \<Rightarrow> InstanceInfo" where
  "docker_status honor name state hc =
     (if cst_Status state \<in> {''created'', ''paused'', ''restarting'', ''removing''}
      then container_info name 0 InstanceStatusStarting []
      else if cst_Status state = ''running'' then
        (case cst_Health state of
           Some health \<Rightarrow>
             if health = ''healthy'' then container_info name 1 InstanceStatusReady []
             else if health = ''unhealthy''
             then container_info name 0 InstanceStatusStarting ''container is running but not healthy yet''
             else container_info name 0 InstanceStatusStarting []
         | None \<Rightarrow> container_info name 1 InstanceStatusReady [])
      else if cst_Status state = ''exited'' then
        (if cst_ExitCode state \<noteq> 0
         then container_info name 0 InstanceStatusError
                (''container exited with code '' @ quoted (int_text (cst_ExitCode state)))
         else if honor \<and> \<not> restartsOnSuccess (restartPolicyMode hc)
         then container_info name 0 InstanceStatusCompleted []
         else container_info name 0 InstanceStatusStopped [])
      else if cst_Status state = ''dead''
      then container_info name 0 InstanceStatusError
             (''container in '' @ quoted ''dead'' @ '' state cannot be restarted'')
      else container_info name 0 InstanceStatusError
             (''container status '' @ quoted (cst_Status state) @ '' not handled''))"

definition docker_InstanceInspect :: "'d DockerProvider \<Rightarrow> string \<Rightarrow> 'd \<Rightarrow> goerror + InstanceInfo" where
  "docker_InstanceInspect p name d =
     (case ContainerInspect (dp_Client p) name d of
        Inl err \<Rightarrow> Inl (ErrWrap ''cannot inspect container'' err)
      | Inr spec \<Rightarrow>
          let info = docker_status (dp_HonorRestartPolicy p) name (sp_State spec) (sp_HostConfig spec) in
          Inr ((PopulateEnabledAndGroup info (sp_Labels spec))\<lparr>
            i_Provider := ProviderDocker,
            i_Docker := Some \<lparr>docker_ID = sp_ID spec, docker_Image = sp_Image spec, docker_Labels = sp_Labels spec\<rparr>\<rparr>))"

definition podman_InstanceInspect :: "'d DockerProvider \<Rightarrow> string \<Rightarrow> 'd \<Rightarrow> goerror + InstanceInfo" where
  "podman_InstanceInspect p name d =
     (case docker_InstanceInspect p name d of
        Inl err \<Rightarrow> Inl err
      | Inr info \<Rightarrow>
          (case i_Docker info of
             None \<Rightarrow> Inl (ErrText (''podman: docker provider did not populate Docker field for '' @ quoted name))
           | Some docker \<Rightarrow>
               Inr (info\<lparr>i_Provider := ProviderPodman,
                         i_Podman := Some \<lparr>podman_ID = docker_ID docker, podman_Image = docker_Image docker,
                                           podman_Labels = docker_Labels docker\<rparr>,
                         i_Docker := None\<rparr>)))"

section \<open>Listing\<close>

text \<open>\<open>c.Names[0]\<close> panics for a container without names: \<open>None\<close>.\<close>

definition container_name :: "Summary \<Rightarrow> string option" where
  "container_name c = (case sum_Names c of [] \<Rightarrow> None | n # ns \<Rightarrow> Some (TrimPrefix n ''/''))"

definition containerToInstance :: "Summary \<Rightarrow> InstanceConfiguration option" where
  "containerToInstance c =
     (let enabled = label_value (sum_Labels c) LabelEnable;
          groups = (if enabled = ''true'' then ParseGroups (label_value (sum_Labels c) LabelGroup) else []) in
      map_option (\<lambda>name. \<lparr>c_Name = name, c_Groups = groups, c_Enabled = enabled\<rparr>) (container_name c))"

fun container_instances :: "Summary list \<Rightarrow> InstanceConfiguration list option" where
  "container_instances [] = Some []"
| "container_instances (c # cs) =
     (case containerToInstance c of
        None \<Rightarrow> None
      | Some inst \<Rightarrow> map_option (\<lambda>insts. inst # insts) (container_instances cs))"

definition enabled_filter :: "string list" where
  "enabled_filter = [label_filter LabelEnable ''true'']"

definition docker_InstanceList :: "'d DockerProvider \<Rightarrow> bool \<Rightarrow> 'd \<Rightarrow> (goerror + InstanceConfiguration list) option" where
  "docker_InstanceList p all d =
     (case ContainerList (dp_Client p) all enabled_filter d of
        Inl err \<Rightarrow> Some (Inl (ErrWrap ''cannot list containers'' err))
      | Inr containers \<Rightarrow> map_option Inr (container_instances containers))"

fun group_append :: "string \<Rightarrow> string list \<Rightarrow> registry \<Rightarrow> registry" where
  "group_append name [] groups = groups"
| "group_append name (g # gs) groups = group_append name gs (map_put g (map_list groups g @ [name]) groups)"

fun container_groups :: "Summary list \<Rightarrow> registry \<Rightarrow> registry option" where
  "container_groups [] groups = Some groups"
| "container_groups (c # cs) groups =
     (case container_name c of
        None \<Rightarrow> None
      | Some name \<Rightarrow>
          container_groups cs (group_append name (ParseGroups (label_value (sum_Labels c) LabelGroup)) groups))"

definition docker_InstanceGroups :: "'d DockerProvider \<Rightarrow> 'd \<Rightarrow> (goerror + registry) option" where
  "docker_InstanceGroups p d =
     (case ContainerList (dp_Client p) True enabled_filter d of
        Inl err \<Rightarrow> Some (Inl (ErrWrap ''cannot list containers'' err))
      | Inr containers \<Rightarrow> map_option Inr (container_groups containers []))"

section \<open>Resource limits\<close>

definition parseMemoryBytes :: "'d DockerProvider \<Rightarrow> string \<Rightarrow> goerror + int" where
  "parseMemoryBytes p memory =
     (case dp_RAMInBytes p memory of
        Inl err \<Rightarrow> Inl (ErrWrap (''invalid memory value '' @ quoted memory) err)
      | Inr b \<Rightarrow> Inr b)"

definition parseBpsRate :: "'d DockerProvider \<Rightarrow> string \<Rightarrow> goerror + int" where
  "parseBpsRate p s =
     (case dp_RAMInBytes p s of
        Inl err \<Rightarrow> Inl (ErrWrap (''invalid bps rate '' @ quoted s) err)
      | Inr v \<Rightarrow>
          if v < 0 then Inl (ErrText (''bps rate must be non-negative, got '' @ quoted s)) else Inr v)"

definition parseIOpsRate :: "string \<Rightarrow> goerror + int" where
  "parseIOpsRate s =
     (case ParseUint 64 s of
        None \<Rightarrow> Inl (ErrText (''invalid iops value '' @ quoted s))
      | Some v \<Rightarrow> Inr v)"

text \<open>The loops over the devices, which skip a rate that cannot be read.\<close>

fun throttle_devices :: "(string \<Rightarrow> goerror + int) \<Rightarrow> BlkioThrottleDevice list \<Rightarrow> ThrottleDevice list" where
  "throttle_devices parse [] = []"
| "throttle_devices parse (d # ds) =
     (case parse (td_Rate d) of
        Inl err \<Rightarrow> throttle_devices parse ds
      | Inr rate \<Rightarrow> \<lparr>bt_Path = td_Path d, bt_Rate = rate\<rparr> # throttle_devices parse ds)"

definition resources_of :: "'d DockerProvider \<Rightarrow> ResourceProfile \<Rightarrow> goerror + Resources" where
  "resources_of p profile =
     (case (if CPU profile \<noteq> [] then dp_CPUNano p (CPU profile) else Inr 0) of
        Inl err \<Rightarrow> Inl err
      | Inr cpus \<Rightarrow>
     (case (if Memory profile \<noteq> [] then parseMemoryBytes p (Memory profile) else Inr 0) of
        Inl err \<Rightarrow> Inl err
      | Inr memory \<Rightarrow>
          Inr \<lparr>res_NanoCPUs = cpus, res_Memory = memory, res_MemorySwap = memory,
               res_BlkioWeight = BlkioWeight profile,
               res_BlkioWeightDevice = BlkioWeightDevices profile,
               res_BlkioDeviceReadBps = throttle_devices (parseBpsRate p) (BlkioDeviceReadBps profile),
               res_BlkioDeviceWriteBps = throttle_devices (parseBpsRate p) (BlkioDeviceWriteBps profile),
               res_BlkioDeviceReadIOps = throttle_devices parseIOpsRate (BlkioDeviceReadIOps profile),
               res_BlkioDeviceWriteIOps = throttle_devices parseIOpsRate (BlkioDeviceWriteIOps profile)\<rparr>))"

definition applyResources :: "'d DockerProvider \<Rightarrow> string \<Rightarrow> ResourceProfile \<Rightarrow> 'd \<Rightarrow> goerror option \<times> 'd" where
  "applyResources p name profile d =
     (case resources_of p profile of
        Inl err \<Rightarrow> (Some err, d)
      | Inr resources \<Rightarrow>
          (case ContainerUpdate (dp_Client p) name resources d of
             (Some err, d) \<Rightarrow> (Some (ErrWrap (''cannot update resources for container '' @ name) err), d)
           | (None, d) \<Rightarrow> (None, d)))"

section \<open>Starting and stopping\<close>

definition dockerStart :: "'d DockerProvider \<Rightarrow> string \<Rightarrow> 'd \<Rightarrow> goerror option \<times> 'd" where
  "dockerStart p name d =
     (case ContainerStart (dp_Client p) name d of
        (Some err, d) \<Rightarrow> (Some (ErrWrap (''cannot start container '' @ name) err), d)
      | (None, d) \<Rightarrow> (None, d))"

definition dockerUnpause :: "'d DockerProvider \<Rightarrow> string \<Rightarrow> 'd \<Rightarrow> goerror option \<times> 'd" where
  "dockerUnpause p name d =
     (case ContainerInspect (dp_Client p) name d of
        Inl err \<Rightarrow> (Some (ErrWrap (''cannot inspect container '' @ name @ '' before unpausing'') err), d)
      | Inr inspected \<Rightarrow>
          if \<not> cst_Paused (sp_State inspected) then dockerStart p name d
          else case ContainerUnpause (dp_Client p) name d of
            (Some err, d) \<Rightarrow> (Some (ErrWrap (''cannot unpause container '' @ name) err), d)
          | (None, d) \<Rightarrow> (None, d))"

definition startSingle :: "'d DockerProvider \<Rightarrow> string \<Rightarrow> 'd \<Rightarrow> goerror option \<times> 'd" where
  "startSingle p name d =
     (case ContainerInspect (dp_Client p) name d of
        Inl err \<Rightarrow> (Some (ErrWrap ''cannot inspect container'' err), d)
      | Inr spec \<Rightarrow>
          let sc = ScaleConfigFromLabels (sp_Labels spec) in
          if Replicas (Idle sc) \<ge> 1 \<or> HasResources (Active sc) then
            if HasResources (Active sc) then applyResources p name (Active sc) d
            else (None, d)
          else if cst_Running (sp_State spec) \<and> \<not> cst_Paused (sp_State spec) then (None, d)
          else if dp_strategy p = ''pause'' then dockerUnpause p name d
          else dockerStart p name d)"

definition docker_InstanceStart :: "'d DockerProvider \<Rightarrow> string \<Rightarrow> 'd \<Rightarrow> goerror option \<times> 'd" where
  "docker_InstanceStart p name d = startSingle p name d"

definition dockerStop :: "'d DockerProvider \<Rightarrow> string \<Rightarrow> 'd \<Rightarrow> goerror option \<times> 'd" where
  "dockerStop p name d =
     (case ContainerStop (dp_Client p) name d of
        (Some err, d) \<Rightarrow> (Some (ErrWrap (''cannot stop container '' @ name) err), d)
      | (None, d) \<Rightarrow>
          (case ContainerWait (dp_Client p) name d of
             (WaitResponse code, d) \<Rightarrow> (None, d)
           | (WaitError err, d) \<Rightarrow> (Some (ErrWrap (''cannot wait for container '' @ name @ '' to stop'') err), d)
           | (WaitCancelled, d) \<Rightarrow> (Some ctx_Err, d)))"

definition dockerPause :: "'d DockerProvider \<Rightarrow> string \<Rightarrow> 'd \<Rightarrow> goerror option \<times> 'd" where
  "dockerPause p name d =
     (case ContainerPause (dp_Client p) name d of
        (Some err, d) \<Rightarrow> (Some (ErrWrap (''cannot pause container '' @ name) err), d)
      | (None, d) \<Rightarrow> (None, d))"

definition docker_InstanceStop :: "'d DockerProvider \<Rightarrow> string \<Rightarrow> 'd \<Rightarrow> goerror option \<times> 'd" where
  "docker_InstanceStop p name d =
     (case ContainerInspect (dp_Client p) name d of
        Inl err \<Rightarrow> (Some (ErrWrap ''cannot inspect container'' err), d)
      | Inr spec \<Rightarrow>
          let sc = ScaleConfigFromLabels (sp_Labels spec) in
          if Replicas (Idle sc) \<ge> 1 then
            if HasResources (Idle sc) then applyResources p name (Idle sc) d
            else (None, d)
          else if dp_strategy p = ''pause'' then dockerPause p name d
          else dockerStop p name d)"

section \<open>Events\<close>

record EventMessage =
  em_Action :: string
  em_Name :: string

definition wants :: "InstanceEventType list \<Rightarrow> InstanceEventType \<Rightarrow> bool" where
  "wants types t \<longleftrightarrow> types = [] \<or> t \<in> set types"

text \<open>The filters that \<open>dial\<close> subscribes with.\<close>

definition docker_event_filters :: "InstanceEventType list \<Rightarrow> (string \<times> string) list" where
  "docker_event_filters types =
     (''type'', ''container'') #
     (if wants types InstanceEventStopped then [(''event'', ''die'')] else []) @
     (if wants types InstanceEventStarted then [(''event'', ''start'')] else []) @
     (if wants types InstanceEventCreated then [(''event'', ''create'')] else []) @
     (if wants types InstanceEventRemoved then [(''event'', ''destroy'')] else [])"

definition bare_info :: "string \<Rightarrow> InstanceStatus \<Rightarrow> InstanceInfo" where
  "bare_info name status = zero_InstanceInfo\<lparr>i_Name := name, i_Status := status, i_Provider := ProviderDocker\<rparr>"

text \<open>The event with what an inspection shows, or with bare information when it fails.\<close>

definition inspected_event :: "'d DockerProvider \<Rightarrow> 'd \<Rightarrow> InstanceEventType \<Rightarrow> string \<Rightarrow> InstanceStatus \<Rightarrow> InstanceEvent" where
  "inspected_event p d type name status =
     \<lparr>ev_Type = type,
      ev_Info = (case docker_InstanceInspect p name d of Inl err \<Rightarrow> bare_info name status | Inr info \<Rightarrow> info)\<rparr>"

definition docker_build :: "'d DockerProvider \<Rightarrow> InstanceEventType list \<Rightarrow> 'd \<Rightarrow> EventMessage \<Rightarrow> InstanceEvent option" where
  "docker_build p types d msg =
     (let name = TrimPrefix (em_Name msg) ''/'' in
      if name = [] then None
      else if em_Action msg = ''die'' then
        if \<not> wants types InstanceEventStopped then None
        else Some (inspected_event p d InstanceEventStopped name InstanceStatusStopped)
      else if em_Action msg = ''start'' then
        if \<not> wants types InstanceEventStarted then None
        else Some (inspected_event p d InstanceEventStarted name InstanceStatusStarting)
      else if em_Action msg = ''create'' then
        if \<not> wants types InstanceEventCreated then None
        else Some (inspected_event p d InstanceEventCreated name InstanceStatusUnset)
      else if em_Action msg = ''destroy'' then
        if \<not> wants types InstanceEventRemoved then None
        else Some \<lparr>ev_Type = InstanceEventRemoved, ev_Info = bare_info name InstanceStatusUnset\<rparr>
      else None)"

section \<open>The provider\<close>

text \<open>
  The provider as the core calls it. A listing that panics is an error here; the process would
  end.
\<close>

definition no_panic :: "(goerror + 'a) option \<Rightarrow> goerror + 'a" where
  "no_panic r = (case r of None \<Rightarrow> Inl (ErrText ''index out of range'') | Some r \<Rightarrow> r)"

definition docker_ops :: "'d DockerProvider \<Rightarrow> 'd provider_ops" where
  "docker_ops p =
     \<lparr>p_Start = docker_InstanceStart p, p_Stop = docker_InstanceStop p,
      p_Inspect = docker_InstanceInspect p,
      p_Groups = (\<lambda>d. map_sum id Some (no_panic (docker_InstanceGroups p d))),
      p_List = (\<lambda>all d. no_panic (docker_InstanceList p all d)),
      p_Dependencies = docker_InstanceDependencies p\<rparr>"

section \<open>Inspection: properties\<close>

lemma docker_status_ready:
  "i_Status (docker_status honor name st hc) = InstanceStatusReady \<longleftrightarrow>
     cst_Status st = ''running'' \<and> (cst_Health st = None \<or> cst_Health st = Some ''healthy'')"
  by (auto simp: docker_status_def container_info_def split: option.splits)

lemma docker_status_exited:
  assumes "cst_Status st = ''exited''"
  shows "i_Status (docker_status honor name st hc) =
    (if cst_ExitCode st \<noteq> 0 then InstanceStatusError
     else if honor \<and> \<not> restartsOnSuccess (restartPolicyMode hc) then InstanceStatusCompleted
     else InstanceStatusStopped)"
  using assms by (auto simp: docker_status_def container_info_def)

lemma docker_status_completed:
  "i_Status (docker_status honor name st hc) = InstanceStatusCompleted \<longleftrightarrow>
     honor \<and> \<not> restartsOnSuccess (restartPolicyMode hc) \<and> cst_Status st = ''exited'' \<and> cst_ExitCode st = 0"
  by (auto simp: docker_status_def container_info_def split: option.splits)

lemma docker_status_fields:
  "i_Name (docker_status honor name st hc) = name \<and> i_DesiredReplicas (docker_status honor name st hc) = 1 \<and>
   i_CurrentReplicas (docker_status honor name st hc) =
     (if i_Status (docker_status honor name st hc) = InstanceStatusReady then 1 else 0) \<and>
   i_Status (docker_status honor name st hc) \<noteq> InstanceStatusUnset \<and>
   (i_Status (docker_status honor name st hc) = InstanceStatusError \<longrightarrow> i_Message (docker_status honor name st hc) \<noteq> [])"
  by (auto simp: docker_status_def container_info_def quoted_def split: option.splits)

lemma populate_simps [simp]:
  "i_Status (PopulateEnabledAndGroup info labels) = i_Status info"
  "i_Name (PopulateEnabledAndGroup info labels) = i_Name info"
  "i_CurrentReplicas (PopulateEnabledAndGroup info labels) = i_CurrentReplicas info"
  "i_DesiredReplicas (PopulateEnabledAndGroup info labels) = i_DesiredReplicas info"
  "i_Message (PopulateEnabledAndGroup info labels) = i_Message info"
  "i_Groups (PopulateEnabledAndGroup info labels) = cfg_Groups (InstanceConfigFromLabels labels)"
  by (simp_all add: PopulateEnabledAndGroup_def Let_def)

lemma populate_enabled: "IsEnabled (PopulateEnabledAndGroup info labels\<lparr>i_Provider := pt, i_Docker := di\<rparr>) \<longleftrightarrow>
    label_value labels LabelEnable = ''true''"
  by (simp add: PopulateEnabledAndGroup_def IsEnabled_def InstanceConfigFromLabels_def Let_def)

text \<open>
  What the core learns about a container. It is ready, with its one replica, exactly if it
  runs and has no failing or pending health check; it is enabled exactly if its label says so; an
  error comes with a message. A dependency on its successful completion is met exactly by a clean
  exit of a container that Docker would not restart, and only if the restart policy is honoured;
  one on its start by every state except a failure and a plain stop. Podman shows the same
  container under its own name.
\<close>

theorem docker_inspect:
  assumes spec: "ContainerInspect (dp_Client p) name d = Inr spec"
    and info: "docker_InstanceInspect p name d = Inr info"
  shows "i_Name info = name \<and>
    (i_Status info = InstanceStatusReady \<longleftrightarrow>
       cst_Status (sp_State spec) = ''running'' \<and> cst_Health (sp_State spec) \<in> {None, Some ''healthy''}) \<and>
    i_CurrentReplicas info = (if i_Status info = InstanceStatusReady then 1 else 0) \<and> i_DesiredReplicas info = 1 \<and>
    (i_Status info = InstanceStatusError \<longrightarrow> i_Message info \<noteq> []) \<and>
    (IsEnabled info \<longleftrightarrow> label_value (sp_Labels spec) LabelEnable = ''true'') \<and>
    (dependencyConditionSatisfied (i_Status info) ''service_completed_successfully'' \<longleftrightarrow>
       dp_HonorRestartPolicy p \<and> \<not> restartsOnSuccess (restartPolicyMode (sp_HostConfig spec)) \<and>
       cst_Status (sp_State spec) = ''exited'' \<and> cst_ExitCode (sp_State spec) = 0) \<and>
    (dependencyConditionSatisfied (i_Status info) ''service_started'' \<longleftrightarrow>
       i_Status info \<noteq> InstanceStatusError \<and> i_Status info \<noteq> InstanceStatusStopped) \<and>
    (\<exists>info'. podman_InstanceInspect p name d = Inr info' \<and> i_Provider info' = ProviderPodman \<and> i_Docker info' = None \<and>
       i_Podman info' = Some \<lparr>podman_ID = sp_ID spec, podman_Image = sp_Image spec, podman_Labels = sp_Labels spec\<rparr> \<and>
       info'\<lparr>i_Provider := i_Provider info, i_Docker := i_Docker info, i_Podman := i_Podman info\<rparr> = info)"
proof -
  define base where "base = docker_status (dp_HonorRestartPolicy p) name (sp_State spec) (sp_HostConfig spec)"
  note B = docker_status_fields [of "dp_HonorRestartPolicy p" name "sp_State spec" "sp_HostConfig spec", folded base_def]
    docker_status_ready [of "dp_HonorRestartPolicy p" name "sp_State spec" "sp_HostConfig spec", folded base_def]
    docker_status_completed [of "dp_HonorRestartPolicy p" name "sp_State spec" "sp_HostConfig spec", folded base_def]
  have I: "info = (PopulateEnabledAndGroup base (sp_Labels spec))\<lparr>
      i_Provider := ProviderDocker,
      i_Docker := Some \<lparr>docker_ID = sp_ID spec, docker_Image = sp_Image spec, docker_Labels = sp_Labels spec\<rparr>\<rparr>"
    using spec info by (simp add: docker_InstanceInspect_def base_def Let_def)
  have "i_Status base \<noteq> InstanceStatusNotReady"
    by (auto simp: base_def docker_status_def container_info_def split: option.splits)
  then have started: "dependencyConditionSatisfied (i_Status info) ''service_started'' \<longleftrightarrow>
      i_Status info \<noteq> InstanceStatusError \<and> i_Status info \<noteq> InstanceStatusStopped"
    using B(1) by (cases "i_Status base") (auto simp: I dependencyConditionSatisfied_def)
  have podman: "podman_InstanceInspect p name d = Inr (info\<lparr>i_Provider := ProviderPodman,
      i_Podman := Some \<lparr>podman_ID = sp_ID spec, podman_Image = sp_Image spec, podman_Labels = sp_Labels spec\<rparr>,
      i_Docker := None\<rparr>)"
    by (simp add: podman_InstanceInspect_def info) (simp add: I)
  show ?thesis
    unfolding podman started
    using B by (auto simp: I populate_enabled dependencyConditionSatisfied_def)
qed

section \<open>Starting and stopping: properties\<close>

text \<open>A container that runs and is not paused.\<close>

definition up :: "ContainerSpec option \<Rightarrow> bool" where
  "up c \<longleftrightarrow> (case c of None \<Rightarrow> False | Some spec \<Rightarrow> cst_Running (sp_State spec) \<and> \<not> cst_Paused (sp_State spec))"

definition paused :: "ContainerSpec option \<Rightarrow> bool" where
  "paused c \<longleftrightarrow> (case c of None \<Rightarrow> False | Some spec \<Rightarrow> cst_Paused (sp_State spec))"

text \<open>
  The documented behaviour of a daemon, as far as the provider relies on it: \<open>view d n\<close> is what
  an inspection of \<open>n\<close> shows. A call changes the state of the container it names and nothing
  else. Starting works on a container that is not paused, stopping always, pausing on one that is
  up, unpausing on a paused one.
\<close>

definition changes :: "('d \<Rightarrow> string \<Rightarrow> ContainerSpec option) \<Rightarrow> (ContainerSpec option \<Rightarrow> bool) \<Rightarrow>
    (string \<Rightarrow> 'd \<Rightarrow> goerror option \<times> 'd) \<Rightarrow> (ContainerSpec option \<Rightarrow> bool) \<Rightarrow> bool" where
  "changes view pre call post \<longleftrightarrow>
     (\<forall>n d spec. view d n = Some spec \<and> pre (Some spec) \<longrightarrow>
        (\<exists>d' st. call n d = (None, d') \<and> view d' = (view d)(n \<mapsto> spec\<lparr>sp_State := st\<rparr>) \<and> post (view d' n)))"

definition docker_daemon :: "'d docker_client \<Rightarrow> ('d \<Rightarrow> string \<Rightarrow> ContainerSpec option) \<Rightarrow> bool" where
  "docker_daemon cli view \<longleftrightarrow>
     (\<forall>n d. case view d n of
        Some spec \<Rightarrow> ContainerInspect cli n d = Inr spec
      | None \<Rightarrow> \<exists>err. ContainerInspect cli n d = Inl err) \<and>
     changes view (\<lambda>c. \<not> paused c) (ContainerStart cli) up \<and>
     changes view (\<lambda>c. True) (ContainerStop cli) (\<lambda>c. \<not> up c \<and> \<not> paused c) \<and>
     changes view up (ContainerPause cli) paused \<and>
     changes view paused (ContainerUnpause cli) up \<and>
     (\<forall>n d. \<not> up (view d n) \<longrightarrow> (\<exists>code. ContainerWait cli n d = (WaitResponse code, d))) \<and>
     (\<forall>n res d. view (snd (ContainerUpdate cli n res d)) = view d)"

lemma docker_daemonD:
  assumes "docker_daemon cli view"
  shows "view d n = Some spec \<Longrightarrow> ContainerInspect cli n d = Inr spec"
    and "view d n = None \<Longrightarrow> \<exists>err. ContainerInspect cli n d = Inl err"
    and "changes view (\<lambda>c. \<not> paused c) (ContainerStart cli) up"
    and "changes view (\<lambda>c. True) (ContainerStop cli) (\<lambda>c. \<not> up c \<and> \<not> paused c)"
    and "changes view up (ContainerPause cli) paused"
    and "changes view paused (ContainerUnpause cli) up"
    and "\<not> up (view d n) \<Longrightarrow> \<exists>code. ContainerWait cli n d = (WaitResponse code, d)"
    and "view (snd (ContainerUpdate cli n res d)) = view d"
proof -
  note D = assms [unfolded docker_daemon_def]
  from D [THEN conjunct1, THEN spec [of _ n], THEN spec [of _ d]]
  show "view d n = Some spec \<Longrightarrow> ContainerInspect cli n d = Inr spec" "view d n = None \<Longrightarrow> \<exists>err. ContainerInspect cli n d = Inl err"
    by simp_all
qed (use assms in \<open>simp_all add: docker_daemon_def\<close>)

lemma changesE:
  assumes "changes view pre call post" "view d n = Some spec" "pre (Some spec)"
  obtains d' st where "call n d = (None, d')" "view d' = (view d)(n \<mapsto> spec\<lparr>sp_State := st\<rparr>)" "post (view d' n)"
  using assms unfolding changes_def by blast

text \<open>A container that Sablier stops when it is idle, as opposed to one in scale mode.\<close>

definition plain :: "ContainerSpec \<Rightarrow> bool" where
  "plain spec \<longleftrightarrow>
     (let sc = ScaleConfigFromLabels (sp_Labels spec) in Replicas (Idle sc) < 1 \<and> \<not> HasResources (Active sc))"

lemma applyResources_view:
  assumes "docker_daemon (dp_Client p) view"
  shows "view (snd (applyResources p n prof d)) = view d"
proof (cases "resources_of p prof")
  case (Inr res)
  then show ?thesis
    using docker_daemonD(8) [OF assms, of n res d]
    by (cases "ContainerUpdate (dp_Client p) n res d" rule: prod.exhaust)
      (auto simp: applyResources_def split: option.splits)
qed (simp add: applyResources_def)

lemma start_plain:
  assumes D: "docker_daemon (dp_Client p) view" and v: "view d n = Some spec" and pl: "plain spec"
    and pa: "paused (view d n) \<longrightarrow> dp_strategy p = ''pause''"
  shows "\<exists>d' st. docker_InstanceStart p n d = (None, d') \<and>
    view d' = (view d)(n \<mapsto> spec\<lparr>sp_State := st\<rparr>) \<and> up (view d' n)"
proof -
  note ins = docker_daemonD(1) [OF D v]
  have st: "docker_InstanceStart p n d =
      (if up (view d n) then (None, d) else if dp_strategy p = ''pause'' then dockerUnpause p n d else dockerStart p n d)"
    using pl by (auto simp: docker_InstanceStart_def startSingle_def ins Let_def plain_def up_def v)
  have start: "\<exists>d' st. dockerStart p n d = (None, d') \<and> view d' = (view d)(n \<mapsto> spec\<lparr>sp_State := st\<rparr>) \<and> up (view d' n)"
    if "\<not> paused (Some spec)"
    by (rule changesE [OF docker_daemonD(3) [OF D] v that]) (auto simp: dockerStart_def)
  have unpause: "\<exists>d' st. dockerUnpause p n d = (None, d') \<and> view d' = (view d)(n \<mapsto> spec\<lparr>sp_State := st\<rparr>) \<and> up (view d' n)"
    if "paused (Some spec)"
    by (rule changesE [OF docker_daemonD(6) [OF D] v that]) (use that in \<open>auto simp: dockerUnpause_def ins paused_def\<close>)
  show ?thesis
  proof (cases "up (view d n)")
    case True
    then show ?thesis unfolding st by (intro exI [of _ d] exI [of _ "sp_State spec"]) (auto simp: v)
  next
    case False
    show ?thesis
    proof (cases "paused (Some spec)")
      case True
      with False pa v st unpause show ?thesis by simp
    next
      case np: False
      then have "dockerUnpause p n d = dockerStart p n d" by (simp add: dockerUnpause_def ins paused_def)
      with False st start [OF np] show ?thesis by simp
    qed
  qed
qed

lemma stop_plain:
  assumes D: "docker_daemon (dp_Client p) view" and v: "view d n = Some spec" and pl: "plain spec" and up: "up (view d n)"
  shows "\<exists>d' st. docker_InstanceStop p n d = (None, d') \<and>
    view d' = (view d)(n \<mapsto> spec\<lparr>sp_State := st\<rparr>) \<and> \<not> up (view d' n) \<and>
    (paused (view d' n) \<longleftrightarrow> dp_strategy p = ''pause'')"
proof -
  note ins = docker_daemonD(1) [OF D v]
  have st: "docker_InstanceStop p n d = (if dp_strategy p = ''pause'' then dockerPause p n d else dockerStop p n d)"
    using pl by (auto simp: docker_InstanceStop_def ins Let_def plain_def)
  show ?thesis
  proof (cases "dp_strategy p = ''pause''")
    case True
    show ?thesis
      by (rule changesE [OF docker_daemonD(5) [OF D] v up [unfolded v]])
        (auto simp: st True dockerPause_def up_def paused_def split: option.splits)
  next
    case False
    show ?thesis
    proof (rule changesE [OF docker_daemonD(4) [OF D] v TrueI])
      fix d' st'
      assume s: "ContainerStop (dp_Client p) n d = (None, d')" "view d' = (view d)(n \<mapsto> spec\<lparr>sp_State := st'\<rparr>)"
        "\<not> up (view d' n) \<and> \<not> paused (view d' n)"
      with docker_daemonD(7) [OF D] obtain code where "ContainerWait (dp_Client p) n d' = (WaitResponse code, d')" by blast
      with s False show ?thesis unfolding st by (auto simp: dockerStop_def)
    qed
  qed
qed

lemma plain_state [simp]: "plain (spec\<lparr>sp_State := st\<rparr>) = plain spec"
  by (simp add: plain_def)


text \<open>
  A container with active resource labels but no idle replicas is stopped when its session
  expires, and a start only updates its resources: it stays down.
\<close>

theorem active_resources_not_restarted:
  assumes D: "docker_daemon (dp_Client p) view" and v: "view d n = Some spec"
    and a: "HasResources (Active (ScaleConfigFromLabels (sp_Labels spec)))"
    and i: "Replicas (Idle (ScaleConfigFromLabels (sp_Labels spec))) = 0"
    and s: "dp_strategy p = ''stop''" "docker_InstanceStop p n d = (err, d')"
  shows "err = None \<and> \<not> up (view d' n) \<and> \<not> up (view (snd (docker_InstanceStart p n d')) n)"
proof (rule changesE [OF docker_daemonD(4) [OF D] v TrueI])
  fix d1 st
  assume c: "ContainerStop (dp_Client p) n d = (None, d1)" "view d1 = (view d)(n \<mapsto> spec\<lparr>sp_State := st\<rparr>)"
    "\<not> up (view d1 n) \<and> \<not> paused (view d1 n)"
  with docker_daemonD(7) [OF D] obtain code where w: "ContainerWait (dp_Client p) n d1 = (WaitResponse code, d1)" by blast
  have e: "err = None" "d' = d1"
    using s c(1) w i docker_daemonD(1) [OF D v] by (auto simp: docker_InstanceStop_def Let_def dockerStop_def)
  have "ContainerInspect (dp_Client p) n d1 = Inr (spec\<lparr>sp_State := st\<rparr>)" using docker_daemonD(1) [OF D] c(2) by simp
  then have "docker_InstanceStart p n d1 = applyResources p n (Active (ScaleConfigFromLabels (sp_Labels spec))) d1"
    using a by (simp add: docker_InstanceStart_def startSingle_def Let_def)
  with e c(3) applyResources_view [OF D] show ?thesis by simp
qed

section \<open>Compose dependencies: properties\<close>

lemma hd_sort: "xs \<noteq> [] \<Longrightarrow> hd (sort xs) \<in> set xs \<and> (\<forall>x\<in>set xs. hd (sort xs) \<le> (x :: 'a :: linorder))"
proof -
  assume "xs \<noteq> []"
  then obtain y ys where s: "sort xs = y # ys" by (cases "sort xs") (auto simp: sort_key_simps dest: arg_cong [of _ _ length])
  then have "set xs = set (y # ys)" "sorted (y # ys)" by (metis set_sort) (metis s sorted_sort)
  then show ?thesis by (auto simp: s)
qed

text \<open>The containers of a service that have a name, with the name they are known by.\<close>

definition named :: "Summary \<Rightarrow> string \<Rightarrow> bool" where
  "named c name \<longleftrightarrow> sum_Names c \<noteq> [] \<and> name = TrimPrefix (hd (sum_Names c)) ''/''"

lemma compose_names_spec:
  "compose_names cs = (names, running) \<Longrightarrow>
     set names = {n. \<exists>c\<in>set cs. named c n} \<and>
     set running = {n. \<exists>c\<in>set cs. named c n \<and> sum_State c = ''running''}"
  by (induction cs arbitrary: names running)
    (auto simp: named_def Let_def split: prod.splits list.splits if_splits)

text \<open>The choice among the containers of a service: running ones first, then the least name.\<close>

definition chosen :: "Summary list \<Rightarrow> string \<Rightarrow> bool" where
  "chosen cs name \<longleftrightarrow> (\<exists>c\<in>set cs. named c name) \<and>
     (if \<exists>c\<in>set cs. sum_State c = ''running'' \<and> sum_Names c \<noteq> []
      then (\<exists>c\<in>set cs. named c name \<and> sum_State c = ''running'') \<and>
           (\<forall>c\<in>set cs. \<forall>n. named c n \<and> sum_State c = ''running'' \<longrightarrow> name \<le> n)
      else \<forall>c\<in>set cs. \<forall>n. named c n \<longrightarrow> name \<le> n)"

lemma findComposeContainer_spec:
  assumes l: "ContainerList (dp_Client p) True
      ((if project \<noteq> [] then [label_filter composeProjectLabel project] else []) @ [label_filter composeServiceLabel service]) d = Inr cs"
    and f: "findComposeContainer p project service d = Inr name"
  shows "chosen cs name \<or> name = [] \<and> (\<forall>c\<in>set cs. sum_Names c = [])"
proof -
  obtain names running where c: "compose_names cs = (names, running)" by (cases "compose_names cs")
  note S = compose_names_spec [OF c]
  consider "running \<noteq> []" "name = hd (sort running)" | "running = []" "names = []" "name = []"
    | "running = []" "names \<noteq> []" "name = hd (sort names)"
    using f l by (auto simp: findComposeContainer_def c Let_def split: if_splits)
  then show ?thesis
  proof cases
    case 1
    with hd_sort [OF 1(1)] S show ?thesis by (auto simp: chosen_def named_def)
  next
    case 2
    with S show ?thesis by (auto simp: named_def)
  next
    case 3
    with hd_sort [OF 3(2)] S have "name \<in> set names" "\<forall>n\<in>set names. name \<le> n" by auto
    moreover have "\<not> (\<exists>c\<in>set cs. sum_State c = ''running'' \<and> sum_Names c \<noteq> [])" using S 3(1) by (auto simp: named_def)
    ultimately show ?thesis using S unfolding chosen_def by auto
  qed
qed

lemma resolve_compose_mem:
  "resolve_compose p project raw d = Inr deps \<Longrightarrow> dep \<in> set deps \<Longrightarrow>
     \<exists>r\<in>set raw. findComposeContainer p project (cd_Service r) d = Inr (dep_Name dep) \<and> dep_Name dep \<noteq> [] \<and>
       dep_Condition dep = cd_Condition r"
  by (induction raw arbitrary: deps) (auto split: sum.splits if_splits)

lemma resolve_compose_all:
  "resolve_compose p project raw d = Inr deps \<Longrightarrow> r \<in> set raw \<Longrightarrow>
     \<exists>name. findComposeContainer p project (cd_Service r) d = Inr name \<and>
       (name = [] \<or> \<lparr>dep_Name = name, dep_Condition = cd_Condition r\<rparr> \<in> set deps)"
  by (induction raw arbitrary: deps) (auto split: sum.splits if_splits)

text \<open>The label as Compose writes it: \<open>service:condition:restart\<close>, without blanks.\<close>

definition compose_text :: "composeDependency \<times> string \<Rightarrow> string" where
  "compose_text e = Join [cd_Service (fst e), cd_Condition (fst e), snd e] '':''"

definition compose_clean :: "composeDependency \<times> string \<Rightarrow> bool" where
  "compose_clean e \<longleftrightarrow> cd_Service (fst e) \<noteq> [] \<and>
     (\<forall>c \<in> set (cd_Service (fst e) @ cd_Condition (fst e) @ snd e). \<not> is_space c \<and> c \<noteq> CHR '':'' \<and> c \<noteq> CHR '','')"

lemma TrimSpace_no_space: "\<forall>c\<in>set s. \<not> is_space c \<Longrightarrow> TrimSpace s = s"
  by (rule TrimSpace_id) (cases "s = []", auto)

lemma set_Join: "set (Join ps sep) \<subseteq> (\<Union>p\<in>set ps. set p) \<union> set sep"
  by (induction ps sep rule: Join.induct) auto

lemma compose_text_chars:
  assumes "compose_clean e"
  shows "compose_text e \<noteq> []" "\<forall>c\<in>set (compose_text e). \<not> is_space c" "CHR '','' \<notin> set (compose_text e)"
    "Split (CHR '':'') (compose_text e) = [cd_Service (fst e), cd_Condition (fst e), snd e]"
proof -
  show "Split (CHR '':'') (compose_text e) = [cd_Service (fst e), cd_Condition (fst e), snd e]"
    unfolding compose_text_def using assms by (intro Split_Join) (auto simp: compose_clean_def)
  have colon: "\<not> is_space (CHR '':'')" by (simp add: is_space_def)
  show "compose_text e \<noteq> []" using assms by (simp add: compose_text_def compose_clean_def)
  show "\<forall>c\<in>set (compose_text e). \<not> is_space c" "CHR '','' \<notin> set (compose_text e)"
    using assms colon by (auto simp: compose_text_def compose_clean_def)
qed

lemma parse_compose_text:
  assumes "\<forall>e\<in>set es. compose_clean e"
  shows "parseComposeDependsOn (Join (map compose_text es) '','') = map fst es"
proof (cases "es = []")
  case True
  then show ?thesis by (simp add: parseComposeDependsOn_def)
next
  case False
  have comma: "\<not> is_space (CHR '','')" by (simp add: is_space_def)
  have "\<forall>c\<in>set (Join (map compose_text es) '',''). \<not> is_space c"
    using set_Join [of "map compose_text es" "'',''"] assms compose_text_chars(2) comma by fastforce
  then have T: "TrimSpace (Join (map compose_text es) '','') = Join (map compose_text es) '',''"
    by (rule TrimSpace_no_space)
  have S: "Split (CHR '','') (Join (map compose_text es) '','') = map compose_text es"
    using False assms compose_text_chars(3) by (intro Split_Join) auto
  have E: "compose_entries (map compose_text es) = map fst es"
    using assms
  proof (induction es)
    case (Cons e es)
    then have c: "compose_clean e" by simp
    with Cons compose_text_chars [OF c] TrimSpace_no_space [of "compose_text e"] show ?case
      by (simp add: compose_clean_def)
  qed simp
  have "Join (map compose_text es) '','' \<noteq> []"
  proof
    assume "Join (map compose_text es) '','' = []"
    with S have "map compose_text es = [[]]" by simp
    then obtain e where "es = [e]" "compose_text e = []" by auto
    with assms compose_text_chars(1) [of e] show False by simp
  qed
  with T S E show ?thesis by (simp add: parseComposeDependsOn_def Let_def)
qed

lemma chosen_unique: "chosen cs n \<Longrightarrow> chosen cs n' \<Longrightarrow> n = n'"
proof (rule order_antisym)
  assume "chosen cs n" "chosen cs n'"
  then show "n \<le> n'" "n' \<le> n" by (auto simp: chosen_def split: if_splits)
qed

lemma resolve_compose_total:
  assumes "\<forall>filters. \<exists>cs. ContainerList (dp_Client p) True filters d = Inr cs"
  shows "\<exists>deps. resolve_compose p pr raw d = Inr deps"
proof (induction raw)
  case (Cons r raw)
  have "\<exists>n. findComposeContainer p pr (cd_Service r) d = Inr n"
    using assms [rule_format, of "(if pr \<noteq> [] then [label_filter composeProjectLabel pr] else []) @ [label_filter composeServiceLabel (cd_Service r)]"]
    by (auto simp: findComposeContainer_def Let_def split: prod.splits)
  with Cons show ?case by auto
qed simp

text \<open>
  The dependencies of a container are those its Compose label declares. Every entry of the
  label, written the way Compose writes it, is read. Each dependency returned comes from an entry
  and is a container of that service in the same project, a running one if there is any, and of
  these the one with the least name; a service without containers is passed over. Without a
  project label there are none, so that a container of another project is never started.
\<close>

theorem compose_dependencies:
  assumes spec: "ContainerInspect (dp_Client p) name d = Inr spec"
    and lists: "\<forall>filters. \<exists>cs. ContainerList (dp_Client p) True filters d = Inr cs"
    and clean: "\<forall>e\<in>set es. compose_clean e"
    and label: "label_value (sp_Labels spec) composeDependsOnLabel = Join (map compose_text es) '',''"
  shows "\<exists>deps. docker_InstanceDependencies p name d = Inr deps \<and>
    (label_value (sp_Labels spec) composeProjectLabel = [] \<longrightarrow> deps = []) \<and>
    (label_value (sp_Labels spec) composeProjectLabel \<noteq> [] \<longrightarrow>
      (\<forall>e\<in>set es. \<forall>cs. ContainerList (dp_Client p) True
           [label_filter composeProjectLabel (label_value (sp_Labels spec) composeProjectLabel),
            label_filter composeServiceLabel (cd_Service (fst e))] d = Inr cs \<longrightarrow>
         (\<forall>n. chosen cs n \<and> n \<noteq> [] \<longrightarrow> \<lparr>dep_Name = n, dep_Condition = cd_Condition (fst e)\<rparr> \<in> set deps)) \<and>
      (\<forall>dep\<in>set deps. \<exists>e\<in>set es. \<exists>cs. dep_Condition dep = cd_Condition (fst e) \<and>
         ContainerList (dp_Client p) True
           [label_filter composeProjectLabel (label_value (sp_Labels spec) composeProjectLabel),
            label_filter composeServiceLabel (cd_Service (fst e))] d = Inr cs \<and>
         chosen cs (dep_Name dep)))"
proof -
  let ?pr = "label_value (sp_Labels spec) composeProjectLabel"
  let ?L = "\<lambda>s. ContainerList (dp_Client p) True [label_filter composeProjectLabel ?pr, label_filter composeServiceLabel s] d"
  obtain deps where r: "resolve_compose p ?pr (map fst es) d = Inr deps" using resolve_compose_total [OF lists] by blast
  have D: "docker_InstanceDependencies p name d = Inr (if ?pr = [] then [] else deps)"
    using r by (auto simp: docker_InstanceDependencies_def spec Let_def label parse_compose_text [OF clean])
  have "\<lparr>dep_Name = n, dep_Condition = cd_Condition (fst e)\<rparr> \<in> set deps"
    if "?pr \<noteq> []" and e: "e \<in> set es" and l: "?L (cd_Service (fst e)) = Inr cs" and c: "chosen cs n" "n \<noteq> []" for e cs n
  proof -
    obtain n' where n': "findComposeContainer p ?pr (cd_Service (fst e)) d = Inr n'"
        "n' = [] \<or> \<lparr>dep_Name = n', dep_Condition = cd_Condition (fst e)\<rparr> \<in> set deps"
      using resolve_compose_all [OF r, of "fst e"] e by auto
    have "\<not> (\<forall>c\<in>set cs. sum_Names c = [])" using c(1) by (auto simp: chosen_def named_def)
    with findComposeContainer_spec [OF _ n'(1), of cs] that(1) l have "chosen cs n'" by auto
    with chosen_unique [OF c(1)] n' c(2) show ?thesis by blast
  qed
  moreover have "\<exists>e\<in>set es. \<exists>cs. dep_Condition dep = cd_Condition (fst e) \<and> ?L (cd_Service (fst e)) = Inr cs \<and> chosen cs (dep_Name dep)"
    if pr: "?pr \<noteq> []" and dep: "dep \<in> set deps" for dep
  proof -
    obtain e where e: "e \<in> set es" "findComposeContainer p ?pr (cd_Service (fst e)) d = Inr (dep_Name dep)"
        "dep_Name dep \<noteq> []" "dep_Condition dep = cd_Condition (fst e)"
      using resolve_compose_mem [OF r dep] by auto
    obtain cs where l: "?L (cd_Service (fst e)) = Inr cs" using lists by blast
    with findComposeContainer_spec [OF _ e(2), of cs] e(3) pr have "chosen cs (dep_Name dep)" by simp
    with e l show ?thesis by blast
  qed
  ultimately show ?thesis unfolding D by (intro exI [of _ "if ?pr = [] then [] else deps"]) simp
qed

section \<open>Groups and lists: properties\<close>

lemma group_append_spec:
  "wf_map groups \<Longrightarrow> wf_map (group_append name gs groups) \<and>
     (\<forall>i g. member_of (group_append name gs groups) i g \<longleftrightarrow> member_of groups i g \<or> i = name \<and> g \<in> set gs)"
  by (induction gs arbitrary: groups) (auto simp: member_of_def gomap_simps wf_intros)

lemma container_groups_spec:
  "wf_map groups \<Longrightarrow> container_groups cs groups = Some r \<Longrightarrow>
     wf_map r \<and> (\<forall>i g. member_of r i g \<longleftrightarrow> member_of groups i g \<or>
       (\<exists>c\<in>set cs. container_name c = Some i \<and> g \<in> set (ParseGroups (label_value (sum_Labels c) LabelGroup))))"
proof (induction cs arbitrary: groups)
  case (Cons c cs)
  then obtain n where n: "container_name c = Some n" by (auto split: option.splits)
  let ?g = "group_append n (ParseGroups (label_value (sum_Labels c) LabelGroup)) groups"
  have g: "wf_map ?g" "member_of ?g i g \<longleftrightarrow> member_of groups i g \<or> i = n \<and> g \<in> set (ParseGroups (label_value (sum_Labels c) LabelGroup))" for i g
    using group_append_spec [OF Cons.prems(1)] by auto
  from Cons.IH [OF g(1)] Cons.prems(2) n show ?case by (auto simp: g(2))
qed simp

lemma container_instances_spec:
  "container_instances cs = Some insts \<Longrightarrow> map Some insts = map containerToInstance cs"
  by (induction cs arbitrary: insts) (auto split: option.splits)

lemma container_instances_None: "container_instances cs = None \<longleftrightarrow> (\<exists>c\<in>set cs. sum_Names c = [])"
  by (induction cs) (auto simp: containerToInstance_def container_name_def Let_def split: option.splits list.splits)

lemma container_groups_None: "container_groups cs groups = None \<longleftrightarrow> (\<exists>c\<in>set cs. sum_Names c = [])"
  by (induction cs arbitrary: groups) (auto simp: container_name_def split: option.splits list.splits)

text \<open>
  The two listings agree. On a daemon that honours the filter of the enable label, the
  groups reported at start-up and at every reconciliation are exactly the group memberships of
  the listed instances, all of which are enabled; both panic exactly if a container has no name.
\<close>

theorem docker_listings_agree:
  assumes l: "ContainerList (dp_Client p) True enabled_filter d = Inr cs"
    and filtered: "\<forall>c\<in>set cs. label_value (sum_Labels c) LabelEnable = ''true''"
  shows "(if \<exists>c\<in>set cs. sum_Names c = []
     then docker_InstanceList p True d = None \<and> docker_InstanceGroups p d = None
     else \<exists>insts groups. docker_InstanceList p True d = Some (Inr insts) \<and> docker_InstanceGroups p d = Some (Inr groups) \<and>
       wf_map groups \<and> (\<forall>inst\<in>set insts. c_IsEnabled inst \<and> c_Groups inst \<noteq> []) \<and>
       (\<forall>name grp. member_of groups name grp \<longleftrightarrow> (\<exists>inst\<in>set insts. c_Name inst = name \<and> grp \<in> set (c_Groups inst))))"
proof (cases "\<exists>c\<in>set cs. sum_Names c = []")
  case True
  then show ?thesis
    using container_instances_None [of cs] container_groups_None [of cs "[]"]
    by (simp add: docker_InstanceList_def docker_InstanceGroups_def l)
next
  case False
  then obtain insts groups where i: "container_instances cs = Some insts" and g: "container_groups cs [] = Some groups"
    using container_instances_None [of cs] container_groups_None [of cs "[]"] by fastforce
  have I: "inst \<in> set insts \<longleftrightarrow> (\<exists>c\<in>set cs. containerToInstance c = Some inst)" for inst
  proof -
    have "Some ` set insts = containerToInstance ` set cs"
      using container_instances_spec [OF i] by (metis set_map)
    then show ?thesis by (metis (no_types, lifting) image_iff option.inject)
  qed
  have T: "containerToInstance c = Some inst \<longleftrightarrow> (\<exists>n. container_name c = Some n \<and>
      inst = \<lparr>c_Name = n, c_Groups = ParseGroups (label_value (sum_Labels c) LabelGroup), c_Enabled = ''true''\<rparr>)"
    if "c \<in> set cs" for c inst
    using filtered that by (auto simp: containerToInstance_def)
  have "member_of groups n gr \<longleftrightarrow> (\<exists>inst\<in>set insts. c_Name inst = n \<and> gr \<in> set (c_Groups inst))" for n gr
  proof -
    have "member_of groups n gr \<longleftrightarrow>
        (\<exists>c\<in>set cs. container_name c = Some n \<and> gr \<in> set (ParseGroups (label_value (sum_Labels c) LabelGroup)))"
      using container_groups_spec [OF _ g] by (simp add: member_of_def)
    also have "\<dots> \<longleftrightarrow> (\<exists>c\<in>set cs. \<exists>inst. containerToInstance c = Some inst \<and> c_Name inst = n \<and> gr \<in> set (c_Groups inst))"
      by (rule bex_cong [OF refl]) (auto simp: T)
    finally show ?thesis unfolding I Bex_def by blast
  qed
  moreover have "c_IsEnabled inst \<and> c_Groups inst \<noteq> []" if "inst \<in> set insts" for inst
    using that T by (auto simp: I c_IsEnabled_def ParseGroups_not_Nil)
  ultimately show ?thesis
    using False container_groups_spec [OF _ g] i g
    by (auto simp: docker_InstanceList_def docker_InstanceGroups_def l)
qed

section \<open>A daemon\<close>

definition set_state :: "(ContainerSpec option \<Rightarrow> bool) \<Rightarrow> ContainerState \<Rightarrow> string \<Rightarrow> (string, ContainerSpec) gomap \<Rightarrow>
    goerror option \<times> (string, ContainerSpec) gomap" where
  "set_state pre st n d =
     (case map_of d n of
        None \<Rightarrow> (Some (ErrText ''No such container''), d)
      | Some spec \<Rightarrow> if pre (Some spec) then (None, map_put n (spec\<lparr>sp_State := st\<rparr>) d) else (Some (ErrText ''conflict''), d))"

definition state_text :: "string \<Rightarrow> bool \<Rightarrow> bool \<Rightarrow> ContainerState" where
  "state_text status running pausd =
     \<lparr>cst_Status = status, cst_Running = running, cst_Paused = pausd, cst_ExitCode = 0, cst_Health = None\<rparr>"

definition list_docker :: "(string, ContainerSpec) gomap docker_client" where
  "list_docker =
     \<lparr>ContainerInspect = (\<lambda>n d. case map_of d n of None \<Rightarrow> Inl (ErrText ''No such container'') | Some spec \<Rightarrow> Inr spec),
      ContainerList = (\<lambda>all filters d. Inr (map (\<lambda>(n, spec).
        \<lparr>sum_Names = [''/'' @ n], sum_State = cst_Status (sp_State spec), sum_Labels = sp_Labels spec\<rparr>)
        (filter (\<lambda>(n, spec). (all \<or> cst_Running (sp_State spec)) \<and>
           list_all (\<lambda>f. list_ex (\<lambda>(k, v). label_filter k v = f) (sp_Labels spec)) filters) d))),
      ContainerStart = set_state (\<lambda>c. \<not> paused c) (state_text ''running'' True False),
      ContainerStop = set_state (\<lambda>c. True) (state_text ''exited'' False False),
      ContainerPause = set_state up (state_text ''paused'' True True),
      ContainerUnpause = set_state paused (state_text ''running'' True False),
      ContainerWait = (\<lambda>n d. (WaitResponse 0, d)),
      ContainerUpdate = (\<lambda>n res d. (None, d))\<rparr>"

lemma changes_set_state:
  assumes "\<And>spec. post (Some (spec\<lparr>sp_State := st\<rparr>))"
  shows "changes map_of pre (set_state pre st) post"
  using assms by (auto simp: changes_def set_state_def gomap_simps)

lemma list_docker_daemon: "docker_daemon list_docker map_of"
  by (auto simp: docker_daemon_def list_docker_def up_def paused_def state_text_def intro!: changes_set_state split: option.splits)

definition list_provider :: "(string, ContainerSpec) gomap DockerProvider" where
  "list_provider =
     \<lparr>dp_Client = list_docker, dp_strategy = ''stop'', dp_HonorRestartPolicy = True,
      dp_CPUNano = (\<lambda>s. Inl (ErrText s)), dp_RAMInBytes = (\<lambda>s. Inl (ErrText s))\<rparr>"

definition compose_project :: "(string, ContainerSpec) gomap" where
  "compose_project =
     [(''app-web-1'', \<lparr>sp_ID = ''1'', sp_Image = ''nginx'',
         sp_Labels = [(''sablier.enable'', ''true''), (''sablier.group'', ''app''), (''com.docker.compose.project'', ''app''),
           (''com.docker.compose.depends_on'', ''db:service_healthy:false'')],
         sp_State = state_text ''exited'' False False, sp_HostConfig = Some ''always''\<rparr>),
      (''app-db-2'', \<lparr>sp_ID = ''2'', sp_Image = ''pg'',
         sp_Labels = [(''com.docker.compose.project'', ''app''), (''com.docker.compose.service'', ''db'')],
         sp_State = state_text ''running'' True False, sp_HostConfig = None\<rparr>),
      (''app-db-1'', \<lparr>sp_ID = ''3'', sp_Image = ''pg'',
         sp_Labels = [(''com.docker.compose.project'', ''app''), (''com.docker.compose.service'', ''db'')],
         sp_State = state_text ''exited'' False False, sp_HostConfig = None\<rparr>)]"

lemmas compose_demo = list_provider_def list_docker_def compose_project_def state_text_def label_value_def

theorem docker_inspect_witness:
  "\<exists>info. docker_InstanceInspect list_provider ''app-web-1'' compose_project = Inr info \<and>
     i_Status info \<noteq> InstanceStatusReady \<and> IsEnabled info"
proof -
  obtain spec info where s: "ContainerInspect (dp_Client list_provider) ''app-web-1'' compose_project = Inr spec"
      "cst_Status (sp_State spec) = ''exited''" "label_value (sp_Labels spec) LabelEnable = ''true''"
      "docker_InstanceInspect list_provider ''app-web-1'' compose_project = Inr info"
    by (simp add: docker_InstanceInspect_def) (simp add: compose_demo LabelEnable_def)
  from docker_inspect [OF s(1,4)] s show ?thesis by simp
qed


theorem compose_dependencies_witness:
  "\<exists>deps. docker_InstanceDependencies list_provider ''app-web-1'' compose_project = Inr deps \<and>
     \<lparr>dep_Name = ''app-db-2'', dep_Condition = ''service_healthy''\<rparr> \<in> set deps"
proof -
  let ?e = "(\<lparr>cd_Service = ''db'', cd_Condition = ''service_healthy''\<rparr>, ''false'')"
  obtain sp where s: "ContainerInspect (dp_Client list_provider) ''app-web-1'' compose_project = Inr sp"
      "label_value (sp_Labels sp) composeDependsOnLabel = ''db:service_healthy:false''"
      "label_value (sp_Labels sp) composeProjectLabel = ''app''"
    by (simp add: compose_demo composeDependsOnLabel_def composeProjectLabel_def)
  have lists: "\<forall>filters. \<exists>cs. ContainerList (dp_Client list_provider) True filters compose_project = Inr cs"
    by (simp add: list_provider_def list_docker_def)
  have clean: "\<forall>e\<in>set [?e]. compose_clean e" by (simp add: compose_clean_def is_space_def)
  have lab: "label_value (sp_Labels sp) composeDependsOnLabel = Join (map compose_text [?e]) '',''"
    by (simp add: s compose_text_def)
  obtain cs where l: "ContainerList (dp_Client list_provider) True
      [label_filter composeProjectLabel ''app'', label_filter composeServiceLabel ''db''] compose_project = Inr cs"
      "cs = [\<lparr>sum_Names = [''/app-db-2''], sum_State = ''running'',
               sum_Labels = [(''com.docker.compose.project'', ''app''), (''com.docker.compose.service'', ''db'')]\<rparr>,
             \<lparr>sum_Names = [''/app-db-1''], sum_State = ''exited'',
               sum_Labels = [(''com.docker.compose.project'', ''app''), (''com.docker.compose.service'', ''db'')]\<rparr>]"
    by (simp add: compose_demo label_filter_def composeProjectLabel_def composeServiceLabel_def)
  have c: "chosen cs ''app-db-2''" by (auto simp: l(2) chosen_def named_def TrimPrefix_def CutPrefix_def)
  from compose_dependencies [OF s(1) lists clean lab] l(1) c s(3) show ?thesis by auto
qed

theorem docker_listings_agree_witness:
  "\<exists>insts groups. docker_InstanceList list_provider True compose_project = Some (Inr insts) \<and>
     docker_InstanceGroups list_provider compose_project = Some (Inr groups) \<and>
     (\<forall>name grp. member_of groups name grp \<longleftrightarrow> (\<exists>inst\<in>set insts. c_Name inst = name \<and> grp \<in> set (c_Groups inst)))"
proof -
  obtain cs where l: "ContainerList (dp_Client list_provider) True enabled_filter compose_project = Inr cs"
      "\<forall>c\<in>set cs. label_value (sum_Labels c) LabelEnable = ''true''" "\<not> (\<exists>c\<in>set cs. sum_Names c = [])"
    by (simp add: compose_demo enabled_filter_def label_filter_def LabelEnable_def)
  from docker_listings_agree [OF l(1,2)] l(3) show ?thesis by auto
qed

end
