(* ===== verification/Moby_Events.thy ===== *)
theory Moby_Events
  imports Docker
begin

text \<open>
  The event stream shared by the providers that speak the Docker API
  (\<open>pkg/provider/internal/mobyevents\<close>): one connection is drained by \<open>consume\<close>, and \<open>stream\<close>
  dials again with a growing delay whenever a connection ends. What the \<open>select\<close> statements
  receive is the input of the model: a list of events per connection, and for each redial
  whether the delay ran out or the context was cancelled first. A message carries what \<open>build\<close>
  makes of it and whether the consumer takes the event or the context is cancelled meanwhile.
\<close>

datatype 'm conn_event =
    Message 'm bool
  | MessagesClosed
  | ErrReceived goerror
  | ErrClosed
  | CtxDone

datatype consume_result = Reconnect | Cancelled | Waiting

definition linearBackoff :: "nat \<Rightarrow> duration" where
  "linearBackoff attempt = min (int attempt * Second) (30 * Second)"

text \<open>The events sent on the channel, and how the connection ended.\<close>

fun consume :: "('m \<Rightarrow> InstanceEvent option) \<Rightarrow> 'm conn_event list \<Rightarrow> InstanceEvent list \<times> consume_result" where
  "consume build [] = ([], Waiting)"
| "consume build (Message msg taken # rest) =
     (case build msg of
        Some event \<Rightarrow>
          if taken then (let (sent, res) = consume build rest in (event # sent, res))
          else ([], Cancelled)
      | None \<Rightarrow> consume build rest)"
| "consume build (MessagesClosed # rest) = ([], Reconnect)"
| "consume build (ErrReceived err # rest) = ([], Reconnect)"
| "consume build (ErrClosed # rest) = ([], Reconnect)"
| "consume build (CtxDone # rest) = ([], Cancelled)"

text \<open>
  The goroutine of \<open>stream\<close>, with the delays it waited for: the list gives, for each attempt,
  whether the wait before it (if any) ran out and what arrives on the connection. \<open>Waiting\<close> is a
  stream that is still open.
\<close>

fun stream_loop :: "('m \<Rightarrow> InstanceEvent option) \<Rightarrow> (nat \<Rightarrow> duration) \<Rightarrow> nat \<Rightarrow>
    (bool \<times> 'm conn_event list) list \<Rightarrow> InstanceEvent list \<times> duration list \<times> consume_result" where
  "stream_loop build backoff attempt [] = ([], [], Waiting)"
| "stream_loop build backoff attempt ((elapsed, conn) # conns) =
     (if attempt > 0 \<and> \<not> elapsed then ([], [backoff attempt], Cancelled)
      else
        let waits = (if attempt > 0 then [backoff attempt] else []) in
        case consume build conn of
          (sent, Reconnect) \<Rightarrow>
            let (sent', waits', res) = stream_loop build backoff (attempt + 1) conns
            in (sent @ sent', waits @ waits', res)
        | (sent, res) \<Rightarrow> (sent, waits, res))"

definition stream :: "('m \<Rightarrow> InstanceEvent option) \<Rightarrow> (nat \<Rightarrow> duration) \<Rightarrow> (bool \<times> 'm conn_event list) list \<Rightarrow>
    InstanceEvent list \<times> duration list \<times> consume_result" where
  "stream build backoff conns = stream_loop build backoff 0 conns"

definition Stream :: "('m \<Rightarrow> InstanceEvent option) \<Rightarrow> (bool \<times> 'm conn_event list) list \<Rightarrow>
    InstanceEvent list \<times> duration list \<times> consume_result" where
  "Stream build conns = stream build linearBackoff conns"

definition docker_InstanceEvents :: "'d DockerProvider \<Rightarrow> InstanceEventType list \<Rightarrow>
    (bool \<times> ('d \<times> EventMessage) conn_event list) list \<Rightarrow> InstanceEvent list \<times> duration list \<times> consume_result" where
  "docker_InstanceEvents p types conns = Stream (\<lambda>(d, msg). docker_build p types d msg) conns"

section \<open>Properties\<close>

text \<open>
  The messages that arrive on a connection before it ends, whether it ends, and whether the
  context is cancelled while it is drained: the reference for what the consumer may expect.
\<close>

fun received :: "'m conn_event list \<Rightarrow> 'm list" where
  "received (Message m taken # rest) = m # received rest"
| "received _ = []"

fun ends :: "'m conn_event list \<Rightarrow> bool" where
  "ends [] \<longleftrightarrow> False"
| "ends (Message m taken # rest) \<longleftrightarrow> ends rest"
| "ends (e # rest) \<longleftrightarrow> True"

definition undisturbed :: "bool \<times> 'm conn_event list \<Rightarrow> bool" where
  "undisturbed c \<longleftrightarrow> fst c \<and> CtxDone \<notin> set (snd c) \<and> (\<forall>m. Message m False \<notin> set (snd c))"

lemma map_filter_append [simp]: "List.map_filter f (xs @ ys) = List.map_filter f xs @ List.map_filter f ys"
  by (simp add: List.map_filter_def)

lemma consume_prefix: "consume build conn = (sent, res) \<Longrightarrow>
    (\<exists>more. List.map_filter build (received conn) = sent @ more) \<and>
    (res = Reconnect \<longrightarrow> sent = List.map_filter build (received conn)) \<and>
    (res = Cancelled \<longrightarrow> CtxDone \<in> set conn \<or> (\<exists>m. Message m False \<in> set conn))"
  by (induction build conn arbitrary: sent res rule: consume.induct)
    (auto simp: List.map_filter_simps Let_def split: option.splits if_splits prod.splits)

lemma consume_complete: "consume build conn = (sent, res) \<Longrightarrow> CtxDone \<notin> set conn \<Longrightarrow> \<forall>m. Message m False \<notin> set conn \<Longrightarrow>
    sent = List.map_filter build (received conn) \<and> res = (if ends conn then Reconnect else Waiting)"
proof (induction build conn arbitrary: sent res rule: consume.induct)
  case (2 build msg taken rest)
  have t: taken using 2(5) by (cases taken) auto
  obtain sent' res' where c: "consume build rest = (sent', res')" by (cases "consume build rest")
  have *: "sent' = List.map_filter build (received rest) \<and> res' = (if ends rest then Reconnect else Waiting)"
    using 2 c t by (cases "build msg") auto
  with 2(3) c t show ?case by (cases "build msg") (auto simp: List.map_filter_simps)
qed (auto simp: List.map_filter_simps)

lemma stream_waits: "stream_loop build backoff n conns = (sent, waits, res) \<Longrightarrow>
    \<exists>k. waits = map backoff [max 1 n..<max 1 n + k]"
proof (induction build backoff n conns arbitrary: sent waits res rule: stream_loop.induct)
  case (2 build backoff n elapsed conn conns)
  show ?case
  proof (cases "n > 0 \<and> \<not> elapsed")
    case True
    with 2 show ?thesis by (intro exI [of _ 1]) auto
  next
    case False
    obtain s1 r1 where c: "consume build conn = (s1, r1)" by (cases "consume build conn")
    show ?thesis
    proof (cases "r1 = Reconnect")
      case True
      obtain s2 w2 r2 where l: "stream_loop build backoff (n + 1) conns = (s2, w2, r2)"
        by (cases "stream_loop build backoff (n + 1) conns") auto
      with 2(1) [OF False _ c [symmetric] True] obtain k where "w2 = map backoff [n + 1..<n + 1 + k]" by auto
      moreover have "waits = (if n > 0 then [backoff n] else []) @ w2" using 2(2) False c True l by auto
      moreover have "backoff n # map backoff [n + 1..<n + 1 + k] = map backoff [n..<n + Suc k]"
        by (simp add: upt_conv_Cons del: upt_Suc)
      ultimately have "waits = map backoff [max 1 n..<max 1 n + (if n = 0 then k else Suc k)]" by (cases "n = 0") auto
      then show ?thesis by blast
    next
      case r: False
      with 2 False c show ?thesis by (cases r1; cases "n = 0") (auto simp: Let_def intro: exI [of _ 0] exI [of _ 1])
    qed
  qed
qed (simp add: exI [of _ 0])

lemma stream_prefix: "stream_loop build backoff n conns = (sent, waits, res) \<Longrightarrow>
    \<exists>more. List.map_filter build (concat (map (\<lambda>c. received (snd c)) conns)) = sent @ more"
proof (induction build backoff n conns arbitrary: sent waits res rule: stream_loop.induct)
  case (2 build backoff n elapsed conn conns)
  obtain s1 r1 where c: "consume build conn = (s1, r1)" by (cases "consume build conn")
  obtain more where m: "List.map_filter build (received conn) = s1 @ more" using consume_prefix [OF c] by blast
  show ?case
  proof (cases "(n > 0 \<and> \<not> elapsed) \<or> r1 \<noteq> Reconnect")
    case True
    then have "sent = [] \<or> sent = s1" using 2(2) c by (cases r1) (auto split: if_splits)
    with m show ?thesis by (auto simp: map_filter_append)
  next
    case False
    obtain s2 w2 r2 where l: "stream_loop build backoff (n + 1) conns = (s2, w2, r2)"
      by (cases "stream_loop build backoff (n + 1) conns") auto
    from 2(1) [OF _ _ c [symmetric] _ l] False obtain more' where
      "List.map_filter build (concat (map (\<lambda>c. received (snd c)) conns)) = s2 @ more'" by auto
    moreover have "sent = s1 @ s2" using False 2(2) c l by (auto simp: Let_def split: if_splits)
    moreover have "s1 = List.map_filter build (received conn)" using consume_prefix [OF c] False by simp
    ultimately show ?thesis by simp
  qed
qed (simp add: List.map_filter_simps)

lemma stream_cancelled: "stream_loop build backoff n conns = (sent, waits, Cancelled) \<Longrightarrow> \<not> list_all undisturbed conns"
proof (induction build backoff n conns arbitrary: sent waits rule: stream_loop.induct)
  case (2 build backoff n elapsed conn conns)
  obtain s1 r1 where c: "consume build conn = (s1, r1)" by (cases "consume build conn")
  obtain s2 w2 r2 where l: "stream_loop build backoff (n + 1) conns = (s2, w2, r2)"
    by (cases "stream_loop build backoff (n + 1) conns") auto
  show ?case
  proof (cases "(n > 0 \<and> \<not> elapsed) \<or> r1 \<noteq> Reconnect")
    case True
    then show ?thesis
      using 2(2) c consume_prefix [OF c] by (cases r1) (auto simp: undisturbed_def split: if_splits)
  next
    case False
    then have "r2 = Cancelled" using 2(2) c l by (auto simp: Let_def split: if_splits)
    with 2(1) [OF _ _ c [symmetric] _ l [unfolded this]] False l show ?thesis by auto
  qed
qed simp

lemma stream_complete:
  "list_all undisturbed conns \<Longrightarrow> list_all (\<lambda>c. ends (snd c)) (butlast conns) \<Longrightarrow>
   stream_loop build backoff n conns = (sent, waits, res) \<Longrightarrow>
     sent = List.map_filter build (concat (map (\<lambda>c. received (snd c)) conns)) \<and> res = Waiting"
proof (induction build backoff n conns arbitrary: sent waits res rule: stream_loop.induct)
  case (2 build backoff n elapsed conn conns)
  obtain s1 r1 where c: "consume build conn = (s1, r1)" by (cases "consume build conn")
  have u: elapsed "s1 = List.map_filter build (received conn)" "r1 = (if ends conn then Reconnect else Waiting)"
    using 2(2) consume_complete [OF c] by (auto simp: undisturbed_def)
  obtain s2 w2 r2 where l: "stream_loop build backoff (n + 1) conns = (s2, w2, r2)"
    by (cases "stream_loop build backoff (n + 1) conns") auto
  show ?case
  proof (cases "ends conn")
    case True
    then have "list_all (\<lambda>c. ends (snd c)) (butlast conns)" using 2(3) by (cases conns) auto
    with 2(1) [OF _ _ c [symmetric] _ _ _ l] u True 2(2) have "s2 = List.map_filter build (concat (map (\<lambda>c. received (snd c)) conns)) \<and> r2 = Waiting"
      by auto
    with 2(4) c u True l show ?thesis by (auto simp: Let_def split: if_splits)
  next
    case False
    then have "conns = []" using 2(3) by (cases conns) auto
    with 2(4) c u False show ?thesis by (auto simp: Let_def split: if_splits)
  qed
qed simp

text \<open>
  C29: the event stream of a Docker provider. A failing or closed connection never ends it: it is
  cancelled only by its context. Reconnections wait one second longer each time, at most thirty.
  Whatever happens, what the consumer sees is a prefix of the events of the messages received, in
  their order, over all connections; and all of them if the context is not cancelled.
\<close>

theorem docker_event_stream:
  assumes "docker_InstanceEvents p types conns = (sent, waits, res)"
  shows "(res = Cancelled \<longrightarrow> \<not> list_all undisturbed conns) \<and>
    (\<exists>k. waits = map linearBackoff [1..<1 + k]) \<and> (\<forall>w\<in>set waits. Second \<le> w \<and> w \<le> 30 * Second) \<and>
    (\<exists>more. List.map_filter (\<lambda>(d, msg). docker_build p types d msg) (concat (map (\<lambda>c. received (snd c)) conns)) = sent @ more) \<and>
    (list_all undisturbed conns \<and> list_all (\<lambda>c. ends (snd c)) (butlast conns) \<longrightarrow>
       sent = List.map_filter (\<lambda>(d, msg). docker_build p types d msg) (concat (map (\<lambda>c. received (snd c)) conns)) \<and> res = Waiting)"
proof -
  note a = assms [unfolded docker_InstanceEvents_def Stream_def stream_def]
  obtain k where k: "waits = map linearBackoff [1..<1 + k]" using stream_waits [OF a] by auto
  then have "\<forall>w\<in>set waits. Second \<le> w \<and> w \<le> 30 * Second" by (auto simp: linearBackoff_def)
  with k stream_cancelled [of _ linearBackoff 0 conns sent waits] stream_prefix [OF a] stream_complete [OF _ _ a] a
  show ?thesis by blast
qed

theorem docker_event_stream_witness:
  "\<exists>sent waits. docker_InstanceEvents list_provider [InstanceEventStarted]
       [(True, [Message (compose_project, \<lparr>em_Action = ''start'', em_Name = ''app-web-1''\<rparr>) True, ErrClosed]),
        (True, [Message (compose_project, \<lparr>em_Action = ''start'', em_Name = ''app-db-1''\<rparr>) True])] = (sent, waits, Waiting) \<and>
     map (i_Name \<circ> ev_Info) sent = [''app-web-1'', ''app-db-1'']"
proof -
  let ?conns = "[(True, [Message (compose_project, \<lparr>em_Action = ''start'', em_Name = ''app-web-1''\<rparr>) True, ErrClosed]),
        (True, [Message (compose_project, \<lparr>em_Action = ''start'', em_Name = ''app-db-1''\<rparr>) True])]"
  obtain sent waits res where e: "docker_InstanceEvents list_provider [InstanceEventStarted] ?conns = (sent, waits, res)"
    by (cases "docker_InstanceEvents list_provider [InstanceEventStarted] ?conns") auto
  have u: "list_all undisturbed ?conns" "list_all (\<lambda>c. ends (snd c)) (butlast ?conns)" by (simp_all add: undisturbed_def)
  have b: "\<exists>ev. docker_build list_provider [InstanceEventStarted] compose_project \<lparr>em_Action = ''start'', em_Name = n\<rparr> = Some ev \<and>
      i_Name (ev_Info ev) = n" if "n \<in> {''app-web-1'', ''app-db-1''}" for n
    using that docker_status_fields
    by (auto simp: docker_build_def wants_def inspected_event_def TrimPrefix_def CutPrefix_def docker_InstanceInspect_def
        bare_info_def compose_demo)
  from b [of "''app-web-1''"] b [of "''app-db-1''"] docker_event_stream [OF e] u e show ?thesis by auto
qed

end
