(* ===== verification/Swarm.thy ===== *)
theory Swarm
  imports Moby_Events
begin

text \<open>
  The Docker Swarm provider (\<open>pkg/provider/dockerswarm\<close>): services in replicated mode, scaled by
  a service update. The API client is a record of functions on the state \<open>'d\<close> of the swarm. A
  service without the status that the provider asks for makes an inspection panic (\<open>None\<close>).
\<close>

section \<open>The Swarm API\<close>

text \<open>
  \<open>svc_Replicated\<close> is \<open>None\<close> for a service that is not in replicated mode, and holds the replica
  count, if it is set. \<open>svc_Limits\<close> are the CPU and memory limits of the task template.
\<close>

record Service =
  svc_ID :: string
  svc_Version :: nat
  svc_Name :: string
  svc_Labels :: labels
  svc_Replicated :: "int option option"
  svc_Image :: "string option"
  svc_Limits :: "(int \<times> int) option"
  svc_DesiredTasks :: int
  svc_RunningTasks :: int
  svc_HasStatus :: bool

record 'd swarm_client =
  ServiceList :: "(string \<times> string) list \<Rightarrow> 'd \<Rightarrow> goerror + Service list"
  ServiceUpdate :: "string \<Rightarrow> nat \<Rightarrow> Service \<Rightarrow> 'd \<Rightarrow> (goerror + string list) \<times> 'd"

record 'd SwarmProvider =
  sw_Client :: "'d swarm_client"
  sw_CPUNano :: "string \<Rightarrow> goerror + int"
  sw_RAMInBytes :: "string \<Rightarrow> goerror + int"

section \<open>Inspection\<close>

fun find_service :: "string \<Rightarrow> Service list \<Rightarrow> Service option" where
  "find_service name [] = None"
| "find_service name (s # ss) = (if svc_Name s = name \<or> svc_ID s = name then Some s else find_service name ss)"

definition getServiceByName :: "'d SwarmProvider \<Rightarrow> string \<Rightarrow> 'd \<Rightarrow> goerror + Service" where
  "getServiceByName p name d =
     (case ServiceList (sw_Client p) [(''name'', name)] d of
        Inl err \<Rightarrow> Inl (ErrWrap ''error listing services'' err)
      | Inr services \<Rightarrow>
          (case find_service name services of
             None \<Rightarrow> Inl (ErrText (''service with name '' @ name @ '' was not found''))
           | Some svc \<Rightarrow> Inr svc))"

definition not_replicated :: goerror where
  "not_replicated = ErrText (''swarm service is not in '' @ quoted ''replicated'' @ '' mode'')"

definition service_info :: "Service \<Rightarrow> InstanceInfo" where
  "service_info s =
     (let desired = Replicas (Active (ScaleConfigFromLabels (svc_Labels s)));
          base = zero_InstanceInfo\<lparr>i_Name := svc_Name s, i_DesiredReplicas := desired\<rparr>;
          info = (if svc_DesiredTasks s = 0
                  then base\<lparr>i_CurrentReplicas := 0, i_Status := InstanceStatusStopped\<rparr>
                  else if svc_DesiredTasks s \<noteq> svc_RunningTasks s
                  then base\<lparr>i_CurrentReplicas := int32 (svc_RunningTasks s), i_Status := InstanceStatusStarting\<rparr>
                  else base\<lparr>i_CurrentReplicas := int32 (svc_RunningTasks s), i_Status := InstanceStatusReady\<rparr>)
      in (PopulateEnabledAndGroup info (svc_Labels s))\<lparr>
           i_Provider := ProviderSwarm,
           i_Swarm := Some \<lparr>swarm_ID = svc_ID s,
             swarm_Image = (case svc_Image s of None \<Rightarrow> [] | Some img \<Rightarrow> img),
             swarm_Labels = svc_Labels s\<rparr>\<rparr>)"

definition swarm_InstanceInspect :: "'d SwarmProvider \<Rightarrow> string \<Rightarrow> 'd \<Rightarrow> (goerror + InstanceInfo) option" where
  "swarm_InstanceInspect p name d =
     (case getServiceByName p name d of
        Inl err \<Rightarrow> Some (Inl err)
      | Inr service \<Rightarrow>
          if svc_Replicated service = None then Some (Inl not_replicated)
          else if \<not> svc_HasStatus service then None
          else Some (Inr (service_info service)))"

section \<open>Scaling\<close>

definition swarm_limits :: "'d SwarmProvider \<Rightarrow> string \<Rightarrow> string \<Rightarrow> (int \<times> int) option \<Rightarrow> (int \<times> int) option" where
  "swarm_limits p cpu memory limits =
     (if cpu \<noteq> [] \<or> memory \<noteq> [] then
        let (nano, bytes) = (case limits of None \<Rightarrow> (0, 0) | Some l \<Rightarrow> l);
            nano = (if cpu \<noteq> [] then case sw_CPUNano p cpu of Inl err \<Rightarrow> nano | Inr v \<Rightarrow> v else nano);
            bytes = (if memory \<noteq> [] then case sw_RAMInBytes p memory of Inl err \<Rightarrow> bytes | Inr v \<Rightarrow> v else bytes)
        in Some (nano, bytes)
      else limits)"

definition ServiceUpdateScale :: "'d SwarmProvider \<Rightarrow> string \<Rightarrow> int \<Rightarrow> string \<Rightarrow> string \<Rightarrow> 'd \<Rightarrow> goerror option \<times> 'd" where
  "ServiceUpdateScale p name replicas cpu memory d =
     (case getServiceByName p name d of
        Inl err \<Rightarrow> (Some (ErrWrap ''cannot get service'' err), d)
      | Inr service \<Rightarrow>
          if svc_Replicated service = None then (Some not_replicated, d)
          else
            let spec = service\<lparr>svc_Replicated := Some (Some replicas),
                               svc_Limits := swarm_limits p cpu memory (svc_Limits service)\<rparr> in
            case ServiceUpdate (sw_Client p) (svc_ID service) (svc_Version service) spec d of
              (Inl err, d) \<Rightarrow> (Some (ErrWrap ''cannot update service resources'' err), d)
            | (Inr warnings, d) \<Rightarrow>
                if warnings \<noteq> []
                then (Some (ErrText (''warning received updating swarm service ['' @ svc_Name service @ '']: '' @ Join warnings '', '')), d)
                else (None, d))"

definition swarm_InstanceDependencies :: "'d SwarmProvider \<Rightarrow> string \<Rightarrow> 'd \<Rightarrow> goerror + InstanceDependency list" where
  "swarm_InstanceDependencies p name d = Inr []"

definition swarm_InstanceStart :: "'d SwarmProvider \<Rightarrow> string \<Rightarrow> 'd \<Rightarrow> goerror option \<times> 'd" where
  "swarm_InstanceStart p name d =
     (case getServiceByName p name d of
        Inl err \<Rightarrow> (Some (ErrWrap ''cannot get service'' err), d)
      | Inr service \<Rightarrow>
          let sc = ScaleConfigFromLabels (svc_Labels service) in
          ServiceUpdateScale p name (uint64 (Replicas (Active sc))) (CPU (Active sc)) (Memory (Active sc)) d)"

definition swarm_InstanceStop :: "'d SwarmProvider \<Rightarrow> string \<Rightarrow> 'd \<Rightarrow> goerror option \<times> 'd" where
  "swarm_InstanceStop p name d =
     (case getServiceByName p name d of
        Inl err \<Rightarrow> (Some (ErrWrap ''cannot get service'' err), d)
      | Inr service \<Rightarrow>
          let sc = ScaleConfigFromLabels (svc_Labels service) in
          ServiceUpdateScale p name (uint64 (Replicas (Idle sc))) (CPU (Idle sc)) (Memory (Idle sc)) d)"

section \<open>Listing\<close>

definition service_filter :: "string \<times> string" where
  "service_filter = (''label'', label_filter LabelEnable ''true'')"

definition serviceToInstance :: "Service \<Rightarrow> InstanceConfiguration" where
  "serviceToInstance s =
     (let enabled = label_value (svc_Labels s) LabelEnable in
      \<lparr>c_Name = svc_Name s,
       c_Groups = (if enabled = ''true'' then ParseGroups (label_value (svc_Labels s) LabelGroup) else []),
       c_Enabled = enabled\<rparr>)"

definition swarm_InstanceList :: "'d SwarmProvider \<Rightarrow> bool \<Rightarrow> 'd \<Rightarrow> goerror + InstanceConfiguration list" where
  "swarm_InstanceList p all d =
     (case ServiceList (sw_Client p) [service_filter, (''mode'', ''replicated'')] d of
        Inl err \<Rightarrow> Inl (ErrWrap ''cannot list services'' err)
      | Inr services \<Rightarrow>
          Inr (map serviceToInstance
            (filter (\<lambda>s. all \<or> \<not> (\<not> svc_HasStatus s \<or> svc_RunningTasks s = 0)) services)))"

fun service_groups :: "Service list \<Rightarrow> registry \<Rightarrow> registry" where
  "service_groups [] groups = groups"
| "service_groups (s # ss) groups =
     service_groups ss (group_append (svc_Name s) (ParseGroups (label_value (svc_Labels s) LabelGroup)) groups)"

definition swarm_InstanceGroups :: "'d SwarmProvider \<Rightarrow> 'd \<Rightarrow> goerror + registry" where
  "swarm_InstanceGroups p d =
     (case ServiceList (sw_Client p) [service_filter] d of
        Inl err \<Rightarrow> Inl (ErrWrap ''cannot list services'' err)
      | Inr services \<Rightarrow> Inr (service_groups services []))"

section \<open>Events\<close>

record ServiceMessage =
  sm_Action :: string
  sm_Name :: string
  sm_ReplicasNew :: string
  sm_ReplicasOld :: string

definition swarm_bare_info :: "string \<Rightarrow> InstanceStatus \<Rightarrow> InstanceInfo" where
  "swarm_bare_info name status = zero_InstanceInfo\<lparr>i_Name := name, i_Status := status, i_Provider := ProviderSwarm\<rparr>"

text \<open>A panic of the inspection is treated like an error here; the process would end.\<close>

definition swarm_event :: "'d SwarmProvider \<Rightarrow> 'd \<Rightarrow> InstanceEventType \<Rightarrow> string \<Rightarrow> InstanceStatus \<Rightarrow> InstanceEvent" where
  "swarm_event p d type name status =
     \<lparr>ev_Type = type,
      ev_Info = (case no_panic (swarm_InstanceInspect p name d) of Inl err \<Rightarrow> swarm_bare_info name status | Inr info \<Rightarrow> info)\<rparr>"

definition swarm_build :: "'d SwarmProvider \<Rightarrow> InstanceEventType list \<Rightarrow> 'd \<Rightarrow> ServiceMessage \<Rightarrow> InstanceEvent option" where
  "swarm_build p types d msg =
     (let name = sm_Name msg in
      if name = [] then None
      else if sm_Action msg = ''create'' then
        if \<not> wants types InstanceEventCreated then None
        else Some (swarm_event p d InstanceEventCreated name InstanceStatusUnset)
      else if sm_Action msg = ''remove'' then
        if wants types InstanceEventRemoved
        then Some \<lparr>ev_Type = InstanceEventRemoved, ev_Info = swarm_bare_info name InstanceStatusUnset\<rparr>
        else if wants types InstanceEventStopped
        then Some \<lparr>ev_Type = InstanceEventStopped, ev_Info = swarm_bare_info name InstanceStatusStopped\<rparr>
        else None
      else if sm_ReplicasNew msg = ''0'' \<and> wants types InstanceEventStopped
      then Some (swarm_event p d InstanceEventStopped name InstanceStatusStopped)
      else if sm_ReplicasOld msg = ''0'' \<and> sm_ReplicasNew msg \<noteq> [] \<and> sm_ReplicasNew msg \<noteq> ''0'' \<and> wants types InstanceEventStarted
      then Some (swarm_event p d InstanceEventStarted name InstanceStatusStarting)
      else None)"

definition swarm_InstanceEvents :: "'d SwarmProvider \<Rightarrow> InstanceEventType list \<Rightarrow>
    (bool \<times> ('d \<times> ServiceMessage) conn_event list) list \<Rightarrow> InstanceEvent list \<times> duration list \<times> consume_result" where
  "swarm_InstanceEvents p types conns = Stream (\<lambda>(d, msg). swarm_build p types d msg) conns"

definition swarm_ops :: "'d SwarmProvider \<Rightarrow> 'd provider_ops" where
  "swarm_ops p =
     \<lparr>p_Start = swarm_InstanceStart p, p_Stop = swarm_InstanceStop p,
      p_Inspect = (\<lambda>name d. no_panic (swarm_InstanceInspect p name d)),
      p_Groups = (\<lambda>d. map_sum id Some (swarm_InstanceGroups p d)),
      p_List = swarm_InstanceList p,
      p_Dependencies = swarm_InstanceDependencies p\<rparr>"

section \<open>Properties\<close>

text \<open>
  The documented behaviour of a swarm manager: \<open>view d\<close> shows the services by name; the list
  filtered by a name holds the service of that name (and perhaps others, the filter matches
  substrings), and an update replaces the specification of one service and raises its version.
\<close>

definition swarm_manager :: "'d swarm_client \<Rightarrow> ('d \<Rightarrow> string \<Rightarrow> Service option) \<Rightarrow> bool" where
  "swarm_manager cli view \<longleftrightarrow>
     (\<forall>d n. \<exists>ss. ServiceList cli [(''name'', n)] d = Inr ss \<and>
        (\<forall>s\<in>set ss. view d (svc_Name s) = Some s \<and> (svc_Name s = n \<or> svc_ID s \<noteq> n)) \<and> (\<forall>s. view d n = Some s \<longrightarrow> s \<in> set ss)) \<and>
     (\<forall>d n s. view d n = Some s \<longrightarrow> svc_Name s = n \<and>
        (\<forall>spec. svc_Name spec = n \<and> svc_ID spec = svc_ID s \<longrightarrow>
           (\<exists>d'. ServiceUpdate cli (svc_ID s) (svc_Version s) spec d = (Inr [], d') \<and>
              view d' = (view d)(n \<mapsto> spec\<lparr>svc_Version := Suc (svc_Version s)\<rparr>))))"

lemma find_service_exact:
  assumes "find_service name ss = Some s"
  shows "s \<in> set ss \<and> (svc_Name s = name \<or> svc_ID s = name)"
  using assms by (induction ss) (auto split: if_splits)

lemma find_service_None: "find_service name ss = None \<longleftrightarrow> (\<forall>s\<in>set ss. svc_Name s \<noteq> name \<and> svc_ID s \<noteq> name)"
  by (induction ss) auto

lemma getServiceByName_view:
  assumes M: "swarm_manager (sw_Client p) view"
  shows "(case view d n of Some s \<Rightarrow> getServiceByName p n d = Inr s | None \<Rightarrow> \<exists>err. getServiceByName p n d = Inl err)"
proof -
  obtain ss where ss: "ServiceList (sw_Client p) [(''name'', n)] d = Inr ss"
    "\<forall>s\<in>set ss. view d (svc_Name s) = Some s \<and> (svc_Name s = n \<or> svc_ID s \<noteq> n)" "\<forall>s. view d n = Some s \<longrightarrow> s \<in> set ss"
    using M unfolding swarm_manager_def by blast
  show ?thesis
  proof (cases "find_service n ss")
    case None
    then have "view d n = None" using ss M unfolding find_service_None swarm_manager_def by (metis not_None_eq)
    with None ss show ?thesis by (simp add: getServiceByName_def)
  next
    case (Some s)
    with find_service_exact [OF Some] ss(2) have "view d n = Some s" by auto
    with Some ss show ?thesis by (simp add: getServiceByName_def)
  qed
qed

lemma update_scale_view:
  assumes M: "swarm_manager (sw_Client p) view" and v: "view d n = Some s" and r: "svc_Replicated s \<noteq> None"
  shows "\<exists>d' l. ServiceUpdateScale p n c cpu memory d = (None, d') \<and>
    view d' = (view d)(n \<mapsto> s\<lparr>svc_Replicated := Some (Some c), svc_Limits := l, svc_Version := Suc (svc_Version s)\<rparr>)"
proof -
  have g: "getServiceByName p n d = Inr s" using getServiceByName_view [OF M, of n d] v by simp
  let ?spec = "s\<lparr>svc_Replicated := Some (Some c), svc_Limits := swarm_limits p cpu memory (svc_Limits s)\<rparr>"
  have "svc_Name s = n" using M v unfolding swarm_manager_def by blast
  then have "\<exists>d'. ServiceUpdate (sw_Client p) (svc_ID s) (svc_Version s) ?spec d = (Inr [], d') \<and>
      view d' = (view d)(n \<mapsto> ?spec\<lparr>svc_Version := Suc (svc_Version s)\<rparr>)"
    using M [unfolded swarm_manager_def, THEN conjunct2, rule_format, OF v, THEN conjunct2, rule_format, of ?spec] by simp
  then show ?thesis using r by (auto simp: ServiceUpdateScale_def g Let_def)
qed


section \<open>A manager\<close>

definition manager_view :: "(string, Service) gomap \<Rightarrow> string \<Rightarrow> Service option" where
  "manager_view d n = map_option (\<lambda>s. s\<lparr>svc_Name := n\<rparr>) (map_of d n)"

definition service_matches :: "Service \<Rightarrow> string \<times> string \<Rightarrow> bool" where
  "service_matches s f =
     (if fst f = ''name''
      then take (length (snd f)) (svc_Name s) = snd f \<and> (svc_Name s = snd f \<or> svc_ID s \<noteq> snd f)
      else if fst f = ''label'' then list_ex (\<lambda>(k, v). label_filter k v = snd f) (svc_Labels s)
      else if fst f = ''mode'' then snd f = (if svc_Replicated s = None then ''global'' else ''replicated'')
      else True)"

definition list_swarm :: "(string, Service) gomap swarm_client" where
  "list_swarm =
     \<lparr>ServiceList = (\<lambda>filters d. Inr (filter (\<lambda>s. list_all (service_matches s) filters)
        (List.map_filter (\<lambda>(n, s). manager_view d n) d))),
      ServiceUpdate = (\<lambda>id version spec d. (Inr [], map_put (svc_Name spec) (spec\<lparr>svc_Version := Suc version\<rparr>) d))\<rparr>"

lemma list_swarm_manager: "swarm_manager list_swarm manager_view"
  unfolding swarm_manager_def
proof (intro conjI allI impI)
  fix d n
  let ?ss = "filter (\<lambda>s. service_matches s (''name'', n)) (List.map_filter (\<lambda>(n, s). manager_view d n) d)"
  have L: "s \<in> set (List.map_filter (\<lambda>(n, s). manager_view d n) d) \<longleftrightarrow> manager_view d (svc_Name s) = Some s" for s
  proof -
    have "s \<in> set (List.map_filter (\<lambda>(n, s). manager_view d n) d) \<longleftrightarrow> (\<exists>n\<in>fst ` set d. manager_view d n = Some s)"
      by (force simp: List.map_filter_def)
    also have "\<dots> \<longleftrightarrow> manager_view d (svc_Name s) = Some s"
      unfolding dom_map_of_conv_image_fst [symmetric] by (auto simp: manager_view_def)
    finally show ?thesis .
  qed
  have N: "svc_Name s = n" if "manager_view d n = Some s" for s using that by (auto simp: manager_view_def)
  have "(\<forall>s\<in>set ?ss. manager_view d (svc_Name s) = Some s \<and> (svc_Name s = n \<or> svc_ID s \<noteq> n)) \<and>
      (\<forall>s. manager_view d n = Some s \<longrightarrow> s \<in> set ?ss)"
  proof (intro conjI ballI allI impI)
    fix s assume "s \<in> set ?ss"
    then have a: "s \<in> set (List.map_filter (\<lambda>(n, s). manager_view d n) d)" "service_matches s (''name'', n)" by simp_all
    from a(1) show "manager_view d (svc_Name s) = Some s" unfolding L .
    from a(2) show "svc_Name s = n \<or> svc_ID s \<noteq> n" by (simp add: service_matches_def)
  next
    fix s assume v: "manager_view d n = Some s"
    with L [of s] N [OF v] have "s \<in> set (List.map_filter (\<lambda>(n, s). manager_view d n) d)" by blast
    with N [OF v] show "s \<in> set ?ss" by (simp add: service_matches_def)
  qed
  then show "\<exists>ss. ServiceList list_swarm [(''name'', n)] d = Inr ss \<and>
      (\<forall>s\<in>set ss. manager_view d (svc_Name s) = Some s \<and> (svc_Name s = n \<or> svc_ID s \<noteq> n)) \<and>
      (\<forall>s. manager_view d n = Some s \<longrightarrow> s \<in> set ss)"
    by (simp add: list_swarm_def)
next
  fix d n s and spec :: Service
  assume v: "manager_view d n = Some s"
  then show "svc_Name s = n" by (auto simp: manager_view_def)
  assume "svc_Name spec = n \<and> svc_ID spec = svc_ID s"
  then show "\<exists>d'. ServiceUpdate list_swarm (svc_ID s) (svc_Version s) spec d = (Inr [], d') \<and>
      manager_view d' = (manager_view d)(n \<mapsto> spec\<lparr>svc_Version := Suc (svc_Version s)\<rparr>)"
    by (auto simp: list_swarm_def manager_view_def gomap_simps fun_eq_iff)
qed

definition swarm_services :: "(string, Service) gomap" where
  "swarm_services =
     [(''agent'', \<lparr>svc_ID = ''a1'', svc_Version = 1, svc_Name = ''agent'',
         svc_Labels = [(''sablier.enable'', ''true''), (''sablier.group'', ''ops'')],
         svc_Replicated = None, svc_Image = None, svc_Limits = None, svc_DesiredTasks = 2, svc_RunningTasks = 2, svc_HasStatus = True\<rparr>),
      (''web'', \<lparr>svc_ID = ''w1'', svc_Version = 7, svc_Name = ''web'',
         svc_Labels = [(''sablier.enable'', ''true''), (''sablier.active.replicas'', ''3'')],
         svc_Replicated = Some (Some 0), svc_Image = None, svc_Limits = None, svc_DesiredTasks = 0, svc_RunningTasks = 0, svc_HasStatus = True\<rparr>)]"

definition demo_swarm :: "(string, Service) gomap SwarmProvider" where
  "demo_swarm = \<lparr>sw_Client = list_swarm, sw_CPUNano = (\<lambda>s. Inl (ErrText s)), sw_RAMInBytes = (\<lambda>s. Inl (ErrText s))\<rparr>"


text \<open>
  A service in global mode is a member of its group, because the groups are not listed with the
  mode filter, but it is not an instance: it is missing from the list and cannot be inspected.
\<close>

theorem global_service_grouped:
  "(case swarm_InstanceGroups demo_swarm swarm_services of Inr groups \<Rightarrow> member_of groups ''agent'' ''ops'' | _ \<Rightarrow> False) \<and>
   (case swarm_InstanceList demo_swarm True swarm_services of Inr insts \<Rightarrow> ''agent'' \<notin> c_Name ` set insts | _ \<Rightarrow> False) \<and>
   swarm_InstanceInspect demo_swarm ''agent'' swarm_services = Some (Inl not_replicated)"
  by code_simp

end
