(* ===== verification/Kubernetes.thy ===== *)
theory Kubernetes
  imports Docker
begin

text \<open>
  The Kubernetes provider (\<open>pkg/provider/kubernetes\<close>): deployments, stateful sets and
  CloudNativePG clusters. The API clients are records of functions on the state \<open>'k\<close> of the API
  server, \<open>ParseQuantity\<close> and \<open>IsNotFound\<close> of the Kubernetes libraries are parameters of the
  provider. Deployments and stateful sets have the fields the provider reads in common
  (\<open>Workload\<close>). A dereference of a missing replica count, which panics, is \<open>None\<close>.
\<close>

section \<open>The Kubernetes API\<close>

record OwnerReference =
  or_Controller :: "bool option"
  or_Kind :: string
  or_APIVersion :: string
  or_Name :: string

record Container =
  con_Name :: string
  con_Image :: string

record Workload =
  wl_Namespace :: string
  wl_Name :: string
  wl_Labels :: labels
  wl_Annotations :: labels
  wl_Replicas :: "int option"
  wl_ReadyReplicas :: int
  wl_Containers :: "Container list"
  wl_OwnerReferences :: "OwnerReference list"
  wl_ResourceVersion :: string

record Cluster =
  cl_Namespace :: string
  cl_Name :: string
  cl_Labels :: labels
  cl_Annotations :: labels
  cl_Instances :: int
  cl_ReadyInstances :: int
  cl_ImageName :: string
  cl_ResourceVersion :: string

record Scale =
  sca_Replicas :: int
  sca_ResourceVersion :: string

text \<open>The patch of the limits of one container, and one of one annotation (\<open>None\<close> removes it).\<close>

record ResourcePatch =
  rp_Container :: string
  rp_Limits :: "(string, string) gomap"

type_synonym AnnotationPatch = "string \<times> string option"

record 'k apps_client =
  ac_Get :: "string \<Rightarrow> string \<Rightarrow> 'k \<Rightarrow> goerror + Workload"
  ac_List :: "string \<Rightarrow> 'k \<Rightarrow> goerror + Workload list"
  ac_GetScale :: "string \<Rightarrow> string \<Rightarrow> 'k \<Rightarrow> goerror + Scale"
  ac_UpdateScale :: "string \<Rightarrow> string \<Rightarrow> Scale \<Rightarrow> 'k \<Rightarrow> goerror option \<times> 'k"
  ac_Patch :: "string \<Rightarrow> string \<Rightarrow> ResourcePatch \<Rightarrow> 'k \<Rightarrow> goerror option \<times> 'k"

record 'k dynamic_client =
  dc_GetCluster :: "string \<Rightarrow> string \<Rightarrow> 'k \<Rightarrow> goerror + Cluster"
  dc_ListClusters :: "string \<Rightarrow> 'k \<Rightarrow> goerror + Cluster list"
  dc_PatchCluster :: "string \<Rightarrow> string \<Rightarrow> AnnotationPatch \<Rightarrow> 'k \<Rightarrow> goerror option \<times> 'k"
  dc_PatchRedis :: "string \<Rightarrow> string \<Rightarrow> AnnotationPatch \<Rightarrow> 'k \<Rightarrow> goerror option \<times> 'k"

record 'k KubeProvider =
  kp_Deployments :: "'k apps_client"
  kp_StatefulSets :: "'k apps_client"
  kp_ServerResources :: "'k \<Rightarrow> goerror + string list"
  kp_dynamic :: "'k dynamic_client option"
  kp_delimiter :: string
  kp_readyOnFirstReplica :: bool
  kp_ParseQuantity :: "string \<Rightarrow> goerror + string"
  kp_IsNotFound :: "goerror \<Rightarrow> bool"

section \<open>Names\<close>

record ParsedName =
  pn_Original :: string
  pn_Kind :: string
  pn_Namespace :: string
  pn_Name :: string
  pn_Replicas :: int

text \<open>\<open>strings.Split\<close> with a separator of any length; an empty one separates the characters.\<close>

function SplitStr :: "string \<Rightarrow> string \<Rightarrow> string list" where
  "SplitStr sep s =
     (if sep = [] then map (\<lambda>c. [c]) s
      else case s of
        [] \<Rightarrow> [[]]
      | c # cs \<Rightarrow>
          if take (length sep) s = sep then [] # SplitStr sep (drop (length sep) s)
          else case SplitStr sep cs of [] \<Rightarrow> [[c]] | p # ps \<Rightarrow> (c # p) # ps)"
  by pat_completeness auto
termination
  by (relation "measure (\<lambda>(sep, s). length s)") (auto simp: Suc_le_eq)

declare SplitStr.simps [simp del]

definition ParseName :: "string \<Rightarrow> string \<Rightarrow> goerror + ParsedName" where
  "ParseName name delimiter =
     (case SplitStr delimiter name of
        [kind, namespace, n, r] \<Rightarrow>
          (case Atoi r of
             None \<Rightarrow> Inl (ErrText (''strconv.Atoi: parsing '' @ quoted r @ '': invalid syntax''))
           | Some replicas \<Rightarrow>
               Inr \<lparr>pn_Original = name, pn_Kind = kind, pn_Namespace = namespace, pn_Name = n,
                    pn_Replicas = int32 replicas\<rparr>)
      | _ \<Rightarrow> Inl (ErrText (''invalid name ['' @ name @ ''] should be: kind'' @ delimiter @ ''namespace'' @ delimiter @
                ''name'' @ delimiter @ ''replicas'')))"

definition object_name :: "string \<Rightarrow> string \<Rightarrow> string \<Rightarrow> string \<Rightarrow> ParsedName" where
  "object_name kind namespace name delimiter =
     \<lparr>pn_Original = kind @ delimiter @ namespace @ delimiter @ name @ delimiter @ ''1'',
      pn_Kind = kind, pn_Namespace = namespace, pn_Name = name, pn_Replicas = 1\<rparr>"

definition DeploymentName :: "Workload \<Rightarrow> string \<Rightarrow> ParsedName" where
  "DeploymentName d delimiter = object_name ''deployment'' (wl_Namespace d) (wl_Name d) delimiter"

definition StatefulSetName :: "Workload \<Rightarrow> string \<Rightarrow> ParsedName" where
  "StatefulSetName ss delimiter = object_name ''statefulset'' (wl_Namespace ss) (wl_Name ss) delimiter"

definition KindCNPGCluster :: string where "KindCNPGCluster = ''cnpgcluster''"

definition ClusterName :: "string \<Rightarrow> string \<Rightarrow> string \<Rightarrow> ParsedName" where
  "ClusterName namespace name delimiter = object_name KindCNPGCluster namespace name delimiter"

section \<open>Configuration\<close>

definition sablierConfigPrefix :: string where "sablierConfigPrefix = ''sablier.''"
definition sablierPublicPrefix :: string where "sablierPublicPrefix = ''sablierapp.dev/''"

definition enableSelectors :: "string list" where
  "enableSelectors = [sablierPublicPrefix @ ''enable=true'', LabelEnable @ ''=true'']"

fun copyPublicKeys :: "labels \<Rightarrow> labels \<Rightarrow> labels" where
  "copyPublicKeys dst [] = dst"
| "copyPublicKeys dst ((k, v) # src) =
     (case CutPrefix k sablierPublicPrefix of
        (name, True) \<Rightarrow> copyPublicKeys (map_put (sablierConfigPrefix @ name) v dst) src
      | (name, False) \<Rightarrow> copyPublicKeys dst src)"

fun copy_annotations :: "labels \<Rightarrow> labels \<Rightarrow> labels" where
  "copy_annotations merged [] = merged"
| "copy_annotations merged ((k, v) # annotations) =
     copy_annotations (if snd (CutPrefix k sablierConfigPrefix) then map_put k v merged else merged) annotations"

definition sablierConfig :: "labels \<Rightarrow> labels \<Rightarrow> labels" where
  "sablierConfig labels annotations =
     copyPublicKeys (copy_annotations (copyPublicKeys labels labels) annotations) annotations"

text \<open>The inner loop of \<open>listEnabled\<close>: the items not seen yet.\<close>

fun keep_new :: "('a \<Rightarrow> string) \<Rightarrow> 'a list \<Rightarrow> string list \<Rightarrow> 'a list \<times> string list" where
  "keep_new key [] seen = ([], seen)"
| "keep_new key (x # xs) seen =
     (if key x \<in> set seen then keep_new key xs seen
      else let (items, seen) = keep_new key xs (key x # seen) in (x # items, seen))"

fun list_selectors :: "('a \<Rightarrow> string) \<Rightarrow> (string \<Rightarrow> goerror + 'a list) \<Rightarrow> string list \<Rightarrow> string list \<Rightarrow> goerror + 'a list" where
  "list_selectors key lister [] seen = Inr []"
| "list_selectors key lister (selector # selectors) seen =
     (case lister selector of
        Inl err \<Rightarrow> Inl err
      | Inr xs \<Rightarrow>
          let (items, seen) = keep_new key xs seen in
          case list_selectors key lister selectors seen of
            Inl err \<Rightarrow> Inl err
          | Inr rest \<Rightarrow> Inr (items @ rest))"

definition listEnabled :: "('a \<Rightarrow> string) \<Rightarrow> (string \<Rightarrow> goerror + 'a list) \<Rightarrow> goerror + 'a list" where
  "listEnabled key lister = list_selectors key lister enableSelectors []"

section \<open>Inspection\<close>

definition workload_ready :: "bool \<Rightarrow> int \<Rightarrow> int \<Rightarrow> bool" where
  "workload_ready firstReplica replicas readyReplicas =
     (if firstReplica then replicas \<noteq> 0 \<and> readyReplicas > 0
      else replicas \<noteq> 0 \<and> replicas = readyReplicas)"

definition first_image :: "Container list \<Rightarrow> string" where
  "first_image cs = (case cs of [] \<Rightarrow> [] | c # _ \<Rightarrow> con_Image c)"

definition workload_info :: "'k KubeProvider \<Rightarrow> ParsedName \<Rightarrow> string \<Rightarrow> Workload \<Rightarrow> InstanceInfo option" where
  "workload_info p config kind d =
     (case wl_Replicas d of
        None \<Rightarrow> None
      | Some replicas \<Rightarrow>
          let status = (if workload_ready (kp_readyOnFirstReplica p) replicas (wl_ReadyReplicas d) then InstanceStatusReady
                        else if replicas = 0 then InstanceStatusStopped else InstanceStatusStarting);
              info = zero_InstanceInfo\<lparr>i_Name := pn_Original config, i_CurrentReplicas := wl_ReadyReplicas d,
                       i_DesiredReplicas := pn_Replicas config, i_Status := status\<rparr>
          in Some ((PopulateEnabledAndGroup info (sablierConfig (wl_Labels d) (wl_Annotations d)))\<lparr>
               i_Provider := ProviderKubernetes,
               i_Kubernetes := Some \<lparr>k8s_Namespace = pn_Namespace config, k8s_Kind = kind,
                 k8s_Image = first_image (wl_Containers d), k8s_Labels = wl_Labels d\<rparr>\<rparr>))"

definition DeploymentInspect :: "'k KubeProvider \<Rightarrow> ParsedName \<Rightarrow> 'k \<Rightarrow> (goerror + InstanceInfo) option" where
  "DeploymentInspect p config k =
     (case ac_Get (kp_Deployments p) (pn_Namespace config) (pn_Name config) k of
        Inl err \<Rightarrow> Some (Inl (ErrWrap ''error getting deployment'' err))
      | Inr d \<Rightarrow> map_option Inr (workload_info p config ''deployment'' d))"

definition StatefulSetInspect :: "'k KubeProvider \<Rightarrow> ParsedName \<Rightarrow> 'k \<Rightarrow> (goerror + InstanceInfo) option" where
  "StatefulSetInspect p config k =
     (case ac_Get (kp_StatefulSets p) (pn_Namespace config) (pn_Name config) k of
        Inl err \<Rightarrow> Some (Inl err)
      | Inr ss \<Rightarrow> map_option Inr (workload_info p config ''statefulset'' ss))"

definition cnpgHibernationAnnotation :: string where "cnpgHibernationAnnotation = ''cnpg.io/hibernation''"
definition cnpgHibernationOn :: string where "cnpgHibernationOn = ''on''"
definition cnpgHibernationOff :: string where "cnpgHibernationOff = ''off''"

definition no_dynamic :: goerror where
  "no_dynamic = ErrText ''cnpgcluster support requires a dynamic client, none configured''"

definition ClusterInspect :: "'k KubeProvider \<Rightarrow> ParsedName \<Rightarrow> 'k \<Rightarrow> goerror + InstanceInfo" where
  "ClusterInspect p config k =
     (case kp_dynamic p of
        None \<Rightarrow> Inl no_dynamic
      | Some dyn \<Rightarrow>
     (case dc_GetCluster dyn (pn_Namespace config) (pn_Name config) k of
        Inl err \<Rightarrow> Inl (ErrWrap ''error getting cnpg cluster'' err)
      | Inr u \<Rightarrow>
          let instances = (if cl_Instances u = 0 then 1 else cl_Instances u);
              hibernation = label_value (cl_Annotations u) cnpgHibernationAnnotation;
              status = (if hibernation = cnpgHibernationOn then InstanceStatusStopped
                        else if cl_ReadyInstances u \<ge> instances then InstanceStatusReady
                        else InstanceStatusStarting);
              info = zero_InstanceInfo\<lparr>i_Name := pn_Original config, i_CurrentReplicas := int32 (cl_ReadyInstances u),
                       i_DesiredReplicas := pn_Replicas config, i_Status := status, i_Provider := ProviderKubernetes\<rparr>
          in Inr ((PopulateEnabledAndGroup info (sablierConfig (cl_Labels u) (cl_Annotations u)))\<lparr>
               i_Kubernetes := Some \<lparr>k8s_Namespace = pn_Namespace config, k8s_Kind = KindCNPGCluster,
                 k8s_Image = cl_ImageName u, k8s_Labels = cl_Labels u\<rparr>\<rparr>)))"

definition kube_InstanceInspect :: "'k KubeProvider \<Rightarrow> string \<Rightarrow> 'k \<Rightarrow> (goerror + InstanceInfo) option" where
  "kube_InstanceInspect p name k =
     (case ParseName name (kp_delimiter p) of
        Inl err \<Rightarrow> Some (Inl err)
      | Inr parsed \<Rightarrow>
          if pn_Kind parsed = ''deployment'' then DeploymentInspect p parsed k
          else if pn_Kind parsed = ''statefulset'' then StatefulSetInspect p parsed k
          else if pn_Kind parsed = KindCNPGCluster then Some (ClusterInspect p parsed k)
          else Some (Inl (ErrText (''unsupported kind '' @ quoted (pn_Kind parsed) @ '' must be one of '' @
            quoted ''deployment'' @ '', '' @ quoted ''statefulset'' @ '', '' @ quoted ''cnpgcluster''))))"

section \<open>Scaling\<close>

definition apps :: "'k KubeProvider \<Rightarrow> string \<Rightarrow> 'k apps_client option" where
  "apps p kind =
     (if kind = ''deployment'' then Some (kp_Deployments p)
      else if kind = ''statefulset'' then Some (kp_StatefulSets p) else None)"

definition scale :: "'k KubeProvider \<Rightarrow> ParsedName \<Rightarrow> int \<Rightarrow> 'k \<Rightarrow> goerror option \<times> 'k" where
  "scale p config replicas k =
     (case apps p (pn_Kind config) of
        None \<Rightarrow> (Some (ErrText (''unsupported kind '' @ quoted (pn_Kind config) @ '' must be one of '' @
          quoted ''deployment'' @ '', '' @ quoted ''statefulset'')), k)
      | Some workload \<Rightarrow>
          (case ac_GetScale workload (pn_Namespace config) (pn_Name config) k of
             Inl err \<Rightarrow> (Some err, k)
           | Inr s \<Rightarrow> ac_UpdateScale workload (pn_Namespace config) (pn_Name config) (s\<lparr>sca_Replicas := replicas\<rparr>) k))"

definition add_limit :: "'k KubeProvider \<Rightarrow> string \<Rightarrow> string \<Rightarrow> string \<Rightarrow> (string, string) gomap \<Rightarrow>
    goerror + (string, string) gomap" where
  "add_limit p what resource value limits =
     (if value = [] then Inr limits
      else case kp_ParseQuantity p value of
        Inl err \<Rightarrow> Inl (ErrWrap (''invalid '' @ what @ '' value '' @ quoted value) err)
      | Inr q \<Rightarrow> Inr (map_put resource q limits))"

definition buildResourcePatch :: "'k KubeProvider \<Rightarrow> string \<Rightarrow> string \<Rightarrow> string \<Rightarrow> goerror + ResourcePatch" where
  "buildResourcePatch p containerName cpu memory =
     (case add_limit p ''CPU'' ''cpu'' cpu [] of
        Inl err \<Rightarrow> Inl err
      | Inr limits \<Rightarrow>
     (case add_limit p ''memory'' ''memory'' memory limits of
        Inl err \<Rightarrow> Inl err
      | Inr limits \<Rightarrow> Inr \<lparr>rp_Container = containerName, rp_Limits = limits\<rparr>))"

definition scale_workload_resources :: "'k KubeProvider \<Rightarrow> string \<Rightarrow> 'k apps_client \<Rightarrow> ParsedName \<Rightarrow> string \<Rightarrow> string \<Rightarrow>
    'k \<Rightarrow> goerror option \<times> 'k" where
  "scale_workload_resources p kind client config cpu memory k =
     (case ac_Get client (pn_Namespace config) (pn_Name config) k of
        Inl err \<Rightarrow> (Some (ErrWrap (''cannot get '' @ kind) err), k)
      | Inr d \<Rightarrow>
     (case wl_Containers d of
        [] \<Rightarrow> (Some (ErrText (kind @ '' '' @ pn_Namespace config @ ''/'' @ pn_Name config @ '' has no containers'')), k)
      | c # cs \<Rightarrow>
     (case buildResourcePatch p (con_Name c) cpu memory of
        Inl err \<Rightarrow> (Some err, k)
      | Inr patchData \<Rightarrow>
     (case ac_Patch client (pn_Namespace config) (pn_Name config) patchData k of
        (Some err, k) \<Rightarrow> (Some (ErrWrap (''cannot patch '' @ kind @ '' resources'') err), k)
      | (None, k) \<Rightarrow> (None, k)))))"

definition scaleDeploymentResources :: "'k KubeProvider \<Rightarrow> ParsedName \<Rightarrow> string \<Rightarrow> string \<Rightarrow> 'k \<Rightarrow> goerror option \<times> 'k" where
  "scaleDeploymentResources p = scale_workload_resources p ''deployment'' (kp_Deployments p)"

definition scaleStatefulSetResources :: "'k KubeProvider \<Rightarrow> ParsedName \<Rightarrow> string \<Rightarrow> string \<Rightarrow> 'k \<Rightarrow> goerror option \<times> 'k" where
  "scaleStatefulSetResources p = scale_workload_resources p ''statefulset'' (kp_StatefulSets p)"

definition scaleResources :: "'k KubeProvider \<Rightarrow> ParsedName \<Rightarrow> string \<Rightarrow> string \<Rightarrow> 'k \<Rightarrow> goerror option \<times> 'k" where
  "scaleResources p config cpu memory k =
     (if pn_Kind config = ''deployment'' then scaleDeploymentResources p config cpu memory k
      else if pn_Kind config = ''statefulset'' then scaleStatefulSetResources p config cpu memory k
      else (Some (ErrText (''unsupported kind '' @ quoted (pn_Kind config) @ '' for resource scaling'')), k))"

definition getWorkloadLabels :: "'k KubeProvider \<Rightarrow> ParsedName \<Rightarrow> 'k \<Rightarrow> goerror + labels" where
  "getWorkloadLabels p config k =
     (case apps p (pn_Kind config) of
        None \<Rightarrow> Inl (ErrText (''unsupported kind '' @ quoted (pn_Kind config)))
      | Some client \<Rightarrow>
          (case ac_Get client (pn_Namespace config) (pn_Name config) k of
             Inl err \<Rightarrow> Inl err
           | Inr d \<Rightarrow> Inr (sablierConfig (wl_Labels d) (wl_Annotations d))))"

section \<open>Operators\<close>

definition clusterHibernate :: "'k KubeProvider \<Rightarrow> ParsedName \<Rightarrow> bool \<Rightarrow> 'k \<Rightarrow> goerror option \<times> 'k" where
  "clusterHibernate p config hibernate k =
     (case kp_dynamic p of
        None \<Rightarrow> (Some no_dynamic, k)
      | Some dyn \<Rightarrow>
          let v = (if hibernate then cnpgHibernationOn else cnpgHibernationOff) in
          case dc_PatchCluster dyn (pn_Namespace config) (pn_Name config) (cnpgHibernationAnnotation, Some v) k of
            (Some err, k) \<Rightarrow> (Some (ErrWrap (''cannot set hibernation='' @ v @ '' on cnpg cluster '' @
              pn_Namespace config @ ''/'' @ pn_Name config) err), k)
          | (None, k) \<Rightarrow> (None, k))"

definition redisGroup :: string where "redisGroup = ''redis.redis.opstreelabs.in''"
definition redisOperatorSkipReconcileAnnotation :: string where
  "redisOperatorSkipReconcileAnnotation = ''redis.opstreelabs.in/skip-reconcile''"

definition apiVersionGroup :: "string \<Rightarrow> string" where
  "apiVersionGroup apiVersion = takeWhile (\<lambda>c. c \<noteq> CHR ''/'') apiVersion"

fun redis_owner :: "OwnerReference list \<Rightarrow> string option" where
  "redis_owner [] = None"
| "redis_owner (ref # refs) =
     (if or_Controller ref = Some True \<and> or_Kind ref = ''Redis'' \<and> apiVersionGroup (or_APIVersion ref) = redisGroup
      then Some (or_Name ref) else redis_owner refs)"

definition redisOperatorOwner :: "Workload \<Rightarrow> string option" where
  "redisOperatorOwner ss = redis_owner (wl_OwnerReferences ss)"

definition setRedisOperatorSkipReconcile :: "'k KubeProvider \<Rightarrow> Workload \<Rightarrow> bool \<Rightarrow> 'k \<Rightarrow> 'k" where
  "setRedisOperatorSkipReconcile p ss skip k =
     (case kp_dynamic p of
        None \<Rightarrow> k
      | Some dyn \<Rightarrow>
          (case redisOperatorOwner ss of
             None \<Rightarrow> k
           | Some owner \<Rightarrow>
               snd (dc_PatchRedis dyn (wl_Namespace ss) owner
                 (redisOperatorSkipReconcileAnnotation, if skip then Some ''true'' else None) k)))"

section \<open>Starting and stopping\<close>

definition kube_InstanceDependencies :: "'k KubeProvider \<Rightarrow> string \<Rightarrow> 'k \<Rightarrow> goerror + InstanceDependency list" where
  "kube_InstanceDependencies p name k = Inr []"

definition activeReplicas :: "ScaleConfig \<Rightarrow> labels \<Rightarrow> ParsedName \<Rightarrow> int" where
  "activeReplicas sc labels parsed =
     (if map_of labels ''sablier.active.replicas'' \<noteq> None then Replicas (Active sc)
      else if pn_Replicas parsed > 1 then pn_Replicas parsed
      else Replicas (Active sc))"

text \<open>A profile applied: the replicas, then the CPU and memory limits it sets.\<close>

definition apply_profile :: "'k KubeProvider \<Rightarrow> ParsedName \<Rightarrow> int \<Rightarrow> ResourceProfile \<Rightarrow> 'k \<Rightarrow> goerror option \<times> 'k" where
  "apply_profile p parsed replicas profile k =
     (case scale p parsed replicas k of
        (Some err, k) \<Rightarrow> (Some err, k)
      | (None, k) \<Rightarrow>
          if CPU profile \<noteq> [] \<or> Memory profile \<noteq> [] then scaleResources p parsed (CPU profile) (Memory profile) k
          else (None, k))"

definition kube_start :: "'k KubeProvider \<Rightarrow> ParsedName \<Rightarrow> 'k \<Rightarrow> goerror option \<times> 'k" where
  "kube_start p parsed k =
     (case getWorkloadLabels p parsed k of
        Inl err \<Rightarrow> (Some err, k)
      | Inr labels \<Rightarrow>
          let sc = ScaleConfigFromLabels labels;
              replicas = activeReplicas sc labels parsed in
          if Replicas (Idle sc) \<ge> 1 \<or> replicas > 1 \<or> CPU (Active sc) \<noteq> [] \<or> Memory (Active sc) \<noteq> []
          then apply_profile p parsed replicas (Active sc) k
          else scale p parsed replicas k)"

definition kube_InstanceStart :: "'k KubeProvider \<Rightarrow> string \<Rightarrow> 'k \<Rightarrow> goerror option \<times> 'k" where
  "kube_InstanceStart p name k =
     (case ParseName name (kp_delimiter p) of
        Inl err \<Rightarrow> (Some err, k)
      | Inr parsed \<Rightarrow>
          if pn_Kind parsed = KindCNPGCluster then clusterHibernate p parsed False k
          else
            case kube_start p parsed k of
              (None, k) \<Rightarrow>
                (None,
                 if pn_Kind parsed = ''statefulset'' then
                   case ac_Get (kp_StatefulSets p) (pn_Namespace parsed) (pn_Name parsed) k of
                     Inl fetchErr \<Rightarrow> k
                   | Inr ss \<Rightarrow> setRedisOperatorSkipReconcile p ss False k
                 else k)
            | (Some err, k) \<Rightarrow> (Some err, k))"

definition stop_redis :: "'k KubeProvider \<Rightarrow> ParsedName \<Rightarrow> Workload \<Rightarrow> 'k \<Rightarrow> goerror option \<times> 'k" where
  "stop_redis p parsed ss k =
     (case scale p parsed 0 (setRedisOperatorSkipReconcile p ss True k) of
        (Some err, k) \<Rightarrow> (Some err, setRedisOperatorSkipReconcile p ss False k)
      | (None, k) \<Rightarrow> (None, k))"

definition kube_InstanceStop :: "'k KubeProvider \<Rightarrow> string \<Rightarrow> 'k \<Rightarrow> goerror option \<times> 'k" where
  "kube_InstanceStop p name k =
     (case ParseName name (kp_delimiter p) of
        Inl err \<Rightarrow> (Some err, k)
      | Inr parsed \<Rightarrow>
          if pn_Kind parsed = KindCNPGCluster then clusterHibernate p parsed True k
          else
            case getWorkloadLabels p parsed k of
              Inl err \<Rightarrow> (Some err, k)
            | Inr labels \<Rightarrow>
                let sc = ScaleConfigFromLabels labels in
                if Replicas (Idle sc) \<ge> 1 then apply_profile p parsed (Replicas (Idle sc)) (Idle sc) k
                else if pn_Kind parsed = ''statefulset'' then
                  case ac_Get (kp_StatefulSets p) (pn_Namespace parsed) (pn_Name parsed) k of
                    Inl fetchErr \<Rightarrow> scale p parsed 0 k
                  | Inr ss \<Rightarrow> if redisOperatorOwner ss \<noteq> None then stop_redis p parsed ss k else scale p parsed 0 k
                else scale p parsed 0 k)"

section \<open>Listing\<close>

definition to_instance :: "labels \<Rightarrow> ParsedName \<Rightarrow> InstanceConfiguration" where
  "to_instance config parsed =
     (let enabled = label_value config LabelEnable in
      \<lparr>c_Name = pn_Original parsed,
       c_Groups = (if enabled = ''true'' then ParseGroups (label_value config LabelGroup) else []),
       c_Enabled = enabled\<rparr>)"

definition workload_key :: "Workload \<Rightarrow> string" where
  "workload_key d = wl_Namespace d @ ''/'' @ wl_Name d"

definition cluster_key :: "Cluster \<Rightarrow> string" where
  "cluster_key u = cl_Namespace u @ ''/'' @ cl_Name u"

definition workload_config :: "Workload \<Rightarrow> labels" where
  "workload_config d = sablierConfig (wl_Labels d) (wl_Annotations d)"

definition cluster_config :: "Cluster \<Rightarrow> labels" where
  "cluster_config u = sablierConfig (cl_Labels u) (cl_Annotations u)"

definition isRunning :: "Workload \<Rightarrow> bool" where
  "isRunning d \<longleftrightarrow> wl_Replicas d = None \<or> wl_Replicas d \<noteq> Some 0"

definition clusterIsRunning :: "Cluster \<Rightarrow> bool" where
  "clusterIsRunning u \<longleftrightarrow> label_value (cl_Annotations u) cnpgHibernationAnnotation \<noteq> cnpgHibernationOn"

definition listDeployments :: "'k KubeProvider \<Rightarrow> 'k \<Rightarrow> goerror + Workload list" where
  "listDeployments p k = listEnabled workload_key (\<lambda>selector. ac_List (kp_Deployments p) selector k)"

definition listStatefulSets :: "'k KubeProvider \<Rightarrow> 'k \<Rightarrow> goerror + Workload list" where
  "listStatefulSets p k = listEnabled workload_key (\<lambda>selector. ac_List (kp_StatefulSets p) selector k)"

definition listClusters :: "'k KubeProvider \<Rightarrow> 'k \<Rightarrow> goerror + Cluster list" where
  "listClusters p k =
     (case kp_dynamic p of
        None \<Rightarrow> Inr []
      | Some dyn \<Rightarrow>
          (case listEnabled cluster_key (\<lambda>selector. dc_ListClusters dyn selector k) of
             Inl err \<Rightarrow> if kp_IsNotFound p err then Inr [] else Inl err
           | Inr items \<Rightarrow> Inr items))"

definition deploymentToInstance :: "'k KubeProvider \<Rightarrow> Workload \<Rightarrow> InstanceConfiguration" where
  "deploymentToInstance p d = to_instance (workload_config d) (DeploymentName d (kp_delimiter p))"

definition statefulSetToInstance :: "'k KubeProvider \<Rightarrow> Workload \<Rightarrow> InstanceConfiguration" where
  "statefulSetToInstance p ss = to_instance (workload_config ss) (StatefulSetName ss (kp_delimiter p))"

definition clusterToInstance :: "'k KubeProvider \<Rightarrow> Cluster \<Rightarrow> InstanceConfiguration" where
  "clusterToInstance p u = to_instance (cluster_config u) (ClusterName (cl_Namespace u) (cl_Name u) (kp_delimiter p))"

definition DeploymentList :: "'k KubeProvider \<Rightarrow> bool \<Rightarrow> 'k \<Rightarrow> goerror + InstanceConfiguration list" where
  "DeploymentList p all k =
     map_sum id (\<lambda>ds. map (deploymentToInstance p) (filter (\<lambda>d. all \<or> isRunning d) ds)) (listDeployments p k)"

definition StatefulSetList :: "'k KubeProvider \<Rightarrow> bool \<Rightarrow> 'k \<Rightarrow> goerror + InstanceConfiguration list" where
  "StatefulSetList p all k =
     map_sum id (\<lambda>ds. map (statefulSetToInstance p) (filter (\<lambda>d. all \<or> isRunning d) ds)) (listStatefulSets p k)"

definition ClusterList :: "'k KubeProvider \<Rightarrow> bool \<Rightarrow> 'k \<Rightarrow> goerror + InstanceConfiguration list" where
  "ClusterList p all k =
     map_sum id (\<lambda>us. map (clusterToInstance p) (filter (\<lambda>u. all \<or> clusterIsRunning u) us)) (listClusters p k)"

definition kube_InstanceList :: "'k KubeProvider \<Rightarrow> bool \<Rightarrow> 'k \<Rightarrow> goerror + InstanceConfiguration list" where
  "kube_InstanceList p all k =
     (case DeploymentList p all k of
        Inl err \<Rightarrow> Inl err
      | Inr deployments \<Rightarrow>
     (case StatefulSetList p all k of
        Inl err \<Rightarrow> Inl err
      | Inr statefulSets \<Rightarrow>
     (case ClusterList p all k of
        Inl err \<Rightarrow> Inl err
      | Inr clusters \<Rightarrow> Inr ((deployments @ statefulSets) @ clusters))))"

fun object_groups :: "('a \<Rightarrow> labels) \<Rightarrow> ('a \<Rightarrow> ParsedName) \<Rightarrow> 'a list \<Rightarrow> registry \<Rightarrow> registry" where
  "object_groups config name [] groups = groups"
| "object_groups config name (d # ds) groups =
     object_groups config name ds
       (group_append (pn_Original (name d)) (ParseGroups (label_value (config d) LabelGroup)) groups)"

definition DeploymentGroups :: "'k KubeProvider \<Rightarrow> 'k \<Rightarrow> goerror + registry" where
  "DeploymentGroups p k =
     map_sum id (\<lambda>ds. object_groups workload_config (\<lambda>d. DeploymentName d (kp_delimiter p)) ds []) (listDeployments p k)"

definition StatefulSetGroups :: "'k KubeProvider \<Rightarrow> 'k \<Rightarrow> goerror + registry" where
  "StatefulSetGroups p k =
     map_sum id (\<lambda>ds. object_groups workload_config (\<lambda>d. StatefulSetName d (kp_delimiter p)) ds []) (listStatefulSets p k)"

definition ClusterGroups :: "'k KubeProvider \<Rightarrow> 'k \<Rightarrow> goerror + registry" where
  "ClusterGroups p k =
     map_sum id (\<lambda>us. object_groups cluster_config (\<lambda>u. ClusterName (cl_Namespace u) (cl_Name u) (kp_delimiter p)) us [])
       (listClusters p k)"

fun merge_groups :: "registry \<Rightarrow> registry \<Rightarrow> registry" where
  "merge_groups groups [] = groups"
| "merge_groups groups ((grp, instances) # rest) =
     merge_groups (map_put grp (map_list groups grp @ instances) groups) rest"

definition kube_InstanceGroups :: "'k KubeProvider \<Rightarrow> 'k \<Rightarrow> goerror + registry" where
  "kube_InstanceGroups p k =
     (case DeploymentGroups p k of
        Inl err \<Rightarrow> Inl err
      | Inr deployments \<Rightarrow>
     (case StatefulSetGroups p k of
        Inl err \<Rightarrow> Inl err
      | Inr statefulSets \<Rightarrow>
     (case ClusterGroups p k of
        Inl err \<Rightarrow> Inl err
      | Inr clusters \<Rightarrow> Inr (merge_groups (merge_groups deployments statefulSets) clusters))))"

section \<open>Events\<close>

text \<open>
  What an informer hands to a handler: the object, the tombstone of an object whose deletion was
  missed, or something else. A handler returns the events it sends.
\<close>

datatype 'o informer_object = Object 'o | Tombstone "'o option" | Unknown

fun eventObject :: "'o informer_object \<Rightarrow> 'o option" where
  "eventObject (Object t) = Some t"
| "eventObject (Tombstone t) = t"
| "eventObject Unknown = None"

definition replicasOf :: "int option \<Rightarrow> int" where
  "replicasOf replicas = (case replicas of None \<Rightarrow> 1 | Some r \<Rightarrow> r)"

definition kube_bare_info :: "string \<Rightarrow> InstanceStatus \<Rightarrow> InstanceInfo" where
  "kube_bare_info name status = zero_InstanceInfo\<lparr>i_Name := name, i_Status := status, i_Provider := ProviderKubernetes\<rparr>"

text \<open>The event with what an inspection shows, or bare information; \<open>None\<close> if the inspection panics.\<close>

definition kube_event :: "'k KubeProvider \<Rightarrow> 'k \<Rightarrow> InstanceEventType \<Rightarrow> ParsedName \<Rightarrow> InstanceStatus \<Rightarrow>
    InstanceEvent list option" where
  "kube_event p k type parsed status =
     map_option (\<lambda>r. [\<lparr>ev_Type = type,
       ev_Info = (case r of Inl err \<Rightarrow> kube_bare_info (pn_Original parsed) status | Inr info \<Rightarrow> info)\<rparr>])
     (kube_InstanceInspect p (pn_Original parsed) k)"

definition add_handler :: "('o \<Rightarrow> ParsedName) \<Rightarrow> 'k KubeProvider \<Rightarrow> InstanceEventType list \<Rightarrow> 'k \<Rightarrow> 'o informer_object \<Rightarrow>
    InstanceEvent list option" where
  "add_handler name p types k obj =
     (if \<not> wants types InstanceEventCreated then Some []
      else case eventObject obj of
        None \<Rightarrow> Some []
      | Some d \<Rightarrow> kube_event p k InstanceEventCreated (name d) InstanceStatusUnset)"

text \<open>
  An update, given whether the object is running: an event is sent when it stops or starts.
\<close>

definition update_handler :: "('o \<Rightarrow> ParsedName) \<Rightarrow> ('o \<Rightarrow> string) \<Rightarrow> ('o \<Rightarrow> bool) \<Rightarrow> 'k KubeProvider \<Rightarrow>
    InstanceEventType list \<Rightarrow> 'k \<Rightarrow> 'o informer_object \<Rightarrow> 'o informer_object \<Rightarrow> InstanceEvent list option" where
  "update_handler name version running p types k old new =
     (case eventObject new of
        None \<Rightarrow> Some []
      | Some newObject \<Rightarrow>
     (case eventObject old of
        None \<Rightarrow> Some []
      | Some oldObject \<Rightarrow>
          if version newObject = version oldObject then Some []
          else if wants types InstanceEventStopped \<and> running oldObject \<and> \<not> running newObject
          then kube_event p k InstanceEventStopped (name newObject) InstanceStatusStopped
          else if wants types InstanceEventStarted \<and> \<not> running oldObject \<and> running newObject
          then kube_event p k InstanceEventStarted (name newObject) InstanceStatusStarting
          else Some []))"

definition delete_handler :: "('o \<Rightarrow> InstanceInfo) \<Rightarrow> InstanceEventType list \<Rightarrow> 'o informer_object \<Rightarrow> InstanceEvent list" where
  "delete_handler deleted types obj =
     (if \<not> wants types InstanceEventRemoved \<and> \<not> wants types InstanceEventStopped then []
      else case eventObject obj of
        None \<Rightarrow> []
      | Some d \<Rightarrow>
          (if wants types InstanceEventRemoved then [\<lparr>ev_Type = InstanceEventRemoved, ev_Info = deleted d\<rparr>] else []) @
          (if wants types InstanceEventStopped then [\<lparr>ev_Type = InstanceEventStopped, ev_Info = deleted d\<rparr>] else []))"

definition deleted_info :: "ParsedName \<Rightarrow> string \<Rightarrow> string \<Rightarrow> labels \<Rightarrow> labels \<Rightarrow> InstanceInfo" where
  "deleted_info parsed namespace img labels annotations =
     PopulateEnabledAndGroup
       (zero_InstanceInfo\<lparr>i_Name := pn_Original parsed, i_Status := InstanceStatusStopped, i_Provider := ProviderKubernetes,
          i_Kubernetes := Some \<lparr>k8s_Namespace = namespace, k8s_Kind = pn_Kind parsed, k8s_Image = img, k8s_Labels = labels\<rparr>\<rparr>)
       (sablierConfig labels annotations)"

definition deleted_workload :: "ParsedName \<Rightarrow> Workload \<Rightarrow> InstanceInfo" where
  "deleted_workload parsed d =
     deleted_info parsed (wl_Namespace d) (first_image (wl_Containers d)) (wl_Labels d) (wl_Annotations d)"

definition deleted_cluster :: "ParsedName \<Rightarrow> Cluster \<Rightarrow> InstanceInfo" where
  "deleted_cluster parsed u = deleted_info parsed (cl_Namespace u) (cl_ImageName u) (cl_Labels u) (cl_Annotations u)"

datatype 'o informer_event = AddFunc "'o informer_object" | UpdateFunc "'o informer_object" "'o informer_object"
  | DeleteFunc "'o informer_object"

definition deploymentEventHandler :: "'k KubeProvider \<Rightarrow> InstanceEventType list \<Rightarrow> 'k \<Rightarrow> Workload informer_event \<Rightarrow>
    InstanceEvent list option" where
  "deploymentEventHandler p types k e =
     (let name = (\<lambda>d. DeploymentName d (kp_delimiter p)) in
      case e of
        AddFunc obj \<Rightarrow> add_handler name p types k obj
      | UpdateFunc old new \<Rightarrow>
          update_handler name wl_ResourceVersion (\<lambda>d. replicasOf (wl_Replicas d) \<noteq> 0) p types k old new
      | DeleteFunc obj \<Rightarrow> Some (delete_handler (\<lambda>d. deleted_workload (name d) d) types obj))"

definition statefulSetEventHandler :: "'k KubeProvider \<Rightarrow> InstanceEventType list \<Rightarrow> 'k \<Rightarrow> Workload informer_event \<Rightarrow>
    InstanceEvent list option" where
  "statefulSetEventHandler p types k e =
     (let name = (\<lambda>d. StatefulSetName d (kp_delimiter p)) in
      case e of
        AddFunc obj \<Rightarrow> add_handler name p types k obj
      | UpdateFunc old new \<Rightarrow>
          update_handler name wl_ResourceVersion (\<lambda>d. replicasOf (wl_Replicas d) \<noteq> 0) p types k old new
      | DeleteFunc obj \<Rightarrow> Some (delete_handler (\<lambda>d. deleted_workload (name d) d) types obj))"

definition watchClusters :: "'k KubeProvider \<Rightarrow> InstanceEventType list \<Rightarrow> 'k \<Rightarrow> Cluster informer_event \<Rightarrow>
    InstanceEvent list option" where
  "watchClusters p types k e =
     (let name = (\<lambda>u. ClusterName (cl_Namespace u) (cl_Name u) (kp_delimiter p)) in
      case e of
        AddFunc obj \<Rightarrow> add_handler name p types k obj
      | UpdateFunc old new \<Rightarrow> update_handler name cl_ResourceVersion clusterIsRunning p types k old new
      | DeleteFunc obj \<Rightarrow> Some (delete_handler (\<lambda>u. deleted_cluster (name u) u) types obj))"

definition clusterCRDInstalled :: "'k KubeProvider \<Rightarrow> 'k \<Rightarrow> bool" where
  "clusterCRDInstalled p k =
     (case kp_dynamic p of
        None \<Rightarrow> False
      | Some dyn \<Rightarrow>
          (case kp_ServerResources p k of
             Inl err \<Rightarrow> \<not> kp_IsNotFound p err
           | Inr resources \<Rightarrow> ''clusters'' \<in> set resources))"

section \<open>The provider\<close>

definition kube_ops :: "'k KubeProvider \<Rightarrow> 'k provider_ops" where
  "kube_ops p =
     \<lparr>p_Start = kube_InstanceStart p, p_Stop = kube_InstanceStop p,
      p_Inspect = (\<lambda>name k. no_panic (kube_InstanceInspect p name k)),
      p_Groups = (\<lambda>k. map_sum id Some (kube_InstanceGroups p k)),
      p_List = kube_InstanceList p,
      p_Dependencies = kube_InstanceDependencies p\<rparr>"

end
