(* ===== verification/Kubernetes_Facts.thy ===== *)
theory Kubernetes_Facts
  imports Kubernetes
begin

text \<open>
  Properties of the Kubernetes provider: names are read back, configuration keys have a fixed
  precedence, listings have no duplicates and agree with the groups, and starting and stopping set
  the replica count on an API server that behaves as documented (\<open>kube_api\<close>).
\<close>

section \<open>Names\<close>

lemma digits_val_append: "digits_val acc (xs @ ys) = (case digits_val acc xs of None \<Rightarrow> None | Some a \<Rightarrow> digits_val a ys)"
  by (induction xs arbitrary: acc) (auto split: option.splits)

lemma digits_val_nat_text: "digits_val 0 (nat_text n) = Some (int n)"
proof (induction n rule: nat_text.induct)
  case (1 n)
  show ?case
  proof (cases "n < 10")
    case True
    then show ?thesis by (simp add: nat_text.simps [of n])
  next
    case False
    have "digit (digit_char (int (n mod 10))) = Some (int (n mod 10))" by (rule digit_digit_char) auto
    moreover have "10 * int (n div 10) + int (n mod 10) = int n"
      by (metis mult_div_mod_eq of_nat_add of_nat_mult of_nat_numeral)
    ultimately show ?thesis using False 1 by (simp add: nat_text.simps [of n] digits_val_append)
  qed
qed

lemma nat_text_digits: "c \<in> set (nat_text n) \<Longrightarrow> digit c \<noteq> None"
proof (induction n rule: nat_text.induct)
  case (1 n)
  have "digit (digit_char (int (n mod 10))) = Some (int (n mod 10))" by (rule digit_digit_char) auto
  with 1 show ?case by (cases "n < 10") (auto simp: nat_text.simps [of n])
qed

lemma nat_text_not_Nil: "nat_text n \<noteq> []"
  by (simp add: nat_text.simps [of n])

lemma Atoi_int_text:
  assumes "- (2 ^ 63) \<le> n" "n < 2 ^ 63"
  shows "Atoi (int_text n) = Some n"
proof -
  have sign: "c \<noteq> CHR ''-'' \<and> c \<noteq> CHR ''+''" if "c \<in> set (nat_text m)" for c m
    using nat_text_digits [OF that] by (auto simp: digit_def)
  show ?thesis
  proof (cases "n < 0")
    case True
    then show ?thesis using assms digits_val_nat_text [of "nat (- n)"] nat_text_not_Nil
      by (simp add: Atoi_def ParseInt_def int_text_def Let_def)
  next
    case False
    obtain c cs where c: "nat_text (nat n) = c # cs" using nat_text_not_Nil by (meson neq_Nil_conv)
    with sign [of c "nat n"] have "c \<noteq> CHR ''-''" "c \<noteq> CHR ''+''" by auto
    then show ?thesis using False assms digits_val_nat_text [of "nat n"] c
      by (simp add: Atoi_def ParseInt_def int_text_def Let_def)
  qed
qed

lemma SplitStr_last: "sep \<noteq> [] \<Longrightarrow> hd sep \<notin> set s \<Longrightarrow> SplitStr sep s = [s]"
proof (induction s)
  case (Cons c s)
  then have "take (length sep) (c # s) \<noteq> sep" by (cases sep) auto
  with Cons show ?case by (simp add: SplitStr.simps [of sep "c # s"])
qed (simp add: SplitStr.simps)

lemma SplitStr_first: "sep \<noteq> [] \<Longrightarrow> hd sep \<notin> set p \<Longrightarrow> SplitStr sep (p @ sep @ s) = p # SplitStr sep s"
proof (induction p)
  case Nil
  then obtain c cs where "sep = c # cs" by (cases sep) auto
  then show ?case by (simp add: SplitStr.simps [of "c # cs" "c # cs @ s"])
next
  case (Cons c p)
  then have "take (length sep) (c # p @ sep @ s) \<noteq> sep" by (cases sep) auto
  with Cons show ?case by (simp add: SplitStr.simps [of sep "c # p @ sep @ s"])
qed

text \<open>Names that can be told apart: the delimiter starts with a character that is in none of them.\<close>

definition separable :: "string \<Rightarrow> string list \<Rightarrow> bool" where
  "separable delimiter parts \<longleftrightarrow> delimiter \<noteq> [] \<and> list_all (\<lambda>s. hd delimiter \<notin> set s) parts"

lemma ParseName_parts:
  assumes "separable d [kind, ns, n, r]"
  shows "ParseName (kind @ d @ ns @ d @ n @ d @ r) d =
    (case Atoi r of
       None \<Rightarrow> Inl (ErrText (''strconv.Atoi: parsing '' @ quoted r @ '': invalid syntax''))
     | Some replicas \<Rightarrow> Inr \<lparr>pn_Original = kind @ d @ ns @ d @ n @ d @ r, pn_Kind = kind, pn_Namespace = ns, pn_Name = n,
         pn_Replicas = int32 replicas\<rparr>)"
  using assms by (simp add: ParseName_def separable_def SplitStr_first SplitStr_last)

lemma ParseName_object_name:
  assumes "separable d [kind, ns, n, ''1'']"
  shows "ParseName (pn_Original (object_name kind ns n d)) d = Inr (object_name kind ns n d)"
proof -
  have "Atoi ''1'' = Some 1" by (simp add: Atoi_def ParseInt_def digit_def)
  with ParseName_parts [OF assms] show ?thesis by (simp add: object_name_def int32_def)
qed



section \<open>Configuration\<close>

lemma CutPrefix_iff: "CutPrefix k p = (n, True) \<longleftrightarrow> k = p @ n"
  by (auto simp: CutPrefix_def) (metis append_take_drop_id)

lemma CutPrefix_cases:
  obtains n where "k = p @ n" "CutPrefix k p = (n, True)" | "\<forall>n. k \<noteq> p @ n" "CutPrefix k p = (k, False)"
  by (metis CutPrefix_def CutPrefix_iff)

text \<open>Reading a map and, if the key is absent, another.\<close>

definition or_else :: "'a option \<Rightarrow> 'a option \<Rightarrow> 'a option" where
  "or_else a b = (case a of None \<Rightarrow> b | Some x \<Rightarrow> Some x)"

lemma or_else_simps [simp]: "or_else None b = b" "or_else (Some x) b = Some x"
  by (simp_all add: or_else_def)

lemma copyPublicKeys_get:
  "wf_map src \<Longrightarrow> map_of (copyPublicKeys dst src) (sablierConfigPrefix @ n) =
     or_else (map_of src (sablierPublicPrefix @ n)) (map_of dst (sablierConfigPrefix @ n))"
proof (induction dst src rule: copyPublicKeys.induct)
  case (2 dst k v src)
  have wf: "wf_map src" and new: "map_of src k = None"
    using 2(3) by (auto simp: wf_map_def map_of_eq_None_iff)
  show ?case
  proof (cases rule: CutPrefix_cases [of k sablierPublicPrefix])
    case (1 m)
    with 2(1) [OF 1(2) [symmetric]] wf new show ?thesis
      by (cases "m = n") (auto simp: gomap_simps)
  next
    case notpub: 2
    with 2(2) wf show ?thesis by auto
  qed
qed simp

lemma copyPublicKeys_other:
  "\<forall>n. k \<noteq> sablierConfigPrefix @ n \<Longrightarrow> map_of (copyPublicKeys dst src) k = map_of dst k"
  by (induction dst src rule: copyPublicKeys.induct) (auto simp: gomap_simps split: prod.splits bool.splits)

lemma copy_annotations_get:
  "wf_map src \<Longrightarrow> map_of (copy_annotations dst src) k =
     (if snd (CutPrefix k sablierConfigPrefix) then or_else (map_of src k) (map_of dst k) else map_of dst k)"
proof (induction dst src rule: copy_annotations.induct)
  case (2 dst j v src)
  have wf: "wf_map src" and new: "map_of src j = None"
    using 2(2) by (auto simp: wf_map_def map_of_eq_None_iff)
  with 2(1) show ?case by (cases "j = k") (auto simp: gomap_simps)
qed (auto)

text \<open>
  Where a setting of a workload comes from. A key \<open>sablier.<name>\<close> of the merged
  configuration has the value of the annotation \<open>sablierapp.dev/<name>\<close>, or else of the annotation
  \<open>sablier.<name>\<close>, or else of the label \<open>sablierapp.dev/<name>\<close>, or else of the label
  \<open>sablier.<name>\<close>; annotations contribute no other key.
\<close>

theorem sablier_config_precedence:
  assumes wf: "wf_map labels" "wf_map annotations"
  shows "map_of (sablierConfig labels annotations) (sablierConfigPrefix @ n) =
      or_else (map_of annotations (sablierPublicPrefix @ n))
        (or_else (map_of annotations (sablierConfigPrefix @ n))
          (or_else (map_of labels (sablierPublicPrefix @ n)) (map_of labels (sablierConfigPrefix @ n)))) \<and>
    ((\<forall>m. k \<noteq> sablierConfigPrefix @ m) \<longrightarrow> map_of (sablierConfig labels annotations) k = map_of labels k)"
proof -
  have "snd (CutPrefix (sablierConfigPrefix @ n) sablierConfigPrefix)" by (simp add: CutPrefix_def)
  moreover have "\<not> snd (CutPrefix k sablierConfigPrefix)" if "\<forall>m. k \<noteq> sablierConfigPrefix @ m"
    using that by (metis CutPrefix_cases snd_conv)
  ultimately show ?thesis
    by (simp add: sablierConfig_def copyPublicKeys_get copy_annotations_get wf copyPublicKeys_other)
qed

theorem sablier_config_precedence_witness:
  "map_of (sablierConfig [(''sablier.group'', ''a''), (''sablierapp.dev/group'', ''b'')] [(''sablier.group'', ''c'')]) ''sablier.group'' = Some ''c''"
  using sablier_config_precedence [of "[(''sablier.group'', ''a''), (''sablierapp.dev/group'', ''b'')]" "[(''sablier.group'', ''c'')]" "''group''" "[]"]
  by (simp add: wf_map_def sablierConfigPrefix_def sablierPublicPrefix_def)

section \<open>Listing\<close>

lemma keep_new_spec:
  "keep_new key xs seen = (items, seen') \<Longrightarrow>
     distinct (map key items) \<and> key ` set items = key ` set xs - set seen \<and> set items \<subseteq> set xs \<and>
     set seen' = set seen \<union> key ` set xs"
proof (induction key xs seen arbitrary: items seen' rule: keep_new.induct)
  case (2 key x xs seen)
  show ?case
  proof (cases "key x \<in> set seen")
    case True
    with 2(1) [OF True, of items seen'] 2(3) show ?thesis by auto
  next
    case False
    obtain items' where k: "keep_new key xs (key x # seen) = (items', seen')" "items = x # items'"
      using 2(3) False by (auto split: prod.splits)
    from 2(2) [OF False k(1)] have I: "distinct (map key items')" "key ` set items' = key ` set xs - insert (key x) (set seen)"
      "set items' \<subseteq> set xs" "set seen' = insert (key x) (set seen) \<union> key ` set xs" by auto
    have "key x \<notin> key ` set items'" unfolding I(2) by simp
    then have "distinct (map key items)" using I(1) by (simp add: k(2))
    moreover have "key ` set items = insert (key x) (key ` set items')" by (simp add: k(2))
    then have "key ` set items = key ` set (x # xs) - set seen" unfolding I(2) using False by auto
    moreover have "set items \<subseteq> set (x # xs)" using I(3) by (auto simp: k(2))
    moreover have "set seen' = set seen \<union> key ` set (x # xs)" unfolding I(4) by auto
    ultimately show ?thesis by blast
  qed
qed auto

lemma list_selectors_spec:
  "list_selectors key lister sels seen = Inr items \<Longrightarrow>
     distinct (map key items) \<and> key ` set items \<inter> set seen = {} \<and>
     (\<forall>x\<in>set items. \<exists>s\<in>set sels. \<exists>xs. lister s = Inr xs \<and> x \<in> set xs) \<and>
     (\<forall>s\<in>set sels. \<exists>xs. lister s = Inr xs \<and> key ` set xs \<subseteq> key ` set items \<union> set seen)"
proof (induction sels arbitrary: seen items)
  case (Cons sel sels)
  from Cons.prems obtain xs where xs: "lister sel = Inr xs" by (auto split: sum.splits)
  obtain new seen' where k: "keep_new key xs seen = (new, seen')" by (cases "keep_new key xs seen")
  from Cons.prems xs k obtain rest where r: "list_selectors key lister sels seen' = Inr rest" "items = new @ rest"
    by (auto split: sum.splits)
  note K = keep_new_spec [OF k]
  have I: "distinct (map key rest)" "key ` set rest \<inter> set seen' = {}"
    "\<forall>x\<in>set rest. \<exists>s\<in>set sels. \<exists>xs. lister s = Inr xs \<and> x \<in> set xs"
    "\<forall>s\<in>set sels. \<exists>xs. lister s = Inr xs \<and> key ` set xs \<subseteq> key ` set rest \<union> set seen'"
    using Cons.IH [OF r(1)] by auto
  have keys: "key ` set items = key ` set new \<union> key ` set rest" by (simp add: r(2) image_Un)
  have "key ` set new \<inter> key ` set rest = {}" using K I(2) by blast
  then have 1: "distinct (map key items)" using K I(1) by (simp add: r(2))
  have 2: "key ` set items \<inter> set seen = {}" unfolding keys using K I(2) by blast
  have 3: "\<forall>x\<in>set items. \<exists>s\<in>set (sel # sels). \<exists>xs. lister s = Inr xs \<and> x \<in> set xs"
    using K I(3) xs by (auto simp: r(2))
  have S: "set seen' \<subseteq> key ` set items \<union> set seen" unfolding keys using K by blast
  moreover have "key ` set xs \<subseteq> set seen'" using K by simp
  moreover have "\<forall>s\<in>set sels. \<exists>xs. lister s = Inr xs \<and> key ` set xs \<subseteq> key ` set items \<union> set seen"
  proof
    fix s assume "s \<in> set sels"
    with I(4) obtain ys where "lister s = Inr ys" "key ` set ys \<subseteq> key ` set rest \<union> set seen'" by blast
    moreover from this S have "key ` set ys \<subseteq> key ` set items \<union> set seen" by (auto simp: keys)
    ultimately show "\<exists>xs. lister s = Inr xs \<and> key ` set xs \<subseteq> key ` set items \<union> set seen" by blast
  qed
  ultimately have last: "\<forall>s\<in>set (sel # sels). \<exists>xs. lister s = Inr xs \<and> key ` set xs \<subseteq> key ` set items \<union> set seen"
    using xs by (metis (no_types, lifting) order_trans set_ConsD)
  show ?case by (intro conjI) fact+
qed simp

lemma object_groups_spec:
  "wf_map groups \<Longrightarrow> wf_map (object_groups config name ds groups) \<and>
     (\<forall>i g. member_of (object_groups config name ds groups) i g \<longleftrightarrow> member_of groups i g \<or>
       (\<exists>d\<in>set ds. pn_Original (name d) = i \<and> g \<in> set (ParseGroups (label_value (config d) LabelGroup))))"
proof (induction ds arbitrary: groups)
  case (Cons d ds)
  note G = group_append_spec [OF Cons.prems, of "pn_Original (name d)" "ParseGroups (label_value (config d) LabelGroup)"]
  from Cons.IH [OF G [THEN conjunct1]] G show ?case by auto
qed simp

lemma merge_groups_spec:
  "wf_map groups \<Longrightarrow> wf_map extra \<Longrightarrow> wf_map (merge_groups groups extra) \<and>
     (\<forall>i g. member_of (merge_groups groups extra) i g \<longleftrightarrow> member_of groups i g \<or> member_of extra i g)"
proof (induction groups extra rule: merge_groups.induct)
  case (2 groups grp instances rest)
  have wf: "wf_map rest" and new: "map_of rest grp = None" using 2(3) by (auto simp: wf_map_def map_of_eq_None_iff)
  let ?g = "map_put grp (map_list groups grp @ instances) groups"
  have "wf_map ?g" using 2(2) by (simp add: wf_intros)
  from 2(1) [OF this wf] show ?case by (auto simp: member_of_def gomap_simps map_list_def new split: if_splits)
qed (simp add: member_of_def)

lemma object_name_inj:
  assumes "separable d [k1, n1, m1, ''1'']" "separable d [k2, n2, m2, ''1'']"
    and "pn_Original (object_name k1 n1 m1 d) = pn_Original (object_name k2 n2 m2 d)"
  shows "k1 = k2 \<and> n1 = n2 \<and> m1 = m2"
proof -
  have "object_name k1 n1 m1 d = object_name k2 n2 m2 d"
    using ParseName_object_name [OF assms(1)] ParseName_object_name [OF assms(2)] assms(3) by (metis sum.inject(2))
  then show ?thesis by (simp add: object_name_def)
qed

lemma distinct_names:
  assumes "distinct (map key xs)"
    and name: "\<And>x. name x = object_name kind (ns x) (n x) d" and key: "\<And>x y. ns x = ns y \<Longrightarrow> n x = n y \<Longrightarrow> key x = key y"
    and sep: "\<forall>x\<in>set xs. separable d [kind, ns x, n x, ''1'']"
  shows "distinct (map (\<lambda>x. pn_Original (name x)) xs)"
proof -
  have inj: "inj_on key (set xs)" using assms(1) by (simp add: distinct_map)
  have "inj_on (\<lambda>x. pn_Original (name x)) (set xs)"
  proof (rule inj_onI)
    fix x y assume xy: "x \<in> set xs" "y \<in> set xs" "pn_Original (name x) = pn_Original (name y)"
    then have "ns x = ns y \<and> n x = n y"
      using object_name_inj [of d kind "ns x" "n x" kind "ns y" "n y"] sep unfolding name by blast
    then have "key x = key y" using key by blast
    with inj xy(1,2) show "x = y" by (simp add: inj_on_eq_iff)
  qed
  with assms(1) show ?thesis by (simp add: distinct_map)
qed

lemma listed_distinct:
  "listDeployments p k = Inr ds \<Longrightarrow> distinct (map workload_key ds)"
  "listStatefulSets p k = Inr ds \<Longrightarrow> distinct (map workload_key ds)"
  "listClusters p k = Inr us \<Longrightarrow> distinct (map cluster_key us)"
  using list_selectors_spec
  by (fastforce simp: listDeployments_def listStatefulSets_def listClusters_def listEnabled_def split: option.splits sum.splits if_splits)+

definition separable_object :: "string \<Rightarrow> string \<Rightarrow> string \<Rightarrow> bool" where
  "separable_object d ns n \<longleftrightarrow>
     list_all (\<lambda>kind. separable d [kind, ns, n, ''1'']) [''deployment'', ''statefulset'', KindCNPGCluster]"

lemma separable_objectD:
  assumes "separable_object d ns n"
  shows "separable d [''deployment'', ns, n, ''1'']" "separable d [''statefulset'', ns, n, ''1'']"
    "separable d [KindCNPGCluster, ns, n, ''1'']"
  using assms by (simp_all add: separable_object_def)

text \<open>The objects of the three kinds, as the listings show them.\<close>

definition listed :: "'k KubeProvider \<Rightarrow> Workload list \<Rightarrow> Workload list \<Rightarrow> Cluster list \<Rightarrow> InstanceConfiguration list" where
  "listed p ds ss us =
     map (deploymentToInstance p) ds @ map (statefulSetToInstance p) ss @ map (clusterToInstance p) us"

lemmas toInstance_defs = deploymentToInstance_def statefulSetToInstance_def clusterToInstance_def

lemma kube_lists:
  assumes "listDeployments p k = Inr ds" "listStatefulSets p k = Inr ss" "listClusters p k = Inr us"
  shows "kube_InstanceList p all k =
      Inr (listed p (filter (\<lambda>d. all \<or> isRunning d) ds) (filter (\<lambda>d. all \<or> isRunning d) ss) (filter (\<lambda>u. all \<or> clusterIsRunning u) us))"
  by (simp add: kube_InstanceList_def DeploymentList_def StatefulSetList_def ClusterList_def assms listed_def)

lemma kube_groups:
  assumes "listDeployments p k = Inr ds" "listStatefulSets p k = Inr ss" "listClusters p k = Inr us"
  shows "\<exists>groups. kube_InstanceGroups p k = Inr groups \<and> wf_map groups \<and>
    (\<forall>i g. member_of groups i g \<longleftrightarrow>
       (\<exists>d\<in>set ds. pn_Original (DeploymentName d (kp_delimiter p)) = i \<and> g \<in> set (ParseGroups (label_value (workload_config d) LabelGroup))) \<or>
       (\<exists>d\<in>set ss. pn_Original (StatefulSetName d (kp_delimiter p)) = i \<and> g \<in> set (ParseGroups (label_value (workload_config d) LabelGroup))) \<or>
       (\<exists>u\<in>set us. pn_Original (ClusterName (cl_Namespace u) (cl_Name u) (kp_delimiter p)) = i \<and>
          g \<in> set (ParseGroups (label_value (cluster_config u) LabelGroup))))"
proof -
  define D where "D = object_groups workload_config (\<lambda>d. DeploymentName d (kp_delimiter p)) ds []"
  define S where "S = object_groups workload_config (\<lambda>d. StatefulSetName d (kp_delimiter p)) ss []"
  define C where "C = object_groups cluster_config (\<lambda>u. ClusterName (cl_Namespace u) (cl_Name u) (kp_delimiter p)) us []"
  have none: "\<not> member_of [] i g" for i g by (simp add: member_of_def)
  note O = object_groups_spec [OF wf_map_Nil, unfolded none simp_thms]
  have g: "kube_InstanceGroups p k = Inr (merge_groups (merge_groups D S) C)"
    by (simp add: kube_InstanceGroups_def DeploymentGroups_def StatefulSetGroups_def ClusterGroups_def assms D_def S_def C_def)
  have wf: "wf_map D" "wf_map S" "wf_map C" unfolding D_def S_def C_def using O by blast+
  note m = merge_groups_spec [OF wf(1,2)]
  note M = merge_groups_spec [OF m [THEN conjunct1] wf(3)]
  have step: "member_of (merge_groups (merge_groups D S) C) i g \<longleftrightarrow> member_of D i g \<or> member_of S i g \<or> member_of C i g" for i g
    using m M by blast
  have "member_of (merge_groups (merge_groups D S) C) i g \<longleftrightarrow>
       (\<exists>d\<in>set ds. pn_Original (DeploymentName d (kp_delimiter p)) = i \<and> g \<in> set (ParseGroups (label_value (workload_config d) LabelGroup))) \<or>
       (\<exists>d\<in>set ss. pn_Original (StatefulSetName d (kp_delimiter p)) = i \<and> g \<in> set (ParseGroups (label_value (workload_config d) LabelGroup))) \<or>
       (\<exists>u\<in>set us. pn_Original (ClusterName (cl_Namespace u) (cl_Name u) (kp_delimiter p)) = i \<and>
          g \<in> set (ParseGroups (label_value (cluster_config u) LabelGroup)))" for i g
    unfolding step by (simp only: D_def S_def C_def O none simp_thms)
  with g M [THEN conjunct1] show ?thesis by blast
qed

lemma to_instance_fields:
  "c_Name (to_instance config parsed) = pn_Original parsed"
  "g \<in> set (c_Groups (to_instance config parsed)) \<longleftrightarrow>
     label_value config LabelEnable = ''true'' \<and> g \<in> set (ParseGroups (label_value config LabelGroup))"
  "c_IsEnabled (to_instance config parsed) \<longleftrightarrow> label_value config LabelEnable = ''true''"
  by (auto simp: to_instance_def Let_def c_IsEnabled_def)

lemma listed_names_distinct:
  assumes l: "listDeployments p k = Inr ds" "listStatefulSets p k = Inr ss" "listClusters p k = Inr us"
    and sep: "\<forall>d\<in>set ds \<union> set ss. separable_object (kp_delimiter p) (wl_Namespace d) (wl_Name d)"
      "\<forall>u\<in>set us. separable_object (kp_delimiter p) (cl_Namespace u) (cl_Name u)"
  shows "distinct (map c_Name (listed p ds ss us))"
proof -
  let ?d = "kp_delimiter p"
  have sd: "\<forall>d\<in>set ds. separable ?d [''deployment'', wl_Namespace d, wl_Name d, ''1'']"
    "\<forall>d\<in>set ss. separable ?d [''statefulset'', wl_Namespace d, wl_Name d, ''1'']"
    "\<forall>u\<in>set us. separable ?d [KindCNPGCluster, cl_Namespace u, cl_Name u, ''1'']"
    using sep separable_objectD by blast+
  have 1: "distinct (map (\<lambda>d. pn_Original (DeploymentName d ?d)) ds)"
    by (rule distinct_names [OF listed_distinct(1) [OF l(1)] _ _ sd(1)]) (simp_all add: DeploymentName_def workload_key_def)
  have 2: "distinct (map (\<lambda>d. pn_Original (StatefulSetName d ?d)) ss)"
    by (rule distinct_names [OF listed_distinct(2) [OF l(2)] _ _ sd(2)]) (simp_all add: StatefulSetName_def workload_key_def)
  have 3: "distinct (map (\<lambda>u. pn_Original (ClusterName (cl_Namespace u) (cl_Name u) ?d)) us)"
    by (rule distinct_names [OF listed_distinct(3) [OF l(3)] _ _ sd(3)]) (simp_all add: ClusterName_def cluster_key_def)
  have 4: "pn_Original (DeploymentName d ?d) \<noteq> pn_Original (StatefulSetName x ?d)" if "d \<in> set ds" "x \<in> set ss" for d x
    using object_name_inj [OF sd(1) [rule_format, OF that(1)] sd(2) [rule_format, OF that(2)]]
    by (auto simp: DeploymentName_def StatefulSetName_def)
  have 5: "pn_Original (DeploymentName d ?d) \<noteq> pn_Original (ClusterName (cl_Namespace u) (cl_Name u) ?d)" if "d \<in> set ds" "u \<in> set us" for d u
    using object_name_inj [OF sd(1) [rule_format, OF that(1)] sd(3) [rule_format, OF that(2)]]
    by (auto simp: DeploymentName_def ClusterName_def KindCNPGCluster_def)
  have 6: "pn_Original (StatefulSetName x ?d) \<noteq> pn_Original (ClusterName (cl_Namespace u) (cl_Name u) ?d)" if "x \<in> set ss" "u \<in> set us" for x u
    using object_name_inj [OF sd(2) [rule_format, OF that(1)] sd(3) [rule_format, OF that(2)]]
    by (auto simp: StatefulSetName_def ClusterName_def KindCNPGCluster_def)
  have "map c_Name (listed p ds ss us) = map (\<lambda>d. pn_Original (DeploymentName d ?d)) ds @ map (\<lambda>d. pn_Original (StatefulSetName d ?d)) ss @
      map (\<lambda>u. pn_Original (ClusterName (cl_Namespace u) (cl_Name u) ?d)) us"
    by (simp add: listed_def to_instance_fields toInstance_defs)
  with 1 2 3 4 5 6 show ?thesis by auto
qed


section \<open>Starting and stopping\<close>

text \<open>
  The documented behaviour of an API server, as far as the provider relies on it: \<open>view k\<close> shows
  the workloads by kind, namespace and name, \<open>skip k\<close> the Redis resources whose reconciliation is
  paused. An update of the scale sets the replica count of one workload, a patch of the limits
  leaves the fields of a \<open>Workload\<close> alone, a patch of the annotation pauses or resumes.
\<close>

type_synonym object_id = "string \<times> string \<times> string"

definition kube_api :: "'k KubeProvider \<Rightarrow> ('k \<Rightarrow> object_id \<Rightarrow> Workload option) \<Rightarrow> ('k \<Rightarrow> string \<times> string \<Rightarrow> bool) \<Rightarrow> bool" where
  "kube_api p view skip \<longleftrightarrow>
     (\<forall>kind c ns n k w. apps p kind = Some c \<and> view k (kind, ns, n) = Some w \<longrightarrow>
        ac_Get c ns n k = Inr w \<and> wl_Namespace w = ns \<and>
        (\<exists>s. ac_GetScale c ns n k = Inr s \<and>
           (\<forall>r. \<exists>k'. ac_UpdateScale c ns n (s\<lparr>sca_Replicas := r\<rparr>) k = (None, k') \<and>
              view k' = (view k)((kind, ns, n) \<mapsto> w\<lparr>wl_Replicas := Some r\<rparr>) \<and> skip k' = skip k)) \<and>
        (\<forall>patch. \<exists>k'. ac_Patch c ns n patch k = (None, k') \<and> view k' = view k \<and> skip k' = skip k)) \<and>
     (\<forall>dyn ns n v k. kp_dynamic p = Some dyn \<longrightarrow>
        (\<exists>err k'. dc_PatchRedis dyn ns n (redisOperatorSkipReconcileAnnotation, v) k = (err, k') \<and>
           view k' = view k \<and> skip k' = (skip k)((ns, n) := v = Some ''true'')))"

text \<open>A workload the provider can scale, with limits that can be read.\<close>

definition scalable :: "'k KubeProvider \<Rightarrow> ('k \<Rightarrow> object_id \<Rightarrow> Workload option) \<Rightarrow> ParsedName \<Rightarrow> 'k \<Rightarrow> Workload \<Rightarrow> bool" where
  "scalable p view parsed k w \<longleftrightarrow>
     pn_Kind parsed \<in> {''deployment'', ''statefulset''} \<and>
     view k (pn_Kind parsed, pn_Namespace parsed, pn_Name parsed) = Some w \<and> wl_Containers w \<noteq> []"

definition limits_ok :: "'k KubeProvider \<Rightarrow> ResourceProfile \<Rightarrow> bool" where
  "limits_ok p profile \<longleftrightarrow> list_all (\<lambda>v. v = [] \<or> (\<exists>q. kp_ParseQuantity p v = Inr q)) [CPU profile, Memory profile]"

definition scaled :: "ParsedName \<Rightarrow> int \<Rightarrow> Workload \<Rightarrow> (object_id \<Rightarrow> Workload option) \<Rightarrow> object_id \<Rightarrow> Workload option" where
  "scaled parsed r w v = v((pn_Kind parsed, pn_Namespace parsed, pn_Name parsed) \<mapsto> w\<lparr>wl_Replicas := Some r\<rparr>)"

lemma apps_kind: "pn_Kind parsed \<in> {''deployment'', ''statefulset''} \<Longrightarrow> \<exists>c. apps p (pn_Kind parsed) = Some c"
  by (auto simp: apps_def)

lemma kube_apiD:
  assumes "kube_api p view skip" "apps p kind = Some c" "view k (kind, ns, n) = Some w"
  shows "ac_Get c ns n k = Inr w" "wl_Namespace w = ns"
    and "\<exists>s. ac_GetScale c ns n k = Inr s \<and>
           (\<forall>r. \<exists>k'. ac_UpdateScale c ns n (s\<lparr>sca_Replicas := r\<rparr>) k = (None, k') \<and>
              view k' = (view k)((kind, ns, n) \<mapsto> w\<lparr>wl_Replicas := Some r\<rparr>) \<and> skip k' = skip k)"
    and "\<exists>k'. ac_Patch c ns n patch k = (None, k') \<and> view k' = view k \<and> skip k' = skip k"
proof -
  from assms(1) have *: "apps p kind = Some c \<and> view k (kind, ns, n) = Some w \<longrightarrow>
        ac_Get c ns n k = Inr w \<and> wl_Namespace w = ns \<and>
        (\<exists>s. ac_GetScale c ns n k = Inr s \<and>
           (\<forall>r. \<exists>k'. ac_UpdateScale c ns n (s\<lparr>sca_Replicas := r\<rparr>) k = (None, k') \<and>
              view k' = (view k)((kind, ns, n) \<mapsto> w\<lparr>wl_Replicas := Some r\<rparr>) \<and> skip k' = skip k)) \<and>
        (\<forall>patch. \<exists>k'. ac_Patch c ns n patch k = (None, k') \<and> view k' = view k \<and> skip k' = skip k)"
    unfolding kube_api_def by blast
  with assms(2,3) show "ac_Get c ns n k = Inr w" "wl_Namespace w = ns"
    "\<exists>s. ac_GetScale c ns n k = Inr s \<and>
           (\<forall>r. \<exists>k'. ac_UpdateScale c ns n (s\<lparr>sca_Replicas := r\<rparr>) k = (None, k') \<and>
              view k' = (view k)((kind, ns, n) \<mapsto> w\<lparr>wl_Replicas := Some r\<rparr>) \<and> skip k' = skip k)"
    "\<exists>k'. ac_Patch c ns n patch k = (None, k') \<and> view k' = view k \<and> skip k' = skip k"
    by blast+
qed

lemma scale_api:
  assumes A: "kube_api p view skip" and w: "scalable p view parsed k w"
  shows "\<exists>k'. scale p parsed r k = (None, k') \<and> view k' = scaled parsed r w (view k) \<and> skip k' = skip k"
proof -
  obtain c where c: "apps p (pn_Kind parsed) = Some c" using apps_kind w by (auto simp: scalable_def)
  with kube_apiD(3) [OF A c] w show ?thesis by (fastforce simp: scale_def scaled_def scalable_def)
qed

lemma buildResourcePatch_ok: "limits_ok p profile \<Longrightarrow> \<exists>patch. buildResourcePatch p n (CPU profile) (Memory profile) = Inr patch"
  by (auto simp: limits_ok_def buildResourcePatch_def add_limit_def split: sum.splits)

lemma scaleResources_api:
  assumes A: "kube_api p view skip" and w: "scalable p view parsed k w" and l: "limits_ok p profile"
  shows "\<exists>k'. scaleResources p parsed (CPU profile) (Memory profile) k = (None, k') \<and> view k' = view k \<and> skip k' = skip k"
proof -
  obtain c where c: "apps p (pn_Kind parsed) = Some c" using apps_kind w by (auto simp: scalable_def)
  have v: "view k (pn_Kind parsed, pn_Namespace parsed, pn_Name parsed) = Some w" using w by (simp add: scalable_def)
  obtain x xs where x: "wl_Containers w = x # xs" using w by (auto simp: scalable_def neq_Nil_conv)
  obtain patch where b: "buildResourcePatch p (con_Name x) (CPU profile) (Memory profile) = Inr patch"
    using buildResourcePatch_ok [OF l] by blast
  obtain k' where "ac_Patch c (pn_Namespace parsed) (pn_Name parsed) patch k = (None, k') \<and> view k' = view k \<and> skip k' = skip k"
    using kube_apiD(4) [OF A c v] by blast
  moreover have "scaleResources p parsed (CPU profile) (Memory profile) k =
      scale_workload_resources p (pn_Kind parsed) c parsed (CPU profile) (Memory profile) k"
    using c w by (auto simp: scaleResources_def scaleDeploymentResources_def scaleStatefulSetResources_def apps_def scalable_def split: if_splits)
  ultimately show ?thesis using kube_apiD(1) [OF A c v] x b by (simp add: scale_workload_resources_def)
qed

lemma scalable_scaled:
  "scalable p view parsed k w \<Longrightarrow> view k' = scaled parsed r w (view k) \<Longrightarrow> scalable p view parsed k' (w\<lparr>wl_Replicas := Some r\<rparr>)"
  by (simp add: scalable_def scaled_def)

lemma apply_profile_api:
  assumes A: "kube_api p view skip" and w: "scalable p view parsed k w" and l: "limits_ok p profile"
  shows "\<exists>k'. apply_profile p parsed r profile k = (None, k') \<and> view k' = scaled parsed r w (view k) \<and> skip k' = skip k"
proof -
  obtain k1 where 1: "scale p parsed r k = (None, k1)" "view k1 = scaled parsed r w (view k)" "skip k1 = skip k"
    using scale_api [OF A w] by blast
  obtain k2 where "scaleResources p parsed (CPU profile) (Memory profile) k1 = (None, k2)" "view k2 = view k1" "skip k2 = skip k1"
    using scaleResources_api [OF A scalable_scaled [OF w 1(2)] l] by blast
  with 1 show ?thesis by (simp add: apply_profile_def)
qed

lemma skip_api:
  assumes "kube_api p view skip"
  shows "view (setRedisOperatorSkipReconcile p w b k) = view k \<and>
    (kp_dynamic p \<noteq> None \<longrightarrow> skip (setRedisOperatorSkipReconcile p w b k) =
       (case redisOperatorOwner w of None \<Rightarrow> skip k | Some owner \<Rightarrow> (skip k)((wl_Namespace w, owner) := b)))"
proof (cases "kp_dynamic p")
  case (Some dyn)
  have "\<exists>err k'. dc_PatchRedis dyn ns n (redisOperatorSkipReconcileAnnotation, v) k = (err, k') \<and>
      view k' = view k \<and> skip k' = (skip k)((ns, n) := v = Some ''true'')" for ns n v
    using assms Some unfolding kube_api_def by blast
  from this [of "wl_Namespace w" "the (redisOperatorOwner w)" "if b then Some ''true'' else None"] Some
  show ?thesis by (auto simp: setRedisOperatorSkipReconcile_def split: option.splits)
qed (simp add: setRedisOperatorSkipReconcile_def)

lemma scaled_scaled [simp]: "scaled parsed r (w\<lparr>wl_Replicas := x\<rparr>) (scaled parsed y u v) = scaled parsed r w v"
  by (simp add: scaled_def)

lemma getWorkloadLabels_api:
  assumes "kube_api p view skip" "scalable p view parsed k w"
  shows "getWorkloadLabels p parsed k = Inr (workload_config w)"
proof -
  obtain c where c: "apps p (pn_Kind parsed) = Some c" using apps_kind assms(2) by (auto simp: scalable_def)
  with kube_apiD(1) [OF assms(1) c] assms(2) show ?thesis by (simp add: getWorkloadLabels_def workload_config_def scalable_def)
qed

text \<open>The replica counts of a workload when it is active and when it is idle.\<close>

definition active_count :: "ParsedName \<Rightarrow> Workload \<Rightarrow> int" where
  "active_count parsed w = activeReplicas (ScaleConfigFromLabels (workload_config w)) (workload_config w) parsed"

definition idle_count :: "Workload \<Rightarrow> int" where
  "idle_count w = (let r = Replicas (Idle (ScaleConfigFromLabels (workload_config w))) in if r \<ge> 1 then r else 0)"

lemma kube_start_api:
  assumes A: "kube_api p view skip" and w: "scalable p view parsed k w"
    and l: "limits_ok p (Active (ScaleConfigFromLabels (workload_config w)))"
  shows "\<exists>k'. kube_start p parsed k = (None, k') \<and> view k' = scaled parsed (active_count parsed w) w (view k) \<and> skip k' = skip k"
  using apply_profile_api [OF A w l, of "active_count parsed w"] scale_api [OF A w, of "active_count parsed w"]
  by (simp add: kube_start_def getWorkloadLabels_api [OF A w] Let_def active_count_def)

lemma statefulset_get:
  assumes "kube_api p view skip" "scalable p view parsed k w" "pn_Kind parsed = ''statefulset''"
  shows "ac_Get (kp_StatefulSets p) (pn_Namespace parsed) (pn_Name parsed) k = Inr w" "wl_Namespace w = pn_Namespace parsed"
  using kube_apiD(1,2) [OF assms(1), of "''statefulset''" "kp_StatefulSets p" k "pn_Namespace parsed" "pn_Name parsed" w] assms(2,3)
  by (auto simp: apps_def scalable_def)

lemma start_api:
  assumes A: "kube_api p view skip" and n: "ParseName name (kp_delimiter p) = Inr parsed" and w: "scalable p view parsed k w"
    and l: "limits_ok p (Active (ScaleConfigFromLabels (workload_config w)))"
  shows "\<exists>k'. kube_InstanceStart p name k = (None, k') \<and> view k' = scaled parsed (active_count parsed w) w (view k) \<and>
    (kp_dynamic p \<noteq> None \<and> pn_Kind parsed = ''statefulset'' \<longrightarrow>
       (\<forall>owner. redisOperatorOwner w = Some owner \<longrightarrow> \<not> skip k' (pn_Namespace parsed, owner)))"
proof -
  obtain k1 where 1: "kube_start p parsed k = (None, k1)" "view k1 = scaled parsed (active_count parsed w) w (view k)"
    using kube_start_api [OF A w l] by blast
  let ?w1 = "w\<lparr>wl_Replicas := Some (active_count parsed w)\<rparr>"
  note w1 = scalable_scaled [OF w 1(2)]
  have kind: "pn_Kind parsed \<noteq> KindCNPGCluster" using w by (auto simp: scalable_def KindCNPGCluster_def)
  show ?thesis
  proof (cases "pn_Kind parsed = ''statefulset''")
    case True
    with 1 kind n statefulset_get [OF A w1 True]
    have "kube_InstanceStart p name k = (None, setRedisOperatorSkipReconcile p ?w1 False k1)"
      by (simp add: kube_InstanceStart_def KindCNPGCluster_def)
    with skip_api [OF A, of ?w1 False k1] 1 statefulset_get(2) [OF A w1 True] show ?thesis
      by (auto simp: redisOperatorOwner_def)
  next
    case False
    with 1 kind n show ?thesis by (simp add: kube_InstanceStart_def)
  qed
qed

lemma stop_api:
  assumes A: "kube_api p view skip" and n: "ParseName name (kp_delimiter p) = Inr parsed" and w: "scalable p view parsed k w"
    and l: "limits_ok p (Idle (ScaleConfigFromLabels (workload_config w)))"
  shows "\<exists>k'. kube_InstanceStop p name k = (None, k') \<and> view k' = scaled parsed (idle_count w) w (view k) \<and>
    (kp_dynamic p \<noteq> None \<and> pn_Kind parsed = ''statefulset'' \<and> idle_count w = 0 \<longrightarrow>
       (\<forall>owner. redisOperatorOwner w = Some owner \<longrightarrow> skip k' (pn_Namespace parsed, owner)))"
proof -
  have kind: "pn_Kind parsed \<noteq> KindCNPGCluster" using w by (auto simp: scalable_def KindCNPGCluster_def)
  note L = getWorkloadLabels_api [OF A w]
  let ?r = "Replicas (Idle (ScaleConfigFromLabels (workload_config w)))"
  consider "?r \<ge> 1" | "\<not> ?r \<ge> 1" "pn_Kind parsed = ''statefulset''" "redisOperatorOwner w \<noteq> None"
    | "\<not> ?r \<ge> 1" "pn_Kind parsed = ''statefulset''" "redisOperatorOwner w = None" | "\<not> ?r \<ge> 1" "pn_Kind parsed \<noteq> ''statefulset''" by blast
  then show ?thesis
  proof cases
    case 1
    with apply_profile_api [OF A w l, of ?r] kind n L show ?thesis
      by (auto simp: kube_InstanceStop_def Let_def idle_count_def)
  next
    case 2
    let ?k = "setRedisOperatorSkipReconcile p w True k"
    note S = skip_api [OF A, of w True k]
    have "scalable p view parsed ?k w" using w S by (simp add: scalable_def)
    then obtain k' where k': "scale p parsed 0 ?k = (None, k')" "view k' = scaled parsed 0 w (view ?k)" "skip k' = skip ?k"
      using scale_api [OF A] by blast
    then have "kube_InstanceStop p name k = (None, k')"
      using 2 kind n L statefulset_get [OF A w 2(2)] by (simp add: kube_InstanceStop_def Let_def stop_redis_def)
    with k' S 2 statefulset_get(2) [OF A w 2(2)] show ?thesis by (auto simp: idle_count_def Let_def)
  next
    case 3
    with scale_api [OF A w, of 0] kind n L statefulset_get [OF A w 3(2)] show ?thesis
      by (auto simp: kube_InstanceStop_def Let_def idle_count_def)
  next
    case 4
    with scale_api [OF A w, of 0] kind n L show ?thesis by (auto simp: kube_InstanceStop_def Let_def idle_count_def)
  qed
qed


section \<open>A server\<close>

type_synonym list_server = "(object_id, Workload) gomap \<times> (string \<times> string) list"

definition server_view :: "list_server \<Rightarrow> object_id \<Rightarrow> Workload option" where
  "server_view k = (\<lambda>(kind, ns, n). map_option (\<lambda>w. w\<lparr>wl_Namespace := ns\<rparr>) (map_of (fst k) (kind, ns, n)))"

definition server_skip :: "list_server \<Rightarrow> string \<times> string \<Rightarrow> bool" where
  "server_skip k = (\<lambda>x. x \<in> set (snd k))"

definition list_apps :: "string \<Rightarrow> list_server apps_client" where
  "list_apps kind =
     \<lparr>ac_Get = (\<lambda>ns n k. case server_view k (kind, ns, n) of None \<Rightarrow> Inl (ErrText ''not found'') | Some w \<Rightarrow> Inr w),
      ac_List = (\<lambda>selector k. Inr (map snd (filter (\<lambda>((kd, ns, n), w). kd = kind \<and>
        list_ex (\<lambda>(key, v). key @ ''='' @ v = selector) (wl_Labels w)) (fst k)))),
      ac_GetScale = (\<lambda>ns n k. case server_view k (kind, ns, n) of
          None \<Rightarrow> Inl (ErrText ''not found'')
        | Some w \<Rightarrow> Inr \<lparr>sca_Replicas = replicasOf (wl_Replicas w), sca_ResourceVersion = []\<rparr>),
      ac_UpdateScale = (\<lambda>ns n s k. case server_view k (kind, ns, n) of
          None \<Rightarrow> (Some (ErrText ''not found''), k)
        | Some w \<Rightarrow> (None, map_put (kind, ns, n) (w\<lparr>wl_Replicas := Some (sca_Replicas s)\<rparr>) (fst k), snd k)),
      ac_Patch = (\<lambda>ns n patch k. (None, k))\<rparr>"

definition list_dynamic :: "list_server dynamic_client" where
  "list_dynamic =
     \<lparr>dc_GetCluster = (\<lambda>ns n k. Inl (ErrText ''not found'')), dc_ListClusters = (\<lambda>selector k. Inr []),
      dc_PatchCluster = (\<lambda>ns n patch k. (Some (ErrText ''not found''), k)),
      dc_PatchRedis = (\<lambda>ns n patch k.
        (None, fst k, if snd patch = Some ''true'' then (ns, n) # snd k else removeAll (ns, n) (snd k)))\<rparr>"

definition list_kube :: "list_server KubeProvider" where
  "list_kube =
     \<lparr>kp_Deployments = list_apps ''deployment'', kp_StatefulSets = list_apps ''statefulset'',
      kp_ServerResources = (\<lambda>k. Inr []), kp_dynamic = Some list_dynamic, kp_delimiter = ''_'',
      kp_readyOnFirstReplica = False, kp_ParseQuantity = Inr, kp_IsNotFound = (\<lambda>err. False)\<rparr>"

lemma server_view_put:
  assumes "wl_Namespace w = ns"
  shows "server_view (map_put (kind, ns, n) (w\<lparr>wl_Replicas := Some r\<rparr>) (fst k), s) = (server_view k)((kind, ns, n) \<mapsto> w\<lparr>wl_Replicas := Some r\<rparr>)"
  using assms by (auto simp: server_view_def gomap_simps fun_eq_iff)

lemma list_kube_api: "kube_api list_kube server_view server_skip"
  unfolding kube_api_def
proof (intro conjI allI impI; (elim conjE)?)
  fix kind c ns n k w patch
  assume a: "apps list_kube kind = Some c" and v: "server_view k (kind, ns, n) = Some w"
  from a have c: "c = list_apps kind" by (auto simp: apps_def list_kube_def split: if_splits)
  from v show ns: "wl_Namespace w = ns" by (auto simp: server_view_def)
  show "ac_Get c ns n k = Inr w" by (simp add: c list_apps_def v)
  show "\<exists>s. ac_GetScale c ns n k = Inr s \<and>
      (\<forall>r. \<exists>k'. ac_UpdateScale c ns n (s\<lparr>sca_Replicas := r\<rparr>) k = (None, k') \<and>
         server_view k' = (server_view k)((kind, ns, n) \<mapsto> w\<lparr>wl_Replicas := Some r\<rparr>) \<and> server_skip k' = server_skip k)"
    by (simp add: c list_apps_def v server_view_put [OF ns]) (simp add: server_skip_def)
  show "\<exists>k'. ac_Patch c ns n patch k = (None, k') \<and> server_view k' = server_view k \<and> server_skip k' = server_skip k"
    by (simp add: c list_apps_def)
next
  fix dyn ns n v k
  assume "kp_dynamic list_kube = Some dyn"
  then have d: "dyn = list_dynamic" by (simp add: list_kube_def)
  show "\<exists>err k'. dc_PatchRedis dyn ns n (redisOperatorSkipReconcileAnnotation, v) k = (err, k') \<and>
      server_view k' = server_view k \<and> server_skip k' = (server_skip k)((ns, n) := v = Some ''true'')"
    by (auto simp: d list_dynamic_def server_view_def server_skip_def fun_eq_iff)
qed

definition redis_set :: Workload where
  "redis_set =
     \<lparr>wl_Namespace = ''default'', wl_Name = ''cache'',
      wl_Labels = [(''sablierapp.dev/enable'', ''true''), (''sablier.enable'', ''true''), (''sablier.group'', ''app'')],
      wl_Annotations = [], wl_Replicas = Some 0, wl_ReadyReplicas = 0,
      wl_Containers = [\<lparr>con_Name = ''redis'', con_Image = ''redis:8''\<rparr>],
      wl_OwnerReferences = [\<lparr>or_Controller = Some True, or_Kind = ''Redis'',
        or_APIVersion = ''redis.redis.opstreelabs.in/v1beta2'', or_Name = ''cache''\<rparr>],
      wl_ResourceVersion = ''1''\<rparr>"

definition redis_server :: list_server where
  "redis_server = ([((''statefulset'', ''default'', ''cache''), redis_set)], [])"

lemma redis_config: "workload_config redis_set =
    [(''sablierapp.dev/enable'', ''true''), (''sablier.enable'', ''true''), (''sablier.group'', ''app'')]"
  by (simp add: workload_config_def redis_set_def sablierConfig_def CutPrefix_def sablierPublicPrefix_def sablierConfigPrefix_def)

lemma redis_name: "ParseName ''statefulset_default_cache_1'' ''_'' = Inr (object_name ''statefulset'' ''default'' ''cache'' ''_'')"
  using ParseName_object_name [of "''_''" "''statefulset''" "''default''" "''cache''"] by (simp add: object_name_def separable_def)



text \<open>
  A workload that is enabled by its label and disabled by an annotation, which takes precedence,
  is listed as not enabled and without groups, but stays a member of its group.
\<close>

theorem disabled_workload_grouped:
  "let k = ([((''statefulset'', ''default'', ''cache''), redis_set\<lparr>wl_Annotations := [(''sablier.enable'', ''false'')]\<rparr>)], [])
   in (case kube_InstanceList list_kube True k of Inr [inst] \<Rightarrow> \<not> c_IsEnabled inst \<and> c_Groups inst = [] | _ \<Rightarrow> False) \<and>
      (case kube_InstanceGroups list_kube k of Inr groups \<Rightarrow> member_of groups ''statefulset_default_cache_1'' ''app'' | _ \<Rightarrow> False)"
  by code_simp

end
