(* ===== verification/Systemd.thy ===== *)
theory Systemd
  imports Docker
begin

text \<open>
  The systemd provider (\<open>pkg/provider/systemd\<close>): units are started and stopped as jobs of the
  service manager, their labels are read from the \<open>[X-Sablier]\<close> section of the unit file and kept
  in a cache, and resource profiles become runtime properties of the unit. The D-Bus connection,
  the file system and the INI parser are a record of functions on the state \<open>'d\<close> of the machine;
  the reading of a memory size is a parameter of the provider, and the constructor sets the reading of
  a CPU count to \<open>parseCPUQuota\<close> of \<open>Cpu_Limits\<close>. The
  label cache is the state of the provider itself and is passed explicitly.
\<close>

section \<open>The service manager\<close>

record UnitStatus =
  us_Name :: string
  us_LoadState :: string
  us_ActiveState :: string

record deviceLimit =
  dl_Path :: string
  dl_Value :: int

datatype prop_value = UInt int | Devices "deviceLimit list"

type_synonym unit_property = "string \<times> prop_value"

text \<open>What the \<open>select\<close> on a job receives: the result of the job, or the end of the context.\<close>

datatype job_result = JobStatus string | JobCancelled

record file_info =
  fi_ModTime :: time
  fi_Size :: int

type_synonym ini_file = "(string \<times> (string \<times> string) list) list"

text \<open>\<open>FragmentPath\<close> yields \<open>None\<close> for a property that is not a string.\<close>

record 'd systemd_client =
  ListUnitsByNames :: "string list \<Rightarrow> 'd \<Rightarrow> goerror + UnitStatus list"
  ListUnitsByPatterns :: "string list \<Rightarrow> string list \<Rightarrow> 'd \<Rightarrow> goerror + UnitStatus list"
  FragmentPath :: "string \<Rightarrow> 'd \<Rightarrow> goerror + string option"
  SetUnitProperties :: "string \<Rightarrow> bool \<Rightarrow> unit_property list \<Rightarrow> 'd \<Rightarrow> goerror option \<times> 'd"
  StartUnit :: "string \<Rightarrow> string \<Rightarrow> 'd \<Rightarrow> (goerror + job_result) \<times> 'd"
  StopUnit :: "string \<Rightarrow> string \<Rightarrow> 'd \<Rightarrow> (goerror + job_result) \<times> 'd"
  Stat :: "string \<Rightarrow> 'd \<Rightarrow> goerror + file_info"
  ini_Load :: "string \<Rightarrow> 'd \<Rightarrow> goerror + ini_file"

record 'd SystemdProvider =
  sd_Con :: "'d systemd_client"
  sd_unitPatterns :: "string list"
  sd_CPUQuota :: "string \<Rightarrow> goerror + int"
  sd_RAMInBytes :: "string \<Rightarrow> goerror + int"

section \<open>Unit patterns\<close>

text \<open>
  Glob patterns of the package \<open>path\<close>: \<open>*\<close> and \<open>?\<close> do not match a slash, a class is a list of
  ranges, and a backslash quotes a character. A malformed pattern has no reading.
\<close>

datatype glob = Star | AnyChar | Lit char | Class bool "(char \<times> char) list"

definition class_char :: "string \<Rightarrow> (char \<times> string) option" where
  "class_char s =
     (case s of
        [] \<Rightarrow> None
      | c # cs \<Rightarrow>
          if c = CHR ''-'' \<or> c = CHR '']'' then None
          else if c = CHR 0x5C then (case cs of [] \<Rightarrow> None | e # es \<Rightarrow> if es = [] then None else Some (e, es))
          else if cs = [] then None
          else Some (c, cs))"

text \<open>The ranges up to the closing bracket; \<open>first\<close> until one has been read.\<close>

function class_ranges :: "bool \<Rightarrow> string \<Rightarrow> ((char \<times> char) list \<times> string) option" where
  "class_ranges first s =
     (if \<not> first \<and> s \<noteq> [] \<and> hd s = CHR '']'' then Some ([], tl s)
      else case class_char s of
        None \<Rightarrow> None
      | Some (lo, rest) \<Rightarrow>
          (case (if rest \<noteq> [] \<and> hd rest = CHR ''-'' then class_char (tl rest) else Some (lo, rest)) of
             None \<Rightarrow> None
           | Some (hi, rest') \<Rightarrow>
               if length rest' < length s
               then (case class_ranges False rest' of None \<Rightarrow> None | Some (rs, out) \<Rightarrow> Some ((lo, hi) # rs, out))
               else None))"
  by auto
termination by (relation "measure (\<lambda>(first, s). length s)") auto

function parse_glob :: "string \<Rightarrow> glob list option" where
  "parse_glob s =
     (case s of
        [] \<Rightarrow> Some []
      | c # cs \<Rightarrow>
          if c = CHR ''*'' then map_option (\<lambda>gs. Star # gs) (parse_glob cs)
          else if c = CHR ''?'' then map_option (\<lambda>gs. AnyChar # gs) (parse_glob cs)
          else if c = CHR ''['' then
            (let negated = (cs \<noteq> [] \<and> hd cs = CHR ''^'') in
             case class_ranges True (if negated then tl cs else cs) of
               None \<Rightarrow> None
             | Some (rs, rest) \<Rightarrow>
                 if length rest < length s then map_option (\<lambda>gs. Class negated rs # gs) (parse_glob rest) else None)
          else if c = CHR 0x5C then (case cs of [] \<Rightarrow> None | e # es \<Rightarrow> map_option (\<lambda>gs. Lit e # gs) (parse_glob es))
          else map_option (\<lambda>gs. Lit c # gs) (parse_glob cs))"
  by auto
termination by (relation "measure length") (auto split: if_splits)

text \<open>The pattern as chunks without stars, each with a flag for the star before it.\<close>

function chunks :: "glob list \<Rightarrow> (bool \<times> glob list) list" where
  "chunks [] = []"
| "chunks (g # gs) =
     (let rest = dropWhile (\<lambda>x. x = Star) (g # gs) in
      (g = Star, takeWhile (\<lambda>x. x \<noteq> Star) rest) # chunks (dropWhile (\<lambda>x. x \<noteq> Star) rest))"
  by pat_completeness auto
termination
proof (relation "measure length")
  fix g gs and rest :: "glob list"
  assume r: "rest = dropWhile (\<lambda>x. x = Star) (g # gs)"
  have l: "length (dropWhile P xs) \<le> length xs" for P and xs :: "glob list" by (rule length_dropWhile_le)
  show "(dropWhile (\<lambda>x. x \<noteq> Star) rest, g # gs) \<in> measure length"
    using l [of "\<lambda>x. x = Star" gs] l [of "\<lambda>x. x \<noteq> Star" rest] l [of "\<lambda>x. x \<noteq> Star" gs]
    by (cases "g = Star") (simp_all add: r)
qed simp

fun match_one :: "glob \<Rightarrow> char \<Rightarrow> bool" where
  "match_one Star c = False"
| "match_one AnyChar c = (c \<noteq> CHR ''/'')"
| "match_one (Lit l) c = (l = c)"
| "match_one (Class negated rs) c = (list_ex (\<lambda>(lo, hi). lo \<le> c \<and> c \<le> hi) rs \<noteq> negated)"

fun matchChunk :: "glob list \<Rightarrow> string \<Rightarrow> string option" where
  "matchChunk [] s = Some s"
| "matchChunk (g # gs) [] = None"
| "matchChunk (g # gs) (c # s) = (if match_one g c then matchChunk gs s else None)"

text \<open>The first position after the star at which the chunk matches; a star does not skip a slash.\<close>

fun skip_match :: "bool \<Rightarrow> glob list \<Rightarrow> string \<Rightarrow> string option" where
  "skip_match final chunk [] = None"
| "skip_match final chunk (c # name) =
     (if c = CHR ''/'' then None
      else case matchChunk chunk name of
        Some t \<Rightarrow> if final \<and> t \<noteq> [] then skip_match final chunk name else Some t
      | None \<Rightarrow> skip_match final chunk name)"

fun match_chunks :: "(bool \<times> glob list) list \<Rightarrow> string \<Rightarrow> bool" where
  "match_chunks [] name = (name = [])"
| "match_chunks ((star, chunk) # cs) name =
     (if star \<and> chunk = [] then CHR ''/'' \<notin> set name
      else
        let retry = (if star then skip_match (cs = []) chunk name else None) in
        case (case matchChunk chunk name of Some t \<Rightarrow> if t = [] \<or> cs \<noteq> [] then Some t else retry | None \<Rightarrow> retry) of
          None \<Rightarrow> False
        | Some t \<Rightarrow> match_chunks cs t)"

definition path_Match :: "string \<Rightarrow> string \<Rightarrow> bool option" where
  "path_Match pattern name = map_option (\<lambda>gs. match_chunks (chunks gs) name) (parse_glob pattern)"

definition matchUnitPattern :: "'d SystemdProvider \<Rightarrow> string \<Rightarrow> bool" where
  "matchUnitPattern p name \<longleftrightarrow>
     sd_unitPatterns p = [] \<or> list_ex (\<lambda>pattern. path_Match pattern name = Some True) (sd_unitPatterns p)"

lemma glob_demo:
  "path_Match ''podman-*.service'' ''podman-web.service'' = Some True"
  "path_Match ''web@[0-9].service'' ''web@7.service'' = Some True"
  "path_Match ''web@[^0-9].service'' ''web@7.service'' = Some False"
  "path_Match ''web[a-'' ''weba'' = None"
  "path_Match ''*[a/]*b'' ''aa/b'' = Some False"
  by code_simp+

section \<open>Labels\<close>

definition bareKeyLabels :: "(string, string) gomap" where
  "bareKeyLabels =
     [(''Enable'', LabelEnable), (''Group'', LabelGroup), (''ReadyAfter'', LabelReadyAfter),
      (''ReadyOnStart'', LabelReadyOnStart), (''RunningHours'', LabelRunningHours),
      (''RunningDays'', LabelRunningDays), (''AntiAffinity'', LabelAntiAffinity),
      (''IdleReplicas'', LabelIdleReplicas), (''IdleCPU'', LabelIdleCPU), (''IdleMemory'', LabelIdleMemory),
      (''ActiveReplicas'', LabelActiveReplicas), (''ActiveCPU'', LabelActiveCPU), (''ActiveMemory'', LabelActiveMemory),
      (''IdleBlkioWeight'', LabelIdleBlkioWeight), (''ActiveBlkioWeight'', LabelActiveBlkioWeight),
      (''IdleBlkioWeightDevice'', LabelIdleBlkioWeightDevice), (''ActiveBlkioWeightDevice'', LabelActiveBlkioWeightDevice),
      (''IdleBlkioDeviceReadBps'', LabelIdleBlkioReadBps), (''ActiveBlkioDeviceReadBps'', LabelActiveBlkioReadBps),
      (''IdleBlkioDeviceWriteBps'', LabelIdleBlkioWriteBps), (''ActiveBlkioDeviceWriteBps'', LabelActiveBlkioWriteBps),
      (''IdleBlkioDeviceReadIOps'', LabelIdleBlkioReadIOps), (''ActiveBlkioDeviceReadIOps'', LabelActiveBlkioReadIOps),
      (''IdleBlkioDeviceWriteIOps'', LabelIdleBlkioWriteIOps), (''ActiveBlkioDeviceWriteIOps'', LabelActiveBlkioWriteIOps)]"

fun section_labels :: "(string \<times> string) list \<Rightarrow> labels \<Rightarrow> labels" where
  "section_labels [] labels = labels"
| "section_labels ((key, v) # keys) labels =
     (case map_of bareKeyLabels key of
        None \<Rightarrow> section_labels keys labels
      | Some label \<Rightarrow> section_labels keys (map_put label v labels))"

definition labelsFromUnitFile :: "'d SystemdProvider \<Rightarrow> string \<Rightarrow> 'd \<Rightarrow> goerror + labels" where
  "labelsFromUnitFile p path d =
     (case ini_Load (sd_Con p) path d of
        Inl err \<Rightarrow> Inl err
      | Inr cfg \<Rightarrow>
          (case map_of cfg ''X-Sablier'' of
             None \<Rightarrow> Inr []
           | Some keys \<Rightarrow> Inr (section_labels keys [])))"

record labelCacheEntry =
  lc_labels :: labels
  lc_mtime :: time
  lc_size :: int

type_synonym labelCache = "(string, labelCacheEntry) gomap"

definition labelsFromUnitFileCached :: "'d SystemdProvider \<Rightarrow> string \<Rightarrow> labelCache \<Rightarrow> 'd \<Rightarrow> (goerror + labels) \<times> labelCache" where
  "labelsFromUnitFileCached p path cache d =
     (case Stat (sd_Con p) path d of
        Inl err \<Rightarrow> (Inl err, cache)
      | Inr info \<Rightarrow>
          let load = (case labelsFromUnitFile p path d of
                        Inl err \<Rightarrow> (Inl err, cache)
                      | Inr labels \<Rightarrow> (Inr labels,
                          map_put path \<lparr>lc_labels = labels, lc_mtime = fi_ModTime info, lc_size = fi_Size info\<rparr> cache)) in
          case map_of cache path of
            Some entry \<Rightarrow>
              if lc_mtime entry = fi_ModTime info \<and> lc_size entry = fi_Size info then (Inr (lc_labels entry), cache) else load
          | None \<Rightarrow> load)"

definition getLabels :: "'d SystemdProvider \<Rightarrow> string \<Rightarrow> labelCache \<Rightarrow> 'd \<Rightarrow> (goerror + labels) \<times> labelCache" where
  "getLabels p name cache d =
     (case FragmentPath (sd_Con p) name d of
        Inl err \<Rightarrow> (Inl err, cache)
      | Inr None \<Rightarrow> (Inr [], cache)
      | Inr (Some path) \<Rightarrow> if path = [] then (Inr [], cache) else labelsFromUnitFileCached p path cache d)"

section \<open>Inspection and listing\<close>

record Unit =
  u_status :: UnitStatus
  u_labels :: labels

definition getUnit :: "'d SystemdProvider \<Rightarrow> string \<Rightarrow> labelCache \<Rightarrow> 'd \<Rightarrow> (goerror + Unit) \<times> labelCache" where
  "getUnit p name cache d =
     (case ListUnitsByNames (sd_Con p) [name] d of
        Inl err \<Rightarrow> (Inl err, cache)
      | Inr [] \<Rightarrow> (Inl (ErrText (''unit '' @ quoted name @ '' not found'')), cache)
      | Inr (st # sts) \<Rightarrow>
          if us_LoadState st = ''not-found'' then (Inl (ErrText (''unit '' @ quoted name @ '' not found'')), cache)
          else case getLabels p name cache d of
            (Inl err, cache) \<Rightarrow> (Inl err, cache)
          | (Inr labels, cache) \<Rightarrow> (Inr \<lparr>u_status = st, u_labels = labels\<rparr>, cache))"

definition infoFromUnit :: "Unit \<Rightarrow> InstanceInfo" where
  "infoFromUnit u =
     (let name = us_Name (u_status u);
          state = us_ActiveState (u_status u);
          info = (if state \<in> {''inactive'', ''deactivating'', ''maintenance''} then container_info name 0 InstanceStatusStopped []
                  else if state \<in> {''activating'', ''reloading'', ''refreshing''} then container_info name 0 InstanceStatusStarting []
                  else if state = ''active'' then container_info name 1 InstanceStatusReady []
                  else if state = ''failed'' then container_info name 0 InstanceStatusError ''systemd unit failed''
                  else container_info name 0 InstanceStatusError (''systemd unit status '' @ quoted state @ '' not handled''))
      in PopulateEnabledAndGroup (info\<lparr>i_Provider := ProviderSystemd\<rparr>) (u_labels u))"

definition systemd_InstanceInspect :: "'d SystemdProvider \<Rightarrow> string \<Rightarrow> labelCache \<Rightarrow> 'd \<Rightarrow> (goerror + InstanceInfo) \<times> labelCache" where
  "systemd_InstanceInspect p name cache d =
     (case getUnit p name cache d of
        (Inl err, cache) \<Rightarrow> (Inl (ErrWrap ''cannot inspect systemd unit'' err), cache)
      | (Inr u, cache) \<Rightarrow> (Inr (infoFromUnit u), cache))"

fun list_loop :: "'d SystemdProvider \<Rightarrow> UnitStatus list \<Rightarrow> labelCache \<Rightarrow> 'd \<Rightarrow> Unit list \<times> labelCache" where
  "list_loop p [] cache d = ([], cache)"
| "list_loop p (st # sts) cache d =
     (case getLabels p (us_Name st) cache d of
        (Inl err, cache) \<Rightarrow> list_loop p sts cache d
      | (Inr labels, cache) \<Rightarrow>
          if label_value labels LabelEnable = ''true''
          then case list_loop p sts cache d of (us, cache) \<Rightarrow> (\<lparr>u_status = st, u_labels = labels\<rparr> # us, cache)
          else list_loop p sts cache d)"

definition listUnits :: "'d SystemdProvider \<Rightarrow> bool \<Rightarrow> labelCache \<Rightarrow> 'd \<Rightarrow> (goerror + Unit list) \<times> labelCache" where
  "listUnits p all cache d =
     (case ListUnitsByPatterns (sd_Con p) (if all then [''loaded''] else [''active'']) (sd_unitPatterns p) d of
        Inl err \<Rightarrow> (Inl err, cache)
      | Inr sts \<Rightarrow> (case list_loop p sts cache d of (us, cache) \<Rightarrow> (Inr (sort_key (\<lambda>u. us_Name (u_status u)) us), cache)))"

definition unitToInstance :: "Unit \<Rightarrow> InstanceConfiguration" where
  "unitToInstance u =
     (let enabled = label_value (u_labels u) LabelEnable in
      \<lparr>c_Name = us_Name (u_status u),
       c_Groups = (if enabled = ''true'' then ParseGroups (label_value (u_labels u) LabelGroup) else []),
       c_Enabled = enabled\<rparr>)"

definition systemd_InstanceList :: "'d SystemdProvider \<Rightarrow> bool \<Rightarrow> labelCache \<Rightarrow> 'd \<Rightarrow>
    (goerror + InstanceConfiguration list) \<times> labelCache" where
  "systemd_InstanceList p all cache d =
     (case listUnits p all cache d of
        (Inl err, cache) \<Rightarrow> (Inl err, cache)
      | (Inr us, cache) \<Rightarrow> (Inr (map unitToInstance us), cache))"

fun unit_groups :: "Unit list \<Rightarrow> registry \<Rightarrow> registry" where
  "unit_groups [] groups = groups"
| "unit_groups (u # us) groups =
     unit_groups us (group_append (us_Name (u_status u)) (ParseGroups (label_value (u_labels u) LabelGroup)) groups)"

definition systemd_InstanceGroups :: "'d SystemdProvider \<Rightarrow> labelCache \<Rightarrow> 'd \<Rightarrow> (goerror + registry) \<times> labelCache" where
  "systemd_InstanceGroups p cache d =
     (case listUnits p True cache d of
        (Inl err, cache) \<Rightarrow> (Inl err, cache)
      | (Inr us, cache) \<Rightarrow> (Inr (unit_groups us []), cache))"

section \<open>Resource profiles\<close>

definition MaxUint64 :: int where
  "MaxUint64 = 2 ^ 64 - 1"

fun bpsDevices :: "'d SystemdProvider \<Rightarrow> BlkioThrottleDevice list \<Rightarrow> goerror + deviceLimit list" where
  "bpsDevices p [] = Inr []"
| "bpsDevices p (d # ds) =
     (case sd_RAMInBytes p (td_Rate d) of
        Inl err \<Rightarrow> Inl (ErrWrap (''invalid rate '' @ quoted (td_Rate d) @ '' for device '' @ td_Path d) err)
      | Inr rate \<Rightarrow>
          if rate < 0
          then Inl (ErrText (''rate for device '' @ td_Path d @ '' must be non-negative, got '' @ quoted (td_Rate d)))
          else map_sum id (\<lambda>out. \<lparr>dl_Path = td_Path d, dl_Value = uint64 rate\<rparr> # out) (bpsDevices p ds))"

fun iopsDevices :: "BlkioThrottleDevice list \<Rightarrow> goerror + deviceLimit list" where
  "iopsDevices [] = Inr []"
| "iopsDevices (d # ds) =
     (case ParseUint 64 (td_Rate d) of
        None \<Rightarrow> Inl (ErrText (''invalid iops value '' @ quoted (td_Rate d) @ '' for device '' @ td_Path d))
      | Some iops \<Rightarrow> map_sum id (\<lambda>out. \<lparr>dl_Path = td_Path d, dl_Value = iops\<rparr> # out) (iopsDevices ds))"

text \<open>The blocks of \<open>buildProperties\<close>: each adds at most one property.\<close>

definition cpu_property :: "'d SystemdProvider \<Rightarrow> ResourceProfile \<Rightarrow> ResourceProfile \<Rightarrow> goerror + unit_property list" where
  "cpu_property p profile clear =
     (if CPU profile \<noteq> [] then map_sum id (\<lambda>quota. [(''CPUQuotaPerSecUSec'', UInt quota)]) (sd_CPUQuota p (CPU profile))
      else if CPU clear \<noteq> [] then Inr [(''CPUQuotaPerSecUSec'', UInt MaxUint64)]
      else Inr [])"

definition memory_property :: "'d SystemdProvider \<Rightarrow> ResourceProfile \<Rightarrow> ResourceProfile \<Rightarrow> goerror + unit_property list" where
  "memory_property p profile clear =
     (if Memory profile \<noteq> [] then
        (case sd_RAMInBytes p (Memory profile) of
           Inl err \<Rightarrow> Inl (ErrWrap (''invalid memory value '' @ quoted (Memory profile)) err)
         | Inr mem \<Rightarrow>
             if mem \<le> 0 then Inl (ErrText (''memory value must be positive, got '' @ quoted (Memory profile)))
             else Inr [(''MemoryMax'', UInt (uint64 mem))])
      else if Memory clear \<noteq> [] then Inr [(''MemoryMax'', UInt MaxUint64)]
      else Inr [])"

definition weight_property :: "ResourceProfile \<Rightarrow> ResourceProfile \<Rightarrow> unit_property list" where
  "weight_property profile clear =
     (if BlkioWeight profile \<noteq> 0 then [(''IOWeight'', UInt (uint64 (BlkioWeight profile)))]
      else if BlkioWeight clear \<noteq> 0 then [(''IOWeight'', UInt MaxUint64)]
      else [])"

definition weight_devices_property :: "ResourceProfile \<Rightarrow> unit_property list" where
  "weight_devices_property profile =
     (if BlkioWeightDevices profile \<noteq> []
      then [(''IODeviceWeight'', Devices (map (\<lambda>d. \<lparr>dl_Path = wd_Path d, dl_Value = uint64 (wd_Weight d)\<rparr>) (BlkioWeightDevices profile)))]
      else [])"

definition devices_property :: "string \<Rightarrow> (BlkioThrottleDevice list \<Rightarrow> goerror + deviceLimit list) \<Rightarrow> BlkioThrottleDevice list \<Rightarrow>
    goerror + unit_property list" where
  "devices_property name parse devices =
     (if devices \<noteq> [] then map_sum id (\<lambda>ds. [(name, Devices ds)]) (parse devices) else Inr [])"

text \<open>The blocks in order; the first error is returned.\<close>

fun collect :: "(goerror + unit_property list) list \<Rightarrow> goerror + unit_property list" where
  "collect [] = Inr []"
| "collect (r # rs) = (case r of Inl err \<Rightarrow> Inl err | Inr props \<Rightarrow> map_sum id (\<lambda>out. props @ out) (collect rs))"

definition buildProperties :: "'d SystemdProvider \<Rightarrow> ResourceProfile \<Rightarrow> ResourceProfile \<Rightarrow> goerror + unit_property list" where
  "buildProperties p profile clear =
     collect
       [cpu_property p profile clear, memory_property p profile clear, Inr (weight_property profile clear),
        Inr (weight_devices_property profile),
        devices_property ''IOReadBandwidthMax'' (bpsDevices p) (BlkioDeviceReadBps profile),
        devices_property ''IOWriteBandwidthMax'' (bpsDevices p) (BlkioDeviceWriteBps profile),
        devices_property ''IOReadIOPSMax'' iopsDevices (BlkioDeviceReadIOps profile),
        devices_property ''IOWriteIOPSMax'' iopsDevices (BlkioDeviceWriteIOps profile)]"

definition device_names :: "string list" where
  "device_names = [''IODeviceWeight'', ''IOReadBandwidthMax'', ''IOWriteBandwidthMax'', ''IOReadIOPSMax'', ''IOWriteIOPSMax'']"

definition isDeviceProperty :: "string \<Rightarrow> bool" where
  "isDeviceProperty name \<longleftrightarrow> name \<in> set device_names"

definition deviceProperties :: "ResourceProfile \<Rightarrow> string list" where
  "deviceProperties profile =
     (if BlkioWeightDevices profile \<noteq> [] then [''IODeviceWeight''] else []) @
     (if BlkioDeviceReadBps profile \<noteq> [] then [''IOReadBandwidthMax''] else []) @
     (if BlkioDeviceWriteBps profile \<noteq> [] then [''IOWriteBandwidthMax''] else []) @
     (if BlkioDeviceReadIOps profile \<noteq> [] then [''IOReadIOPSMax''] else []) @
     (if BlkioDeviceWriteIOps profile \<noteq> [] then [''IOWriteIOPSMax''] else [])"

definition device_resets :: "unit_property list \<Rightarrow> ResourceProfile \<Rightarrow> unit_property list" where
  "device_resets props clear =
     (let resetNames = filter isDeviceProperty (map fst props) @ deviceProperties clear in
      map (\<lambda>name. (name, Devices [])) (filter (\<lambda>name. name \<in> set resetNames) device_names))"

definition systemd_applyResources :: "'d SystemdProvider \<Rightarrow> string \<Rightarrow> ResourceProfile \<Rightarrow> ResourceProfile \<Rightarrow> 'd \<Rightarrow>
    goerror option \<times> 'd" where
  "systemd_applyResources p name profile clear d =
     (case buildProperties p profile clear of
        Inl err \<Rightarrow> (Some err, d)
      | Inr props \<Rightarrow>
          let resets = device_resets props clear in
          if resets = [] \<and> props = [] then (None, d)
          else SetUnitProperties (sd_Con p) name True (resets @ props) d)"

definition scaleConfig :: "'d SystemdProvider \<Rightarrow> string \<Rightarrow> labelCache \<Rightarrow> 'd \<Rightarrow> (goerror + ScaleConfig) \<times> labelCache" where
  "scaleConfig p name cache d =
     (case getLabels p name cache d of
        (Inl err, cache) \<Rightarrow> (Inl err, cache)
      | (Inr labels, cache) \<Rightarrow>
          if label_value labels LabelEnable \<noteq> ''true''
          then (Inl (ErrText (''systemd unit '' @ quoted name @ '' is not enabled for Sablier'')), cache)
          else (Inr (ScaleConfigFromLabels labels), cache))"

section \<open>Starting and stopping\<close>

definition waitUnitJob :: "string \<Rightarrow> string \<Rightarrow> job_result \<Rightarrow> goerror option" where
  "waitUnitJob name action result =
     (case result of
        JobCancelled \<Rightarrow> Some ctx_Err
      | JobStatus status \<Rightarrow>
          if status = ''done'' then None
          else Some (ErrText (''systemd unit '' @ quoted name @ '' failed to '' @ action @ '': '' @ status)))"

definition startUnit :: "'d SystemdProvider \<Rightarrow> string \<Rightarrow> 'd \<Rightarrow> goerror option \<times> 'd" where
  "startUnit p name d =
     (case StartUnit (sd_Con p) name ''replace'' d of
        (Inl err, d) \<Rightarrow> (Some (ErrWrap (''cannot start systemd unit '' @ quoted name) err), d)
      | (Inr result, d) \<Rightarrow> (waitUnitJob name ''start'' result, d))"

definition stopUnit :: "'d SystemdProvider \<Rightarrow> string \<Rightarrow> 'd \<Rightarrow> goerror option \<times> 'd" where
  "stopUnit p name d =
     (case StopUnit (sd_Con p) name ''replace'' d of
        (Inl err, d) \<Rightarrow> (Some (ErrWrap (''cannot stop systemd unit '' @ quoted name) err), d)
      | (Inr result, d) \<Rightarrow> (waitUnitJob name ''stop'' result, d))"

definition systemd_InstanceDependencies :: "'d SystemdProvider \<Rightarrow> string \<Rightarrow> 'd \<Rightarrow> goerror + InstanceDependency list" where
  "systemd_InstanceDependencies p name d = Inr []"

definition systemd_InstanceStart :: "'d SystemdProvider \<Rightarrow> string \<Rightarrow> labelCache \<times> 'd \<Rightarrow> goerror option \<times> labelCache \<times> 'd" where
  "systemd_InstanceStart p name w =
     (case w of (cache, d) \<Rightarrow>
      case scaleConfig p name cache d of
        (Inl err, cache) \<Rightarrow> (Some (ErrWrap (''cannot read scale config for systemd unit '' @ quoted name) err), cache, d)
      | (Inr sc, cache) \<Rightarrow>
          (case (if HasResources (Active sc) \<or> HasResources (Idle sc)
                 then systemd_applyResources p name (Active sc) (Idle sc) d else (None, d)) of
             (Some err, d) \<Rightarrow> (Some (ErrWrap (''cannot apply active resource profile to systemd unit '' @ quoted name) err), cache, d)
           | (None, d) \<Rightarrow> (case startUnit p name d of (err, d) \<Rightarrow> (err, cache, d))))"

definition systemd_InstanceStop :: "'d SystemdProvider \<Rightarrow> string \<Rightarrow> labelCache \<times> 'd \<Rightarrow> goerror option \<times> labelCache \<times> 'd" where
  "systemd_InstanceStop p name w =
     (case w of (cache, d) \<Rightarrow>
      case scaleConfig p name cache d of
        (Inl err, cache) \<Rightarrow> (Some (ErrWrap (''cannot read scale config for systemd unit '' @ quoted name) err), cache, d)
      | (Inr sc, cache) \<Rightarrow>
          if Replicas (Idle sc) \<ge> 1 then
            (case systemd_applyResources p name (Idle sc) (Active sc) d of
               (Some err, d) \<Rightarrow> (Some (ErrWrap (''cannot apply idle resources to systemd unit '' @ quoted name) err), cache, d)
             | (None, d) \<Rightarrow> (None, cache, d))
          else (case stopUnit p name d of (err, d) \<Rightarrow> (err, cache, d)))"

section \<open>Events\<close>

definition isFinalState :: "string \<Rightarrow> bool" where
  "isFinalState state \<longleftrightarrow> state \<notin> {''activating'', ''deactivating'', ''reloading'', ''refreshing''}"

definition unitStatusChanged :: "UnitStatus option \<Rightarrow> UnitStatus option \<Rightarrow> bool" where
  "unitStatusChanged u1 u2 \<longleftrightarrow>
     (case (u1, u2) of
        (Some a, Some b) \<Rightarrow> us_ActiveState a \<noteq> us_ActiveState b \<and> isFinalState (us_ActiveState b)
      | _ \<Rightarrow> False)"

definition systemd_bare_info :: "string \<Rightarrow> InstanceStatus \<Rightarrow> InstanceInfo" where
  "systemd_bare_info name status = zero_InstanceInfo\<lparr>i_Name := name, i_Status := status, i_Provider := ProviderSystemd\<rparr>"

definition unit_event :: "'d SystemdProvider \<Rightarrow> 'd \<Rightarrow> labelCache \<Rightarrow> InstanceEventType \<Rightarrow> string \<Rightarrow> InstanceStatus \<Rightarrow>
    InstanceEvent option \<times> labelCache" where
  "unit_event p d cache kind name status =
     (case systemd_InstanceInspect p name cache d of
        (Inl err, cache) \<Rightarrow> (Some \<lparr>ev_Type = kind, ev_Info = systemd_bare_info name status\<rparr>, cache)
      | (Inr info, cache) \<Rightarrow> (Some \<lparr>ev_Type = kind, ev_Info = info\<rparr>, cache))"

definition buildEvent :: "'d SystemdProvider \<Rightarrow> InstanceEventType list \<Rightarrow> 'd \<Rightarrow> labelCache \<Rightarrow> string \<Rightarrow> UnitStatus option \<Rightarrow>
    InstanceEvent option \<times> labelCache" where
  "buildEvent p types d cache name status =
     (case status of
        None \<Rightarrow>
          if \<not> wants types InstanceEventRemoved then (None, cache)
          else (Some \<lparr>ev_Type = InstanceEventRemoved, ev_Info = systemd_bare_info name InstanceStatusUnset\<rparr>, cache)
      | Some st \<Rightarrow>
          if us_LoadState st = ''not-found'' then (None, cache)
          else if us_ActiveState st = ''active'' then
            if \<not> wants types InstanceEventStarted then (None, cache)
            else unit_event p d cache InstanceEventStarted name InstanceStatusStarting
          else if us_ActiveState st \<in> {''inactive'', ''failed'', ''maintenance''} then
            if \<not> wants types InstanceEventStopped then (None, cache)
            else unit_event p d cache InstanceEventStopped name InstanceStatusStopped
          else (None, cache))"

text \<open>
  What the loop receives. Each change of a batch comes with the state of the machine at its
  inspection, in the order in which the map is iterated; \<open>room\<close> is the number of events after which
  the context ends while one is being sent.
\<close>

datatype 'd unit_arrival =
    UnitChanges "('d \<times> string \<times> UnitStatus option) list" "nat option"
  | ChangesClosed | UnitError goerror | UnitErrClosed | UnitDone

fun send_changes :: "'d SystemdProvider \<Rightarrow> InstanceEventType list \<Rightarrow> ('d \<times> string \<times> UnitStatus option) list \<Rightarrow> nat option \<Rightarrow>
    labelCache \<Rightarrow> InstanceEvent list \<times> bool \<times> labelCache" where
  "send_changes p types [] room cache = ([], True, cache)"
| "send_changes p types ((d, name, status) # rest) room cache =
     (case buildEvent p types d cache name status of
        (None, cache) \<Rightarrow> send_changes p types rest room cache
      | (Some event, cache) \<Rightarrow>
          if room = Some 0 then ([], False, cache)
          else case send_changes p types rest (map_option (\<lambda>n. n - 1) room) cache of
            (events, alive, cache) \<Rightarrow> (event # events, alive, cache))"

fun systemd_InstanceEvents :: "'d SystemdProvider \<Rightarrow> InstanceEventType list \<Rightarrow> 'd unit_arrival list \<Rightarrow> labelCache \<Rightarrow>
    InstanceEvent list \<times> labelCache" where
  "systemd_InstanceEvents p types [] cache = ([], cache)"
| "systemd_InstanceEvents p types (UnitChanges changed room # rest) cache =
     (case send_changes p types changed room cache of
        (events, alive, cache) \<Rightarrow>
          if alive then (case systemd_InstanceEvents p types rest cache of (more', cache) \<Rightarrow> (events @ more', cache))
          else (events, cache))"
| "systemd_InstanceEvents p types (ChangesClosed # rest) cache = ([], cache)"
| "systemd_InstanceEvents p types (UnitError err # rest) cache = systemd_InstanceEvents p types rest cache"
| "systemd_InstanceEvents p types (UnitErrClosed # rest) cache = ([], cache)"
| "systemd_InstanceEvents p types (UnitDone # rest) cache = ([], cache)"

section \<open>The provider\<close>

text \<open>
  The provider as the core calls it. What an inspection or a listing adds to the cache is dropped
  here; the cache is transparent.
\<close>

definition systemd_ops :: "'d SystemdProvider \<Rightarrow> (labelCache \<times> 'd) provider_ops" where
  "systemd_ops p =
     \<lparr>p_Start = systemd_InstanceStart p, p_Stop = systemd_InstanceStop p,
      p_Inspect = (\<lambda>name (cache, d). fst (systemd_InstanceInspect p name cache d)),
      p_Groups = (\<lambda>(cache, d). map_sum id Some (fst (systemd_InstanceGroups p cache d))),
      p_List = (\<lambda>all (cache, d). fst (systemd_InstanceList p all cache d)),
      p_Dependencies = (\<lambda>name (cache, d). systemd_InstanceDependencies p name d)\<rparr>"

end
