(* ===== verification/Systemd_Facts.thy ===== *)
theory Systemd_Facts
  imports Systemd
begin

text \<open>
  What the systemd provider guarantees: its label cache is transparent, switching between the
  resource profiles leaves no limit of the other profile behind, and starts and stops do to a unit
  what they should on a service manager that behaves as documented (\<open>service_manager\<close>).
\<close>

section \<open>The label cache\<close>

text \<open>
  The labels without a cache, and what the cache relies on: a unit file with the same time of
  modification and size has the same content.
\<close>

definition unit_labels :: "'d SystemdProvider \<Rightarrow> string \<Rightarrow> 'd \<Rightarrow> goerror + labels" where
  "unit_labels p name d =
     (case FragmentPath (sd_Con p) name d of
        Inl err \<Rightarrow> Inl err
      | Inr None \<Rightarrow> Inr []
      | Inr (Some path) \<Rightarrow>
          if path = [] then Inr []
          else case Stat (sd_Con p) path d of Inl err \<Rightarrow> Inl err | Inr info \<Rightarrow> labelsFromUnitFile p path d)"

definition stamped_files :: "'d systemd_client \<Rightarrow> bool" where
  "stamped_files cli \<longleftrightarrow>
     (\<forall>path d d' info info'. Stat cli path d = Inr info \<and> Stat cli path d' = Inr info' \<and>
        fi_ModTime info = fi_ModTime info' \<and> fi_Size info = fi_Size info' \<longrightarrow> ini_Load cli path d = ini_Load cli path d')"

definition cache_ok :: "'d SystemdProvider \<Rightarrow> labelCache \<Rightarrow> bool" where
  "cache_ok p cache \<longleftrightarrow>
     (\<forall>path e d info. map_of cache path = Some e \<and> Stat (sd_Con p) path d = Inr info \<and>
        fi_ModTime info = lc_mtime e \<and> fi_Size info = lc_size e \<longrightarrow> labelsFromUnitFile p path d = Inr (lc_labels e))"

lemma cache_ok_Nil [simp]: "cache_ok p []"
  by (simp add: cache_ok_def)

lemma cached_labels:
  assumes "stamped_files (sd_Con p)" "cache_ok p cache" "labelsFromUnitFileCached p path cache d = (r, cache')"
  shows "r = (case Stat (sd_Con p) path d of Inl err \<Rightarrow> Inl err | Inr info \<Rightarrow> labelsFromUnitFile p path d) \<and> cache_ok p cache'"
proof (cases "Stat (sd_Con p) path d")
  case (Inl err)
  with assms show ?thesis by (simp add: labelsFromUnitFileCached_def)
next
  case (Inr info)
  have same: "labelsFromUnitFile p path d' = labelsFromUnitFile p path d"
    if "Stat (sd_Con p) path d' = Inr i" "fi_ModTime i = fi_ModTime info" "fi_Size i = fi_Size info" for d' i
  proof -
    have "ini_Load (sd_Con p) path d' = ini_Load (sd_Con p) path d"
      using assms(1) that Inr unfolding stamped_files_def by blast
    then show ?thesis by (simp add: labelsFromUnitFile_def)
  qed
  have put: "cache_ok p (map_put path \<lparr>lc_labels = l, lc_mtime = fi_ModTime info, lc_size = fi_Size info\<rparr> cache)"
    if "labelsFromUnitFile p path d = Inr l" for l
    using assms(2) same that unfolding cache_ok_def by (auto simp: gomap_simps)
  have hit: "labelsFromUnitFile p path d = Inr (lc_labels e)"
    if "map_of cache path = Some e" "lc_mtime e = fi_ModTime info" "lc_size e = fi_Size info" for e
    using assms(2) that Inr unfolding cache_ok_def by metis
  show ?thesis
    using assms(2,3) put hit Inr
    by (auto simp: labelsFromUnitFileCached_def Let_def split: option.splits sum.splits if_splits)
qed

lemma getLabels_plain:
  assumes "stamped_files (sd_Con p)" "cache_ok p cache" "getLabels p name cache d = (r, cache')"
  shows "r = unit_labels p name d" "cache_ok p cache'"
  using assms(2,3) cached_labels [OF assms(1,2), of _ d r cache']
  by (auto simp: getLabels_def unit_labels_def split: sum.split_asm option.split_asm if_split_asm)

lemma getUnit_plain:
  assumes "stamped_files (sd_Con p)" "cache_ok p cache" "getUnit p name cache d = (r, cache')"
  shows "(\<exists>cache0. getUnit p name [] d = (r, cache0)) \<and> cache_ok p cache'"
proof -
  obtain l c l0 c0 where g: "getLabels p name cache d = (l, c)" "getLabels p name [] d = (l0, c0)" by fastforce
  from getLabels_plain [OF assms(1,2) g(1)] getLabels_plain [OF assms(1) cache_ok_Nil g(2)]
  have "l = l0" "cache_ok p c" by simp_all
  with assms(2,3) g show ?thesis
    by (auto simp: getUnit_def split: sum.splits list.splits if_splits)
qed

definition enabled_unit :: "'d SystemdProvider \<Rightarrow> 'd \<Rightarrow> UnitStatus \<Rightarrow> Unit option" where
  "enabled_unit p d st =
     (case unit_labels p (us_Name st) d of
        Inl err \<Rightarrow> None
      | Inr l \<Rightarrow> if label_value l LabelEnable = ''true'' then Some \<lparr>u_status = st, u_labels = l\<rparr> else None)"

lemma list_loop_plain:
  assumes "stamped_files (sd_Con p)" "cache_ok p cache" "list_loop p sts cache d = (us, cache')"
  shows "us = List.map_filter (enabled_unit p d) sts \<and> cache_ok p cache'"
  using assms(2,3)
proof (induction sts arbitrary: cache us cache')
  case Nil
  then show ?case by (simp add: map_filter_simps)
next
  case (Cons st sts)
  obtain l c where g: "getLabels p (us_Name st) cache d = (l, c)" by fastforce
  note G = getLabels_plain [OF assms(1) Cons.prems(1) g]
  obtain us' c' where r: "list_loop p sts c d = (us', c')" by fastforce
  have "enabled_unit p d st = (case l of Inl err \<Rightarrow> None | Inr ls \<Rightarrow>
      if label_value ls LabelEnable = ''true'' then Some \<lparr>u_status = st, u_labels = ls\<rparr> else None)"
    by (simp only: enabled_unit_def G(1))
  with Cons.IH [OF G(2) r] Cons.prems(2) g r show ?case
    by (cases l) (auto simp: map_filter_simps split: if_splits)
qed

lemma listUnits_plain:
  assumes "stamped_files (sd_Con p)" "cache_ok p cache" "listUnits p all cache d = (r, cache')"
  shows "(\<exists>cache0. listUnits p all [] d = (r, cache0)) \<and> cache_ok p cache'"
proof (cases "ListUnitsByPatterns (sd_Con p) (if all then [''loaded''] else [''active'']) (sd_unitPatterns p) d")
  case (Inl err)
  with assms show ?thesis by (simp add: listUnits_def)
next
  case (Inr sts)
  obtain us c us0 c0 where l: "list_loop p sts cache d = (us, c)" "list_loop p sts [] d = (us0, c0)" by fastforce
  from list_loop_plain [OF assms(1,2) l(1)] list_loop_plain [OF assms(1) cache_ok_Nil l(2)]
  have "us = us0" "cache_ok p c" by simp_all
  with assms(3) Inr l show ?thesis by (auto simp: listUnits_def)
qed

lemma scaleConfig_plain:
  assumes F: "stamped_files (sd_Con p)" and ok: "cache_ok p cache" and i: "scaleConfig p name cache d = (r, cache')"
  shows "(\<exists>cache0. scaleConfig p name [] d = (r, cache0)) \<and> cache_ok p cache'"
proof -
  obtain l c l0 c0 where g: "getLabels p name cache d = (l, c)" "getLabels p name [] d = (l0, c0)" by fastforce
  from getLabels_plain [OF F ok g(1)] getLabels_plain [OF F cache_ok_Nil g(2)] have "l = l0" "cache_ok p c" by simp_all
  with g i show ?thesis by (cases l) (auto simp: scaleConfig_def split: if_splits)
qed

lemma inspect_plain:
  assumes F: "stamped_files (sd_Con p)" and ok: "cache_ok p cache" and i: "systemd_InstanceInspect p name cache d = (r, cache')"
  shows "r = fst (systemd_InstanceInspect p name [] d) \<and> cache_ok p cache'"
proof -
  obtain u c where g: "getUnit p name cache d = (u, c)" by fastforce
  from getUnit_plain [OF F ok g] i g show ?thesis by (cases u) (auto simp: systemd_InstanceInspect_def)
qed

lemma listings_plain:
  assumes F: "stamped_files (sd_Con p)" and ok: "cache_ok p cache"
  shows "systemd_InstanceList p all cache d = (r, cache') \<Longrightarrow> r = fst (systemd_InstanceList p all [] d) \<and> cache_ok p cache'"
    and "systemd_InstanceGroups p cache d = (g, cache') \<Longrightarrow> g = fst (systemd_InstanceGroups p [] d) \<and> cache_ok p cache'"
proof -
  have u: "\<exists>u c c0. listUnits p all cache d = (u, c) \<and> listUnits p all [] d = (u, c0) \<and> cache_ok p c" for all
    using listUnits_plain [OF F ok] by (metis surj_pair)
  assume "systemd_InstanceList p all cache d = (r, cache')"
  with u [of all] show "r = fst (systemd_InstanceList p all [] d) \<and> cache_ok p cache'"
    by (auto simp: systemd_InstanceList_def split: sum.splits)
next
  have u: "\<exists>u c c0. listUnits p all cache d = (u, c) \<and> listUnits p all [] d = (u, c0) \<and> cache_ok p c" for all
    using listUnits_plain [OF F ok] by (metis surj_pair)
  assume "systemd_InstanceGroups p cache d = (g, cache')"
  with u [of True] show "g = fst (systemd_InstanceGroups p [] d) \<and> cache_ok p cache'"
    by (auto simp: systemd_InstanceGroups_def split: sum.splits)
qed

lemma start_stop_plain:
  assumes F: "stamped_files (sd_Con p)" and ok: "cache_ok p cache"
  shows "systemd_InstanceStart p name (cache, d) = (err, cache', d') \<Longrightarrow>
      (\<exists>cache0. systemd_InstanceStart p name ([], d) = (err, cache0, d')) \<and> cache_ok p cache'"
    and "systemd_InstanceStop p name (cache, d) = (err, cache', d') \<Longrightarrow>
      (\<exists>cache0. systemd_InstanceStop p name ([], d) = (err, cache0, d')) \<and> cache_ok p cache'"
proof -
  obtain sc c where g: "scaleConfig p name cache d = (sc, c)" by fastforce
  with scaleConfig_plain [OF F ok] obtain c0 where c: "scaleConfig p name [] d = (sc, c0)" "cache_ok p c" by blast
  show "systemd_InstanceStart p name (cache, d) = (err, cache', d') \<Longrightarrow>
      (\<exists>cache0. systemd_InstanceStart p name ([], d) = (err, cache0, d')) \<and> cache_ok p cache'"
    using g c by (cases sc) (auto simp: systemd_InstanceStart_def split: prod.splits option.splits)
  show "systemd_InstanceStop p name (cache, d) = (err, cache', d') \<Longrightarrow>
      (\<exists>cache0. systemd_InstanceStop p name ([], d) = (err, cache0, d')) \<and> cache_ok p cache'"
    using g c by (cases sc) (auto simp: systemd_InstanceStop_def split: prod.splits option.splits if_splits)
qed


section \<open>What properties do\<close>

text \<open>
  The limits of a unit, and the documented effect of setting properties on them: a number
  replaces the limit, an empty list of devices removes the limits of that kind, and any other
  list sets the limits of its devices.
\<close>

record unit_view =
  uv_Active :: string
  uv_Number :: "string \<Rightarrow> int option"
  uv_Devices :: "string \<Rightarrow> string \<Rightarrow> int option"

definition set_devices :: "deviceLimit list \<Rightarrow> (string \<Rightarrow> int option) \<Rightarrow> string \<Rightarrow> int option" where
  "set_devices ds m = (if ds = [] then Map.empty else fold (\<lambda>l m. m(dl_Path l \<mapsto> dl_Value l)) ds m)"

fun set_property :: "unit_property \<Rightarrow> unit_view \<Rightarrow> unit_view" where
  "set_property (name, UInt v) u = u\<lparr>uv_Number := (uv_Number u)(name \<mapsto> v)\<rparr>"
| "set_property (name, Devices ds) u = u\<lparr>uv_Devices := (uv_Devices u)(name := set_devices ds (uv_Devices u name))\<rparr>"

definition set_properties :: "unit_property list \<Rightarrow> unit_view \<Rightarrow> unit_view" where
  "set_properties props u = fold set_property props u"

text \<open>Only the properties of a name matter for its limit.\<close>

definition values_of :: "string \<Rightarrow> unit_property list \<Rightarrow> prop_value list" where
  "values_of name props = map snd (filter (\<lambda>(n, v). n = name) props)"

lemma values_of_simps [simp]:
  "values_of n [] = []" "values_of n (xs @ ys) = values_of n xs @ values_of n ys"
  "values_of n ((m, v) # xs) = (if m = n then v # values_of n xs else values_of n xs)"
  by (simp_all add: values_of_def)

fun set_number :: "prop_value \<Rightarrow> int option \<Rightarrow> int option" where
  "set_number (UInt v) x = Some v"
| "set_number (Devices ds) x = x"

fun set_limit :: "prop_value \<Rightarrow> (string \<Rightarrow> int option) \<Rightarrow> string \<Rightarrow> int option" where
  "set_limit (UInt v) m = m"
| "set_limit (Devices ds) m = set_devices ds m"

lemma set_properties_at:
  "uv_Number (set_properties props u) n = fold set_number (values_of n props) (uv_Number u n)"
  "uv_Devices (set_properties props u) n = fold set_limit (values_of n props) (uv_Devices u n)"
  "uv_Active (set_properties props u) = uv_Active u"
proof (induction props arbitrary: u)
  case (Cons x props)
  obtain m v where x: "x = (m, v)" by fastforce
  { case 1 show ?case using Cons.IH(1) [of "set_property x u"] by (cases v) (auto simp: x set_properties_def) }
  { case 2 show ?case using Cons.IH(2) [of "set_property x u"] by (cases v) (auto simp: x set_properties_def) }
  { case 3 show ?case using Cons.IH(3) [of "set_property x u"] by (cases v) (auto simp: x set_properties_def) }
qed (simp_all add: set_properties_def)

text \<open>The limits that a profile asks for, by the name of the property.\<close>

definition number_limit :: "'d SystemdProvider \<Rightarrow> ResourceProfile \<Rightarrow> string \<Rightarrow> int option" where
  "number_limit p r n =
     (if n = ''CPUQuotaPerSecUSec'' \<and> CPU r \<noteq> [] then Some (projr (sd_CPUQuota p (CPU r)))
      else if n = ''MemoryMax'' \<and> Memory r \<noteq> [] then Some (uint64 (projr (sd_RAMInBytes p (Memory r))))
      else if n = ''IOWeight'' \<and> BlkioWeight r \<noteq> 0 then Some (uint64 (BlkioWeight r))
      else None)"

definition number_set :: "ResourceProfile \<Rightarrow> string \<Rightarrow> bool" where
  "number_set r n \<longleftrightarrow>
     n = ''CPUQuotaPerSecUSec'' \<and> CPU r \<noteq> [] \<or> n = ''MemoryMax'' \<and> Memory r \<noteq> [] \<or> n = ''IOWeight'' \<and> BlkioWeight r \<noteq> 0"

definition device_list :: "'d SystemdProvider \<Rightarrow> ResourceProfile \<Rightarrow> string \<Rightarrow> deviceLimit list" where
  "device_list p r n =
     (if n = ''IODeviceWeight'' then map (\<lambda>d. \<lparr>dl_Path = wd_Path d, dl_Value = uint64 (wd_Weight d)\<rparr>) (BlkioWeightDevices r)
      else if n = ''IOReadBandwidthMax'' then projr (bpsDevices p (BlkioDeviceReadBps r))
      else if n = ''IOWriteBandwidthMax'' then projr (bpsDevices p (BlkioDeviceWriteBps r))
      else if n = ''IOReadIOPSMax'' then projr (iopsDevices (BlkioDeviceReadIOps r))
      else if n = ''IOWriteIOPSMax'' then projr (iopsDevices (BlkioDeviceWriteIOps r))
      else [])"

definition device_set :: "ResourceProfile \<Rightarrow> string \<Rightarrow> bool" where
  "device_set r n \<longleftrightarrow> n \<in> set (deviceProperties r)"

definition limits_switched :: "'d SystemdProvider \<Rightarrow> ResourceProfile \<Rightarrow> ResourceProfile \<Rightarrow> unit_view \<Rightarrow> unit_view \<Rightarrow> bool" where
  "limits_switched p profile clear u u' \<longleftrightarrow>
     uv_Active u' = uv_Active u \<and>
     (\<forall>n. uv_Number u' n =
        (case number_limit p profile n of
           Some v \<Rightarrow> Some v
         | None \<Rightarrow> if number_set clear n then Some MaxUint64 else uv_Number u n)) \<and>
     (\<forall>n. uv_Devices u' n =
        (if device_set profile n \<or> device_set clear n
         then fold (\<lambda>l m. m(dl_Path l \<mapsto> dl_Value l)) (device_list p profile n) Map.empty
         else uv_Devices u n))"

lemma collect_Inr: "collect rs = Inr props \<Longrightarrow> props = concat (map projr rs) \<and> (\<forall>r\<in>set rs. isl r \<longrightarrow> False)"
proof (induction rs arbitrary: props)
  case (Cons r rs)
  then show ?case by (cases r; cases "collect rs") auto
qed simp

lemma values_of_scalars:
  assumes "\<not> isl (cpu_property p A B)" "\<not> isl (memory_property p A B)"
  shows "values_of n (projr (cpu_property p A B)) =
      (if n = ''CPUQuotaPerSecUSec'' then
         if CPU A \<noteq> [] then [UInt (projr (sd_CPUQuota p (CPU A)))] else if CPU B \<noteq> [] then [UInt MaxUint64] else [] else [])"
    and "values_of n (projr (memory_property p A B)) =
      (if n = ''MemoryMax'' then
         if Memory A \<noteq> [] then [UInt (uint64 (projr (sd_RAMInBytes p (Memory A))))] else if Memory B \<noteq> [] then [UInt MaxUint64] else []
       else [])"
    and "values_of n (weight_property A B) =
      (if n = ''IOWeight'' then
         if BlkioWeight A \<noteq> 0 then [UInt (uint64 (BlkioWeight A))] else if BlkioWeight B \<noteq> 0 then [UInt MaxUint64] else []
       else [])"
  using assms
  by (auto simp: cpu_property_def memory_property_def weight_property_def map_sum_def split: sum.splits if_splits)

lemma values_of_devices:
  "\<not> isl (devices_property m parse ds) \<Longrightarrow>
   values_of n (projr (devices_property m parse ds)) = (if n = m \<and> ds \<noteq> [] then [Devices (projr (parse ds))] else [])"
  "values_of n (weight_devices_property A) =
     (if n = ''IODeviceWeight'' \<and> BlkioWeightDevices A \<noteq> [] then [Devices (device_list p A n)] else [])"
  by (auto simp: devices_property_def weight_devices_property_def device_list_def map_sum_def split: sum.splits)

lemma buildProperties_named:
  assumes "buildProperties p A B = Inr props"
  shows "values_of n props =
     (if device_set A n then [Devices (device_list p A n)]
      else case number_limit p A n of
        Some v \<Rightarrow> [UInt v]
      | None \<Rightarrow> if number_set B n then [UInt MaxUint64] else [])"
proof -
  note C = collect_Inr [OF assms [unfolded buildProperties_def]]
  have ok: "\<not> isl (cpu_property p A B)" "\<not> isl (memory_property p A B)"
    "\<not> isl (devices_property ''IOReadBandwidthMax'' (bpsDevices p) (BlkioDeviceReadBps A))"
    "\<not> isl (devices_property ''IOWriteBandwidthMax'' (bpsDevices p) (BlkioDeviceWriteBps A))"
    "\<not> isl (devices_property ''IOReadIOPSMax'' iopsDevices (BlkioDeviceReadIOps A))"
    "\<not> isl (devices_property ''IOWriteIOPSMax'' iopsDevices (BlkioDeviceWriteIOps A))"
    using C by auto
  have "props = projr (cpu_property p A B) @ projr (memory_property p A B) @ weight_property A B @ weight_devices_property A @
      projr (devices_property ''IOReadBandwidthMax'' (bpsDevices p) (BlkioDeviceReadBps A)) @
      projr (devices_property ''IOWriteBandwidthMax'' (bpsDevices p) (BlkioDeviceWriteBps A)) @
      projr (devices_property ''IOReadIOPSMax'' iopsDevices (BlkioDeviceReadIOps A)) @
      projr (devices_property ''IOWriteIOPSMax'' iopsDevices (BlkioDeviceWriteIOps A))"
    using C by simp
  then show ?thesis
    by (simp add: values_of_scalars [OF ok(1,2)] values_of_devices(1) [OF ok(3)] values_of_devices(1) [OF ok(4)] values_of_devices(1) [OF ok(5)]
        values_of_devices(1) [OF ok(6)] values_of_devices(2) [where p = p] device_set_def deviceProperties_def number_limit_def
        number_set_def device_list_def)
qed

lemma values_of_Nil_iff: "values_of n props = [] \<longleftrightarrow> n \<notin> fst ` set props"
  by (induction props) (auto split: if_splits)

lemma values_of_map_const: "distinct ns \<Longrightarrow> values_of n (map (\<lambda>m. (m, v)) ns) = (if n \<in> set ns then [v] else [])"
  by (induction ns) auto

lemma device_set_names: "device_set r n \<Longrightarrow> n \<in> set device_names"
  by (auto simp: device_set_def deviceProperties_def device_names_def split: if_splits)

lemma number_names:
  "n \<in> set device_names \<Longrightarrow> number_limit p r n = None \<and> \<not> number_set r n"
  by (auto simp: device_names_def number_limit_def number_set_def)

lemma device_resets_named:
  assumes "buildProperties p A B = Inr props"
  shows "values_of n (device_resets props B) = (if device_set A n \<or> device_set B n then [Devices []] else [])"
proof -
  have "distinct (filter (\<lambda>name. name \<in> set (filter isDeviceProperty (map fst props) @ deviceProperties B)) device_names)"
    by (intro distinct_filter) (simp add: device_names_def)
  note N = values_of_map_const [OF this, of n "Devices []"]
  have "n \<in> set (map fst props) \<longleftrightarrow> device_set A n" if "n \<in> set device_names"
    using values_of_Nil_iff [of n props] number_names [OF that, of p A] number_names [OF that, of p B]
    by (auto simp: buildProperties_named [OF assms] split: if_splits)
  with device_set_names [of A n] device_set_names [of B n] show ?thesis
    unfolding device_resets_def Let_def N by (auto simp: isDeviceProperty_def device_set_def)
qed

lemma switch_limits:
  assumes "buildProperties p A B = Inr props"
  shows "limits_switched p A B u (set_properties (device_resets props B @ props) u)"
proof -
  have d: "set_devices (device_list p A n) Map.empty = fold (\<lambda>l m. m(dl_Path l \<mapsto> dl_Value l)) (device_list p A n) Map.empty" for n
    by (simp add: set_devices_def)
  have e: "device_list p A n = []" if "\<not> device_set A n" for n
    using that by (auto simp: device_set_def deviceProperties_def device_list_def split: if_splits)
  have z: "number_limit p A n = None" if "device_set A n" for n
    using number_names [OF device_set_names [OF that], of p A] by simp
  show ?thesis unfolding limits_switched_def set_properties_at values_of_simps(2)
    buildProperties_named [OF assms] device_resets_named [OF assms]
    by (auto simp: d e z set_devices_def dest: device_set_names number_names [of _ p A] number_names [of _ p B] split: option.splits)
qed

lemma nothing_to_switch:
  assumes "buildProperties p A B = Inr []" "device_resets [] B = []"
  shows "limits_switched p A B u u"
  using switch_limits [OF assms(1), of u] assms(2) by (simp add: set_properties_def)

section \<open>Lifecycle\<close>

text \<open>
  The documented behaviour of the service manager: \<open>view d\<close> shows the loaded units; a start job and
  a stop job that are done leave the unit active or inactive, setting properties changes its limits,
  and none of them touches another unit or the unit files.
\<close>

definition same_files :: "'d systemd_client \<Rightarrow> 'd \<Rightarrow> 'd \<Rightarrow> bool" where
  "same_files cli d d' \<longleftrightarrow>
     (\<forall>n. FragmentPath cli n d' = FragmentPath cli n d) \<and> (\<forall>f. Stat cli f d' = Stat cli f d \<and> ini_Load cli f d' = ini_Load cli f d)"

definition service_manager :: "'d systemd_client \<Rightarrow> ('d \<Rightarrow> string \<Rightarrow> unit_view option) \<Rightarrow> bool" where
  "service_manager cli view \<longleftrightarrow>
     (\<forall>d n u. view d n = Some u \<longrightarrow>
        (\<exists>d'. StartUnit cli n ''replace'' d = (Inr (JobStatus ''done''), d') \<and>
           view d' = (view d)(n \<mapsto> u\<lparr>uv_Active := ''active''\<rparr>) \<and> same_files cli d d') \<and>
        (\<exists>d'. StopUnit cli n ''replace'' d = (Inr (JobStatus ''done''), d') \<and>
           view d' = (view d)(n \<mapsto> u\<lparr>uv_Active := ''inactive''\<rparr>) \<and> same_files cli d d') \<and>
        (\<forall>props. \<exists>d'. SetUnitProperties cli n True props d = (None, d') \<and>
           view d' = (view d)(n \<mapsto> set_properties props u) \<and> same_files cli d d'))"

lemma manager_start:
  assumes "service_manager (sd_Con p) view" "view d n = Some u"
  shows "\<exists>d'. startUnit p n d = (None, d') \<and> view d' = (view d)(n \<mapsto> u\<lparr>uv_Active := ''active''\<rparr>) \<and> same_files (sd_Con p) d d'"
    and "\<exists>d'. stopUnit p n d = (None, d') \<and> view d' = (view d)(n \<mapsto> u\<lparr>uv_Active := ''inactive''\<rparr>) \<and> same_files (sd_Con p) d d'"
  using assms unfolding service_manager_def startUnit_def stopUnit_def waitUnitJob_def by fastforce+

lemma same_files_refl [simp]: "same_files cli d d"
  by (simp add: same_files_def)

lemma same_files_trans: "same_files cli d d' \<Longrightarrow> same_files cli d' d'' \<Longrightarrow> same_files cli d d''"
  by (simp add: same_files_def)

lemma unit_labels_same_files: "same_files (sd_Con p) d d' \<Longrightarrow> unit_labels p n d' = unit_labels p n d"
  by (auto simp: same_files_def unit_labels_def labelsFromUnitFile_def split: sum.splits option.splits)

lemma manager_limits:
  assumes M: "service_manager (sd_Con p) view" and v: "view d n = Some u" and b: "buildProperties p A B = Inr props"
  shows "\<exists>d' u'. systemd_applyResources p n A B d = (None, d') \<and> view d' = (view d)(n \<mapsto> u') \<and>
    limits_switched p A B u u' \<and> same_files (sd_Con p) d d'"
proof (cases "device_resets props B = [] \<and> props = []")
  case True
  then have "limits_switched p A B u u" using nothing_to_switch b by blast
  with True b v show ?thesis
    by (intro exI [of _ d] exI [of _ u]) (auto simp: systemd_applyResources_def fun_eq_iff)
next
  case False
  obtain d' where d': "SetUnitProperties (sd_Con p) n True (device_resets props B @ props) d = (None, d')"
    "view d' = (view d)(n \<mapsto> set_properties (device_resets props B @ props) u)" "same_files (sd_Con p) d d'"
    using M v unfolding service_manager_def by blast
  with False switch_limits [OF b, of u] b show ?thesis by (auto simp: systemd_applyResources_def Let_def)
qed

text \<open>When neither profile has resources, there is nothing to switch.\<close>

lemma no_resources_switched: "\<not> HasResources A \<Longrightarrow> \<not> HasResources B \<Longrightarrow> limits_switched p A B u u"
  by (auto simp: limits_switched_def HasResources_def HasBlkioDeviceLimits_def number_limit_def number_set_def device_set_def
      deviceProperties_def)

lemma no_resources_build: "\<not> HasResources A \<Longrightarrow> \<not> HasResources B \<Longrightarrow> buildProperties p A B = Inr []"
  by (simp add: HasResources_def HasBlkioDeviceLimits_def buildProperties_def cpu_property_def memory_property_def
      weight_property_def weight_devices_property_def devices_property_def)

lemma limits_switched_active:
  "limits_switched p A B u u' \<Longrightarrow> limits_switched p A B (u\<lparr>uv_Active := a\<rparr>) (u'\<lparr>uv_Active := a\<rparr>)"
  by (auto simp: limits_switched_def split: option.splits)

lemma start_limits:
  assumes M: "service_manager (sd_Con p) view" and v: "view d n = Some u" and b: "buildProperties p A B = Inr props"
  shows "\<exists>d' u'. (if HasResources A \<or> HasResources B then systemd_applyResources p n A B d else (None, d)) = (None, d') \<and>
    view d' = (view d)(n \<mapsto> u') \<and> limits_switched p A B u u' \<and> same_files (sd_Con p) d d'"
proof (cases "HasResources A \<or> HasResources B")
  case True
  with manager_limits [OF assms] show ?thesis by simp
next
  case False
  with no_resources_switched [of A B p u] v show ?thesis by (intro exI [of _ d] exI [of _ u]) (auto simp: fun_eq_iff)
qed

lemma scaleConfig_enabled:
  assumes "stamped_files (sd_Con p)" "cache_ok p cache" "unit_labels p n d = Inr l"
  shows "\<exists>cache'. scaleConfig p n cache d =
      ((if label_value l LabelEnable = ''true'' then Inr (ScaleConfigFromLabels l)
        else Inl (ErrText (''systemd unit '' @ quoted n @ '' is not enabled for Sablier''))), cache') \<and> cache_ok p cache'"
proof -
  obtain r c where g: "getLabels p n cache d = (r, c)" by fastforce
  from getLabels_plain [OF assms(1,2) g] assms(3) g show ?thesis by (auto simp: scaleConfig_def)
qed

lemma start_enabled:
  assumes M: "service_manager (sd_Con p) view" and v: "view d n = Some u" and S: "scaleConfig p n cache d = (Inr sc, c)"
  shows "case buildProperties p (Active sc) (Idle sc) of
      Inl e \<Rightarrow> \<exists>err cache'. systemd_InstanceStart p n (cache, d) = (Some err, cache', d)
    | Inr props \<Rightarrow> \<exists>cache' d' u'. systemd_InstanceStart p n (cache, d) = (None, cache', d') \<and>
        view d' = (view d)(n \<mapsto> u') \<and> limits_switched p (Active sc) (Idle sc) (u\<lparr>uv_Active := ''active''\<rparr>) u'"
proof (cases "buildProperties p (Active sc) (Idle sc)")
  case (Inl e)
  with no_resources_build [of "Active sc" "Idle sc" p] have "HasResources (Active sc) \<or> HasResources (Idle sc)" by auto
  with Inl S show ?thesis by (simp add: systemd_InstanceStart_def systemd_applyResources_def)
next
  case (Inr props)
  then obtain d1 u1 where 1: "(if HasResources (Active sc) \<or> HasResources (Idle sc)
      then systemd_applyResources p n (Active sc) (Idle sc) d else (None, d)) = (None, d1)"
    "view d1 = (view d)(n \<mapsto> u1)" "limits_switched p (Active sc) (Idle sc) u u1"
    using start_limits [OF M v] by blast
  obtain d2 where 2: "startUnit p n d1 = (None, d2)" "view d2 = (view d1)(n \<mapsto> u1\<lparr>uv_Active := ''active''\<rparr>)"
    using manager_start(1) [OF M, of d1 n u1] 1(2) by auto
  have "systemd_InstanceStart p n (cache, d) = (None, c, d2)"
    using S 1(1) 2(1) by (simp add: systemd_InstanceStart_def)
  with 2(2) 1(2) limits_switched_active [OF 1(3)] Inr show ?thesis by auto
qed

lemma stop_enabled:
  assumes M: "service_manager (sd_Con p) view" and v: "view d n = Some u" and S: "scaleConfig p n cache d = (Inr sc, c)"
  shows "if Replicas (Idle sc) \<ge> 1 then
      case buildProperties p (Idle sc) (Active sc) of
        Inl e \<Rightarrow> \<exists>err cache'. systemd_InstanceStop p n (cache, d) = (Some err, cache', d)
      | Inr props \<Rightarrow> \<exists>cache' d' u'. systemd_InstanceStop p n (cache, d) = (None, cache', d') \<and>
          view d' = (view d)(n \<mapsto> u') \<and> limits_switched p (Idle sc) (Active sc) u u'
    else \<exists>cache' d'. systemd_InstanceStop p n (cache, d) = (None, cache', d') \<and>
      view d' = (view d)(n \<mapsto> u\<lparr>uv_Active := ''inactive''\<rparr>)"
  using S manager_start(2) [OF M v] manager_limits [OF M v, of "Idle sc" "Active sc"]
  by (auto simp: systemd_InstanceStop_def systemd_applyResources_def split: sum.splits prod.splits)


section \<open>A service manager\<close>

definition demo_client :: "(string \<Rightarrow> unit_view option) systemd_client" where
  "demo_client =
     \<lparr>ListUnitsByNames = (\<lambda>ns d. Inr (List.map_filter (\<lambda>n. map_option (\<lambda>u.
        \<lparr>us_Name = n, us_LoadState = ''loaded'', us_ActiveState = uv_Active u\<rparr>) (d n)) ns)),
      ListUnitsByPatterns = (\<lambda>states patterns d. Inr []),
      FragmentPath = (\<lambda>n d. Inr (Some n)),
      SetUnitProperties = (\<lambda>n runtime props d. (None, d(n := map_option (set_properties props) (d n)))),
      StartUnit = (\<lambda>n mode d. (Inr (JobStatus ''done''), d(n := map_option (\<lambda>u. u\<lparr>uv_Active := ''active''\<rparr>) (d n)))),
      StopUnit = (\<lambda>n mode d. (Inr (JobStatus ''done''), d(n := map_option (\<lambda>u. u\<lparr>uv_Active := ''inactive''\<rparr>) (d n)))),
      Stat = (\<lambda>f d. Inr \<lparr>fi_ModTime = 0, fi_Size = 0\<rparr>),
      ini_Load = (\<lambda>f d. Inr [(''X-Sablier'', [(''Enable'', ''true''), (''IdleReplicas'', ''1''), (''IdleBlkioWeight'', ''100'')])])\<rparr>"

definition demo_systemd :: "(string \<Rightarrow> unit_view option) SystemdProvider" where
  "demo_systemd = \<lparr>sd_Con = demo_client, sd_unitPatterns = [], sd_CPUQuota = (\<lambda>s. Inl (ErrText s)), sd_RAMInBytes = (\<lambda>s. Inl (ErrText s))\<rparr>"

lemma demo_manager: "service_manager (sd_Con demo_systemd) (\<lambda>d. d)" "stamped_files (sd_Con demo_systemd)"
  by (auto simp: service_manager_def stamped_files_def same_files_def demo_systemd_def demo_client_def)

definition demo_unit :: unit_view where
  "demo_unit = \<lparr>uv_Active = ''active'', uv_Number = Map.empty, uv_Devices = (\<lambda>_. Map.empty)\<rparr>"



end
