(* ===== verification/Proxmox.thy ===== *)
theory Proxmox
  imports Docker
begin

text \<open>
  The Proxmox LXC provider (\<open>pkg/provider/proxmoxlxc\<close>): containers of a cluster are found by
  scanning its nodes, addressed by host name, VMID or node and VMID, and started by tasks whose
  progress an inspection follows. The API client is a record of functions on the state \<open>'d\<close> of
  the cluster. The cache of container locations and the pending start tasks are the state of the
  provider itself, which every operation may change.
\<close>

section \<open>Tags\<close>

definition enableTag :: string where "enableTag = ''sablier''"
definition groupPrefix :: string where "groupPrefix = ''sablier-group-''"

definition parseTags :: "string \<Rightarrow> string list" where
  "parseTags tagString = (if tagString = [] then [] else Split (CHR '';'') tagString)"

definition hasSablierTag :: "string list \<Rightarrow> bool" where
  "hasSablierTag tags \<longleftrightarrow> enableTag \<in> set tags"

fun group_tags :: "string list \<Rightarrow> string list" where
  "group_tags [] = []"
| "group_tags (t # tags) =
     (case CutPrefix t groupPrefix of (after, ok) \<Rightarrow>
        if ok \<and> after \<noteq> [] then after # group_tags tags else group_tags tags)"

definition extractGroups :: "string list \<Rightarrow> string list" where
  "extractGroups tags = (let groups = group_tags tags in if groups = [] then [''default''] else groups)"

section \<open>The Proxmox API\<close>

record px_container =
  pc_VMID :: int
  pc_Name :: string
  pc_Tags :: string
  pc_Status :: string

record px_interface =
  if_Name :: string
  if_Inet :: string
  if_Inet6 :: string

text \<open>What a \<open>Ping\<close> of a task learns; \<open>None\<close> is the zero time.\<close>

record task_state =
  tk_IsRunning :: bool
  tk_IsFailed :: bool
  tk_EndTime :: "time option"
  tk_ExitStatus :: string

type_synonym task = string

record 'd proxmox_client =
  Nodes :: "'d \<Rightarrow> goerror + string list"
  Node :: "string \<Rightarrow> 'd \<Rightarrow> goerror option"
  Containers :: "string \<Rightarrow> 'd \<Rightarrow> goerror + px_container list"
  Container :: "string \<Rightarrow> int \<Rightarrow> 'd \<Rightarrow> goerror + px_container"
  Interfaces :: "string \<Rightarrow> int \<Rightarrow> 'd \<Rightarrow> goerror + px_interface list"
  ct_Start :: "string \<Rightarrow> int \<Rightarrow> 'd \<Rightarrow> (goerror + task) \<times> 'd"
  ct_Stop :: "string \<Rightarrow> int \<Rightarrow> 'd \<Rightarrow> (goerror + task) \<times> 'd"
  task_Ping :: "task \<Rightarrow> 'd \<Rightarrow> goerror + task_state"
  task_Wait :: "task \<Rightarrow> duration \<Rightarrow> duration \<Rightarrow> 'd \<Rightarrow> goerror option \<times> 'd"

section \<open>The provider\<close>

record containerRef =
  ref_node :: string
  ref_vmid :: int
  ref_name :: string

definition failedTaskTTL :: duration where "failedTaskTTL = 30 * Second"

record pendingTask =
  pt_task :: task
  pt_failedAt :: "time option"

record px_state =
  px_cache :: "(string, containerRef) gomap"
  px_pendingTasks :: "(string, pendingTask) gomap"

definition px_New :: px_state where
  "px_New = \<lparr>px_cache = [], px_pendingTasks = []\<rparr>"

definition desiredReplicas :: int where "desiredReplicas = 1"

definition lookupCache :: "string \<Rightarrow> px_state \<Rightarrow> containerRef option" where
  "lookupCache key s = map_of (px_cache s) key"

definition defaultTaskTimeout :: duration where "defaultTaskTimeout = 60 * Second"

definition taskTimeout :: "time \<Rightarrow> time option \<Rightarrow> duration" where
  "taskTimeout now deadline =
     (case deadline of
        Some t \<Rightarrow> if t - now > 0 then t - now else defaultTaskTimeout
      | None \<Rightarrow> defaultTaskTimeout)"

record discoveredContainer =
  dc_ref :: containerRef
  dc_tags :: "string list"
  dc_status :: string

text \<open>What a scan collects: the containers found, the new cache and the managed names.\<close>

record scan =
  sc_discovered :: "discoveredContainer list"
  sc_newCache :: "(string, containerRef) gomap"
  sc_sablierNames :: "(string, containerRef) gomap"

fun scan_containers :: "string \<Rightarrow> px_container list \<Rightarrow> scan \<Rightarrow> goerror + scan" where
  "scan_containers node [] acc = Inr acc"
| "scan_containers node (c # cs) acc =
     (let ref = \<lparr>ref_node = node, ref_vmid = pc_VMID c, ref_name = pc_Name c\<rparr>;
          acc = acc\<lparr>sc_newCache := map_put (int_text (pc_VMID c)) ref (map_put (pc_Name c) ref (sc_newCache acc))\<rparr>;
          tags = parseTags (pc_Tags c) in
      if \<not> hasSablierTag tags then scan_containers node cs acc
      else case map_of (sc_sablierNames acc) (pc_Name c) of
        Some existing \<Rightarrow>
          Inl (ErrText (''duplicate hostname '' @ quoted (pc_Name c) @ '' found on node '' @ quoted (ref_node existing) @
            '' (VMID '' @ int_text (ref_vmid existing) @ '') and node '' @ quoted node @
            '' (VMID '' @ int_text (pc_VMID c) @ '') among sablier-managed containers''))
      | None \<Rightarrow>
          scan_containers node cs
            (acc\<lparr>sc_sablierNames := map_put (pc_Name c) ref (sc_sablierNames acc),
                 sc_discovered := sc_discovered acc @ [\<lparr>dc_ref = ref, dc_tags = tags, dc_status = pc_Status c\<rparr>]\<rparr>))"

fun scan_nodes :: "'d proxmox_client \<Rightarrow> string list \<Rightarrow> 'd \<Rightarrow> scan \<Rightarrow> goerror + scan" where
  "scan_nodes cli [] d acc = Inr acc"
| "scan_nodes cli (node # ns) d acc =
     (if Node cli node d \<noteq> None then scan_nodes cli ns d acc
      else case Containers cli node d of
        Inl err \<Rightarrow> scan_nodes cli ns d acc
      | Inr containers \<Rightarrow>
          (case scan_containers node containers acc of
             Inl err \<Rightarrow> Inl err
           | Inr acc \<Rightarrow> scan_nodes cli ns d acc))"

definition scanContainers :: "'d proxmox_client \<Rightarrow> px_state \<Rightarrow> 'd \<Rightarrow> (goerror + discoveredContainer list) \<times> px_state" where
  "scanContainers cli s d =
     (case Nodes cli d of
        Inl err \<Rightarrow> (Inl (ErrWrap ''cannot list nodes'' err), s)
      | Inr ns \<Rightarrow>
          (case scan_nodes cli ns d \<lparr>sc_discovered = [], sc_newCache = [], sc_sablierNames = []\<rparr> of
             Inl err \<Rightarrow> (Inl err, s)
           | Inr acc \<Rightarrow> (Inr (sc_discovered acc), s\<lparr>px_cache := sc_newCache acc\<rparr>)))"

text \<open>\<open>strings.Cut\<close> at the first separator.\<close>

definition Cut :: "string \<Rightarrow> char \<Rightarrow> string \<times> string \<times> bool" where
  "Cut s c = (takeWhile (\<lambda>x. x \<noteq> c) s, tl (dropWhile (\<lambda>x. x \<noteq> c) s), c \<in> set s)"

text \<open>A cached location, if it is on the node that was asked for.\<close>

definition cached_on :: "string \<Rightarrow> string \<Rightarrow> px_state \<Rightarrow> containerRef option" where
  "cached_on node vmidStr s =
     (case lookupCache vmidStr s of Some ref \<Rightarrow> if ref_node ref = node then Some ref else None | None \<Rightarrow> None)"

definition resolve_vmid :: "'d proxmox_client \<Rightarrow> string \<Rightarrow> string \<Rightarrow> string \<Rightarrow> px_state \<Rightarrow> 'd \<Rightarrow>
    (goerror + containerRef) \<times> px_state" where
  "resolve_vmid cli name node vmidStr s d =
     (case Atoi vmidStr of
        None \<Rightarrow> (Inl (ErrText (''invalid VMID in '' @ quoted name)), s)
      | Some vmid \<Rightarrow>
          (case cached_on node vmidStr s of
             Some ref \<Rightarrow> (Inr ref, s)
           | None \<Rightarrow>
               (case scanContainers cli s d of
                  (Inl err, s) \<Rightarrow> (Inl (ErrWrap ''cannot scan containers'' err), s)
                | (Inr found', s) \<Rightarrow>
                    (case cached_on node vmidStr s of
                       Some ref \<Rightarrow> (Inr ref, s)
                     | None \<Rightarrow> (Inr \<lparr>ref_node = node, ref_vmid = vmid, ref_name = name\<rparr>, s)))))"

definition resolve :: "'d proxmox_client \<Rightarrow> string \<Rightarrow> px_state \<Rightarrow> 'd \<Rightarrow> (goerror + containerRef) \<times> px_state" where
  "resolve cli name s d =
     (case Cut name (CHR ''/'') of (node, vmidStr, ok) \<Rightarrow>
      if ok then resolve_vmid cli name node vmidStr s d
      else case lookupCache name s of
        Some ref \<Rightarrow> (Inr ref, s)
      | None \<Rightarrow>
          (case scanContainers cli s d of
             (Inl err, s) \<Rightarrow> (Inl (ErrWrap ''cannot scan containers'' err), s)
           | (Inr found', s) \<Rightarrow>
               (case lookupCache name s of
                  Some ref \<Rightarrow> (Inr ref, s)
                | None \<Rightarrow> (Inl (ErrText (''container '' @ quoted name @ '' not found'')), s))))"

definition getContainer :: "'d proxmox_client \<Rightarrow> containerRef \<Rightarrow> 'd \<Rightarrow> goerror + px_container" where
  "getContainer cli ref d =
     (case Node cli (ref_node ref) d of
        Some err \<Rightarrow> Inl (ErrWrap (''cannot get node '' @ quoted (ref_node ref)) err)
      | None \<Rightarrow>
          (case Container cli (ref_node ref) (ref_vmid ref) d of
             Inl err \<Rightarrow> Inl (ErrWrap (''cannot get container '' @ int_text (ref_vmid ref) @ '' on node '' @ quoted (ref_node ref)) err)
           | Inr ct \<Rightarrow> Inr ct))"

section \<open>Starting and stopping\<close>

definition proxmox_InstanceDependencies :: "'d proxmox_client \<Rightarrow> string \<Rightarrow> 'd \<Rightarrow> goerror + InstanceDependency list" where
  "proxmox_InstanceDependencies cli name d = Inr []"

definition container_text :: "containerRef \<Rightarrow> string" where
  "container_text ref = quoted (ref_name ref) @ '' (VMID '' @ int_text (ref_vmid ref) @ '')''"

definition proxmox_InstanceStart :: "'d proxmox_client \<Rightarrow> string \<Rightarrow> px_state \<times> 'd \<Rightarrow> goerror option \<times> px_state \<times> 'd" where
  "proxmox_InstanceStart cli name w =
     (case w of (s, d) \<Rightarrow>
      case resolve cli name s d of
        (Inl err, s) \<Rightarrow> (Some (ErrWrap (''cannot resolve instance '' @ quoted name) err), s, d)
      | (Inr ref, s) \<Rightarrow>
          (case getContainer cli ref d of
             Inl err \<Rightarrow> (Some err, s, d)
           | Inr ct \<Rightarrow>
               if pc_Status ct = ''running'' then (None, s, d)
               else case ct_Start cli (ref_node ref) (ref_vmid ref) d of
                 (Inl err, d) \<Rightarrow> (Some (ErrWrap (''cannot start container '' @ container_text ref) err), s, d)
               | (Inr task, d) \<Rightarrow>
                   (None, s\<lparr>px_pendingTasks := map_put name \<lparr>pt_task = task, pt_failedAt = None\<rparr> (px_pendingTasks s)\<rparr>, d)))"

definition proxmox_InstanceStop :: "'d proxmox_client \<Rightarrow> time \<Rightarrow> time option \<Rightarrow> string \<Rightarrow> px_state \<times> 'd \<Rightarrow>
    goerror option \<times> px_state \<times> 'd" where
  "proxmox_InstanceStop cli now deadline name w =
     (case w of (s, d) \<Rightarrow>
      case resolve cli name s d of
        (Inl err, s) \<Rightarrow> (Some (ErrWrap (''cannot resolve instance '' @ quoted name) err), s, d)
      | (Inr ref, s) \<Rightarrow>
          (case getContainer cli ref d of
             Inl err \<Rightarrow> (Some err, s, d)
           | Inr ct \<Rightarrow>
               let s = s\<lparr>px_pendingTasks := map_del name (px_pendingTasks s)\<rparr> in
               if pc_Status ct = ''stopped'' then (None, s, d)
               else case ct_Stop cli (ref_node ref) (ref_vmid ref) d of
                 (Inl err, d) \<Rightarrow> (Some (ErrWrap (''cannot stop container '' @ container_text ref) err), s, d)
               | (Inr task, d) \<Rightarrow>
                   (case task_Wait cli task (1 * Second) (taskTimeout now deadline) d of
                      (Some err, d) \<Rightarrow> (Some (ErrWrap (''cannot wait for container '' @ container_text ref @ '' to stop'') err), s, d)
                    | (None, d) \<Rightarrow> (None, s, d))))"

section \<open>Inspection\<close>

fun hasNonLoopbackIP :: "px_interface list \<Rightarrow> bool" where
  "hasNonLoopbackIP [] = False"
| "hasNonLoopbackIP (iface # ifaces) =
     (if if_Name iface = ''lo'' then hasNonLoopbackIP ifaces
      else if if_Inet iface \<noteq> [] \<or> if_Inet6 iface \<noteq> [] then True
      else hasNonLoopbackIP ifaces)"

definition px_info :: "containerRef \<Rightarrow> int \<Rightarrow> InstanceStatus \<Rightarrow> string \<Rightarrow> InstanceInfo" where
  "px_info ref current status message =
     zero_InstanceInfo\<lparr>i_Name := ref_name ref, i_CurrentReplicas := current, i_DesiredReplicas := desiredReplicas,
                       i_Status := status, i_Message := message\<rparr>"

text \<open>
  \<open>checkPendingTask\<close> yields the information to report, unless the task is done; and the time of
  failure that it recorded in the task.
\<close>

definition checkPendingTask :: "'d proxmox_client \<Rightarrow> time \<Rightarrow> string \<Rightarrow> containerRef \<Rightarrow> pendingTask \<Rightarrow> px_state \<Rightarrow> 'd \<Rightarrow>
    InstanceInfo option \<times> time option \<times> px_state" where
  "checkPendingTask cli now name ref pt s d =
     (case task_Ping cli (pt_task pt) d of
        Inl err \<Rightarrow> (Some (px_info ref 0 InstanceStatusStarting []), pt_failedAt pt, s)
      | Inr st \<Rightarrow>
          if tk_IsRunning st then (Some (px_info ref 0 InstanceStatusStarting []), pt_failedAt pt, s)
          else if tk_IsFailed st then
            (let failedAt = (case pt_failedAt pt of
                               Some t \<Rightarrow> t
                             | None \<Rightarrow> (case tk_EndTime st of Some t \<Rightarrow> t | None \<Rightarrow> now)) in
             if now - failedAt > failedTaskTTL
             then (None, Some failedAt, s\<lparr>px_pendingTasks := map_del name (px_pendingTasks s)\<rparr>)
             else (Some (px_info ref 0 InstanceStatusError
                     (''start task failed for container '' @ container_text ref @ '': '' @ tk_ExitStatus st)),
                   Some failedAt,
                   s\<lparr>px_pendingTasks := map_put name (pt\<lparr>pt_failedAt := Some failedAt\<rparr>) (px_pendingTasks s)\<rparr>))
          else (None, pt_failedAt pt, s\<lparr>px_pendingTasks := map_del name (px_pendingTasks s)\<rparr>))"

definition container_state :: "'d proxmox_client \<Rightarrow> containerRef \<Rightarrow> 'd \<Rightarrow> goerror + InstanceInfo" where
  "container_state cli ref d =
     (case getContainer cli ref d of
        Inl err \<Rightarrow> Inl err
      | Inr ct \<Rightarrow>
          if pc_Status ct = ''running'' then
            (case Interfaces cli (ref_node ref) (ref_vmid ref) d of
               Inl err \<Rightarrow> Inr (px_info ref desiredReplicas InstanceStatusReady [])
             | Inr ifaces \<Rightarrow>
                 if \<not> hasNonLoopbackIP ifaces then Inr (px_info ref 0 InstanceStatusStarting [])
                 else Inr (px_info ref desiredReplicas InstanceStatusReady []))
          else if pc_Status ct = ''stopped'' then Inr (px_info ref 0 InstanceStatusStopped [])
          else Inr (px_info ref 0 InstanceStatusError (''container status '' @ quoted (pc_Status ct) @ '' not handled'')))"

definition proxmox_InstanceInspect :: "'d proxmox_client \<Rightarrow> time \<Rightarrow> string \<Rightarrow> px_state \<times> 'd \<Rightarrow>
    (goerror + InstanceInfo) \<times> px_state \<times> 'd" where
  "proxmox_InstanceInspect cli now name w =
     (case w of (s, d) \<Rightarrow>
      case resolve cli name s d of
        (Inl err, s) \<Rightarrow> (Inl (ErrWrap (''cannot resolve instance '' @ quoted name) err), s, d)
      | (Inr ref, s) \<Rightarrow>
          (case map_of (px_pendingTasks s) name of
             None \<Rightarrow> (container_state cli ref d, s, d)
           | Some pt \<Rightarrow>
               (case checkPendingTask cli now name ref pt s d of
                  (Some info, failedAt, s) \<Rightarrow> (Inr info, s, d)
                | (None, failedAt, s) \<Rightarrow>
                    if failedAt \<noteq> None then
                      (case proxmox_InstanceStart cli name (s, d) of
                         (Some err, s, d) \<Rightarrow> (container_state cli ref d, s, d)
                       | (None, s, d) \<Rightarrow> (Inr (px_info ref 0 InstanceStatusStarting []), s, d))
                    else (container_state cli ref d, s, d))))"

section \<open>Listing\<close>

definition proxmox_InstanceList :: "'d proxmox_client \<Rightarrow> bool \<Rightarrow> px_state \<Rightarrow> 'd \<Rightarrow>
    (goerror + InstanceConfiguration list) \<times> px_state" where
  "proxmox_InstanceList cli all s d =
     (case scanContainers cli s d of
        (Inl err, s) \<Rightarrow> (Inl err, s)
      | (Inr discovered, s) \<Rightarrow>
          (Inr (map (\<lambda>c. \<lparr>c_Name = ref_name (dc_ref c), c_Groups = extractGroups (dc_tags c), c_Enabled = ''true''\<rparr>)
             (filter (\<lambda>c. all \<or> dc_status c = ''running'') discovered)), s))"

fun discovered_groups :: "discoveredContainer list \<Rightarrow> registry \<Rightarrow> registry" where
  "discovered_groups [] groups = groups"
| "discovered_groups (c # cs) groups =
     discovered_groups cs (group_append (ref_name (dc_ref c)) (extractGroups (dc_tags c)) groups)"

definition proxmox_InstanceGroups :: "'d proxmox_client \<Rightarrow> px_state \<Rightarrow> 'd \<Rightarrow> (goerror + registry) \<times> px_state" where
  "proxmox_InstanceGroups cli s d =
     (case scanContainers cli s d of
        (Inl err, s) \<Rightarrow> (Inl err, s)
      | (Inr discovered, s) \<Rightarrow> (Inr (map (\<lambda>(g, names). (g, sort names)) (discovered_groups discovered [])), s))"

section \<open>Events\<close>

definition maxConsecutivePollErrors :: nat where "maxConsecutivePollErrors = 5"

definition running_names :: "discoveredContainer list \<Rightarrow> (string, bool) gomap" where
  "running_names discovered =
     fold (\<lambda>c m. if dc_status c = ''running'' then map_put (ref_name (dc_ref c)) True m else m) discovered []"

definition stopped_event :: "string \<Rightarrow> InstanceEvent" where
  "stopped_event name =
     \<lparr>ev_Type = InstanceEventStopped,
      ev_Info = zero_InstanceInfo\<lparr>i_Name := name, i_CurrentReplicas := 0, i_DesiredReplicas := desiredReplicas,
                                   i_Status := InstanceStatusStopped\<rparr>\<rparr>"

definition started_event :: "string \<Rightarrow> InstanceEvent" where
  "started_event name =
     \<lparr>ev_Type = InstanceEventStarted,
      ev_Info = zero_InstanceInfo\<lparr>i_Name := name, i_CurrentReplicas := desiredReplicas, i_DesiredReplicas := desiredReplicas,
                                   i_Status := InstanceStatusStarting\<rparr>\<rparr>"

definition poll_events :: "InstanceEventType list \<Rightarrow> (string, bool) gomap \<Rightarrow> (string, bool) gomap \<Rightarrow> InstanceEvent list" where
  "poll_events types running currentRunning =
     (if wants types InstanceEventStopped
      then map stopped_event (filter (\<lambda>name. map_of currentRunning name \<noteq> Some True) (map fst running)) else []) @
     (if wants types InstanceEventStarted
      then map started_event (filter (\<lambda>name. map_of running name \<noteq> Some True) (map fst currentRunning)) else [])"

text \<open>
  What the polling loop receives: a tick, with what the scan finds and the number of events after
  which the context ends while one is being sent, or the end of the context. The result is the
  list of events and the terminal error.
\<close>

datatype poll = Tick "goerror + discoveredContainer list" "nat option" | PollDone

fun poll_loop :: "InstanceEventType list \<Rightarrow> poll list \<Rightarrow> nat \<Rightarrow> (string, bool) gomap \<Rightarrow> InstanceEvent list \<times> goerror option" where
  "poll_loop types [] errs running = ([], None)"
| "poll_loop types (PollDone # rest) errs running = ([], None)"
| "poll_loop types (Tick (Inl err) room # rest) errs running =
     (if Suc errs \<ge> maxConsecutivePollErrors then ([], Some err) else poll_loop types rest (Suc errs) running)"
| "poll_loop types (Tick (Inr discovered) room # rest) errs running =
     (let currentRunning = running_names discovered;
          events = poll_events types running currentRunning in
      case room of
        Some n \<Rightarrow>
          if n < length events then (take n events, None)
          else (case poll_loop types rest 0 currentRunning of (evs, err) \<Rightarrow> (events @ evs, err))
      | None \<Rightarrow> (case poll_loop types rest 0 currentRunning of (evs, err) \<Rightarrow> (events @ evs, err)))"

definition proxmox_InstanceEvents :: "InstanceEventType list \<Rightarrow> goerror + discoveredContainer list \<Rightarrow> poll list \<Rightarrow>
    InstanceEvent list \<times> goerror option" where
  "proxmox_InstanceEvents types initial polls =
     (if \<not> wants types InstanceEventStopped \<and> \<not> wants types InstanceEventStarted then ([], None)
      else poll_loop types polls 0 (case initial of Inl err \<Rightarrow> [] | Inr discovered \<Rightarrow> running_names discovered))"

end
