(* ===== verification/Proxmox_Facts.thy ===== *)
theory Proxmox_Facts
  imports Proxmox
begin

text \<open>
  What the Proxmox provider guarantees: a scan finds every managed container once and resolves
  host names and VMIDs, the events of the polling loop follow the containers that run, and a
  failed start is shown for a while and then tried again.
\<close>

section \<open>Scanning\<close>

text \<open>The containers of the nodes that can be reached, with their nodes.\<close>

fun located :: "'d proxmox_client \<Rightarrow> string list \<Rightarrow> 'd \<Rightarrow> (string \<times> px_container) list" where
  "located cli [] d = []"
| "located cli (node # ns) d =
     (if Node cli node d \<noteq> None then []
      else case Containers cli node d of Inl err \<Rightarrow> [] | Inr cs \<Rightarrow> map (Pair node) cs) @ located cli ns d"

definition ref_of :: "string \<times> px_container \<Rightarrow> containerRef" where
  "ref_of lc = \<lparr>ref_node = fst lc, ref_vmid = pc_VMID (snd lc), ref_name = pc_Name (snd lc)\<rparr>"

definition found_of :: "string \<times> px_container \<Rightarrow> discoveredContainer" where
  "found_of lc = \<lparr>dc_ref = ref_of lc, dc_tags = parseTags (pc_Tags (snd lc)), dc_status = pc_Status (snd lc)\<rparr>"

definition managed :: "string \<times> px_container \<Rightarrow> bool" where
  "managed lc \<longleftrightarrow> hasSablierTag (parseTags (pc_Tags (snd lc)))"

definition put_keys :: "string \<times> px_container \<Rightarrow> (string, containerRef) gomap \<Rightarrow> (string, containerRef) gomap" where
  "put_keys lc m = map_put (int_text (pc_VMID (snd lc))) (ref_of lc) (map_put (pc_Name (snd lc)) (ref_of lc) m)"

text \<open>What has been collected after the containers \<open>lcs\<close>.\<close>

definition scanned :: "(string \<times> px_container) list \<Rightarrow> scan \<Rightarrow> bool" where
  "scanned lcs acc \<longleftrightarrow>
     sc_discovered acc = map found_of (filter managed lcs) \<and>
     sc_newCache acc = fold put_keys lcs [] \<and>
     distinct (map (pc_Name \<circ> snd) (filter managed lcs)) \<and>
     dom (map_of (sc_sablierNames acc)) = (pc_Name \<circ> snd) ` set (filter managed lcs)"

lemma scan_containers_collects:
  assumes "scan_containers node cs acc = Inr acc'" "scanned lcs acc"
  shows "scanned (lcs @ map (Pair node) cs) acc'"
  using assms
proof (induction cs arbitrary: lcs acc)
  case (Cons c cs)
  have r: "ref_of (node, c) = \<lparr>ref_node = node, ref_vmid = pc_VMID c, ref_name = pc_Name c\<rparr>"
    by (simp add: ref_of_def)
  let ?acc = "acc\<lparr>sc_newCache := put_keys (node, c) (sc_newCache acc)\<rparr>"
  show ?case
  proof (cases "managed (node, c)")
    case False
    then have "scanned (lcs @ [(node, c)]) ?acc" using Cons.prems(2) by (simp add: scanned_def)
    moreover from False Cons.prems(1) have "scan_containers node cs ?acc = Inr acc'"
      by (simp add: managed_def put_keys_def r Let_def)
    ultimately show ?thesis using Cons.IH by fastforce
  next
    case True
    have n: "map_of (sc_sablierNames acc) (pc_Name c) = None"
    proof (rule ccontr)
      assume "map_of (sc_sablierNames acc) (pc_Name c) \<noteq> None"
      with True Cons.prems(1) show False by (auto simp: managed_def Let_def)
    qed
    let ?acc1 = "?acc\<lparr>sc_sablierNames := map_put (pc_Name c) (ref_of (node, c)) (sc_sablierNames acc),
      sc_discovered := sc_discovered acc @ [found_of (node, c)]\<rparr>"
    have "scanned (lcs @ [(node, c)]) ?acc1"
      using Cons.prems(2) True n by (auto simp: scanned_def gomap_simps domIff)
    moreover from True n Cons.prems(1) have "scan_containers node cs ?acc1 = Inr acc'"
      by (simp add: managed_def put_keys_def r found_of_def Let_def)
    ultimately show ?thesis using Cons.IH by fastforce
  qed
qed simp

lemma scan_nodes_collects:
  assumes "scan_nodes cli ns d acc = Inr acc'" "scanned lcs acc"
  shows "scanned (lcs @ located cli ns d) acc'"
  using assms
proof (induction ns arbitrary: lcs acc)
  case (Cons node ns)
  then show ?case
    by (auto split: if_splits sum.splits) (use Cons.IH scan_containers_collects in fastforce)+
qed simp

lemma map_of_put_keys:
  "map_of (fold put_keys lcs m) k =
     (case find (\<lambda>lc. pc_Name (snd lc) = k \<or> int_text (pc_VMID (snd lc)) = k) (rev lcs) of
        Some lc \<Rightarrow> Some (ref_of lc)
      | None \<Rightarrow> map_of m k)"
proof (induction lcs rule: rev_induct)
  case (snoc lc lcs)
  then show ?case by (auto simp: put_keys_def gomap_simps)
qed simp

lemma scanContainers_found:
  assumes "scanContainers cli s d = (Inr found', s')" "Nodes cli d = Inr ns"
  shows "found' = map found_of (filter managed (located cli ns d))"
    and "px_cache s' = fold put_keys (located cli ns d) []"
    and "distinct (map (\<lambda>c. ref_name (dc_ref c)) found')"
    and "px_pendingTasks s' = px_pendingTasks s"
proof -
  obtain acc where a: "scan_nodes cli ns d \<lparr>sc_discovered = [], sc_newCache = [], sc_sablierNames = []\<rparr> = Inr acc"
    "found' = sc_discovered acc" "s' = s\<lparr>px_cache := sc_newCache acc\<rparr>"
    using assms by (auto simp: scanContainers_def split: sum.splits)
  have "scanned [] \<lparr>sc_discovered = [], sc_newCache = [], sc_sablierNames = []\<rparr>" by (simp add: scanned_def)
  from scan_nodes_collects [OF a(1) this] have S: "scanned (located cli ns d) acc" by simp
  with a(2,3) show "found' = map found_of (filter managed (located cli ns d))" "px_cache s' = fold put_keys (located cli ns d) []"
    "px_pendingTasks s' = px_pendingTasks s"
    by (simp_all add: scanned_def)
  have e: "(\<lambda>c. ref_name (dc_ref c)) \<circ> found_of = pc_Name \<circ> snd" by (auto simp: found_of_def ref_of_def)
  from S a(2) show "distinct (map (\<lambda>c. ref_name (dc_ref c)) found')" by (simp add: scanned_def e)
qed

definition keys :: "string \<times> px_container \<Rightarrow> string set" where
  "keys lc = {pc_Name (snd lc), int_text (pc_VMID (snd lc))}"

text \<open>No host name or VMID is used twice, managed or not.\<close>

definition unambiguous :: "(string \<times> px_container) list \<Rightarrow> bool" where
  "unambiguous lcs \<longleftrightarrow> (\<forall>lc\<in>set lcs. \<forall>lc'\<in>set lcs. keys lc \<inter> keys lc' \<noteq> {} \<longrightarrow> lc = lc')"

lemma lookup_unambiguous:
  assumes "unambiguous lcs" "lc \<in> set lcs" "k \<in> keys lc"
  shows "map_of (fold put_keys lcs []) k = Some (ref_of lc)"
proof -
  have "find (\<lambda>lc. pc_Name (snd lc) = k \<or> int_text (pc_VMID (snd lc)) = k) (rev lcs) \<noteq> None"
    using assms(2,3) unfolding find_None_iff keys_def set_rev by blast
  then obtain lc' where f: "find (\<lambda>lc. pc_Name (snd lc) = k \<or> int_text (pc_VMID (snd lc)) = k) (rev lcs) = Some lc'" by blast
  then have "lc' \<in> set lcs" "k \<in> keys lc'" by (auto simp: find_Some_iff keys_def) (metis nth_mem length_rev set_rev)+
  with assms have "lc' = lc" unfolding unambiguous_def by blast
  with f show ?thesis by (simp add: map_of_put_keys)
qed

lemma Cut_simps:
  "CHR ''/'' \<notin> set s \<Longrightarrow> Cut s (CHR ''/'') = (s, [], False)"
  "CHR ''/'' \<notin> set n \<Longrightarrow> Cut (n @ CHR ''/'' # v) (CHR ''/'') = (n, v, True)"
proof -
  assume "CHR ''/'' \<notin> set s"
  then have "takeWhile (\<lambda>x. x \<noteq> CHR ''/'') s = s" "dropWhile (\<lambda>x. x \<noteq> CHR ''/'') s = []" by (auto simp: takeWhile_eq_all_conv)
  with \<open>CHR ''/'' \<notin> set s\<close> show "Cut s (CHR ''/'') = (s, [], False)" by (simp only: Cut_def list.sel(2) simp_thms)
next
  assume "CHR ''/'' \<notin> set n"
  then have "\<forall>x\<in>set n. x \<noteq> CHR ''/''" by auto
  then show "Cut (n @ CHR ''/'' # v) (CHR ''/'') = (n, v, True)" by (simp add: Cut_def)
qed

text \<open>
  Finding containers. A scan finds exactly the managed containers of the nodes that can be
  reached, each host name once. When no host name or VMID is used twice in the cluster, every
  container is then found under its host name, under its VMID and under its node and VMID without
  another scan, and a name that nobody has is refused.
\<close>

theorem proxmox_resolution:
  assumes scan: "scanContainers cli s d = (Inr found', s')" and ns: "Nodes cli d = Inr ns"
  shows "set found' = found_of ` {lc \<in> set (located cli ns d). managed lc} \<and> distinct (map (\<lambda>c. ref_name (dc_ref c)) found') \<and>
    (unambiguous (located cli ns d) \<longrightarrow> (\<forall>lc\<in>set (located cli ns d).
       (\<forall>k\<in>keys lc. CHR ''/'' \<notin> set k \<longrightarrow> resolve cli k s' d = (Inr (ref_of lc), s')) \<and>
       (CHR ''/'' \<notin> set (fst lc) \<and> Atoi (int_text (pc_VMID (snd lc))) \<noteq> None \<longrightarrow>
          resolve cli (fst lc @ ''/'' @ int_text (pc_VMID (snd lc))) s' d = (Inr (ref_of lc), s')))) \<and>
    (\<forall>k. CHR ''/'' \<notin> set k \<and> (\<forall>lc\<in>set (located cli ns d). k \<notin> keys lc) \<longrightarrow>
       resolve cli k s' d = (Inl (ErrText (''container '' @ quoted k @ '' not found'')), s'))"
proof (intro conjI impI ballI allI; (elim conjE)?)
  note S = scanContainers_found [OF scan ns]
  show "set found' = found_of ` {lc \<in> set (located cli ns d). managed lc}" by (auto simp: S(1))
  show "distinct (map (\<lambda>c. ref_name (dc_ref c)) found')" by (rule S(3))
  fix lc assume u: "unambiguous (located cli ns d)" and lc: "lc \<in> set (located cli ns d)"
  have L: "lookupCache k s' = Some (ref_of lc)" if "k \<in> keys lc" for k
    using lookup_unambiguous [OF u lc that] by (simp add: lookupCache_def S(2))
  show "resolve cli k s' d = (Inr (ref_of lc), s')" if "k \<in> keys lc" "CHR ''/'' \<notin> set k" for k
    using L [OF that(1)] that(2) by (simp add: resolve_def Cut_simps)
  have v: "int_text (pc_VMID (snd lc)) \<in> keys lc" by (simp add: keys_def)
  show "resolve cli (fst lc @ ''/'' @ int_text (pc_VMID (snd lc))) s' d = (Inr (ref_of lc), s')"
    if "CHR ''/'' \<notin> set (fst lc)" "Atoi (int_text (pc_VMID (snd lc))) \<noteq> None"
    using L [OF v] that by (auto simp: resolve_def Cut_simps resolve_vmid_def cached_on_def ref_of_def)
next
  note S = scanContainers_found [OF scan ns]
  fix k assume k: "CHR ''/'' \<notin> set k" "\<forall>lc\<in>set (located cli ns d). k \<notin> keys lc"
  have "find (\<lambda>lc. pc_Name (snd lc) = k \<or> int_text (pc_VMID (snd lc)) = k) (rev (located cli ns d)) = None"
    using k(2) by (auto simp: find_None_iff keys_def)
  then have N: "lookupCache k s' = None" by (simp add: lookupCache_def S(2) map_of_put_keys)
  have "scanContainers cli s' d = (Inr found', s')"
    using scan ns by (auto simp: scanContainers_def split: sum.splits)
  with N k(1) show "resolve cli k s' d = (Inl (ErrText (''container '' @ quoted k @ '' not found'')), s')"
    by (simp add: resolve_def Cut_simps)
qed

section \<open>Events\<close>

text \<open>The names that run according to the events, and that each event is a change.\<close>

fun replay :: "InstanceEvent list \<Rightarrow> string set \<Rightarrow> string set" where
  "replay [] R = R"
| "replay (e # es) R =
     replay es (if ev_Type e = InstanceEventStarted then insert (i_Name (ev_Info e)) R else R - {i_Name (ev_Info e)})"

fun alternates :: "InstanceEvent list \<Rightarrow> string set \<Rightarrow> bool" where
  "alternates [] R = True"
| "alternates (e # es) R =
     (if ev_Type e = InstanceEventStarted
      then i_Name (ev_Info e) \<notin> R \<and> alternates es (insert (i_Name (ev_Info e)) R)
      else ev_Type e = InstanceEventStopped \<and> i_Name (ev_Info e) \<in> R \<and> alternates es (R - {i_Name (ev_Info e)}))"

lemma replay_append: "replay (es @ es') R = replay es' (replay es R)"
  by (induction es arbitrary: R) auto

lemma alternates_append: "alternates (es @ es') R \<longleftrightarrow> alternates es R \<and> alternates es' (replay es R)"
  by (induction es arbitrary: R) auto

lemma event_simps [simp]:
  "ev_Type (stopped_event n) = InstanceEventStopped" "i_Name (ev_Info (stopped_event n)) = n"
  "ev_Type (started_event n) = InstanceEventStarted" "i_Name (ev_Info (started_event n)) = n"
  by (simp_all add: stopped_event_def started_event_def)

lemma replay_stopped: "replay (map stopped_event ns) R = R - set ns"
  by (induction ns arbitrary: R) auto

lemma replay_started: "replay (map started_event ns) R = R \<union> set ns"
  by (induction ns arbitrary: R) auto

lemma alternates_stopped: "distinct ns \<Longrightarrow> set ns \<subseteq> R \<Longrightarrow> alternates (map stopped_event ns) R"
  by (induction ns arbitrary: R) (auto simp: subset_Diff_insert)

lemma alternates_started: "distinct ns \<Longrightarrow> set ns \<inter> R = {} \<Longrightarrow> alternates (map started_event ns) R"
  by (induction ns arbitrary: R) auto

definition all_true :: "(string, bool) gomap \<Rightarrow> bool" where
  "all_true m \<longleftrightarrow> wf_map m \<and> (\<forall>k. map_of m k \<noteq> None \<longrightarrow> map_of m k = Some True)"

lemma all_true_keys: "all_true m \<Longrightarrow> map_of m k = Some True \<longleftrightarrow> k \<in> set (map fst m)"
  using map_of_eq_None_iff [of m k] unfolding all_true_def set_map by fastforce

definition running_set :: "discoveredContainer list \<Rightarrow> string set" where
  "running_set cs = set (map (\<lambda>c. ref_name (dc_ref c)) (filter (\<lambda>c. dc_status c = ''running'') cs))"

lemma running_names_spec:
  "all_true (running_names cs)" "set (map fst (running_names cs)) = running_set cs"
proof -
  have "all_true (fold (\<lambda>c m. if dc_status c = ''running'' then map_put (ref_name (dc_ref c)) True m else m) cs m) \<and>
      set (map fst (fold (\<lambda>c m. if dc_status c = ''running'' then map_put (ref_name (dc_ref c)) True m else m) cs m)) =
        set (map fst m) \<union> running_set cs" if "all_true m" for m
    using that
  proof (induction cs arbitrary: m)
    case (Cons c cs)
    have "all_true (map_put n True m)" for n
      using Cons.prems by (auto simp: all_true_def gomap_simps wf_intros)
    moreover have "set (map fst (map_put n True m)) = insert n (set (map fst m))" for n
      by (simp add: dom_update)
    ultimately show ?case using Cons.IH Cons.prems by (auto simp: running_set_def)
  qed (auto simp: running_set_def)
  from this [of "[]"] show "all_true (running_names cs)"
    "set (map fst (running_names cs)) = running_set cs"
    by (simp_all add: running_names_def all_true_def wf_map_def)
qed

lemma poll_events_track:
  assumes "all_true r" "all_true c"
  shows "alternates (poll_events [] r c) (set (map fst r))" "replay (poll_events [] r c) (set (map fst r)) = set (map fst c)"
proof -
  let ?stop = "filter (\<lambda>n. map_of c n \<noteq> Some True) (map fst r)" and ?start = "filter (\<lambda>n. map_of r n \<noteq> Some True) (map fst c)"
  have s: "set ?stop = set (map fst r) - set (map fst c)" "set ?start = set (map fst c) - set (map fst r)"
    using all_true_keys [OF assms(1)] all_true_keys [OF assms(2)] by auto
  have d: "distinct ?stop" "distinct ?start" using assms by (auto simp: all_true_def wf_map_def)
  have e: "poll_events [] r c = map stopped_event ?stop @ map started_event ?start" by (simp add: poll_events_def wants_def)
  show "replay (poll_events [] r c) (set (map fst r)) = set (map fst c)"
    unfolding e replay_append replay_stopped replay_started s by blast
  show "alternates (poll_events [] r c) (set (map fst r))"
    unfolding e alternates_append replay_stopped s
    by (intro conjI alternates_stopped alternates_started d) (auto simp only: s)
qed

definition last_running :: "(goerror + discoveredContainer list) list \<Rightarrow> string set \<Rightarrow> string set" where
  "last_running rs R = fold (\<lambda>r R. case r of Inl err \<Rightarrow> R | Inr cs \<Rightarrow> running_set cs) rs R"

abbreviation ticks :: "(goerror + discoveredContainer list) list \<Rightarrow> poll list" where
  "ticks rs \<equiv> map (\<lambda>r. Tick r None) rs"

lemma poll_loop_tracks:
  assumes "poll_loop [] (ticks rs) errs r = (evs, err)" "all_true r"
  shows "alternates evs (set (map fst r)) \<and> (err = None \<longrightarrow> replay evs (set (map fst r)) = last_running rs (set (map fst r)))"
  using assms
proof (induction rs arbitrary: errs r evs)
  case Nil
  then show ?case by (simp add: last_running_def)
next
  case (Cons x rs)
  show ?case
  proof (cases x)
    case (Inl e)
    with Cons show ?thesis by (auto simp: last_running_def split: if_splits)
  next
    case (Inr cs)
    let ?c = "running_names cs"
    obtain evs' where p: "poll_loop [] (ticks rs) 0 ?c = (evs', err)" "evs = poll_events [] r ?c @ evs'"
      using Cons.prems(1) Inr by (auto simp: Let_def split: prod.splits)
    note P = poll_events_track [OF Cons.prems(2) running_names_spec(1), of cs] and N = running_names_spec(2) [of cs]
    from Cons.IH [OF p(1) running_names_spec(1)] P N Inr show ?thesis
      by (simp add: p(2) alternates_append replay_append last_running_def del: set_map)
  qed
qed

text \<open>The loop gives up exactly after five scans in a row that failed.\<close>

definition failing_run :: "(goerror + discoveredContainer list) list \<Rightarrow> bool" where
  "failing_run rs \<longleftrightarrow> (\<exists>i. maxConsecutivePollErrors \<le> length (takeWhile isl (drop i rs)))"

lemma failing_run_Cons:
  "failing_run (x # rs) \<longleftrightarrow> maxConsecutivePollErrors \<le> length (takeWhile isl (x # rs)) \<or> failing_run rs"
proof
  assume "failing_run (x # rs)"
  then obtain i where "maxConsecutivePollErrors \<le> length (takeWhile isl (drop i (x # rs)))" by (auto simp only: failing_run_def)
  then show "maxConsecutivePollErrors \<le> length (takeWhile isl (x # rs)) \<or> failing_run rs"
    by (cases i) (auto simp: failing_run_def simp del: takeWhile.simps)
next
  assume "maxConsecutivePollErrors \<le> length (takeWhile isl (x # rs)) \<or> failing_run rs"
  then show "failing_run (x # rs)" unfolding failing_run_def by (metis drop0 drop_Suc_Cons)
qed

lemma poll_loop_gives_up:
  assumes "errs < maxConsecutivePollErrors"
  shows "snd (poll_loop types (ticks rs) errs r) \<noteq> None \<longleftrightarrow>
    maxConsecutivePollErrors \<le> length (takeWhile isl rs) + errs \<or> failing_run rs"
  using assms
proof (induction rs arbitrary: errs r)
  case Nil
  then show ?case by (simp add: failing_run_def maxConsecutivePollErrors_def)
next
  case (Cons x rs)
  show ?case
  proof (cases x)
    case (Inl e)
    with Cons show ?thesis by (auto simp: failing_run_Cons)
  next
    case (Inr cs)
    have p: "0 < maxConsecutivePollErrors" by (simp add: maxConsecutivePollErrors_def)
    have run: "maxConsecutivePollErrors \<le> length (takeWhile isl rs) \<Longrightarrow> failing_run rs"
      unfolding failing_run_def by (metis drop0)
    have "snd (poll_loop types (ticks (x # rs)) errs r) = snd (poll_loop types (ticks rs) 0 (running_names cs))"
      using Inr by (simp add: Let_def split: prod.splits)
    with Cons.IH [OF p, of "running_names cs"] run Cons.prems Inr p show ?thesis by (auto simp: failing_run_Cons)
  qed
qed


definition px_found :: "string \<Rightarrow> string \<Rightarrow> discoveredContainer" where
  "px_found n st = \<lparr>dc_ref = \<lparr>ref_node = ''pve'', ref_vmid = 100, ref_name = n\<rparr>, dc_tags = [''sablier''], dc_status = st\<rparr>"


section \<open>Failed starts\<close>

text \<open>Inspections at several times, without another change of the cluster.\<close>

fun inspections :: "'d proxmox_client \<Rightarrow> string \<Rightarrow> time list \<Rightarrow> px_state \<times> 'd \<Rightarrow> (goerror + InstanceInfo) list \<times> px_state \<times> 'd" where
  "inspections cli name [] w = ([], w)"
| "inspections cli name (t # ts) w =
     (case proxmox_InstanceInspect cli t name w of (r, w) \<Rightarrow>
      case inspections cli name ts w of (rs, w) \<Rightarrow> (r # rs, w))"

definition failed_info :: "containerRef \<Rightarrow> string \<Rightarrow> InstanceInfo" where
  "failed_info ref exit = px_info ref 0 InstanceStatusError (''start task failed for container '' @ container_text ref @ '': '' @ exit)"

lemma resolve_cached:
  "CHR ''/'' \<notin> set name \<Longrightarrow> lookupCache name s = Some ref \<Longrightarrow> resolve cli name s d = (Inr ref, s)"
  by (simp add: resolve_def Cut_simps)

lemma inspect_failed:
  assumes n: "CHR ''/'' \<notin> set name" "lookupCache name s = Some ref"
    and pt: "map_of (px_pendingTasks s) name = Some pt" "pt_failedAt pt = None \<or> pt_failedAt pt = Some t0"
    and f: "task_Ping cli (pt_task pt) d = Inr st" "\<not> tk_IsRunning st" "tk_IsFailed st" "tk_EndTime st = None"
    and t: "pt_failedAt pt = None \<longrightarrow> t = t0" "t - t0 \<le> failedTaskTTL" "0 \<le> failedTaskTTL"
  shows "proxmox_InstanceInspect cli t name (s, d) =
    (Inr (failed_info ref (tk_ExitStatus st)),
     s\<lparr>px_pendingTasks := map_put name (pt\<lparr>pt_failedAt := Some t0\<rparr>) (px_pendingTasks s)\<rparr>, d)"
proof -
  have "(case pt_failedAt pt of Some t \<Rightarrow> t | None \<Rightarrow> (case tk_EndTime st of Some t \<Rightarrow> t | None \<Rightarrow> t)) = t0"
    using pt(2) f(4) t(1) by auto
  then show ?thesis using n pt(1) f t
    by (simp add: proxmox_InstanceInspect_def resolve_cached checkPendingTask_def failed_info_def Let_def)
qed

lemma inspections_failed:
  assumes "CHR ''/'' \<notin> set name" "lookupCache name s = Some ref"
    and "map_of (px_pendingTasks s) name = Some \<lparr>pt_task = tk, pt_failedAt = Some t0\<rparr>"
    and "task_Ping cli tk d = Inr st" "\<not> tk_IsRunning st" "tk_IsFailed st" "tk_EndTime st = None"
    and "\<forall>t\<in>set ts. t - t0 \<le> failedTaskTTL"
  shows "\<exists>s'. inspections cli name ts (s, d) = (map (\<lambda>_. Inr (failed_info ref (tk_ExitStatus st))) ts, s', d) \<and>
    lookupCache name s' = Some ref \<and> map_of (px_pendingTasks s') name = Some \<lparr>pt_task = tk, pt_failedAt = Some t0\<rparr>"
  using assms
proof (induction ts arbitrary: s)
  case (Cons t ts)
  let ?s = "s\<lparr>px_pendingTasks := map_put name \<lparr>pt_task = tk, pt_failedAt = Some t0\<rparr> (px_pendingTasks s)\<rparr>"
  have "proxmox_InstanceInspect cli t name (s, d) = (Inr (failed_info ref (tk_ExitStatus st)), ?s, d)"
    using inspect_failed [OF Cons.prems(1-3), where t = t and t0 = t0 and cli = cli and d = d and st = st] Cons.prems by (simp add: failedTaskTTL_def)
  moreover have s: "lookupCache name ?s = Some ref"
    "map_of (px_pendingTasks ?s) name = Some \<lparr>pt_task = tk, pt_failedAt = Some t0\<rparr>"
    using Cons.prems by (simp_all add: lookupCache_def gomap_simps)
  moreover note Cons.IH [OF Cons.prems(1) s Cons.prems(4-7)]
  ultimately show ?case using Cons.prems(8) by auto
qed auto

text \<open>
  A start that failed. From the inspection that first sees the failure, every inspection within
  the next 30 seconds reports the error of the task; the first one after that starts the container
  again, reports it as starting and follows the new task.
\<close>

theorem proxmox_failed_start:
  assumes n: "CHR ''/'' \<notin> set name" "lookupCache name s = Some ref"
    and pt: "map_of (px_pendingTasks s) name = Some \<lparr>pt_task = tk, pt_failedAt = None\<rparr>"
    and f: "task_Ping cli tk d = Inr st" "\<not> tk_IsRunning st" "tk_IsFailed st" "tk_EndTime st = None"
    and ts: "\<forall>t\<in>set ts. t - t0 \<le> failedTaskTTL" "t' - t0 > failedTaskTTL"
    and ct: "getContainer cli ref d = Inr ct" "pc_Status ct \<noteq> ''running''" "ct_Start cli (ref_node ref) (ref_vmid ref) d = (Inr tk', d')"
  shows "\<exists>s1 s2. inspections cli name (t0 # ts) (s, d) = (map (\<lambda>_. Inr (failed_info ref (tk_ExitStatus st))) (t0 # ts), s1, d) \<and>
    proxmox_InstanceInspect cli t' name (s1, d) = (Inr (px_info ref 0 InstanceStatusStarting []), s2, d') \<and>
    map_of (px_pendingTasks s2) name = Some \<lparr>pt_task = tk', pt_failedAt = None\<rparr>"
proof -
  let ?s = "s\<lparr>px_pendingTasks := map_put name \<lparr>pt_task = tk, pt_failedAt = Some t0\<rparr> (px_pendingTasks s)\<rparr>"
  have 0: "proxmox_InstanceInspect cli t0 name (s, d) = (Inr (failed_info ref (tk_ExitStatus st)), ?s, d)"
    using inspect_failed [OF n pt, where t = t0 and t0 = t0 and cli = cli and d = d and st = st] f by (simp add: failedTaskTTL_def)
  have "lookupCache name ?s = Some ref" "map_of (px_pendingTasks ?s) name = Some \<lparr>pt_task = tk, pt_failedAt = Some t0\<rparr>"
    using n(2) by (simp_all add: lookupCache_def gomap_simps)
  from inspections_failed [OF n(1) this f ts(1)]
  obtain s1 where 1: "inspections cli name ts (?s, d) = (map (\<lambda>_. Inr (failed_info ref (tk_ExitStatus st))) ts, s1, d)"
    "lookupCache name s1 = Some ref" "map_of (px_pendingTasks s1) name = Some \<lparr>pt_task = tk, pt_failedAt = Some t0\<rparr>"
    by blast
  let ?s2 = "s1\<lparr>px_pendingTasks := map_put name \<lparr>pt_task = tk', pt_failedAt = None\<rparr> (map_del name (px_pendingTasks s1))\<rparr>"
  have c: "lookupCache name (s1\<lparr>px_pendingTasks := x\<rparr>) = Some ref" for x using 1(2) by (simp add: lookupCache_def)
  have "checkPendingTask cli t' name ref \<lparr>pt_task = tk, pt_failedAt = Some t0\<rparr> s1 d =
      (None, Some t0, s1\<lparr>px_pendingTasks := map_del name (px_pendingTasks s1)\<rparr>)"
    using f ts(2) by (simp add: checkPendingTask_def)
  then have "proxmox_InstanceInspect cli t' name (s1, d) = (Inr (px_info ref 0 InstanceStatusStarting []), ?s2, d')"
    using n(1) 1(2,3) c ct by (simp add: proxmox_InstanceInspect_def proxmox_InstanceStart_def resolve_cached)
  with 0 1(1) show ?thesis by (simp add: gomap_simps)
qed

section \<open>A cluster\<close>

text \<open>
  A cluster of two nodes. A managed container \<open>web\<close> is on the first node; a container on the
  second one that is not managed carries the same host name if \<open>shadow\<close> holds.
\<close>

definition px_ct :: "int \<Rightarrow> string \<Rightarrow> string \<Rightarrow> px_container" where
  "px_ct v n tags = \<lparr>pc_VMID = v, pc_Name = n, pc_Tags = tags, pc_Status = ''stopped''\<rparr>"

definition demo_cluster :: "bool \<Rightarrow> unit proxmox_client" where
  "demo_cluster shadow =
     \<lparr>Nodes = (\<lambda>d. Inr [''pve1'', ''pve2'']),
      Node = (\<lambda>n d. None),
      Containers = (\<lambda>n d. if n = ''pve1'' then Inr [px_ct 100 ''web'' ''sablier;sablier-group-shop'']
        else Inr (if shadow then [px_ct 200 ''web'' []] else [px_ct 200 ''mail'' []])),
      Container = (\<lambda>n v d. Inr (px_ct v ''web'' [])),
      Interfaces = (\<lambda>n v d. Inr []),
      ct_Start = (\<lambda>n v d. (Inr ''UPID:1'', d)), ct_Stop = (\<lambda>n v d. (Inr ''UPID:2'', d)),
      task_Ping = (\<lambda>t d. Inr \<lparr>tk_IsRunning = False, tk_IsFailed = True, tk_EndTime = None, tk_ExitStatus = ''oom''\<rparr>),
      task_Wait = (\<lambda>t i m d. (None, d))\<rparr>"

definition web_ref :: containerRef where
  "web_ref = \<lparr>ref_node = ''pve1'', ref_vmid = 100, ref_name = ''web''\<rparr>"

theorem proxmox_resolution_witness:
  "\<exists>found' s'. scanContainers (demo_cluster False) px_New () = (Inr found', s') \<and>
     resolve (demo_cluster False) ''web'' s' () = (Inr web_ref, s') \<and> resolve (demo_cluster False) ''100'' s' () = (Inr web_ref, s')"
proof -
  let ?cli = "demo_cluster False" and ?lc = "(''pve1'', px_ct 100 ''web'' ''sablier;sablier-group-shop'')"
  have ns: "Nodes ?cli () = Inr [''pve1'', ''pve2'']" by (simp add: demo_cluster_def)
  have t: "int_text 100 = ''100''" "int_text 200 = ''200''" by code_simp+
  have loc: "located ?cli [''pve1'', ''pve2''] () = [?lc, (''pve2'', px_ct 200 ''mail'' [])]"
    by (simp add: demo_cluster_def)
  have u: "unambiguous (located ?cli [''pve1'', ''pve2''] ())"
    unfolding loc by (simp add: unambiguous_def keys_def px_ct_def t)
  have "(case scanContainers ?cli px_New () of (Inr found', s') \<Rightarrow> True | _ \<Rightarrow> False)" by code_simp
  then obtain found' s' where s: "scanContainers ?cli px_New () = (Inr found', s')" by (auto split: prod.splits sum.splits)
  have k: "keys ?lc = {''web'', ''100''}" and r: "ref_of ?lc = web_ref"
    by (simp_all add: keys_def px_ct_def t ref_of_def web_ref_def)
  have m: "?lc \<in> set (located ?cli [''pve1'', ''pve2''] ())" unfolding loc by simp
  from proxmox_resolution [OF s ns] u m have "\<forall>k\<in>keys ?lc. CHR ''/'' \<notin> set k \<longrightarrow> resolve ?cli k s' () = (Inr (ref_of ?lc), s')"
    by blast
  with s show ?thesis by (simp add: k r)
qed

theorem proxmox_failed_start_witness:
  "\<exists>s1 s2. inspections (demo_cluster False) ''web'' [0, 20 * Second]
       (\<lparr>px_cache = [(''web'', web_ref)], px_pendingTasks = [(''web'', \<lparr>pt_task = ''UPID:0'', pt_failedAt = None\<rparr>)]\<rparr>, ()) =
       ([Inr (failed_info web_ref ''oom''), Inr (failed_info web_ref ''oom'')], s1, ()) \<and>
     proxmox_InstanceInspect (demo_cluster False) (31 * Second) ''web'' (s1, ()) = (Inr (px_info web_ref 0 InstanceStatusStarting []), s2, ()) \<and>
     map_of (px_pendingTasks s2) ''web'' = Some \<lparr>pt_task = ''UPID:1'', pt_failedAt = None\<rparr>"
proof -
  let ?s = "\<lparr>px_cache = [(''web'', web_ref)], px_pendingTasks = [(''web'', \<lparr>pt_task = ''UPID:0'', pt_failedAt = None\<rparr>)]\<rparr>"
  let ?st = "\<lparr>tk_IsRunning = False, tk_IsFailed = True, tk_EndTime = None, tk_ExitStatus = ''oom''\<rparr>"
  have n: "CHR ''/'' \<notin> set ''web''" by simp
  have c: "lookupCache ''web'' ?s = Some web_ref" "map_of (px_pendingTasks ?s) ''web'' = Some \<lparr>pt_task = ''UPID:0'', pt_failedAt = None\<rparr>"
    by (simp_all add: lookupCache_def)
  have p: "task_Ping (demo_cluster False) ''UPID:0'' () = Inr ?st" "\<not> tk_IsRunning ?st" "tk_IsFailed ?st" "tk_EndTime ?st = None"
    by (simp_all add: demo_cluster_def)
  have t: "\<forall>t\<in>set [20 * Second]. t - 0 \<le> failedTaskTTL" "31 * Second - 0 > failedTaskTTL" by (simp_all add: failedTaskTTL_def)
  have k: "getContainer (demo_cluster False) web_ref () = Inr (px_ct 100 ''web'' [])" "pc_Status (px_ct 100 ''web'' []) \<noteq> ''running''"
    "ct_Start (demo_cluster False) (ref_node web_ref) (ref_vmid web_ref) () = (Inr ''UPID:1'', ())"
    by (simp_all add: getContainer_def demo_cluster_def web_ref_def px_ct_def)
  from proxmox_failed_start [OF n c p t k] show ?thesis by simp
qed

text \<open>
  The check for duplicate host names looks at managed containers only, but the cache that resolves
  names holds all of them, and the last one wins: a start of the managed \<open>web\<close> goes to the
  container on the other node that is not managed.
\<close>

theorem unmanaged_shadows_managed:
  "(case scanContainers (demo_cluster True) px_New () of
      (Inr found', s') \<Rightarrow>
        map dc_ref found' = [web_ref] \<and>
        resolve (demo_cluster True) ''web'' s' () = (Inr \<lparr>ref_node = ''pve2'', ref_vmid = 200, ref_name = ''web''\<rparr>, s')
    | _ \<Rightarrow> False)"
  by code_simp

text \<open>
  No inspection reports an instance as enabled, although the listing does: with requests for
  unlabelled instances rejected nothing can be requested, and with the check on expiration no
  instance is ever stopped.
\<close>

theorem proxmox_never_enabled:
  assumes "proxmox_InstanceInspect cli now name w = (Inr info, w')"
  shows "\<not> IsEnabled info"
proof -
  have z: "\<not> IsEnabled (px_info ref n st m)" for ref n st m by (simp add: IsEnabled_def px_info_def zero_InstanceInfo_def)
  have c: "\<not> IsEnabled i" if "container_state cli ref d = Inr i" for ref d i
    using that z by (auto simp: container_state_def split: sum.splits if_splits)
  have p: "\<not> IsEnabled i" if "checkPendingTask cli now name ref pt s d = (Some i, x)" for ref pt s d i x
    using that z by (auto simp: checkPendingTask_def Let_def split: sum.splits if_splits)
  from assms z c p show ?thesis
    unfolding proxmox_InstanceInspect_def by (auto split: prod.splits sum.splits option.splits if_splits)
qed

end
