(* ===== verification/Provider_Setup.thy ===== *)
theory Provider_Setup
  imports Configuration Cpu_Limits Swarm Kubernetes_Facts Systemd_Facts Proxmox_Facts
begin

text \<open>
  Choosing and building the provider from the configuration (\<open>pkg/sabliercmd/provider.go\<close>) with
  the constructors of the provider packages. The client libraries are parameters: a record of
  functions that open a connection or fail, and that check it where the constructors do; the
  parsers of memory sizes and quantities that the providers use come with them, and what the machine
  makes of a floating-point number out of the range of an integer. Tracing of the transports is left out.
\<close>

section \<open>Connections\<close>

record 'k clientset =
  cs_Deployments :: "'k apps_client"
  cs_StatefulSets :: "'k apps_client"
  cs_ServerResources :: "'k \<Rightarrow> goerror + string list"
  cs_ServerVersion :: "goerror option"

text \<open>
  The moby client is created from the environment and, for Podman, with an explicit host;
  a swarm is reached by the same client through other calls.
\<close>

record ('d, 's, 'k, 'x, 'u) connectors =
  cn_client_New :: "string option \<Rightarrow> goerror + 'd docker_client"
  cn_ServerVersion :: "'d docker_client \<Rightarrow> goerror option"
  cn_swarm_client_New :: "goerror + 's swarm_client"
  cn_swarm_ServerVersion :: "'s swarm_client \<Rightarrow> goerror option"
  cn_InClusterConfig :: "goerror option"
  cn_NewForConfig :: "float_value \<Rightarrow> int \<Rightarrow> goerror + 'k clientset"
  cn_dynamic_NewForConfig :: "float_value \<Rightarrow> int \<Rightarrow> goerror + 'k dynamic_client"
  cn_proxmox_NewClient :: "string \<Rightarrow> string \<Rightarrow> string \<Rightarrow> bool \<Rightarrow> 'x proxmox_client"
  cn_Version :: "'x proxmox_client \<Rightarrow> goerror option"
  cn_NewUserConnection :: "goerror + 'u systemd_client"
  cn_NewSystemConnection :: "goerror + 'u systemd_client"
  cn_Connected :: "'u systemd_client \<Rightarrow> bool"
  cn_RAMInBytes :: "string \<Rightarrow> goerror + int"
  cn_int64 :: "float64 \<Rightarrow> int"
  cn_uint64 :: "float64 \<Rightarrow> int"
  cn_ParseQuantity :: "string \<Rightarrow> goerror + string"
  cn_IsNotFound :: "goerror \<Rightarrow> bool"

section \<open>The constructors\<close>

definition docker_New :: "('d, 's, 'k, 'x, 'u) connectors \<Rightarrow> 'd docker_client \<Rightarrow> string \<Rightarrow> goerror + 'd DockerProvider" where
  "docker_New cn cli strategy =
     (case cn_ServerVersion cn cli of
        Some err \<Rightarrow> Inl (ErrText (''cannot connect to docker host: '' @ Error_text err))
      | None \<Rightarrow> Inr \<lparr>dp_Client = cli, dp_strategy = strategy, dp_HonorRestartPolicy = False,
                     dp_CPUNano = parseCPUNano (cn_int64 cn), dp_RAMInBytes = cn_RAMInBytes cn\<rparr>)"

definition podman_New :: "('d, 's, 'k, 'x, 'u) connectors \<Rightarrow> 'd docker_client \<Rightarrow> goerror + 'd DockerProvider" where
  "podman_New cn cli =
     (case docker_New cn cli ''stop'' of
        Inl err \<Rightarrow> Inl (ErrWrap ''cannot connect to podman'' err)
      | Inr inner \<Rightarrow> Inr inner)"

definition swarm_New :: "('d, 's, 'k, 'x, 'u) connectors \<Rightarrow> 's swarm_client \<Rightarrow> goerror + 's SwarmProvider" where
  "swarm_New cn cli =
     (case cn_swarm_ServerVersion cn cli of
        Some err \<Rightarrow> Inl (ErrWrap ''cannot connect to docker host'' err)
      | None \<Rightarrow> Inr \<lparr>sw_Client = cli, sw_CPUNano = parseCPUNano (cn_int64 cn), sw_RAMInBytes = cn_RAMInBytes cn\<rparr>)"

definition kubernetes_New :: "('d, 's, 'k, 'x, 'u) connectors \<Rightarrow> 'k clientset \<Rightarrow> 'k dynamic_client \<Rightarrow> Kubernetes \<Rightarrow>
    goerror + 'k KubeProvider" where
  "kubernetes_New cn cs dyn conf =
     (case cs_ServerVersion cs of
        Some err \<Rightarrow> Inl err
      | None \<Rightarrow> Inr \<lparr>kp_Deployments = cs_Deployments cs, kp_StatefulSets = cs_StatefulSets cs,
                     kp_ServerResources = cs_ServerResources cs, kp_dynamic = Some dyn,
                     kp_delimiter = kc_Delimiter conf, kp_readyOnFirstReplica = kc_ReadyOnFirstReplica conf,
                     kp_ParseQuantity = cn_ParseQuantity cn, kp_IsNotFound = cn_IsNotFound cn\<rparr>)"

definition proxmox_New :: "('d, 's, 'k, 'x, 'u) connectors \<Rightarrow> 'x proxmox_client \<Rightarrow> goerror + ('x proxmox_client \<times> px_state)" where
  "proxmox_New cn cli =
     (case cn_Version cn cli of
        Some err \<Rightarrow> Inl (ErrWrap ''cannot connect to Proxmox VE API'' err)
      | None \<Rightarrow> Inr (cli, px_New))"

definition systemd_New :: "('d, 's, 'k, 'x, 'u) connectors \<Rightarrow> 'u systemd_client \<Rightarrow> string list \<Rightarrow>
    goerror + ('u SystemdProvider \<times> labelCache)" where
  "systemd_New cn con unitPatterns =
     (if \<not> cn_Connected cn con then Inl (ErrText ''no connection to systemd dbus'')
      else Inr (\<lparr>sd_Con = con, sd_unitPatterns = unitPatterns, sd_CPUQuota = parseCPUQuota (cn_uint64 cn),
                 sd_RAMInBytes = cn_RAMInBytes cn\<rparr>, []))"

section \<open>The choice\<close>

datatype ('d, 's, 'k, 'x, 'u) built =
    BuiltSwarm "'s SwarmProvider"
  | BuiltDocker "'d DockerProvider"
  | BuiltKubernetes "'k KubeProvider"
  | BuiltPodman "'d DockerProvider"
  | BuiltProxmox "'x proxmox_client \<times> px_state"
  | BuiltSystemd "'u SystemdProvider \<times> labelCache"

text \<open>The text of a slice of strings and of the errors of \<open>IsValid\<close>.\<close>

definition slice_text :: "string list \<Rightarrow> string" where
  "slice_text ss = ''['' @ Join ss '' '' @ '']''"

fun config_error_text :: "config_error \<Rightarrow> string" where
  "config_error_text MutuallyExclusive =
     ''provider.auto-stop-externally-started and provider.auto-warm-externally-started are mutually exclusive''"
| "config_error_text (UnrecognizedProvider n) =
     ''unrecognized provider '' @ n @ ''. providers available: '' @ slice_text providers"
| "config_error_text (UnrecognizedStrategy s) =
     ''unrecognized docker strategy '' @ s @ ''. strategies available: '' @ slice_text dockerStrategies"
| "config_error_text MissingURL = ''proxmox_lxc provider requires a URL''"
| "config_error_text MissingTokenID = ''proxmox_lxc provider requires a token ID''"
| "config_error_text MissingTokenSecret = ''proxmox_lxc provider requires a token secret''"

definition setup_docker :: "('d, 's, 'k, 'x, 'u) connectors \<Rightarrow> Docker \<Rightarrow> goerror + ('d, 's, 'k, 'x, 'u) built" where
  "setup_docker cn conf =
     (case cn_client_New cn None of
        Inl err \<Rightarrow> Inl (ErrText (''cannot create docker client: '' @ Error_text err))
      | Inr cli \<Rightarrow>
          (case docker_New cn cli (dc_Strategy conf) of
             Inl err \<Rightarrow> Inl err
           | Inr p \<Rightarrow> Inr (BuiltDocker (p\<lparr>dp_HonorRestartPolicy := dc_HonorRestartPolicy conf\<rparr>))))"

definition setup_kubernetes :: "('d, 's, 'k, 'x, 'u) connectors \<Rightarrow> Kubernetes \<Rightarrow> goerror + ('d, 's, 'k, 'x, 'u) built" where
  "setup_kubernetes cn conf =
     (case cn_InClusterConfig cn of
        Some err \<Rightarrow> Inl err
      | None \<Rightarrow>
          (case cn_NewForConfig cn (kc_QPS conf) (kc_Burst conf) of
             Inl err \<Rightarrow> Inl err
           | Inr cli \<Rightarrow>
               (case cn_dynamic_NewForConfig cn (kc_QPS conf) (kc_Burst conf) of
                  Inl err \<Rightarrow> Inl err
                | Inr dyn \<Rightarrow> map_sum id BuiltKubernetes (kubernetes_New cn cli dyn conf))))"

definition setup_systemd :: "('d, 's, 'k, 'x, 'u) connectors \<Rightarrow> Systemd \<Rightarrow> goerror + ('d, 's, 'k, 'x, 'u) built" where
  "setup_systemd cn conf =
     (case (if yc_UserInstance conf then cn_NewUserConnection cn else cn_NewSystemConnection cn) of
        Inl err \<Rightarrow> Inl (ErrWrap ''cannot connect to systemd dbus'' err)
      | Inr con \<Rightarrow> map_sum id BuiltSystemd (systemd_New cn con (yc_UnitPatterns conf)))"

definition setupProvider :: "('d, 's, 'k, 'x, 'u) connectors \<Rightarrow> Provider \<Rightarrow> goerror + ('d, 's, 'k, 'x, 'u) built" where
  "setupProvider cn conf =
     (case Provider_IsValid conf of
        Some err \<Rightarrow> Inl (ErrText (config_error_text err))
      | None \<Rightarrow>
          if pv_Name conf \<in> {''swarm'', ''docker_swarm''} then
            (case cn_swarm_client_New cn of
               Inl err \<Rightarrow> Inl (ErrText (''cannot create docker swarm client: '' @ Error_text err))
             | Inr cli \<Rightarrow> map_sum id BuiltSwarm (swarm_New cn cli))
          else if pv_Name conf = ''docker'' then setup_docker cn (pv_Docker conf)
          else if pv_Name conf = ''kubernetes'' then setup_kubernetes cn (pv_Kubernetes conf)
          else if pv_Name conf = ''podman'' then
            (case cn_client_New cn (if pc_Uri (pv_Podman conf) \<noteq> [] then Some (pc_Uri (pv_Podman conf)) else None) of
               Inl err \<Rightarrow> Inl (ErrWrap ''cannot create podman client'' err)
             | Inr cli \<Rightarrow> map_sum id BuiltPodman (podman_New cn cli))
          else if pv_Name conf = ''proxmox_lxc'' then
            (let x = pv_ProxmoxLXC conf in
             map_sum id BuiltProxmox
               (proxmox_New cn (cn_proxmox_NewClient cn (xc_URL x) (xc_TokenID x) (xc_TokenSecret x) (xc_TLSInsecure x))))
          else if pv_Name conf = ''systemd'' then setup_systemd cn (pv_Systemd conf)
          else Inl (ErrText (''unimplemented provider '' @ pv_Name conf)))"

section \<open>What is built\<close>

text \<open>The provider that belongs to a name, with the settings of its section.\<close>

fun built_for :: "Provider \<Rightarrow> ('d, 's, 'k, 'x, 'u) built \<Rightarrow> bool" where
  "built_for conf (BuiltSwarm p) \<longleftrightarrow> pv_Name conf \<in> {''swarm'', ''docker_swarm''}"
| "built_for conf (BuiltDocker p) \<longleftrightarrow> pv_Name conf = ''docker'' \<and>
     dp_strategy p = dc_Strategy (pv_Docker conf) \<and> dp_strategy p \<in> {''stop'', ''pause''} \<and>
     dp_HonorRestartPolicy p = dc_HonorRestartPolicy (pv_Docker conf)"
| "built_for conf (BuiltKubernetes p) \<longleftrightarrow> pv_Name conf = ''kubernetes'' \<and>
     kp_delimiter p = kc_Delimiter (pv_Kubernetes conf) \<and>
     kp_readyOnFirstReplica p = kc_ReadyOnFirstReplica (pv_Kubernetes conf) \<and> kp_dynamic p \<noteq> None"
| "built_for conf (BuiltPodman p) \<longleftrightarrow> pv_Name conf = ''podman'' \<and> dp_strategy p = ''stop'' \<and> \<not> dp_HonorRestartPolicy p"
| "built_for conf (BuiltProxmox (c, s)) \<longleftrightarrow> pv_Name conf = ''proxmox_lxc'' \<and> s = px_New"
| "built_for conf (BuiltSystemd (p, cache)) \<longleftrightarrow> pv_Name conf = ''systemd'' \<and>
     sd_unitPatterns p = yc_UnitPatterns (pv_Systemd conf) \<and> cache = []"

definition reachable :: "('d, 's, 'k, 'x, 'u) connectors \<Rightarrow> bool" where
  "reachable cn \<longleftrightarrow>
     (\<forall>h. \<exists>c. cn_client_New cn h = Inr c) \<and> (\<forall>c. cn_ServerVersion cn c = None) \<and>
     (\<exists>c. cn_swarm_client_New cn = Inr c) \<and> (\<forall>c. cn_swarm_ServerVersion cn c = None) \<and>
     cn_InClusterConfig cn = None \<and> (\<forall>q b. \<exists>c. cn_NewForConfig cn q b = Inr c \<and> cs_ServerVersion c = None) \<and>
     (\<forall>q b. \<exists>c. cn_dynamic_NewForConfig cn q b = Inr c) \<and> (\<forall>c. cn_Version cn c = None) \<and>
     (\<exists>c. cn_NewUserConnection cn = Inr c) \<and> (\<exists>c. cn_NewSystemConnection cn = Inr c) \<and> (\<forall>c. cn_Connected cn c)"

lemmas setup_defs = setup_docker_def setup_kubernetes_def setup_systemd_def docker_New_def podman_New_def
  swarm_New_def kubernetes_New_def proxmox_New_def systemd_New_def

lemma setup_result:
  "setupProvider cn conf = Inr b \<Longrightarrow> Provider_IsValid conf = None \<and> built_for conf b"
  using Provider_IsValid_iff [of conf]
  by (cases b) (auto simp: setupProvider_def setup_defs Let_def split: option.splits sum.splits if_splits)

lemma setup_works:
  assumes "reachable cn" and "Provider_IsValid conf = None"
  shows "\<exists>b. setupProvider cn conf = Inr b"
proof -
  from assms(2) have n: "pv_Name conf \<in> set providers" by (simp add: Provider_IsValid_iff)
  from assms(1) obtain dc sc kc yc uc vc where
    "\<And>h. cn_client_New cn h = Inr (dc h)" "\<And>c. cn_ServerVersion cn c = None"
    "cn_swarm_client_New cn = Inr sc" "\<And>c. cn_swarm_ServerVersion cn c = None" "cn_InClusterConfig cn = None"
    "\<And>q b. cn_NewForConfig cn q b = Inr (kc q b)" "\<And>q b. cs_ServerVersion (kc q b) = None"
    "\<And>q b. cn_dynamic_NewForConfig cn q b = Inr (yc q b)" "\<And>c. cn_Version cn c = None"
    "cn_NewUserConnection cn = Inr uc" "cn_NewSystemConnection cn = Inr vc" "\<And>c. cn_Connected cn c"
    unfolding reachable_def by metis
  with n assms(2) show ?thesis
    by (auto simp: setupProvider_def setup_defs providers_def Let_def)
qed


text \<open>Connections to the servers of the other theories.\<close>

definition demo_connectors where
  "demo_connectors =
     \<lparr>cn_client_New = (\<lambda>h. Inr list_docker), cn_ServerVersion = (\<lambda>c. None),
      cn_swarm_client_New = Inr list_swarm, cn_swarm_ServerVersion = (\<lambda>c. None),
      cn_InClusterConfig = None,
      cn_NewForConfig = (\<lambda>q b. Inr \<lparr>cs_Deployments = list_apps ''deployment'', cs_StatefulSets = list_apps ''statefulset'',
        cs_ServerResources = (\<lambda>k. Inr []), cs_ServerVersion = None\<rparr>),
      cn_dynamic_NewForConfig = (\<lambda>q b. Inr list_dynamic),
      cn_proxmox_NewClient = (\<lambda>u t k i. demo_cluster True), cn_Version = (\<lambda>c. None),
      cn_NewUserConnection = Inr demo_client, cn_NewSystemConnection = Inr demo_client, cn_Connected = (\<lambda>c. True),
      cn_RAMInBytes = (\<lambda>t. Inr 0), cn_int64 = (\<lambda>v. 0), cn_uint64 = (\<lambda>v. 0),
      cn_ParseQuantity = Inr, cn_IsNotFound = (\<lambda>e. False)\<rparr>"


end
