(* ===== verification/Ready_Session.thy ===== *)
theory Ready_Session
  imports Requests
begin

text \<open>
  Properties of the session requests of \<open>session_request.go\<close>: every name is answered, a group
  request fails as documented, and the blocking request returns only ready sessions, paces its
  checks and explains a timeout.
\<close>

section \<open>Sessions\<close>

lemma session_loop_keys:
  "session_loop loc now names d rj insts s = (insts', s') \<Longrightarrow>
   (wf_map insts \<longrightarrow> wf_map insts') \<and>
   fst ` set insts' = fst ` set insts \<union> (\<lambda>n. fst (CutPrefix n OptionalPrefix)) ` set names"
proof (induction names arbitrary: insts s)
  case (Cons n names)
  obtain name opt where c: "CutPrefix n OptionalPrefix = (name, opt)" by (cases "CutPrefix n OptionalPrefix")
  obtain r s1 where r: "instanceRequest loc now name d rj s = (r, s1)" by (cases "instanceRequest loc now name d rj s")
  have keys: "fst ` set (map_put name v insts) = insert name (fst ` set insts)" for v
    using set_map_keys [of "map_put name v insts"] set_map_keys [of insts] by (simp add: map_of_put)
  from Cons.prems c r have "session_loop loc now names d rj
      (map_put name (case r of Inl err \<Rightarrow> InstanceInfoWithError zero_InstanceInfo (Some err) opt
         | Inr state \<Rightarrow> InstanceInfoWithError state None opt) insts) s1 = (insts', s')" by simp
  from Cons.IH [OF this] c show ?case by (auto simp: keys intro: wf_intros)
qed simp

section \<open>What a request leaves as configured\<close>

definition same_conf :: "('st, 'w) sablier \<Rightarrow> ('st, 'w) sablier \<Rightarrow> bool" where
  "same_conf s s' \<longleftrightarrow> s_BlockingRefreshFrequency s' = s_BlockingRefreshFrequency s"

lemma same_conf_refl: "same_conf s s"
  by (simp add: same_conf_def)

lemma same_conf_trans: "same_conf s s1 \<Longrightarrow> same_conf s1 s2 \<Longrightarrow> same_conf s s2"
  by (simp add: same_conf_def)

lemma same_conf_Get: "sess_Get now n s = (r, s') \<Longrightarrow> same_conf s s'"
  by (auto simp: sess_Get_def same_conf_def split: prod.splits)

lemma same_conf_member: "member_active now ms s = (b, s') \<Longrightarrow> same_conf s s'"
proof (induction ms arbitrary: s)
  case (Cons m ms)
  then show ?case
    by (auto intro: same_conf_Get same_conf_trans [OF same_conf_Get] split: prod.splits sum.splits)
qed (simp add: same_conf_refl)

lemma same_conf_hold: "hold_loop now gs s = (g, s') \<Longrightarrow> same_conf s s'"
proof (induction gs arbitrary: s)
  case (Cons h gs)
  obtain b s1 where a: "isGroupActive now h s = (b, s1)" by (cases "isGroupActive now h s")
  then have "same_conf s s1"
    by (auto simp: isGroupActive_def same_conf_refl intro: same_conf_member split: option.splits)
  with a Cons show ?case by (auto intro: same_conf_trans split: bool.splits)
qed (simp add: same_conf_refl)

lemma same_conf_start: "requestStart n rj s = (r, s') \<Longrightarrow> same_conf s s'"
  by (auto simp: requestStart_def requestStart_check_def requestStart_inspect_def requestStart_register_def
      register_new_def go_def record_metric_def call_Inspect_def same_conf_def Let_def
      split: prod.splits option.splits sum.splits if_splits)

lemma same_conf_refresh: "refresh_state now n st s = (r, s') \<Longrightarrow> same_conf s s'"
  by (auto simp: refresh_state_def consumePendingError_def call_Inspect_def record_metric_def same_conf_def Let_def
      split: prod.splits option.splits sum.splits if_splits bool.splits)

lemma same_conf_state: "session_state now n rj s = (r, s') \<Longrightarrow> same_conf s s'"
  using same_conf_trans [OF same_conf_Get same_conf_start] same_conf_trans [OF same_conf_Get same_conf_refresh]
    same_conf_Get
  by (fastforce simp: session_state_def split: prod.splits sum.splits if_splits)

lemma same_conf_request:
  assumes "instanceRequest loc now n d rj s = (r, s')"
  shows "same_conf s s'"
proof -
  obtain g s1 where h: "antiAffinityHold now n s = (g, s1)" by (cases "antiAffinityHold now n s")
  then have 1: "same_conf s s1" by (auto simp: antiAffinityHold_def intro: same_conf_hold)
  obtain q s2 where q: "session_state now n rj s1 = (q, s2)" by (cases "session_state now n rj s1")
  have 2: "same_conf s s2" using 1 same_conf_state [OF q] by (rule same_conf_trans)
  have put: "same_conf s2 (snd (sess_Put now st e s2))" for st e
    by (simp add: sess_Put_def same_conf_def split: prod.splits)
  have tr: "same_conf s3 (triggerAntiAffinityReconcile s3)" for s3 :: "('a, 'b) sablier"
    by (simp add: triggerAntiAffinityReconcile_def go_def same_conf_def)
  show ?thesis
  proof (cases q)
    case (Inl e)
    with assms h q 1 2 show ?thesis by (auto simp: instanceRequest_def same_conf_refl split: if_splits)
  next
    case (Inr sb)
    obtain st b where sb: "sb = (st, b)" by (cases sb)
    obtain e s3 where p: "sess_Put now st (effectiveDuration loc now st d) s2 = (e, s3)"
      by (cases "sess_Put now st (effectiveDuration loc now st d) s2")
    have 3: "same_conf s s3" using 2 put [of st "effectiveDuration loc now st d"] p by (auto intro: same_conf_trans)
    with assms h q 1 Inr sb p same_conf_trans [OF 3 tr] show ?thesis
      by (auto simp: instanceRequest_def same_conf_refl split: if_splits option.splits)
  qed
qed

lemma same_conf_session: "session_loop loc now names d rj insts s = (insts', s') \<Longrightarrow> same_conf s s'"
proof (induction names arbitrary: insts s)
  case (Cons n names)
  obtain name opt where c: "CutPrefix n OptionalPrefix = (name, opt)" by (cases "CutPrefix n OptionalPrefix")
  obtain r s1 where r: "instanceRequest loc now name d rj s = (r, s1)" by (cases "instanceRequest loc now name d rj s")
  from Cons.prems c r Cons.IH have "same_conf s1 s'" by auto
  with same_conf_request [OF r] show ?case by (rule same_conf_trans)
qed (simp add: same_conf_refl)

lemma requestSession_conf: "requestSession loc now names d rj s = (r, s') \<Longrightarrow> same_conf s s'"
  by (auto simp: requestSession_def same_conf_refl intro: same_conf_session split: if_splits prod.splits)

text \<open>
  A session request answers for every requested name, stripped of the mark of an optional
  member, exactly once; only a request without names fails. A request for a group names the
  group that is missing and those that exist, and leaves everything as it is; for a known
  group it is the request for its members.
\<close>

theorem session_request_answers:
  "(requestSession loc now [] d rj s = (Inl (ErrText ''names cannot be empty''), s)) \<and>
   (\<forall>names r s'. names \<noteq> [] \<and> requestSession loc now names d rj s = (r, s') \<longrightarrow>
      (\<exists>session. r = Inr session \<and> wf_map (Instances session) \<and>
         fst ` set (Instances session) = (\<lambda>n. fst (CutPrefix n OptionalPrefix)) ` set names)) \<and>
   RequestSessionGroup loc now [] d s = (Inl (ErrText ''group is mandatory''), s) \<and>
   (\<forall>grp. grp \<noteq> [] \<and> grp \<notin> set (reg_Keys (s_groups s)) \<longrightarrow>
      RequestSessionGroup loc now grp d s = (Inl (ErrGroupNotFound grp (reg_Keys (s_groups s))), s)) \<and>
   (\<forall>grp names. grp \<noteq> [] \<and> names \<noteq> [] \<and> map_of (s_groups s) grp = Some names \<longrightarrow>
      RequestSessionGroup loc now grp d s = requestSession loc now names d False s)"
proof (intro conjI allI impI)
  fix names r s'
  assume a: "names \<noteq> [] \<and> requestSession loc now names d rj s = (r, s')"
  obtain insts s1 where l: "session_loop loc now names d rj [] s = (insts, s1)"
    by (cases "session_loop loc now names d rj [] s")
  with a session_loop_keys [OF l] show "\<exists>session. r = Inr session \<and> wf_map (Instances session) \<and>
      fst ` set (Instances session) = (\<lambda>n. fst (CutPrefix n OptionalPrefix)) ` set names"
    by (auto simp: requestSession_def)
next
  fix grp
  assume a: "grp \<noteq> [] \<and> grp \<notin> set (reg_Keys (s_groups s))"
  then have "map_of (s_groups s) grp = None" by (simp add: reg_Keys_def map_of_eq_None_iff)
  with a show "RequestSessionGroup loc now grp d s = (Inl (ErrGroupNotFound grp (reg_Keys (s_groups s))), s)"
    by (simp add: RequestSessionGroup_def group_names_def reg_Get_def)
qed (auto simp: requestSession_def RequestSessionGroup_def group_names_def reg_Get_def)

theorem session_request_answers_witness:
  "RequestSessionGroup (fixed_zone 0) 0 ''front'' Minute demo_sablier =
     (Inl (ErrGroupNotFound ''front'' (reg_Keys (s_groups demo_sablier))), demo_sablier)"
  using session_request_answers [of "fixed_zone 0" 0 Minute False demo_sablier]
  by (simp add: demo_sablier_def sablier_New_def newGroupRegistry_def reg_Keys_def)

section \<open>The blocking request\<close>

fun wake_time :: "('st, 'w) wake \<Rightarrow> time set" where
  "wake_time (TimerFired t f) = {t}"
| "wake_time (StartsCompleted t f) = {t}"
| "wake_time CtxDone = {}"
| "wake_time (TimeoutFired t) = {t}"

definition paced :: "duration \<Rightarrow> duration list \<Rightarrow> bool" where
  "paced m ds \<longleftrightarrow> successively (\<lambda>d e. e = d \<or> e = min (d * 2) m) ds \<and> (\<forall>d\<in>set ds. 0 < d \<and> d \<le> m)"

definition pending_only :: "SessionState \<Rightarrow> bool" where
  "pending_only session \<longleftrightarrow> (\<forall>(n, v)\<in>set (Instances session). iw_Optional v \<or> iw_Error v = None)"

lemma InstanceErrors_None: "InstanceErrors session = None \<longleftrightarrow> pending_only session"
  by (auto simp: InstanceErrors_def Let_def errors_loop_Nil pending_only_def)

text \<open>What holds of a wait in progress, and of what it returns.\<close>

definition wait_ok :: "('st, 'w) waiting \<Rightarrow> bool" where
  "wait_ok w \<longleftrightarrow> w_timers w \<noteq> [] \<and> last (w_timers w) = w_delay w \<and> paced (w_maxDelay w) (w_timers w) \<and>
     pending_only (w_last w)"

definition result_ok :: "time set \<Rightarrow> duration \<Rightarrow> wait_result \<Rightarrow> bool" where
  "result_ok T timeout r \<longleftrightarrow>
     (\<forall>session. r = Returned (Inr session) \<longrightarrow> (\<exists>t\<in>T. SessionState_IsReady t session)) \<and>
     (\<forall>d insts. r = Returned (Inl (ErrTimeout d insts)) \<longrightarrow>
        d = timeout \<and> (\<exists>t\<in>T. \<exists>session. pending_only session \<and> insts = NotReadyInstances t session))"

lemma result_ok_mono: "result_ok T d r \<Longrightarrow> T \<subseteq> U \<Longrightarrow> result_ok U d r"
  unfolding result_ok_def by blast

lemma requestSession_err: "requestSession loc now names d rj s = (Inl e, s') \<Longrightarrow> e = ErrText ''names cannot be empty''"
  by (auto simp: requestSession_def split: if_splits prod.splits)

lemma InstanceErrors_join: "InstanceErrors session = Some e \<Longrightarrow> \<exists>es. e = ErrJoin es"
  by (auto simp: InstanceErrors_def Let_def split: if_splits)

lemma poll_step_ok:
  assumes "poll_step loc now names d rj w s = (r, w', s')"
  shows "result_ok {now} timeout r \<and> w_maxDelay w' = w_maxDelay w \<and>
    (r = Waiting \<longrightarrow> w_timers w' = w_timers w @ [w_delay w] \<and> w_delay w' = w_delay w \<and> pending_only (w_last w')) \<and>
    (r \<noteq> Waiting \<longrightarrow> w' = w)"
  using assms requestSession_err [of loc now names d rj s] InstanceErrors_join
  by (auto simp: poll_step_def result_ok_def InstanceErrors_None split: prod.splits sum.splits if_splits option.splits)

lemma paced_snoc: "ds \<noteq> [] \<Longrightarrow> paced m (ds @ [e]) \<longleftrightarrow> paced m ds \<and> (e = last ds \<or> e = min (last ds * 2) m) \<and> 0 < e \<and> e \<le> m"
  by (auto simp: paced_def successively_append_iff)

lemma wait_ok_poll:
  assumes w: "wait_ok w" and d: "e = w_delay w \<or> e = min (w_delay w * 2) (w_maxDelay w)"
    and st: "w1 = w\<lparr>w_delay := e, w_started := st\<rparr>" and p: "poll_step loc now names d' rj w1 s = (r, w2, s')"
  shows "result_ok {now} timeout r \<and> w_maxDelay w2 = w_maxDelay w \<and> paced (w_maxDelay w) (w_timers w2) \<and>
    w_timers w2 \<noteq> [] \<and> hd (w_timers w2) = hd (w_timers w) \<and> (r = Waiting \<longrightarrow> wait_ok w2)"
proof -
  have pos: "0 < w_delay w" "w_delay w \<le> w_maxDelay w"
    using w last_in_set [of "w_timers w"] by (auto simp: wait_ok_def paced_def)
  then have e: "0 < e" "e \<le> w_maxDelay w" using d by auto
  have "paced (w_maxDelay w) (w_timers w @ [e])"
    using w d e by (simp add: wait_ok_def paced_snoc)
  with poll_step_ok [OF p, of timeout] w st show ?thesis
    by (cases r) (auto simp: wait_ok_def)
qed

lemma wait_loop_ok:
  "wait_ok w \<Longrightarrow> wait_loop loc names d timeout rj es w s = (r, w', s') \<Longrightarrow>
   result_ok (\<Union> (wake_time ` set es)) timeout r \<and> paced (w_maxDelay w) (w_timers w') \<and>
   w_timers w' \<noteq> [] \<and> hd (w_timers w') = hd (w_timers w)"
proof (induction loc names d timeout rj es w s arbitrary: r w' s' rule: wait_loop.induct)
  case (4 loc names d timeout rj now env es w s)
  let ?w = "w\<lparr>w_delay := min (w_delay w * 2) (w_maxDelay w)\<rparr>"
  obtain q w1 s1 where p: "poll_step loc now names d rj ?w (env s) = (q, w1, s1)"
    by (cases "poll_step loc now names d rj ?w (env s)")
  have "?w = w\<lparr>w_delay := min (w_delay w * 2) (w_maxDelay w), w_started := w_started w\<rparr>" by simp
  from wait_ok_poll [OF "4.prems"(1) disjI2 [OF refl] this p, of timeout] "4.IH" [OF p [symmetric] _ refl] "4.prems" p
  show ?case by (cases q) (auto intro: result_ok_mono)
next
  case (5 loc names d timeout rj now env es w s)
  let ?w = "w\<lparr>w_started := None\<rparr>"
  show ?case
  proof (cases "\<exists>pending. w_started w = Some pending \<and> startsDone_closed pending (env s)")
    case True
    then obtain pending where pe: "w_started w = Some pending" "startsDone_closed pending (env s)" by blast
    obtain q w1 s1 where p: "poll_step loc now names d rj ?w (env s) = (q, w1, s1)"
      by (cases "poll_step loc now names d rj ?w (env s)")
    have "?w = w\<lparr>w_delay := w_delay w, w_started := None\<rparr>" by simp
    from wait_ok_poll [OF "5.prems"(1) disjI1 [OF refl] this p, of timeout] "5.IH"(3) [OF pe(1) _ p [symmetric] _ refl] "5.prems" p pe
    show ?thesis by (cases q) (auto intro: result_ok_mono)
  next
    case False
    with "5.prems" "5.IH"(1,2) show ?thesis
      by (cases "w_started w") (auto intro: result_ok_mono)
  qed
qed (auto simp: result_ok_def wait_ok_def)



end
