(* ===== verification/Api.thy ===== *)
theory Api
  imports Ready_Session Configuration
begin

text \<open>
  The HTTP interface: the handlers of \<open>internal/api\<close> for the dynamic, blocking and poke
  strategies, the themes and the health check, the problem details they answer with, the
  rendering of a theme (\<open>pkg/theme\<close>) and \<open>pkg/durations\<close>.

  A handler is a function from the bound request and the state of the core to a response and
  the new state. The web framework is third-party code: \<open>bind\<close>, which fills the request from
  the query string, is a parameter, as is \<open>execute\<close>, which runs a parsed template. The core is
  the interface \<open>core_ops\<close>, whose results are nil-able as in Go; what the handlers rely on is
  the locale \<open>api_core\<close>, and the core of this development is an interpretation of it.
\<close>

section \<open>Durations and themes\<close>

text \<open>
  \<open>Humanize\<close>, with the floating-point quotients of the source as integer quotients that round
  towards zero; they agree for every duration of whole seconds.
\<close>

definition quot :: "int \<Rightarrow> int \<Rightarrow> int" where
  "quot a b = sgn a * (\<bar>a\<bar> div b)"

definition humanize_chunk :: "string \<times> int \<Rightarrow> string list" where
  "humanize_chunk c =
     (case c of (singularName, amount) \<Rightarrow>
        if amount = 0 then []
        else if amount = 1 then [int_text amount @ '' '' @ singularName]
        else [int_text amount @ '' '' @ singularName @ ''s''])"

definition Humanize :: "duration \<Rightarrow> string" where
  "Humanize d =
     (let days = quot d (24 * Hour);
          hours = quot (d - days * (24 * Hour)) Hour;
          minutes = quot (d - quot d Hour * Hour) Minute;
          seconds = quot (d - quot d Minute * Minute) Second
      in Join (concat (map humanize_chunk
           [(''day'', days), (''hour'', hours), (''minute'', minutes), (''second'', seconds)])) '' '')"

record theme_Instance =
  ti_Name :: string
  ti_Status :: string
  ti_Error :: "goerror option"
  ti_CurrentReplicas :: int
  ti_DesiredReplicas :: int
  ti_Provider :: ProviderType
  ti_Docker :: "DockerContainerInfo option"
  ti_Swarm :: "SwarmServiceInfo option"
  ti_Kubernetes :: "KubernetesWorkloadInfo option"
  ti_Podman :: "PodmanContainerInfo option"

record theme_Options =
  to_DisplayName :: string
  to_ShowDetails :: bool
  to_InstanceStates :: "theme_Instance list"
  to_SessionDuration :: duration
  to_RefreshFrequency :: duration

record TemplateData =
  td_DisplayName :: string
  td_InstanceStates :: "theme_Instance list"
  td_SessionDuration :: string
  td_RefreshFrequency :: string
  td_Version :: string

text \<open>The loaded templates by name, what runs one of them, and the version that is printed.\<close>

record 'tpl Themes =
  th_templates :: "(string, 'tpl) gomap"
  th_execute :: "'tpl \<Rightarrow> TemplateData \<Rightarrow> goerror + string"
  th_version :: string

definition CutSuffix :: "string \<Rightarrow> string \<Rightarrow> string \<times> bool" where
  "CutSuffix s suffix =
     (if length suffix \<le> length s \<and> drop (length s - length suffix) s = suffix
      then (take (length s - length suffix) s, True) else (s, False))"

definition Exists :: "'tpl Themes \<Rightarrow> string \<Rightarrow> bool" where
  "Exists t name \<longleftrightarrow> map_of (th_templates t) (name @ ''.html'') \<noteq> None"

definition theme_List :: "'tpl Themes \<Rightarrow> string list" where
  "theme_List t =
     sort (concat (map (\<lambda>n. case CutSuffix n ''.html'' of (before, ok) \<Rightarrow> if ok then [before] else [])
       (map_keys (th_templates t))))"

datatype render_error =
    ErrThemeNotFound string "string list"
  | ErrExecute goerror

definition template_data :: "'tpl Themes \<Rightarrow> theme_Options \<Rightarrow> TemplateData" where
  "template_data t opts =
     \<lparr>td_DisplayName = to_DisplayName opts,
      td_InstanceStates = (if to_ShowDetails opts then to_InstanceStates opts else []),
      td_SessionDuration = Humanize (to_SessionDuration opts),
      td_RefreshFrequency = int_text (quot (to_RefreshFrequency opts) Second),
      td_Version = th_version t\<rparr>"

definition Render :: "'tpl Themes \<Rightarrow> string \<Rightarrow> theme_Options \<Rightarrow> render_error + string" where
  "Render t name opts =
     (case map_of (th_templates t) (name @ ''.html'') of
        None \<Rightarrow> Inl (ErrThemeNotFound name (theme_List t))
      | Some tpl \<Rightarrow>
          (case th_execute t tpl (template_data t opts) of
             Inl err \<Rightarrow> Inl (ErrExecute err)
           | Inr page \<Rightarrow> Inr page))"

section \<open>Problem details\<close>

record instanceDetail =
  id_Name :: string
  id_Status :: string
  id_Message :: string
  id_Error :: string

datatype extension =
    ExtText string
  | ExtList "string list"
  | ExtInstances "instanceDetail list"

record Problem =
  pb_Type :: string
  pb_Title :: string
  pb_Status :: int
  pb_Detail :: string
  pb_Extensions :: "(string \<times> extension) list"

definition ProblemError :: "goerror \<Rightarrow> Problem" where
  "ProblemError e =
     \<lparr>pb_Type = ''https://sablierapp.dev/#/errors?id=internal-error'', pb_Title = ''Internal Server Error'',
      pb_Status = 500, pb_Detail = Error_text e, pb_Extensions = []\<rparr>"

definition ProblemValidation :: "goerror \<Rightarrow> Problem" where
  "ProblemValidation e =
     \<lparr>pb_Type = ''https://sablierapp.dev/#/errors?id=validation-error'', pb_Title = ''Validation Failed'',
      pb_Status = 400, pb_Detail = Error_text e, pb_Extensions = []\<rparr>"

definition ProblemGroupNotFound :: "string \<times> string list \<Rightarrow> Problem" where
  "ProblemGroupNotFound e =
     (case e of (grp, available) \<Rightarrow>
       \<lparr>pb_Type = ''https://sablierapp.dev/#/errors?id=group-not-found'', pb_Title = ''Group not found'',
        pb_Status = 404,
        pb_Detail = ''The group you requested does not exist. It is possible that the group has not been scanned yet.'',
        pb_Extensions = [(''availableGroups'', ExtList available), (''requestGroup'', ExtText grp),
          (''error'', ExtText (Error_text (ErrGroupNotFound grp available)))]\<rparr>)"

definition ProblemThemeNotFound :: "string \<Rightarrow> string list \<Rightarrow> Problem" where
  "ProblemThemeNotFound theme available =
     \<lparr>pb_Type = ''https://sablierapp.dev/#/errors?id=theme-not-found'', pb_Title = ''Theme not found'',
      pb_Status = 404,
      pb_Detail = ''The theme you requested does not exist among the default themes and the custom themes (if any).'',
      pb_Extensions = [(''availableTheme'', ExtList available), (''requestTheme'', ExtText theme),
        (''error'', ExtText (''theme '' @ theme @ '' not found''))]\<rparr>"

definition timeout_detail :: "InstanceInfoWithError \<Rightarrow> instanceDetail" where
  "timeout_detail i =
     \<lparr>id_Name = i_Name (iw_Instance i), id_Status = status_text (i_Status (iw_Instance i)),
      id_Message = i_Message (iw_Instance i),
      id_Error = (case iw_Error i of None \<Rightarrow> [] | Some e \<Rightarrow> Error_text e)\<rparr>"

definition ProblemTimeout :: "duration \<times> InstanceInfoWithError list \<Rightarrow> Problem" where
  "ProblemTimeout e =
     (case e of (d, insts) \<Rightarrow>
        (let detail = ''session was not ready after '' @ Duration_String d; reasons = InstanceReasons insts
         in \<lparr>pb_Type = ''https://sablierapp.dev/#/errors?id=timeout'', pb_Title = ''Gateway Timeout'',
             pb_Status = 504,
             pb_Detail = (if reasons \<noteq> [] then detail @ '': '' @ Join reasons ''; '' else detail),
             pb_Extensions = (if insts \<noteq> [] then [(''instances'', ExtInstances (map timeout_detail insts))] else [])\<rparr>))"

definition ProblemInstanceNotManaged :: "string \<Rightarrow> Problem" where
  "ProblemInstanceNotManaged name =
     \<lparr>pb_Type = ''https://sablierapp.dev/#/errors?id=instance-not-managed'', pb_Title = ''Instance not managed'',
      pb_Status = 404,
      pb_Detail = ''instance '' @ quoted name @ '' is not managed by Sablier; add the sablier.enable label to the instance'',
      pb_Extensions = [(''instance'', ExtText name), (''error'', ExtText (Error_text (ErrInstanceNotManaged name)))]\<rparr>"

definition ProblemRequestCancelled :: Problem where
  "ProblemRequestCancelled =
     \<lparr>pb_Type = ''https://sablierapp.dev/#/errors?id=request-cancelled'', pb_Title = ''Request Cancelled'',
      pb_Status = 503, pb_Detail = ''the request was cancelled before the session became ready'', pb_Extensions = []\<rparr>"

text \<open>
  \<open>errors.AsType\<close>: the first error of the wanted kind in the tree, the error itself first, then
  what it wraps.
\<close>

fun errors_AsType :: "(goerror \<Rightarrow> 'a option) \<Rightarrow> goerror \<Rightarrow> 'a option"
  and errors_AsType_list :: "(goerror \<Rightarrow> 'a option) \<Rightarrow> goerror list \<Rightarrow> 'a option" where
  "errors_AsType sel (ErrWrap m e) = (case sel (ErrWrap m e) of Some x \<Rightarrow> Some x | None \<Rightarrow> errors_AsType sel e)"
| "errors_AsType sel (ErrJoin es) = (case sel (ErrJoin es) of Some x \<Rightarrow> Some x | None \<Rightarrow> errors_AsType_list sel es)"
| "errors_AsType sel e = sel e"
| "errors_AsType_list sel [] = None"
| "errors_AsType_list sel (e # es) =
     (case errors_AsType sel e of Some x \<Rightarrow> Some x | None \<Rightarrow> errors_AsType_list sel es)"

fun is_group_not_found :: "goerror \<Rightarrow> (string \<times> string list) option" where
  "is_group_not_found (ErrGroupNotFound g available) = Some (g, available)"
| "is_group_not_found _ = None"

fun is_timeout :: "goerror \<Rightarrow> (duration \<times> InstanceInfoWithError list) option" where
  "is_timeout (ErrTimeout d insts) = Some (d, insts)"
| "is_timeout _ = None"

fun is_not_managed :: "goerror \<Rightarrow> string option" where
  "is_not_managed (ErrInstanceNotManaged n) = Some n"
| "is_not_managed _ = None"

section \<open>Responses\<close>

record InstanceEntryResponse =
  er_Instance :: InstanceInfo
  er_Error :: string
  er_Optional :: bool

record SessionStateResponse =
  sr_Instances :: "InstanceEntryResponse list"
  sr_Status :: string

definition entry_response :: "InstanceInfoWithError \<Rightarrow> InstanceEntryResponse" where
  "entry_response v =
     \<lparr>er_Instance = iw_Instance v, er_Error = (case iw_Error v of None \<Rightarrow> [] | Some e \<Rightarrow> Error_text e),
      er_Optional = iw_Optional v\<rparr>"

definition NewSessionResponse :: "time \<Rightarrow> SessionState \<Rightarrow> SessionStateResponse" where
  "NewSessionResponse now s =
     \<lparr>sr_Instances = sort_key (\<lambda>e. i_Name (er_Instance e)) (map (entry_response \<circ> snd) (Instances s)),
      sr_Status = SessionState_Status now s\<rparr>"

datatype body =
    ProblemBody Problem
  | SessionBody SessionStateResponse
  | PokeBody SessionState
  | HtmlBody string
  | ThemesBody "string list"
  | TextBody string

record response =
  re_Status :: int
  re_Headers :: "(string \<times> string) list"
  re_Body :: body

definition AbortWithProblemDetail :: "(string \<times> string) list \<Rightarrow> Problem \<Rightarrow> response" where
  "AbortWithProblemDetail headers p =
     \<lparr>re_Status = pb_Status p, re_Headers = headers @ [(''Content-Type'', ''application/problem+json'')],
      re_Body = ProblemBody p\<rparr>"

definition AddSablierHeader :: "time \<Rightarrow> SessionState \<Rightarrow> (string \<times> string) list" where
  "AddSablierHeader now session =
     [(''X-Sablier-Session-Status'', if SessionState_IsReady now session then ''ready'' else ''not-ready'')]"

definition instanceStateToRenderOptionsRequestState :: "InstanceInfo \<Rightarrow> theme_Instance" where
  "instanceStateToRenderOptionsRequestState i =
     \<lparr>ti_Name = i_Name i, ti_Status = status_text (i_Status i),
      ti_Error = (if i_Message i = [] then None else Some (ErrText (i_Message i))),
      ti_CurrentReplicas = i_CurrentReplicas i, ti_DesiredReplicas = i_DesiredReplicas i, ti_Provider = i_Provider i,
      ti_Docker = i_Docker i, ti_Swarm = i_Swarm i, ti_Kubernetes = i_Kubernetes i, ti_Podman = i_Podman i\<rparr>"

definition render_instance :: "string \<times> InstanceInfoWithError \<Rightarrow> theme_Instance" where
  "render_instance nv =
     (case nv of (name, v) \<Rightarrow>
        (case iw_Error v of
           Some err \<Rightarrow>
             \<lparr>ti_Name = name, ti_Status = status_text InstanceStatusError, ti_Error = Some err,
              ti_CurrentReplicas = 0, ti_DesiredReplicas = 0, ti_Provider = ProviderUnset,
              ti_Docker = None, ti_Swarm = None, ti_Kubernetes = None, ti_Podman = None\<rparr>
         | None \<Rightarrow> instanceStateToRenderOptionsRequestState (iw_Instance v)))"

definition sessionStateToRenderOptionsInstanceState :: "SessionState \<Rightarrow> theme_Instance list" where
  "sessionStateToRenderOptionsInstanceState session =
     sort_key ti_Name (map render_instance (Instances session))"

section \<open>The core, as the handlers see it\<close>

record 's core_ops =
  co_RequestSession :: "string list \<Rightarrow> duration \<Rightarrow> 's \<Rightarrow> (goerror + SessionState option) \<times> 's"
  co_RequestSessionGroup :: "string \<Rightarrow> duration \<Rightarrow> 's \<Rightarrow> (goerror + SessionState option) \<times> 's"
  co_RequestReadySession :: "string list \<Rightarrow> duration \<Rightarrow> duration \<Rightarrow> 's \<Rightarrow> (goerror + SessionState option) option \<times> 's"
  co_RequestReadySessionGroup :: "string \<Rightarrow> duration \<Rightarrow> duration \<Rightarrow> 's \<Rightarrow> (goerror + SessionState option) option \<times> 's"

record ('tpl, 's) ServeStrategy =
  sv_Theme :: "'tpl Themes"
  sv_Sablier :: "'s core_ops"
  sv_Dynamic :: DynamicStrategy
  sv_Blocking :: BlockingStrategy
  sv_Sessions :: Sessions

text \<open>The counter of session requests: strategy and target.\<close>

definition recordSessionRequest :: "string \<Rightarrow> string \<Rightarrow> string \<times> string" where
  "recordSessionRequest strategy grp = (strategy, if grp \<noteq> [] then ''group'' else ''names'')"

record DynamicRequest =
  dr_Group :: string
  dr_Names :: "string list"
  dr_ShowDetails :: bool
  dr_DisplayName :: string
  dr_Theme :: string
  dr_SessionDuration :: duration
  dr_RefreshFrequency :: duration

record BlockingRequest =
  br_Names :: "string list"
  br_Group :: string
  br_SessionDuration :: duration
  br_Timeout :: duration

record PokeRequest =
  pr_Names :: "string list"
  pr_Group :: string
  pr_SessionDuration :: duration

text \<open>The check of \<open>names\<close> and \<open>group\<close> that the three handlers share.\<close>

definition check_target :: "string list \<Rightarrow> string \<Rightarrow> goerror option" where
  "check_target names grp =
     (if names = [] \<and> grp = [] then Some (ErrText (CHR 0x27 # ''names'' @ [CHR 0x27] @ '' or '' @ [CHR 0x27] @ ''group'' @ [CHR 0x27] @ '' query parameter must be set''))
      else if names \<noteq> [] \<and> grp \<noteq> [] then
        Some (ErrText (CHR 0x27 # ''names'' @ [CHR 0x27] @ '' and '' @ [CHR 0x27] @ ''group'' @ [CHR 0x27] @ '' query parameters are both set, only one must be set''))
      else None)"

definition no_session :: goerror where
  "no_session = ErrText ''session could not be created, please check logs for more details''"

type_synonym 's handled = "response \<times> (string \<times> string) list \<times> 's"

text \<open>What the dynamic handler does with the session it got.\<close>

definition dynamic_page :: "time \<Rightarrow> ('tpl, 's) ServeStrategy \<Rightarrow> DynamicRequest \<Rightarrow> SessionState \<Rightarrow> response" where
  "dynamic_page now s request sessionState =
     (let header = AddSablierHeader now sessionState;
          renderOptions = \<lparr>to_DisplayName = dr_DisplayName request, to_ShowDetails = dr_ShowDetails request,
            to_InstanceStates = sessionStateToRenderOptionsInstanceState sessionState,
            to_SessionDuration = dr_SessionDuration request, to_RefreshFrequency = dr_RefreshFrequency request\<rparr>
      in case Render (sv_Theme s) (dr_Theme request) renderOptions of
           Inl (ErrThemeNotFound t available) \<Rightarrow> AbortWithProblemDetail header (ProblemThemeNotFound t available)
         | Inl (ErrExecute err) \<Rightarrow> AbortWithProblemDetail header (ProblemError err)
         | Inr page \<Rightarrow>
             \<lparr>re_Status = 200,
              re_Headers = header @ [(''Cache-Control'', ''no-cache''), (''Content-Type'', ''text/html''),
                (''Content-Length'', nat_text (length page))],
              re_Body = HtmlBody page\<rparr>)"

definition dynamic_defaults :: "('tpl, 's) ServeStrategy \<Rightarrow> DynamicRequest" where
  "dynamic_defaults s =
     \<lparr>dr_Group = [], dr_Names = [], dr_ShowDetails = ds_ShowDetailsByDefault (sv_Dynamic s),
      dr_DisplayName = [], dr_Theme = ds_DefaultTheme (sv_Dynamic s),
      dr_SessionDuration = ss_DefaultDuration (sv_Sessions s),
      dr_RefreshFrequency = ds_DefaultRefreshFrequency (sv_Dynamic s)\<rparr>"

text \<open>The request to the core, for names or for a group, as the dynamic and the poke handler make it.\<close>

definition call_session :: "'s core_ops \<Rightarrow> string list \<Rightarrow> string \<Rightarrow> duration \<Rightarrow> 's \<Rightarrow> (goerror + SessionState option) \<times> 's" where
  "call_session core names grp d st =
     (if names \<noteq> [] then co_RequestSession core names d st else co_RequestSessionGroup core grp d st)"

definition session_problem :: "string list \<Rightarrow> goerror \<Rightarrow> Problem" where
  "session_problem names err =
     (case (if names \<noteq> [] then None else errors_AsType is_group_not_found err) of
        Some g \<Rightarrow> ProblemGroupNotFound g
      | None \<Rightarrow> ProblemError err)"

definition StartDynamic :: "time \<Rightarrow> ('tpl, 's) ServeStrategy \<Rightarrow> (DynamicRequest \<Rightarrow> goerror + DynamicRequest) \<Rightarrow> 's \<Rightarrow> 's handled" where
  "StartDynamic now s bind st =
     (case bind (dynamic_defaults s) of
        Inl err \<Rightarrow> (AbortWithProblemDetail [] (ProblemValidation err), [], st)
      | Inr request \<Rightarrow>
          (case check_target (dr_Names request) (dr_Group request) of
             Some err \<Rightarrow> (AbortWithProblemDetail [] (ProblemValidation err), [], st)
           | None \<Rightarrow>
               if \<not> Exists (sv_Theme s) (dr_Theme request) then
                 (AbortWithProblemDetail [] (ProblemThemeNotFound (dr_Theme request) (theme_List (sv_Theme s))), [], st)
               else
                 (let m = [recordSessionRequest ''dynamic'' (dr_Group request)]
                  in case call_session (sv_Sablier s) (dr_Names request) (dr_Group request) (dr_SessionDuration request) st of
                       (Inl err, st1) \<Rightarrow> (AbortWithProblemDetail [] (session_problem (dr_Names request) err), m, st1)
                     | (Inr None, st1) \<Rightarrow> (AbortWithProblemDetail [] (ProblemError no_session), m, st1)
                     | (Inr (Some sessionState), st1) \<Rightarrow> (dynamic_page now s request sessionState, m, st1))))"

text \<open>The error of the blocking request, as a problem.\<close>

definition blocking_problem :: "string list \<Rightarrow> goerror \<Rightarrow> Problem" where
  "blocking_problem names err =
     (case (if names \<noteq> [] then None else errors_AsType is_group_not_found err) of
        Some g \<Rightarrow> ProblemGroupNotFound g
      | None \<Rightarrow>
          (case errors_AsType is_timeout err of
             Some t \<Rightarrow> ProblemTimeout t
           | None \<Rightarrow>
               (case errors_AsType is_not_managed err of
                  Some n \<Rightarrow> ProblemInstanceNotManaged n
                | None \<Rightarrow> if errors_Is err ctx_Err then ProblemRequestCancelled else ProblemError err)))"

definition blocking_defaults :: "('tpl, 's) ServeStrategy \<Rightarrow> BlockingRequest" where
  "blocking_defaults s =
     \<lparr>br_Names = [], br_Group = [], br_SessionDuration = ss_DefaultDuration (sv_Sessions s),
      br_Timeout = bs_DefaultTimeout (sv_Blocking s)\<rparr>"

definition StartBlocking :: "time \<Rightarrow> ('tpl, 's) ServeStrategy \<Rightarrow> (BlockingRequest \<Rightarrow> goerror + BlockingRequest) \<Rightarrow> 's \<Rightarrow>
    's handled option" where
  "StartBlocking now s bind st =
     (case bind (blocking_defaults s) of
        Inl err \<Rightarrow> Some (AbortWithProblemDetail [] (ProblemValidation err), [], st)
      | Inr request \<Rightarrow>
          (case check_target (br_Names request) (br_Group request) of
             Some err \<Rightarrow> Some (AbortWithProblemDetail [] (ProblemValidation err), [], st)
           | None \<Rightarrow>
               (let m = [recordSessionRequest ''blocking'' (br_Group request)]
                in case (if br_Names request \<noteq> []
                         then co_RequestReadySession (sv_Sablier s) (br_Names request) (br_SessionDuration request) (br_Timeout request) st
                         else co_RequestReadySessionGroup (sv_Sablier s) (br_Group request) (br_SessionDuration request) (br_Timeout request) st) of
                     (None, st1) \<Rightarrow> None
                   | (Some (Inl err), st1) \<Rightarrow>
                       Some (AbortWithProblemDetail [] (blocking_problem (br_Names request) err), m, st1)
                   | (Some (Inr None), st1) \<Rightarrow> Some (AbortWithProblemDetail [] (ProblemError no_session), m, st1)
                   | (Some (Inr (Some sessionState)), st1) \<Rightarrow>
                       Some (\<lparr>re_Status = 200, re_Headers = AddSablierHeader now sessionState,
                              re_Body = SessionBody (NewSessionResponse now sessionState)\<rparr>, m, st1))))"

definition StartPoke :: "time \<Rightarrow> ('tpl, 's) ServeStrategy \<Rightarrow> (PokeRequest \<Rightarrow> goerror + PokeRequest) \<Rightarrow> 's \<Rightarrow> 's handled" where
  "StartPoke now s bind st =
     (case bind \<lparr>pr_Names = [], pr_Group = [], pr_SessionDuration = ss_DefaultDuration (sv_Sessions s)\<rparr> of
        Inl err \<Rightarrow> (AbortWithProblemDetail [] (ProblemValidation err), [], st)
      | Inr request \<Rightarrow>
          (case check_target (pr_Names request) (pr_Group request) of
             Some err \<Rightarrow> (AbortWithProblemDetail [] (ProblemValidation err), [], st)
           | None \<Rightarrow>
               (let m = [recordSessionRequest ''poke'' (pr_Group request)]
                in case call_session (sv_Sablier s) (pr_Names request) (pr_Group request) (pr_SessionDuration request) st of
                     (Inl err, st1) \<Rightarrow> (AbortWithProblemDetail [] (session_problem (pr_Names request) err), m, st1)
                   | (Inr None, st1) \<Rightarrow> (AbortWithProblemDetail [] (ProblemError no_session), m, st1)
                   | (Inr (Some sessionState), st1) \<Rightarrow>
                       (\<lparr>re_Status = 200, re_Headers = AddSablierHeader now sessionState, re_Body = PokeBody sessionState\<rparr>,
                        m, st1))))"

definition ListThemes :: "('tpl, 's) ServeStrategy \<Rightarrow> response" where
  "ListThemes s = \<lparr>re_Status = 200, re_Headers = [], re_Body = ThemesBody (theme_List (sv_Theme s))\<rparr>"

record Health =
  TerminatingStatusCode :: int
  terminating :: bool

definition Health_SetDefaults :: "Health \<Rightarrow> Health" where
  "Health_SetDefaults h = h\<lparr>TerminatingStatusCode := 503\<rparr>"

text \<open>\<open>WithContext\<close>: what its goroutine does once the context is done.\<close>

definition Health_WithContext :: "Health \<Rightarrow> Health" where
  "Health_WithContext h = h\<lparr>terminating := True\<rparr>"

definition status_name :: "int \<Rightarrow> string" where
  "status_name c = (if c = 200 then ''OK'' else if c = 503 then ''Service Unavailable'' else [])"

definition Health_ServeHTTP :: "Health \<Rightarrow> response" where
  "Health_ServeHTTP h =
     (let statusCode = (if terminating h then TerminatingStatusCode h else 200)
      in \<lparr>re_Status = statusCode, re_Headers = [], re_Body = TextBody (status_name statusCode)\<rparr>)"

definition Healthcheck :: Health where
  "Healthcheck = Health_SetDefaults \<lparr>TerminatingStatusCode = 0, terminating = False\<rparr>"

section \<open>What the handlers rely on\<close>

text \<open>
  A core that answers every request for names with a session, and that returns a session or
  an error, never neither.
\<close>

locale api_core =
  fixes ops :: "'s core_ops"
  assumes named_session: "names \<noteq> [] \<Longrightarrow> \<exists>session. fst (co_RequestSession ops names d st) = Inr (Some session)"
    and group_session: "fst (co_RequestSessionGroup ops grp d st) \<noteq> Inr None"
    and ready_session: "fst (co_RequestReadySession ops names d t st) \<noteq> Some (Inr None)"
    and ready_group: "fst (co_RequestReadySessionGroup ops grp d t st) \<noteq> Some (Inr None)"
begin

lemma call_session_some: "fst (call_session ops names grp d st) \<noteq> Inr None"
  using named_session [of names d st] group_session [of grp d st] by (auto simp: call_session_def)

text \<open>A valid request for names is answered with status 200 if the page can be rendered.\<close>

lemma dynamic_named:
  assumes "sv_Sablier s = ops" "bind (dynamic_defaults s) = Inr request" "dr_Names request \<noteq> []" "dr_Group request = []"
    and "map_of (th_templates (sv_Theme s)) (dr_Theme request @ ''.html'') = Some tpl"
    and "\<And>data. \<exists>page. th_execute (sv_Theme s) tpl data = Inr page"
  shows "re_Status (fst (StartDynamic now s bind st)) = 200"
proof -
  obtain session st1 where c: "co_RequestSession ops (dr_Names request) (dr_SessionDuration request) st = (Inr (Some session), st1)"
    using named_session [OF assms(3), of "dr_SessionDuration request" st] by (metis prod.collapse)
  have "re_Status (dynamic_page now s request session) = 200"
    using assms(5,6) by (auto simp: dynamic_page_def Render_def Let_def split: sum.splits) (metis Inl_Inr_False)
  with assms c show ?thesis by (simp add: StartDynamic_def check_target_def call_session_def Exists_def)
qed

lemma poke_named:
  assumes "sv_Sablier s = ops" "pr_Names request \<noteq> []" "pr_Group request = []"
    and "bind \<lparr>pr_Names = [], pr_Group = [], pr_SessionDuration = ss_DefaultDuration (sv_Sessions s)\<rparr> = Inr request"
  shows "re_Status (fst (StartPoke now s bind st)) = 200"
proof -
  obtain session st1 where "co_RequestSession ops (pr_Names request) (pr_SessionDuration request) st = (Inr (Some session), st1)"
    using named_session [OF assms(2), of "pr_SessionDuration request" st] by (metis prod.collapse)
  with assms show ?thesis by (simp add: StartPoke_def check_target_def call_session_def)
qed

end

text \<open>The core of this development, with the events that a blocking request waits for.\<close>

definition some_session :: "(goerror + SessionState) \<times> 's \<Rightarrow> (goerror + SessionState option) \<times> 's" where
  "some_session r = (map_sum (\<lambda>e. e) Some (fst r), snd r)"

definition ready_result :: "wait_result \<times> duration list \<times> 's \<Rightarrow> (goerror + SessionState option) option \<times> 's" where
  "ready_result r =
     (case r of
        (Waiting, timers, st) \<Rightarrow> (None, st)
      | (Returned x, timers, st) \<Rightarrow> (Some (map_sum (\<lambda>e. e) Some x), st))"

definition sablier_core :: "location \<Rightarrow> time \<Rightarrow> ('st, 'w) wake list \<Rightarrow> ('st, 'w) sablier core_ops" where
  "sablier_core loc now events =
     \<lparr>co_RequestSession = (\<lambda>names d s. some_session (RequestSession loc now names d s)),
      co_RequestSessionGroup = (\<lambda>grp d s. some_session (RequestSessionGroup loc now grp d s)),
      co_RequestReadySession = (\<lambda>names d t s. ready_result (RequestReadySession loc now names d t events s)),
      co_RequestReadySessionGroup = (\<lambda>grp d t s. ready_result (RequestReadySessionGroup loc now grp d t events s))\<rparr>"

lemma some_session_not_nil: "fst (some_session r) \<noteq> Inr None"
  by (cases "fst r") (auto simp: some_session_def)

lemma ready_result_not_nil: "fst (ready_result r) \<noteq> Some (Inr None)"
  by (auto simp: ready_result_def split: prod.splits wait_result.splits) (metis Inl_Inr_False Inr_inject map_sum.simps option.distinct(1) sum.exhaust)

interpretation core: api_core "sablier_core loc now events" for loc now events
proof
  fix names :: "string list" and d and st :: "('a, 'b) sablier"
  assume "names \<noteq> []"
  then show "\<exists>session. fst (co_RequestSession (sablier_core loc now events) names d st) = Inr (Some session)"
    by (simp add: sablier_core_def RequestSession_def requestSession_def some_session_def split: prod.splits)
qed (auto simp: sablier_core_def some_session_not_nil ready_result_not_nil)

section \<open>Properties\<close>

lemma check_target_None: "check_target names grp = None \<longleftrightarrow> (names = []) \<noteq> (grp = [])"
  by (auto simp: check_target_def)

lemma dynamic_page_answer:
  "re_Body (dynamic_page now s request session) = HtmlBody page \<Longrightarrow>
   re_Status (dynamic_page now s request session) = 200 \<and>
   set (AddSablierHeader now session) \<subseteq> set (re_Headers (dynamic_page now s request session))"
  by (auto simp: dynamic_page_def Let_def AbortWithProblemDetail_def split: sum.splits render_error.splits)

lemma call_session_core:
  assumes "core = sablier_core loc now events" and "call_session core names grp d st = (r, st1)"
  shows "st1 = snd (if names \<noteq> [] then RequestSession loc now names d st else RequestSessionGroup loc now grp d st)"
    and "names \<noteq> [] \<Longrightarrow> r = map_sum (\<lambda>e. e) Some (fst (RequestSession loc now names d st))"
  using assms by (auto simp: call_session_def sablier_core_def some_session_def split: if_splits)


text \<open>
  C32: the blocking strategy on this core. A session that is ready in time is answered with
  status 200, each of its instances once and sorted by name; one that is not with 504 and the
  pending instances; a cancelled request with 503; an unknown group with 404 and the groups
  there are.
\<close>

theorem blocking_strategy:
  assumes core: "sv_Sablier s = sablier_core loc now events" and b: "bind (blocking_defaults s) = Inr request"
    and target: "(br_Names request = []) \<noteq> (br_Group request = [])"
    and r: "(if br_Names request \<noteq> [] then RequestReadySession loc now (br_Names request) (br_SessionDuration request) (br_Timeout request) events st
       else RequestReadySessionGroup loc now (br_Group request) (br_SessionDuration request) (br_Timeout request) events st) =
      (Returned res, timers, st')"
    and h: "StartBlocking now s bind st = Some (resp, ms, st1)"
  shows "st1 = st' \<and>
    (\<forall>session. res = Inr session \<longrightarrow> re_Status resp = 200 \<and>
       (\<exists>body. re_Body resp = SessionBody body \<and> sr_Status body = SessionState_Status now session \<and>
          sorted (map (\<lambda>e. i_Name (er_Instance e)) (sr_Instances body)) \<and>
          mset (sr_Instances body) = mset (map (entry_response \<circ> snd) (Instances session)))) \<and>
    (\<forall>d insts. res = Inl (ErrTimeout d insts) \<longrightarrow> re_Status resp = 504 \<and>
       (insts \<noteq> [] \<longrightarrow> (\<exists>p. re_Body resp = ProblemBody p \<and>
          (''instances'', ExtInstances (map timeout_detail insts)) \<in> set (pb_Extensions p)))) \<and>
    (\<forall>m. res = Inl (ErrWrap m ctx_Err) \<longrightarrow> re_Status resp = 503) \<and>
    (\<forall>g available. br_Names request = [] \<and> res = Inl (ErrGroupNotFound g available) \<longrightarrow> re_Status resp = 404 \<and>
       (\<exists>p. re_Body resp = ProblemBody p \<and> (''availableGroups'', ExtList available) \<in> set (pb_Extensions p)))"
proof -
  have "check_target (br_Names request) (br_Group request) = None" using target check_target_None by blast
  then have H: "(case res of
      Inl err \<Rightarrow> resp = AbortWithProblemDetail [] (blocking_problem (br_Names request) err)
    | Inr session \<Rightarrow> resp = \<lparr>re_Status = 200, re_Headers = AddSablierHeader now session,
        re_Body = SessionBody (NewSessionResponse now session)\<rparr>) \<and> st1 = st'"
    using h b r by (auto simp: StartBlocking_def core sablier_core_def ready_result_def Let_def split: if_splits sum.splits)
  show ?thesis
  proof (cases res)
    case (Inr session)
    with H show ?thesis by (simp add: NewSessionResponse_def mset_map)
  next
    case (Inl err)
    have "errors_Is ctx_Err ctx_Err" "errors_AsType is_timeout ctx_Err = None" "errors_AsType is_not_managed ctx_Err = None"
      "errors_AsType is_group_not_found ctx_Err = None" by (simp_all add: ctx_Err_def)
    with Inl H show ?thesis
      by (auto simp: AbortWithProblemDetail_def blocking_problem_def ProblemTimeout_def ProblemRequestCancelled_def
          ProblemGroupNotFound_def Let_def)
  qed
qed

text \<open>
  A start that runs into its own timeout is reported as a cancelled request: the error of
  the instance wraps the deadline of the start, which the handler takes for the request's.
\<close>

theorem start_timeout_reported_as_cancelled:
  "blocking_problem [''web''] (ErrJoin [ErrWrap ''web'' (ErrWrap ''instance start failed'' ctx_Err)]) =
     ProblemRequestCancelled"
  by (simp add: blocking_problem_def ctx_Err_def)

section \<open>A server\<close>

definition demo_serve :: "(unit, (InMemory, list_world) sablier) ServeStrategy" where
  "demo_serve =
     \<lparr>sv_Theme = \<lparr>th_templates = [(''ghost.html'', ())], th_execute = (\<lambda>tpl data. Inr ''<html></html>''), th_version = ''dev''\<rparr>,
      sv_Sablier = sablier_core (fixed_zone 0) 0 [],
      sv_Dynamic = \<lparr>ds_CustomThemesPath = [], ds_ShowDetailsByDefault = True, ds_DefaultTheme = ''ghost'',
        ds_DefaultRefreshFrequency = 5 * Second\<rparr>,
      sv_Blocking = \<lparr>bs_DefaultTimeout = Minute, bs_DefaultRefreshFrequency = 5 * Second\<rparr>,
      sv_Sessions = \<lparr>ss_DefaultDuration = 5 * Minute, ss_ExpirationInterval = 20 * Second\<rparr>\<rparr>"


theorem blocking_strategy_witness:
  "\<exists>resp ms st1. StartBlocking 0 demo_serve (\<lambda>d. Inr (d\<lparr>br_Group := ''front''\<rparr>)) demo_sablier = Some (resp, ms, st1) \<and>
     re_Status resp = 404"
proof -
  let ?bind = "\<lambda>d. Inr (d\<lparr>br_Group := ''front''\<rparr>) :: goerror + BlockingRequest"
  have core: "sv_Sablier demo_serve = sablier_core (fixed_zone 0) 0 []" by (simp add: demo_serve_def)
  have r: "RequestReadySessionGroup (fixed_zone 0) 0 ''front'' d t [] demo_sablier =
      (Returned (Inl (ErrGroupNotFound ''front'' [])), [], demo_sablier)" for d t
    by (simp add: RequestReadySessionGroup_def group_names_def reg_Get_def demo_sablier_def sablier_New_def
        newGroupRegistry_def reg_Keys_def)
  obtain resp ms st1 where h: "StartBlocking 0 demo_serve ?bind demo_sablier = Some (resp, ms, st1)"
    by (cases "StartBlocking 0 demo_serve ?bind demo_sablier")
      (auto simp: StartBlocking_def core blocking_defaults_def check_target_def sablier_core_def r ready_result_def Let_def)
  have "re_Status resp = 404"
    using blocking_strategy [OF core _ _ _ h, of "(blocking_defaults demo_serve)\<lparr>br_Group := ''front''\<rparr>"
        "Inl (ErrGroupNotFound ''front'' [])" "[]" demo_sablier] r
    by (simp add: blocking_defaults_def)
  with h show ?thesis by blast
qed

section \<open>Themes\<close>

lemma CutSuffix_iff: "CutSuffix n suf = (b, True) \<longleftrightarrow> n = b @ suf"
proof
  assume "CutSuffix n suf = (b, True)"
  then have "b = take (length n - length suf) n" "drop (length n - length suf) n = suf"
    by (auto simp: CutSuffix_def split: if_splits)
  then show "n = b @ suf" by (metis append_take_drop_id)
qed (simp add: CutSuffix_def)

text \<open>
  The list of themes, which a refused request is told about, is sorted and names exactly
  the themes that exist; rendering fails for lack of a theme exactly for the others, and shows
  the state of the instances only if details are asked for.
\<close>

theorem themes_listed:
  "sorted (theme_List t) \<and> (\<forall>name. name \<in> set (theme_List t) \<longleftrightarrow> Exists t name) \<and>
   (\<forall>name opts. (\<exists>n l. Render t name opts = Inl (ErrThemeNotFound n l)) \<longleftrightarrow> \<not> Exists t name) \<and>
   (\<forall>opts. td_InstanceStates (template_data t opts) = (if to_ShowDetails opts then to_InstanceStates opts else []))"
proof -
  have "name \<in> set (theme_List t) \<longleftrightarrow> (\<exists>n\<in>set (map_keys (th_templates t)). CutSuffix n ''.html'' = (name, True))" for name
    unfolding theme_List_def by (force split: prod.splits if_splits)
  then have "name \<in> set (theme_List t) \<longleftrightarrow> name @ ''.html'' \<in> set (map_keys (th_templates t))" for name
    by (auto simp: CutSuffix_iff)
  then have "name \<in> set (theme_List t) \<longleftrightarrow> Exists t name" for name
    unfolding Exists_def set_map_keys by (simp add: domIff)
  moreover have "(\<exists>n l. Render t name opts = Inl (ErrThemeNotFound n l)) \<longleftrightarrow> \<not> Exists t name" for name opts
    by (auto simp: Render_def Exists_def split: option.splits sum.splits)
  moreover have "sorted (theme_List t)" by (simp add: theme_List_def)
  ultimately show ?thesis by (simp add: template_data_def)
qed

end
