(* ===== verification/Theme_Files.thy ===== *)
theory Theme_Files
  imports Api
begin

text \<open>
  Loading the themes of the waiting page (\<open>pkg/theme\<close>): the file system that refuses symbolic links
  (\<open>nosymlink_fs.go\<close>), the inlining of assets into a page (\<open>bundle.go\<close>), the walk that registers the
  templates (\<open>parse.go\<close>), the constructors (\<open>theme.go\<close>) and their use at startup
  (\<open>pkg/sabliercmd/theme.go\<close>).

  The file system of the machine is a tree with symbolic links, whose targets are absolute; \<open>Stat\<close>
  follows them everywhere and \<open>Lstat\<close> everywhere but at the end. Permissions and read errors are
  left out. The regular expressions are matching functions: each of them starts with a fixed word
  and continues without a choice. Their case-insensitivity is the one of ASCII.
\<close>

section \<open>The file system\<close>

datatype fnode = Reg string | Dir "(string \<times> fnode) list" | Link "string list"

datatype fs_error = ErrNotExist | ErrInvalid | ErrSymlink | ErrTooLarge | ErrIsDir | ErrTemplate goerror

fun node_at :: "fnode \<Rightarrow> string list \<Rightarrow> fnode option" where
  "node_at n [] = Some n"
| "node_at (Dir es) (c # cs) = (case map_of es c of None \<Rightarrow> None | Some n \<Rightarrow> node_at n cs)"
| "node_at n (c # cs) = None"

text \<open>
  Resolving a path follows at most 40 links, as the kernel does. The result has no link on the way.
\<close>

fun resolve_path :: "nat \<Rightarrow> fnode \<Rightarrow> string list \<Rightarrow> string list \<Rightarrow> string list option" where
  "resolve_path n machine done [] = Some done"
| "resolve_path n machine done (c # cs) =
     (case node_at machine (done @ [c]) of
        None \<Rightarrow> None
      | Some (Link target) \<Rightarrow> (case n of 0 \<Rightarrow> None | Suc m \<Rightarrow> resolve_path m machine [] (target @ cs))
      | Some _ \<Rightarrow> resolve_path n machine (done @ [c]) cs)"

definition os_Stat :: "fnode \<Rightarrow> string list \<Rightarrow> fs_error + fnode" where
  "os_Stat machine path =
     (case resolve_path 40 machine [] path of
        None \<Rightarrow> Inl ErrNotExist
      | Some p \<Rightarrow> (case node_at machine p of None \<Rightarrow> Inl ErrNotExist | Some n \<Rightarrow> Inr n))"

definition os_Lstat :: "fnode \<Rightarrow> string list \<Rightarrow> fs_error + fnode" where
  "os_Lstat machine path =
     (if path = [] then Inr machine
      else case resolve_path 40 machine [] (butlast path) of
             None \<Rightarrow> Inl ErrNotExist
           | Some p \<Rightarrow> (case node_at machine (p @ [last path]) of None \<Rightarrow> Inl ErrNotExist | Some n \<Rightarrow> Inr n))"

text \<open>Names inside a file system: \<open>fs.ValidPath\<close>, and \<open>filepath.Join\<close> of a directory and a name.\<close>

definition ValidPath :: "string \<Rightarrow> bool" where
  "ValidPath name \<longleftrightarrow> name = ''.'' \<or> (\<forall>e \<in> set (Split (CHR ''/'') name). e \<notin> {[], ''.'', ''..''})"

definition path_elems :: "string \<Rightarrow> string list" where
  "path_elems name = (if name = ''.'' then [] else Split (CHR ''/'') name)"

definition path_Join :: "string list \<Rightarrow> string \<Rightarrow> string list" where
  "path_Join dir name =
     fold (\<lambda>e acc. if e \<in> {[], ''.''} then acc else if e = ''..'' then butlast acc else acc @ [e])
       (Split (CHR ''/'') name) dir"

definition DirFS_Open :: "fnode \<Rightarrow> string list \<Rightarrow> string \<Rightarrow> fs_error + fnode" where
  "DirFS_Open machine dir name =
     (if \<not> ValidPath name then Inl ErrInvalid else os_Stat machine (dir @ path_elems name))"

definition noSymlinkFS_Open :: "fnode \<Rightarrow> string list \<Rightarrow> string \<Rightarrow> fs_error + fnode" where
  "noSymlinkFS_Open machine dir name =
     (case os_Lstat machine (path_Join dir name) of
        Inl err \<Rightarrow> DirFS_Open machine dir name
      | Inr (Link target) \<Rightarrow> Inl ErrSymlink
      | Inr _ \<Rightarrow> DirFS_Open machine dir name)"

fun is_link :: "fnode \<Rightarrow> bool" where
  "is_link (Link t) = True" | "is_link _ = False"

text \<open>The entries of a directory, which the system returns sorted by name.\<close>

definition noSymlinkFS_ReadDir :: "(string \<times> fnode) list \<Rightarrow> (string \<times> fnode) list" where
  "noSymlinkFS_ReadDir es = filter (\<lambda>(n, e). \<not> is_link e) (sort_key fst es)"

section \<open>Matching\<close>

definition is_word :: "char \<Rightarrow> bool" where
  "is_word c \<longleftrightarrow> (let n = of_char c :: nat in 48 \<le> n \<and> n \<le> 57 \<or> 65 \<le> n \<and> n \<le> 90 \<or> 97 \<le> n \<and> n \<le> 122 \<or> n = 95)"

definition is_blank :: "char \<Rightarrow> bool" where
  "is_blank c \<longleftrightarrow> c \<in> {CHR 0x09, CHR 0x0A, CHR 0x0C, CHR 0x0D, CHR '' ''}"

definition is_quote :: "char \<Rightarrow> bool" where
  "is_quote c \<longleftrightarrow> c = CHR 0x22 \<or> c = CHR 0x27"

text \<open>A word in lower case at the start of a text, whatever the case of the text.\<close>

definition starts_ci :: "string \<Rightarrow> string \<Rightarrow> bool" where
  "starts_ci w s \<longleftrightarrow> map lower_char (take (length w) s) = w"

definition word_ends :: "string \<Rightarrow> bool" where
  "word_ends s \<longleftrightarrow> s = [] \<or> \<not> is_word (hd s)"

text \<open>
  The length of a tag at the start of a text: its name, a word boundary and everything up to the
  next \<open>>\<close>. This is \<open>linkTagRe\<close> and \<open>imgTagRe\<close>.
\<close>

definition tag_len :: "string \<Rightarrow> string \<Rightarrow> nat option" where
  "tag_len w s =
     (let rest = drop (length w) s in
      if starts_ci w s \<and> word_ends rest \<and> CHR ''>'' \<in> set rest
      then Some (length w + length (takeWhile (\<lambda>c. c \<noteq> CHR ''>'') rest) + 1) else None)"

fun index_ci :: "string \<Rightarrow> string \<Rightarrow> nat option" where
  "index_ci w [] = (if w = [] then Some 0 else None)"
| "index_ci w (c # s) = (if starts_ci w (c # s) then Some 0 else map_option Suc (index_ci w s))"

text \<open>\<open>scriptTagRe\<close>: the attributes, the body up to the first end tag, and the length of the match.\<close>

definition script_match :: "string \<Rightarrow> (string \<times> string \<times> nat) option" where
  "script_match s =
     (case tag_len ''<script'' s of
        None \<Rightarrow> None
      | Some n \<Rightarrow>
          (case index_ci ''</script>'' (drop n s) of
             None \<Rightarrow> None
           | Some b \<Rightarrow> Some (take (n - 8) (drop 7 s), take b (drop n s), n + b + 9)))"

text \<open>
  An attribute at the start of a text: its name, an equals sign with optional spaces, and a
  quoted value that is not empty. The result is the length of the match and the value.
\<close>

definition attr_at :: "string \<Rightarrow> string \<Rightarrow> (nat \<times> string) option" where
  "attr_at w s =
     (if \<not> starts_ci w s then None
      else let s1 = dropWhile is_blank (drop (length w) s) in
           if s1 = [] \<or> hd s1 \<noteq> CHR ''='' then None
           else let s2 = dropWhile is_blank (tl s1) in
                if s2 = [] \<or> \<not> is_quote (hd s2) then None
                else let v = takeWhile (\<lambda>c. \<not> is_quote c) (tl s2); s3 = dropWhile (\<lambda>c. \<not> is_quote c) (tl s2) in
                     if v = [] \<or> s3 = [] then None else Some (length s - length s3 + 1, v))"

text \<open>The first match that starts at a word boundary: the matched text and the value.\<close>

fun find_attr :: "bool \<Rightarrow> string \<Rightarrow> string \<Rightarrow> (string \<times> string) option" where
  "find_attr after_word w [] = None"
| "find_attr after_word w (c # s) =
     (case (if after_word then None else attr_at w (c # s)) of
        Some (n, v) \<Rightarrow> Some (take n (c # s), v)
      | None \<Rightarrow> find_attr (is_word c) w s)"

fun has_rel_stylesheet :: "bool \<Rightarrow> string \<Rightarrow> bool" where
  "has_rel_stylesheet after_word [] = False"
| "has_rel_stylesheet after_word (c # s) =
     (\<not> after_word \<and> (case attr_at ''rel'' (c # s) of None \<Rightarrow> False | Some (n, v) \<Rightarrow> ToLower v = ''stylesheet'') \<or>
      has_rel_stylesheet (is_word c) s)"

text \<open>\<open>ReplaceAllStringFunc\<close>: the matches from left to right, without overlap.\<close>

function ReplaceAllFunc :: "(string \<Rightarrow> nat option) \<Rightarrow> (string \<Rightarrow> string) \<Rightarrow> string \<Rightarrow> string" where
  "ReplaceAllFunc m f [] = []"
| "ReplaceAllFunc m f (c # s) =
     (case m (c # s) of
        Some (Suc n) \<Rightarrow> f (take (Suc n) (c # s)) @ ReplaceAllFunc m f (drop n s)
      | _ \<Rightarrow> c # ReplaceAllFunc m f s)"
  by pat_completeness auto
termination by (relation "measure (\<lambda>(m, f, s). length s)") auto

text \<open>\<open>strings.Replace\<close> of the first occurrence.\<close>

fun replace_first :: "string \<Rightarrow> string \<Rightarrow> string \<Rightarrow> string" where
  "replace_first old new [] = (if old = [] then new else [])"
| "replace_first old new (c # s) =
     (if take (length old) (c # s) = old then new @ drop (length old) (c # s) else c # replace_first old new s)"

section \<open>Assets\<close>

definition maxAssetBytes :: nat where
  "maxAssetBytes = 10 * 2 ^ 20"

definition safeReadFile :: "(string \<Rightarrow> fs_error + fnode) \<Rightarrow> string \<Rightarrow> fs_error + string" where
  "safeReadFile opn name =
     (case opn name of
        Inl err \<Rightarrow> Inl err
      | Inr (Reg content) \<Rightarrow>
          (let data = take (maxAssetBytes + 1) content
           in if length data > maxAssetBytes then Inl ErrTooLarge else Inr data)
      | Inr _ \<Rightarrow> Inl ErrIsDir)"

definition ReadFile :: "(string \<Rightarrow> fs_error + fnode) \<Rightarrow> string \<Rightarrow> fs_error + string" where
  "ReadFile opn name =
     (case opn name of Inl err \<Rightarrow> Inl err | Inr (Reg content) \<Rightarrow> Inr content | Inr _ \<Rightarrow> Inl ErrIsDir)"

definition HasPrefix :: "string \<Rightarrow> string \<Rightarrow> bool" where
  "HasPrefix s p \<longleftrightarrow> take (length p) s = p"

fun contains_text :: "string \<Rightarrow> string \<Rightarrow> bool" where
  "contains_text [] w = (w = [])"
| "contains_text (c # s) w = (HasPrefix (c # s) w \<or> contains_text s w)"

definition isRelativeRef :: "string \<Rightarrow> bool" where
  "isRelativeRef ref \<longleftrightarrow>
     ref \<noteq> [] \<and> \<not> HasPrefix ref ''data:'' \<and> \<not> HasPrefix ref ''/'' \<and> \<not> HasPrefix ref ''//'' \<and>
     \<not> contains_text ref ''://''"

definition path_Ext :: "string \<Rightarrow> string" where
  "path_Ext s =
     (let e = takeWhile (\<lambda>c. c \<noteq> CHR ''/'') (rev s)
      in if CHR ''.'' \<in> set e then CHR ''.'' # rev (takeWhile (\<lambda>c. c \<noteq> CHR ''.'') e) else [])"

text \<open>\<open>path.Dir\<close> of a name inside a file system, as \<open>bundleHTML\<close> uses it: empty for the top.\<close>

definition theme_dir :: "string \<Rightarrow> string" where
  "theme_dir p =
     (case CutLast p (CHR ''/'') of (before, after, ok) \<Rightarrow> if ok then before else [])"

definition assetPath :: "string \<Rightarrow> string \<Rightarrow> string" where
  "assetPath dir ref = (if dir = [] then ref else dir @ ''/'' @ ref)"

text \<open>Standard base64 with padding.\<close>

definition b64_char :: "nat \<Rightarrow> char" where
  "b64_char n =
     (if n < 26 then char_of (65 + n) else if n < 52 then char_of (71 + n)
      else if n < 62 then char_of (n - 4) else if n = 62 then CHR ''+'' else CHR ''/'')"

fun base64 :: "string \<Rightarrow> string" where
  "base64 [] = []"
| "base64 [a] = (let x = of_char a * 16 in [b64_char (x div 64), b64_char (x mod 64), CHR ''='', CHR ''=''])"
| "base64 [a, b] =
     (let x = (of_char a * 256 + of_char b) * 4
      in [b64_char (x div 4096), b64_char (x div 64 mod 64), b64_char (x mod 64), CHR ''=''])"
| "base64 (a # b # c # s) =
     (let x = (of_char a * 256 + of_char b) * 256 + of_char c
      in [b64_char (x div 262144), b64_char (x div 4096 mod 64), b64_char (x div 64 mod 64), b64_char (x mod 64)]
         @ base64 s)"

definition link_tag :: "(string \<Rightarrow> fs_error + fnode) \<Rightarrow> string \<Rightarrow> string \<Rightarrow> string" where
  "link_tag opn dir tag =
     (if \<not> has_rel_stylesheet False tag then tag
      else case find_attr False ''href'' tag of
             None \<Rightarrow> tag
           | Some (m, ref) \<Rightarrow>
               if \<not> isRelativeRef ref then tag
               else case safeReadFile opn (assetPath dir ref) of
                      Inl err \<Rightarrow> tag
                    | Inr css \<Rightarrow> ''<style>'' @ css @ ''</style>'')"

definition script_tag :: "(string \<Rightarrow> fs_error + fnode) \<Rightarrow> string \<Rightarrow> string \<Rightarrow> string" where
  "script_tag opn dir tag =
     (case script_match tag of
        None \<Rightarrow> tag
      | Some (attrs, body, n) \<Rightarrow>
          if TrimSpace body \<noteq> [] then tag
          else case find_attr False ''src'' attrs of
                 None \<Rightarrow> tag
               | Some (m, ref) \<Rightarrow>
                   if \<not> isRelativeRef ref then tag
                   else case safeReadFile opn (assetPath dir ref) of
                          Inl err \<Rightarrow> tag
                        | Inr js \<Rightarrow> ''<script>'' @ js @ ''</script>'')"

definition img_tag :: "(string \<Rightarrow> string) \<Rightarrow> (string \<Rightarrow> fs_error + fnode) \<Rightarrow> string \<Rightarrow> string \<Rightarrow> string" where
  "img_tag mime opn dir tag =
     (case find_attr False ''src'' tag of
        None \<Rightarrow> tag
      | Some (m, ref) \<Rightarrow>
          if \<not> isRelativeRef ref then tag
          else case safeReadFile opn (assetPath dir ref) of
                 Inl err \<Rightarrow> tag
               | Inr imgData \<Rightarrow>
                   (let mimeType = (if mime (path_Ext ref) = [] then ''application/octet-stream'' else mime (path_Ext ref));
                        dataURI = ''data:'' @ mimeType @ '';base64,'' @ base64 imgData
                    in replace_first m (''src='' @ [CHR 0x22] @ dataURI @ [CHR 0x22]) tag))"

text \<open>The three passes over the page; \<open>mime\<close> is \<open>mime.TypeByExtension\<close>, which asks the system.\<close>

definition bundle_content :: "(string \<Rightarrow> string) \<Rightarrow> (string \<Rightarrow> fs_error + fnode) \<Rightarrow> string \<Rightarrow> string \<Rightarrow> string" where
  "bundle_content mime opn dir content =
     ReplaceAllFunc (tag_len ''<img'') (img_tag mime opn dir)
       (ReplaceAllFunc (\<lambda>s. map_option (snd \<circ> snd) (script_match s)) (script_tag opn dir)
         (ReplaceAllFunc (tag_len ''<link'') (link_tag opn dir) content))"

definition bundleHTML :: "(string \<Rightarrow> string) \<Rightarrow> (string \<Rightarrow> fs_error + fnode) \<Rightarrow> string \<Rightarrow> fs_error + string" where
  "bundleHTML mime opn htmlPath =
     (case ReadFile opn htmlPath of
        Inl err \<Rightarrow> Inl err
      | Inr raw \<Rightarrow> Inr (bundle_content mime opn (theme_dir htmlPath) raw))"

section \<open>Registering themes\<close>

definition isThemeFile :: "string \<Rightarrow> bool \<Rightarrow> bool" where
  "isThemeFile filePath isDir \<longleftrightarrow> \<not> isDir \<and> path_Ext filePath = ''.html''"

text \<open>
  The names that \<open>fs.WalkDir\<close> visits below a directory, with whether each is a directory. The
  directory is opened first, and symbolic links are not among its entries.
\<close>

definition path_sub :: "string \<Rightarrow> string \<Rightarrow> string" where
  "path_sub p n = (if p = ''.'' then n else p @ ''/'' @ n)"

lemma fnode_entry_size: "(n, e) \<in> set es \<Longrightarrow> size e < Suc (size_list (size_prod (\<lambda>_. 0) size) es)"
  by (induction es) auto

function walk_tree :: "string \<Rightarrow> fnode \<Rightarrow> (string \<times> bool) list" where
  "walk_tree p (Reg content) = [(p, False)]"
| "walk_tree p (Link target) = []"
| "walk_tree p (Dir es) = (p, True) # concat (map (\<lambda>(n, e). walk_tree (path_sub p n) e) (noSymlinkFS_ReadDir es))"
  by pat_completeness auto
termination
  by (relation "measure (\<lambda>(p, n). size n)") (auto simp: noSymlinkFS_ReadDir_def dest: fnode_entry_size)

definition noSymlinkFS_walk :: "fnode \<Rightarrow> string list \<Rightarrow> fs_error + (string \<times> bool) list" where
  "noSymlinkFS_walk machine dir =
     (case noSymlinkFS_Open machine dir ''.'' of Inl err \<Rightarrow> Inl err | Inr n \<Rightarrow> Inr (walk_tree ''.'' n))"

definition path_Base :: "string \<Rightarrow> string" where
  "path_Base p = (case CutLast p (CHR ''/'') of (before, after, ok) \<Rightarrow> if ok then after else before)"

text \<open>The embedded pages, by file name and content, are parsed without inlining.\<close>

fun ParseTemplatesFS :: "(string \<Rightarrow> goerror + 'tpl) \<Rightarrow> (string \<times> string) list \<Rightarrow> (string, 'tpl) gomap \<Rightarrow>
    fs_error + (string, 'tpl) gomap" where
  "ParseTemplatesFS parse [] themes = Inr themes"
| "ParseTemplatesFS parse ((filePath, content) # rest) themes =
     (if \<not> isThemeFile filePath False then ParseTemplatesFS parse rest themes
      else case parse content of
             Inl err \<Rightarrow> Inl (ErrTemplate err)
           | Inr tpl \<Rightarrow> ParseTemplatesFS parse rest (map_put (path_Base filePath) tpl themes))"

fun ParseAndBundleTemplatesFS :: "(string \<Rightarrow> goerror + 'tpl) \<Rightarrow> (string \<Rightarrow> string) \<Rightarrow> (string \<Rightarrow> fs_error + fnode) \<Rightarrow>
    (string \<times> bool) list \<Rightarrow> (string, 'tpl) gomap \<Rightarrow> fs_error + (string, 'tpl) gomap" where
  "ParseAndBundleTemplatesFS parse mime opn [] themes = Inr themes"
| "ParseAndBundleTemplatesFS parse mime opn ((filePath, isDir) # rest) themes =
     (if \<not> isThemeFile filePath isDir then ParseAndBundleTemplatesFS parse mime opn rest themes
      else case bundleHTML mime opn filePath of
             Inl err \<Rightarrow> Inl err
           | Inr content \<Rightarrow>
               (case parse content of
                  Inl err \<Rightarrow> Inl (ErrTemplate err)
                | Inr tpl \<Rightarrow> ParseAndBundleTemplatesFS parse mime opn rest (map_put filePath tpl themes)))"

definition theme_New :: "(string \<Rightarrow> goerror + 'tpl) \<Rightarrow> (string \<times> string) list \<Rightarrow> fs_error + (string, 'tpl) gomap" where
  "theme_New parse embedded = ParseTemplatesFS parse embedded []"

definition NewWithCustomThemesFromPath :: "(string \<Rightarrow> goerror + 'tpl) \<Rightarrow> (string \<Rightarrow> string) \<Rightarrow> (string \<times> string) list \<Rightarrow>
    fnode \<Rightarrow> string list \<Rightarrow> fs_error + (string, 'tpl) gomap" where
  "NewWithCustomThemesFromPath parse mime embedded machine absPath =
     (case os_Stat machine absPath of
        Inl err \<Rightarrow> Inl err
      | Inr _ \<Rightarrow>
          (case ParseTemplatesFS parse embedded [] of
             Inl err \<Rightarrow> Inl err
           | Inr themes \<Rightarrow>
               (case noSymlinkFS_walk machine absPath of
                  Inl err \<Rightarrow> Inl err
                | Inr files \<Rightarrow>
                    ParseAndBundleTemplatesFS parse mime (noSymlinkFS_Open machine absPath) files themes)))"

text \<open>\<open>absolute\<close> is \<open>filepath.Abs\<close>: the elements of the absolute path.\<close>

definition setupTheme :: "(string \<Rightarrow> goerror + 'tpl) \<Rightarrow> (string \<Rightarrow> string) \<Rightarrow> (string \<times> string) list \<Rightarrow> fnode \<Rightarrow>
    (string \<Rightarrow> string list) \<Rightarrow> Config \<Rightarrow> fs_error + (string, 'tpl) gomap" where
  "setupTheme parse mime embedded machine absolute conf =
     (let path = ds_CustomThemesPath (sg_Dynamic (cf_Strategy conf)) in
      if path = [] then theme_New parse embedded
      else case NewWithCustomThemesFromPath parse mime embedded machine (absolute path) of
             Inr t \<Rightarrow> Inr t
           | Inl err \<Rightarrow> theme_New parse embedded)"

end
