(* ===== verification/Metrics.thy ===== *)
theory Metrics
  imports Watchers
begin

text \<open>
  The metrics of \<open>pkg/metrics\<close>: the Prometheus recorder (\<open>prom.go\<close>), the collectors that read
  the groups and the sessions when they are scraped (\<open>collector.go\<close>), and the recorder that does
  nothing (\<open>recorder.go\<close>).

  A vector of counters is a map from the labels to the value; a vector of histograms keeps the
  observed values, from which Prometheus computes the buckets. Seconds are kept as nanoseconds,
  where the source converts to floating point. A call reads the clock at most twice: the two
  readings are arguments. The core only logs the calls it makes (\<open>s_metrics\<close>);
  \<open>replay\<close> gives what the recorder holds after them, with the times at which they happened.
\<close>

section \<open>The recorder\<close>

record PromRecorder =
  sessionRequests :: "(string \<times> string, nat) gomap"
  instanceStartFailures :: "(string, nat) gomap"
  instanceStops :: "(string \<times> string, nat) gomap"
  instanceStartDuration :: "(string, duration list) gomap"
  instanceReadyDuration :: "(string, duration list) gomap"
  instanceActiveDuration :: "(string, duration) gomap"
  activeInstances :: "(string, unit) gomap"
  activeSince :: "(string, time) gomap"
  readyWait :: "(string, time) gomap"

definition NewPromRecorder :: PromRecorder where
  "NewPromRecorder =
     \<lparr>sessionRequests = [], instanceStartFailures = [], instanceStops = [],
      instanceStartDuration = [], instanceReadyDuration = [], instanceActiveDuration = [],
      activeInstances = [], activeSince = [], readyWait = []\<rparr>"

text \<open>A series that was never touched reads as zero; adding to it creates it.\<close>

definition counter :: "('k, 'v::zero) gomap \<Rightarrow> 'k \<Rightarrow> 'v" where
  "counter m k = (case map_of m k of None \<Rightarrow> 0 | Some v \<Rightarrow> v)"

definition counter_Add :: "'k \<Rightarrow> 'v::{zero, plus} \<Rightarrow> ('k, 'v) gomap \<Rightarrow> ('k, 'v) gomap" where
  "counter_Add k v m = map_put k (counter m k + v) m"

definition Observe :: "'k \<Rightarrow> 'v \<Rightarrow> ('k, 'v list) gomap \<Rightarrow> ('k, 'v list) gomap" where
  "Observe k v m = map_put k (map_list m k @ [v]) m"

definition prom_SessionRequest :: "string \<Rightarrow> string \<Rightarrow> PromRecorder \<Rightarrow> PromRecorder" where
  "prom_SessionRequest strategy target r =
     r\<lparr>sessionRequests := counter_Add (strategy, target) 1 (sessionRequests r)\<rparr>"

definition prom_StartFailure :: "string \<Rightarrow> PromRecorder \<Rightarrow> PromRecorder" where
  "prom_StartFailure inst r = r\<lparr>instanceStartFailures := counter_Add inst 1 (instanceStartFailures r)\<rparr>"

definition prom_Stop :: "string \<Rightarrow> string \<Rightarrow> PromRecorder \<Rightarrow> PromRecorder" where
  "prom_Stop inst reason r = r\<lparr>instanceStops := counter_Add (inst, reason) 1 (instanceStops r)\<rparr>"

definition prom_StartEnd :: "string \<Rightarrow> duration \<Rightarrow> PromRecorder \<Rightarrow> PromRecorder" where
  "prom_StartEnd inst dur r = r\<lparr>instanceStartDuration := Observe inst dur (instanceStartDuration r)\<rparr>"

definition prom_ReadyWaitBegin :: "time \<Rightarrow> string \<Rightarrow> PromRecorder \<Rightarrow> PromRecorder" where
  "prom_ReadyWaitBegin now inst r =
     (case map_of (readyWait r) inst of
        Some t \<Rightarrow> r
      | None \<Rightarrow> r\<lparr>readyWait := map_put inst now (readyWait r)\<rparr>)"

definition prom_ReadyWaitEnd :: "time \<Rightarrow> time \<Rightarrow> string \<Rightarrow> PromRecorder \<Rightarrow> PromRecorder" where
  "prom_ReadyWaitEnd now now' inst r =
     (case map_of (readyWait r) inst of
        None \<Rightarrow> r
      | Some start \<Rightarrow>
          r\<lparr>readyWait := map_del inst (readyWait r),
            instanceReadyDuration := Observe inst (now - start) (instanceReadyDuration r),
            activeSince := map_put inst now' (activeSince r)\<rparr>)"

definition prom_DiscardReadyWait :: "string \<Rightarrow> PromRecorder \<Rightarrow> PromRecorder" where
  "prom_DiscardReadyWait inst r = r\<lparr>readyWait := map_del inst (readyWait r)\<rparr>"

definition ReadyWaitStartedAt :: "string \<Rightarrow> PromRecorder \<Rightarrow> time option" where
  "ReadyWaitStartedAt inst r = map_of (readyWait r) inst"

definition prom_ActiveInstance :: "string \<Rightarrow> PromRecorder \<Rightarrow> PromRecorder" where
  "prom_ActiveInstance inst r = r\<lparr>activeInstances := map_put inst () (activeInstances r)\<rparr>"

definition prom_InactiveInstance :: "time \<Rightarrow> string \<Rightarrow> PromRecorder \<Rightarrow> PromRecorder" where
  "prom_InactiveInstance now inst r =
     (let r1 = r\<lparr>activeInstances := map_del inst (activeInstances r)\<rparr>;
          (r2, activeDur) =
            (case map_of (activeSince r1) inst of
               Some since \<Rightarrow> (r1\<lparr>activeSince := map_del inst (activeSince r1)\<rparr>, now - since)
             | None \<Rightarrow> (r1, 0))
      in if activeDur > 0
         then r2\<lparr>instanceActiveDuration := counter_Add inst activeDur (instanceActiveDuration r2)\<rparr>
         else r2)"

definition SnapshotActiveInstances :: "PromRecorder \<Rightarrow> (string, unit) gomap" where
  "SnapshotActiveInstances r = fold (\<lambda>(k, v). map_put k ()) (activeInstances r) []"

text \<open>
  A call of the interface with the readings of the clock: the time of the call, the second
  reading, and the duration that the core measured around a start.
\<close>

record rec_call =
  rc_at :: time
  rc_at2 :: time
  rc_took :: duration
  rc_what :: metric

definition prom_record :: "rec_call \<Rightarrow> PromRecorder \<Rightarrow> PromRecorder" where
  "prom_record c =
     (case rc_what c of
        RecordReadyWaitBegin i \<Rightarrow> prom_ReadyWaitBegin (rc_at c) i
      | RecordReadyWaitEnd i \<Rightarrow> prom_ReadyWaitEnd (rc_at c) (rc_at2 c) i
      | DiscardReadyWait i \<Rightarrow> prom_DiscardReadyWait i
      | RecordActiveInstance i \<Rightarrow> prom_ActiveInstance i
      | RecordInactiveInstance i \<Rightarrow> prom_InactiveInstance (rc_at c) i
      | RecordInstanceStartEnd i \<Rightarrow> prom_StartEnd i (rc_took c)
      | RecordInstanceStartFailure i \<Rightarrow> prom_StartFailure i
      | RecordInstanceStop i reason \<Rightarrow> prom_Stop i reason)"

text \<open>The two implementations of the interface, and the choice between them.\<close>

datatype Recorder = Noop | Prom PromRecorder

definition buildRecorder :: "bool \<Rightarrow> Recorder" where
  "buildRecorder enabled = (if enabled then Prom NewPromRecorder else Noop)"

definition Record :: "rec_call \<Rightarrow> Recorder \<Rightarrow> Recorder" where
  "Record c rec = (case rec of Noop \<Rightarrow> Noop | Prom r \<Rightarrow> Prom (prom_record c r))"

definition Record_SessionRequest :: "string \<times> string \<Rightarrow> Recorder \<Rightarrow> Recorder" where
  "Record_SessionRequest st rec =
     (case rec of Noop \<Rightarrow> Noop | Prom r \<Rightarrow> Prom (prom_SessionRequest (fst st) (snd st) r))"

definition replay :: "rec_call list \<Rightarrow> PromRecorder \<Rightarrow> PromRecorder" where
  "replay cs r = fold prom_record cs r"

section \<open>The collectors\<close>

record gauge =
  g_Desc :: string
  g_Value :: int
  g_Labels :: "string list"

definition group_gauges :: "(string, unit) gomap \<Rightarrow> string \<times> string list \<Rightarrow> gauge list" where
  "group_gauges active gm =
     (case gm of (grp, members) \<Rightarrow>
        (let count = length (filter (\<lambda>m. map_of active m \<noteq> None) members)
         in [\<lparr>g_Desc = ''sablier_group_locked'', g_Value = (if count > 0 then 1 else 0), g_Labels = [grp]\<rparr>,
             \<lparr>g_Desc = ''sablier_group_active_instances'', g_Value = int count, g_Labels = [grp]\<rparr>]))"

definition GroupLockCollector_Collect :: "registry \<Rightarrow> PromRecorder \<Rightarrow> gauge list" where
  "GroupLockCollector_Collect groups r =
     (let active = SnapshotActiveInstances r in concat (map (group_gauges active) groups))"

text \<open>\<open>Time.Unix\<close> counts whole seconds, rounded down.\<close>

definition Unix :: "time \<Rightarrow> int" where
  "Unix t = t div Second"

definition SessionExpiryCollector_Collect :: "SessionEntry list \<Rightarrow> gauge list" where
  "SessionExpiryCollector_Collect entries =
     map (\<lambda>s. \<lparr>g_Desc = ''sablier_session_expires_at_timestamp_seconds'', g_Value = Unix (se_ExpiresAt s),
               g_Labels = [se_Instance s, se_Group s]\<rparr>) entries"

text \<open>A scrape of the two collectors that the server registers.\<close>

definition scrape :: "time \<Rightarrow> PromRecorder \<Rightarrow> ('st, 'w) sablier \<Rightarrow> gauge list" where
  "scrape now r s =
     GroupLockCollector_Collect (Groups s) r @ SessionExpiryCollector_Collect (SessionsSnapshot now s)"

section \<open>Reading the maps of the recorder\<close>

lemma counter_Add_read [gomap_simps]:
  "counter (counter_Add k v m) = (counter m)(k := counter m k + v)"
  by (rule ext) (simp add: counter_def counter_Add_def map_of_put)

lemma Observe_read [gomap_simps]:
  "map_list (Observe k v m) = (map_list m)(k := map_list m k @ [v])"
  by (simp add: Observe_def map_list_put)

lemma replay_Nil [simp]: "replay [] r = r"
  by (simp add: replay_def)

lemma replay_Cons [simp]: "replay (c # cs) r = replay cs (prom_record c r)"
  by (simp add: replay_def)

lemma replay_calls_append: "replay (cs @ ds) r = replay ds (replay cs r)"
  by (simp add: replay_def)

lemmas recorder_defs =
  prom_record_def prom_ReadyWaitBegin_def prom_ReadyWaitEnd_def prom_DiscardReadyWait_def
  prom_ActiveInstance_def prom_InactiveInstance_def prom_StartEnd_def prom_StartFailure_def prom_Stop_def

lemma counter_Nil [simp]: "counter [] k = 0"
  by (simp add: counter_def)

lemma replay_stops:
  "counter (instanceStops (replay cs r)) (n, reason) =
     counter (instanceStops r) (n, reason) + length (filter (\<lambda>c. rc_what c = RecordInstanceStop n reason) cs)"
  by (induction cs arbitrary: r)
    (auto simp: recorder_defs gomap_simps Let_def split: metric.splits option.splits if_splits)

lemma replay_failures:
  "counter (instanceStartFailures (replay cs r)) n =
     counter (instanceStartFailures r) n + length (filter (\<lambda>c. rc_what c = RecordInstanceStartFailure n) cs)"
  by (induction cs arbitrary: r)
    (auto simp: recorder_defs gomap_simps Let_def split: metric.splits option.splits if_splits)

lemma replay_starts:
  "map_list (instanceStartDuration (replay cs r)) n =
     map_list (instanceStartDuration r) n @
       map rc_took (filter (\<lambda>c. rc_what c = RecordInstanceStartEnd n) cs)"
  by (induction cs arbitrary: r)
    (auto simp: recorder_defs gomap_simps Let_def split: metric.splits option.splits if_splits)

text \<open>A pending wait is untouched until it ends or is discarded; so is the time of readiness.\<close>

lemma replay_waits:
  assumes "map_of (readyWait r) n = Some t"
    and "\<forall>c\<in>set cs. rc_what c \<notin> {RecordReadyWaitEnd n, DiscardReadyWait n}"
  shows "map_of (readyWait (replay cs r)) n = Some t \<and>
    map_list (instanceReadyDuration (replay cs r)) n = map_list (instanceReadyDuration r) n"
  using assms
  by (induction cs arbitrary: r)
    (simp_all add: recorder_defs gomap_simps Let_def split: metric.splits option.splits)

lemma replay_ready:
  assumes "map_of (activeSince r) n = Some t"
    and "\<forall>c\<in>set cs. rc_what c \<notin> {RecordReadyWaitEnd n, RecordInactiveInstance n}"
  shows "map_of (activeSince (replay cs r)) n = Some t \<and>
    counter (instanceActiveDuration (replay cs r)) n = counter (instanceActiveDuration r) n \<and>
    map_list (instanceReadyDuration (replay cs r)) n = map_list (instanceReadyDuration r) n"
  using assms
  by (induction cs arbitrary: r)
    (simp_all add: recorder_defs gomap_simps Let_def split: metric.splits option.splits)

text \<open>An instance is shown as active from a call of \<open>RecordActiveInstance\<close> on, up to the next
  call of \<open>RecordInactiveInstance\<close>.\<close>

definition shown_active :: "rec_call list \<Rightarrow> string \<Rightarrow> bool" where
  "shown_active cs n \<longleftrightarrow>
     (\<exists>pre c post. cs = pre @ c # post \<and> rc_what c = RecordActiveInstance n \<and>
        (\<forall>d\<in>set post. rc_what d \<noteq> RecordInactiveInstance n))"

lemma shown_active_Nil [simp]: "\<not> shown_active [] n"
  by (simp add: shown_active_def)

lemma shown_active_Cons [simp]:
  "shown_active (c # cs) n \<longleftrightarrow>
     shown_active cs n \<or> rc_what c = RecordActiveInstance n \<and> (\<forall>d\<in>set cs. rc_what d \<noteq> RecordInactiveInstance n)"
  unfolding shown_active_def Cons_eq_append_conv by blast

lemma shown_active_append:
  "shown_active (cs @ ds) n \<longleftrightarrow>
     shown_active ds n \<or> shown_active cs n \<and> (\<forall>d\<in>set ds. rc_what d \<noteq> RecordInactiveInstance n)"
  by (induction cs) auto

lemma replay_active:
  "map_of (activeInstances (replay cs NewPromRecorder)) n = (if shown_active cs n then Some () else None)"
proof (induction cs rule: rev_induct)
  case Nil
  then show ?case by (simp add: NewPromRecorder_def)
next
  case (snoc c cs)
  then show ?case
    by (auto simp: replay_calls_append shown_active_append recorder_defs gomap_simps Let_def
        split: metric.splits option.splits if_splits)
qed

lemma fold_put_unit: "map_of (fold (\<lambda>(k, v). map_put k ()) m a) k = (if map_of m k \<noteq> None then Some () else map_of a k)"
  by (induction m arbitrary: a) (auto simp: map_of_put)

lemma SnapshotActive: "map_of (SnapshotActiveInstances r) n = (if map_of (activeInstances r) n \<noteq> None then Some () else None)"
  unfolding SnapshotActiveInstances_def fold_put_unit by simp

section \<open>What the metrics show\<close>

text \<open>
  C35: in any interleaving with calls for other instances, the recorder measures a start from the
  first not-ready observation to readiness (repeated observations do not restart the clock) and
  adds the time from readiness to expiration to the active time of the instance; the counters
  count the calls, and each successful start is observed once with its duration.
\<close>

theorem metrics_measured:
  assumes "rc_what b = RecordReadyWaitBegin n" and "rc_what e = RecordReadyWaitEnd n"
    and "rc_what i = RecordInactiveInstance n" and "rc_at2 e < rc_at i"
    and "ReadyWaitStartedAt n r = None"
    and "\<forall>c\<in>set starting. rc_what c \<notin> {RecordReadyWaitEnd n, DiscardReadyWait n}"
    and "\<forall>c\<in>set ready. rc_what c \<notin> {RecordReadyWaitEnd n, RecordInactiveInstance n}"
  defines "started \<equiv> replay (b # starting) r"
    and "cs \<equiv> b # starting @ e # ready @ [i]"
  shows "map_list (instanceReadyDuration (replay cs r)) n =
      map_list (instanceReadyDuration r) n @ [rc_at e - rc_at b] \<and>
    counter (instanceActiveDuration (replay cs r)) n =
      counter (instanceActiveDuration started) n + (rc_at i - rc_at2 e) \<and>
    map_of (SnapshotActiveInstances (replay cs r)) n = None \<and>
    counter (instanceStops (replay cs r)) (n, reason) =
      counter (instanceStops r) (n, reason) + length (filter (\<lambda>c. rc_what c = RecordInstanceStop n reason) cs) \<and>
    counter (instanceStartFailures (replay cs r)) n =
      counter (instanceStartFailures r) n + length (filter (\<lambda>c. rc_what c = RecordInstanceStartFailure n) cs) \<and>
    map_list (instanceStartDuration (replay cs r)) n =
      map_list (instanceStartDuration r) n @ map rc_took (filter (\<lambda>c. rc_what c = RecordInstanceStartEnd n) cs)"
proof (intro conjI replay_stops replay_failures replay_starts)
  let ?r1 = "prom_record b r" and ?r3 = "prom_record e started"
  have "map_of (readyWait ?r1) n = Some (rc_at b)" "instanceReadyDuration ?r1 = instanceReadyDuration r"
    using assms(1,5) by (auto simp: recorder_defs gomap_simps ReadyWaitStartedAt_def)
  with replay_waits [OF this(1) assms(6)]
  have w: "map_of (readyWait started) n = Some (rc_at b)"
    "map_list (instanceReadyDuration started) n = map_list (instanceReadyDuration r) n"
    by (simp_all add: started_def)
  then have "map_of (activeSince ?r3) n = Some (rc_at2 e)"
    and r3: "map_list (instanceReadyDuration ?r3) n = map_list (instanceReadyDuration r) n @ [rc_at e - rc_at b]"
      "instanceActiveDuration ?r3 = instanceActiveDuration started"
    using assms(2) by (auto simp: recorder_defs gomap_simps)
  note y = replay_ready [OF this(1) assms(7)]
  have cs: "replay cs r = prom_record i (replay ready ?r3)"
    by (simp add: cs_def started_def replay_calls_append)
  show "map_list (instanceReadyDuration (replay cs r)) n =
      map_list (instanceReadyDuration r) n @ [rc_at e - rc_at b]"
    using y r3 assms(3) by (auto simp: cs recorder_defs Let_def split: option.splits)
  show "counter (instanceActiveDuration (replay cs r)) n =
      counter (instanceActiveDuration started) n + (rc_at i - rc_at2 e)"
    using y r3 assms(3,4) by (auto simp: cs recorder_defs gomap_simps Let_def)
  show "map_of (SnapshotActiveInstances (replay cs r)) n = None"
    using assms(3) by (auto simp: cs SnapshotActive recorder_defs gomap_simps Let_def split: option.splits)
qed

definition stamped :: "time \<Rightarrow> metric \<Rightarrow> rec_call" where
  "stamped t m = \<lparr>rc_at = t, rc_at2 = t, rc_took = 0, rc_what = m\<rparr>"

theorem metrics_measured_witness:
  "map_list (instanceReadyDuration (replay
     [stamped 10 (RecordReadyWaitBegin ''a''), stamped 12 (RecordReadyWaitBegin ''a''),
      stamped 17 (RecordReadyWaitEnd ''a''), stamped 20 (RecordInstanceStop ''a'' ''expired''),
      stamped 47 (RecordInactiveInstance ''a'')] NewPromRecorder)) ''a'' = [7] \<and>
   counter (instanceActiveDuration (replay
     [stamped 10 (RecordReadyWaitBegin ''a''), stamped 12 (RecordReadyWaitBegin ''a''),
      stamped 17 (RecordReadyWaitEnd ''a''), stamped 20 (RecordInstanceStop ''a'' ''expired''),
      stamped 47 (RecordInactiveInstance ''a'')] NewPromRecorder)) ''a'' = 30"
proof -
  have "counter (instanceActiveDuration (replay [stamped 10 (RecordReadyWaitBegin ''a''),
      stamped 12 (RecordReadyWaitBegin ''a'')] NewPromRecorder)) ''a'' = 0"
    by (simp add: stamped_def NewPromRecorder_def recorder_defs)
  then show ?thesis
    using metrics_measured [of "stamped 10 (RecordReadyWaitBegin ''a'')" "''a''"
        "stamped 17 (RecordReadyWaitEnd ''a'')" "stamped 47 (RecordInactiveInstance ''a'')" NewPromRecorder
        "[stamped 12 (RecordReadyWaitBegin ''a'')]" "[stamped 20 (RecordInstanceStop ''a'' ''expired'')]" "''expired''"]
    by (simp add: stamped_def ReadyWaitStartedAt_def NewPromRecorder_def)
qed

text \<open>The three gauges of a scrape.\<close>

lemma Groups_mem:
  "wf_map (s_groups s) \<Longrightarrow> (g, ms) \<in> set (Groups s) \<longleftrightarrow> map_of (s_groups s) g = Some ms"
  using Snapshot_map_of [of "s_groups s"] by (simp add: Groups_def wf_map_mem)

lemma active_shown:
  "map_of (SnapshotActiveInstances (replay cs NewPromRecorder)) m \<noteq> None \<longleftrightarrow> shown_active cs m"
  by (simp add: SnapshotActive replay_active)

lemmas scrape_defs = scrape_def GroupLockCollector_Collect_def group_gauges_def Let_def
  SessionExpiryCollector_Collect_def

lemma scrape_locked:
  assumes "wf_map (s_groups s)"
  shows "\<lparr>g_Desc = ''sablier_group_locked'', g_Value = v, g_Labels = [g]\<rparr> \<in>
      set (scrape now (replay cs NewPromRecorder) s) \<longleftrightarrow>
    (\<exists>ms. map_of (s_groups s) g = Some ms \<and> v = (if \<exists>m\<in>set ms. shown_active cs m then 1 else 0))"
  unfolding scrape_defs active_shown by (auto simp: Groups_mem [OF assms, symmetric] filter_empty_conv)

lemma scrape_count:
  assumes "wf_map (s_groups s)"
  shows "\<lparr>g_Desc = ''sablier_group_active_instances'', g_Value = v, g_Labels = [g]\<rparr> \<in>
      set (scrape now (replay cs NewPromRecorder) s) \<longleftrightarrow>
    (\<exists>ms. map_of (s_groups s) g = Some ms \<and> v = int (length (filter (shown_active cs) ms)))"
  unfolding scrape_defs active_shown by (auto simp: Groups_mem [OF assms, symmetric])

lemma scrape_expiry:
  assumes "s_store s = inmemory_ops" and "kv_inv (s_sessions s)"
  shows "\<lparr>g_Desc = ''sablier_session_expires_at_timestamp_seconds'', g_Value = v, g_Labels = [n, g]\<rparr> \<in>
      set (scrape now r s) \<longleftrightarrow>
    (\<exists>k i t. inmemory_view now (s_sessions s) k = Some (i, t) \<and> n = i_Name i \<and>
       g = (case i_Groups i of [] \<Rightarrow> [] | h # _ \<Rightarrow> h) \<and> v * Second \<le> t \<and> t < (v + 1) * Second)"
proof -
  obtain entries where rg: "st_Range inmemory_ops now (s_sessions s) = (entries, None)"
    using mem.range_result [OF assms(2), of now] by (metis prod.collapse)
  have first: "(if i_Groups i \<noteq> [] then i_Groups i ! 0 else []) = (case i_Groups i of [] \<Rightarrow> [] | h # _ \<Rightarrow> h)" for i
    by (cases "i_Groups i") auto
  have snap: "SessionsSnapshot now s = map (\<lambda>(i, t). \<lparr>se_Instance = i_Name i,
      se_Group = (case i_Groups i of [] \<Rightarrow> [] | h # _ \<Rightarrow> h), se_ExpiresAt = t\<rparr>) entries"
    using rg assms(1) by (simp add: SessionsSnapshot_def first del: nth_Cons_0)
  have mem: "(i, t) \<in> set entries \<longleftrightarrow> (\<exists>k. inmemory_view now (s_sessions s) k = Some (i, t))" for i t
    using mem.range_view [OF assms(2), of i t now] rg by simp
  have secs: "v = Unix t \<longleftrightarrow> v * Second \<le> t \<and> t < (v + 1) * Second" for t
    unfolding Unix_def by (auto simp: algebra_simps)
  have "?thesis \<longleftrightarrow> ((\<exists>i t. (i, t) \<in> set entries \<and> n = i_Name i \<and>
      g = (case i_Groups i of [] \<Rightarrow> [] | h # _ \<Rightarrow> h) \<and> v = Unix t) \<longleftrightarrow>
    (\<exists>k i t. inmemory_view now (s_sessions s) k = Some (i, t) \<and> n = i_Name i \<and>
      g = (case i_Groups i of [] \<Rightarrow> [] | h # _ \<Rightarrow> h) \<and> v * Second \<le> t \<and> t < (v + 1) * Second))"
    unfolding scrape_defs snap by (auto simp: image_iff Bex_def)
  then show ?thesis unfolding mem secs by blast
qed

text \<open>
  What a scrape shows. For each configured group there is one value of
  \<open>sablier_group_locked\<close>, 1 exactly when some member is between \<open>RecordActiveInstance\<close> and
  \<open>RecordInactiveInstance\<close>, and one value of \<open>sablier_group_active_instances\<close>, the number of
  such members; other groups have none. The expiry gauges are exactly those of the live sessions,
  each with its deadline in whole seconds rounded down and its first group.
\<close>

theorem metrics_scraped:
  assumes "wf_map (s_groups s)" and "s_store s = inmemory_ops" and "kv_inv (s_sessions s)"
    and "gauges = set (scrape now (replay cs NewPromRecorder) s)"
  shows "(\<lparr>g_Desc = ''sablier_group_locked'', g_Value = v, g_Labels = [g]\<rparr> \<in> gauges \<longleftrightarrow>
      (\<exists>ms. map_of (s_groups s) g = Some ms \<and> v = (if \<exists>m\<in>set ms. shown_active cs m then 1 else 0))) \<and>
    (\<lparr>g_Desc = ''sablier_group_active_instances'', g_Value = v, g_Labels = [g]\<rparr> \<in> gauges \<longleftrightarrow>
      (\<exists>ms. map_of (s_groups s) g = Some ms \<and> v = int (length (filter (shown_active cs) ms)))) \<and>
    (\<lparr>g_Desc = ''sablier_session_expires_at_timestamp_seconds'', g_Value = v, g_Labels = [n, g]\<rparr> \<in> gauges \<longleftrightarrow>
      (\<exists>k i t. inmemory_view now (s_sessions s) k = Some (i, t) \<and> n = i_Name i \<and>
         g = (case i_Groups i of [] \<Rightarrow> [] | h # _ \<Rightarrow> h) \<and> v * Second \<le> t \<and> t < (v + 1) * Second))"
  unfolding assms(4) using assms by (intro conjI scrape_locked scrape_count scrape_expiry)

theorem metrics_scraped_witness:
  "\<lparr>g_Desc = ''sablier_group_locked'', g_Value = 1, g_Labels = [''g'']\<rparr> \<in>
     set (scrape 0 (replay [stamped 3 (RecordActiveInstance ''a'')] NewPromRecorder)
       ((sablier_New inmemory_ops NewInMemory (undefined :: unit provider_ops) ())
          \<lparr>s_groups := [(''g'', [''a'', ''b''])]\<rparr>))"
proof -
  have "shown_active [stamped 3 (RecordActiveInstance ''a'')] ''a''"
    by (simp add: stamped_def)
  then show ?thesis
    using metrics_scraped [of "(sablier_New inmemory_ops NewInMemory (undefined :: unit provider_ops) ())
        \<lparr>s_groups := [(''g'', [''a'', ''b''])]\<rparr>" _ 0 "[stamped 3 (RecordActiveInstance ''a'')]" 1 "''g''"]
    by (simp add: sablier_New_def wf_map_def NewInMemory_inv)
qed

section \<open>The calls of the core\<close>

text \<open>
  A start makes the instance active and an expiration makes it inactive again, without a pending
  wait. A stop for anti-affinity does neither: the instance has no session any more, but stays in
  the active set, and a wait that was pending keeps its old start.
\<close>

lemma start_shown_active:
  assumes "map rc_what ds = drop (length (s_metrics s)) (s_metrics (snd (register_new n info s)))"
  shows "shown_active (cs @ ds) n"
  using assms
  by (auto simp: register_new_def Let_def go_def record_metric_def map_eq_Cons_conv shown_active_append)

lemma expiry_shown_inactive:
  assumes "map rc_what ds = drop (length (s_metrics s)) (s_metrics (onInstanceExpired False n s))"
  shows "\<not> shown_active (cs @ ds) n \<and> ReadyWaitStartedAt n (replay (cs @ ds) r) = None"
proof -
  from assms obtain a b c where "ds = [a, b, c]" "rc_what a = RecordInstanceStop n ''expired''"
    "rc_what b = RecordInactiveInstance n" "rc_what c = DiscardReadyWait n"
    by (auto simp: onInstanceExpired_def call_Stop_def record_metric_def Let_def map_eq_Cons_conv split: prod.splits)
  then show ?thesis
    by (auto simp: shown_active_append replay_calls_append ReadyWaitStartedAt_def
        recorder_defs gomap_simps Let_def split: option.splits)
qed

text \<open>A suppressed instance has no session and is still shown as active.\<close>

theorem suppressed_shown_active:
  assumes "s_store s = inmemory_ops" and "kv_inv (s_sessions s)"
    and "inmemory_view now (s_sessions s) n \<noteq> None"
    and "fst (p_Stop (s_provider s) n (s_world s)) = None"
    and "shown_active cs n"
    and "map rc_what ds = drop (length (s_metrics s)) (s_metrics (suppressForAntiAffinity now n s))"
  shows "inmemory_view now (s_sessions (suppressForAntiAffinity now n s)) n = None \<and>
    shown_active (cs @ ds) n \<and>
    ReadyWaitStartedAt n (replay (cs @ ds) r) = ReadyWaitStartedAt n (replay cs r)"
proof -
  obtain x s1 where g: "sess_Get now n s = (Inr x, s1)" "s_store s1 = inmemory_ops" "kv_inv (s_sessions s1)"
    "s_provider s1 = s_provider s" "s_world s1 = s_world s" "s_metrics s1 = s_metrics s"
    using assms(1-3) mem.get_result [OF assms(2), of now n] mem.get_keeps [OF assms(2), of now n]
    by (cases "st_Get inmemory_ops now n (s_sessions s)") (auto simp: sess_Get_def)
  obtain w where "p_Stop (s_provider s) n (s_world s) = (None, w)"
    using assms(4) by (cases "p_Stop (s_provider s) n (s_world s)") auto
  with g mem.delete_view [OF g(3), of now now n]
  have "inmemory_view now (s_sessions (suppressForAntiAffinity now n s)) n = None"
    and "s_metrics (suppressForAntiAffinity now n s) = s_metrics s @ [RecordInstanceStop n ''anti-affinity'']"
    by (auto simp: suppressForAntiAffinity_def call_Stop_def sess_Delete_def record_metric_def Let_def
        split: prod.splits)
  moreover from this(2) assms(6) obtain d where "ds = [d]" "rc_what d = RecordInstanceStop n ''anti-affinity''"
    by (auto simp: map_eq_Cons_conv)
  ultimately show ?thesis using assms(5)
    by (auto simp: shown_active_append replay_calls_append ReadyWaitStartedAt_def recorder_defs)
qed

end
