(* ===== verification/Webhook.thy ===== *)
theory Webhook
  imports Session Configuration
begin

text \<open>
  Webhook notifications (\<open>pkg/webhook/dispatcher.go\<close>): which deliveries the dispatcher starts for the
  events of its stream, the request each of them sends and how its outcome is reported. What the
  endpoint answers is the input of \<open>send\<close>; the deliveries of an event run concurrently in the code
  and share nothing, so that a list of them is enough.
\<close>

section \<open>Endpoints and payloads\<close>

record InstancePayload =
  ip_Name :: string

record Payload =
  pl_Event :: string
  pl_Instance :: InstancePayload
  pl_Timestamp :: time

text \<open>\<open>string(event.Type)\<close>\<close>

definition event_type_text :: "InstanceEventType \<Rightarrow> string" where
  "event_type_text t =
     (case t of
        InstanceEventStopped \<Rightarrow> ''stopped'' | InstanceEventStarted \<Rightarrow> ''started'' | InstanceEventCreated \<Rightarrow> ''created''
      | InstanceEventUpdated \<Rightarrow> ''updated'' | InstanceEventRemoved \<Rightarrow> ''removed'')"

section \<open>Dispatching\<close>

definition shouldFire :: "WebhookEndpoint \<Rightarrow> string \<Rightarrow> bool" where
  "shouldFire ep eventType = (if we_Events ep = [] then True else eventType \<in> set (we_Events ep))"

definition dispatch :: "WebhookEndpoint list \<Rightarrow> time \<Rightarrow> InstanceEvent \<Rightarrow> (WebhookEndpoint \<times> Payload) list" where
  "dispatch endpoints now event =
     (let payload = \<lparr>pl_Event = event_type_text (ev_Type event), pl_Instance = \<lparr>ip_Name = i_Name (ev_Info event)\<rparr>,
                     pl_Timestamp = now\<rparr>
      in map (\<lambda>ep. (ep, payload)) (filter (\<lambda>ep. shouldFire ep (event_type_text (ev_Type event))) endpoints))"

datatype webhook_arrival = HookEvent time InstanceEvent | HookClosed | HookError goerror | HookErrClosed | HookDone

fun Watch :: "WebhookEndpoint list \<Rightarrow> webhook_arrival list \<Rightarrow> (WebhookEndpoint \<times> Payload) list" where
  "Watch endpoints [] = []"
| "Watch endpoints (HookEvent now event # rest) =
     (if ev_Type event \<noteq> InstanceEventStarted \<and> ev_Type event \<noteq> InstanceEventStopped then Watch endpoints rest
      else dispatch endpoints now event @ Watch endpoints rest)"
| "Watch endpoints (HookClosed # rest) = []"
| "Watch endpoints (HookError err # rest) = []"
| "Watch endpoints (HookErrClosed # rest) = []"
| "Watch endpoints (HookDone # rest) = []"

section \<open>Sending\<close>

text \<open>
  \<open>Header.Set\<close> of \<open>net/http\<close> stores a value under the canonical form of its key: a valid token gets
  upper case at its start and after each hyphen and lower case elsewhere, any other key is kept.
\<close>

definition token_char :: "char \<Rightarrow> bool" where
  "token_char c =
     (let n = of_char c :: nat in
      48 \<le> n \<and> n \<le> 57 \<or> 65 \<le> n \<and> n \<le> 90 \<or> 97 \<le> n \<and> n \<le> 122 \<or> c \<in> set ''!#$%&*+-.^_|~`'' \<or> n = 39)"

definition upper_char :: "char \<Rightarrow> char" where
  "upper_char c = (let n = of_char c :: nat in if 97 \<le> n \<and> n \<le> 122 then char_of (n - 32) else c)"

fun canonical_chars :: "bool \<Rightarrow> string \<Rightarrow> string" where
  "canonical_chars up [] = []"
| "canonical_chars up (c # cs) = (if up then upper_char c else lower_char c) # canonical_chars (c = CHR ''-'') cs"

definition CanonicalHeaderKey :: "string \<Rightarrow> string" where
  "CanonicalHeaderKey k = (if k \<noteq> [] \<and> list_all token_char k then canonical_chars True k else k)"

definition Header_Set :: "string \<Rightarrow> string \<Rightarrow> (string, string) gomap \<Rightarrow> (string, string) gomap" where
  "Header_Set k v h = map_put (CanonicalHeaderKey k) v h"

record hook_request =
  hr_URL :: string
  hr_Header :: "(string, string) gomap"
  hr_Body :: Payload

definition hook_headers :: "string \<Rightarrow> WebhookEndpoint \<Rightarrow> (string, string) gomap" where
  "hook_headers userAgent ep =
     fold (\<lambda>(k, v) h. Header_Set k v h) (we_Headers ep)
       (Header_Set ''User-Agent'' userAgent (Header_Set ''Content-Type'' ''application/json'' []))"

definition hook_request_of :: "string \<Rightarrow> WebhookEndpoint \<Rightarrow> Payload \<Rightarrow> hook_request" where
  "hook_request_of userAgent ep payload = \<lparr>hr_URL = we_URL ep, hr_Header = hook_headers userAgent ep, hr_Body = payload\<rparr>"

text \<open>
  What is logged of a delivery. \<open>valid_url\<close> tells whether \<open>http.NewRequestWithContext\<close> accepts the
  address, and \<open>Do\<close> is the answer of the client: an error or a status code.
\<close>

datatype delivery = BuildFailed | DeliveryFailed goerror | ErrorStatus int | Delivered int

definition send :: "(string \<Rightarrow> bool) \<Rightarrow> (hook_request \<Rightarrow> goerror + int) \<Rightarrow> string \<Rightarrow> WebhookEndpoint \<Rightarrow> Payload \<Rightarrow> delivery" where
  "send valid_url Do userAgent ep payload =
     (if \<not> valid_url (we_URL ep) then BuildFailed
      else case Do (hook_request_of userAgent ep payload) of
             Inl err \<Rightarrow> DeliveryFailed err
           | Inr code \<Rightarrow> if 400 \<le> code then ErrorStatus code else Delivered code)"

section \<open>Validation\<close>

fun validate_from :: "nat \<Rightarrow> WebhookEndpoint list \<Rightarrow> goerror option" where
  "validate_from i [] = None"
| "validate_from i (ep # eps) =
     (if we_URL ep = [] then Some (ErrText (''webhooks.endpoints['' @ nat_text i @ '']: url is required''))
      else validate_from (Suc i) eps)"

definition validateEndpoints :: "WebhookEndpoint list \<Rightarrow> goerror option" where
  "validateEndpoints endpoints = validate_from 0 endpoints"

section \<open>Facts\<close>

lemma event_type_text_inject [simp]: "event_type_text t = event_type_text u \<longleftrightarrow> t = u"
  by (cases t; cases u) (simp_all add: event_type_text_def)

lemma Watch_append:
  "Watch eps (map (\<lambda>(now, ev). HookEvent now ev) evs @ rest) =
     concat (map (\<lambda>(now, ev). if ev_Type ev \<in> {InstanceEventStarted, InstanceEventStopped} then dispatch eps now ev else []) evs)
     @ Watch eps rest"
  by (induction evs) auto

lemma Header_Set_fold_other:
  "\<forall>k\<in>fst ` set hs. CanonicalHeaderKey k \<noteq> key \<Longrightarrow>
   map_of (fold (\<lambda>(k, v) h. Header_Set k v h) hs h0) key = map_of h0 key"
  by (induction hs arbitrary: h0) (auto simp: Header_Set_def gomap_simps)

lemma Header_Set_fold_key:
  assumes "wf_map hs" "(k, v) \<in> set hs"
    and "\<forall>k'\<in>fst ` set hs. CanonicalHeaderKey k' = CanonicalHeaderKey k \<longrightarrow> k' = k"
  shows "map_of (fold (\<lambda>(k, v) h. Header_Set k v h) hs h0) (CanonicalHeaderKey k) = Some v"
proof -
  obtain hs1 hs2 where hs: "hs = hs1 @ (k, v) # hs2" using assms(2) by (meson split_list)
  with assms(1) have "k \<notin> fst ` set hs2" by (auto simp: wf_map_def)
  with assms(3) hs have "\<forall>k'\<in>fst ` set hs2. CanonicalHeaderKey k' \<noteq> CanonicalHeaderKey k" by force
  with hs show ?thesis by (simp add: Header_Set_fold_other) (simp add: Header_Set_def gomap_simps)
qed

lemma default_headers:
  "map_of (Header_Set ''User-Agent'' ua (Header_Set ''Content-Type'' ''application/json'' [])) =
     [''Content-Type'' \<mapsto> ''application/json'', ''User-Agent'' \<mapsto> ua]"
proof -
  have "CanonicalHeaderKey ''User-Agent'' = ''User-Agent''" "CanonicalHeaderKey ''Content-Type'' = ''Content-Type''"
    by code_simp+
  then show ?thesis by (auto simp: Header_Set_def fun_eq_iff)
qed

lemma hook_headers_default:
  "\<forall>k\<in>fst ` set (we_Headers ep). CanonicalHeaderKey k \<noteq> key \<Longrightarrow>
   map_of (hook_headers ua ep) key =
     (if key = ''User-Agent'' then Some ua else if key = ''Content-Type'' then Some ''application/json'' else None)"
  by (simp add: hook_headers_def Header_Set_fold_other default_headers)

lemma hook_headers_configured:
  "wf_map (we_Headers ep) \<Longrightarrow> (k, v) \<in> set (we_Headers ep) \<Longrightarrow>
   \<forall>k'\<in>fst ` set (we_Headers ep). CanonicalHeaderKey k' = CanonicalHeaderKey k \<longrightarrow> k' = k \<Longrightarrow>
   map_of (hook_headers ua ep) (CanonicalHeaderKey k) = Some v"
  unfolding hook_headers_def by (rule Header_Set_fold_key)

lemma validate_from_None: "validate_from i eps = None \<longleftrightarrow> (\<forall>ep\<in>set eps. we_URL ep \<noteq> [])"
  by (induction eps arbitrary: i) auto


definition demo_payload :: Payload where
  "demo_payload = \<lparr>pl_Event = ''stopped'', pl_Instance = \<lparr>ip_Name = ''web''\<rparr>, pl_Timestamp = 6\<rparr>"


end
