(* ===== verification/Tracing_Setup.thy ===== *)
theory Tracing_Setup
  imports Configuration Session
begin

text \<open>
  Logging and tracing (\<open>pkg/tracing\<close> and \<open>pkg/sabliercmd/logger.go\<close>): the log level, the handler that
  adds the identifiers of the active span to a log record, the bridge for the log of gRPC, and the
  setup of the tracer with its exporter and sampler. The constructors of OpenTelemetry are
  parameters, as is \<open>url.Parse\<close>, of whose result the scheme and the host are used.
\<close>

section \<open>Logging\<close>

datatype level = LevelDebug | LevelInfo | LevelWarn | LevelError

definition parseLogLevel :: "string \<Rightarrow> level" where
  "parseLogLevel text =
     (let u = ToUpper text in
      if u = ''DEBUG'' then LevelDebug else if u = ''INFO'' then LevelInfo
      else if u = ''WARN'' then LevelWarn else if u = ''ERROR'' then LevelError else LevelInfo)"

definition noColor :: "(string \<rightharpoonup> string) \<Rightarrow> bool" where
  "noColor env \<longleftrightarrow> (case env ''NO_COLOR'' of None \<Rightarrow> False | Some v \<Rightarrow> v \<noteq> [])"

record log_record =
  lr_Level :: level
  lr_Message :: string
  lr_Attrs :: "(string \<times> string) list"

text \<open>A handler tells which levels it wants and returns an error for a record.\<close>

record 'h handler =
  hd_Enabled :: "level \<Rightarrow> bool"
  hd_Handle :: "log_record \<Rightarrow> 'h \<Rightarrow> goerror option \<times> 'h"

text \<open>The span of the context, if it is valid: its trace and span identifiers.\<close>

definition OTelHandler_Handle :: "'h handler \<Rightarrow> (string \<times> string) option \<Rightarrow> log_record \<Rightarrow> 'h \<Rightarrow> goerror option \<times> 'h" where
  "OTelHandler_Handle inner span r =
     (case span of
        Some (trace_id, span_id) \<Rightarrow>
          hd_Handle inner (r\<lparr>lr_Attrs := lr_Attrs r @ [(''trace_id'', trace_id), (''span_id'', span_id)]\<rparr>)
      | None \<Rightarrow> hd_Handle inner r)"

definition OTelHandler_Enabled :: "'h handler \<Rightarrow> level \<Rightarrow> bool" where
  "OTelHandler_Enabled inner l = hd_Enabled inner l"

text \<open>The calls of the gRPC library; the text is already formatted.\<close>

datatype grpc_call = Grpc_Info string | Grpc_Warning string | Grpc_Error string | Grpc_Fatal string

definition grpcSlogBridge :: "grpc_call \<Rightarrow> log_record" where
  "grpcSlogBridge c =
     (case c of
        Grpc_Info t \<Rightarrow> \<lparr>lr_Level = LevelDebug, lr_Message = ''[grpc] '' @ t, lr_Attrs = []\<rparr>
      | Grpc_Warning t \<Rightarrow> \<lparr>lr_Level = LevelWarn, lr_Message = ''[grpc] '' @ t, lr_Attrs = []\<rparr>
      | Grpc_Error t \<Rightarrow> \<lparr>lr_Level = LevelError, lr_Message = ''[grpc] '' @ t, lr_Attrs = []\<rparr>
      | Grpc_Fatal t \<Rightarrow> \<lparr>lr_Level = LevelError, lr_Message = ''[grpc] '' @ t, lr_Attrs = []\<rparr>)"

definition grpcSlogBridge_V :: "'h handler \<Rightarrow> bool" where
  "grpcSlogBridge_V h = hd_Enabled h LevelDebug"

section \<open>Tracing\<close>

datatype Sampler = NeverSample | AlwaysSample | TraceIDRatioBased float_value

text \<open>Comparing a floating-point number with 0 and with 1.\<close>

fun float_nonpos :: "float_value \<Rightarrow> bool" where
  "float_nonpos (Float m e) \<longleftrightarrow> m \<le> 0"

fun float_ge_one :: "float_value \<Rightarrow> bool" where
  "float_ge_one (Float m e) \<longleftrightarrow> (if e \<ge> 0 then m * 2 ^ nat e \<ge> 1 else m \<ge> 2 ^ nat (- e))"

definition buildSampler :: "float_value \<Rightarrow> Sampler" where
  "buildSampler rate =
     (if float_nonpos rate then NeverSample else if float_ge_one rate then AlwaysSample else TraceIDRatioBased rate)"

record 'e otel =
  ot_url_Parse :: "string \<Rightarrow> goerror + (string \<times> string)"
  ot_otlptracehttp_New :: "string \<Rightarrow> bool \<Rightarrow> goerror + 'e"
  ot_stdouttrace_New :: "goerror + 'e"
  ot_resource_New :: "string \<Rightarrow> string \<Rightarrow> goerror + (string \<times> string) list"
  ot_Version :: string

definition quoted_text :: "string \<Rightarrow> string" where
  "quoted_text s = [CHR 0x22] @ s @ [CHR 0x22]"

definition buildOTLPHTTPExporter :: "'e otel \<Rightarrow> string \<Rightarrow> goerror + 'e" where
  "buildOTLPHTTPExporter ot endpoint =
     (case ot_url_Parse ot endpoint of
        Inl err \<Rightarrow> Inl (ErrWrap (''tracing: invalid endpoint '' @ quoted_text endpoint) err)
      | Inr (scheme, host) \<Rightarrow> ot_otlptracehttp_New ot host (scheme = ''http''))"

definition buildExporter :: "'e otel \<Rightarrow> Tracing \<Rightarrow> goerror + 'e" where
  "buildExporter ot cfg =
     (if tr_ExporterType cfg \<in> {''otlphttp'', []} then buildOTLPHTTPExporter ot (tr_Endpoint cfg)
      else if tr_ExporterType cfg = ''stdout'' then ot_stdouttrace_New ot
      else Inl (ErrText (''unknown exporter type '' @ quoted_text (tr_ExporterType cfg) @
             '': supported values are otlphttp, stdout'')))"

definition buildResource :: "'e otel \<Rightarrow> Tracing \<Rightarrow> goerror + (string \<times> string) list" where
  "buildResource ot cfg =
     (let svcVersion = (if ot_Version ot = [] then ''dev'' else ot_Version ot)
      in ot_resource_New ot (tr_ServiceName cfg) svcVersion)"

text \<open>What is installed and returned: nothing, or a provider with its exporter, resource (a list of
  attributes) and sampler.\<close>

datatype 'e tracer = NoopTracer | TracerProvider 'e "(string \<times> string) list" Sampler

definition tracing_Setup :: "'e otel \<Rightarrow> Tracing \<Rightarrow> goerror + 'e tracer" where
  "tracing_Setup ot cfg =
     (if \<not> tr_Enabled cfg then Inr NoopTracer
      else case buildResource ot cfg of
             Inl err \<Rightarrow> Inl (ErrWrap ''tracing: build resource'' err)
           | Inr res \<Rightarrow>
               (case buildExporter ot cfg of
                  Inl err \<Rightarrow> Inl (ErrWrap ''tracing: build exporter'' err)
                | Inr exporter \<Rightarrow> Inr (TracerProvider exporter res (buildSampler (tr_SamplingRate cfg)))))"

section \<open>Facts\<close>

text \<open>Tracing that is disabled, as it is by default, cannot fail; an unknown exporter always does.\<close>

lemma tracing_disabled: "\<not> tr_Enabled cfg \<Longrightarrow> tracing_Setup ot cfg = Inr NoopTracer"
  by (simp add: tracing_Setup_def)

lemma tracing_unknown_exporter:
  "tr_Enabled cfg \<Longrightarrow> tr_ExporterType cfg \<notin> {''otlphttp'', [], ''stdout''} \<Longrightarrow> \<exists>e. tracing_Setup ot cfg = Inl e"
  by (simp add: tracing_Setup_def buildExporter_def split: sum.splits)

text \<open>The gRPC library never ends the process and is quiet at the default level.\<close>

lemma grpc_levels:
  "lr_Level (grpcSlogBridge c) = LevelDebug \<longleftrightarrow> (\<exists>t. c = Grpc_Info t)"
  "lr_Level (grpcSlogBridge c) \<noteq> LevelInfo"
  by (cases c; simp add: grpcSlogBridge_def)+

end
