(* ===== verification/Server.thy ===== *)
theory Server
  imports Boot Provider_Setup Theme_Files Metrics Webhook Tracing_Setup
begin

text \<open>
  The server process: what \<open>Start\<close> (\<open>pkg/sabliercmd/start.go\<close>) does from the configuration to the
  end of the process, the HTTP server with its routes and its shutdown (\<open>internal/server\<close>), the
  stream of instance events (\<open>internal/api/instance_events.go\<close>) and the health command. What happens
  while the server runs is a function on the core; what \<open>ListenAndServe\<close> and \<open>Shutdown\<close> return is an
  input.
\<close>

section \<open>The health command\<close>

text \<open>An answer is an error, or a status with a body that may fail to be read.\<close>

definition Health_check :: "goerror + (int \<times> (goerror + string)) \<Rightarrow> string \<times> bool" where
  "Health_check resp =
     (case resp of
        Inl err \<Rightarrow> (Error_text err, False)
      | Inr (status, Inl err) \<Rightarrow> (Error_text err, False)
      | Inr (status, Inr content) \<Rightarrow> if status \<ge> 400 then (content, False) else (content, True))"

section \<open>Routes and shutdown\<close>

text \<open>The paths under the base path; all of them answer to \<open>GET\<close>.\<close>

definition registerRoutes :: "Recorder \<Rightarrow> string list" where
  "registerRoutes rec =
     [''/health''] @ (case rec of Prom r \<Rightarrow> [''/metrics''] | Noop \<Rightarrow> []) @
     map ((@) ''/api'')
       [''/strategies/dynamic'', ''/strategies/blocking'', ''/strategies/poke'', ''/themes'', ''/dynamic/themes'', ''/events'']"

definition minDrainTimeout :: duration where "minDrainTimeout = 15 * Second"

definition drainGrace :: duration where "drainGrace = 5 * Second"

definition drainTimeout :: "duration \<Rightarrow> duration" where
  "drainTimeout blockingTimeout =
     (let d = blockingTimeout + drainGrace in if d > minDrainTimeout then d else minDrainTimeout)"

text \<open>
  Either listening fails, or the context ends and \<open>Shutdown\<close> is called with the drain window: then
  it succeeds, or the remaining connections are closed. The result is the error that is returned
  and the window.
\<close>

datatype served = ListenFailed goerror | ContextDone "duration \<Rightarrow> goerror option"

definition server_Start :: "duration \<Rightarrow> served \<Rightarrow> goerror option \<times> duration option" where
  "server_Start blockingTimeout outcome =
     (case outcome of
        ListenFailed err \<Rightarrow> (Some (ErrWrap ''server'' err), None)
      | ContextDone shutdown \<Rightarrow>
          (let drain = drainTimeout blockingTimeout
           in case shutdown drain of Some err \<Rightarrow> (None, Some drain) | None \<Rightarrow> (None, Some drain)))"

section \<open>The stream of events\<close>

datatype sse_arrival = SseEvent InstanceEvent | SseClosed | SseError goerror | SseErrClosed | SseDone

text \<open>The loop of the handler: what it sends, and whether it has returned.\<close>

fun sse_loop :: "sse_arrival list \<Rightarrow> (string \<times> InstanceInfo) list \<times> bool" where
  "sse_loop [] = ([], False)"
| "sse_loop (SseEvent event # rest) =
     (case sse_loop rest of (sent, ended) \<Rightarrow> ((event_type_text (ev_Type event), ev_Info event) # sent, ended))"
| "sse_loop (SseClosed # rest) = ([], True)"
| "sse_loop (SseError err # rest) = ([], True)"
| "sse_loop (SseErrClosed # rest) = sse_loop rest"
| "sse_loop (SseDone # rest) = ([], True)"

definition sse_headers :: "(string \<times> string) list" where
  "sse_headers = [(''X-Accel-Buffering'', ''no''), (''Cache-Control'', ''no-cache''), (''Connection'', ''keep-alive'')]"

text \<open>A request that cannot be bound is answered with a problem; else the types are subscribed to.\<close>

definition InstanceEvents_handler :: "goerror + string list \<Rightarrow> (string list \<Rightarrow> sse_arrival list) \<Rightarrow>
    response + ((string \<times> string) list \<times> (string \<times> InstanceInfo) list \<times> bool)" where
  "InstanceEvents_handler bound subscribe =
     (case bound of
        Inl err \<Rightarrow> Inl (AbortWithProblemDetail [] (ProblemValidation err))
      | Inr types \<Rightarrow> Inr (sse_headers, sse_loop (subscribe types)))"

section \<open>The process\<close>

text \<open>The goroutines that run beside the server.\<close>

datatype watcher =
    GoGroupWatch
  | GoRemoveStopped
  | GoStopExternallyStarted
  | GoWarmExternallyStarted
  | GoRunningHours
  | GoWebhooks "WebhookEndpoint list"

definition started_watchers :: "Config \<Rightarrow> watcher list" where
  "started_watchers conf =
     [GoGroupWatch, GoRemoveStopped] @
     (if pv_AutoStopExternallyStarted (cf_Provider conf) then [GoStopExternallyStarted] else []) @
     (if pv_AutoWarmExternallyStarted (cf_Provider conf) then [GoWarmExternallyStarted] else []) @
     [GoRunningHours] @
     (if wh_Endpoints (cf_Webhooks conf) \<noteq> [] then [GoWebhooks (wh_Endpoints (cf_Webhooks conf))] else [])"

record ('tpl, 'w) process =
  px_core :: "(InMemory, 'w) sablier"
  px_recorder :: Recorder
  px_watchers :: "watcher list"
  px_themes :: "(string, 'tpl) gomap"

text \<open>
  \<open>Start\<close> up to the point where the server is started; \<open>iface\<close> turns the built provider into the
  operations the core calls, with its initial state.
\<close>

record ('e, 'd, 's, 'k, 'x, 'u, 'tpl, 'w) environment =
  en_otel :: "'e otel"
  en_connectors :: "('d, 's, 'k, 'x, 'u) connectors"
  en_iface :: "('d, 's, 'k, 'x, 'u) built \<Rightarrow> 'w provider_ops \<times> 'w"
  en_location :: location
  en_order :: range_order
  en_now :: time
  en_now' :: time
  en_t :: time
  en_parse :: "string \<Rightarrow> goerror + 'tpl"
  en_mime :: "string \<Rightarrow> string"
  en_embedded :: "(string \<times> string) list"
  en_machine :: fnode
  en_absolute :: "string \<Rightarrow> string list"

definition theme_error :: "fs_error \<Rightarrow> goerror" where
  "theme_error e = (case e of ErrTemplate err \<Rightarrow> err | _ \<Rightarrow> ErrText ''cannot read themes'')"

definition process_setup :: "('e, 'd, 's, 'k, 'x, 'u, 'tpl, 'w) environment \<Rightarrow> Config \<Rightarrow> disk \<Rightarrow>
    (goerror + ('tpl, 'w) process) \<times> disk" where
  "process_setup en conf dk =
     (case tracing_Setup (en_otel en) (cf_Tracing conf) of
        Inl err \<Rightarrow> (Inl (ErrWrap ''cannot setup tracing'' err), dk)
      | Inr tracer \<Rightarrow>
          (case setupProvider (en_connectors en) (cf_Provider conf) of
             Inl err \<Rightarrow> (Inl (ErrWrap ''cannot setup provider'' err), dk)
           | Inr b \<Rightarrow>
               (let (p, w) = en_iface en b;
                    (s, dk1) = Start conf (en_location en) (en_order en) (en_now en) (en_now' en) (en_t en) p w dk
                in case setupTheme (en_parse en) (en_mime en) (en_embedded en) (en_machine en) (en_absolute en) conf of
                     Inl err \<Rightarrow> (Inl (ErrWrap ''cannot setup theme'' (theme_error err)), dk1)
                   | Inr themes \<Rightarrow>
                       (Inr \<lparr>px_core = s, px_recorder = buildRecorder (mc_Enabled (sc_Metrics (cf_Server conf))),
                             px_watchers = started_watchers conf, px_themes = themes\<rparr>, dk1))))"

text \<open>
  The whole of it: while the server runs, the core goes through \<open>serving\<close>; when it ends, in either
  way, the sessions are saved.
\<close>

definition run_process :: "('e, 'd, 's, 'k, 'x, 'u, 'tpl, 'w) environment \<Rightarrow>
    (('tpl, 'w) process \<Rightarrow> (InMemory, 'w) sablier) \<Rightarrow> served \<Rightarrow> Config \<Rightarrow> disk \<Rightarrow> goerror option \<times> disk" where
  "run_process en serving outcome conf dk =
     (case process_setup en conf dk of
        (Inl err, dk1) \<Rightarrow> (Some err, dk1)
      | (Inr px, dk1) \<Rightarrow>
          (let s = serving px;
               (err, drain) = server_Start (bs_DefaultTimeout (sg_Blocking (cf_Strategy conf))) outcome
           in (err, save (st_File (cf_Storage conf)) (s_sessions s) dk1)))"

section \<open>Facts\<close>

lemma drainTimeout_outlives:
  "drainTimeout d \<ge> d + drainGrace" "drainTimeout d \<ge> minDrainTimeout"
  by (simp_all add: drainTimeout_def Let_def)

lemma server_Start_error:
  "fst (server_Start d outcome) = (case outcome of ListenFailed err \<Rightarrow> Some (ErrWrap ''server'' err) | ContextDone f \<Rightarrow> None)"
  by (simp add: server_Start_def Let_def split: served.splits option.splits)

text \<open>The two watchers of externally started instances never run together.\<close>

lemma watchers_exclusive:
  "Provider_IsValid (cf_Provider conf) = None \<Longrightarrow>
   \<not> (GoStopExternallyStarted \<in> set (started_watchers conf) \<and>
      GoWarmExternallyStarted \<in> set (started_watchers conf))"
  by (auto simp: Provider_IsValid_iff started_watchers_def)

lemma process_setup_ok:
  "process_setup en conf dk = (Inr px, dk1) \<Longrightarrow>
   (\<exists>tracer. tracing_Setup (en_otel en) (cf_Tracing conf) = Inr tracer) \<and> Provider_IsValid (cf_Provider conf) = None \<and>
   (\<exists>b. setupProvider (en_connectors en) (cf_Provider conf) = Inr b \<and> built_for (cf_Provider conf) b \<and>
      Start conf (en_location en) (en_order en) (en_now en) (en_now' en) (en_t en)
        (fst (en_iface en b)) (snd (en_iface en b)) dk = (px_core px, dk1)) \<and>
   px_watchers px = started_watchers conf"
  using setup_result [of "en_connectors en" "cf_Provider conf"]
  by (auto simp: process_setup_def Let_def split: option.splits sum.splits prod.splits)


text \<open>A process without a theme directory, on the connections of the other theories.\<close>

lemma setupTheme_ok:
  "theme_New parse embedded = Inr t0 \<Longrightarrow> \<exists>t. setupTheme parse mime embedded machine absolute conf = Inr t"
  by (auto simp: setupTheme_def Let_def split: sum.splits)

definition demo_environment where
  "demo_environment =
     \<lparr>en_otel = \<lparr>ot_url_Parse = (\<lambda>u. Inr (''http'', u)), ot_otlptracehttp_New = (\<lambda>h i. Inr ()), ot_stdouttrace_New = Inr (),
        ot_resource_New = (\<lambda>n v. Inr []), ot_Version = []\<rparr>, en_connectors = demo_connectors, en_iface = (\<lambda>b. (Sablier_State.list_provider (\<lambda>_. []), busy_world)),
      en_location = fixed_zone 0, en_order = (\<lambda>m. m), en_now = 1, en_now' = 2, en_t = 3,
      en_parse = (\<lambda>page. Inr page), en_mime = (\<lambda>e. []), en_embedded = [], en_machine = Dir [],
      en_absolute = (\<lambda>p. [p])\<rparr>"

lemma demo_process: "\<exists>px dk1. process_setup demo_environment busy_config dk = (Inr px, dk1)"
proof -
  have "Provider_IsValid (cf_Provider busy_config) = None"
    by (simp add: Provider_IsValid_iff busy_config_def NewConfig_def NewProviderConfig_def providers_def)
  moreover have "reachable demo_connectors" by (simp add: reachable_def demo_connectors_def)
  ultimately obtain b where "setupProvider demo_connectors (cf_Provider busy_config) = Inr b"
    using setup_works by blast
  moreover obtain t where "setupTheme (\<lambda>page. Inr page) (\<lambda>e. []) [] (Dir []) (\<lambda>p. [p]) busy_config = Inr t"
    using setupTheme_ok [of "\<lambda>page. Inr page" "[]" "[]"] by (fastforce simp: theme_New_def)
  moreover have "tracing_Setup ot (cf_Tracing busy_config) = Inr NoopTracer" for ot :: "unit otel"
    by (rule tracing_disabled) (simp add: busy_config_def NewConfig_def NewTracingConfig_def)
  ultimately show ?thesis
    by (auto simp: process_setup_def demo_environment_def Let_def split: prod.splits)
qed


end
