(* ===== verification/Theme_Facts.thy ===== *)
theory Theme_Facts
  imports Theme_Files
begin

text \<open>
  What loading themes guarantees: which files of the machine can reach a page, which themes there
  are, and that a missing asset leaves the page as it is. Also the gap in the protection against
  symbolic links: a link to a directory is followed.
\<close>

section \<open>Resolving names inside the theme directory\<close>

lemma node_at_append: "node_at n (p @ q) = (case node_at n p of None \<Rightarrow> None | Some m \<Rightarrow> node_at m q)"
  by (induction n p rule: node_at.induct) (auto split: option.splits)

lemma node_at_Cons: "node_at n (c # cs) = Some m \<Longrightarrow> \<exists>es e. n = Dir es \<and> map_of es c = Some e \<and> node_at e cs = Some m"
  by (cases n) (auto split: option.splits)

lemma node_at_inner:
  "node_at n (p @ c # cs) = Some m \<Longrightarrow> \<exists>es. node_at n p = Some (Dir es)"
  by (auto simp: node_at_append split: option.splits dest!: node_at_Cons)

text \<open>A path that exists without links resolves to itself.\<close>

lemma resolve_plain:
  assumes "node_at machine (d @ cs) = Some n" and "\<not> is_link n"
  shows "resolve_path k machine d (cs @ rest) = resolve_path k machine (d @ cs) rest"
  using assms
proof (induction cs arbitrary: d)
  case (Cons c cs)
  have e: "node_at machine ((d @ [c]) @ cs) = Some n" using Cons.prems(1) by simp
  obtain m where m: "node_at machine (d @ [c]) = Some m" using e by (simp only: node_at_append) (auto split: option.splits)
  have "\<not> is_link m"
  proof (cases cs)
    case Nil
    then show ?thesis using e m Cons.prems(2) by simp
  next
    case (Cons c' cs')
    with e node_at_inner [of machine "d @ [c]" c' cs'] m show ?thesis by auto
  qed
  with m have "resolve_path k machine d ((c # cs) @ rest) = resolve_path k machine (d @ [c]) (cs @ rest)"
    by (cases m) auto
  also have "\<dots> = resolve_path k machine ((d @ [c]) @ cs) rest" using Cons.IH [OF e Cons.prems(2)] .
  finally show ?case by simp
qed simp

text \<open>What lies beyond a path is only reached through a directory.\<close>

lemma resolve_beyond:
  "resolve_path k machine d path = Some p \<Longrightarrow> path = xs @ y # ys \<Longrightarrow>
   \<exists>q ds. resolve_path k machine d xs = Some q \<and> node_at machine q = Some (Dir ds)"
proof (induction k machine d path arbitrary: xs rule: resolve_path.induct)
  case (2 k machine d c cs)
  from "2.prems"(1) obtain m where m: "node_at machine (d @ [c]) = Some m"
    by (auto split: option.splits)
  show ?case
  proof (cases xs)
    case Nil
    with m node_at_inner [of machine d c "[]"] show ?thesis by auto
  next
    case (Cons x xs')
    with "2.prems"(2) have c: "c = x" "cs = xs' @ y # ys" by auto
    show ?thesis
    proof (cases m)
      case (Link t)
      with m "2.prems"(1) obtain j where k: "k = Suc j" and r: "resolve_path j machine [] (t @ cs) = Some p"
        by (auto split: nat.splits)
      have "\<exists>q ds. resolve_path j machine [] (t @ xs') = Some q \<and> node_at machine q = Some (Dir ds)"
        by (rule "2.IH"(3) [OF m Link k r]) (simp add: c)
      then show ?thesis using m Link k by (simp add: Cons c)
    qed (use 2 m c Cons in auto)
  qed
qed simp

text \<open>
  The hypothesis on the theme directory: no symbolic link inside it leads to a directory, however
  many links are followed.
\<close>

definition no_dir_links :: "fnode \<Rightarrow> string list \<Rightarrow> bool" where
  "no_dir_links machine dir \<longleftrightarrow>
     (\<forall>p t k q ds. node_at machine (dir @ p) = Some (Link t) \<longrightarrow> resolve_path k machine [] t = Some q \<longrightarrow>
        node_at machine q \<noteq> Some (Dir ds))"

lemma link_dead_end:
  assumes "no_dir_links machine dir" and "node_at machine (dir @ p) = Some (Link t)" and "cs \<noteq> []"
  shows "resolve_path k machine [] (t @ cs) = None"
proof (rule ccontr)
  obtain y ys where cs: "cs = y # ys" using assms(3) by (cases cs) auto
  assume "resolve_path k machine [] (t @ cs) \<noteq> None"
  then obtain q where "resolve_path k machine [] (t @ cs) = Some q" by auto
  from resolve_beyond [OF this, of t y ys] cs assms(1,2) show False by (auto simp: no_dir_links_def)
qed

lemma resolve_inside:
  assumes "no_dir_links machine dir" and "resolve_path k machine (dir @ p) cs = Some q"
    and "node_at machine (dir @ p) = Some m" and "\<not> is_link m"
  shows "(q = dir @ p @ cs \<and> (\<exists>n. node_at machine q = Some n \<and> \<not> is_link n)) \<or>
    (\<exists>t. node_at machine (dir @ p @ cs) = Some (Link t))"
  using assms(2-)
proof (induction cs arbitrary: p m)
  case (Cons c cs)
  from Cons.prems(1) obtain e where e: "node_at machine (dir @ p @ [c]) = Some e" by (auto split: option.splits)
  show ?case
  proof (cases e)
    case (Link t)
    show ?thesis
    proof (cases "cs = []")
      case True
      with e Link show ?thesis by simp
    next
      case False
      with link_dead_end [OF assms(1) _ False, of "p @ [c]" t] e Link Cons.prems(1)
      show ?thesis by (auto split: nat.splits)
    qed
  qed (use Cons.IH [of "p @ [c]" e] Cons.prems e in simp_all)
qed auto

lemma path_Join_valid: "ValidPath name \<Longrightarrow> path_Join dir name = dir @ path_elems name"
proof -
  have "\<forall>e \<in> set es. e \<notin> {[], ''.'', ''..''} \<Longrightarrow>
      fold (\<lambda>e acc. if e \<in> {[], ''.''} then acc else if e = ''..'' then butlast acc else acc @ [e]) es d = d @ es" for es d
    by (induction es arbitrary: d) auto
  then show "ValidPath name \<Longrightarrow> ?thesis" by (auto simp: ValidPath_def path_Join_def path_elems_def)
qed

text \<open>Through the file system that refuses links exactly the nodes of the theme directory open.\<close>

lemma noSymlinkFS_Open_iff:
  assumes "node_at machine dir = Some (Dir es)" and "no_dir_links machine dir"
  shows "noSymlinkFS_Open machine dir name = Inr n \<longleftrightarrow>
    ValidPath name \<and> node_at (Dir es) (path_elems name) = Some n \<and> \<not> is_link n"
proof (cases "ValidPath name")
  case False
  then show ?thesis by (auto simp: noSymlinkFS_Open_def DirFS_Open_def split: sum.splits fnode.splits)
next
  case True
  let ?cs = "path_elems name"
  have stat: "os_Stat machine (dir @ ?cs) =
      (case resolve_path 40 machine dir ?cs of None \<Rightarrow> Inl ErrNotExist
       | Some p \<Rightarrow> (case node_at machine p of None \<Rightarrow> Inl ErrNotExist | Some n \<Rightarrow> Inr n))"
    using resolve_plain [of machine "[]" dir _ 40 ?cs] assms(1) by (simp add: os_Stat_def)
  have at: "node_at machine (dir @ cs) = node_at (Dir es) cs" for cs
    using assms(1) by (simp add: node_at_append)
  have lstat: "os_Lstat machine (dir @ ?cs) = Inr m" if "node_at machine (dir @ ?cs) = Some m" for m
  proof (cases "dir @ ?cs = []")
    case False
    then have s: "butlast (dir @ ?cs) @ [last (dir @ ?cs)] = dir @ ?cs" by simp
    with that node_at_inner [of machine "butlast (dir @ ?cs)" "last (dir @ ?cs)" "[]"]
    obtain fs where "node_at machine (butlast (dir @ ?cs)) = Some (Dir fs)" by auto
    with resolve_plain [of machine "[]" "butlast (dir @ ?cs)" _ 40 "[]"]
    have "resolve_path 40 machine [] (butlast (dir @ ?cs)) = Some (butlast (dir @ ?cs))" by simp
    with False s that show ?thesis by (auto simp: os_Lstat_def)
  qed (use that in \<open>simp add: os_Lstat_def\<close>)
  show ?thesis
  proof
    assume "noSymlinkFS_Open machine dir name = Inr n"
    then have open_ok: "os_Stat machine (dir @ ?cs) = Inr n" and nl: "\<And>t. os_Lstat machine (dir @ ?cs) \<noteq> Inr (Link t)"
      using True by (auto simp: noSymlinkFS_Open_def DirFS_Open_def path_Join_valid split: sum.splits fnode.splits)
    from open_ok obtain q where q: "resolve_path 40 machine (dir @ []) ?cs = Some q" "node_at machine q = Some n"
      unfolding stat by (auto split: option.splits)
    from resolve_inside [OF assms(2) q(1), of "Dir es"] assms(1) q(2) lstat nl
    show "ValidPath name \<and> node_at (Dir es) ?cs = Some n \<and> \<not> is_link n" using True by (auto simp: at)
  next
    assume n: "ValidPath name \<and> node_at (Dir es) ?cs = Some n \<and> \<not> is_link n"
    then have m: "node_at machine (dir @ ?cs) = Some n" by (simp add: at)
    with n have "os_Stat machine (dir @ ?cs) = Inr n"
      using resolve_plain [of machine dir ?cs n 40 "[]"] by (simp add: stat)
    with lstat [OF m] n show "noSymlinkFS_Open machine dir name = Inr n"
      by (cases n) (auto simp: noSymlinkFS_Open_def DirFS_Open_def path_Join_valid)
  qed
qed

section \<open>What a page depends on\<close>

text \<open>Two file systems that open the same files give the same pages.\<close>

definition same_opens :: "(string \<Rightarrow> fs_error + fnode) \<Rightarrow> (string \<Rightarrow> fs_error + fnode) \<Rightarrow> bool" where
  "same_opens f g \<longleftrightarrow> (\<forall>name n. f name = Inr n \<longleftrightarrow> g name = Inr n)"

lemma same_opens_cases:
  "same_opens f g \<Longrightarrow> (\<exists>n. f name = Inr n \<and> g name = Inr n) \<or> (\<exists>e e'. f name = Inl e \<and> g name = Inl e')"
  unfolding same_opens_def by (cases "f name"; cases "g name") (metis sum.distinct(1))+

lemma same_opens_read:
  assumes "same_opens f g"
  shows "case_sum (\<lambda>e. x) h (safeReadFile f name) = case_sum (\<lambda>e. x) h (safeReadFile g name)"
  using same_opens_cases [OF assms, of name] by (auto simp: safeReadFile_def split: fnode.splits)

lemma same_opens_bundle:
  assumes "same_opens f g"
  shows "bundle_content mime f = bundle_content mime g"
proof -
  have "link_tag f = link_tag g" "script_tag f = script_tag g" "img_tag mime f = img_tag mime g"
    by (intro ext; auto simp: link_tag_def script_tag_def img_tag_def same_opens_read [OF assms]
        split: option.splits)+
  then show ?thesis by (intro ext) (simp add: bundle_content_def)
qed

lemma same_opens_html:
  assumes "same_opens f g"
  shows "(\<exists>c. bundleHTML mime f p = Inr c \<and> bundleHTML mime g p = Inr c) \<or>
    (\<exists>e e'. bundleHTML mime f p = Inl e \<and> bundleHTML mime g p = Inl e')"
  using same_opens_cases [OF assms, of p] same_opens_bundle [OF assms, of mime]
  by (auto simp: bundleHTML_def ReadFile_def split: fnode.splits)

lemma same_opens_themes:
  assumes "same_opens f g"
  shows "case_sum (\<lambda>e. x) h (ParseAndBundleTemplatesFS parse mime f files themes) =
    case_sum (\<lambda>e. x) h (ParseAndBundleTemplatesFS parse mime g files themes)"
proof (induction files arbitrary: themes)
  case (Cons e files)
  obtain p d where e: "e = (p, d)" by (cases e)
  from same_opens_html [OF assms, of mime p] show ?case
  proof (elim disjE exE conjE)
    fix c
    assume "bundleHTML mime f p = Inr c" "bundleHTML mime g p = Inr c"
    with Cons.IH show ?thesis by (cases "parse c") (simp_all add: e)
  qed (simp add: e Cons.IH)
qed simp


section \<open>Missing assets\<close>

lemma ReplaceAllFunc_id: "(\<And>t. f t = t) \<Longrightarrow> ReplaceAllFunc m f s = s"
  by (induction m f s rule: ReplaceAllFunc.induct) (auto split: option.splits nat.splits)

lemma bundle_unreadable:
  assumes "\<And>name. \<exists>e. safeReadFile opn name = Inl e"
  shows "bundle_content mime opn dir content = content"
proof -
  have r: "case_sum (\<lambda>e. x) h (safeReadFile opn name) = x" for x :: string and h name
    using assms [of name] by auto
  have "link_tag opn dir t = t" "script_tag opn dir t = t" "img_tag mime opn dir t = t" for t
    by (simp_all add: link_tag_def script_tag_def img_tag_def r split: option.splits)
  then show ?thesis by (simp add: bundle_content_def ReplaceAllFunc_id)
qed

section \<open>Which themes there are\<close>

text \<open>Directories with proper names, each at most once.\<close>

definition name_ok :: "string \<Rightarrow> bool" where
  "name_ok n \<longleftrightarrow> n \<notin> {[], ''.'', ''..''} \<and> CHR ''/'' \<notin> set n"

function wf_node :: "fnode \<Rightarrow> bool" where
  "wf_node (Reg c) = True"
| "wf_node (Link t) = True"
| "wf_node (Dir es) = (distinct (map fst es) \<and> (\<forall>x \<in> set es. name_ok (fst x) \<and> wf_node (snd x)))"
  by pat_completeness auto
termination
  by (relation "measure size") (auto dest: fnode_entry_size)

lemma Join_Split: "Join (Split c s) [c] = s"
proof (induction s)
  case (Cons x s)
  then show ?case by (cases "Split c s"; cases "tl (Split c s)") auto
qed simp

lemma Join_path_sub: "cs \<noteq> [] \<Longrightarrow> p \<noteq> ''.'' \<Longrightarrow> \<forall>n\<in>set cs. name_ok n \<Longrightarrow>
  fold (\<lambda>n p. path_sub p n) cs p = p @ ''/'' @ Join cs ''/''"
proof (induction cs arbitrary: p rule: induct_list012)
  case (3 a b cs)
  have "p @ ''/'' @ a \<noteq> ''.''" by (cases p) auto
  with 3 have "fold (\<lambda>n p. path_sub p n) (b # cs) (p @ ''/'' @ a) = (p @ ''/'' @ a) @ ''/'' @ Join (b # cs) ''/''"
    by (intro "3.IH"(2)) auto
  then show ?case using "3.prems"(2) by (simp add: path_sub_def)
qed (auto simp: path_sub_def)

lemma walk_names:
  assumes "cs \<noteq> []" and "\<forall>n\<in>set cs. name_ok n"
  shows "fold (\<lambda>n p. path_sub p n) cs ''.'' = Join cs ''/''"
proof (cases cs)
  case (Cons a cs')
  then have "a \<noteq> ''.''" using assms by (auto simp: name_ok_def)
  then show ?thesis
    using Cons assms Join_path_sub [of cs' a] by (cases cs') (auto simp: path_sub_def)
qed (use assms in simp)

lemma node_at_names: "wf_node n \<Longrightarrow> node_at n cs = Some m \<Longrightarrow> \<forall>c\<in>set cs. name_ok c"
proof (induction cs arbitrary: n)
  case (Cons c cs)
  from node_at_Cons [OF Cons.prems(2)] obtain es e where "n = Dir es" "map_of es c = Some e" "node_at e cs = Some m"
    by blast
  moreover from this have "(c, e) \<in> set es" by (simp add: map_of_SomeD)
  ultimately show ?case using Cons.IH [of e] Cons.prems(1) by force
qed simp

lemma walk_tree_files:
  "wf_node n \<Longrightarrow> (q, False) \<in> set (walk_tree p n) \<longleftrightarrow>
     (\<exists>cs c. node_at n cs = Some (Reg c) \<and> q = fold (\<lambda>n p. path_sub p n) cs p)"
proof (induction p n rule: walk_tree.induct)
  case (1 p content)
  have "node_at (Reg content) cs = Some (Reg c) \<longleftrightarrow> cs = [] \<and> c = content" for cs c by (cases cs) auto
  then show ?case by auto
next
  case (2 p target)
  have "node_at (Link target) cs \<noteq> Some (Reg c)" for cs c by (cases cs) auto
  then show ?case by auto
next
  case (3 p es)
  have wf: "distinct (map fst es)" "\<And>n e. (n, e) \<in> set es \<Longrightarrow> wf_node e" using "3.prems" by force+
  have "(q, False) \<in> set (walk_tree p (Dir es)) \<longleftrightarrow>
      (\<exists>n e. (n, e) \<in> set es \<and> \<not> is_link e \<and> (q, False) \<in> set (walk_tree (path_sub p n) e))"
    by (auto simp: noSymlinkFS_ReadDir_def)
  also have "\<dots> \<longleftrightarrow> (\<exists>n e cs c. (n, e) \<in> set es \<and> node_at e cs = Some (Reg c) \<and>
      q = fold (\<lambda>n p. path_sub p n) cs (path_sub p n))" (is "?L \<longleftrightarrow> ?R")
  proof
    assume ?L
    then obtain n e where "(n, e) \<in> set es" "\<not> is_link e" "(q, False) \<in> set (walk_tree (path_sub p n) e)" by blast
    with "3.IH" [of "(n, e)" n e] wf(2) [of n e] show ?R by (auto simp: noSymlinkFS_ReadDir_def)
  next
    assume ?R
    then obtain n e cs c where r: "(n, e) \<in> set es" "node_at e cs = Some (Reg c)"
      "q = fold (\<lambda>n p. path_sub p n) cs (path_sub p n)" by blast
    then have "\<not> is_link e" by (cases e; cases cs) auto
    with r "3.IH" [of "(n, e)" n e] wf(2) [of n e] show ?L by (auto simp: noSymlinkFS_ReadDir_def)
  qed
  also have "\<dots> \<longleftrightarrow> (\<exists>cs c. node_at (Dir es) cs = Some (Reg c) \<and> q = fold (\<lambda>n p. path_sub p n) cs p)" (is "?R \<longleftrightarrow> ?S")
  proof
    assume ?R
    then obtain n e cs c where "(n, e) \<in> set es" "node_at e cs = Some (Reg c)"
      "q = fold (\<lambda>n p. path_sub p n) cs (path_sub p n)" by blast
    with wf(1) show ?S by (intro exI [of _ "n # cs"] exI [of _ c]) (simp add: map_of_is_SomeI)
  next
    assume ?S
    then obtain cs c where s: "node_at (Dir es) cs = Some (Reg c)" "q = fold (\<lambda>n p. path_sub p n) cs p" by blast
    then obtain n cs' where "cs = n # cs'" by (cases cs) auto
    with s show ?R by (auto split: option.splits dest!: map_of_SomeD)
  qed
  finally show ?case .
qed

text \<open>The files that are visited are the regular files of the directory, under their names.\<close>

lemma walk_root_files:
  assumes "wf_node (Dir es)"
  shows "(q, False) \<in> set (walk_tree ''.'' (Dir es)) \<longleftrightarrow>
    ValidPath q \<and> (\<exists>c. node_at (Dir es) (path_elems q) = Some (Reg c))"
proof -
  have "(\<exists>cs c. node_at (Dir es) cs = Some (Reg c) \<and> q = fold (\<lambda>n p. path_sub p n) cs ''.'') \<longleftrightarrow>
      ValidPath q \<and> (\<exists>c. node_at (Dir es) (path_elems q) = Some (Reg c))" (is "?L \<longleftrightarrow> ?R")
  proof
    assume ?L
    then obtain cs c where s: "node_at (Dir es) cs = Some (Reg c)" "q = fold (\<lambda>n p. path_sub p n) cs ''.''" by blast
    then have ne: "cs \<noteq> []" by auto
    have ok: "\<forall>n\<in>set cs. name_ok n" using node_at_names [OF assms s(1)] .
    have q: "q = Join cs ''/''" using s(2) walk_names [OF ne ok] by simp
    with ne ok have split: "Split (CHR ''/'') q = cs" by (simp add: Split_Join name_ok_def)
    have "q \<noteq> ''.''"
    proof
      assume "q = ''.''"
      with split have "cs = [''.'']" by simp
      with ok show False by (simp add: name_ok_def)
    qed
    then have "path_elems q = cs" by (simp add: path_elems_def split)
    moreover have "ValidPath q" unfolding ValidPath_def split using ok by (simp add: name_ok_def)
    ultimately show ?R using s(1) by blast
  next
    assume r: ?R
    let ?cs = "path_elems q"
    from r obtain c where c: "node_at (Dir es) ?cs = Some (Reg c)" by blast
    then have ne: "?cs \<noteq> []" by auto
    then have "Join ?cs ''/'' = q" by (simp add: path_elems_def Join_Split split: if_splits)
    with c walk_names [OF ne node_at_names [OF assms c]] show ?L by (intro exI [of _ ?cs]) auto
  qed
  then show ?thesis using walk_tree_files [OF assms] by simp
qed

lemma ParseAndBundle_result:
  assumes "ParseAndBundleTemplatesFS parse mime opn files t0 = Inr t"
  shows "if (k, False) \<in> set files \<and> path_Ext k = ''.html''
    then \<exists>page tpl. bundleHTML mime opn k = Inr page \<and> parse page = Inr tpl \<and> map_of t k = Some tpl
    else map_of t k = map_of t0 k"
  using assms
proof (induction files arbitrary: t0)
  case (Cons e files)
  obtain p d where e: "e = (p, d)" by (cases e)
  show ?case
  proof (cases "isThemeFile p d")
    case False
    with Cons show ?thesis by (auto simp: e isThemeFile_def split: if_splits)
  next
    case True
    then have d: "\<not> d" "path_Ext p = ''.html''" by (auto simp: isThemeFile_def)
    from True Cons.prems obtain page tpl where t: "bundleHTML mime opn p = Inr page" "parse page = Inr tpl"
      "ParseAndBundleTemplatesFS parse mime opn files (map_put p tpl t0) = Inr t"
      by (auto simp: e split: sum.splits)
    from Cons.IH [OF t(3)] t(1,2) d show ?thesis by (auto simp: e map_of_put split: if_splits)
  qed
qed simp

text \<open>
  The themes of a custom directory. When loading succeeds, every regular \<open>.html\<close> file of the
  directory and its subdirectories is registered under its path, as the parsed template of the file
  with its assets inlined, and replaces an embedded theme of that name; the other themes are the
  embedded ones. Symbolic links are not themes. When nothing can be inlined, the page is the file.
\<close>

theorem theme_names:
  assumes "node_at machine dir = Some (Dir es)" and "no_dir_links machine dir" and "wf_node (Dir es)"
    and "theme_New parse embedded = Inr t0"
    and "NewWithCustomThemesFromPath parse mime embedded machine dir = Inr t"
  defines "custom k c \<equiv> ValidPath k \<and> path_Ext k = ''.html'' \<and> node_at (Dir es) (path_elems k) = Some (Reg c)"
    and "opn \<equiv> noSymlinkFS_Open machine dir"
  shows "(\<forall>c. custom k c \<longrightarrow>
      (\<exists>tpl. map_of t k = Some tpl \<and> parse (bundle_content mime opn (theme_dir k) c) = Inr tpl)) \<and>
    ((\<nexists>c. custom k c) \<longrightarrow> map_of t k = map_of t0 k) \<and>
    ((\<forall>name. \<exists>e. safeReadFile opn name = Inl e) \<longrightarrow> bundle_content mime opn (theme_dir k) c = c)"
proof (intro conjI allI impI)
  have "opn ''.'' = Inr (Dir es)"
    unfolding opn_def noSymlinkFS_Open_iff [OF assms(1,2)] by (auto simp: ValidPath_def path_elems_def)
  with assms(4,5) have load: "ParseAndBundleTemplatesFS parse mime opn (walk_tree ''.'' (Dir es)) t0 = Inr t"
    by (auto simp: NewWithCustomThemesFromPath_def theme_New_def noSymlinkFS_walk_def opn_def
        simp del: walk_tree.simps split: sum.splits)
  have cust: "(k, False) \<in> set (walk_tree ''.'' (Dir es)) \<and> path_Ext k = ''.html'' \<longleftrightarrow> (\<exists>c. custom k c)"
    unfolding walk_root_files [OF assms(3)] custom_def by blast
  note R = ParseAndBundle_result [OF load, of k, unfolded cust]
  show "\<exists>tpl. map_of t k = Some tpl \<and> parse (bundle_content mime opn (theme_dir k) c) = Inr tpl" if "custom k c" for c
  proof -
    have "opn k = Inr (Reg c)" unfolding opn_def noSymlinkFS_Open_iff [OF assms(1,2)] using that by (simp add: custom_def)
    then have "bundleHTML mime opn k = Inr (bundle_content mime opn (theme_dir k) c)"
      by (simp add: bundleHTML_def ReadFile_def)
    with R that show ?thesis by (auto split: if_splits)
  qed
  show "map_of t k = map_of t0 k" if "\<nexists>c. custom k c" using R that by simp
  show "bundle_content mime opn (theme_dir k) c = c" if "\<forall>name. \<exists>e. safeReadFile opn name = Inl e"
    using that by (intro bundle_unreadable) blast
qed

section \<open>Machines\<close>

text \<open>A theme directory with a page, its style sheet and a link to a secret file.\<close>

definition demo_page :: string where
  "demo_page = ''<LINK rel='' @ [CHR 0x22] @ ''stylesheet'' @ [CHR 0x22] @ '' href='' @ [CHR 0x22] @ ''a.css'' @ [CHR 0x22] @ ''>''"

definition demo_themes :: "(string \<times> fnode) list" where
  "demo_themes = [(''a.html'', Reg demo_page), (''a.css'', Reg ''b{}''), (''c.css'', Link [''etc'', ''passwd''])]"

definition demo_machine :: "string \<Rightarrow> fnode" where
  "demo_machine secret = Dir [(''etc'', Dir [(''passwd'', Reg secret)]), (''themes'', Dir demo_themes)]"

lemma demo_machine_dir: "node_at (demo_machine secret) [''themes''] = Some (Dir demo_themes)"
  by (simp add: demo_machine_def)

lemma demo_machine_links: "no_dir_links (demo_machine secret) [''themes'']"
proof -
  have "t = [''etc'', ''passwd'']" if "node_at (demo_machine secret) ([''themes''] @ p) = Some (Link t)" for p t
    using that by (cases p; cases "tl p") (auto simp: demo_machine_def demo_themes_def split: if_splits)
  then show ?thesis unfolding no_dir_links_def by (force simp: demo_machine_def)
qed

definition themes_conf :: Config where
  "themes_conf = NewConfig\<lparr>cf_Strategy := (cf_Strategy NewConfig)\<lparr>sg_Dynamic := newDynamicStrategy\<lparr>ds_CustomThemesPath := ''/themes''\<rparr>\<rparr>\<rparr>"


lemma ReplaceAllFunc_none:
  "list_all (\<lambda>i. m (drop i s) = None) [0..<length s] \<Longrightarrow> ReplaceAllFunc m f s = s"
proof (induction s)
  case (Cons c s)
  then have all: "m (drop i (c # s)) = None" if "i < Suc (length s)" for i
    using that Cons.prems by (auto simp: list_all_iff less_Suc_eq simp del: drop_Cons')
  from all [of 0] all [of "Suc _"] Cons.IH show ?case by (simp add: list_all_iff)
qed simp

lemma demo_bundle:
  "bundle_content (\<lambda>e. []) (noSymlinkFS_Open (demo_machine secret) [''themes'']) [] demo_page = ''<style>b{}</style>''"
proof -
  let ?opn = "noSymlinkFS_Open (demo_machine secret) [''themes'']" and ?css = "''<style>b{}</style>''"
  have "?opn ''a.css'' = Inr (Reg ''b{}'')"
    unfolding noSymlinkFS_Open_iff [OF demo_machine_dir demo_machine_links]
    by (simp add: ValidPath_def path_elems_def demo_themes_def)
  then have "safeReadFile ?opn ''a.css'' = Inr ''b{}''" by (simp add: safeReadFile_def maxAssetBytes_def)
  moreover have "has_rel_stylesheet False demo_page" by code_simp
  moreover obtain m where "find_attr False ''href'' demo_page = Some (m, ''a.css'')"
  proof
    show "find_attr False ''href'' demo_page =
      Some (''href='' @ [CHR 0x22] @ ''a.css'' @ [CHR 0x22], ''a.css'')" by code_simp
  qed
  moreover have "isRelativeRef ''a.css''" by code_simp
  ultimately have tag: "link_tag ?opn [] demo_page = ?css" by (simp add: link_tag_def assetPath_def)
  have "tag_len ''<link'' demo_page = Some (length demo_page)" by code_simp
  then have "ReplaceAllFunc (tag_len ''<link'') (link_tag ?opn []) demo_page = link_tag ?opn [] demo_page"
    by (cases demo_page) (auto simp: demo_page_def)
  moreover have "ReplaceAllFunc (\<lambda>s. map_option (snd \<circ> snd) (script_match s)) f ?css = ?css"
    "ReplaceAllFunc (tag_len ''<img'') g ?css = ?css" for f g
    by (rule ReplaceAllFunc_none, code_simp)+
  ultimately show ?thesis by (simp add: bundle_content_def tag)
qed

lemma demo_load:
  "NewWithCustomThemesFromPath Inr (\<lambda>e. []) [] (demo_machine secret) [''themes''] =
     Inr [(''a.html'', ''<style>b{}</style>'')]"
proof -
  let ?opn = "noSymlinkFS_Open (demo_machine secret) [''themes'']"
  note O = noSymlinkFS_Open_iff [OF demo_machine_dir demo_machine_links]
  have "?opn ''.'' = Inr (Dir demo_themes)" "?opn ''a.html'' = Inr (Reg demo_page)"
    unfolding O by (simp_all add: ValidPath_def path_elems_def demo_themes_def)
  moreover have "walk_tree ''.'' (Dir demo_themes) = [(''.'', True), (''a.css'', False), (''a.html'', False)]"
    by code_simp
  moreover have "os_Stat (demo_machine secret) [''themes''] = Inr (Dir demo_themes)"
    by (simp add: os_Stat_def demo_machine_def)
  moreover have "theme_dir ''a.html'' = []" "isThemeFile ''a.html'' False" "\<not> isThemeFile ''a.css'' False" by code_simp+
  ultimately show ?thesis
    by (simp add: NewWithCustomThemesFromPath_def noSymlinkFS_walk_def bundleHTML_def ReadFile_def demo_bundle
        isThemeFile_def [of _ True] del: walk_tree.simps)
qed

theorem theme_names_witness:
  "map_of [(''a.html'', ''<style>b{}</style>'')] ''a.html'' = Some ''<style>b{}</style>'' \<and>
   map_of [(''a.html'', ''<style>b{}</style>'')] ''c.css'' = None \<and>
   NewWithCustomThemesFromPath Inr (\<lambda>e. []) [] (demo_machine ''root:x'') [''themes''] =
     Inr [(''a.html'', ''<style>b{}</style>'')]"
proof -
  have wf: "wf_node (Dir demo_themes)" by (simp add: demo_themes_def name_ok_def)
  have e: "theme_New Inr [] = Inr ([] :: (string, string) gomap)" by (simp add: theme_New_def)
  note N = theme_names [OF demo_machine_dir demo_machine_links wf e demo_load]
  have "path_Ext ''c.css'' \<noteq> ''.html''" by code_simp
  then have "map_of [(''a.html'', ''<style>b{}</style>'')] ''c.css'' = None" using N [of "''c.css''"] by simp
  moreover have "theme_dir ''a.html'' = []" "path_Ext ''a.html'' = ''.html''" by code_simp+
  then have "map_of [(''a.html'', ''<style>b{}</style>'')] ''a.html'' = Some ''<style>b{}</style>''"
    using N [of "''a.html''"] demo_bundle by (simp add: ValidPath_def path_elems_def demo_themes_def)
  ultimately show ?thesis using demo_load by blast
qed

text \<open>
  A symbolic link to a directory is followed: only the last element of a name is checked, so a page
  can inline a file outside the theme directory.
\<close>

theorem directory_link_followed:
  "noSymlinkFS_Open (Dir [(''etc'', Dir [(''passwd'', Reg ''root:x'')]), (''themes'', Dir [(''sys'', Link [''etc''])])])
     [''themes''] ''sys/passwd'' = Inr (Reg ''root:x'')"
  by code_simp

end
