(* ===== verification/Label_Docs.thy ===== *)
theory Label_Docs
  imports Configuration Dependency
begin

text \<open>
  The label reference (\<open>internal/docsmd\<close>, \<open>internal/docsver\<close>, \<open>internal/labeldoc\<close> and
  \<open>cmd/labelsgen\<close>): the doc comments of the label constants are parsed into their description and
  their meta lines, and the page lists every label in an index and in a section of its own. The
  syntax tree is what \<open>go/parser\<close> returns, reduced to what the generator looks at, and
  \<open>strconv.Unquote\<close> is a parameter. A text is written by appending to it, so a function that writes
  is the text it appends. Text is taken to be ASCII.
\<close>

section \<open>Strings\<close>

abbreviation LF :: string where
  "LF \<equiv> [CHR 0x0A]"

definition has_prefix :: "string \<Rightarrow> string \<Rightarrow> bool" where
  "has_prefix s p = snd (CutPrefix s p)"

definition EqualFold :: "string \<Rightarrow> string \<Rightarrow> bool" where
  "EqualFold s t \<longleftrightarrow> ToLower s = ToLower t"

definition TrimLeft :: "string \<Rightarrow> string \<Rightarrow> string" where
  "TrimLeft s cutset = dropWhile (\<lambda>c. c \<in> set cutset) s"

text \<open>\<open>strings.Fields\<close>: the words between white space.\<close>

fun fields_from :: "string \<Rightarrow> string \<Rightarrow> string list" where
  "fields_from w [] = (if w = [] then [] else [w])"
| "fields_from w (c # s) =
     (if is_space c then (if w = [] then fields_from [] s else w # fields_from [] s)
      else fields_from (w @ [c]) s)"

definition Fields :: "string \<Rightarrow> string list" where
  "Fields s = fields_from [] s"

section \<open>Markdown\<close>

definition abbreviations :: "string list" where
  "abbreviations = [''e.g'', ''i.e'', ''etc'', ''vs'']"

definition last_word :: "string \<Rightarrow> string" where
  "last_word s =
     (let fields = Fields s
      in if fields = [] then [] else TrimLeft (List.last fields) [CHR ''('', CHR ''['', CHR 0x22, CHR 0x27])"

text \<open>The loop over the positions: the text before the position and the rest.\<close>

fun sentence_from :: "string \<Rightarrow> string \<Rightarrow> string" where
  "sentence_from pre (c # d # s) =
     (if c = CHR ''.'' \<and> d = CHR '' '' \<and> \<not> list_ex (EqualFold (last_word pre)) abbreviations then pre @ [c]
      else sentence_from (pre @ [c]) (d # s))"
| "sentence_from pre s = pre @ s"

definition FirstSentence :: "string \<Rightarrow> string" where
  "FirstSentence s = sentence_from [] (ReplaceAll s (CHR 0x0A) (CHR '' ''))"

definition EscapePipe :: "string \<Rightarrow> string" where
  "EscapePipe s = concat (map (\<lambda>c. if c = CHR ''|'' then [CHR 0x5C, CHR ''|''] else [c]) s)"

section \<open>Versions\<close>

definition NextRelease :: string where
  "NextRelease = ''NEXT_RELEASE''"

definition releaseBaseURL :: string where
  "releaseBaseURL = ''https://github.com/sablierapp/sablier/releases/tag/''"

definition Display :: "string \<Rightarrow> string \<times> string" where
  "Display v =
     (if v = [] then ([], [])
      else if v = NextRelease then (''Next release'', [])
      else if has_prefix v ''v'' then (v, releaseBaseURL @ v)
      else (v, []))"

definition SinceBadge :: "string \<Rightarrow> string" where
  "SinceBadge v =
     (let (label, link) = Display v
      in if label = [] then []
         else let content = (if v = NextRelease then label else ''Since '' @ label)
              in if link \<noteq> []
                 then ''{{< badge content='' @ quoted content @ '' link='' @ quoted link @ '' >}}''
                 else ''{{< badge content='' @ quoted content @ '' >}}'')"

section \<open>Labels in the source\<close>

record Label =
  la_Const :: string
  la_Name :: string
  la_Description :: string
  la_Type :: string
  la_Default :: string
  la_Example :: string
  la_Required :: bool
  la_Since :: string
  la_Feature :: string
  la_Providers :: string

definition fieldKeys :: "string list" where
  "fieldKeys = [''type'', ''default'', ''example'', ''required'', ''since'', ''feature'', ''providers'']"

text \<open>The text before and after the first colon that a space follows.\<close>

fun cut_colon :: "string \<Rightarrow> (string \<times> string) option" where
  "cut_colon (c # d # s) =
     (if c = CHR '':'' \<and> d = CHR '' '' then Some ([], s)
      else map_option (\<lambda>(k, v). (c # k, v)) (cut_colon (d # s)))"
| "cut_colon _ = None"

definition splitField :: "string \<Rightarrow> (string \<times> string) option" where
  "splitField line =
     (case cut_colon line of
        Some (key, v) \<Rightarrow> if key \<noteq> [] \<and> key \<in> set fieldKeys then Some (key, TrimSpace v) else None
      | None \<Rightarrow> None)"

definition finalizeDescription :: "string \<Rightarrow> string \<Rightarrow> string" where
  "finalizeDescription constName s =
     (let s = TrimSpace (TrimPrefix (TrimSpace s) constName);
          s = (if has_prefix s ''is '' then TrimPrefix s ''is ''
               else if has_prefix s ''are '' then TrimPrefix s ''are '' else s)
      in case s of [] \<Rightarrow> [] | r # rs \<Rightarrow> upper_char r # rs)"

text \<open>The loop over the lines: the fields, where an absent one reads as empty, the description and the current key.\<close>

type_synonym doc_state = "(string \<Rightarrow> string) \<times> string list \<times> string"

definition decode_line :: "doc_state \<Rightarrow> string \<Rightarrow> doc_state" where
  "decode_line st raw =
     (let (fields, desc, curKey) = st; line = TrimSpace raw
      in if line = [] then (fields, desc, [])
         else case splitField line of
                Some (key, v) \<Rightarrow> (fields(key := v), desc, key)
              | None \<Rightarrow>
                  if curKey \<noteq> [] then (fields(curKey := TrimSpace (fields curKey @ '' '' @ line)), desc, curKey)
                  else (fields, desc @ [line], curKey))"

definition decodeDoc :: "Label \<Rightarrow> string \<Rightarrow> Label" where
  "decodeDoc l doc =
     (let (fields, desc, curKey) = foldl decode_line (\<lambda>_. [], [], []) (Split (CHR 0x0A) doc)
      in l\<lparr>la_Type := fields ''type'', la_Default := fields ''default'', la_Example := fields ''example'',
           la_Since := fields ''since'', la_Feature := fields ''feature'', la_Providers := fields ''providers'',
           la_Required := EqualFold (fields ''required'') ''true'',
           la_Description := finalizeDescription (la_Const l) (Join desc '' '')\<rparr>)"

text \<open>Declarations: a group of constants with its specifications, or anything else.\<close>

datatype ast_expr = StringLit string | OtherExpr

record ValueSpec =
  vs_Names :: "string list"
  vs_Values :: "ast_expr list"
  vs_Doc :: string

datatype ast_decl = ConstDecl "ValueSpec list" | OtherDecl

definition NewLabel :: "string \<Rightarrow> string \<Rightarrow> Label" where
  "NewLabel c n = \<lparr>la_Const = c, la_Name = n, la_Description = [], la_Type = [], la_Default = [], la_Example = [],
     la_Required = False, la_Since = [], la_Feature = [], la_Providers = []\<rparr>"

definition parse_spec :: "(string \<Rightarrow> string option) \<Rightarrow> ValueSpec \<Rightarrow> Label list" where
  "parse_spec unquote vs =
     (case (vs_Names vs, vs_Values vs) of
        ([name], [StringLit lit]) \<Rightarrow>
          (case unquote lit of
             Some v \<Rightarrow> if has_prefix v ''sablier.'' then [decodeDoc (NewLabel name v) (vs_Doc vs)] else []
           | None \<Rightarrow> [])
      | _ \<Rightarrow> [])"

definition parse_decl :: "(string \<Rightarrow> string option) \<Rightarrow> ast_decl \<Rightarrow> Label list" where
  "parse_decl unquote d = (case d of ConstDecl specs \<Rightarrow> concat (map (parse_spec unquote) specs) | OtherDecl \<Rightarrow> [])"

definition labeldoc_Parse :: "(string \<Rightarrow> string option) \<Rightarrow> 'e + ast_decl list \<Rightarrow> 'e + Label list" where
  "labeldoc_Parse unquote f =
     (case f of Inl err \<Rightarrow> Inl err | Inr decls \<Rightarrow> Inr (concat (map (parse_decl unquote) decls)))"

section \<open>The page\<close>

definition anchor :: "string \<Rightarrow> string" where
  "anchor name = ''label-'' @ ReplaceAll name (CHR ''.'') (CHR ''-'')"

definition index_row :: "string \<Rightarrow> string \<Rightarrow> string \<Rightarrow> string" where
  "index_row name link description =
     ''| [`'' @ name @ ''`](#'' @ link @ '') | '' @ EscapePipe (FirstSentence description) @ '' |'' @ LF"

definition writeIndex :: "Label list \<Rightarrow> string" where
  "writeIndex labels =
     ''## Labels {#labels}'' @ LF @ LF @ ''| Label | Description |'' @ LF @ ''|-------|-------------|'' @ LF @
     concat (map (\<lambda>l. index_row (la_Name l) (anchor (la_Name l)) (la_Description l)) labels) @ LF"

definition label_badges :: "Label \<Rightarrow> string list" where
  "label_badges l =
     (if la_Type l \<noteq> [] then [''{{< badge '' @ quoted (la_Type l) @ '' >}}''] else []) @
     (if la_Default l \<noteq> [] then [''{{< badge content='' @ quoted (''Default: '' @ la_Default l) @ '' >}}''] else []) @
     (if la_Required l then [''{{< badge content='' @ quoted ''Required'' @ '' >}}''] else []) @
     (if SinceBadge (la_Since l) \<noteq> [] then [SinceBadge (la_Since l)] else [])"

definition writeLabel :: "Label \<Rightarrow> string" where
  "writeLabel l =
     ''### `'' @ la_Name l @ ''` {#'' @ anchor (la_Name l) @ ''}'' @ LF @ LF @
     (if la_Description l \<noteq> [] then la_Description l @ LF @ LF else []) @
     (if label_badges l \<noteq> [] then Join (label_badges l) '' '' @ LF @ LF else []) @
     (if la_Example l \<noteq> [] then ''Example: `'' @ la_Example l @ ''`'' @ LF @ LF else []) @
     (if la_Providers l \<noteq> []
      then ''{{< callout type='' @ quoted ''info'' @ '' >}}'' @ LF @ la_Providers l @ LF @ ''{{< /callout >}}'' @ LF @ LF
      else []) @
     (if la_Feature l \<noteq> [] then ''[Learn more]('' @ la_Feature l @ '')'' @ LF @ LF else [])"

definition doc_lines :: "string list \<Rightarrow> string" where
  "doc_lines ls = concat (map (\<lambda>l. l @ LF) ls)"

definition writeFrontMatter :: string where
  "writeFrontMatter = doc_lines
     [''---'',
      ''title: Label reference'',
      ''weight: 312'',
      ''---'',
      [],
      ''<!-- Code generated by cmd/labelsgen (\"go generate ./...\"); DO NOT EDIT. -->'',
      ''<!-- Regenerate with `make labels-docs` after changing pkg/sablier/labels.go. -->'',
      []]"

definition writeIntro :: string where
  "writeIntro = doc_lines
     [''Sablier discovers and manages your workloads through these `sablier.*` labels. Each label is documented below with its type, the version it was introduced in, and any provider-specific behaviour. See the [compatibility matrix](/reference/compatibility/) for an at-a-glance provider grid.'',
      []]"

definition writeApplying :: string where
  "writeApplying = doc_lines
     [''## Applying labels {#applying-labels}'',
      [],
      ''Attach the labels to the workload Sablier should manage. The mechanism differs per provider; the per-label notes below call out any provider-specific form.'',
      [],
      ''{{< tabs >}}'',
      ''{{< tab name=\"Docker\" >}}'',
      ''```yaml'',
      ''services:'',
      ''  whoami:'',
      ''    image: containous/whoami'',
      ''    labels:'',
      ''      sablier.enable: \"true\"'',
      ''      sablier.group: \"my-group\"'',
      ''```'',
      ''{{< /tab >}}'',
      ''{{< tab name=\"Docker Swarm\" >}}'',
      ''```yaml'',
      ''services:'',
      ''  whoami:'',
      ''    image: containous/whoami'',
      ''    deploy:'',
      ''      labels:'',
      ''        sablier.enable: \"true\"'',
      ''        sablier.group: \"my-group\"'',
      ''```'',
      ''{{< /tab >}}'',
      ''{{< tab name=\"Kubernetes\" >}}'',
      ''```yaml'',
      ''metadata:'',
      ''  labels:'',
      ''    sablierapp.dev/enable: \"true\"      # discovery uses a label selector'',
      ''  annotations:'',
      ''    sablierapp.dev/group: \"my-group\"   # all other settings are annotations'',
      ''```'',
      [],
      ''On Kubernetes, replace the `sablier.` prefix with `sablierapp.dev/`. For example, `sablier.idle.replicas` becomes `sablierapp.dev/idle.replicas`. The legacy `sablier.*` keys continue to work, but they are deprecated.'',
      ''{{< /tab >}}'',
      ''{{< tab name=\"Proxmox LXC\" >}}'',
      ''```bash'',
      ''# Proxmox has no key/value labels, so Sablier reads container tags:'',
      ''sablier                 # enables management (sablier.enable=true)'',
      ''sablier-group-my-group  # one tag per group'',
      ''```'',
      ''{{< /tab >}}'',
      ''{{< tab name=\"Systemd\" >}}'',
      ''```ini'',
      ''# systemd has no labels; Sablier reads the [X-Sablier] unit file section:'',
      ''[Unit]'',
      ''Description=my app'',
      [],
      ''[Service]'',
      ''ExecStart=/usr/bin/myapp'',
      [],
      ''[X-Sablier]'',
      ''Enable=true'',
      ''Group=my-group'',
      ''```'',
      ''{{< /tab >}}'',
      ''{{< /tabs >}}'',
      []]"

definition label_page :: "Label list \<Rightarrow> string" where
  "label_page labels =
     writeFrontMatter @ writeIntro @ writeApplying @ writeIndex labels @ concat (map writeLabel labels)"

text \<open>The command: it ends with an error when there is nothing to document.\<close>

datatype 'e gen_result = GenParseError 'e | GenNoLabels | Written string

definition labelsgen_main :: "(string \<Rightarrow> string option) \<Rightarrow> 'e + ast_decl list \<Rightarrow> 'e gen_result" where
  "labelsgen_main unquote f =
     (case labeldoc_Parse unquote f of
        Inl err \<Rightarrow> GenParseError err
      | Inr labels \<Rightarrow> if labels = [] then GenNoLabels else Written (label_page labels))"

section \<open>Rows of a table\<close>

lemma sentence_from_prefix: "\<exists>t. pre @ s = sentence_from pre s @ t \<and> (t = [] \<or> (\<exists>p u. sentence_from pre s = p @ ''.'' \<and> t = CHR '' '' # u))"
proof (induction pre s rule: sentence_from.induct)
  case (1 pre c d s)
  then show ?case by (cases "c = CHR ''.'' \<and> d = CHR '' '' \<and> \<not> list_ex (EqualFold (last_word pre)) abbreviations") auto
qed auto

text \<open>The first sentence is a beginning of the text, on one line; where it is cut, it ends in a period and a space follows.\<close>

lemma FirstSentence_cut:
  obtains t where "ReplaceAll s (CHR 0x0A) (CHR '' '') = FirstSentence s @ t"
    "t = [] \<or> last (FirstSentence s) = CHR ''.'' \<and> hd t = CHR '' ''"
  using sentence_from_prefix [of "[]" "ReplaceAll s (CHR 0x0A) (CHR '' '')"] by (fastforce simp: FirstSentence_def)

lemma FirstSentence_one_line: "CHR 0x0A \<notin> set (FirstSentence s)"
proof -
  obtain t where "ReplaceAll s (CHR 0x0A) (CHR '' '') = FirstSentence s @ t" by (rule FirstSentence_cut)
  then have "set (FirstSentence s) \<subseteq> set (ReplaceAll s (CHR 0x0A) (CHR '' ''))" by simp
  then show ?thesis by (auto simp: ReplaceAll_def)
qed

text \<open>The cells of a row: a pipe that no backslash precedes ends a cell.\<close>

fun bars :: "char \<Rightarrow> string \<Rightarrow> nat" where
  "bars p [] = 0"
| "bars p (c # s) = (if c = CHR ''|'' \<and> p \<noteq> CHR 0x5C then 1 else 0) + bars c s"

lemma bars_append: "bars p (s @ t) = bars p s + bars (if s = [] then p else last s) t"
  by (induction s arbitrary: p) auto

lemma bars_EscapePipe: "bars p (EscapePipe s) = 0"
  by (induction s arbitrary: p) (auto simp: EscapePipe_def)

lemma bars_no_pipe: "CHR ''|'' \<notin> set s \<Longrightarrow> bars p s = 0"
  by (induction s arbitrary: p) auto

lemma EscapePipe_lines: "CHR 0x0A \<notin> set s \<Longrightarrow> CHR 0x0A \<notin> set (EscapePipe s)"
  by (auto simp: EscapePipe_def)

text \<open>A row of an index is one line with two cells, whatever the description holds.\<close>

lemma index_row_cells:
  assumes "{CHR ''|'', CHR 0x0A} \<inter> (set name \<union> set link) = {}"
  shows "bars (CHR 0x0A) (index_row name link description) = 3"
    "count_list (index_row name link description) (CHR 0x0A) = 1"
proof -
  have n: "bars p name = 0" "bars p link = 0" for p using assms by (auto intro: bars_no_pipe)
  show "bars (CHR 0x0A) (index_row name link description) = 3"
    by (simp add: index_row_def bars_append bars_EscapePipe n)
  have "CHR 0x0A \<notin> set (EscapePipe (FirstSentence description))"
    by (rule EscapePipe_lines) (rule FirstSentence_one_line)
  then show "count_list (index_row name link description) (CHR 0x0A) = 1"
    using assms by (auto simp: index_row_def count_list_0_iff)
qed

section \<open>Comments and labels\<close>

text \<open>The convention for the doc comment of a label: the description after the name of the constant, then the meta lines.\<close>

definition label_meta :: "Label \<Rightarrow> (string \<times> string) list" where
  "label_meta l =
     [(''type'', la_Type l), (''default'', la_Default l), (''example'', la_Example l),
      (''required'', if la_Required l then ''true'' else []), (''since'', la_Since l),
      (''feature'', la_Feature l), (''providers'', la_Providers l)]"

definition meta_line :: "string \<times> string \<Rightarrow> string" where
  "meta_line kv = fst kv @ '': '' @ snd kv"

definition doc_comment :: "Label \<Rightarrow> string" where
  "doc_comment l =
     doc_lines ([la_Const l @ '' '' @ la_Description l, []] @
       map meta_line (filter (\<lambda>(k, v). v \<noteq> []) (label_meta l)))"

text \<open>A text on one line without white space around it.\<close>

definition tidy :: "string \<Rightarrow> bool" where
  "tidy s \<longleftrightarrow> TrimSpace s = s \<and> CHR 0x0A \<notin> set s"

definition documented :: "Label \<Rightarrow> bool" where
  "documented l \<longleftrightarrow>
     la_Const l \<noteq> [] \<and> (\<forall>c \<in> set (la_Const l). \<not> is_space c \<and> c \<noteq> CHR '':'') \<and>
     la_Description l \<noteq> [] \<and> tidy (la_Description l) \<and>
     upper_char (hd (la_Description l)) = hd (la_Description l) \<and>
     (\<forall>(k, v) \<in> set (label_meta l). tidy v)"

lemma Split_doc_lines: "\<forall>l \<in> set ls. CHR 0x0A \<notin> set l \<Longrightarrow> Split (CHR 0x0A) (doc_lines ls) = ls @ [[]]"
  by (induction ls) (simp_all add: doc_lines_def Split_append_sep)

lemma tidy_ends: "tidy s \<Longrightarrow> s \<noteq> [] \<Longrightarrow> \<not> is_space (hd s) \<and> \<not> is_space (last s)"
  using TrimSpace_ends [of s] by (simp add: tidy_def)

lemma TrimSpace_ends_id: "s \<noteq> [] \<Longrightarrow> \<not> is_space (hd s) \<Longrightarrow> \<not> is_space (last s) \<Longrightarrow> TrimSpace s = s"
  by (rule TrimSpace_id) simp

lemma cut_colon_key: "CHR '':'' \<notin> set k \<Longrightarrow> cut_colon (k @ CHR '':'' # CHR '' '' # v) = Some (k, v)"
proof (induction k)
  case (Cons c k)
  then show ?case by (cases k) auto
qed simp

lemma cut_colon_word: "CHR '':'' \<notin> set w \<Longrightarrow> cut_colon (w @ CHR '' '' # s) = Some (k, v) \<Longrightarrow> CHR '' '' \<in> set k"
proof (induction w arbitrary: k v)
  case Nil
  then show ?case by (cases s) auto
next
  case (Cons c w)
  then show ?case by (cases w) auto
qed

lemma fieldKeys_shape:
  assumes "k \<in> set fieldKeys"
  shows "k \<noteq> []" "CHR '':'' \<notin> set k" "CHR '' '' \<notin> set k" "\<not> is_space (hd k)" "CHR 0x0A \<notin> set k"
  using assms by (auto simp: fieldKeys_def is_space_def)

lemma decode_blank: "decode_line (f, d, c) [] = (f, d, [])"
  by (simp add: decode_line_def)

lemma meta_one_line: "k \<in> set fieldKeys \<Longrightarrow> tidy v \<Longrightarrow> CHR 0x0A \<notin> set (meta_line (k, v))"
  using fieldKeys_shape(5) by (auto simp: meta_line_def tidy_def)

lemma decode_meta:
  assumes "k \<in> set fieldKeys" and "v \<noteq> []" and "tidy v"
  shows "decode_line (f, d, c) (meta_line (k, v)) = (f(k := v), d, k)"
proof -
  have "TrimSpace (meta_line (k, v)) = meta_line (k, v)"
    using fieldKeys_shape [OF assms(1)] tidy_ends [OF assms(3,2)] assms(2)
    by (intro TrimSpace_ends_id) (auto simp: meta_line_def)
  moreover have "splitField (meta_line (k, v)) = Some (k, v)"
    using fieldKeys_shape [OF assms(1)] cut_colon_key [of k v] assms by (simp add: splitField_def meta_line_def tidy_def)
  moreover have "meta_line (k, v) \<noteq> []" by (simp add: meta_line_def)
  ultimately show ?thesis by (simp add: decode_line_def)
qed

lemma decode_metas:
  "\<forall>(k, v) \<in> set kvs. k \<in> set fieldKeys \<and> v \<noteq> [] \<and> tidy v \<Longrightarrow> distinct (map fst kvs) \<Longrightarrow>
   \<exists>c'. foldl decode_line (f, d, c) (map meta_line kvs) =
     (\<lambda>k. case map_of kvs k of None \<Rightarrow> f k | Some v \<Rightarrow> v, d, c')"
proof (induction kvs arbitrary: f c)
  case (Cons kv kvs)
  obtain k v where kv: "kv = (k, v)" by (cases kv)
  have "\<exists>c'. foldl decode_line (f(k := v), d, k) (map meta_line kvs) =
      (\<lambda>x. case map_of kvs x of None \<Rightarrow> (f(k := v)) x | Some y \<Rightarrow> y, d, c')"
    by (rule Cons.IH) (use Cons.prems in auto)
  moreover have "map_of kvs k = None" using Cons.prems(2) by (simp add: kv map_of_eq_None_iff)
  ultimately show ?case
    using Cons.prems(1) decode_meta [of k v f d c] by (auto simp: kv fun_eq_iff split: option.splits)
qed auto

lemma map_of_nonempty:
  "distinct (map fst kvs) \<Longrightarrow>
   (case map_of (filter (\<lambda>(k, v). v \<noteq> []) kvs) k of None \<Rightarrow> [] | Some v \<Rightarrow> v) = (case map_of kvs k of None \<Rightarrow> [] | Some v \<Rightarrow> v)"
proof (induction kvs)
  case (Cons kv kvs)
  then have "map_of (filter (\<lambda>(k, v). v \<noteq> []) kvs) (fst kv) = None" "map_of kvs (fst kv) = None"
    by (auto simp: map_of_eq_None_iff)
  then show ?case using Cons by (cases "fst kv = k") (auto split: option.splits)
qed simp

lemma lower_case_changed: "upper_char (CHR ''i'') \<noteq> CHR ''i''" "upper_char (CHR ''a'') \<noteq> CHR ''a''"
  by code_simp+

lemma decode_description:
  assumes "documented l"
  shows "decode_line (f, [], []) (la_Const l @ '' '' @ la_Description l) = (f, [la_Const l @ '' '' @ la_Description l], [])"
    "finalizeDescription (la_Const l) (la_Const l @ '' '' @ la_Description l) = la_Description l"
proof -
  let ?line = "la_Const l @ '' '' @ la_Description l"
  have c: "la_Const l \<noteq> []" "\<not> is_space (hd (la_Const l))" "CHR '':'' \<notin> set (la_Const l)"
    and d: "la_Description l \<noteq> []" "tidy (la_Description l)" "upper_char (hd (la_Description l)) = hd (la_Description l)"
    using assms by (auto simp: documented_def)
  have t: "TrimSpace ?line = ?line"
    using c d tidy_ends [OF d(2,1)] by (intro TrimSpace_ends_id) auto
  have "splitField ?line = None"
    using cut_colon_word [OF c(3), of "la_Description l"] fieldKeys_shape(3)
    by (fastforce simp: splitField_def split: option.splits)
  then show "decode_line (f, [], []) ?line = (f, [?line], [])" using t c by (simp add: decode_line_def)
  have "TrimSpace (CHR '' '' # la_Description l) = la_Description l"
    using d by (simp add: TrimSpace_def is_space_def tidy_def)
  moreover have "hd (la_Description l) \<noteq> CHR ''i''" "hd (la_Description l) \<noteq> CHR ''a''"
    using d(3) lower_case_changed by auto
  ultimately show "finalizeDescription (la_Const l) ?line = la_Description l"
    using d t by (cases "la_Description l") (auto simp: finalizeDescription_def TrimPrefix_def CutPrefix_def has_prefix_def)
qed

text \<open>
  The label reference says what the comments say. A label that is documented as the convention
  asks, with its description after the name of the constant and a meta line for each value that is
  set, is read back whole, description, meta lines and all.
\<close>

theorem label_docs_roundtrip:
  assumes "documented l"
  shows "decodeDoc (NewLabel (la_Const l) (la_Name l)) (doc_comment l) = l"
proof -
  let ?metas = "filter (\<lambda>(k, v). v \<noteq> []) (label_meta l)"
  let ?line = "la_Const l @ '' '' @ la_Description l"
  have keys: "distinct (map fst (label_meta l))" "\<forall>(k, v) \<in> set (label_meta l). k \<in> set fieldKeys \<and> tidy v"
    using assms by (auto simp: label_meta_def fieldKeys_def documented_def)
  have "\<forall>s \<in> set ([?line, []] @ map meta_line ?metas). CHR 0x0A \<notin> set s"
    using assms meta_one_line keys(2) by (auto simp: documented_def tidy_def is_space_def)
  then have split: "Split (CHR 0x0A) (doc_comment l) = [?line, []] @ map meta_line ?metas @ [[]]"
    unfolding doc_comment_def by (subst Split_doc_lines) auto
  have "distinct (map fst ?metas)" using keys(1) by (rule distinct_map_filter)
  moreover have "\<forall>(k, v) \<in> set ?metas. k \<in> set fieldKeys \<and> v \<noteq> [] \<and> tidy v" using keys(2) by auto
  ultimately obtain c where "foldl decode_line (\<lambda>_. [], [?line], []) (map meta_line ?metas) =
      (\<lambda>k. case map_of ?metas k of None \<Rightarrow> [] | Some v \<Rightarrow> v, [?line], c)"
    using decode_metas [of ?metas "\<lambda>_. []" "[?line]" "[]"] by blast
  then have "foldl decode_line (\<lambda>_. [], [], []) (Split (CHR 0x0A) (doc_comment l)) =
      (\<lambda>k. case map_of (label_meta l) k of None \<Rightarrow> [] | Some v \<Rightarrow> v, [?line], [])"
    unfolding split map_of_nonempty [OF keys(1)]
    using decode_description(1) [OF assms] by (simp add: decode_blank)
  then show ?thesis
    using decode_description(2) [OF assms]
    by (simp add: decodeDoc_def label_meta_def NewLabel_def EqualFold_def ToLower_def)
qed

definition demo_label :: Label where
  "demo_label =
     (NewLabel ''LabelIdleCPU'' ''sablier.idle.cpu'')
       \<lparr>la_Description := ''Sets the CPU limit while idle. Values like e.g. 0.5 | 1.'', la_Type := ''number'',
        la_Example := ''0.5'', la_Required := True, la_Since := ''v1.13.0''\<rparr>"

lemma demo_label_documented: "documented demo_label"
  by code_simp

theorem label_docs_roundtrip_witness:
  "decodeDoc (NewLabel ''LabelIdleCPU'' ''sablier.idle.cpu'') (doc_comment demo_label) = demo_label"
  using label_docs_roundtrip [OF demo_label_documented] by (simp add: demo_label_def NewLabel_def)

end
