(* ===== verification/Cli_Docs.thy ===== *)
theory Cli_Docs
  imports Label_Docs "HOL-Library.Sublist" "HOL-Library.List_Lexorder" "HOL-Library.Char_ord"
begin

text \<open>
  The reference of the command line (\<open>internal/configdoc\<close> and \<open>cmd/docgen\<close>): the versions read from
  the comments of \<open>pkg/config\<close>, and the page with a section for every flag. A flag is what pflag
  knows of it (its name, usage, the name of its type, the text of its default, whether it is hidden)
  and a command what cobra knows of it; the comments of the fields are the ones \<open>go/parser\<close> finds.
\<close>

section \<open>Versions of the options\<close>

definition meta_step :: "string \<times> string \<Rightarrow> string \<Rightarrow> string \<times> string" where
  "meta_step st raw =
     (let (cli, since) = st; line = TrimSpace raw
      in if has_prefix line ''CLI:'' then (TrimSpace (TrimPrefix line ''CLI:''), since)
         else if has_prefix line ''Since:'' then (cli, TrimSpace (TrimPrefix line ''Since:''))
         else (cli, since))"

definition docMeta :: "string \<Rightarrow> string \<times> string" where
  "docMeta doc = foldl meta_step ([], []) (Split (CHR 0x0A) doc)"

text \<open>The fields of a file in the order of the inspection; a field may have no comment.\<close>

definition since_field :: "(string \<Rightarrow> string) \<Rightarrow> string option \<Rightarrow> string \<Rightarrow> string" where
  "since_field out d =
     (case d of
        None \<Rightarrow> out
      | Some doc \<Rightarrow>
          (let (cli, since) = docMeta doc
           in if cli \<noteq> [] \<and> since \<noteq> [] then out(TrimPrefix cli ''--'' := since) else out))"

record 'e dir_entry =
  de_Name :: string
  de_IsDir :: bool
  de_Parsed :: "'e + string option list"

definition has_suffix :: "string \<Rightarrow> string \<Rightarrow> bool" where
  "has_suffix s p = has_prefix (rev s) (rev p)"

fun since_files :: "(string \<Rightarrow> string) \<Rightarrow> 'e dir_entry list \<Rightarrow> 'e + (string \<Rightarrow> string)" where
  "since_files out [] = Inr out"
| "since_files out (entry # es) =
     (if de_IsDir entry \<or> \<not> has_suffix (de_Name entry) ''.go'' \<or> has_suffix (de_Name entry) ''_test.go''
      then since_files out es
      else case de_Parsed entry of
             Inl err \<Rightarrow> Inl err
           | Inr docs \<Rightarrow> since_files (foldl since_field out docs) es)"

definition SinceByFlag :: "'e + 'e dir_entry list \<Rightarrow> 'e + (string \<Rightarrow> string)" where
  "SinceByFlag dir = (case dir of Inl err \<Rightarrow> Inl err | Inr entries \<Rightarrow> since_files (\<lambda>_. []) entries)"

section \<open>Options\<close>

record pflag =
  pf_Name :: string
  pf_Usage :: string
  pf_Type :: string
  pf_DefValue :: string
  pf_Hidden :: bool

record cli_option =
  co_name :: string
  co_usage :: string
  co_typ :: string
  co_def :: string
  co_since :: string
  co_enum :: "string list"
  co_envimpl :: bool

definition categoryOrder :: "string list" where
  "categoryOrder =
     [''General'', ''Logging'', ''Provider'', ''Server'', ''Sessions'', ''Storage'', ''Strategy'', ''Tracing'']"

definition enumValues :: "string \<Rightarrow> string list" where
  "enumValues n =
     (if n = ''provider.name'' then providers
      else if n = ''provider.docker.strategy'' then dockerStrategies
      else if n = ''logging.level'' then [''error'', ''warn'', ''info'', ''debug'']
      else if n = ''tracing.exporter-type'' then [''otlphttp'', ''stdout''] else [])"

definition typeLabel :: "string \<Rightarrow> string" where
  "typeLabel t =
     (if t = ''string'' then ''string''
      else if t \<in> {''int'', ''int32'', ''int64''} then ''integer''
      else if t \<in> {''float'', ''float32'', ''float64''} then ''number''
      else if t = ''bool'' then ''boolean''
      else if t = ''duration'' then ''duration'' else t)"

definition exampleValue :: "string \<Rightarrow> string \<Rightarrow> string" where
  "exampleValue def label = (if def \<noteq> [] then def else ''<'' @ label @ ''>'')"

definition newOption :: "(string \<Rightarrow> string) \<Rightarrow> pflag \<Rightarrow> cli_option" where
  "newOption sinceByFlag f =
     \<lparr>co_name = pf_Name f, co_usage = TrimSpace (pf_Usage f), co_typ = typeLabel (pf_Type f), co_def = pf_DefValue f,
      co_since = sinceByFlag (pf_Name f), co_enum = enumValues (pf_Name f), co_envimpl = CHR ''.'' \<in> set (pf_Name f)\<rparr>"

definition categoryOf :: "string \<Rightarrow> string" where
  "categoryOf name =
     (let seg = hd (Split (CHR ''.'') name) in
      if seg = ''logging'' then ''Logging'' else if seg = ''provider'' then ''Provider''
      else if seg = ''server'' then ''Server'' else if seg = ''sessions'' then ''Sessions''
      else if seg = ''storage'' then ''Storage'' else if seg = ''strategy'' then ''Strategy''
      else if seg = ''tracing'' then ''Tracing'' else ''General'')"

definition optAnchor :: "string \<Rightarrow> string" where
  "optAnchor name = ToLower (''opt-'' @ ReplaceAll name (CHR ''.'') (CHR ''-''))"

definition docgen_envVar :: "string \<Rightarrow> string" where
  "docgen_envVar name =
     (let s = ToUpper name; s = ReplaceAll s (CHR ''-'') (CHR ''_''); s = ReplaceAll s (CHR ''.'') (CHR ''_'')
      in ''SABLIER_'' @ s)"

text \<open>The segments from the given depth on, the last with the value.\<close>

fun yaml_from :: "nat \<Rightarrow> string list \<Rightarrow> string \<Rightarrow> string" where
  "yaml_from i [] v = []"
| "yaml_from i (p # ps) v =
     concat (replicate i ''  '') @ p @ (if ps = [] then '': '' @ v @ LF else '':'' @ LF) @ yaml_from (Suc i) ps v"

definition nestedYAML :: "string \<Rightarrow> string \<Rightarrow> string" where
  "nestedYAML name v = yaml_from 0 (Split (CHR ''.'') name) v"

section \<open>Sections\<close>

definition option_badges :: "cli_option \<Rightarrow> string list" where
  "option_badges o' =
     [''{{< badge '' @ quoted (co_typ o') @ '' >}}''] @
     (if co_def o' \<noteq> [] then [''{{< badge content='' @ quoted (''Default: '' @ co_def o') @ '' >}}''] else []) @
     (if SinceBadge (co_since o') \<noteq> [] then [SinceBadge (co_since o')] else [])"

definition env_form :: "string \<Rightarrow> string \<Rightarrow> string" where
  "env_form name v = docgen_envVar name @ ''='' @ v @ LF"

definition flag_form :: "string \<Rightarrow> string \<Rightarrow> string" where
  "flag_form name v = ''--'' @ name @ ''='' @ v @ LF"

definition set_forms :: "cli_option \<Rightarrow> string \<Rightarrow> string" where
  "set_forms o' v =
     (if co_envimpl o' then
        ''```yaml'' @ LF @ ''# sablier.yaml'' @ LF @ nestedYAML (co_name o') v @ ''```'' @ LF @ LF @
        ''```bash'' @ LF @ ''# Environment variable'' @ LF @ env_form (co_name o') v @ LF @
        ''# Command-line flag'' @ LF @ flag_form (co_name o') v @ ''```'' @ LF @ LF
      else ''```bash'' @ LF @ ''# Command-line flag'' @ LF @ flag_form (co_name o') v @ ''```'' @ LF @ LF)"

definition writeOption :: "cli_option \<Rightarrow> string" where
  "writeOption o' =
     (let v = exampleValue (co_def o') (co_typ o') in
      ''### `--'' @ co_name o' @ ''` {#'' @ optAnchor (co_name o') @ ''}'' @ LF @ LF @
      (if co_usage o' \<noteq> [] then co_usage o' @ LF @ LF else []) @
      Join (option_badges o') '' '' @ LF @ LF @
      (if co_enum o' \<noteq> []
       then ''Accepted values:'' @ LF @ LF @ concat (map (\<lambda>x. ''- `'' @ x @ ''`'' @ LF) (co_enum o')) @ LF else []) @
      set_forms o' v)"

definition writeCategory :: "string \<Rightarrow> cli_option list \<Rightarrow> string" where
  "writeCategory cat opts =
     ''## '' @ cat @ '' {#category-'' @ ToLower cat @ ''}'' @ LF @ LF @
     ''| Option | Description |'' @ LF @ ''|--------|-------------|'' @ LF @
     concat (map (\<lambda>o'. index_row (''--'' @ co_name o') (optAnchor (co_name o')) (co_usage o')) opts) @ LF @
     concat (map writeOption opts)"

record command =
  cm_Name :: string
  cm_CommandPath :: string
  cm_Short :: string
  cm_Available :: bool
  cm_LocalFlags :: "pflag list"

definition write_command :: "(string \<Rightarrow> string) \<Rightarrow> command option \<Rightarrow> command \<Rightarrow> string" where
  "write_command sinceByFlag startCmd c =
     (if \<not> cm_Available c \<or> cm_Name c = ''help'' then []
      else ''### `'' @ cm_CommandPath c @ ''` {#command-'' @ cm_Name c @ ''}'' @ LF @ LF @
        (if cm_Short c \<noteq> [] then cm_Short c @ LF @ LF else []) @
        (if startCmd = Some c then ''Every option in the sections below configures this command.'' @ LF @ LF
         else concat (map (writeOption \<circ> newOption sinceByFlag) (filter (\<lambda>f. \<not> pf_Hidden f) (cm_LocalFlags c)))))"

definition writeCommands :: "(string \<Rightarrow> string) \<Rightarrow> command list \<Rightarrow> command option \<Rightarrow> string" where
  "writeCommands sinceByFlag cmds startCmd =
     ''## Commands {#commands}'' @ LF @ LF @ ''Sablier exposes the following commands.'' @ LF @ LF @
     concat (map (write_command sinceByFlag startCmd) (sort_key cm_Name cmds))"

definition cli_front_matter :: string where
  "cli_front_matter = doc_lines
     [''---'',
      ''title: CLI reference'',
      ''weight: 310'',
      ''---'',
      [],
      ''<!-- Code generated by cmd/docgen (\"go generate ./...\"); DO NOT EDIT. -->'',
      ''<!-- Regenerate with `make cli-docs` after changing flags in pkg/sabliercmd. -->'',
      []]"

definition cli_intro :: string where
  "cli_intro = doc_lines
     [''Sablier is configured through the `sablier` command. This page is generated from the command definitions, so it always matches the running binary. See [Configuration](/tutorials/configuration/) for the configuration file search order.'',
      []]"

definition writeSettingAnOption :: string where
  "writeSettingAnOption = doc_lines
     [''## Setting an option {#setting-an-option}'',
      [],
      ''Every configuration option can be set three ways, in increasing precedence: **configuration file, then environment variable, then command-line flag**.'',
      [],
      ''Option keys are dotted (for example `strategy.dynamic.default-theme`). In the configuration file, nest each segment. For the environment variable, upper-case the key, replace `.` and `-` with `_`, and add the `SABLIER_` prefix. As a flag, pass the key verbatim with a `--` prefix. Each option below shows all three forms.'',
      []]"

definition writeValueTypes :: string where
  "writeValueTypes = doc_lines
     [''## Value types {#value-types}'',
      [],
      ''- **string**: any text value.'',
      ''- **integer**: a whole number.'',
      ''- **number**: a decimal number.'',
      ''- **boolean**: `true` or `false`.'',
      ''- **duration**: a Go duration string, e.g. `5m`, `1m30s`, `20s`, `500ms`.'',
      []]"

section \<open>The page\<close>

definition collect :: "(string \<Rightarrow> string) \<Rightarrow> pflag list \<Rightarrow> (string \<Rightarrow> cli_option list) \<Rightarrow> string \<Rightarrow> cli_option list" where
  "collect sinceByFlag fs byCategory =
     foldl (\<lambda>m f. if pf_Hidden f then m
                  else let o' = newOption sinceByFlag f; cat = categoryOf (co_name o') in m(cat := m cat @ [o']))
       byCategory fs"

definition find_start :: "command list \<Rightarrow> command option" where
  "find_start cmds = foldl (\<lambda>startCmd c. if cm_Name c = ''start'' then Some c else startCmd) None cmds"

definition cli_page :: "(string \<Rightarrow> string) \<Rightarrow> pflag list \<Rightarrow> command list \<Rightarrow> string" where
  "cli_page sinceByFlag persistent cmds =
     (let startCmd = find_start cmds;
          byCategory = collect sinceByFlag persistent (\<lambda>_. []);
          byCategory = (case startCmd of None \<Rightarrow> byCategory | Some c \<Rightarrow> collect sinceByFlag (cm_LocalFlags c) byCategory);
          byCategory = (\<lambda>cat. sort_key co_name (byCategory cat))
      in cli_front_matter @ cli_intro @ writeCommands sinceByFlag cmds startCmd @ writeSettingAnOption @ writeValueTypes @
         concat (map (\<lambda>cat. if byCategory cat = [] then [] else writeCategory cat (byCategory cat)) categoryOrder))"

definition docgen_main :: "'e + 'e dir_entry list \<Rightarrow> pflag list \<Rightarrow> command list \<Rightarrow> 'e gen_result" where
  "docgen_main configSrc persistent cmds =
     (case SinceByFlag configSrc of
        Inl err \<Rightarrow> GenParseError err
      | Inr sinceByFlag \<Rightarrow> Written (cli_page sinceByFlag persistent cmds))"

section \<open>Every flag has its section\<close>

text \<open>The generator derives the name of the environment variable on its own, and arrives at the prefixed one.\<close>

lemma upper_char_code:
  "of_char (upper_char c) = (let n = of_char c :: nat in if 97 \<le> n \<and> n \<le> 122 then n - 32 else n)"
  by (auto simp: upper_char_def Let_def)

lemma upper_char_sign: "of_char d < (65 :: nat) \<Longrightarrow> upper_char c = d \<longleftrightarrow> c = d"
proof -
  have eq: "a = b \<longleftrightarrow> of_char a = (of_char b :: nat)" for a b :: char by simp
  assume "of_char d < (65 :: nat)"
  then show ?thesis unfolding eq upper_char_code by (auto simp: Let_def)
qed

lemma upper_char_idem: "upper_char (upper_char c) = upper_char c"
proof -
  have eq: "a = b \<longleftrightarrow> of_char a = (of_char b :: nat)" for a b :: char by simp
  show ?thesis unfolding eq upper_char_code by (auto simp: Let_def)
qed

lemma docgen_envVar_bound: "docgen_envVar name = ''SABLIER_'' @ envVar name"
proof -
  have signs: "upper_char c = CHR ''-'' \<longleftrightarrow> c = CHR ''-''" "upper_char c = CHR ''.'' \<longleftrightarrow> c = CHR ''.''" for c
    by (simp_all add: upper_char_sign)
  have "upper_char (CHR ''_'') = CHR ''_''" by code_simp
  then show ?thesis
    by (simp add: docgen_envVar_def envVar_def ToUpper_def ReplaceAll_def signs upper_char_idem)
qed

lemma categoryOf_listed: "categoryOf name \<in> set categoryOrder"
  by (simp add: categoryOf_def categoryOrder_def Let_def)

lemma collect_adds:
  "set (collect sinceByFlag fs m cat) =
     set (m cat) \<union> {newOption sinceByFlag f | f. f \<in> set fs \<and> \<not> pf_Hidden f \<and> categoryOf (pf_Name f) = cat}"
  unfolding collect_def by (induction fs arbitrary: m) (auto simp: Let_def newOption_def)

lemma sublist_concat_map: "x \<in> set xs \<Longrightarrow> sublist (f x) (concat (map f xs))"
  by (metis concat.simps(2) concat_append list.simps(9) map_append split_list sublist_appendI)

lemma sublist_here: "sublist s (s @ t)"
  by simp

lemma sublist_later: "sublist s t \<Longrightarrow> sublist s (a @ t)"
  by (metis append.assoc sublist_def)

lemma category_written:
  assumes "o' \<in> set opts"
  shows "sublist (writeOption o') (writeCategory cat opts)"
    "sublist (index_row (''--'' @ co_name o') (optAnchor (co_name o')) (co_usage o')) (writeCategory cat opts)"
proof -
  let ?row = "\<lambda>o'. index_row (''--'' @ co_name o') (optAnchor (co_name o')) (co_usage o')"
  show "sublist (writeOption o') (writeCategory cat opts)"
    unfolding writeCategory_def by (rule sublist_concat_map [OF assms] | rule sublist_later)+
  have "sublist (concat (map ?row opts)) (writeCategory cat opts)"
    unfolding writeCategory_def by (rule sublist_here | rule sublist_later)+
  then show "sublist (?row o') (writeCategory cat opts)"
    using sublist_concat_map [OF assms, of ?row] by (rule sublist_order.order.trans [rotated])
qed

lemma page_categories:
  assumes "f \<in> set persistent \<or> (\<exists>c. find_start cmds = Some c \<and> f \<in> set (cm_LocalFlags c))" and "\<not> pf_Hidden f"
  obtains opts where "newOption since f \<in> set opts"
    "sublist (writeCategory (categoryOf (pf_Name f)) opts) (cli_page since persistent cmds)"
proof -
  let ?m = "collect since persistent (\<lambda>_. [])"
  let ?m' = "case find_start cmds of None \<Rightarrow> ?m | Some c \<Rightarrow> collect since (cm_LocalFlags c) ?m"
  let ?by = "\<lambda>cat. sort_key co_name (?m' cat)"
  let ?section_of = "\<lambda>cat. if ?by cat = [] then [] else writeCategory cat (?by cat)"
  let ?cat = "categoryOf (pf_Name f)"
  have mem: "newOption since f \<in> set (?by ?cat)"
    using assms by (auto simp: collect_adds split: option.splits)
  have "sublist (?section_of ?cat) (cli_page since persistent cmds)"
    unfolding cli_page_def Let_def
    by (rule sublist_concat_map [of _ _ ?section_of, OF categoryOf_listed] | rule sublist_later)+
  moreover have "?by ?cat \<noteq> []" using mem by (metis empty_iff empty_set)
  ultimately have "sublist (writeCategory ?cat (?by ?cat)) (cli_page since persistent cmds)" by simp
  with mem show thesis by (rule that)
qed

lemma set_forms_parts:
  "sublist (flag_form (co_name o') v) (set_forms o' v)"
  "co_envimpl o' \<Longrightarrow> sublist (env_form (co_name o') v) (set_forms o' v)"
  "co_envimpl o' \<Longrightarrow> sublist (nestedYAML (co_name o') v) (set_forms o' v)"
proof -
  show "sublist (flag_form (co_name o') v) (set_forms o' v)"
    unfolding set_forms_def by (cases "co_envimpl o'"; simp only: if_True if_False; (rule sublist_here | rule sublist_later)+)
  assume e: "co_envimpl o'"
  show "sublist (env_form (co_name o') v) (set_forms o' v)" "sublist (nestedYAML (co_name o') v) (set_forms o' v)"
    unfolding set_forms_def if_P [OF e] by ((rule sublist_here | rule sublist_later)+)
qed

lemma option_forms: "sublist (set_forms o' (exampleValue (co_def o') (co_typ o'))) (writeOption o')"
  unfolding writeOption_def Let_def by (rule sublist_order.order.refl | rule sublist_later)+

text \<open>
  The command-line reference is complete and true. Every flag of the root command or of \<open>start\<close>
  that is not hidden has, on the page that is written, its row in the index of its category and its
  section; the section shows the flag with its default, and for a dotted name the nesting in the file and an environment
  variable that the binding of the flags reads.
\<close>

theorem cli_reference:
  assumes "docgen_main (src :: 'e + 'e dir_entry list) persistent cmds = Written page" and "\<not> pf_Hidden f"
    and "f \<in> set persistent \<or> (\<exists>c. find_start cmds = Some c \<and> f \<in> set (cm_LocalFlags c))"
  shows "\<exists>since. SinceByFlag src = Inr since \<and>
    sublist (index_row (''--'' @ pf_Name f) (optAnchor (pf_Name f)) (TrimSpace (pf_Usage f))) page \<and>
    sublist (writeOption (newOption since f)) page \<and>
    (let v = exampleValue (pf_DefValue f) (typeLabel (pf_Type f)); s = writeOption (newOption since f)
     in sublist (flag_form (pf_Name f) v) s \<and>
        (CHR ''.'' \<in> set (pf_Name f) \<longrightarrow>
           sublist (nestedYAML (pf_Name f) v) s \<and> sublist (docgen_envVar (pf_Name f) @ ''='' @ v @ LF) s \<and>
           docgen_envVar (pf_Name f) \<in> set (env_names (pf_Name f))))"
proof -
  obtain since where since: "SinceByFlag src = Inr since" and page: "page = cli_page since persistent cmds"
    using assms(1) by (auto simp: docgen_main_def split: sum.splits)
  let ?o = "newOption since f" and ?v = "exampleValue (pf_DefValue f) (typeLabel (pf_Type f))"
  obtain opts where o: "?o \<in> set opts" and sec: "sublist (writeCategory (categoryOf (pf_Name f)) opts) page"
    using page_categories [OF assms(3,2), of since] by (metis page)
  have "sublist (index_row (''--'' @ pf_Name f) (optAnchor (pf_Name f)) (TrimSpace (pf_Usage f))) page"
    "sublist (writeOption ?o) page"
    using category_written [OF o] sec by (auto simp: newOption_def intro: sublist_order.order.trans)
  moreover have forms: "sublist (set_forms ?o ?v) (writeOption ?o)"
    using option_forms [of ?o] by (simp add: newOption_def)
  then have "sublist (flag_form (pf_Name f) ?v) (writeOption ?o)"
    using set_forms_parts(1) [of ?o ?v] by (auto simp: newOption_def intro: sublist_order.order.trans)
  moreover have "sublist (nestedYAML (pf_Name f) ?v) (writeOption ?o)" "sublist (docgen_envVar (pf_Name f) @ ''='' @ ?v @ LF) (writeOption ?o)"
    if "CHR ''.'' \<in> set (pf_Name f)"
    using that set_forms_parts(2,3) [of ?o ?v] forms
    by (auto simp: newOption_def env_form_def intro: sublist_order.order.trans)
  moreover have "docgen_envVar (pf_Name f) \<in> set (env_names (pf_Name f))"
    by (simp add: docgen_envVar_bound env_names_def)
  ultimately show ?thesis using since by (auto simp: Let_def)
qed

definition demo_flag :: pflag where
  "demo_flag = \<lparr>pf_Name = ''server.base-path'', pf_Usage = ''The base path for the API'', pf_Type = ''string'',
     pf_DefValue = ''/'', pf_Hidden = False\<rparr>"

definition demo_start :: command where
  "demo_start = \<lparr>cm_Name = ''start'', cm_CommandPath = ''sablier start'', cm_Short = [], cm_Available = True,
     cm_LocalFlags = [demo_flag]\<rparr>"

lemma demo_forms:
  "docgen_envVar ''server.base-path'' @ ''='' @ ''/'' @ LF = ''SABLIER_SERVER_BASE_PATH=/'' @ LF"
  "flag_form ''server.base-path'' ''/'' = ''--server.base-path=/'' @ LF"
  "exampleValue ''/'' (typeLabel ''string'') = ''/''"
  by code_simp+

theorem cli_reference_witness:
  "\<exists>page s. docgen_main (Inr [] :: unit + unit dir_entry list) [] [demo_start] = Written page \<and> sublist s page \<and>
     sublist (''--server.base-path=/'' @ LF) s \<and> sublist (''SABLIER_SERVER_BASE_PATH=/'' @ LF) s"
proof -
  let ?src = "Inr [] :: unit + unit dir_entry list" and ?page = "cli_page (\<lambda>_. []) [] [demo_start]"
  have "docgen_main ?src [] [demo_start] = Written ?page" by (simp add: docgen_main_def SinceByFlag_def)
  moreover have "\<not> pf_Hidden demo_flag" by (simp add: demo_flag_def)
  moreover have "demo_flag \<in> set [] \<or> (\<exists>c. find_start [demo_start] = Some c \<and> demo_flag \<in> set (cm_LocalFlags c))"
    by (simp add: find_start_def demo_start_def)
  moreover note cli_reference [OF calculation]
  moreover have "pf_Name demo_flag = ''server.base-path''" "pf_DefValue demo_flag = ''/''" "pf_Type demo_flag = ''string''"
    "CHR ''.'' \<in> set ''server.base-path''"
    by (simp_all add: demo_flag_def)
  ultimately show ?thesis unfolding Let_def demo_forms by (metis demo_forms)
qed

section \<open>Where the page is wrong\<close>

text \<open>
  A flag without a dot is said to have no environment variable, but the binding reads one: the health
  command takes its address from \<open>SABLIER_URL\<close>, and from \<open>URL\<close>, which other programs set.
\<close>

lemma url_flag_env_bound:
  fixes flag_Set :: "flag_value \<Rightarrow> string \<Rightarrow> flag_value"
  defines "url \<equiv> \<lparr>fg_Name = ''url'', fg_Value = StringV ''http://localhost:10000/health'', fg_Changed = False\<rparr>"
  shows "\<not> co_envimpl (newOption since \<lparr>pf_Name = ''url'', pf_Usage = u, pf_Type = t, pf_DefValue = x, pf_Hidden = False\<rparr>)"
    "fg_Value (bind_flag flag_Set (env_viper [''URL'' \<mapsto> ''http://other''] (\<lambda>_. None)) url) =
       flag_Set (fg_Value url) ''http://other''"
    "fg_Value (bind_flag flag_Set (env_viper [''SABLIER_URL'' \<mapsto> ''http://other''] (\<lambda>_. None)) url) =
       flag_Set (fg_Value url) ''http://other''"
proof -
  have e: "envVar ''url'' = ''URL''" "ToUpper ''url'' = ''URL''" by code_simp+
  show "\<not> co_envimpl (newOption since \<lparr>pf_Name = ''url'', pf_Usage = u, pf_Type = t, pf_DefValue = x, pf_Hidden = False\<rparr>)"
    by (simp add: newOption_def)
  show "fg_Value (bind_flag flag_Set (env_viper [''URL'' \<mapsto> ''http://other''] (\<lambda>_. None)) url) =
       flag_Set (fg_Value url) ''http://other''"
    "fg_Value (bind_flag flag_Set (env_viper [''SABLIER_URL'' \<mapsto> ''http://other''] (\<lambda>_. None)) url) =
       flag_Set (fg_Value url) ''http://other''"
    by (simp_all add: url_def bind_flag_def env_viper_def e)
qed

text \<open>
  The default of a list is printed as an empty pair of brackets, which the page repeats as the value
  to set; given on the command line or in the environment it is a list of one pattern, the brackets.
\<close>

lemma documented_list_default:
  "exampleValue ''[]'' (typeLabel ''stringSlice'') = ''[]''"
  "csv_Read ''[]'' = Some [''[]'']"
  by code_simp+

end
