(* ===== verification/Dependency_Walk.thy ===== *)
theory Dependency_Walk
  imports Sablier_State "HOL-Library.Multiset"
begin

text \<open>
  The concurrent walk over the dependencies of an instance (\<open>satisfyDependencies\<close> and what it calls in
  \<open>pkg/sablier/instance_dependency.go\<close>). \<open>Sablier_State\<close> has the walk that handles the dependencies of
  a node one after the other; here every dependency is a goroutine of the error group of its node,
  and the goroutines interleave. A task is such a goroutine with its program counter; what it does
  between two points where others can see it is one step. The first task is the call of
  \<open>startWithDependencies\<close> itself. Between the steps the core may change in any way, so that other
  walks, requests and the provider are covered, and the surrounding context may be cancelled.

  \<open>Walk_Facts\<close> has the theorems.
\<close>

section \<open>Tasks\<close>

datatype pc =
    AtInspect
  | AtLoad
  | AtMemo
  | AtJoin
  | AtEnsure
  | AtDep nat
  | AtStart nat
  | AtFinish nat "goerror option"
  | AtClose "goerror option"
  | AtPoll
  | AtRoot
  | Ended "goerror option"

text \<open>
  A task belongs to the group that the task \<open>tk_parent\<close> opened; \<open>tk_group\<close> is the first error of the
  group that it opened itself. Calls of the provider are logged per walk.
\<close>

record task =
  tk_parent :: nat
  tk_dep :: InstanceDependency
  tk_pc :: pc
  tk_group :: "goerror option"

record ('st, 'w) dep_walk =
  w_core :: "('st, 'w) sablier"
  w_memo :: dependencyMemo
  w_tasks :: "task list"
  w_trace :: "provider_call list"
  w_cancelled :: bool

definition moved :: "nat \<Rightarrow> pc \<Rightarrow> task list \<Rightarrow> task list" where
  "moved i p ts = ts[i := (ts ! i)\<lparr>tk_pc := p\<rparr>]"

definition set_pc :: "nat \<Rightarrow> pc \<Rightarrow> ('st, 'w) dep_walk \<Rightarrow> ('st, 'w) dep_walk" where
  "set_pc i p w = w\<lparr>w_tasks := moved i p (w_tasks w)\<rparr>"

text \<open>The goroutines of a group; they all exist before the first of them moves.\<close>

definition spawn :: "nat \<Rightarrow> InstanceDependency list \<Rightarrow> task list" where
  "spawn i deps = map (\<lambda>d. \<lparr>tk_parent = i, tk_dep = d, tk_pc = AtInspect, tk_group = None\<rparr>) deps"

text \<open>The context of a task is done when that of the walk is, or when a group above it has an error.\<close>

function group_done :: "task list \<Rightarrow> nat \<Rightarrow> bool" where
  "group_done ts i \<longleftrightarrow>
     (if i < length ts \<and> tk_parent (ts ! i) < i
      then tk_group (ts ! tk_parent (ts ! i)) \<noteq> None \<or> group_done ts (tk_parent (ts ! i)) else False)"
  by pat_completeness auto
termination
  by (relation "measure snd") auto

declare group_done.simps [simp del]

definition ctx_done :: "nat \<Rightarrow> ('st, 'w) dep_walk \<Rightarrow> bool" where
  "ctx_done i w \<longleftrightarrow> w_cancelled w \<or> group_done (w_tasks w) i"

text \<open>A goroutine returns to its group, which keeps the first error; the first task returns to its caller.\<close>

definition ended :: "nat \<Rightarrow> goerror option \<Rightarrow> task list \<Rightarrow> task list" where
  "ended i err ts =
     (let ts1 = moved i (Ended err) ts; p = tk_parent (ts ! i)
      in if i = 0 \<or> err = None \<or> tk_group (ts1 ! p) \<noteq> None then ts1
         else ts1[p := (ts1 ! p)\<lparr>tk_group := err\<rparr>])"

definition end_task :: "nat \<Rightarrow> goerror option \<Rightarrow> ('st, 'w) dep_walk \<Rightarrow> ('st, 'w) dep_walk" where
  "end_task i err w = w\<lparr>w_tasks := ended i err (w_tasks w)\<rparr>"

section \<open>Steps\<close>

text \<open>
  The choices of the scheduler: to go on, to take the branch of a \<open>select\<close> on the context, or to let a
  call of the provider fail because its context is done.
\<close>

datatype choice = Run | CtxDone | CallFails goerror

definition walk_inspect :: "choice \<Rightarrow> nat \<Rightarrow> ('st, 'w) dep_walk \<Rightarrow> ((goerror + InstanceInfo) \<times> ('st, 'w) dep_walk) option" where
  "walk_inspect c i w =
     (let name = dep_Name (tk_dep (w_tasks w ! i))
      in case c of
           Run \<Rightarrow>
             (case call_Inspect name (w_core w) of
                (Inl err, s) \<Rightarrow> Some (Inl err, w\<lparr>w_core := s\<rparr>)
              | (Inr info, s) \<Rightarrow>
                  Some (Inr info, w\<lparr>w_core := s, w_trace := w_trace w @ [Inspected name (i_Status info)]\<rparr>))
         | CallFails err \<Rightarrow> if ctx_done i w then Some (Inl err, w) else None
         | CtxDone \<Rightarrow> None)"

definition walk_start :: "choice \<Rightarrow> nat \<Rightarrow> ('st, 'w) dep_walk \<Rightarrow> (goerror option \<times> ('st, 'w) dep_walk) option" where
  "walk_start c i w =
     (let name = dep_Name (tk_dep (w_tasks w ! i))
      in case call_Start name (w_core w) of
           (err, s) \<Rightarrow>
             (let w1 = w\<lparr>w_core := s, w_trace := w_trace w @ [CallStart name]\<rparr>
              in case c of
                   Run \<Rightarrow> Some (err, w1)
                 | CallFails err' \<Rightarrow> if ctx_done i w then Some (Some err', w1) else None
                 | CtxDone \<Rightarrow> None))"

text \<open>\<open>satisfyDependency\<close>: a condition that already holds ends the task.\<close>

definition at_inspect :: "choice \<Rightarrow> nat \<Rightarrow> ('st, 'w) dep_walk \<Rightarrow> ('st, 'w) dep_walk option" where
  "at_inspect c i w =
     (case walk_inspect c i w of
        None \<Rightarrow> None
      | Some (Inl err, w1) \<Rightarrow> Some (set_pc i AtLoad w1)
      | Some (Inr info, w1) \<Rightarrow>
          if dependencyConditionSatisfied (i_Status info) (dep_Condition (tk_dep (w_tasks w ! i)))
          then Some (end_task i None w1) else Some (set_pc i AtLoad w1))"

text \<open>\<open>startDependencyNode\<close>: the first to load the node opens the group of its dependencies.\<close>

definition at_load :: "depgraph \<Rightarrow> nat \<Rightarrow> ('st, 'w) dep_walk \<Rightarrow> ('st, 'w) dep_walk" where
  "at_load graph i w =
     (let node = dep_Name (tk_dep (w_tasks w ! i))
      in case memo_load node (w_memo w) of
           (Some r, memo) \<Rightarrow> set_pc i AtMemo (w\<lparr>w_memo := memo\<rparr>)
         | (None, memo) \<Rightarrow>
             (let w1 = set_pc i AtJoin (w\<lparr>w_memo := memo\<rparr>)
              in w1\<lparr>w_tasks := w_tasks w1 @ spawn i (map_list graph node)\<rparr>))"

definition after_node :: "nat \<Rightarrow> goerror option \<Rightarrow> ('st, 'w) dep_walk \<Rightarrow> ('st, 'w) dep_walk" where
  "after_node i err w = (case err of Some e \<Rightarrow> end_task i (Some e) w | None \<Rightarrow> set_pc i AtPoll w)"

definition at_memo :: "choice \<Rightarrow> nat \<Rightarrow> ('st, 'w) dep_walk \<Rightarrow> ('st, 'w) dep_walk option" where
  "at_memo c i w =
     (case c of
        Run \<Rightarrow>
          (case map_of (w_memo w) (dep_Name (tk_dep (w_tasks w ! i))) of
             Some (Some err) \<Rightarrow> Some (after_node i err w)
           | _ \<Rightarrow> None)
      | CtxDone \<Rightarrow> if ctx_done i w then Some (after_node i (Some ctx_Err) w) else None
      | CallFails err \<Rightarrow> None)"

fun has_ended :: "pc \<Rightarrow> bool" where
  "has_ended (Ended err) = True"
| "has_ended _ = False"

text \<open>\<open>g.Wait()\<close>, and what follows it in \<open>startDependencyNode\<close> and in \<open>startWithDependencies\<close>.\<close>

definition children_ended :: "nat \<Rightarrow> task list \<Rightarrow> bool" where
  "children_ended i ts \<longleftrightarrow>
     list_all (\<lambda>j. j = 0 \<or> tk_parent (ts ! j) \<noteq> i \<or> has_ended (tk_pc (ts ! j))) [0..<length ts]"

definition at_join :: "nat \<Rightarrow> ('st, 'w) dep_walk \<Rightarrow> ('st, 'w) dep_walk option" where
  "at_join i w =
     (if \<not> children_ended i (w_tasks w) then None
      else case tk_group (w_tasks w ! i) of
             Some err \<Rightarrow> Some (if i = 0 then end_task i (Some err) w else set_pc i (AtClose (Some err)) w)
           | None \<Rightarrow> Some (set_pc i (if i = 0 then AtRoot else AtEnsure) w))"

text \<open>\<open>ensureDependencyStarted\<close> with its two critical sections.\<close>

definition at_ensure :: "nat \<Rightarrow> ('st, 'w) dep_walk \<Rightarrow> ('st, 'w) dep_walk" where
  "at_ensure i w =
     (case dep_enter (dep_Name (tk_dep (w_tasks w ! i))) (w_core w) of
        (DepManaged, s) \<Rightarrow> set_pc i (AtClose None) (w\<lparr>w_core := s\<rparr>)
      | (DepWait ds, s) \<Rightarrow> set_pc i (AtDep ds) (w\<lparr>w_core := s\<rparr>)
      | (DepStart ds, s) \<Rightarrow> set_pc i (AtStart ds) (w\<lparr>w_core := s\<rparr>))"

definition at_dep :: "choice \<Rightarrow> nat \<Rightarrow> nat \<Rightarrow> ('st, 'w) dep_walk \<Rightarrow> ('st, 'w) dep_walk option" where
  "at_dep c i ds w =
     (case c of
        Run \<Rightarrow>
          if ds_done (s_dsHeap (w_core w) ! ds)
          then Some (set_pc i (AtClose (ds_err (s_dsHeap (w_core w) ! ds))) w) else None
      | CtxDone \<Rightarrow> if ctx_done i w then Some (set_pc i (AtClose (Some ctx_Err)) w) else None
      | CallFails err \<Rightarrow> None)"

definition at_start :: "choice \<Rightarrow> nat \<Rightarrow> nat \<Rightarrow> ('st, 'w) dep_walk \<Rightarrow> ('st, 'w) dep_walk option" where
  "at_start c i ds w =
     (case walk_start c i w of
        None \<Rightarrow> None
      | Some (err, w1) \<Rightarrow>
          Some (set_pc i (AtFinish ds
                 (map_option (ErrWrap (''cannot start dependency '' @ quoted (dep_Name (tk_dep (w_tasks w ! i))))) err)) w1))"

definition at_finish :: "nat \<Rightarrow> nat \<Rightarrow> goerror option \<Rightarrow> ('st, 'w) dep_walk \<Rightarrow> ('st, 'w) dep_walk" where
  "at_finish i ds err w =
     set_pc i (AtClose err) (w\<lparr>w_core := dep_finish (dep_Name (tk_dep (w_tasks w ! i))) ds err (w_core w)\<rparr>)"

text \<open>The end of \<open>startDependencyNode\<close>: the result is published and the channel closed.\<close>

definition at_close :: "nat \<Rightarrow> goerror option \<Rightarrow> ('st, 'w) dep_walk \<Rightarrow> ('st, 'w) dep_walk" where
  "at_close i err w =
     after_node i err (w\<lparr>w_memo := map_put (dep_Name (tk_dep (w_tasks w ! i))) (Some err) (w_memo w)\<rparr>)"

text \<open>\<open>waitForDependencyCondition\<close>: one round of the loop, with the branch of the \<open>select\<close> that ends it.\<close>

definition at_poll :: "choice \<Rightarrow> nat \<Rightarrow> ('st, 'w) dep_walk \<Rightarrow> ('st, 'w) dep_walk option" where
  "at_poll c i w =
     (let name = dep_Name (tk_dep (w_tasks w ! i)); condition = dep_Condition (tk_dep (w_tasks w ! i))
      in case walk_inspect (if c = CtxDone then Run else c) i w of
           None \<Rightarrow> None
         | Some (Inl err, w1) \<Rightarrow>
             Some (end_task i (Some (ErrWrap (''cannot inspect dependency '' @ quoted name) err)) w1)
         | Some (Inr info, w1) \<Rightarrow>
             if i_Status info = InstanceStatusError then
               Some (end_task i (Some (ErrText (''dependency '' @ quoted name @ '' is in error state'' @
                 (if i_Message info \<noteq> [] then '': '' @ i_Message info else [])))) w1)
             else if dependencyConditionSatisfied (i_Status info) condition then Some (end_task i None w1)
             else if c = CtxDone then
               (if ctx_done i w
                then Some (end_task i (Some (ErrWrap (''timed out waiting for dependency '' @ quoted name @
                       '' (condition: '' @ condition @ '')'') ctx_Err)) w1)
                else None)
             else Some w1)"

definition at_root :: "choice \<Rightarrow> nat \<Rightarrow> ('st, 'w) dep_walk \<Rightarrow> ('st, 'w) dep_walk option" where
  "at_root c i w = (case walk_start c i w of None \<Rightarrow> None | Some (err, w1) \<Rightarrow> Some (end_task i err w1))"

definition task_step :: "depgraph \<Rightarrow> choice \<Rightarrow> nat \<Rightarrow> ('st, 'w) dep_walk \<Rightarrow> ('st, 'w) dep_walk option" where
  "task_step graph c i w =
     (if i \<ge> length (w_tasks w) then None
      else case tk_pc (w_tasks w ! i) of
             AtInspect \<Rightarrow> at_inspect c i w
           | AtLoad \<Rightarrow> Some (at_load graph i w)
           | AtMemo \<Rightarrow> at_memo c i w
           | AtJoin \<Rightarrow> at_join i w
           | AtEnsure \<Rightarrow> Some (at_ensure i w)
           | AtDep ds \<Rightarrow> at_dep c i ds w
           | AtStart ds \<Rightarrow> at_start c i ds w
           | AtFinish ds err \<Rightarrow> Some (at_finish i ds err w)
           | AtClose err \<Rightarrow> Some (at_close i err w)
           | AtPoll \<Rightarrow> at_poll c i w
           | AtRoot \<Rightarrow> at_root c i w
           | Ended err \<Rightarrow> None)"

definition walk_init :: "depgraph \<Rightarrow> string \<Rightarrow> ('st, 'w) sablier \<Rightarrow> ('st, 'w) dep_walk" where
  "walk_init graph name s =
     \<lparr>w_core = s, w_memo = newDependencyMemo,
      w_tasks = \<lparr>tk_parent = 0, tk_dep = \<lparr>dep_Name = name, dep_Condition = []\<rparr>, tk_pc = AtJoin, tk_group = None\<rparr> #
        spawn 0 (map_list graph name),
      w_trace = [], w_cancelled = False\<rparr>"

text \<open>
  The walks after any number of steps of tasks, of changes of the core by others and of the context;
  the steps of tasks that are not a repeated poll are counted.
\<close>

inductive walks :: "depgraph \<Rightarrow> string \<Rightarrow> nat \<Rightarrow> ('st, 'w) dep_walk \<Rightarrow> bool" for graph root where
  init: "walks graph root 0 (walk_init graph root s)"
| task: "walks graph root k w \<Longrightarrow> task_step graph c i w = Some w' \<Longrightarrow>
    walks graph root (if w_tasks w' = w_tasks w then k else Suc k) w'"
| others: "walks graph root k w \<Longrightarrow> walks graph root k (w\<lparr>w_core := s\<rparr>)"
| cancel: "walks graph root k w \<Longrightarrow> walks graph root k (w\<lparr>w_cancelled := True\<rparr>)"

text \<open>A schedule of tasks that all go on.\<close>

fun run_tasks :: "depgraph \<Rightarrow> nat list \<Rightarrow> ('st, 'w) dep_walk \<Rightarrow> ('st, 'w) dep_walk option" where
  "run_tasks graph [] w = Some w"
| "run_tasks graph (i # is) w = (case task_step graph Run i w of None \<Rightarrow> None | Some w' \<Rightarrow> run_tasks graph is w')"

section \<open>Starts of several walks\<close>

text \<open>
  The two critical sections of \<open>ensureDependencyStarted\<close>, entered by any number of walks: a flight is a
  start between them. Others leave the table of the dependency starts alone.
\<close>

inductive flights :: "('st, 'w) sablier \<times> (string \<times> nat) multiset \<Rightarrow> bool" where
  init: "s_depStarts s = [] \<Longrightarrow> flights (s, {#})"
| enter: "flights (s, T) \<Longrightarrow> dep_enter name s = (DepStart ds, s') \<Longrightarrow> flights (s', add_mset (name, ds) T)"
| deferred: "flights (s, T) \<Longrightarrow> dep_enter name s = (d, s') \<Longrightarrow> \<forall>ds. d \<noteq> DepStart ds \<Longrightarrow> flights (s', T)"
| finish: "flights (s, add_mset (name, ds) T) \<Longrightarrow> flights (dep_finish name ds err s, T)"
| others: "flights (s, T) \<Longrightarrow> s_depStarts s' = s_depStarts s \<Longrightarrow> s_dsHeap s' = s_dsHeap s \<Longrightarrow> flights (s', T)"

end
