(* ===== verification/Walk_Facts.thy ===== *)
theory Walk_Facts
  imports Dependency_Walk
begin

text \<open>
  Theorems on the concurrent walk over the dependencies, for every interleaving: the starts come
  after the dependencies have reached their conditions, no instance is started twice, no set of
  tasks waits for one another, and the number of steps other than repeated polls is bounded. The
  steps are first abstracted to moves on the memo, the tasks and the log, and the parts of the
  invariant are proved over the moves. The starts of several walks are excluded from one another by
  the table of dependency starts.
\<close>

section \<open>Moves\<close>

text \<open>
  What a step does to the memo, the tasks and the log: the moves. They forget the core and say which
  change of the program counter comes with which change of the rest.
\<close>

abbreviation pc_of :: "task list \<Rightarrow> nat \<Rightarrow> pc" where
  "pc_of ts i \<equiv> tk_pc (ts ! i)"

abbreviation nm :: "task list \<Rightarrow> nat \<Rightarrow> string" where
  "nm ts i \<equiv> dep_Name (tk_dep (ts ! i))"

type_synonym view = "dependencyMemo \<times> task list \<times> provider_call list"

definition view_of :: "('st, 'w) dep_walk \<Rightarrow> view" where
  "view_of w = (w_memo w, w_tasks w, w_trace w)"

fun quiet :: "pc \<Rightarrow> pc \<Rightarrow> bool" where
  "quiet AtInspect AtLoad = True"
| "quiet AtLoad AtMemo = True"
| "quiet AtMemo AtPoll = True"
| "quiet AtEnsure (AtDep ds) = True"
| "quiet AtEnsure (AtStart ds) = True"
| "quiet AtEnsure (AtClose e) = True"
| "quiet (AtDep ds) (AtClose e) = True"
| "quiet (AtFinish ds e) (AtClose e') = (e' = e)"
| "quiet _ _ = False"

inductive move :: "depgraph \<Rightarrow> view \<Rightarrow> view \<Rightarrow> bool" for graph where
  quiet: "i < length ts \<Longrightarrow> quiet (pc_of ts i) p \<Longrightarrow> p = AtMemo \<longrightarrow> map_of memo (nm ts i) \<noteq> None \<Longrightarrow> starts l = [] \<Longrightarrow>
    move graph (memo, ts, tr) (memo, moved i p ts, tr @ l)"
| poll: "i < length ts \<Longrightarrow> pc_of ts i = AtPoll \<Longrightarrow> starts l = [] \<Longrightarrow> move graph (memo, ts, tr) (memo, ts, tr @ l)"
| join: "i < length ts \<Longrightarrow> pc_of ts i = AtJoin \<Longrightarrow> children_ended i ts \<Longrightarrow> tk_group (ts ! i) = None \<Longrightarrow>
    move graph (memo, ts, tr) (memo, moved i (if i = 0 then AtRoot else AtEnsure) ts, tr)"
| fail: "i < length ts \<Longrightarrow> pc_of ts i = AtJoin \<Longrightarrow> i \<noteq> 0 \<Longrightarrow>
    move graph (memo, ts, tr) (memo, moved i (AtClose (Some e)) ts, tr)"
| start: "i < length ts \<Longrightarrow> pc_of ts i = AtStart ds \<Longrightarrow>
    move graph (memo, ts, tr) (memo, moved i (AtFinish ds err) ts, tr @ [CallStart (nm ts i)])"
| root: "i < length ts \<Longrightarrow> pc_of ts i = AtRoot \<Longrightarrow>
    move graph (memo, ts, tr) (memo, ended i err ts, tr @ [CallStart (nm ts i)])"
| ending: "i < length ts \<Longrightarrow> pc_of ts i \<in> {AtInspect, AtMemo, AtPoll} \<or> i = 0 \<and> pc_of ts i = AtJoin \<Longrightarrow>
    starts l = [] \<Longrightarrow> err = None \<longrightarrow> pc_of ts i \<noteq> AtJoin \<and> dep_met (tr @ l) (tk_dep (ts ! i)) \<Longrightarrow>
    move graph (memo, ts, tr) (memo, ended i err ts, tr @ l)"
| load: "i < length ts \<Longrightarrow> pc_of ts i = AtLoad \<Longrightarrow> map_of memo (nm ts i) = None \<Longrightarrow>
    move graph (memo, ts, tr) (map_put (nm ts i) None memo, moved i AtJoin ts @ spawn i (map_list graph (nm ts i)), tr)"
| close_ok: "i < length ts \<Longrightarrow> pc_of ts i = AtClose None \<Longrightarrow>
    move graph (memo, ts, tr) (map_put (nm ts i) (Some None) memo, moved i AtPoll ts, tr)"
| close_err: "i < length ts \<Longrightarrow> pc_of ts i = AtClose (Some e) \<Longrightarrow>
    move graph (memo, ts, tr) (map_put (nm ts i) (Some (Some e)) memo, ended i (Some e) ts, tr)"

lemma call_Inspect_cases:
  obtains (failed) err where "call_Inspect name s = (Inl err, s)"
  | (told) info s' where "call_Inspect name s = (Inr info, s')"
  by (cases "p_Inspect (s_provider s) name (s_world s)") (auto simp: call_Inspect_def)

lemma walk_inspect_view:
  assumes "walk_inspect c i w = Some (r, w')"
  obtains l where "view_of w' = (w_memo w, w_tasks w, w_trace w @ l)" "starts l = []"
    "\<forall>info. r = Inr info \<longrightarrow> l = [Inspected (nm (w_tasks w) i) (i_Status info)]"
  using assms
  by (cases c; cases "call_Inspect (nm (w_tasks w) i) (w_core w)")
    (auto simp: walk_inspect_def Let_def view_of_def split: sum.splits if_splits)

lemma walk_start_view:
  "walk_start c i w = Some (err, w') \<Longrightarrow> view_of w' = (w_memo w, w_tasks w, w_trace w @ [CallStart (nm (w_tasks w) i)])"
  by (cases c) (auto simp: walk_start_def Let_def view_of_def split: prod.splits if_splits)

lemma view_updates:
  "view_of w = (m, ts, tr) \<Longrightarrow> view_of (set_pc i p w) = (m, moved i p ts, tr)"
  "view_of w = (m, ts, tr) \<Longrightarrow> view_of (end_task i e w) = (m, ended i e ts, tr)"
  "view_of (w\<lparr>w_core := s\<rparr>) = view_of w" "view_of (w\<lparr>w_cancelled := b\<rparr>) = view_of w"
  by (auto simp: view_of_def set_pc_def end_task_def)

lemma view_eqD: "view_of w = (m, ts, tr) \<Longrightarrow> w_memo w = m \<and> w_tasks w = ts \<and> w_trace w = tr"
  by (simp add: view_of_def)

lemma dep_met_told: "dependencyConditionSatisfied st (dep_Condition d) \<Longrightarrow> dep_met (tr @ [Inspected (dep_Name d) st]) d"
  by (auto simp: dep_met_def)

lemma inspect_move:
  assumes "at_inspect c i w = Some w'" and i: "i < length (w_tasks w)" "pc_of (w_tasks w) i = AtInspect"
  shows "move graph (view_of w) (view_of w')"
proof -
  obtain r w1 where r: "walk_inspect c i w = Some (r, w1)"
    using assms(1) by (auto simp: at_inspect_def split: option.splits)
  obtain l where v: "view_of w1 = (w_memo w, w_tasks w, w_trace w @ l)" "starts l = []"
    and told: "\<forall>info. r = Inr info \<longrightarrow> l = [Inspected (nm (w_tasks w) i) (i_Status info)]"
    by (rule walk_inspect_view [OF r])
  have "(w' = set_pc i AtLoad w1) \<or> (w' = end_task i None w1 \<and> dep_met (w_trace w @ l) (tk_dep (w_tasks w ! i)))"
    using assms(1) r told dep_met_told by (auto simp: at_inspect_def split: sum.splits if_splits)
  then show ?thesis
    using v i move.quiet [of i "w_tasks w" AtLoad] move.ending [of i "w_tasks w" l None "w_trace w"]
    by (auto simp: view_updates view_of_def [of w])
qed

lemma poll_move:
  assumes "at_poll c i w = Some w'" and i: "i < length (w_tasks w)" "pc_of (w_tasks w) i = AtPoll"
  shows "move graph (view_of w) (view_of w')"
proof -
  obtain r w1 where r: "walk_inspect (if c = CtxDone then Run else c) i w = Some (r, w1)"
    using assms(1) by (auto simp: at_poll_def Let_def split: option.splits)
  obtain l where v: "view_of w1 = (w_memo w, w_tasks w, w_trace w @ l)" "starts l = []"
    and told: "\<forall>info. r = Inr info \<longrightarrow> l = [Inspected (nm (w_tasks w) i) (i_Status info)]"
    by (rule walk_inspect_view [OF r])
  have "w' = w1 \<or> (\<exists>e. w' = end_task i (Some e) w1) \<or>
      (w' = end_task i None w1 \<and> dep_met (w_trace w @ l) (tk_dep (w_tasks w ! i)))"
    using assms(1) r told dep_met_told
    by (auto simp: at_poll_def Let_def split: sum.splits if_splits)
  then show ?thesis
    using v i move.poll [of i "w_tasks w" l] move.ending [of i "w_tasks w" l None "w_trace w"]
      move.ending [of i "w_tasks w" l "Some _" "w_trace w"]
    by (auto simp: view_updates view_of_def [of w])
qed

lemma load_move:
  assumes i: "i < length (w_tasks w)" "pc_of (w_tasks w) i = AtLoad"
  shows "move graph (view_of w) (view_of (at_load graph i w))"
proof (cases "map_of (w_memo w) (nm (w_tasks w) i)")
  case None
  then show ?thesis
    using move.load [OF i None, of graph] by (simp add: at_load_def memo_load_def Let_def view_of_def set_pc_def)
next
  case (Some r)
  then show ?thesis
    using move.quiet [of i "w_tasks w" AtMemo "w_memo w" "[]" graph "w_trace w"] i
    by (simp add: at_load_def memo_load_def view_of_def set_pc_def)
qed

lemma memo_move:
  assumes "at_memo c i w = Some w'" and i: "i < length (w_tasks w)" "pc_of (w_tasks w) i = AtMemo"
  shows "move graph (view_of w) (view_of w')"
proof -
  obtain err where "w' = after_node i err w"
    using assms(1) by (auto simp: at_memo_def split: choice.splits option.splits if_splits)
  then show ?thesis
    using move.quiet [of i "w_tasks w" AtPoll "w_memo w" "[]" graph "w_trace w"]
      move.ending [of i "w_tasks w" "[]" err "w_trace w" graph "w_memo w"] i
    by (auto simp: after_node_def view_of_def set_pc_def end_task_def split: option.splits)
qed

lemma join_move:
  assumes "at_join i w = Some w'" and i: "i < length (w_tasks w)" "pc_of (w_tasks w) i = AtJoin"
  shows "move graph (view_of w) (view_of w')"
proof (cases "tk_group (w_tasks w ! i)")
  case None
  with assms(1) have "children_ended i (w_tasks w)" "w' = set_pc i (if i = 0 then AtRoot else AtEnsure) w"
    by (auto simp: at_join_def split: if_splits)
  then show ?thesis using move.join [OF i _ None, of graph "w_memo w" "w_trace w"] by (simp add: view_of_def set_pc_def)
next
  case (Some e)
  with assms(1) have "w' = (if i = 0 then end_task i (Some e) w else set_pc i (AtClose (Some e)) w)"
    by (auto simp: at_join_def split: if_splits)
  then show ?thesis
    using move.fail [OF i] move.ending [of i "w_tasks w" "[]" "Some e" "w_trace w" graph "w_memo w"] i
    by (simp add: view_of_def set_pc_def end_task_def)
qed

lemma ensure_move:
  assumes i: "i < length (w_tasks w)" "pc_of (w_tasks w) i = AtEnsure"
  shows "move graph (view_of w) (view_of (at_ensure i w))"
proof -
  have "move graph (w_memo w, w_tasks w, w_trace w) (w_memo w, moved i p (w_tasks w), w_trace w)" if "quiet AtEnsure p" for p
    using move.quiet [of i "w_tasks w" p "w_memo w" "[]" graph "w_trace w"] i that by (cases p) auto
  then show ?thesis
    by (auto simp: at_ensure_def view_of_def set_pc_def split: prod.splits dep_decision.splits)
qed

lemma start_move:
  assumes "at_start c i ds w = Some w'" and i: "i < length (w_tasks w)" "pc_of (w_tasks w) i = AtStart ds"
  shows "move graph (view_of w) (view_of w')"
  using assms(1) move.start [OF i, of graph] walk_start_view [of c i w]
  by (auto simp: at_start_def view_updates view_of_def [of w] split: option.splits)

lemma root_move:
  assumes "at_root c i w = Some w'" and i: "i < length (w_tasks w)" "pc_of (w_tasks w) i = AtRoot"
  shows "move graph (view_of w) (view_of w')"
  using assms(1) move.root [OF i, of graph] walk_start_view [of c i w]
  by (auto simp: at_root_def view_updates view_of_def [of w] split: option.splits)

lemma dep_move:
  assumes "at_dep c i ds w = Some w'" and i: "i < length (w_tasks w)" "pc_of (w_tasks w) i = AtDep ds"
  shows "move graph (view_of w) (view_of w')"
proof -
  obtain e where "w' = set_pc i (AtClose e) w"
    using assms(1) by (auto simp: at_dep_def split: choice.splits if_splits)
  then show ?thesis
    using move.quiet [of i "w_tasks w" "AtClose e" "w_memo w" "[]" graph "w_trace w"] i by (simp add: view_of_def set_pc_def)
qed

lemma close_move:
  assumes i: "i < length (w_tasks w)" "pc_of (w_tasks w) i = AtClose err"
  shows "move graph (view_of w) (view_of (at_close i err w))"
  using i move.close_ok [of i "w_tasks w" graph] move.close_err [of i "w_tasks w" _ graph]
  by (cases err) (simp_all add: at_close_def after_node_def view_of_def set_pc_def end_task_def)

lemma finish_move:
  assumes i: "i < length (w_tasks w)" "pc_of (w_tasks w) i = AtFinish ds err"
  shows "move graph (view_of w) (view_of (at_finish i ds err w))"
  using move.quiet [of i "w_tasks w" "AtClose err" "w_memo w" "[]" graph "w_trace w"] i
  by (simp add: at_finish_def view_of_def set_pc_def)

lemma task_step_move: "task_step graph c i w = Some w' \<Longrightarrow> move graph (view_of w) (view_of w')"
  by (auto simp: task_step_def split: if_splits pc.splits
      intro: inspect_move load_move memo_move join_move ensure_move dep_move start_move finish_move close_move poll_move root_move)

section \<open>Structure of the tasks\<close>

lemma nth_update: "xs[p := x] ! j = (if j = p \<and> p < length xs then x else xs ! j)"
  by (cases "p < length xs") (simp_all add: nth_list_update list_update_beyond)

lemma length_moved [simp]: "length (moved i p ts) = length ts"
  by (simp add: moved_def)

lemma moved_Nil [simp]: "moved i p ts = [] \<longleftrightarrow> ts = []"
  by (simp add: moved_def)

lemma nth_moved: "i < length ts \<Longrightarrow> moved i p ts ! j = (if j = i then (ts ! i)\<lparr>tk_pc := p\<rparr> else ts ! j)"
  by (simp add: moved_def nth_list_update)

lemma length_ended [simp]: "length (ended i e ts) = length ts"
  by (simp add: ended_def Let_def)

lemma ended_fields:
  assumes "i < length ts"
  shows "tk_parent (ended i e ts ! j) = tk_parent (ts ! j)" "tk_dep (ended i e ts ! j) = tk_dep (ts ! j)"
    "pc_of (ended i e ts) j = (if j = i then Ended e else pc_of ts j)"
  using assms by (auto simp: ended_def Let_def nth_update nth_moved)

lemma moved_fields:
  assumes "i < length ts"
  shows "tk_parent (moved i p ts ! j) = tk_parent (ts ! j)" "tk_dep (moved i p ts ! j) = tk_dep (ts ! j)"
    "pc_of (moved i p ts) j = (if j = i then p else pc_of ts j)" "tk_group (moved i p ts ! j) = tk_group (ts ! j)"
  using assms by (auto simp: nth_moved)

lemma ended_group:
  assumes "i < length ts"
  shows "tk_group (ts ! j) \<noteq> None \<Longrightarrow> tk_group (ended i e ts ! j) \<noteq> None"
    "i \<noteq> 0 \<Longrightarrow> e \<noteq> None \<Longrightarrow> tk_parent (ts ! i) < length ts \<Longrightarrow> tk_group (ended i e ts ! tk_parent (ts ! i)) \<noteq> None"
  using assms by (auto simp: ended_def Let_def nth_update moved_fields)

lemmas fields = ended_fields moved_fields

text \<open>
  The first task is the instance itself; every other task has its dependency from the node of its
  parent. A task that has opened its group has a child for every dependency of its node.
\<close>

fun owning :: "pc \<Rightarrow> bool" where
  "owning AtJoin = True"
| "owning AtEnsure = True"
| "owning (AtDep ds) = True"
| "owning (AtStart ds) = True"
| "owning (AtFinish ds e) = True"
| "owning (AtClose e) = True"
| "owning _ = False"

definition wf_tasks :: "depgraph \<Rightarrow> string \<Rightarrow> task list \<Rightarrow> bool" where
  "wf_tasks graph root ts \<longleftrightarrow>
     ts \<noteq> [] \<and> nm ts 0 = root \<and> pc_of ts 0 \<in> {AtJoin, AtRoot} \<union> range Ended \<and>
     (\<forall>i. 0 < i \<longrightarrow> i < length ts \<longrightarrow>
        tk_parent (ts ! i) < i \<and> tk_dep (ts ! i) \<in> set (map_list graph (nm ts (tk_parent (ts ! i)))) \<and> pc_of ts i \<noteq> AtRoot) \<and>
     (\<forall>i. i < length ts \<longrightarrow> i = 0 \<or> owning (pc_of ts i) \<longrightarrow>
        (\<forall>d \<in> set (map_list graph (nm ts i)). \<exists>j. 0 < j \<and> j < length ts \<and> tk_parent (ts ! j) = i \<and> tk_dep (ts ! j) = d))"

lemma wf_tasksD:
  assumes "wf_tasks graph root ts"
  shows "ts \<noteq> []" "nm ts 0 = root" "pc_of ts 0 \<in> {AtJoin, AtRoot} \<union> range Ended"
    "0 < i \<Longrightarrow> i < length ts \<Longrightarrow> tk_parent (ts ! i) < i"
    "0 < i \<Longrightarrow> i < length ts \<Longrightarrow> tk_dep (ts ! i) \<in> set (map_list graph (nm ts (tk_parent (ts ! i))))"
    "0 < i \<Longrightarrow> i < length ts \<Longrightarrow> pc_of ts i \<noteq> AtRoot"
    "i < length ts \<Longrightarrow> i = 0 \<or> owning (pc_of ts i) \<Longrightarrow> d \<in> set (map_list graph (nm ts i)) \<Longrightarrow>
       \<exists>j. 0 < j \<and> j < length ts \<and> tk_parent (ts ! j) = i \<and> tk_dep (ts ! j) = d"
  using assms unfolding wf_tasks_def by blast+

text \<open>A change of the tasks that keeps parents, dependencies and the shape of the first task.\<close>

lemma wf_tasks_same:
  assumes wf: "wf_tasks graph root ts" and len: "length ts' = length ts"
    and same: "\<And>j. tk_parent (ts' ! j) = tk_parent (ts ! j)" "\<And>j. tk_dep (ts' ! j) = tk_dep (ts ! j)"
    and pc0: "pc_of ts' 0 \<in> {AtJoin, AtRoot} \<union> range Ended" and pcs: "\<And>j. 0 < j \<Longrightarrow> j < length ts \<Longrightarrow> pc_of ts' j \<noteq> AtRoot"
    and own: "\<And>j. 0 < j \<Longrightarrow> j < length ts \<Longrightarrow> owning (pc_of ts' j) \<Longrightarrow> owning (pc_of ts j)"
  shows "wf_tasks graph root ts'"
proof -
  have "ts' \<noteq> []" using wf_tasksD(1) [OF wf] len by (metis length_0_conv)
  then show ?thesis
    using wf_tasksD(2,4,5,7) [OF wf] pc0 pcs own unfolding wf_tasks_def len same by (metis gr0I)
qed

lemma quiet_shape:
  assumes "quiet p q"
  shows "p \<notin> {AtJoin, AtRoot} \<union> range Ended" "q \<noteq> AtRoot" "owning q \<Longrightarrow> owning p" "q \<notin> range Ended" "q \<noteq> AtJoin"
  using assms by (auto elim: quiet.elims)

lemma wf_quiet:
  assumes wf: "wf_tasks graph root ts" and i: "i < length ts" and q: "quiet (pc_of ts i) p"
  shows "wf_tasks graph root (moved i p ts)"
proof (rule wf_tasks_same [OF wf])
  from wf_tasksD(3) [OF wf] quiet_shape(1) [OF q] have "i \<noteq> 0" by auto
  with wf_tasksD(3) [OF wf] i show "pc_of (moved i p ts) 0 \<in> {AtJoin, AtRoot} \<union> range Ended" by (simp add: fields)
qed (use i wf_tasksD(6) [OF wf] quiet_shape [OF q] in \<open>auto simp: fields split: if_splits\<close>)

lemma wf_moved:
  assumes wf: "wf_tasks graph root ts" and i: "i < length ts" "0 < i" and p: "p \<noteq> AtRoot" "owning p \<Longrightarrow> owning (pc_of ts i)"
  shows "wf_tasks graph root (moved i p ts)"
  by (rule wf_tasks_same [OF wf]) (use i p wf_tasksD(3,6) [OF wf] in \<open>auto simp: fields split: if_splits\<close>)

lemma wf_ended:
  assumes wf: "wf_tasks graph root ts" and i: "i < length ts"
  shows "wf_tasks graph root (ended i e ts)"
  by (rule wf_tasks_same [OF wf]) (use i wf_tasksD(3,6) [OF wf] in \<open>auto simp: fields split: if_splits\<close>)

lemma spawn_nth: "j < length deps \<Longrightarrow> spawn i deps ! j = \<lparr>tk_parent = i, tk_dep = deps ! j, tk_pc = AtInspect, tk_group = None\<rparr>"
  by (simp add: spawn_def)

lemma length_spawn [simp]: "length (spawn i deps) = length deps"
  by (simp add: spawn_def)

lemma wf_spawn:
  assumes wf: "wf_tasks graph root ts" and i: "0 < i" "i < length ts"
  shows "wf_tasks graph root (moved i AtJoin ts @ spawn i (map_list graph (nm ts i)))"
proof -
  let ?deps = "map_list graph (nm ts i)" let ?ts = "moved i AtJoin ts @ spawn i ?deps"
  have old: "?ts ! j = moved i AtJoin ts ! j" if "j < length ts" for j using that by (simp add: nth_append)
  have new: "?ts ! (length ts + k) = \<lparr>tk_parent = i, tk_dep = ?deps ! k, tk_pc = AtInspect, tk_group = None\<rparr>"
    if "k < length ?deps" for k
    using that spawn_nth [of k ?deps i] by (simp add: nth_append)
  have cases: thesis if "j < length ?ts" "j < length ts \<Longrightarrow> thesis" "\<And>k. j = length ts + k \<Longrightarrow> k < length ?deps \<Longrightarrow> thesis" for j thesis
    using that(1) that(2) that(3) [of "j - length ts"] by (cases "j < length ts") auto
  have one: "tk_parent (?ts ! j) < j \<and> tk_dep (?ts ! j) \<in> set (map_list graph (nm ?ts (tk_parent (?ts ! j)))) \<and> pc_of ?ts j \<noteq> AtRoot"
    if j: "0 < j" "j < length ?ts" for j
  proof (rule cases [OF j(2)])
    assume jl: "j < length ts"
    from wf_tasksD(4) [OF wf j(1) jl] jl have "tk_parent (ts ! j) < length ts" by simp
    with wf_tasksD(4-6) [OF wf j(1) jl] i show ?thesis by (auto simp: old jl fields)
  next
    fix k assume k: "j = length ts + k" "k < length ?deps"
    then show ?thesis using i by (simp add: new old fields)
  qed
  have two: "\<exists>j. 0 < j \<and> j < length ?ts \<and> tk_parent (?ts ! j) = x \<and> tk_dep (?ts ! j) = d"
    if x: "x < length ?ts" "x = 0 \<or> owning (pc_of ?ts x)" and d: "d \<in> set (map_list graph (nm ?ts x))" for x d
  proof (rule cases [OF x(1)])
    assume xl: "x < length ts"
    show ?thesis
    proof (cases "x = i")
      case True
      with d xl obtain k where "k < length ?deps" "?deps ! k = d" by (auto simp: old fields in_set_conv_nth)
      then show ?thesis using new [of k] i True by (intro exI [of _ "length ts + k"]) auto
    next
      case False
      with x xl d i have "x = 0 \<or> owning (pc_of ts x)" "d \<in> set (map_list graph (nm ts x))" by (auto simp: old fields)
      with wf_tasksD(7) [OF wf xl] obtain j where "0 < j" "j < length ts" "tk_parent (ts ! j) = x" "tk_dep (ts ! j) = d" by blast
      then show ?thesis using i by (intro exI [of _ j]) (simp add: old fields)
    qed
  next
    fix k assume "x = length ts + k" "k < length ?deps"
    with x(2) i new [of k] show ?thesis by auto
  qed
  have "?ts \<noteq> []" "nm ?ts 0 = root" "pc_of ?ts 0 \<in> {AtJoin, AtRoot} \<union> range Ended"
    using wf_tasksD(1-3) [OF wf] i by (auto simp: old fields)
  then show ?thesis unfolding wf_tasks_def using one two by blast
qed

lemma wf_move:
  assumes "move graph v v'" and "wf_tasks graph root (fst (snd v))"
  shows "wf_tasks graph root (fst (snd v'))"
  using assms
proof cases
  case (join i ts memo tr)
  then have wf: "wf_tasks graph root ts" using assms(2) by simp
  show ?thesis
  proof (cases "i = 0")
    case True
    have "wf_tasks graph root (moved 0 AtRoot ts)"
      by (rule wf_tasks_same [OF wf]) (use wf_tasksD(1,6) [OF wf] in \<open>auto simp: fields split: if_splits\<close>)
    with join True show ?thesis by simp
  next
    case False
    with wf_moved [OF wf, of i AtEnsure] join show ?thesis by simp
  qed
next
  case (load i ts memo tr)
  then have "0 < i" using assms(2) wf_tasksD(3) [of graph root ts] by (cases i) auto
  with load assms(2) wf_spawn [of graph root ts i] show ?thesis by simp
next
  case (close_ok i ts memo tr)
  then have "0 < i" using assms(2) wf_tasksD(3) [of graph root ts] by (cases i) auto
  with close_ok assms(2) wf_moved [of graph root ts i AtPoll] show ?thesis by simp
next
  case (start i ts ds memo tr err)
  then have "0 < i" using assms(2) wf_tasksD(3) [of graph root ts] by (cases i) auto
  with start assms(2) wf_moved [of graph root ts i "AtFinish ds err"] show ?thesis by simp
qed (use assms(2) in \<open>auto intro: wf_quiet wf_ended wf_moved\<close>)

section \<open>Order of the starts\<close>

text \<open>
  A child that has ended reached its condition or left its error in its group. A task behind its
  group has seen the conditions of all dependencies of its node.
\<close>

fun ready :: "pc \<Rightarrow> bool" where
  "ready AtEnsure = True"
| "ready (AtDep ds) = True"
| "ready (AtStart ds) = True"
| "ready AtRoot = True"
| "ready _ = False"

definition conditions :: "depgraph \<Rightarrow> task list \<Rightarrow> provider_call list \<Rightarrow> bool" where
  "conditions graph ts tr \<longleftrightarrow>
     (\<forall>j e. 0 < j \<longrightarrow> j < length ts \<longrightarrow> pc_of ts j = Ended (Some e) \<longrightarrow> tk_group (ts ! tk_parent (ts ! j)) \<noteq> None) \<and>
     (\<forall>j. 0 < j \<longrightarrow> j < length ts \<longrightarrow> pc_of ts j = Ended None \<longrightarrow> dep_met tr (tk_dep (ts ! j))) \<and>
     (\<forall>i. i < length ts \<longrightarrow> ready (pc_of ts i) \<longrightarrow> met graph tr (nm ts i)) \<and>
     ordered graph [] tr"

lemma conditionsD:
  assumes "conditions graph ts tr"
  shows "0 < j \<Longrightarrow> j < length ts \<Longrightarrow> pc_of ts j = Ended (Some e) \<Longrightarrow> tk_group (ts ! tk_parent (ts ! j)) \<noteq> None"
    "0 < j \<Longrightarrow> j < length ts \<Longrightarrow> pc_of ts j = Ended None \<Longrightarrow> dep_met tr (tk_dep (ts ! j))"
    "i < length ts \<Longrightarrow> ready (pc_of ts i) \<Longrightarrow> met graph tr (nm ts i)" "ordered graph [] tr"
  using assms unfolding conditions_def by blast+

lemma dep_met_more: "dep_met tr d \<Longrightarrow> dep_met (tr @ l) d"
  by (auto simp: dep_met_def)

lemma met_more: "met graph tr n \<Longrightarrow> met graph (tr @ l) n"
  by (auto simp: met_def dep_met_more)

lemma conditions_log: "conditions graph ts tr \<Longrightarrow> ordered graph tr l \<Longrightarrow> conditions graph ts (tr @ l)"
  unfolding conditions_def by (auto simp: ordered_append dep_met_more met_more)

lemma conditions_moved:
  assumes c: "conditions graph ts tr" and i: "i < length ts" and p: "p \<notin> range Ended" "ready p \<Longrightarrow> met graph tr (nm ts i)"
  shows "conditions graph (moved i p ts) tr"
  unfolding conditions_def using conditionsD [OF c] p by (auto simp: fields [OF i] image_iff)

lemma conditions_ended:
  assumes c: "conditions graph ts tr" and wf: "wf_tasks graph root ts" and i: "i < length ts"
    and e: "e = None \<Longrightarrow> 0 < i \<Longrightarrow> dep_met tr (tk_dep (ts ! i))"
  shows "conditions graph (ended i e ts) tr"
proof -
  have "tk_group (ended i e ts ! tk_parent (ts ! j)) \<noteq> None"
    if j: "0 < j" "j < length ts" "pc_of (ended i e ts) j = Ended (Some x)" for j x
  proof (cases "j = i")
    case True
    with j have "e \<noteq> None" "0 < i" by (auto simp: fields [OF i])
    moreover have "tk_parent (ts ! i) < length ts" using wf_tasksD(4) [OF wf \<open>0 < i\<close> i] i by simp
    ultimately show ?thesis using ended_group(2) [OF i] True by blast
  next
    case False
    with j have "pc_of ts j = Ended (Some x)" by (simp add: fields [OF i])
    with conditionsD(1) [OF c j(1,2)] ended_group(1) [OF i] show ?thesis by blast
  qed
  then show ?thesis
    unfolding conditions_def using conditionsD(2-4) [OF c] e by (auto simp: fields [OF i])
qed

lemma conditions_spawn:
  assumes c: "conditions graph ts tr" and parents: "\<And>j. 0 < j \<Longrightarrow> j < length ts \<Longrightarrow> tk_parent (ts ! j) < length ts"
  shows "conditions graph (ts @ spawn i deps) tr"
proof -
  have new: "pc_of (ts @ spawn i deps) j = AtInspect" if "\<not> j < length ts" "j < length (ts @ spawn i deps)" for j
    using that spawn_nth [of "j - length ts" deps i] by (simp add: nth_append)
  have "tk_group ((ts @ spawn i deps) ! tk_parent ((ts @ spawn i deps) ! j)) \<noteq> None"
    if "0 < j" "j < length (ts @ spawn i deps)" "pc_of (ts @ spawn i deps) j = Ended (Some e)" for j e
    using that new [of j] conditionsD(1) [OF c, of j e] parents [of j] by (cases "j < length ts") (auto simp: nth_append)
  moreover have "dep_met tr (tk_dep ((ts @ spawn i deps) ! j))"
    if "0 < j" "j < length (ts @ spawn i deps)" "pc_of (ts @ spawn i deps) j = Ended None" for j
    using that new [of j] conditionsD(2) [OF c, of j] by (cases "j < length ts") (auto simp: nth_append)
  moreover have "met graph tr (nm (ts @ spawn i deps) j)"
    if "j < length (ts @ spawn i deps)" "ready (pc_of (ts @ spawn i deps) j)" for j
    using that new [of j] conditionsD(3) [OF c, of j] by (cases "j < length ts") (auto simp: nth_append)
  ultimately show ?thesis unfolding conditions_def using conditionsD(4) [OF c] by blast
qed

lemma has_ended_iff: "has_ended p \<longleftrightarrow> p \<in> range Ended"
  by (cases p) auto

lemma children_endedD: "children_ended i ts \<Longrightarrow> 0 < j \<Longrightarrow> j < length ts \<Longrightarrow> tk_parent (ts ! j) = i \<Longrightarrow> pc_of ts j \<in> range Ended"
  by (auto simp: children_ended_def list_all_iff has_ended_iff)

lemma children_running: "\<not> children_ended i ts \<Longrightarrow> \<exists>j. 0 < j \<and> j < length ts \<and> tk_parent (ts ! j) = i \<and> pc_of ts j \<notin> range Ended"
  by (auto simp: children_ended_def list_all_iff has_ended_iff)

text \<open>Behind \<open>g.Wait()\<close> without an error, the dependencies of the node have reached their conditions.\<close>

lemma joined_met:
  assumes c: "conditions graph ts tr" and wf: "wf_tasks graph root ts" and i: "i < length ts" "i = 0 \<or> owning (pc_of ts i)"
    and ended: "children_ended i ts" and ok: "tk_group (ts ! i) = None"
  shows "met graph tr (nm ts i)"
  unfolding met_def
proof
  fix d assume "d \<in> set (map_list graph (nm ts i))"
  then obtain j where j: "0 < j" "j < length ts" "tk_parent (ts ! j) = i" "tk_dep (ts ! j) = d"
    using wf_tasksD(7) [OF wf i] by blast
  with children_endedD [OF ended] obtain e where e: "pc_of ts j = Ended e" by blast
  with conditionsD(1) [OF c j(1,2)] ok j(3) have "e = None" by (cases e) auto
  with conditionsD(2) [OF c j(1,2)] e j(4) show "dep_met tr d" by simp
qed

lemma quiet_ready: "quiet p q \<Longrightarrow> ready q \<Longrightarrow> ready p"
  by (auto elim: quiet.elims)

lemma conditions_move:
  assumes "move graph v v'" and "wf_tasks graph root (fst (snd v))" and "conditions graph (fst (snd v)) (snd (snd v))"
  shows "conditions graph (fst (snd v')) (snd (snd v'))"
  using assms
proof cases
  case (quiet i ts p memo l tr)
  then have "conditions graph (moved i p ts) tr"
    using assms(3) conditionsD(3) [of graph ts tr i] quiet_ready quiet_shape(4) by (intro conditions_moved) auto
  with quiet ordered_no_starts show ?thesis by (simp add: conditions_log)
next
  case (join i ts memo tr)
  then have "met graph tr (nm ts i)" using assms(2,3) joined_met [of graph ts tr root i] by simp
  with join assms(3) show ?thesis by (auto intro: conditions_moved)
next
  case (start i ts ds memo tr err)
  then have "ordered graph tr [CallStart (nm ts i)]" using assms(3) conditionsD(3) [of graph ts tr i] by simp
  moreover have "conditions graph (moved i (AtFinish ds err) ts) tr" using start assms(3) by (auto intro: conditions_moved)
  ultimately show ?thesis using start by (simp add: conditions_log)
next
  case (root i ts memo tr err)
  then have m: "ordered graph tr [CallStart (nm ts i)]" using assms(3) conditionsD(3) [of graph ts tr i] by simp
  have "i = 0" using root assms(2) wf_tasksD(6) [of graph _ ts i] by auto
  then have "conditions graph (ended i err ts) tr" using root assms(2,3) by (auto intro: conditions_ended)
  with m show ?thesis using root by (simp add: conditions_log)
next
  case (ending i ts l err tr memo)
  then have "conditions graph (ended i err ts) (tr @ l)"
    using assms(2,3) ordered_no_starts by (intro conditions_ended conditions_log) auto
  with ending show ?thesis by simp
next
  case (load i ts memo tr)
  then have "conditions graph (moved i AtJoin ts) tr" using assms(3) by (auto intro: conditions_moved)
  moreover have "tk_parent (moved i AtJoin ts ! j) < length ts" if "0 < j" "j < length ts" for j
    using wf_tasksD(4) [of graph root ts j] assms(2) load that by (simp add: fields)
  ultimately have "conditions graph (moved i AtJoin ts @ spawn i (map_list graph (nm ts i))) tr"
    by (intro conditions_spawn) simp_all
  with load show ?thesis by simp
qed (use assms(2,3) ordered_no_starts in \<open>auto intro: conditions_moved conditions_log conditions_ended\<close>)

section \<open>Each node once\<close>

text \<open>
  A node in progress has exactly one task that works on it, and it is the one that loaded it first.
\<close>

definition owners :: "dependencyMemo \<Rightarrow> task list \<Rightarrow> bool" where
  "owners memo ts \<longleftrightarrow>
     (\<forall>i. 0 < i \<longrightarrow> i < length ts \<longrightarrow> owning (pc_of ts i) \<longrightarrow> map_of memo (nm ts i) = Some None) \<and>
     (\<forall>i j. 0 < i \<longrightarrow> i < length ts \<longrightarrow> 0 < j \<longrightarrow> j < length ts \<longrightarrow> owning (pc_of ts i) \<longrightarrow> owning (pc_of ts j) \<longrightarrow>
        nm ts i = nm ts j \<longrightarrow> i = j) \<and>
     (\<forall>n. map_of memo n = Some None \<longrightarrow> (\<exists>i. 0 < i \<and> i < length ts \<and> owning (pc_of ts i) \<and> nm ts i = n)) \<and>
     (\<forall>i. 0 < i \<longrightarrow> i < length ts \<longrightarrow> pc_of ts i = AtMemo \<longrightarrow> map_of memo (nm ts i) \<noteq> None) \<and>
     (\<forall>n. map_of memo n \<noteq> None \<longrightarrow> (\<exists>i. 0 < i \<and> i < length ts \<and> nm ts i = n))"

lemma ownersD:
  assumes "owners memo ts"
  shows "0 < i \<Longrightarrow> i < length ts \<Longrightarrow> owning (pc_of ts i) \<Longrightarrow> map_of memo (nm ts i) = Some None"
    "0 < i \<Longrightarrow> i < length ts \<Longrightarrow> 0 < j \<Longrightarrow> j < length ts \<Longrightarrow> owning (pc_of ts i) \<Longrightarrow> owning (pc_of ts j) \<Longrightarrow>
       nm ts i = nm ts j \<Longrightarrow> i = j"
    "map_of memo n = Some None \<Longrightarrow> \<exists>i. 0 < i \<and> i < length ts \<and> owning (pc_of ts i) \<and> nm ts i = n"
    "0 < i \<Longrightarrow> i < length ts \<Longrightarrow> pc_of ts i = AtMemo \<Longrightarrow> map_of memo (nm ts i) \<noteq> None"
    "map_of memo n \<noteq> None \<Longrightarrow> \<exists>i. 0 < i \<and> i < length ts \<and> nm ts i = n"
  using assms unfolding owners_def by blast+

text \<open>A change that leaves the names and who works on what, and does not bring a task to wait for a node that is not loaded.\<close>

lemma owners_same:
  assumes o: "owners memo ts" and len: "length ts' = length ts" and same: "\<And>j. tk_dep (ts' ! j) = tk_dep (ts ! j)"
    and own: "\<And>j. 0 < j \<Longrightarrow> j < length ts \<Longrightarrow> owning (pc_of ts' j) \<longleftrightarrow> owning (pc_of ts j)"
    and wait: "\<And>j. 0 < j \<Longrightarrow> j < length ts \<Longrightarrow> pc_of ts' j = AtMemo \<Longrightarrow> map_of memo (nm ts j) \<noteq> None"
  shows "owners memo ts'"
  unfolding owners_def len same
proof (intro conjI allI impI)
  show "\<exists>i. 0 < i \<and> i < length ts \<and> owning (pc_of ts' i) \<and> nm ts i = n" if "map_of memo n = Some None" for n
    using ownersD(3) [OF o that] own by blast
qed (use ownersD(1,2,5) [OF o] own wait in auto)

lemma owners_close:
  assumes o: "owners memo ts" and len: "length ts' = length ts" and same: "\<And>j. tk_dep (ts' ! j) = tk_dep (ts ! j)"
    and i: "0 < i" "i < length ts" "owning (pc_of ts i)"
    and pcs: "\<And>j. j \<noteq> i \<Longrightarrow> pc_of ts' j = pc_of ts j" "\<not> owning (pc_of ts' i)" "pc_of ts' i \<noteq> AtMemo"
  shows "owners (map_put (nm ts i) (Some r) memo) ts'"
proof -
  have other: "nm ts j \<noteq> nm ts i" if "0 < j" "j < length ts" "owning (pc_of ts j)" "j \<noteq> i" for j
    using ownersD(2) [OF o that(1,2) i(1,2) that(3) i(3)] that(4) by blast
  have "map_of (map_put (nm ts i) (Some r) memo) (nm ts j) = Some None" if "0 < j" "j < length ts" "owning (pc_of ts' j)" for j
    using that other [of j] ownersD(1) [OF o, of j] pcs by (cases "j = i") (auto simp: map_of_put)
  moreover have "j = k" if "0 < j" "j < length ts" "0 < k" "k < length ts" "owning (pc_of ts' j)" "owning (pc_of ts' k)" "nm ts j = nm ts k" for j k
    using ownersD(2) [OF o that(1-4)] that(5-7) pcs by metis
  moreover have "\<exists>j. 0 < j \<and> j < length ts \<and> owning (pc_of ts' j) \<and> nm ts j = n" if "map_of (map_put (nm ts i) (Some r) memo) n = Some None" for n
  proof -
    have "n \<noteq> nm ts i" "map_of memo n = Some None" using that by (auto simp: map_of_put split: if_splits)
    then show ?thesis using ownersD(3) [OF o] pcs(1) by metis
  qed
  moreover have "map_of (map_put (nm ts i) (Some r) memo) (nm ts j) \<noteq> None" if "0 < j" "j < length ts" "pc_of ts' j = AtMemo" for j
    using that ownersD(4) [OF o, of j] pcs by (cases "j = i") (auto simp: map_of_put)
  moreover have "\<exists>j. 0 < j \<and> j < length ts \<and> nm ts j = n" if "map_of (map_put (nm ts i) (Some r) memo) n \<noteq> None" for n
    using that ownersD(5) [OF o, of n] i by (cases "n = nm ts i") (auto simp: map_of_put)
  ultimately show ?thesis unfolding owners_def len same by blast
qed

lemma owners_load:
  assumes o: "owners memo ts" and i: "0 < i" "i < length ts" "pc_of ts i = AtLoad" and new: "map_of memo (nm ts i) = None"
  shows "owners (map_put (nm ts i) None memo) (moved i AtJoin ts @ spawn i deps)"
proof -
  let ?ts = "moved i AtJoin ts @ spawn i deps" and ?memo = "map_put (nm ts i) None memo"
  have old: "pc_of ?ts j = (if j = i then AtJoin else pc_of ts j)" "nm ?ts j = nm ts j" if "j < length ts" for j
    using that i by (simp_all add: nth_append fields)
  have fresh: "pc_of ?ts j = AtInspect" if "\<not> j < length ts" "j < length ?ts" for j
    using that spawn_nth [of "j - length ts" deps i] by (simp add: nth_append)
  have own: "j < length ts \<and> (j = i \<or> owning (pc_of ts j))" if "j < length ?ts" "owning (pc_of ?ts j)" for j
    using that fresh [of j] old [of j] by (cases "j < length ts") (auto split: if_splits)
  have other: "nm ts j \<noteq> nm ts i" if "0 < j" "j < length ts" "owning (pc_of ts j)" for j
    using ownersD(1) [OF o that] new by auto
  have "map_of ?memo (nm ?ts j) = Some None" if "0 < j" "j < length ?ts" "owning (pc_of ?ts j)" for j
    using own [OF that(2,3)] ownersD(1) [OF o that(1)] by (auto simp: map_of_put old)
  moreover have "j = k" if "0 < j" "j < length ?ts" "0 < k" "k < length ?ts" "owning (pc_of ?ts j)" "owning (pc_of ?ts k)" "nm ?ts j = nm ?ts k" for j k
  proof -
    have "nm ts j = nm ts k" using own [OF that(2,5)] own [OF that(4,6)] that(7) by (simp add: old)
    then show ?thesis
      using own [OF that(2,5)] own [OF that(4,6)] other [OF that(1)] other [OF that(3)] ownersD(2) [OF o that(1) _ that(3)] by metis
  qed
  moreover have "\<exists>j. 0 < j \<and> j < length ?ts \<and> owning (pc_of ?ts j) \<and> nm ?ts j = n" if "map_of ?memo n = Some None" for n
  proof (cases "n = nm ts i")
    case True
    then show ?thesis using i by (intro exI [of _ i]) (simp add: old)
  next
    case False
    with that ownersD(3) [OF o, of n] obtain j where "0 < j" "j < length ts" "owning (pc_of ts j)" "nm ts j = n"
      by (auto simp: map_of_put)
    then show ?thesis by (intro exI [of _ j]) (auto simp: old)
  qed
  moreover have "map_of ?memo (nm ?ts j) \<noteq> None" if "0 < j" "j < length ?ts" "pc_of ?ts j = AtMemo" for j
    using that fresh [of j] ownersD(4) [OF o, of j] by (cases "j < length ts") (auto simp: map_of_put old split: if_splits)
  moreover have "\<exists>j. 0 < j \<and> j < length ?ts \<and> nm ?ts j = n" if n: "map_of ?memo n \<noteq> None" for n
  proof (cases "n = nm ts i")
    case False
    with n ownersD(5) [OF o, of n] obtain j where "0 < j" "j < length ts" "nm ts j = n" by (auto simp: map_of_put)
    then show ?thesis by (intro exI [of _ j]) (simp add: old)
  qed (use i in \<open>auto simp: old intro!: exI [of _ i]\<close>)
  ultimately show ?thesis unfolding owners_def by blast
qed

lemma owners_moved:
  assumes "owners memo ts" and i: "i < length ts" and p: "0 < i \<Longrightarrow> owning p = owning (pc_of ts i)" "p \<noteq> AtMemo"
  shows "owners memo (moved i p ts)"
  by (rule owners_same [OF assms(1)]) (use i p ownersD(4) [OF assms(1)] in \<open>auto simp: fields split: if_splits\<close>)

lemma owners_ended:
  assumes "owners memo ts" and i: "i < length ts" and p: "0 < i \<Longrightarrow> \<not> owning (pc_of ts i)"
  shows "owners memo (ended i e ts)"
  by (rule owners_same [OF assms(1)]) (use i p ownersD(4) [OF assms(1)] in \<open>auto simp: fields split: if_splits\<close>)

lemma owners_quiet:
  assumes o: "owners memo ts" and i: "i < length ts" and q: "quiet (pc_of ts i) p" and m: "p = AtMemo \<longrightarrow> map_of memo (nm ts i) \<noteq> None"
  shows "owners memo (moved i p ts)"
proof (rule owners_same [OF o])
  show "owning (pc_of (moved i p ts) j) = owning (pc_of ts j)" for j
    using i q by (auto simp: fields elim: quiet.elims)
qed (use i m ownersD(4) [OF o] in \<open>auto simp: fields split: if_splits\<close>)

lemma owners_move:
  assumes "move graph v v'" and "wf_tasks graph root (fst (snd v))" and "owners (fst v) (fst (snd v))"
  shows "owners (fst v') (fst (snd v'))"
  using assms
proof cases
  case (load i ts memo tr)
  then have "0 < i" using assms(2) wf_tasksD(3) [of graph root ts] by (cases i) auto
  with load assms(3) show ?thesis by (simp add: owners_load)
next
  case (close_ok i ts memo tr)
  then have "0 < i" using assms(2) wf_tasksD(3) [of graph root ts] by (cases i) auto
  with close_ok assms(3) show ?thesis by (auto simp: fields intro: owners_close)
next
  case (close_err i ts e memo tr)
  then have "0 < i" using assms(2) wf_tasksD(3) [of graph root ts] by (cases i) auto
  with close_err assms(3) show ?thesis by (auto simp: fields intro: owners_close)
qed (use assms(3) in \<open>auto intro: owners_quiet owners_moved owners_ended\<close>)

text \<open>The graph below the instance has no cycle, which \<open>dependencyGraphCycle\<close> has checked.\<close>

definition acyclic_from :: "depgraph \<Rightarrow> string \<Rightarrow> bool" where
  "acyclic_from graph root \<longleftrightarrow> (\<forall>n. (root, n) \<in> (edges graph)\<^sup>* \<longrightarrow> (n, n) \<notin> (edges graph)\<^sup>+)"

lemma task_edge: "wf_tasks graph root ts \<Longrightarrow> 0 < i \<Longrightarrow> i < length ts \<Longrightarrow> (nm ts (tk_parent (ts ! i)), nm ts i) \<in> edges graph"
  using wf_tasksD(5) by (fastforce simp: edges_def)

lemma task_below: "wf_tasks graph root ts \<Longrightarrow> 0 < i \<Longrightarrow> i < length ts \<Longrightarrow> (root, nm ts i) \<in> (edges graph)\<^sup>+"
proof (induction i rule: less_induct)
  case (less i)
  let ?p = "tk_parent (ts ! i)"
  have p: "?p < i" using wf_tasksD(4) less.prems by blast
  show ?case
  proof (cases "?p = 0")
    case True
    with task_edge [OF less.prems] wf_tasksD(2) [OF less.prems(1)] show ?thesis by auto
  next
    case False
    with less.IH [OF p less.prems(1)] p less.prems(3) have "(root, nm ts ?p) \<in> (edges graph)\<^sup>+" by simp
    then show ?thesis using task_edge [OF less.prems] by (rule trancl_into_trancl)
  qed
qed

lemma root_not_below: "acyclic_from graph root \<Longrightarrow> wf_tasks graph root ts \<Longrightarrow> 0 < i \<Longrightarrow> i < length ts \<Longrightarrow> nm ts i \<noteq> root"
  using task_below [of graph root ts i] unfolding acyclic_from_def by auto

fun prestart :: "pc \<Rightarrow> bool" where
  "prestart AtJoin = True"
| "prestart AtEnsure = True"
| "prestart (AtDep ds) = True"
| "prestart (AtStart ds) = True"
| "prestart _ = False"

text \<open>An instance that was started is not about to be started by any task.\<close>

definition settled :: "dependencyMemo \<Rightarrow> task list \<Rightarrow> string \<Rightarrow> bool" where
  "settled memo ts n \<longleftrightarrow>
     map_of memo n \<noteq> None \<and> (\<forall>i. 0 < i \<longrightarrow> i < length ts \<longrightarrow> nm ts i = n \<longrightarrow> \<not> prestart (pc_of ts i))"

definition started_once :: "string \<Rightarrow> view \<Rightarrow> bool" where
  "started_once root v =
     (case v of (memo, ts, tr) \<Rightarrow>
        distinct (starts tr) \<and> (pc_of ts 0 = Ended None \<longrightarrow> root \<in> set (starts tr)) \<and>
        (\<forall>n \<in> set (starts tr). n = root \<and> pc_of ts 0 \<in> range Ended \<or> settled memo ts n))"

lemma started_onceD:
  assumes "started_once root (memo, ts, tr)"
  shows "distinct (starts tr)" "pc_of ts 0 = Ended None \<Longrightarrow> root \<in> set (starts tr)"
    "n \<in> set (starts tr) \<Longrightarrow> n = root \<and> pc_of ts 0 \<in> range Ended \<or> settled memo ts n"
  using assms unfolding started_once_def by auto

lemma started_once_same:
  assumes o: "started_once root (memo, ts, tr)" and l: "starts l = []"
    and len: "length ts' = length ts" and same: "\<And>j. tk_dep (ts' ! j) = tk_dep (ts ! j)"
    and pre: "\<And>j. 0 < j \<Longrightarrow> j < length ts \<Longrightarrow> prestart (pc_of ts' j) \<Longrightarrow> prestart (pc_of ts j)"
    and pc0: "pc_of ts 0 \<in> range Ended \<Longrightarrow> pc_of ts' 0 = pc_of ts 0" "pc_of ts' 0 = Ended None \<Longrightarrow> pc_of ts 0 = Ended None"
    and memo: "\<And>n. map_of memo n \<noteq> None \<Longrightarrow> map_of memo' n \<noteq> None"
  shows "started_once root (memo', ts', tr @ l)"
proof -
  have "settled memo' ts' n" if "settled memo ts n" for n
    using that pre memo [of n] unfolding settled_def len same by blast
  then have "n = root \<and> pc_of ts' 0 \<in> range Ended \<or> settled memo' ts' n" if "n \<in> set (starts tr)" for n
    using started_onceD(3) [OF o that] pc0(1) by metis
  moreover have "pc_of ts' 0 = Ended None \<longrightarrow> root \<in> set (starts tr)" using started_onceD(2) [OF o] pc0(2) by blast
  moreover note started_onceD(1) [OF o]
  ultimately show ?thesis unfolding started_once_def using l by simp
qed

lemma quiet_prestart: "quiet p q \<Longrightarrow> prestart q \<Longrightarrow> prestart p"
  by (auto elim: quiet.elims)

lemma settled_moved: "settled memo ts n \<Longrightarrow> i < length ts \<Longrightarrow> \<not> prestart p \<Longrightarrow> settled memo (moved i p ts) n"
  by (auto simp: settled_def fields)

lemma settled_ended: "settled memo ts n \<Longrightarrow> i < length ts \<Longrightarrow> settled memo (ended i e ts) n"
  by (auto simp: settled_def fields)

lemma started_once_start:
  assumes wf: "wf_tasks graph root ts" and ow: "owners memo ts" and ac: "acyclic_from graph root"
    and st: "started_once root (memo, ts, tr)" and i: "i < length ts" "pc_of ts i = AtStart ds"
  shows "started_once root (memo, moved i (AtFinish ds err) ts, tr @ [CallStart (nm ts i)])"
proof -
  note o = started_onceD [OF st]
  let ?ts = "moved i (AtFinish ds err) ts"
  have i0: "0 < i" using i wf_tasksD(3) [OF wf] by (cases i) auto
  have own: "owning (pc_of ts i)" using i by simp
  have "\<not> settled memo ts (nm ts i)" using i0 i unfolding settled_def by (metis prestart.simps(4))
  then have new: "nm ts i \<notin> set (starts tr)" using o(3) root_not_below [OF ac wf i0 i(1)] by blast
  have "\<not> prestart (pc_of ?ts j)" if "0 < j" "j < length ts" "nm ts j = nm ts i" for j
  proof (cases "j = i")
    case False
    with ownersD(2) [OF ow that(1,2) i0 i(1) _ own that(3)] have "\<not> owning (pc_of ts j)" by blast
    with False i(1) show ?thesis by (cases "pc_of ts j") (auto simp: fields)
  qed (use i in \<open>simp add: fields\<close>)
  then have "settled memo ?ts (nm ts i)" using ownersD(1) [OF ow i0 i(1) own] i by (simp add: settled_def fields)
  moreover have "settled memo ?ts n" if "settled memo ts n" for n using settled_moved [OF that i(1)] by simp
  moreover have "pc_of ?ts 0 = pc_of ts 0" using i0 i by (simp add: fields)
  ultimately show ?thesis unfolding started_once_def using o(1,2) new o(3) by auto
qed

lemma started_once_root:
  assumes wf: "wf_tasks graph root ts" and ow: "owners memo ts" and ac: "acyclic_from graph root"
    and st: "started_once root (memo, ts, tr)" and i: "i < length ts" "pc_of ts i = AtRoot"
  shows "started_once root (memo, ended i err ts, tr @ [CallStart (nm ts i)])"
proof -
  note o = started_onceD [OF st]
  have i0: "i = 0" using wf_tasksD(6) [OF wf _ i(1)] i(2) by auto
  have n0: "nm ts 0 = root" by (rule wf_tasksD(2) [OF wf])
  have "map_of memo root = None" using ownersD(5) [OF ow, of root] root_not_below [OF ac wf] by blast
  then have "root \<notin> set (starts tr)" using o(3) [of root] i i0 by (auto simp: settled_def)
  moreover have "settled memo (ended i err ts) n" if "settled memo ts n" for n using settled_ended [OF that i(1)] .
  moreover have "pc_of (ended i err ts) 0 \<in> range Ended" using i0 i by (simp add: fields)
  ultimately show ?thesis unfolding started_once_def using i0 n0 o by auto
qed

lemma started_once_load:
  assumes wf: "wf_tasks graph root ts" and ac: "acyclic_from graph root" and st: "started_once root (memo, ts, tr)"
    and i: "i < length ts" "pc_of ts i = AtLoad" "map_of memo (nm ts i) = None"
  shows "started_once root (map_put (nm ts i) None memo, moved i AtJoin ts @ spawn i deps, tr)"
proof -
  note o = started_onceD [OF st]
  let ?ts = "moved i AtJoin ts @ spawn i deps" and ?memo = "map_put (nm ts i) None memo"
  have i0: "0 < i" using i wf_tasksD(3) [OF wf] by (cases i) auto
  have new: "nm ts i \<notin> set (starts tr)"
    using o(3) [of "nm ts i"] root_not_below [OF ac wf i0 i(1)] i(3) by (auto simp: settled_def)
  have old: "pc_of ?ts j = (if j = i then AtJoin else pc_of ts j)" "nm ?ts j = nm ts j" if "j < length ts" for j
    using that i by (simp_all add: nth_append fields)
  have fresh: "pc_of ?ts j = AtInspect" if "\<not> j < length ts" "j < length ?ts" for j
    using that spawn_nth [of "j - length ts" deps i] by (simp add: nth_append)
  have "settled ?memo ?ts n" if n: "n \<in> set (starts tr)" "settled memo ts n" for n
  proof -
    have "\<not> prestart (pc_of ?ts j)" if "0 < j" "j < length ?ts" "nm ?ts j = n" for j
      using that n new fresh [of j] by (cases "j < length ts") (auto simp: settled_def old)
    with n show ?thesis by (auto simp: settled_def map_of_put)
  qed
  moreover have "pc_of ?ts 0 = pc_of ts 0" using i i0 old(1) [of 0] by (cases ts) auto
  ultimately show ?thesis unfolding started_once_def prod.case using o by metis
qed

lemma started_once_moved:
  assumes st: "started_once root (memo, ts, tr)" and i: "i < length ts" "\<not> has_ended (pc_of ts i)" and l: "starts l = []"
    and p: "prestart p \<Longrightarrow> prestart (pc_of ts i)" "\<not> has_ended p" and m: "\<And>n. map_of memo n \<noteq> None \<Longrightarrow> map_of memo' n \<noteq> None"
  shows "started_once root (memo', moved i p ts, tr @ l)"
  by (rule started_once_same [OF st l]) (use i p m in \<open>auto simp: fields has_ended_iff split: if_splits\<close>)

lemma started_once_ended:
  assumes st: "started_once root (memo, ts, tr)" and i: "i < length ts" "\<not> has_ended (pc_of ts i)" and l: "starts l = []"
    and e: "e = None \<Longrightarrow> 0 < i" and m: "\<And>n. map_of memo n \<noteq> None \<Longrightarrow> map_of memo' n \<noteq> None"
  shows "started_once root (memo', ended i e ts, tr @ l)"
  by (rule started_once_same [OF st l]) (use i e m in \<open>auto simp: fields has_ended_iff split: if_splits\<close>)

lemma started_once_move:
  assumes m: "move graph v v'" and wf: "wf_tasks graph root (fst (snd v))" and ow: "owners (fst v) (fst (snd v))"
    and ac: "acyclic_from graph root" and st: "started_once root v"
  shows "started_once root v'"
  using m
proof cases
  case (quiet i ts p memo l tr)
  then have q: "quiet (pc_of ts i) p" by blast
  from quiet st started_once_moved [OF _ _ _ _ quiet_prestart [OF q]] quiet_shape [OF q] show ?thesis by (auto simp: has_ended_iff)
next
  case (poll i ts l memo tr)
  then show ?thesis using st started_once_same [of root memo ts tr l ts memo] by simp
next
  case (ending i ts l err tr memo)
  have "0 < i" if "err = None" using that ending wf wf_tasksD(3) [of graph root ts] by (cases "i = 0") auto
  with ending st started_once_ended [of root memo ts tr i l err memo] show ?thesis by auto
next
  case (close_ok i ts memo tr)
  then show ?thesis
    using st started_once_moved [of root memo ts tr i "[]" AtPoll "map_put (nm ts i) (Some None) memo"] by (auto simp: map_of_put)
next
  case (close_err i ts e memo tr)
  then show ?thesis
    using st started_once_ended [of root memo ts tr i "[]" "Some e" "map_put (nm ts i) (Some (Some e)) memo"]
    by (auto simp: map_of_put)
next
  case (join i ts memo tr)
  then show ?thesis
    using st started_once_moved [of root memo ts tr i "[]" "if i = 0 then AtRoot else AtEnsure" memo] by auto
next
  case (fail i ts memo tr e)
  then show ?thesis using st started_once_moved [of root memo ts tr i "[]" "AtClose (Some e)" memo] by auto
qed (use wf ow ac st in \<open>auto intro: started_once_start started_once_root started_once_load\<close>)

section \<open>Progress\<close>

definition running :: "('st, 'w) dep_walk \<Rightarrow> bool" where
  "running w \<longleftrightarrow> pc_of (w_tasks w) 0 \<notin> range Ended"

definition can_step :: "depgraph \<Rightarrow> ('st, 'w) dep_walk \<Rightarrow> bool" where
  "can_step graph w \<longleftrightarrow> (\<exists>c i w'. task_step graph c i w = Some w')"

text \<open>A task that waits for a start of its instance by another walk.\<close>

definition awaits_other :: "('st, 'w) dep_walk \<Rightarrow> bool" where
  "awaits_other w \<longleftrightarrow>
     (\<exists>i ds. i < length (w_tasks w) \<and> pc_of (w_tasks w) i = AtDep ds \<and> \<not> ds_done (s_dsHeap (w_core w) ! ds))"

lemma walk_inspect_run: "\<exists>r w1. walk_inspect Run i w = Some (r, w1)"
  by (auto simp: walk_inspect_def Let_def split: prod.splits sum.splits)

lemma walk_start_run: "\<exists>e w1. walk_start Run i w = Some (e, w1)"
  by (auto simp: walk_start_def Let_def split: prod.splits)

lemma at_inspect_run: "at_inspect Run i w \<noteq> None"
proof -
  obtain r w1 where "walk_inspect Run i w = Some (r, w1)" using walk_inspect_run by blast
  then show ?thesis by (cases r) (auto simp: at_inspect_def)
qed

lemma at_poll_run: "at_poll Run i w \<noteq> None"
proof -
  obtain r w1 where "walk_inspect Run i w = Some (r, w1)" using walk_inspect_run by blast
  then show ?thesis by (cases r) (auto simp: at_poll_def Let_def)
qed

lemma at_start_run: "at_start Run i ds w \<noteq> None"
  using walk_start_run [of i w] by (auto simp: at_start_def)

lemma at_root_run: "at_root Run i w \<noteq> None"
  using walk_start_run [of i w] by (auto simp: at_root_def)

text \<open>A task that cannot move waits for the owner of its node, for a child, or for another walk.\<close>

lemma stuck_task:
  assumes i: "i < length (w_tasks w)" and ne: "pc_of (w_tasks w) i \<notin> range Ended" and stuck: "\<And>c. task_step graph c i w = None"
  shows "pc_of (w_tasks w) i = AtMemo \<and> (\<nexists>e. map_of (w_memo w) (nm (w_tasks w) i) = Some (Some e)) \<or>
    pc_of (w_tasks w) i = AtJoin \<and> \<not> children_ended i (w_tasks w) \<or>
    (\<exists>ds. pc_of (w_tasks w) i = AtDep ds \<and> \<not> ds_done (s_dsHeap (w_core w) ! ds))"
proof -
  note run = at_inspect_run at_poll_run at_start_run at_root_run
  show ?thesis
    using i ne stuck [of Run]
    by (cases "pc_of (w_tasks w) i")
      (auto simp: task_step_def at_memo_def at_join_def at_dep_def run simp del: not_None_eq split: option.splits if_splits)
qed

lemma edges_finite: "finite (edges graph)"
proof -
  have "edges graph \<subseteq> set (map_keys graph) \<times> (\<Union>n \<in> set (map_keys graph). dep_Name ` set (map_list graph n))"
  proof
    fix e assume "e \<in> edges graph"
    moreover obtain a b where e: "e = (a, b)" by (cases e)
    ultimately have ab: "(a, b) \<in> edges graph" by simp
    then have "b \<in> dep_Name ` set (map_list graph a)" by (simp add: edges_def)
    then show "e \<in> set (map_keys graph) \<times> (\<Union>n \<in> set (map_keys graph). dep_Name ` set (map_list graph n))"
      unfolding e using keys_edges [OF ab] by (intro SigmaI UN_I)
  qed
  then show ?thesis by (rule finite_subset) simp
qed

lemma wf_below:
  assumes "acyclic_from graph root"
  shows "wf {(b, a). (a, b) \<in> edges graph \<and> (root, a) \<in> (edges graph)\<^sup>*}" (is "wf ?r")
proof (rule finite_acyclic_wf)
  have "?r \<subseteq> (edges graph)\<inverse>" by auto
  then show "finite ?r" by (rule finite_subset) (simp add: edges_finite)
  have "(n, n) \<notin> ?r\<^sup>+" for n
  proof
    assume n: "(n, n) \<in> ?r\<^sup>+"
    then have "(n, n) \<in> ((edges graph)\<inverse>)\<^sup>+" by (rule trancl_mono) auto
    then have "(n, n) \<in> (edges graph)\<^sup>+" by (simp add: trancl_converse)
    moreover have "(root, n) \<in> (edges graph)\<^sup>*" using n by (cases rule: tranclE) auto
    ultimately show False using assms unfolding acyclic_from_def by blast
  qed
  then show "acyclic ?r" by (simp add: acyclic_def)
qed

lemma progress:
  assumes wf: "wf_tasks graph root (w_tasks w)" and ow: "owners (w_memo w) (w_tasks w)" and ac: "acyclic_from graph root"
    and run: "running w"
  shows "can_step graph w \<or> awaits_other w"
proof (rule ccontr)
  let ?ts = "w_tasks w"
  assume "\<not> (can_step graph w \<or> awaits_other w)"
  then have stuck: "task_step graph c i w = None" and no_dep: "\<not> awaits_other w" for c i
    by (auto simp: can_step_def)
  have cases: "pc_of ?ts i = AtMemo \<and> (\<nexists>e. map_of (w_memo w) (nm ?ts i) = Some (Some e)) \<or>
      pc_of ?ts i = AtJoin \<and> \<not> children_ended i ?ts"
    if "i < length ?ts" "pc_of ?ts i \<notin> range Ended" for i
    using stuck_task [OF that stuck] no_dep that(1) unfolding awaits_other_def by blast
  have "\<forall>i. i < length ?ts \<longrightarrow> nm ?ts i = n \<longrightarrow> (root, n) \<in> (edges graph)\<^sup>* \<longrightarrow> pc_of ?ts i \<in> range Ended" for n
  proof (induction n rule: wf_induct_rule [OF wf_below [OF ac]])
    case (1 n)
    have joined: "pc_of ?ts i \<noteq> AtJoin" if i: "i < length ?ts" "nm ?ts i = n" "(root, n) \<in> (edges graph)\<^sup>*" for i
    proof
      assume "pc_of ?ts i = AtJoin"
      with cases [OF i(1)] have "\<not> children_ended i ?ts" by auto
      then obtain j where j: "0 < j" "j < length ?ts" "tk_parent (?ts ! j) = i" "pc_of ?ts j \<notin> range Ended"
        using children_running by blast
      have e: "(n, nm ?ts j) \<in> edges graph" using task_edge [OF wf j(1,2)] j(3) i(2) by simp
      then have "(root, nm ?ts j) \<in> (edges graph)\<^sup>*" using i(3) by (rule rtrancl_into_rtrancl [rotated])
      with 1 [of "nm ?ts j"] e i(3) j(2,4) show False by simp
    qed
    show ?case
    proof (intro allI impI, rule ccontr)
      fix i assume i: "i < length ?ts" "nm ?ts i = n" "(root, n) \<in> (edges graph)\<^sup>*" "pc_of ?ts i \<notin> range Ended"
      with cases [OF i(1,4)] joined [OF i(1-3)] have m: "pc_of ?ts i = AtMemo" "\<nexists>e. map_of (w_memo w) n = Some (Some e)" by auto
      have "i \<noteq> 0" using m(1) wf_tasksD(3) [OF wf] by (cases "i = 0") auto
      then have "map_of (w_memo w) n = Some None" using ownersD(4) [OF ow _ i(1) m(1)] i(2) m(2) by (metis gr0I not_None_eq)
      then obtain j where j: "0 < j" "j < length ?ts" "owning (pc_of ?ts j)" "nm ?ts j = n" using ownersD(3) [OF ow] by blast
      have "pc_of ?ts j \<notin> range Ended" using j(3) by auto
      with cases [OF j(2)] joined [OF j(2,4) i(3)] j(3) show False by auto
    qed
  qed
  then have "pc_of ?ts 0 \<in> range Ended" using wf_tasksD(1,2) [OF wf] by auto
  with run show False by (simp add: running_def)
qed

section \<open>Number of steps\<close>

fun rank :: "pc \<Rightarrow> nat" where
  "rank AtInspect = 8"
| "rank AtLoad = 7"
| "rank AtJoin = 6"
| "rank AtEnsure = 5"
| "rank (AtDep ds) = 4"
| "rank (AtStart ds) = 4"
| "rank (AtFinish ds e) = 3"
| "rank (AtClose e) = 2"
| "rank AtMemo = 2"
| "rank AtPoll = 1"
| "rank AtRoot = 1"
| "rank (Ended e) = 0"

text \<open>The steps that the tasks can still make, and those of the tasks of nodes that are not loaded yet.\<close>

definition ranks :: "task list \<Rightarrow> nat list" where
  "ranks ts = map (\<lambda>t. rank (tk_pc t)) ts"

definition unloaded :: "depgraph \<Rightarrow> dependencyMemo \<Rightarrow> nat" where
  "unloaded graph memo = (\<Sum>n \<in> set (map_keys graph). if map_of memo n = None then length (map_list graph n) else 0)"

definition potential :: "depgraph \<Rightarrow> view \<Rightarrow> nat" where
  "potential graph v = (case v of (memo, ts, tr) \<Rightarrow> sum_list (ranks ts) + 8 * unloaded graph memo)"

definition walk_bound :: "depgraph \<Rightarrow> string \<Rightarrow> nat" where
  "walk_bound graph root = 6 + 8 * length (map_list graph root) + 8 * unloaded graph []"

lemma ranks_moved: "i < length ts \<Longrightarrow> ranks (moved i p ts) = (ranks ts)[i := rank p]"
  by (simp add: ranks_def moved_def map_update)

lemma ranks_ended: "i < length ts \<Longrightarrow> ranks (ended i e ts) = (ranks ts)[i := 0]"
  by (rule nth_equalityI) (auto simp: ranks_def fields nth_list_update)

lemma sum_ranks_update:
  "i < length ts \<Longrightarrow> r < rank (pc_of ts i) \<Longrightarrow> sum_list ((ranks ts)[i := r]) < sum_list (ranks ts)"
  "i < length ts \<Longrightarrow> r < rank (pc_of ts i) \<Longrightarrow> Suc (sum_list ((ranks ts)[i := r])) \<le> sum_list (ranks ts)"
  using elem_le_sum_list [of i "ranks ts"] by (auto simp: sum_list_update ranks_def)

lemma unloaded_put: "unloaded graph (map_put n r memo) \<le> unloaded graph memo"
  unfolding unloaded_def by (rule sum_mono) (simp add: map_of_put)

lemma unloaded_load:
  assumes "map_of memo n = None"
  shows "unloaded graph memo = length (map_list graph n) + unloaded graph (map_put n r memo)"
proof (cases "n \<in> set (map_keys graph)")
  case True
  let ?f = "\<lambda>memo m. if map_of memo m = None then length (map_list graph m) else 0"
  have "unloaded graph memo = ?f memo n + (\<Sum>m \<in> set (map_keys graph) - {n}. ?f memo m)"
    unfolding unloaded_def using True by (simp add: sum.remove)
  moreover have "unloaded graph (map_put n r memo) = (\<Sum>m \<in> set (map_keys graph) - {n}. ?f memo m)"
    unfolding unloaded_def using True by (simp add: sum.remove map_of_put)
  ultimately show ?thesis using assms by simp
next
  case False
  then have "map_of graph n = None" by (simp add: map_of_eq_None_iff)
  then have "map_list graph n = []" by (simp add: map_list_def)
  moreover have "unloaded graph (map_put n r memo) = unloaded graph memo"
    unfolding unloaded_def using False by (intro sum.cong) (auto simp: map_of_put)
  ultimately show ?thesis by simp
qed

lemma quiet_rank: "quiet p q \<Longrightarrow> rank q < rank p"
  by (auto elim: quiet.elims)

lemma unloaded_move: "move graph v v' \<Longrightarrow> unloaded graph (fst v') \<le> unloaded graph (fst v)"
  by (induction rule: move.induct) (simp_all add: unloaded_put)

lemma potential_move: "move graph v v' \<Longrightarrow> fst (snd v') \<noteq> fst (snd v) \<Longrightarrow> potential graph v' < potential graph v"
proof (induction rule: move.induct)
  case (quiet i ts p memo l tr)
  then show ?case using sum_ranks_update(1) [OF quiet(1) quiet_rank [OF quiet(2)]] by (simp add: potential_def ranks_moved)
next
  case (join i ts memo tr)
  then show ?case using sum_ranks_update(1) [of i ts] by (simp add: potential_def ranks_moved)
next
  case (fail i ts memo tr e)
  then show ?case using sum_ranks_update(1) [of i ts] by (simp add: potential_def ranks_moved)
next
  case (start i ts ds memo tr err)
  then show ?case using sum_ranks_update(1) [of i ts] by (simp add: potential_def ranks_moved)
next
  case (root i ts memo tr err)
  then show ?case using sum_ranks_update(1) [of i ts] by (simp add: potential_def ranks_ended)
next
  case (ending i ts l err tr memo)
  then show ?case using sum_ranks_update(1) [of i ts 0] by (auto simp: potential_def ranks_ended)
next
  case (load i ts memo tr)
  then show ?case
    using sum_ranks_update(1) [of i ts 6] unloaded_load [OF load(3), of graph None]
    by (simp add: potential_def ranks_moved ranks_def [of "_ @ _"] spawn_def ranks_def [of "moved _ _ _", symmetric] comp_def sum_list_triv)
next
  case (close_ok i ts memo tr)
  then show ?case
    using sum_ranks_update(1) [of i ts 1] unloaded_put [of graph "nm ts i" "Some None" memo] by (simp add: potential_def ranks_moved)
next
  case (close_err i ts e memo tr)
  then show ?case
    using sum_ranks_update(1) [of i ts 0] unloaded_put [of graph "nm ts i" "Some (Some e)" memo] by (simp add: potential_def ranks_ended)
qed simp

section \<open>All interleavings\<close>

definition walk_inv :: "depgraph \<Rightarrow> string \<Rightarrow> view \<Rightarrow> bool" where
  "walk_inv graph root v \<longleftrightarrow>
     wf_tasks graph root (fst (snd v)) \<and> conditions graph (fst (snd v)) (snd (snd v)) \<and>
     owners (fst v) (fst (snd v)) \<and> started_once root v"

lemma walk_inv_move: "acyclic_from graph root \<Longrightarrow> move graph v v' \<Longrightarrow> walk_inv graph root v \<Longrightarrow> walk_inv graph root v'"
  unfolding walk_inv_def using wf_move conditions_move owners_move started_once_move by meson

lemma init_nth:
  "w_tasks (walk_init graph root s) ! j =
     (if j = 0 then \<lparr>tk_parent = 0, tk_dep = \<lparr>dep_Name = root, dep_Condition = []\<rparr>, tk_pc = AtJoin, tk_group = None\<rparr>
      else spawn 0 (map_list graph root) ! (j - 1))"
  by (cases j) (simp_all add: walk_init_def)

lemma init_inv: "walk_inv graph root (view_of (walk_init graph root s))"
proof -
  let ?deps = "map_list graph root" let ?ts = "w_tasks (walk_init graph root s)"
  have len: "length ?ts = Suc (length ?deps)" by (simp add: walk_init_def)
  have t: "?ts ! j = \<lparr>tk_parent = 0, tk_dep = ?deps ! (j - 1), tk_pc = AtInspect, tk_group = None\<rparr>" if "0 < j" "j < length ?ts" for j
    using that len spawn_nth [of "j - 1" ?deps 0] by (simp add: init_nth)
  have t0: "?ts ! 0 = \<lparr>tk_parent = 0, tk_dep = \<lparr>dep_Name = root, dep_Condition = []\<rparr>, tk_pc = AtJoin, tk_group = None\<rparr>"
    by (simp add: init_nth)
  have group: "\<exists>j. 0 < j \<and> j < length ?ts \<and> tk_parent (?ts ! j) = i \<and> tk_dep (?ts ! j) = d"
    if i: "i < length ?ts" "i = 0 \<or> owning (pc_of ?ts i)" and d: "d \<in> set (map_list graph (nm ?ts i))" for i d
  proof -
    have "i = 0" using i t [of i] by (cases "i = 0") auto
    with d t0 obtain k where "k < length ?deps" "?deps ! k = d" by (auto simp: in_set_conv_nth)
    then show ?thesis using t [of "Suc k"] len \<open>i = 0\<close> by (intro exI [of _ "Suc k"]) simp
  qed
  have "wf_tasks graph root ?ts"
    unfolding wf_tasks_def
  proof (intro conjI allI impI ballI)
    show "tk_parent (?ts ! i) < i" "tk_dep (?ts ! i) \<in> set (map_list graph (nm ?ts (tk_parent (?ts ! i))))" "pc_of ?ts i \<noteq> AtRoot"
      if "0 < i" "i < length ?ts" for i
      using t [OF that] t0 that len by simp_all
  qed (use group len t0 in auto)
  moreover have "conditions graph ?ts []"
    unfolding conditions_def
  proof (intro conjI allI impI)
    show "met graph [] (nm ?ts i)" if "i < length ?ts" "ready (pc_of ?ts i)" for i
      using that t [of i] t0 by (cases "i = 0") auto
  qed (use t in auto)
  moreover have "owners [] ?ts" unfolding owners_def using t by auto
  moreover have "started_once root ([], ?ts, [])" unfolding started_once_def using t0 by simp
  ultimately show ?thesis by (simp add: walk_inv_def view_of_def walk_init_def newDependencyMemo_def)
qed

lemma walks_inv:
  assumes "acyclic_from graph root" and "walks graph root k w"
  shows "walk_inv graph root (view_of w) \<and> k + potential graph (view_of w) \<le> walk_bound graph root"
  using assms(2)
proof induction
  case (init s)
  show ?case
    using init_inv [of graph root s]
    by (simp add: potential_def view_of_def walk_init_def walk_bound_def newDependencyMemo_def ranks_def spawn_def comp_def sum_list_triv)
next
  case (task k w c i w')
  have m: "move graph (view_of w) (view_of w')" by (rule task_step_move [OF task(2)])
  show ?case
  proof (cases "w_tasks w' = w_tasks w")
    case True
    then have "potential graph (view_of w') \<le> potential graph (view_of w)"
      using unloaded_move [OF m] by (simp add: potential_def view_of_def)
    with True task.IH walk_inv_move [OF assms(1) m] show ?thesis by simp
  next
    case False
    with potential_move [OF m] have "potential graph (view_of w') < potential graph (view_of w)" by (simp add: view_of_def)
    with False task.IH walk_inv_move [OF assms(1) m] show ?thesis by simp
  qed
qed (simp_all add: view_updates)

text \<open>
  C2: the walk over the dependencies, for every interleaving of its goroutines with one another and
  with the rest of the program. An instance is started only after each of its dependencies was seen
  in the condition it must reach; nothing is started twice; while the walk is not over, a goroutine
  can move or waits for a start that another walk has under way; apart from repeated polls there are
  at most \<open>walk_bound\<close> steps; and a walk that ends well has started the instance itself.
\<close>

theorem concurrent_walk:
  assumes "acyclic_from graph root" and "walks graph root k w"
  shows "ordered graph [] (w_trace w) \<and> distinct (starts (w_trace w)) \<and>
    (running w \<longrightarrow> can_step graph w \<or> awaits_other w) \<and>
    k \<le> walk_bound graph root \<and>
    (pc_of (w_tasks w) 0 = Ended None \<longrightarrow> root \<in> set (starts (w_trace w)))"
proof -
  have inv: "walk_inv graph root (view_of w)" and k: "k \<le> walk_bound graph root"
    using walks_inv [OF assms] by auto
  then have wf: "wf_tasks graph root (w_tasks w)" and c: "conditions graph (w_tasks w) (w_trace w)"
    and o: "owners (w_memo w) (w_tasks w)" and st: "started_once root (w_memo w, w_tasks w, w_trace w)"
    by (simp_all add: walk_inv_def view_of_def)
  show ?thesis
    using conditionsD(4) [OF c] started_onceD(1,2) [OF st] progress [OF wf o assms(1)] k by blast
qed

section \<open>Concrete walks\<close>

lemma run_tasks_walks: "run_tasks graph is w = Some w' \<Longrightarrow> walks graph root k w \<Longrightarrow> \<exists>k'. walks graph root k' w'"
proof (induction "is" arbitrary: w k)
  case (Cons i "is")
  then obtain w1 where w1: "task_step graph Run i w = Some w1" "run_tasks graph is w1 = Some w'"
    by (auto split: option.splits)
  show ?case using Cons.IH [OF w1(2) walks.task [OF Cons.prems(2) w1(1)]] .
qed auto

definition diamond :: depgraph where
  "diamond =
     [(''web'', [\<lparr>dep_Name = ''cache'', dep_Condition = ''service_healthy''\<rparr>, \<lparr>dep_Name = ''queue'', dep_Condition = []\<rparr>]),
      (''cache'', [\<lparr>dep_Name = ''db'', dep_Condition = ''service_healthy''\<rparr>]),
      (''queue'', [\<lparr>dep_Name = ''db'', dep_Condition = ''service_healthy''\<rparr>])]"

definition diamond_core :: "(InMemory, list_world) sablier" where
  "diamond_core = sablier_New inmemory_ops NewInMemory (list_provider (map_list diamond))
     (map (\<lambda>n. (n, stopped_instance n)) [''web'', ''cache'', ''queue'', ''db''])"

definition diamond_schedule :: "nat list" where
  "diamond_schedule = [1, 2, 1, 2, 3, 4, 4, 3, 4, 4, 4, 4, 4, 3, 3, 4, 2, 1, 1, 2, 2, 1, 1, 2, 2, 1, 1, 2, 0, 0]"

lemma diamond_run:
  "map_option (\<lambda>w. (starts (w_trace w), tk_pc (w_tasks w ! 0))) (run_tasks diamond diamond_schedule (walk_init diamond ''web'' diamond_core)) =
   Some ([''db'', ''queue'', ''cache'', ''web''], Ended None)"
  by code_simp

lemma edges_diamond: "edges diamond \<subseteq> {(''web'', ''cache''), (''web'', ''queue''), (''cache'', ''db''), (''queue'', ''db'')}"
  by (auto simp: edges_def diamond_def map_list_def split: if_splits)

lemma diamond_acyclic: "acyclic_from diamond root"
proof -
  define h where "h n = (if n = ''web'' then 2 else if n = ''db'' then 0 else 1 :: nat)" for n
  have step: "h b < h a" if "(a, b) \<in> edges diamond" for a b using that edges_diamond by (auto simp: h_def)
  have "h b < h a" if "(a, b) \<in> (edges diamond)\<^sup>+" for a b
    using that by (induction rule: trancl_induct) (use step in force)+
  then show ?thesis unfolding acyclic_from_def by blast
qed

theorem concurrent_walk_witness:
  "\<exists>k w. walks diamond ''web'' k (w :: (InMemory, list_world) dep_walk) \<and> k \<le> walk_bound diamond ''web'' \<and>
     starts (w_trace w) = [''db'', ''queue'', ''cache'', ''web''] \<and> ordered diamond [] (w_trace w)"
proof -
  let ?init = "walk_init diamond ''web'' diamond_core"
  obtain w where w: "run_tasks diamond diamond_schedule ?init = Some w" "starts (w_trace w) = [''db'', ''queue'', ''cache'', ''web'']"
    using diamond_run by (auto simp: map_option_case split: option.splits)
  obtain k where k: "walks diamond ''web'' k w" using run_tasks_walks [OF w(1) walks.init] by blast
  with concurrent_walk [OF diamond_acyclic k] w(2) show ?thesis by blast
qed

section \<open>Starts of several walks\<close>

definition flight_inv :: "(string, nat) gomap \<Rightarrow> depStart list \<Rightarrow> (string \<times> nat) multiset \<Rightarrow> bool" where
  "flight_inv P H T \<longleftrightarrow>
     (\<forall>n ds. (n, ds) \<in># T \<longleftrightarrow> map_of P n = Some ds) \<and> (\<forall>x. count T x \<le> 1) \<and>
     (\<forall>n ds. map_of P n = Some ds \<longrightarrow> ds < length H \<and> \<not> ds_done (H ! ds)) \<and>
     (\<forall>n m ds. map_of P n = Some ds \<longrightarrow> map_of P m = Some ds \<longrightarrow> n = m)"

lemma flight_invI:
  assumes "\<And>n ds. (n, ds) \<in># T \<longleftrightarrow> map_of P n = Some ds" and "\<And>x. count T x \<le> 1"
    and "\<And>n ds. map_of P n = Some ds \<Longrightarrow> ds < length H \<and> \<not> ds_done (H ! ds)"
    and "\<And>n m ds. map_of P n = Some ds \<Longrightarrow> map_of P m = Some ds \<Longrightarrow> n = m"
  shows "flight_inv P H T"
  using assms unfolding flight_inv_def by blast

lemma flight_invD:
  assumes "flight_inv P H T"
  shows "(n, ds) \<in># T \<longleftrightarrow> map_of P n = Some ds" "count T x \<le> 1"
    "map_of P n = Some ds \<Longrightarrow> ds < length H \<and> \<not> ds_done (H ! ds)"
    "map_of P n = Some ds \<Longrightarrow> map_of P m = Some ds \<Longrightarrow> n = m"
  using assms unfolding flight_inv_def by blast+

lemma flight_enter:
  assumes inv: "flight_inv P H T" and none: "map_of P name = None"
  shows "flight_inv (map_put name (length H) P) (H @ [\<lparr>ds_done = False, ds_err = None\<rparr>]) (add_mset (name, length H) T)"
proof (rule flight_invI)
  note D = flight_invD [OF inv]
  have fresh: "map_of P n \<noteq> Some (length H)" for n using D(3) [of n "length H"] by auto
  have absent: "(name, d) \<notin># T" for d using D(1) [of name d] none by simp
  show "(n, d) \<in># add_mset (name, length H) T \<longleftrightarrow> map_of (map_put name (length H) P) n = Some d" for n d
    using D(1) [of n d] absent [of d] by (auto simp: map_of_put)
  show "count (add_mset (name, length H) T) x \<le> 1" for x
    using D(2) [of x] absent [of "length H"] by (cases "x = (name, length H)") (simp_all add: not_in_iff)
  show "d < length (H @ [\<lparr>ds_done = False, ds_err = None\<rparr>]) \<and> \<not> ds_done ((H @ [\<lparr>ds_done = False, ds_err = None\<rparr>]) ! d)"
    if "map_of (map_put name (length H) P) n = Some d" for n d
    using that D(3) [of n d] by (cases "n = name") (auto simp: map_of_put nth_append)
  show "n = m" if "map_of (map_put name (length H) P) n = Some d" "map_of (map_put name (length H) P) m = Some d" for n m d
    using that D(4) [of n d m] fresh [of n] fresh [of m] by (auto simp: map_of_put split: if_splits)
qed

lemma flight_finish:
  assumes inv: "flight_inv P H (add_mset (name, ds) T)"
  shows "map_of P name = Some ds" "flight_inv (map_del name P) (H[ds := \<lparr>ds_done = True, ds_err = err\<rparr>]) T"
proof -
  note D = flight_invD [OF inv]
  have del: "map_of (map_del name P) n = (if n = name then None else map_of P n)" for n by (simp add: map_of_del)
  show p: "map_of P name = Some ds" using D(1) [of name ds] by simp
  have gone: "(name, ds) \<notin># T" using D(2) [of "(name, ds)"] by (simp add: not_in_iff)
  have absent: "(name, d) \<notin># T" for d using D(1) [of name d] p gone by (cases "d = ds") auto
  show "flight_inv (map_del name P) (H[ds := \<lparr>ds_done = True, ds_err = err\<rparr>]) T"
  proof (rule flight_invI)
    show "(n, d) \<in># T \<longleftrightarrow> map_of (map_del name P) n = Some d" for n d
      using D(1) [of n d] absent [of d] unfolding del by (cases "n = name") auto
    show "count T x \<le> 1" for x using D(2) [of x] by (cases "x = (name, ds)") simp_all
    show "d < length (H[ds := \<lparr>ds_done = True, ds_err = err\<rparr>]) \<and> \<not> ds_done (H[ds := \<lparr>ds_done = True, ds_err = err\<rparr>] ! d)"
      if "map_of (map_del name P) n = Some d" for n d
    proof -
      have n: "n \<noteq> name" "map_of P n = Some d" using that unfolding del by (simp_all split: if_splits)
      have "d \<noteq> ds" using D(4) [of n ds name] n p by (cases "d = ds") simp_all
      with D(3) [OF n(2)] show ?thesis by simp
    qed
    show "n = m" if "map_of (map_del name P) n = Some d" "map_of (map_del name P) m = Some d" for n m d
      using that D(4) [of n d m] unfolding del by (simp split: if_splits)
  qed
qed

lemma flights_inv: "flights c \<Longrightarrow> flight_inv (s_depStarts (fst c)) (s_dsHeap (fst c)) (snd c)"
proof (induction rule: flights.induct)
  case (init s)
  then show ?case by (simp add: flight_inv_def)
next
  case (enter s T name ds s')
  then have "map_of (s_depStarts s) name = None" "ds = length (s_dsHeap s)"
    "s_depStarts s' = map_put name ds (s_depStarts s)" "s_dsHeap s' = s_dsHeap s @ [\<lparr>ds_done = False, ds_err = None\<rparr>]"
    by (auto simp: dep_enter_def Let_def split: if_splits option.splits)
  with enter.IH flight_enter show ?case by simp
next
  case (deferred s T name d s')
  then have "s' = s" by (auto simp: dep_enter_def Let_def split: if_splits option.splits)
  with deferred.IH show ?case by simp
next
  case (finish s name ds T err)
  then have "flight_inv (s_depStarts s) (s_dsHeap s) (add_mset (name, ds) T)" by simp
  from flight_finish [OF this] show ?case by (simp add: dep_finish_def)
next
  case (others s T s')
  then show ?case by simp
qed

text \<open>
  C4: however many walks share a dependency, at most one start of it is under way at a time, and who
  finds one under way waits for a start that is not finished and that some walk will finish. (Starts
  that follow one another are not excluded.)
\<close>

theorem dependency_single_flight:
  assumes "flights (s, T)"
  shows "size (filter_mset (\<lambda>(m, ds). m = name) T) \<le> 1 \<and>
    (\<forall>ds s'. dep_enter name s = (DepWait ds, s') \<longrightarrow> (name, ds) \<in># T \<and> \<not> ds_done (s_dsHeap s ! ds)) \<and>
    (\<forall>ds s'. dep_enter name s = (DepStart ds, s') \<longrightarrow> filter_mset (\<lambda>(m, d). m = name) T = {#})"
proof -
  have inv: "flight_inv (s_depStarts s) (s_dsHeap s) T" using flights_inv [OF assms] by simp
  note D = flight_invD [OF inv]
  let ?T = "filter_mset (\<lambda>(m, d). m = name) T"
  have waits: "map_of (s_depStarts s) name = Some ds" if "dep_enter name s = (DepWait ds, s')" for ds s'
    using that by (auto simp: dep_enter_def Let_def split: if_splits option.splits)
  have starts: "map_of (s_depStarts s) name = None" if "dep_enter name s = (DepStart ds, s')" for ds s'
    using that by (auto simp: dep_enter_def Let_def split: if_splits option.splits)
  have none: "?T = {#}" if "map_of (s_depStarts s) name = None"
  proof (rule ccontr)
    assume "?T \<noteq> {#}"
    then obtain m d where "(m, d) \<in># ?T" by (metis multiset_nonemptyE surj_pair)
    then have "(name, d) \<in># T" by auto
    with that D(1) show False by simp
  qed
  have "size ?T \<le> 1"
  proof (cases "map_of (s_depStarts s) name")
    case (Some ds)
    have "count ?T x \<le> count {#(name, ds)#} x" for x
    proof (cases "x \<in># ?T")
      case True
      then obtain d where "x = (name, d)" "(name, d) \<in># T" by (cases x) auto
      with D(1) [of name d] Some have "x = (name, ds)" by simp
      then show ?thesis using D(2) [of x] by simp
    next
      case False
      then have "count ?T x = 0" by (simp only: not_in_iff)
      then show ?thesis by linarith
    qed
    then have "?T \<subseteq># {#(name, ds)#}" by (rule mset_subset_eqI)
    from size_mset_mono [OF this] show ?thesis by simp
  qed (simp add: none)
  moreover have "(name, ds) \<in># T \<and> \<not> ds_done (s_dsHeap s ! ds)" if "dep_enter name s = (DepWait ds, s')" for ds s'
    using waits [OF that] D(1) [of name ds] D(3) [of name ds] by simp
  moreover have "?T = {#}" if "dep_enter name s = (DepStart ds, s')" for ds s' using none starts [OF that] by simp
  ultimately show ?thesis by (intro conjI allI impI) auto
qed

lemma demo_enter: "fst (dep_enter ''db'' diamond_core) = DepStart 0"
  by code_simp

theorem dependency_single_flight_witness:
  "\<exists>s ds. flights (s, {#(''db'', 0)#}) \<and> fst (dep_enter ''db'' (s :: (InMemory, list_world) sablier)) = DepWait ds \<and>
     \<not> ds_done (s_dsHeap s ! ds)"
proof -
  have i: "flights (diamond_core, {#})" by (rule flights.init) (simp add: diamond_core_def sablier_New_def)
  obtain s where e: "dep_enter ''db'' diamond_core = (DepStart 0, s)"
    using demo_enter by (cases "dep_enter ''db'' diamond_core") auto
  have f: "flights (s, {#(''db'', 0)#})" using flights.enter [OF i e] by simp
  obtain ds s' where w: "dep_enter ''db'' s = (DepWait ds, s')"
    using e by (auto simp: dep_enter_def Let_def map_of_put diamond_core_def sablier_New_def split: if_splits option.splits)
  with dependency_single_flight [OF f, of "''db''"] f show ?thesis by auto
qed

text \<open>
  Two walks that share a dependency may both start it: one of them inspects it before the other has
  started it, and asks for its start after the other has finished.
\<close>

definition two_roots :: depgraph where
  "two_roots =
     [(''web'', [\<lparr>dep_Name = ''db'', dep_Condition = ''service_healthy''\<rparr>]),
      (''api'', [\<lparr>dep_Name = ''db'', dep_Condition = ''service_healthy''\<rparr>])]"

definition two_roots_core :: "(InMemory, list_world) sablier" where
  "two_roots_core = sablier_New inmemory_ops NewInMemory (list_provider (map_list two_roots))
     (map (\<lambda>n. (n, stopped_instance n)) [''web'', ''api'', ''db''])"

definition late_walk :: "(InMemory, list_world) dep_walk option" where
  "late_walk =
     (case run_tasks two_roots [1] (walk_init two_roots ''web'' two_roots_core) of
        None \<Rightarrow> None
      | Some w1 \<Rightarrow>
          (case run_tasks two_roots [1, 1, 1, 1, 1, 1, 1, 1, 0, 0] (walk_init two_roots ''api'' (w_core w1)) of
             None \<Rightarrow> None
           | Some w2 \<Rightarrow> run_tasks two_roots [1, 1, 1, 1] (w1\<lparr>w_core := w_core w2\<rparr>)))"

lemma shared_dependency_started_twice:
  "map_option (\<lambda>w. starts (s_trace (w_core w))) late_walk = Some [''db'', ''api'', ''db'']"
  by code_simp

end
