(* ===== verification/Kubernetes_Events.thy ===== *)
theory Kubernetes_Events
  imports Kubernetes_Facts
begin

text \<open>
  The event stream of the Kubernetes provider (\<open>pkg/provider/kubernetes/instance_events.go\<close>): an
  informer for each kind of object calls the handlers of \<open>Kubernetes\<close> in its own goroutine, and they
  all send into one channel, so that the stream is some interleaving of what they send. The
  clusters of CloudNativePG have an informer only if their resource is installed.

  An informer belongs to \<open>client-go\<close>; what it is documented to report is the predicate \<open>informer_feed\<close>.
  The locale \<open>informer_watch\<close> is the contract of a handler.
\<close>

section \<open>The stream\<close>

fun informer_run :: "('k \<Rightarrow> 'o informer_event \<Rightarrow> InstanceEvent list option) \<Rightarrow> ('k \<times> 'o informer_event) list \<Rightarrow>
    InstanceEvent list option" where
  "informer_run handle [] = Some []"
| "informer_run handle ((k, e) # rest) =
     (case handle k e of
        None \<Rightarrow> None
      | Some sent \<Rightarrow> map_option (\<lambda>later. sent @ later) (informer_run handle rest))"

text \<open>The possible streams, or \<open>None\<close> if a handler panics.\<close>

definition kube_InstanceEvents :: "'k KubeProvider \<Rightarrow> InstanceEventType list \<Rightarrow> 'k \<Rightarrow> ('k \<times> Workload informer_event) list \<Rightarrow>
    ('k \<times> Workload informer_event) list \<Rightarrow> ('k \<times> Cluster informer_event) list \<Rightarrow> InstanceEvent list set option" where
  "kube_InstanceEvents p types k deployments statefulSets clusters =
     (case informer_run (deploymentEventHandler p types) deployments of
        None \<Rightarrow> None
      | Some ds \<Rightarrow>
     (case informer_run (statefulSetEventHandler p types) statefulSets of
        None \<Rightarrow> None
      | Some ss \<Rightarrow>
     (case (if clusterCRDInstalled p k then informer_run (watchClusters p types) clusters else Some []) of
        None \<Rightarrow> None
      | Some cs \<Rightarrow> Some (\<Union> (shuffles cs ` shuffles ds ss)))))"

section \<open>What an informer reports\<close>

text \<open>The object that a notification leaves, and the store of objects after it.\<close>

fun notice_store :: "('o \<Rightarrow> 'i) \<Rightarrow> 'o informer_event \<Rightarrow> ('i \<Rightarrow> 'o option) \<Rightarrow> 'i \<Rightarrow> 'o option" where
  "notice_store key (AddFunc obj) st = (case eventObject obj of None \<Rightarrow> st | Some d \<Rightarrow> st(key d := Some d))"
| "notice_store key (UpdateFunc old new) st = (case eventObject new of None \<Rightarrow> st | Some d \<Rightarrow> st(key d := Some d))"
| "notice_store key (DeleteFunc obj) st = (case eventObject obj of None \<Rightarrow> st | Some d \<Rightarrow> st(key d := None))"

text \<open>
  An object is added once, updated from the state that was reported last and deleted when it is
  there, perhaps with a tombstone; the same version is the same object.
\<close>

fun notice_ok :: "('o \<Rightarrow> 'i) \<Rightarrow> ('o \<Rightarrow> string) \<Rightarrow> ('i \<Rightarrow> 'o option) \<Rightarrow> 'o informer_event \<Rightarrow> bool" where
  "notice_ok key version st (AddFunc obj) =
     (case obj of Object d \<Rightarrow> st (key d) = None | _ \<Rightarrow> False)"
| "notice_ok key version st (UpdateFunc old new) =
     (case (old, new) of
        (Object d, Object d') \<Rightarrow> key d = key d' \<and> st (key d) = Some d \<and> (version d' = version d \<longrightarrow> d' = d)
      | _ \<Rightarrow> False)"
| "notice_ok key version st (DeleteFunc obj) =
     (case eventObject obj of Some d \<Rightarrow> st (key d) \<noteq> None | None \<Rightarrow> False)"

fun informer_feed :: "('o \<Rightarrow> 'i) \<Rightarrow> ('o \<Rightarrow> string) \<Rightarrow> ('i \<Rightarrow> 'o option) \<Rightarrow> 'o informer_event list \<Rightarrow> bool" where
  "informer_feed key version st [] = True"
| "informer_feed key version st (e # es) =
     (notice_ok key version st e \<and> informer_feed key version (notice_store key e st) es)"

fun notice_key :: "('o \<Rightarrow> 'i) \<Rightarrow> 'o informer_event \<Rightarrow> 'i option" where
  "notice_key key (AddFunc obj) = map_option key (eventObject obj)"
| "notice_key key (UpdateFunc old new) = map_option key (eventObject new)"
| "notice_key key (DeleteFunc obj) = map_option key (eventObject obj)"

text \<open>The states of one object over time, and the changes that they amount to.\<close>

fun object_history :: "('o \<Rightarrow> 'i) \<Rightarrow> 'i \<Rightarrow> ('i \<Rightarrow> 'o option) \<Rightarrow> 'o informer_event list \<Rightarrow> 'o option list" where
  "object_history key x st [] = []"
| "object_history key x st (e # es) = notice_store key e st x # object_history key x (notice_store key e st) es"

fun object_change :: "('o \<Rightarrow> bool) \<Rightarrow> 'o option \<Rightarrow> 'o option \<Rightarrow> InstanceEventType list" where
  "object_change running None None = []"
| "object_change running None (Some d) = [InstanceEventCreated]"
| "object_change running (Some d) (Some d') =
     (if running d \<and> \<not> running d' then [InstanceEventStopped]
      else if \<not> running d \<and> running d' then [InstanceEventStarted] else [])"
| "object_change running (Some d) None = [InstanceEventRemoved, InstanceEventStopped]"

fun object_changes :: "('o \<Rightarrow> bool) \<Rightarrow> 'o option \<Rightarrow> 'o option list \<Rightarrow> InstanceEventType list" where
  "object_changes running v [] = []"
| "object_changes running v (w # ws) = object_change running v w @ object_changes running w ws"

definition about :: "string \<Rightarrow> InstanceEvent list \<Rightarrow> InstanceEventType list" where
  "about name evs = map ev_Type (filter (\<lambda>e. i_Name (ev_Info e) = name) evs)"

lemma about_append [simp]: "about name (xs @ ys) = about name xs @ about name ys"
  by (simp add: about_def)

lemma about_Nil [simp]: "about name [] = []"
  by (simp add: about_def)

lemma about_other: "list_all (\<lambda>e. i_Name (ev_Info e) = m) evs \<Longrightarrow> m \<noteq> name \<Longrightarrow> about name evs = []"
  by (auto simp: about_def list_all_iff filter_empty_conv)

lemma about_own: "list_all (\<lambda>e. i_Name (ev_Info e) = name) evs \<Longrightarrow> about name evs = map ev_Type evs"
  by (simp add: about_def list_all_iff)

section \<open>The contract of a handler\<close>

locale informer_watch =
  fixes handle :: "'k \<Rightarrow> 'o informer_event \<Rightarrow> InstanceEvent list option"
    and key :: "'o \<Rightarrow> 'i" and name :: "'i \<Rightarrow> string" and version :: "'o \<Rightarrow> string" and running :: "'o \<Rightarrow> bool"
    and types :: "InstanceEventType list"
  assumes handle_names: "handle k e = Some evs \<Longrightarrow> notice_key key e = Some x \<Longrightarrow>
      list_all (\<lambda>ev. i_Name (ev_Info ev) = name x) evs"
    and handle_types: "handle k e = Some evs \<Longrightarrow> notice_ok key version st e \<Longrightarrow> notice_key key e = Some x \<Longrightarrow>
      map ev_Type evs = filter (wants types) (object_change running (st x) (notice_store key e st x))"
begin

lemma notice_ok_key: "notice_ok key version st e \<Longrightarrow> \<exists>x. notice_key key e = Some x"
  by (cases e) (auto split: informer_object.splits option.splits)

lemma notice_other: "notice_key key e = Some y \<Longrightarrow> x \<noteq> y \<Longrightarrow> notice_store key e st x = st x"
  by (cases e) auto

lemma run_changes:
  assumes "informer_run handle es = Some evs" "informer_feed key version st (map snd es)"
    and "\<And>y. Some y \<in> notice_key key ` snd ` set es \<Longrightarrow> name y = name x \<Longrightarrow> y = x"
  shows "about (name x) evs = filter (wants types) (object_changes running (st x) (object_history key x st (map snd es)))"
  using assms
proof (induction es arbitrary: evs st)
  case (Cons ke es)
  obtain k e where ke: "ke = (k, e)" by (cases ke)
  from Cons.prems(1) obtain sent later where s: "handle k e = Some sent" "informer_run handle es = Some later" "evs = sent @ later"
    by (auto simp: ke split: option.splits)
  have ok: "notice_ok key version st e" "informer_feed key version (notice_store key e st) (map snd es)"
    using Cons.prems(2) by (simp_all add: ke)
  obtain y where y: "notice_key key e = Some y" using notice_ok_key [OF ok(1)] by blast
  have later: "about (name x) later =
      filter (wants types) (object_changes running (notice_store key e st x) (object_history key x (notice_store key e st) (map snd es)))"
    using Cons.IH [OF s(2) ok(2)] Cons.prems(3) by auto
  have "about (name x) sent = filter (wants types) (object_change running (st x) (notice_store key e st x))"
  proof (cases "y = x")
    case True
    with handle_names [OF s(1) y] handle_types [OF s(1) ok(1) y] show ?thesis by (simp add: about_own)
  next
    case False
    then have "name y \<noteq> name x" using Cons.prems(3) [of y] y by (force simp: ke image_iff)
    moreover have "object_change running (st x) (notice_store key e st x) = []"
      using notice_other [OF y] False by (cases "st x") auto
    ultimately show ?thesis using about_other [OF handle_names [OF s(1) y]] by simp
  qed
  with later s(3) show ?case by (simp add: ke)
qed simp

lemma run_names:
  assumes "informer_run handle es = Some evs" "informer_feed key version st (map snd es)" "ev \<in> set evs"
  shows "\<exists>y. Some y \<in> notice_key key ` snd ` set es \<and> i_Name (ev_Info ev) = name y"
  using assms
proof (induction es arbitrary: evs st)
  case (Cons ke es)
  obtain k e where ke: "ke = (k, e)" by (cases ke)
  from Cons.prems(1) obtain sent later where s: "handle k e = Some sent" "informer_run handle es = Some later" "evs = sent @ later"
    by (auto simp: ke split: option.splits)
  have ok: "notice_ok key version st e" "informer_feed key version (notice_store key e st) (map snd es)"
    using Cons.prems(2) by (simp_all add: ke)
  obtain y where y: "notice_key key e = Some y" using notice_ok_key [OF ok(1)] by blast
  show ?case
  proof (cases "ev \<in> set sent")
    case True
    then have "i_Name (ev_Info ev) = name y" using handle_names [OF s(1) y] by (simp add: list_all_iff)
    then show ?thesis using y by (auto simp: ke image_iff intro!: exI [of _ y])
  next
    case False
    then show ?thesis using Cons.IH [OF s(2) ok(2)] Cons.prems(3) s(3) by auto
  qed
qed simp

end

section \<open>The handlers keep the contract\<close>

lemma ParseName_Original: "ParseName name d = Inr parsed \<Longrightarrow> pn_Original parsed = name"
  by (auto simp: ParseName_def split: list.splits option.splits)

lemma kube_inspect_name: "kube_InstanceInspect p name k = Some (Inr info) \<Longrightarrow> i_Name info = name"
  by (auto simp: kube_InstanceInspect_def DeploymentInspect_def StatefulSetInspect_def ClusterInspect_def workload_info_def Let_def
      dest: ParseName_Original split: sum.splits option.splits if_splits)

lemma kube_event_sent:
  assumes "kube_event p k type parsed status = Some evs"
  shows "map ev_Type evs = [type]" "list_all (\<lambda>ev. i_Name (ev_Info ev) = pn_Original parsed) evs"
proof -
  obtain r where r: "kube_InstanceInspect p (pn_Original parsed) k = Some r"
    and evs: "evs = [\<lparr>ev_Type = type, ev_Info = (case r of Inl err \<Rightarrow> kube_bare_info (pn_Original parsed) status | Inr info \<Rightarrow> info)\<rparr>]"
    using assms by (auto simp: kube_event_def)
  then show "map ev_Type evs = [type]" "list_all (\<lambda>ev. i_Name (ev_Info ev) = pn_Original parsed) evs"
    by (cases r; simp add: kube_bare_info_def kube_inspect_name)+
qed

lemma add_handler_sent:
  assumes "add_handler name p types k obj = Some evs" "eventObject obj = Some d"
  shows "map ev_Type evs = filter (wants types) [InstanceEventCreated]"
    "list_all (\<lambda>ev. i_Name (ev_Info ev) = pn_Original (name d)) evs"
  using assms kube_event_sent [of p k InstanceEventCreated "name d" InstanceStatusUnset evs]
  by (auto simp: add_handler_def split: if_splits)

lemma update_handler_sent:
  assumes "update_handler name version running p types k old new = Some evs" "eventObject new = Some d'"
  shows "list_all (\<lambda>ev. i_Name (ev_Info ev) = pn_Original (name d')) evs"
    "eventObject old = Some d \<Longrightarrow> (version d' = version d \<longrightarrow> d' = d) \<Longrightarrow>
     map ev_Type evs = filter (wants types) (object_change running (Some d) (Some d'))"
  using assms kube_event_sent [of p k InstanceEventStopped "name d'" InstanceStatusStopped evs]
    kube_event_sent [of p k InstanceEventStarted "name d'" InstanceStatusStarting evs]
  by (auto simp: update_handler_def split: if_splits option.splits)

lemma delete_handler_sent:
  assumes "eventObject obj = Some d" "i_Name (deleted d) = name"
  shows "map ev_Type (delete_handler deleted types obj) = filter (wants types) [InstanceEventRemoved, InstanceEventStopped]"
    "list_all (\<lambda>ev. i_Name (ev_Info ev) = name) (delete_handler deleted types obj)"
  using assms by (auto simp: delete_handler_def)

lemma deleted_names:
  "i_Name (deleted_workload parsed d) = pn_Original parsed" "i_Name (deleted_cluster parsed u) = pn_Original parsed"
  by (simp_all add: deleted_workload_def deleted_cluster_def deleted_info_def)

text \<open>A handler that is put together from the three functions.\<close>

lemma handlers_keep_contract:
  assumes h: "\<And>k e. handle k e =
      (case e of
         AddFunc obj \<Rightarrow> add_handler name p types k obj
       | UpdateFunc old new \<Rightarrow> update_handler name version running p types k old new
       | DeleteFunc obj \<Rightarrow> Some (delete_handler deleted types obj))"
    and n: "\<And>d. pn_Original (name d) = text (key d)" "\<And>d. i_Name (deleted d) = text (key d)"
  shows "informer_watch handle key text version running types"
proof
  fix k e evs x
  assume a: "handle k e = Some evs" "notice_key key e = Some x"
  then show "list_all (\<lambda>ev. i_Name (ev_Info ev) = text x) evs"
    using add_handler_sent(2) [of name p types k _ evs] update_handler_sent(1) [of name version running p types k _ _ evs]
      delete_handler_sent(2) [of _ _ deleted "text x" types]
    by (cases e) (auto simp: h n)
next
  fix k e evs x and st :: "'c \<Rightarrow> 'b option"
  assume a: "handle k e = Some evs" "notice_ok key version st e" "notice_key key e = Some x"
  then show "map ev_Type evs = filter (wants types) (object_change running (st x) (notice_store key e st x))"
  proof (cases e)
    case (AddFunc obj)
    with a show ?thesis using add_handler_sent(1) [of name p types k obj evs] by (auto simp: h split: informer_object.splits)
  next
    case (UpdateFunc old new)
    with a show ?thesis using update_handler_sent(2) [of name version running p types k old new evs]
      by (auto simp: h split: informer_object.splits)
  next
    case (DeleteFunc obj)
    with a show ?thesis using delete_handler_sent(1) [of obj _ deleted "text x" types] by (auto simp: h n split: option.splits)
  qed
qed

definition kube_name :: "string \<Rightarrow> 'k KubeProvider \<Rightarrow> string \<times> string \<Rightarrow> string" where
  "kube_name kind p x = pn_Original (object_name kind (fst x) (snd x) (kp_delimiter p))"

definition workload_id :: "Workload \<Rightarrow> string \<times> string" where
  "workload_id d = (wl_Namespace d, wl_Name d)"

definition cluster_id :: "Cluster \<Rightarrow> string \<times> string" where
  "cluster_id u = (cl_Namespace u, cl_Name u)"

definition workload_running :: "Workload \<Rightarrow> bool" where
  "workload_running d \<longleftrightarrow> replicasOf (wl_Replicas d) \<noteq> 0"

interpretation deployments: informer_watch "deploymentEventHandler p types" workload_id "kube_name ''deployment'' p"
    wl_ResourceVersion workload_running types for p types
  by (rule handlers_keep_contract [where p = p and name = "\<lambda>d. DeploymentName d (kp_delimiter p)"
        and deleted = "\<lambda>d. deleted_workload (DeploymentName d (kp_delimiter p)) d"])
    (simp_all add: deploymentEventHandler_def workload_running_def [abs_def] kube_name_def workload_id_def deleted_names DeploymentName_def Let_def split: informer_event.split)

interpretation statefulSets: informer_watch "statefulSetEventHandler p types" workload_id "kube_name ''statefulset'' p"
    wl_ResourceVersion workload_running types for p types
  by (rule handlers_keep_contract [where p = p and name = "\<lambda>d. StatefulSetName d (kp_delimiter p)"
        and deleted = "\<lambda>d. deleted_workload (StatefulSetName d (kp_delimiter p)) d"])
    (simp_all add: statefulSetEventHandler_def workload_running_def [abs_def] kube_name_def workload_id_def deleted_names StatefulSetName_def Let_def split: informer_event.split)

interpretation clusters: informer_watch "watchClusters p types" cluster_id "kube_name KindCNPGCluster p"
    cl_ResourceVersion clusterIsRunning types for p types
  by (rule handlers_keep_contract [where p = p and name = "\<lambda>u. ClusterName (cl_Namespace u) (cl_Name u) (kp_delimiter p)"
        and deleted = "\<lambda>u. deleted_cluster (ClusterName (cl_Namespace u) (cl_Name u) (kp_delimiter p)) u"])
    (simp_all add: watchClusters_def kube_name_def cluster_id_def deleted_names ClusterName_def Let_def split: informer_event.split)

section \<open>The stream follows the objects\<close>

text \<open>The names of the objects that an informer reports can be told apart.\<close>

definition names_separable :: "string \<Rightarrow> string \<Rightarrow> ('o \<Rightarrow> string \<times> string) \<Rightarrow> ('k \<times> 'o informer_event) list \<Rightarrow> bool" where
  "names_separable d kind key es \<longleftrightarrow>
     list_all (\<lambda>(k, e). case notice_key key e of None \<Rightarrow> True | Some (ns, n) \<Rightarrow> separable d [kind, ns, n, ''1'']) es"

lemma names_separableD:
  assumes "names_separable d kind key es" "Some y \<in> notice_key key ` snd ` set es"
  shows "separable d [kind, fst y, snd y, ''1'']"
proof -
  obtain k e where e: "(k, e) \<in> set es" "notice_key key e = Some y" using assms(2) by force
  with assms(1) have "case notice_key key e of None \<Rightarrow> True | Some (ns, n) \<Rightarrow> separable d [kind, ns, n, ''1'']"
    unfolding names_separable_def list_all_iff by blast
  then show ?thesis by (simp add: e(2) split: prod.splits)
qed

lemma kube_name_inj:
  assumes "names_separable (kp_delimiter p) kind key es" "Some y \<in> notice_key key ` snd ` set es"
    and "separable (kp_delimiter p) [kind', fst x, snd x, ''1'']" "kube_name kind p y = kube_name kind' p x"
  shows "kind = kind' \<and> y = x"
  using object_name_inj [OF names_separableD [OF assms(1,2)] assms(3)] assms(4) by (auto simp: kube_name_def prod_eq_iff)

lemma about_shuffles:
  assumes "zs \<in> shuffles xs ys" "about name ys = []"
  shows "about name zs = about name xs"
proof -
  let ?P = "\<lambda>e. i_Name (ev_Info e) = name"
  have "filter ?P zs \<in> shuffles (filter ?P xs) (filter ?P ys)"
    using filter_shuffles [of ?P xs ys] assms(1) by blast
  moreover have "filter ?P ys = []" using assms(2) by (simp add: about_def)
  ultimately show ?thesis by (simp add: about_def)
qed

lemma about_shuffles':
  "zs \<in> shuffles xs ys \<Longrightarrow> about name xs = [] \<Longrightarrow> about name zs = about name ys"
  using about_shuffles [of zs ys xs name] by (simp add: shuffles_commutes)

lemma about_foreign:
  assumes "\<And>ev. ev \<in> set evs \<Longrightarrow> i_Name (ev_Info ev) \<noteq> name"
  shows "about name evs = []"
  using assms by (auto simp: about_def filter_empty_conv)

text \<open>What an informer sends about an object of its kind, and about one of another kind.\<close>

lemma sent_about_own:
  assumes "informer_watch handle key (kube_name kind p) version running types"
    and "informer_run handle es = Some evs" "informer_feed key version (\<lambda>y. None) (map snd es)"
    and "names_separable (kp_delimiter p) kind key es" "separable (kp_delimiter p) [kind, fst x, snd x, ''1'']"
  shows "about (kube_name kind p x) evs =
    filter (wants types) (object_changes running None (object_history key x (\<lambda>y. None) (map snd es)))"
  using informer_watch.run_changes [OF assms(1,2,3), of x] kube_name_inj [OF assms(4) _ assms(5)] by blast

lemma sent_about_other:
  assumes "informer_watch handle key (kube_name kind p) version running types"
    and "informer_run handle es = Some evs" "informer_feed key version (\<lambda>y. None) (map snd es)"
    and "names_separable (kp_delimiter p) kind key es" "separable (kp_delimiter p) [kind', fst x, snd x, ''1'']" "kind \<noteq> kind'"
  shows "about (kube_name kind' p x) evs = []"
proof (rule about_foreign)
  fix ev assume "ev \<in> set evs"
  then obtain y where "Some y \<in> notice_key key ` snd ` set es" "i_Name (ev_Info ev) = kube_name kind p y"
    using informer_watch.run_names [OF assms(1,2,3)] by blast
  then show "i_Name (ev_Info ev) \<noteq> kube_name kind' p x" using kube_name_inj [OF assms(4) _ assms(5)] assms(6) by metis
qed

text \<open>The last event about an object fits its state, when every event is asked for.\<close>

definition event_fits :: "('o \<Rightarrow> bool) \<Rightarrow> InstanceEventType list \<Rightarrow> 'o option \<Rightarrow> bool" where
  "event_fits running ts v \<longleftrightarrow>
     (case v of
        None \<Rightarrow> ts = [] \<or> last ts = InstanceEventStopped
      | Some d \<Rightarrow> ts \<noteq> [] \<and> last ts \<in> {InstanceEventCreated, if running d then InstanceEventStarted else InstanceEventStopped})"

lemma event_fits_change: "event_fits running ts v \<Longrightarrow> event_fits running (ts @ object_change running v w) w"
  by (cases v; cases w) (auto simp: event_fits_def)

lemma event_fits_changes:
  "event_fits running ts v \<Longrightarrow> event_fits running (ts @ object_changes running v ws) (last (v # ws))"
proof (induction ws arbitrary: ts v)
  case (Cons w ws)
  from Cons.IH [OF event_fits_change [OF Cons.prems, of w]] show ?case by simp
qed simp

lemma last_event_fits: "event_fits running (object_changes running None ws) (last (None # ws))"
  using event_fits_changes [of running "[]" None ws] by (simp add: event_fits_def)

text \<open>
  C28: the event stream of the Kubernetes provider. However the informers interleave, the events
  about an instance are, in order, the changes of its object that were asked for: created when it
  appears, started and stopped when its replica count leaves and reaches zero (or a cluster its
  hibernation), removed and stopped when it is deleted, and nothing else; so that, when all types are
  asked for, the last event about a workload fits the state it is in. Clusters are reported only when
  their resource is installed.
\<close>

theorem kube_events_follow:
  assumes "kube_InstanceEvents p types k ds ss cs = Some streams" "stream \<in> streams"
    and ds: "informer_feed workload_id wl_ResourceVersion (\<lambda>y. None) (map snd ds)"
      "names_separable (kp_delimiter p) ''deployment'' workload_id ds"
    and ss: "informer_feed workload_id wl_ResourceVersion (\<lambda>y. None) (map snd ss)"
      "names_separable (kp_delimiter p) ''statefulset'' workload_id ss"
    and cs: "informer_feed cluster_id cl_ResourceVersion (\<lambda>y. None) (map snd cs)"
      "names_separable (kp_delimiter p) KindCNPGCluster cluster_id cs"
    and x: "separable (kp_delimiter p) [''deployment'', ''statefulset'', KindCNPGCluster, fst x, snd x, ''1'']"
  shows "about (kube_name ''deployment'' p x) stream =
      filter (wants types) (object_changes workload_running None (object_history workload_id x (\<lambda>y. None) (map snd ds))) \<and>
    about (kube_name ''statefulset'' p x) stream =
      filter (wants types) (object_changes workload_running None (object_history workload_id x (\<lambda>y. None) (map snd ss))) \<and>
    about (kube_name KindCNPGCluster p x) stream =
      (if clusterCRDInstalled p k
       then filter (wants types) (object_changes clusterIsRunning None (object_history cluster_id x (\<lambda>y. None) (map snd cs)))
       else []) \<and>
    (types = [] \<longrightarrow>
       event_fits workload_running (about (kube_name ''deployment'' p x) stream)
         (last (None # object_history workload_id x (\<lambda>y. None) (map snd ds))) \<and>
       event_fits workload_running (about (kube_name ''statefulset'' p x) stream)
         (last (None # object_history workload_id x (\<lambda>y. None) (map snd ss))))"
proof -
  obtain d s c where r: "informer_run (deploymentEventHandler p types) ds = Some d"
      "informer_run (statefulSetEventHandler p types) ss = Some s"
      "(if clusterCRDInstalled p k then informer_run (watchClusters p types) cs else Some []) = Some c"
    and "streams = \<Union> (shuffles c ` shuffles d s)"
    using assms(1) by (auto simp: kube_InstanceEvents_def split: option.splits)
  with assms(2) obtain z where z: "z \<in> shuffles d s" "stream \<in> shuffles c z" by blast
  have sep: "separable (kp_delimiter p) [kind, fst x, snd x, ''1'']" if "kind \<in> {''deployment'', ''statefulset'', KindCNPGCluster}" for kind
    using x that by (auto simp: separable_def)
  note own = sent_about_own [OF deployments.informer_watch_axioms r(1) ds] sent_about_own [OF statefulSets.informer_watch_axioms r(2) ss]
  note other = sent_about_other [OF deployments.informer_watch_axioms r(1) ds] sent_about_other [OF statefulSets.informer_watch_axioms r(2) ss]
  have c: "about (kube_name kind p x) c = []" if "kind \<in> {''deployment'', ''statefulset''}" for kind
    using r(3) that sent_about_other [OF clusters.informer_watch_axioms _ cs, where types = types and evs = c and kind' = kind and x = x] sep [of kind]
    by (auto simp: KindCNPGCluster_def split: if_splits)
  have own_c: "about (kube_name KindCNPGCluster p x) c =
      (if clusterCRDInstalled p k
       then filter (wants types) (object_changes clusterIsRunning None (object_history cluster_id x (\<lambda>y. None) (map snd cs)))
       else [])"
    using r(3) sent_about_own [OF clusters.informer_watch_axioms _ cs, where types = types and evs = c and x = x] sep [of KindCNPGCluster] by (auto split: if_splits)
  have "about (kube_name ''deployment'' p x) stream = about (kube_name ''deployment'' p x) d"
    using about_shuffles' [OF z(2) c] about_shuffles [OF z(1) other(2)] sep by simp
  moreover have "about (kube_name ''statefulset'' p x) stream = about (kube_name ''statefulset'' p x) s"
    using about_shuffles' [OF z(2) c] about_shuffles' [OF z(1) other(1)] sep by simp
  moreover have "about (kube_name KindCNPGCluster p x) stream = about (kube_name KindCNPGCluster p x) c"
    using about_shuffles [OF z(2)] about_shuffles [OF z(1) other(2)] other(1) sep by (simp add: KindCNPGCluster_def)
  moreover have "filter (wants []) ts = ts" for ts by (simp add: wants_def)
  ultimately show ?thesis using own own_c sep last_event_fits [of workload_running] by (simp del: last.simps)
qed

text \<open>A handler panics only if an inspection does.\<close>

lemma informer_run_Some: "(\<And>k e. (k, e) \<in> set es \<Longrightarrow> handle k e \<noteq> None) \<Longrightarrow> informer_run handle es \<noteq> None"
proof (induction es)
  case (Cons ke es)
  obtain k e where ke: "ke = (k, e)" by (cases ke)
  have "handle k e \<noteq> None" "informer_run handle es \<noteq> None" using Cons by (auto simp: ke)
  then show ?case by (auto simp: ke)
qed simp

lemma statefulSet_handler_Some:
  assumes "\<And>type parsed status. kube_event p k type parsed status \<noteq> None"
  shows "statefulSetEventHandler p types k e \<noteq> None"
  using assms by (cases e) (simp_all add: statefulSetEventHandler_def Let_def add_handler_def update_handler_def split: option.split)

theorem kube_events_follow_witness:
  "\<exists>streams stream. kube_InstanceEvents list_kube [] ([], []) []
       [(([], []), AddFunc (Object redis_set)),
        (([], []), UpdateFunc (Object redis_set) (Object (redis_set\<lparr>wl_Replicas := Some 1, wl_ResourceVersion := ''2''\<rparr>))),
        (([], []), DeleteFunc (Tombstone (Some redis_set)))] [] = Some streams \<and> stream \<in> streams \<and>
     about ''statefulset_default_cache_1'' stream =
       [InstanceEventCreated, InstanceEventStarted, InstanceEventRemoved, InstanceEventStopped]"
proof -
  let ?d = "redis_set\<lparr>wl_Replicas := Some 1, wl_ResourceVersion := ''2''\<rparr>"
  let ?k = "([], []) :: list_server"
  let ?ss = "[(?k, AddFunc (Object redis_set)), (?k, UpdateFunc (Object redis_set) (Object ?d)),
     (?k, DeleteFunc (Tombstone (Some redis_set)))]"
  have "kube_InstanceInspect list_kube n ?k \<noteq> None" for n
    by (simp add: kube_InstanceInspect_def DeploymentInspect_def StatefulSetInspect_def list_kube_def list_apps_def server_view_def
        split: sum.split)
  then have k: "kube_event list_kube ?k type parsed status \<noteq> None" for type parsed status
    by (simp add: kube_event_def)
  have "informer_run (statefulSetEventHandler list_kube []) ?ss \<noteq> None"
    using statefulSet_handler_Some [of list_kube ?k, OF k] by (intro informer_run_Some) auto
  then obtain s where s: "informer_run (statefulSetEventHandler list_kube []) ?ss = Some s" by blast
  have e: "kube_InstanceEvents list_kube [] ?k [] ?ss [] = Some {s}"
    unfolding kube_InstanceEvents_def s by simp
  have "about (kube_name ''statefulset'' list_kube (''default'', ''cache'')) s =
      filter (wants []) (object_changes workload_running None
        (object_history workload_id (''default'', ''cache'') (\<lambda>y. None) (map snd ?ss)))"
    by (rule kube_events_follow [OF e, THEN conjunct2, THEN conjunct1])
      (simp_all add: names_separable_def separable_def workload_id_def list_kube_def redis_set_def KindCNPGCluster_def)
  moreover have "kube_name ''statefulset'' list_kube (''default'', ''cache'') = ''statefulset_default_cache_1''" by code_simp
  moreover have "object_changes workload_running None (object_history workload_id (''default'', ''cache'') (\<lambda>y. None) (map snd ?ss)) =
      [InstanceEventCreated, InstanceEventStarted, InstanceEventRemoved, InstanceEventStopped]"
    by code_simp
  ultimately show ?thesis using e by (auto simp: wants_def)
qed

end
