(* ===== verification/Metrics_Docs.thy ===== *)
theory Metrics_Docs
  imports Metrics Label_Docs "HOL-Library.List_Lexorder" "HOL-Library.Char_ord"
begin

text \<open>
  The descriptions of the metrics (\<open>prom.go\<close> and \<open>collector.go\<close> of \<open>pkg/metrics\<close>) and the reference page that
  \<open>cmd/metricsgen\<close> writes from them: it touches every metric once, gathers the registry and writes a row for
  each family. The registry of the Prometheus client is a parameter; \<open>registry_gathers\<close> is what it
  documents. What the collectors for the Go runtime and the process collect comes with it.
\<close>

section \<open>Descriptions\<close>

record Desc =
  d_Name :: string
  d_Type :: string
  d_Help :: string
  d_Labels :: "string list"

definition sessionRequests_desc :: Desc where
  "sessionRequests_desc =
     \<lparr>d_Name = ''sablier_session_requests_total'', d_Type = ''COUNTER'',
      d_Help = ''Total number of session requests received, by strategy and target.'', d_Labels = [''strategy'', ''target'']\<rparr>"

definition instanceStartFailures_desc :: Desc where
  "instanceStartFailures_desc =
     \<lparr>d_Name = ''sablier_instance_start_failures_total'', d_Type = ''COUNTER'',
      d_Help = ''Total number of provider InstanceStart failures, by instance.'', d_Labels = [''instance'']\<rparr>"

definition instanceStops_desc :: Desc where
  "instanceStops_desc =
     \<lparr>d_Name = ''sablier_instance_stops_total'', d_Type = ''COUNTER'',
      d_Help = ''Total number of instance stops, by instance and reason.'', d_Labels = [''instance'', ''reason'']\<rparr>"

definition instanceStartDuration_desc :: Desc where
  "instanceStartDuration_desc =
     \<lparr>d_Name = ''sablier_instance_start_duration_seconds'', d_Type = ''HISTOGRAM'',
      d_Help = ''Duration of provider.InstanceStart calls (seconds), only successful starts.'', d_Labels = [''instance'']\<rparr>"

definition instanceReadyDuration_desc :: Desc where
  "instanceReadyDuration_desc =
     \<lparr>d_Name = ''sablier_instance_ready_duration_seconds'', d_Type = ''HISTOGRAM'',
      d_Help = ''End-to-end wall time from first not-ready observation to ready (seconds).'', d_Labels = [''instance'']\<rparr>"

definition instanceActiveDuration_desc :: Desc where
  "instanceActiveDuration_desc =
     \<lparr>d_Name = ''sablier_instance_active_seconds_total'', d_Type = ''COUNTER'',
      d_Help = ''Cumulative seconds each instance has spent in the Ready state. '' @
        ''Incremented each time an instance's session expires. '' @
        ''Use increase() or rate() over a time window to compute the active fraction.'',
      d_Labels = [''instance'']\<rparr>"

definition recorder_descs :: "Desc list" where
  "recorder_descs =
     [sessionRequests_desc, instanceStartFailures_desc, instanceStops_desc, instanceStartDuration_desc,
      instanceReadyDuration_desc, instanceActiveDuration_desc]"

definition lockedDesc :: Desc where
  "lockedDesc =
     \<lparr>d_Name = ''sablier_group_locked'', d_Type = ''GAUGE'',
      d_Help = ''Whether the group has at least one instance with an active session (1) or not (0).'', d_Labels = [''group'']\<rparr>"

definition countDesc :: Desc where
  "countDesc =
     \<lparr>d_Name = ''sablier_group_active_instances'', d_Type = ''GAUGE'',
      d_Help = ''Number of instances in the group with an active session.'', d_Labels = [''group'']\<rparr>"

definition GroupLockCollector_Describe :: "Desc list" where
  "GroupLockCollector_Describe = [lockedDesc, countDesc]"

definition expiresAtDesc :: Desc where
  "expiresAtDesc =
     \<lparr>d_Name = ''sablier_session_expires_at_timestamp_seconds'', d_Type = ''GAUGE'',
      d_Help = ''Unix timestamp (seconds) at which the instance's session expires and the instance is stopped. '' @
        ''One series per active session. The value tracks the latest access and is pushed back on every session renewal. '' @
        ''Derive the remaining time in Grafana with the expression: value - time().'',
      d_Labels = [''instance'', ''group'']\<rparr>"

definition SessionExpiryCollector_Describe :: "Desc list" where
  "SessionExpiryCollector_Describe = [expiresAtDesc]"

text \<open>Everything that the program registers under its own prefix.\<close>

definition sablier_descs :: "Desc list" where
  "sablier_descs = recorder_descs @ GroupLockCollector_Describe @ SessionExpiryCollector_Describe"

section \<open>What is collected\<close>

text \<open>
  A metric is its description with the values of its labels. A vector collects one metric for each
  combination of label values that it has seen; a gauge of the collectors carries its name.
\<close>

type_synonym collected = "Desc \<times> string list"

definition recorder_Collect :: "PromRecorder \<Rightarrow> collected list" where
  "recorder_Collect r =
     map (\<lambda>((a, b), v). (sessionRequests_desc, [a, b])) (sessionRequests r) @
     map (\<lambda>(a, v). (instanceStartFailures_desc, [a])) (instanceStartFailures r) @
     map (\<lambda>((a, b), v). (instanceStops_desc, [a, b])) (instanceStops r) @
     map (\<lambda>(a, v). (instanceStartDuration_desc, [a])) (instanceStartDuration r) @
     map (\<lambda>(a, v). (instanceReadyDuration_desc, [a])) (instanceReadyDuration r) @
     map (\<lambda>(a, v). (instanceActiveDuration_desc, [a])) (instanceActiveDuration r)"

definition desc_of :: "Desc list \<Rightarrow> gauge \<Rightarrow> collected list" where
  "desc_of descs g = map (\<lambda>d. (d, g_Labels g)) (filter (\<lambda>d. d_Name d = g_Desc g) descs)"

definition gauges_Collect :: "gauge list \<Rightarrow> collected list" where
  "gauges_Collect gs = concat (map (desc_of (GroupLockCollector_Describe @ SessionExpiryCollector_Describe)) gs)"

section \<open>The page\<close>

text \<open>A family of metrics as the registry returns it, with the label names of each metric.\<close>

record MetricFamily =
  mf_Name :: string
  mf_Type :: string
  mf_Help :: string
  mf_Metrics :: "string list list"

definition mg_escape :: "string \<Rightarrow> string" where
  "mg_escape s = EscapePipe (ReplaceAll s (CHR 0x0A) (CHR '' ''))"

text \<open>An em dash stands for no labels.\<close>

definition family_labels :: "MetricFamily \<Rightarrow> string" where
  "family_labels mf =
     (case mf_Metrics mf of
        [] \<Rightarrow> [CHR 0xE2, CHR 0x80, CHR 0x94]
      | names # _ \<Rightarrow>
          if names = [] then [CHR 0xE2, CHR 0x80, CHR 0x94] else ''`'' @ Join (sort names) ''`, `'' @ ''`'')"

definition family_row :: "MetricFamily \<Rightarrow> string" where
  "family_row mf =
     ''| `'' @ mf_Name mf @ ''` | '' @ ToLower (mf_Type mf) @ '' | '' @ family_labels mf @ '' | '' @ mg_escape (mf_Help mf) @ '' |'' @ LF"

definition family_rows :: "MetricFamily list \<Rightarrow> string list" where
  "family_rows fams = map family_row (filter (\<lambda>mf. has_prefix (mf_Name mf) ''sablier_'') fams)"

definition metrics_intro :: string where
  "metrics_intro = doc_lines
     [''---'', ''title: Metrics'', ''weight: 314'', ''---'', [],
      ''<!-- Code generated by cmd/metricsgen (\"go generate ./...\"); DO NOT EDIT. -->'',
      ''<!-- Regenerate with `make metrics-docs` after changing pkg/metrics. -->'', [],
      ''Sablier can expose a Prometheus-compatible `/metrics` endpoint. Enable it on the server:'', [],
      ''```yaml'', ''# compose.yml'', ''services:'', ''  sablier:'', ''    image: sablierapp/sablier:{{< version >}}'',
      ''    command:'', ''      - start'', ''      - --provider.name=docker'', ''      - --server.metrics.enabled=true'',
      ''    ports:'', ''      - \"10000:10000\"'', ''    volumes:'', ''      - /var/run/docker.sock:/var/run/docker.sock'', ''```'', [],
      ''When `server.metrics.enabled` is `true`, Sablier registers a `GET <base-path>/metrics` route on the same HTTP server that handles `/health` and `/api/...` (see the [CLI reference](/reference/cli/)). The route returns the Prometheus text exposition format and is served by `promhttp`. When set to `false` (the default), the route is not registered and any request to that path returns `404`.'',
      []]"

definition metrics_page :: "MetricFamily list \<Rightarrow> string" where
  "metrics_page fams =
     metrics_intro @
     doc_lines [''## Exposed metrics'', [], ''| Name | Type | Labels | Description |'', ''|------|------|--------|-------------|''] @
     concat (family_rows fams) @
     doc_lines
       [''| Go runtime + process collectors | (default) | (default) | Standard `go_*` and `process_*` metrics from the Prometheus Go client. |'',
        [],
        ''## Security note'', [],
        ''The endpoint exposes process internals, group and instance names, and counters. It is intended for trusted observability stacks. Restrict at the reverse proxy when Sablier is fronted on an untrusted network.'']"

text \<open>
  The calls that touch every vector; \<open>begun\<close>, \<open>ended\<close>, \<open>since\<close> and \<open>stopped\<close> are the readings of the clock.
\<close>

definition mg_exercise :: "time \<Rightarrow> time \<Rightarrow> time \<Rightarrow> time \<Rightarrow> PromRecorder" where
  "mg_exercise begun ended since stopped =
     prom_InactiveInstance stopped ''instance''
      (prom_ReadyWaitEnd ended since ''instance''
       (prom_ReadyWaitBegin begun ''instance''
        (prom_StartEnd ''instance'' Second
         (prom_Stop ''instance'' ''expired''
          (prom_StartFailure ''instance''
           (prom_SessionRequest ''dynamic'' ''group'' NewPromRecorder))))))"

text \<open>The collectors are registered with groups, active instances and sessions that are made up.\<close>

definition mg_gauges :: "gauge list" where
  "mg_gauges =
     concat (map (group_gauges [(''instance'', ())]) [(''group'', [''instance''])]) @
     SessionExpiryCollector_Collect [\<lparr>se_Instance = ''instance'', se_Group = ''group'', se_ExpiresAt = 0\<rparr>]"

definition metricsgen_main :: "(collected list \<Rightarrow> goerror + MetricFamily list) \<Rightarrow> collected list \<Rightarrow> time \<Rightarrow> time \<Rightarrow> time \<Rightarrow> time \<Rightarrow>
    goerror + string" where
  "metricsgen_main gather runtime begun ended since stopped =
     (case gather (recorder_Collect (mg_exercise begun ended since stopped) @ gauges_Collect mg_gauges @ runtime) of
        Inl err \<Rightarrow> Inl (ErrWrap ''gather'' err)
      | Inr fams \<Rightarrow> Inr (metrics_page fams))"

section \<open>The page has every metric\<close>

text \<open>
  What the registry documents of \<open>Gather\<close>: metrics that fit their descriptions, without two of the same
  labels and with one description for each name, become one family per name, with its metadata.
\<close>

definition gatherable :: "collected list \<Rightarrow> bool" where
  "gatherable ms \<longleftrightarrow> distinct ms \<and> inj_on d_Name (fst ` set ms) \<and> list_all (\<lambda>(d, vs). length vs = length (d_Labels d)) ms"

definition family_of :: "Desc \<Rightarrow> MetricFamily \<Rightarrow> bool" where
  "family_of d mf \<longleftrightarrow>
     mf_Name mf = d_Name d \<and> mf_Type mf = d_Type d \<and> mf_Help mf = d_Help d \<and> mf_Metrics mf \<noteq> [] \<and>
     list_all (\<lambda>names. mset names = mset (d_Labels d)) (mf_Metrics mf)"

definition registry_gathers :: "(collected list \<Rightarrow> goerror + MetricFamily list) \<Rightarrow> bool" where
  "registry_gathers gather \<longleftrightarrow>
     (\<forall>ms. gatherable ms \<longrightarrow>
        (\<exists>fams. gather ms = Inr fams \<and>
           (\<forall>mf\<in>set fams. \<exists>d\<in>fst ` set ms. family_of d mf) \<and> (\<forall>d\<in>fst ` set ms. \<exists>mf\<in>set fams. family_of d mf)))"

definition desc_row :: "Desc \<Rightarrow> string" where
  "desc_row d =
     ''| `'' @ d_Name d @ ''` | '' @ ToLower (d_Type d) @ '' | '' @ ''`'' @ Join (sort (d_Labels d)) ''`, `'' @ ''`'' @ '' | '' @
     mg_escape (d_Help d) @ '' |'' @ LF"

lemma desc_fields:
  "d_Name sessionRequests_desc = ''sablier_session_requests_total''" "d_Labels sessionRequests_desc = [''strategy'', ''target'']"
  "d_Name instanceStartFailures_desc = ''sablier_instance_start_failures_total''" "d_Labels instanceStartFailures_desc = [''instance'']"
  "d_Name instanceStops_desc = ''sablier_instance_stops_total''" "d_Labels instanceStops_desc = [''instance'', ''reason'']"
  "d_Name instanceStartDuration_desc = ''sablier_instance_start_duration_seconds''" "d_Labels instanceStartDuration_desc = [''instance'']"
  "d_Name instanceReadyDuration_desc = ''sablier_instance_ready_duration_seconds''" "d_Labels instanceReadyDuration_desc = [''instance'']"
  "d_Name instanceActiveDuration_desc = ''sablier_instance_active_seconds_total''" "d_Labels instanceActiveDuration_desc = [''instance'']"
  "d_Name lockedDesc = ''sablier_group_locked''" "d_Labels lockedDesc = [''group'']"
  "d_Name countDesc = ''sablier_group_active_instances''" "d_Labels countDesc = [''group'']"
  "d_Name expiresAtDesc = ''sablier_session_expires_at_timestamp_seconds''" "d_Labels expiresAtDesc = [''instance'', ''group'']"
  by (simp_all add: sessionRequests_desc_def instanceStartFailures_desc_def instanceStops_desc_def instanceStartDuration_desc_def instanceReadyDuration_desc_def instanceActiveDuration_desc_def lockedDesc_def countDesc_def expiresAtDesc_def)

lemmas descs_defs = sablier_descs_def recorder_descs_def GroupLockCollector_Describe_def SessionExpiryCollector_Describe_def

lemma family_row_desc:
  assumes "family_of d mf" "d_Labels d \<noteq> []"
  shows "family_row mf = desc_row d"
proof -
  obtain names rest where m: "mf_Metrics mf = names # rest" "mset names = mset (d_Labels d)"
    using assms(1) by (cases "mf_Metrics mf") (auto simp: family_of_def)
  then have "sort names = sort (d_Labels d)" "names \<noteq> []" using assms(2) by (auto intro: properties_for_sort)
  then show ?thesis using assms(1) m(1) by (simp add: family_row_def desc_row_def family_labels_def family_of_def)
qed

lemma desc_names_distinct: "distinct (map d_Name sablier_descs)"
  by (simp add: descs_defs desc_fields)

text \<open>Every metric is touched.\<close>

lemma exercised:
  assumes "since < stopped"
  shows "recorder_Collect (mg_exercise begun ended since stopped) =
    [(sessionRequests_desc, [''dynamic'', ''group'']), (instanceStartFailures_desc, [''instance'']),
     (instanceStops_desc, [''instance'', ''expired'']), (instanceStartDuration_desc, [''instance'']),
     (instanceReadyDuration_desc, [''instance'']), (instanceActiveDuration_desc, [''instance''])]"
  using assms
  by (simp add: recorder_Collect_def mg_exercise_def prom_InactiveInstance_def prom_ReadyWaitEnd_def prom_ReadyWaitBegin_def
      prom_StartEnd_def prom_Stop_def prom_StartFailure_def prom_SessionRequest_def NewPromRecorder_def counter_Add_def
      Observe_def Let_def)

lemma gauges_exercised:
  "gauges_Collect mg_gauges =
    [(lockedDesc, [''group'']), (countDesc, [''group'']), (expiresAtDesc, [''instance'', ''group''])]"
  by (simp add: gauges_Collect_def mg_gauges_def group_gauges_def SessionExpiryCollector_Collect_def desc_of_def descs_defs desc_fields)

text \<open>Every gauge of a scrape is described, with the right number of labels, and so is every metric of the recorder.\<close>

lemma scraped_described:
  assumes "g \<in> set (scrape now r s)"
  shows "\<exists>d\<in>set sablier_descs. d_Name d = g_Desc g \<and> length (g_Labels g) = length (d_Labels d)"
proof -
  have "(\<exists>x. g_Desc g = d_Name lockedDesc \<and> g_Labels g = [x]) \<or> (\<exists>x. g_Desc g = d_Name countDesc \<and> g_Labels g = [x]) \<or>
      (\<exists>x y. g_Desc g = d_Name expiresAtDesc \<and> g_Labels g = [x, y])"
    using assms unfolding scrape_def GroupLockCollector_Collect_def SessionExpiryCollector_Collect_def desc_fields
    by (auto simp: group_gauges_def Let_def)
  moreover have "lockedDesc \<in> set sablier_descs" "countDesc \<in> set sablier_descs" "expiresAtDesc \<in> set sablier_descs"
    by (simp_all add: descs_defs)
  moreover have "length (d_Labels lockedDesc) = 1" "length (d_Labels countDesc) = 1" "length (d_Labels expiresAtDesc) = 2"
    by (simp_all add: desc_fields)
  ultimately show ?thesis by (elim disjE exE conjE) (auto intro!: bexI)
qed

lemma recorded_described:
  "m \<in> set (recorder_Collect r) \<Longrightarrow> fst m \<in> set sablier_descs \<and> length (snd m) = length (d_Labels (fst m))"
  by (auto simp: recorder_Collect_def descs_defs desc_fields)

text \<open>
  The metrics reference. The generated page has a row for every metric that the program
  registers and no other row under its prefix, with type, labels and help of the description; and
  every series that the recorder or a scrape of the collectors ever shows has a description on the
  page, with as many labels.
\<close>

theorem metrics_reference:
  assumes "registry_gathers gather" "since < stopped"
    and "gatherable runtime" "list_all (\<lambda>(d, vs). \<not> has_prefix (d_Name d) ''sablier_'') runtime"
  shows "(\<exists>fams. metricsgen_main gather runtime begun ended since stopped = Inr (metrics_page fams) \<and>
      set (family_rows fams) = desc_row ` set sablier_descs) \<and>
    (\<forall>m\<in>set (recorder_Collect r). fst m \<in> set sablier_descs \<and> length (snd m) = length (d_Labels (fst m))) \<and>
    (\<forall>g\<in>set (scrape now r s). \<exists>d\<in>set sablier_descs. d_Name d = g_Desc g \<and> length (g_Labels g) = length (d_Labels d))"
proof (intro conjI ballI)
  define ms where "ms = recorder_Collect (mg_exercise begun ended since stopped) @ gauges_Collect mg_gauges"
  have l: "map fst ms = sablier_descs"
    unfolding ms_def exercised [OF assms(2)] gauges_exercised by (simp add: descs_defs)
  have descs: "fst ` set ms = set sablier_descs" unfolding l [symmetric] by simp
  have fit: "list_all (\<lambda>(d, vs). length vs = length (d_Labels d)) ms"
    unfolding ms_def exercised [OF assms(2)] gauges_exercised by (simp add: desc_fields)
  have "distinct (map fst ms)" using desc_names_distinct unfolding l by (simp add: distinct_map)
  then have ds: "distinct ms" by (simp add: distinct_map)
  have own: "has_prefix (d_Name d) ''sablier_'' \<and> d_Labels d \<noteq> []" if "d \<in> set sablier_descs" for d
    using that by (auto simp: descs_defs desc_fields has_prefix_def CutPrefix_def)
  have foreign: "\<not> has_prefix (d_Name d) ''sablier_''" if "d \<in> fst ` set runtime" for d
    using assms(4) that by (auto simp: list_all_iff)
  have "inj_on d_Name (set sablier_descs)" using desc_names_distinct by (simp add: distinct_map)
  moreover have "d_Name ` set sablier_descs \<inter> d_Name ` fst ` set runtime = {}" using own foreign by force
  moreover have "set ms \<inter> set runtime = {}" using own foreign descs by (metis (no_types, opaque_lifting) disjoint_iff image_eqI)
  ultimately have "gatherable (ms @ runtime)"
    using descs fit ds assms(3) unfolding gatherable_def set_append image_Un distinct_append list_all_append
    by (simp add: inj_on_Un image_Un Int_commute) blast
  then obtain fams where fams: "gather (ms @ runtime) = Inr fams"
      "\<forall>mf\<in>set fams. \<exists>d\<in>fst ` set (ms @ runtime). family_of d mf" "\<forall>d\<in>fst ` set (ms @ runtime). \<exists>mf\<in>set fams. family_of d mf"
    using assms(1) unfolding registry_gathers_def by blast
  have split: "fst ` set (ms @ runtime) = set sablier_descs \<union> fst ` set runtime"
    by (simp only: set_append image_Un descs)
  have "set (family_rows fams) = desc_row ` set sablier_descs"
  proof (intro set_eqI iffI)
    fix row assume "row \<in> set (family_rows fams)"
    then obtain mf where mf: "mf \<in> set fams" "has_prefix (mf_Name mf) ''sablier_''" "row = family_row mf"
      by (auto simp: family_rows_def)
    then obtain d where d: "d \<in> set sablier_descs \<union> fst ` set runtime" "family_of d mf" using fams(2) unfolding split by blast
    then have "d \<in> set sablier_descs" using foreign mf(2) by (auto simp: family_of_def)
    then show "row \<in> desc_row ` set sablier_descs" using family_row_desc [OF d(2)] own mf(3) by blast
  next
    fix row assume "row \<in> desc_row ` set sablier_descs"
    then obtain d where d: "d \<in> set sablier_descs" "row = desc_row d" by blast
    then obtain mf where mf: "mf \<in> set fams" "family_of d mf" using fams(3) unfolding split by blast
    then show "row \<in> set (family_rows fams)"
      using family_row_desc [OF mf(2)] own [OF d(1)] d(2)
      by (auto simp: family_rows_def family_of_def intro!: image_eqI [of _ _ mf])
  qed
  then show "\<exists>fams. metricsgen_main gather runtime begun ended since stopped = Inr (metrics_page fams) \<and>
      set (family_rows fams) = desc_row ` set sablier_descs"
    using fams(1) by (auto simp: metricsgen_main_def ms_def)
qed (use recorded_described scraped_described in blast)+

text \<open>A registry that takes the descriptions in the order of the metrics.\<close>

definition list_gather :: "collected list \<Rightarrow> goerror + MetricFamily list" where
  "list_gather ms =
     Inr (map (\<lambda>d. \<lparr>mf_Name = d_Name d, mf_Type = d_Type d, mf_Help = d_Help d, mf_Metrics = [d_Labels d]\<rparr>) (remdups (map fst ms)))"

lemma list_gather_gathers: "registry_gathers list_gather"
  by (auto simp: registry_gathers_def list_gather_def family_of_def)

theorem metrics_reference_witness:
  "\<exists>fams. metricsgen_main list_gather [] 0 1 2 3 = Inr (metrics_page fams) \<and>
     (''| `sablier_group_locked` | gauge | `group` | Whether the group has at least one instance with an active session (1) or not (0). |'' @ LF)
       \<in> set (family_rows fams)"
proof -
  obtain fams where f: "metricsgen_main list_gather [] 0 1 2 3 = Inr (metrics_page fams)"
      "set (family_rows fams) = desc_row ` set sablier_descs"
    using metrics_reference [OF list_gather_gathers, of 2 3 "[]" 0 1, THEN conjunct1] by (auto simp: gatherable_def)
  have "desc_row lockedDesc =
    ''| `sablier_group_locked` | gauge | `group` | Whether the group has at least one instance with an active session (1) or not (0). |'' @ LF"
    by code_simp
  moreover have "lockedDesc \<in> set sablier_descs" by (simp add: descs_defs)
  ultimately show ?thesis using f by (metis image_eqI)
qed

end
