(* ===== verification/Openapi_Docs.thy ===== *)
theory Openapi_Docs
  imports Go_Lib "HOL-Library.List_Lexorder" "HOL-Library.Char_ord" "HOL-Library.Multiset"
begin

text \<open>
  The step of \<open>cmd/openapigen\<close> that makes the generated API description independent of the run:
  \<open>normalize\<close> sorts the enumerations of every schema, drops numeric ones and removes the extensions
  that the annotation parser adds. Parsing the annotations, the conversion between the two versions of the format
  and printing are libraries. The type of enumerated values and their text (\<open>%v\<close>) are parameters.
\<close>

section \<open>Schemas\<close>

text \<open>
  A reference names a component, or holds the schema itself. Properties and extensions are maps; the
  map of properties is a list without repeated names.
\<close>

datatype 'v SchemaRef = SchemaRef (ref_Ref: string) (ref_Value: "'v Schema option")
and 'v Schema = Schema (sch_Type: "string list option") (sch_Enum: "'v list") (sch_Extensions: "(string, string) gomap")
    (sch_Properties: "(string \<times> 'v SchemaRef option) list") (sch_Items: "'v SchemaRef option")
    (sch_AllOf: "'v SchemaRef option list") (sch_AnyOf: "'v SchemaRef option list") (sch_OneOf: "'v SchemaRef option list")
    (sch_AdditionalProperties: "'v SchemaRef option")

text \<open>\<open>Type.Is\<close>: the type is exactly this one.\<close>

definition Type_Is :: "string list option \<Rightarrow> string \<Rightarrow> bool" where
  "Type_Is t name \<longleftrightarrow> t = Some [name]"

definition normalize_enum :: "('v \<Rightarrow> string) \<Rightarrow> string list option \<Rightarrow> 'v list \<Rightarrow> 'v list" where
  "normalize_enum sprint t enum =
     (if enum = [] then []
      else if Type_Is t ''integer'' \<or> Type_Is t ''number'' then []
      else sort_key sprint enum)"

definition drop_enum_extensions :: "(string, string) gomap \<Rightarrow> (string, string) gomap" where
  "drop_enum_extensions ext = map_del ''x-enum-descriptions'' (map_del ''x-enum-varnames'' ext)"

primrec normalizeSchema :: "('v \<Rightarrow> string) \<Rightarrow> 'v SchemaRef \<Rightarrow> 'v SchemaRef"
  and normalize_value :: "('v \<Rightarrow> string) \<Rightarrow> 'v Schema \<Rightarrow> 'v Schema" where
  "normalizeSchema sprint (SchemaRef ref val) =
     (if ref \<noteq> [] then SchemaRef ref val else SchemaRef ref (map_option (normalize_value sprint) val))"
| "normalize_value sprint (Schema t enum ext props items allOf anyOf oneOf additional) =
     Schema t (normalize_enum sprint t enum) (drop_enum_extensions ext)
       (map (map_prod id (map_option (normalizeSchema sprint))) props)
       (map_option (normalizeSchema sprint) items)
       (map (map_option (normalizeSchema sprint)) allOf)
       (map (map_option (normalizeSchema sprint)) anyOf)
       (map (map_option (normalizeSchema sprint)) oneOf)
       (map_option (normalizeSchema sprint) additional)"

definition openapi_normalize :: "('v \<Rightarrow> string) \<Rightarrow> (string \<times> 'v SchemaRef option) list option \<Rightarrow>
    (string \<times> 'v SchemaRef option) list option" where
  "openapi_normalize sprint components =
     map_option (map (map_prod id (map_option (normalizeSchema sprint)))) components"

section \<open>Documents that differ by the run\<close>

text \<open>
  What may differ between two runs: the order of an enumeration of distinct texts, the whole of a
  numeric one, and the extensions that are dropped.
\<close>

definition same_enum :: "('v \<Rightarrow> string) \<Rightarrow> string list option \<Rightarrow> 'v list \<Rightarrow> 'v list \<Rightarrow> bool" where
  "same_enum sprint t e e' \<longleftrightarrow>
     Type_Is t ''integer'' \<or> Type_Is t ''number'' \<or> mset e = mset e' \<and> inj_on sprint (set e)"

inductive same_ref :: "('v \<Rightarrow> string) \<Rightarrow> 'v SchemaRef \<Rightarrow> 'v SchemaRef \<Rightarrow> bool"
  and same_schema :: "('v \<Rightarrow> string) \<Rightarrow> 'v Schema \<Rightarrow> 'v Schema \<Rightarrow> bool" for sprint where
  named: "ref \<noteq> [] \<Longrightarrow> same_ref sprint (SchemaRef ref v) (SchemaRef ref v)"
| inline: "rel_option (same_schema sprint) v v' \<Longrightarrow> same_ref sprint (SchemaRef [] v) (SchemaRef [] v')"
| schema: "same_enum sprint t enum enum' \<Longrightarrow> drop_enum_extensions ext = drop_enum_extensions ext' \<Longrightarrow>
    list_all2 (rel_prod (=) (rel_option (same_ref sprint))) props props' \<Longrightarrow>
    rel_option (same_ref sprint) items items' \<Longrightarrow>
    list_all2 (rel_option (same_ref sprint)) allOf allOf' \<Longrightarrow>
    list_all2 (rel_option (same_ref sprint)) anyOf anyOf' \<Longrightarrow>
    list_all2 (rel_option (same_ref sprint)) oneOf oneOf' \<Longrightarrow>
    rel_option (same_ref sprint) additional additional' \<Longrightarrow>
    same_schema sprint (Schema t enum ext props items allOf anyOf oneOf additional)
      (Schema t enum' ext' props' items' allOf' anyOf' oneOf' additional')"
monos list.rel_mono option.rel_mono prod.rel_mono

lemma normalize_enum_same:
  assumes "same_enum sprint t e e'"
  shows "normalize_enum sprint t e = normalize_enum sprint t e'"
proof (cases "Type_Is t ''integer'' \<or> Type_Is t ''number''")
  case True
  then show ?thesis by (auto simp: normalize_enum_def)
next
  case False
  then have m: "mset e = mset e'" "inj_on sprint (set e)" using assms by (auto simp: same_enum_def)
  have "sort_key sprint e = sort_key sprint e'" by (rule sort_key_inj_key_eq) (use m in simp_all)
  with m(1) False show ?thesis by (auto simp: normalize_enum_def)
qed

lemma map_option_same: "rel_option (\<lambda>x y. R x y \<and> f x = f y) v w \<Longrightarrow> map_option f v = map_option f w"
  by (cases v; cases w) auto

lemma map_same:
  "list_all2 (rel_option (\<lambda>x y. R x y \<and> f x = f y)) vs ws \<Longrightarrow> map (map_option f) vs = map (map_option f) ws"
  by (induction rule: list_all2_induct) (auto dest: map_option_same)

lemma map_prod_same:
  "list_all2 (rel_prod (=) (rel_option (\<lambda>x y. R x y \<and> f x = f y))) vs ws \<Longrightarrow>
   map (map_prod id (map_option f)) vs = map (map_prod id (map_option f)) ws"
  by (induction rule: list_all2_induct) (auto dest: map_option_same)

lemma normalize_same:
  "same_ref sprint r r' \<Longrightarrow> normalizeSchema sprint r = normalizeSchema sprint r'"
  "same_schema sprint v v' \<Longrightarrow> normalize_value sprint v = normalize_value sprint v'"
proof (induction rule: same_ref_same_schema.inducts)
  case (inline v v')
  then show ?case by (simp add: map_option_same)
next
  case schema
  then show ?case
    by (simp add: normalize_enum_same map_prod_same map_same map_option_same)
qed simp

text \<open>Schemas that are shared between parts of the document are normalised more than once.\<close>

lemma sort_key_idem: "sort_key f (sort_key f xs) = sort_key f xs"
  by (rule sort_key_id_if_sorted) simp

lemma drop_enum_extensions_idem: "drop_enum_extensions (drop_enum_extensions ext) = drop_enum_extensions ext"
  by (simp add: drop_enum_extensions_def AList.delete_eq filter_filter conj_ac split_def)

lemma normalize_enum_idem: "normalize_enum sprint t (normalize_enum sprint t e) = normalize_enum sprint t e"
  by (simp add: normalize_enum_def sort_key_idem)

lemma normalize_idem:
  "normalizeSchema sprint (normalizeSchema sprint r) = normalizeSchema sprint r"
  "normalize_value sprint (normalize_value sprint v) = normalize_value sprint v"
proof (induction r and v)
  case (SchemaRef ref v)
  then show ?case by (cases v) auto
next
  case (Schema t enum ext props items allOf anyOf oneOf additional)
  then have "(map_option (normalizeSchema sprint) \<circ> map_option (normalizeSchema sprint)) r = map_option (normalizeSchema sprint) r"
    if "r \<in> snd ` set props \<union> {items, additional} \<union> set allOf \<union> set anyOf \<union> set oneOf" for r
    using that by (cases r) fastforce+
  then have n: "map_option (normalizeSchema sprint) (map_option (normalizeSchema sprint) r) = map_option (normalizeSchema sprint) r"
    if "r \<in> snd ` set props \<union> {items, additional} \<union> set allOf \<union> set anyOf \<union> set oneOf" for r
    using that by simp
  have "map_prod id (map_option (normalizeSchema sprint)) (map_prod id (map_option (normalizeSchema sprint)) x) =
      map_prod id (map_option (normalizeSchema sprint)) x" if "x \<in> set props" for x
    using n [of "snd x"] that by (cases x) force
  then show ?case using n by (simp add: normalize_enum_idem drop_enum_extensions_idem)
qed

text \<open>The schemas of a document, named ones excepted.\<close>

definition same_document :: "('v \<Rightarrow> string) \<Rightarrow> (string \<times> 'v SchemaRef option) list option \<Rightarrow>
    (string \<times> 'v SchemaRef option) list option \<Rightarrow> bool" where
  "same_document sprint = rel_option (list_all2 (rel_prod (=) (rel_option (same_ref sprint))))"

text \<open>
  The generated description is stable. Two documents that differ only in the order of their
  enumerations, in numeric enumerations and in the dropped extensions are normalised to the same
  one, and normalising again, as happens to schemas that are shared, changes nothing. An
  enumeration that is not numeric keeps exactly its values.
\<close>

theorem openapi_stable:
  "(same_document sprint doc doc' \<longrightarrow> openapi_normalize sprint doc = openapi_normalize sprint doc') \<and>
   openapi_normalize sprint (openapi_normalize sprint doc) = openapi_normalize sprint doc \<and>
   (\<not> Type_Is t ''integer'' \<and> \<not> Type_Is t ''number'' \<longrightarrow>
      mset (sch_Enum (normalize_value sprint (Schema t enum ext props items allOf anyOf oneOf additional))) = mset enum)"
proof (intro conjI impI)
  assume a: "same_document sprint doc doc'"
  have m: "list_all2 (rel_prod (=) (rel_option (same_ref sprint))) ps qs \<Longrightarrow>
      map (map_prod id (map_option (normalizeSchema sprint))) ps = map (map_prod id (map_option (normalizeSchema sprint))) qs" for ps qs
    by (rule map_prod_same [where R = "same_ref sprint"], erule list.rel_mono_strong, erule prod.rel_mono_strong)
      (auto intro: normalize_same(1) elim!: option.rel_mono_strong)
  with a show "openapi_normalize sprint doc = openapi_normalize sprint doc'"
    by (cases doc; cases doc') (auto simp: same_document_def openapi_normalize_def)
next
  show "openapi_normalize sprint (openapi_normalize sprint doc) = openapi_normalize sprint doc"
    by (cases doc) (auto simp: openapi_normalize_def normalize_idem option.map_comp o_def map_prod_def split: prod.split)
qed (simp add: normalize_enum_def)

theorem openapi_stable_witness:
  "let status = (\<lambda>enum ext. Some [(''status'', Some (SchemaRef [] (Some
     (Schema (Some [''string'']) enum ext [] None [] [] [] None))))])
   in openapi_normalize id (status [''ready'', ''not-ready''] [(''x-enum-varnames'', ''Ready'')]) =
      openapi_normalize id (status [''not-ready'', ''ready''] [])"
proof -
  have "same_schema id (Schema (Some [''string'']) [''ready'', ''not-ready''] [(''x-enum-varnames'', ''Ready'')] [] None [] [] [] None)
      (Schema (Some [''string'']) [''not-ready'', ''ready''] [] [] None [] [] [] None)"
    by (rule schema) (simp_all add: same_enum_def drop_enum_extensions_def)
  then show ?thesis unfolding Let_def
    by (intro openapi_stable [THEN conjunct1, rule_format]) (simp add: same_document_def inline)
qed

end
