(* ===== verification/Build_Info.thy ===== *)
theory Build_Info
  imports Webhook Cpu_Limits
begin

text \<open>
  Small parts of the program: what it says about its build (\<open>pkg/version\<close>, the version command), how the webhook
  dispatcher introduces itself with it, and durations in JSON (\<open>pkg/durations/duration.go\<close>). The build
  information is set by the linker and is a parameter.
\<close>

section \<open>Build information\<close>

record build_info =
  bi_Version :: string
  bi_Revision :: string
  bi_Branch :: string
  bi_BuildUser :: string
  bi_BuildDate :: string
  bi_GoVersion :: string
  bi_GOOS :: string
  bi_GOARCH :: string

definition platform :: "build_info \<Rightarrow> string" where
  "platform b = bi_GOOS b @ ''/'' @ bi_GOARCH b"

definition version_fields :: "string \<Rightarrow> build_info \<Rightarrow> (string, string) gomap" where
  "version_fields program b =
     [(''program'', program), (''version'', bi_Version b), (''revision'', bi_Revision b), (''branch'', bi_Branch b),
      (''buildUser'', bi_BuildUser b), (''buildDate'', bi_BuildDate b), (''goVersion'', bi_GoVersion b), (''platform'', platform b)]"

definition version_Map :: "build_info \<Rightarrow> (string, string) gomap" where
  "version_Map b = version_fields ''sablier'' b"

definition version_Info :: "build_info \<Rightarrow> string" where
  "version_Info b = ''(version='' @ bi_Version b @ '', branch='' @ bi_Branch b @ '', revision='' @ bi_Revision b @ '')''"

definition BuildContext :: "build_info \<Rightarrow> string" where
  "BuildContext b = ''(go='' @ bi_GoVersion b @ '', user='' @ bi_BuildUser b @ '', date='' @ bi_BuildDate b @ '')''"

text \<open>A template is a list of texts and fields; a missing field prints as no value.\<close>

datatype template_part = Literal string | Field string

definition execute_template :: "template_part list \<Rightarrow> (string, string) gomap \<Rightarrow> string" where
  "execute_template t m =
     concat (map (\<lambda>p. case p of Literal s \<Rightarrow> s
                    | Field f \<Rightarrow> (case map_of m f of Some v \<Rightarrow> v | None \<Rightarrow> ''<no value>'')) t)"

definition versionInfoTmpl :: "template_part list" where
  "versionInfoTmpl =
     [Literal [CHR 0x0A], Field ''program'', Literal '', version '', Field ''version'', Literal '' (branch: '', Field ''branch'',
      Literal '', revision: '', Field ''revision'', Literal ('')'' @ [CHR 0x0A] @ ''  build user:       ''), Field ''buildUser'',
      Literal ([CHR 0x0A] @ ''  build date:       ''), Field ''buildDate'',
      Literal ([CHR 0x0A] @ ''  go version:       ''), Field ''goVersion'',
      Literal ([CHR 0x0A] @ ''  platform:         ''), Field ''platform'', Literal [CHR 0x0A]]"

definition version_Print :: "string \<Rightarrow> build_info \<Rightarrow> string" where
  "version_Print program b = TrimSpace (execute_template versionInfoTmpl (version_fields program b))"

text \<open>The version command prints \<open>Info\<close>.\<close>

definition NewVersionCmd :: "build_info \<Rightarrow> string" where
  "NewVersionCmd b = version_Info b @ [CHR 0x0A]"

section \<open>The dispatcher of webhooks\<close>

record Dispatcher =
  di_endpoints :: "WebhookEndpoint list"
  di_Timeout :: duration
  di_userAgent :: string

definition NewDispatcher :: "build_info \<Rightarrow> WebhookEndpoint list \<Rightarrow> Dispatcher" where
  "NewDispatcher b endpoints =
     (let v = (if bi_Version b = [] then ''dev'' else bi_Version b)
      in \<lparr>di_endpoints = endpoints, di_Timeout = 10 * Second, di_userAgent = ''sablier/'' @ v\<rparr>)"

section \<open>Durations in JSON\<close>

text \<open>What \<open>json.Unmarshal\<close> finds; a number is the value that its text denotes, rounded to a float64.\<close>

datatype json_any = JNumber rat | JString string | JOther

definition Duration_UnmarshalJSON :: "(float64 \<Rightarrow> int) \<Rightarrow> goerror + json_any \<Rightarrow> goerror + duration" where
  "Duration_UnmarshalJSON machine b =
     (case b of
        Inl err \<Rightarrow> Inl err
      | Inr (JNumber x) \<Rightarrow>
          (case fround x of
             Finite y \<Rightarrow> Inr (to_int64 machine (Finite y))
           | _ \<Rightarrow> Inl (ErrText ''json: cannot unmarshal number into Go value of type float64''))
      | Inr (JString s) \<Rightarrow>
          (case ParseDuration s of None \<Rightarrow> Inl (ErrText (''time: invalid duration '' @ quoted s)) | Some d \<Rightarrow> Inr d)
      | Inr JOther \<Rightarrow> Inl (ErrText ''invalid duration''))"

section \<open>Facts\<close>

lemma round_even_int [simp]: "round_even (of_int n) = n"
  by (simp add: round_even_def)

text \<open>Integers of up to 53 bits are represented exactly.\<close>

lemma fround_pos_int:
  assumes "0 < n" "n \<le> 2 ^ 53"
  shows "fround (of_int n) = Finite (of_int n)"
proof -
  let ?x = "of_int n :: rat"
  have x: "0 < ?x" using assms by simp
  define e where "e = max (- 1074) (log2_floor ?x - 52)"
  have "2 powi log2_floor ?x \<le> (2 :: rat) ^ 53" using log2_floor_bounds(1) [OF x] assms(2) by (simp add: order_trans [of _ ?x])
  then have "log2_floor ?x \<le> 53" using power_int_strict_increasing [of 53 "log2_floor ?x" "2 :: rat"] by fastforce
  then have e: "e \<le> 1" "e \<noteq> 971" by (auto simp: e_def)
  have exact: "\<exists>m. ?x / 2 powi e = of_int m"
  proof (cases "e = 1")
    case True
    then have "log2_floor ?x = 53" by (auto simp: e_def max_def split: if_splits)
    then have "(2 :: rat) ^ 53 \<le> ?x" using log2_floor_bounds(1) [OF x] by simp
    then have "of_int (2 ^ 53) \<le> ?x" by simp
    then have "n = 2 ^ 53" using assms(2) by (simp only: of_int_le_iff)
    then show ?thesis using True by (intro exI [of _ "2 ^ 52"]) simp
  next
    case False
    then have "e \<le> 0" using e(1) by simp
    then obtain k where k: "e = - int k" by (rule nonpos_int_cases)
    show ?thesis unfolding k by (intro exI [of _ "n * 2 ^ k"]) (simp add: power_int_minus field_simps)
  qed
  then obtain m where m: "?x / 2 powi e = of_int m" by blast
  then have "of_int m * 2 powi e = ?x" by (simp add: field_simps)
  then show ?thesis using x e m by (simp add: fround_def Let_def e_def [symmetric])
qed

lemma fround_int:
  assumes "\<bar>n\<bar> \<le> 2 ^ 53"
  shows "fround (of_int n) = Finite (of_int n)"
proof -
  consider "n = 0" | "0 < n" | "n < 0" by linarith
  then show ?thesis
  proof cases
    case 3
    then have "fround (of_int (- n)) = Finite (of_int (- n))" using assms by (intro fround_pos_int) auto
    then show ?thesis using 3 by (auto simp: fround_def Let_def split: if_splits)
  qed (use assms fround_pos_int in \<open>auto simp: fround_def\<close>)
qed

text \<open>
  Durations in JSON. A whole number of nanoseconds is read as it is up to \<open>2\<^sup>5\<^sup>3\<close>, which is
  about 104 days, a text as \<open>ParseDuration\<close> reads it, and anything else is refused. The next number
  is already read as another one.
\<close>

theorem duration_json:
  "(\<bar>n\<bar> \<le> 2 ^ 53 \<longrightarrow> Duration_UnmarshalJSON machine (Inr (JNumber (of_int n))) = Inr n) \<and>
   (ParseDuration s = Some d \<longrightarrow> Duration_UnmarshalJSON machine (Inr (JString s)) = Inr d) \<and>
   (ParseDuration s = None \<longrightarrow> (\<exists>err. Duration_UnmarshalJSON machine (Inr (JString s)) = Inl err)) \<and>
   (\<exists>err. Duration_UnmarshalJSON machine (Inr JOther) = Inl err) \<and>
   Duration_UnmarshalJSON machine (Inr (JNumber 9007199254740993)) = Inr 9007199254740992"
proof (intro conjI impI)
  assume "\<bar>n\<bar> \<le> 2 ^ 53"
  then show "Duration_UnmarshalJSON machine (Inr (JNumber (of_int n))) = Inr n"
    by (auto simp: Duration_UnmarshalJSON_def fround_int to_int64_def trunc_rat_def floor_minus simp flip: of_int_minus)
next
  show "Duration_UnmarshalJSON machine (Inr (JNumber 9007199254740993)) = Inr 9007199254740992" by code_simp
qed (auto simp: Duration_UnmarshalJSON_def)

theorem duration_json_witness: "Duration_UnmarshalJSON (\<lambda>v. 0) (Inr (JNumber 300000000000)) = Inr 300000000000"
  using duration_json [of 300000000000 "\<lambda>v. 0"] by simp

lemma TrimSpace_lines:
  assumes "s \<noteq> []" "\<not> is_space (hd s)" "\<not> is_space (last s)"
  shows "TrimSpace ([CHR 0x0A] @ s @ [CHR 0x0A]) = s"
proof -
  have "dropWhile is_space ([CHR 0x0A] @ s @ [CHR 0x0A]) = s @ [CHR 0x0A]"
    using assms(1,2) by (cases s) (auto simp: is_space_def)
  moreover have "dropWhile is_space (rev (s @ [CHR 0x0A])) = rev s"
    using assms(1,3) by (cases s rule: rev_cases) (auto simp: is_space_def)
  ultimately show ?thesis by (simp add: TrimSpace_def)
qed

text \<open>
  The build is reported. The text of \<open>Print\<close> starts with the program and its version and has the
  platform at its end; and a webhook request carries the version, or \<open>dev\<close>, as its user agent,
  unless the endpoint configures its own.
\<close>

theorem build_reported:
  assumes "program \<noteq> []" "\<not> is_space (hd program)" "bi_GOARCH b \<noteq> []" "\<not> is_space (last (bi_GOARCH b))"
  shows "(\<exists>mid. version_Print program b = program @ '', version '' @ bi_Version b @ mid @ platform b) \<and>
    (\<forall>ep payload. (\<forall>k\<in>fst ` set (we_Headers ep). CanonicalHeaderKey k \<noteq> ''User-Agent'') \<longrightarrow>
       map_of (hr_Header (hook_request_of (di_userAgent (NewDispatcher b eps)) ep payload)) ''User-Agent'' =
         Some (''sablier/'' @ (if bi_Version b = [] then ''dev'' else bi_Version b)))"
proof (intro conjI allI impI)
  let ?mid = "'' (branch: '' @ bi_Branch b @ '', revision: '' @ bi_Revision b @ '')'' @ [CHR 0x0A] @ ''  build user:       '' @ bi_BuildUser b @
    [CHR 0x0A] @ ''  build date:       '' @ bi_BuildDate b @ [CHR 0x0A] @ ''  go version:       '' @ bi_GoVersion b @
    [CHR 0x0A] @ ''  platform:         ''"
  let ?s = "program @ '', version '' @ bi_Version b @ ?mid @ platform b"
  have "execute_template versionInfoTmpl (version_fields program b) = [CHR 0x0A] @ ?s @ [CHR 0x0A]"
    by (simp add: execute_template_def versionInfoTmpl_def version_fields_def)
  moreover have "TrimSpace ([CHR 0x0A] @ ?s @ [CHR 0x0A]) = ?s"
    using assms by (intro TrimSpace_lines) (simp_all add: platform_def)
  ultimately show "\<exists>mid. version_Print program b = program @ '', version '' @ bi_Version b @ mid @ platform b"
    unfolding version_Print_def by (intro exI [of _ ?mid]) simp
next
  fix ep :: WebhookEndpoint and payload assume "\<forall>k\<in>fst ` set (we_Headers ep). CanonicalHeaderKey k \<noteq> ''User-Agent''"
  then show "map_of (hr_Header (hook_request_of (di_userAgent (NewDispatcher b eps)) ep payload)) ''User-Agent'' =
      Some (''sablier/'' @ (if bi_Version b = [] then ''dev'' else bi_Version b))"
    by (simp add: hook_request_of_def hook_headers_default NewDispatcher_def)
qed

end
