(* ===== verification/Spec2Isabelle.thy ===== *)
theory Spec2Isabelle
  imports Server Theme_Facts Cli_Docs Walk_Facts Kubernetes_Events Metrics_Docs Openapi_Docs Build_Info
begin

text \<open>
  \<^bold>\<open>Sablier.\<close> Sablier starts workloads on demand and stops them when nobody uses them. A reverse
  proxy asks its HTTP API for a session on some instances or on a group of them; the core starts
  what is not running, remembers the session with an expiry, and stops the instance when the
  session ends. The instances live in a container runtime behind a provider. This development
  models the Go program under \<open>src/\<close> and proves what makes its parts correct.

  \<^bold>\<open>The program and its theories.\<close> Each theory holds the data, the operations and the theorems of one
  part, in the order of the source; a theory with the suffix \<open>_Facts\<close> holds the theorems of a
  model that has grown.

  \<^item> Foundations. \<open>Prelude\<close>: Go maps as association lists with distinct keys, slices, time; the
    collections \<open>gomap_simps\<close> and \<open>wf_intros\<close>. \<open>Go_Lib\<close>: the functions of the standard library that
    the source applies to text, numbers and durations, with the wrap-around of narrow integers.
  \<^item> Session storage, \<open>pkg/tinykv\<close> and \<open>pkg/store\<close>. \<open>Heap_Ops\<close> and \<open>Timeout_Heap\<close>: the two heaps; the
    locale \<open>heap_order\<close> proves the routines for every strict weak order, \<open>min_queue\<close> is the
    priority queue that the timeout heap implements. \<open>TinyKV\<close>: the expiring store, its sweep and
    its JSON form; the locale \<open>expiring_map\<close> is the contract of \<open>Get\<close>, \<open>Put\<close>, \<open>Delete\<close> and the sweep.
    \<open>Session_Store\<close>: the \<open>Store\<close> interface as the locale \<open>session_store\<close>, with the in-memory store as
    its interpretation, and the Valkey store.
  \<^item> Data of the core, \<open>pkg/sablier\<close>. \<open>Running_Hours\<close>: keep-warm windows in a time zone. \<open>Instance\<close>:
    instances and their labels. \<open>Group_Registry\<close>: groups and their reconciliation; the locale
    \<open>membership_index\<close> is the relation it implements. \<open>Session\<close>: errors, session states, records.
  \<^item> The core, \<open>pkg/sablier\<close>. \<open>Dependency\<close>: the dependency graph and its cycles. \<open>Sablier_State\<close>: the
    state of a \<open>Sablier\<close> and the start of an instance after its dependencies, which it satisfies one after
    the other. \<open>Dependency_Walk\<close> and \<open>Walk_Facts\<close>: the same walk as the goroutines of the source, in
    every interleaving. \<open>Starts\<close>: concurrent
    requests for one start, as a step relation over threads. \<open>Requests\<close> and \<open>Ready_Session\<close>: instance
    and session requests, waiting until they are ready. \<open>Anti_Affinity\<close>: antagonist groups.
    \<open>Watchers\<close>: expiration, externally started instances, keep-warm windows, groups.
  \<^item> Providers, \<open>pkg/provider\<close>. \<open>Docker\<close> (with Podman and Compose), \<open>Moby_Events\<close>, \<open>Swarm\<close>,
    \<open>Kubernetes\<close>, \<open>Systemd\<close>, \<open>Proxmox\<close>; \<open>Kubernetes_Events\<close> has the stream that the informers feed, over the
    locale \<open>informer_watch\<close>, the contract of a handler. The server behind a provider is a record of its API calls; the
    theorems state what it documents as a hypothesis (\<open>docker_daemon\<close>, \<open>swarm_manager\<close>, \<open>kube_api\<close>,
    \<open>service_manager\<close>), and a concrete server satisfies each. Every provider also yields the record
    \<open>provider_ops\<close> that the core calls. \<open>Cpu_Limits\<close>: CPU counts as text, with the rounding of
    floating-point numbers.
  \<^item> The process. \<open>Configuration\<close>: the structs of \<open>pkg/config\<close>, their defaults, flags, environment and
    file. \<open>Provider_Setup\<close>: the choice and construction of the provider. \<open>Boot\<close>: the session file and
    the construction of the core. \<open>Api\<close>: the handlers of \<open>internal/api\<close> over the locale \<open>api_core\<close>, and
    rendering. \<open>Theme_Files\<close>: loading themes from disk. \<open>Webhook\<close>, \<open>Metrics\<close>: deliveries, recorder and
    collectors. \<open>Tracing_Setup\<close>: log levels, the bridge for the log of gRPC, exporter and sampler.
    \<open>Server\<close>: the whole of \<open>Start\<close>, the HTTP server and the stream of events.
  \<^item> The reference pages. \<open>Label_Docs\<close>: the parser of label comments and the page that
    \<open>cmd/labelsgen\<close> writes. \<open>Cli_Docs\<close>: the page of the flags that \<open>cmd/docgen\<close> writes. \<open>Metrics_Docs\<close>: the
    descriptions of the metrics and the page of \<open>cmd/metricsgen\<close>. \<open>Openapi_Docs\<close>: the normalisation of the
    API description in \<open>cmd/openapigen\<close>. \<open>Build_Info\<close>: the build information, the user agent of webhooks
    and durations in JSON.

  \<^bold>\<open>State and effects.\<close> The record \<open>sablier\<close> has the fields of the Go struct and carries the states of
  its provider and its store. An operation takes the state and returns it updated, with a result
  that is a sum when the Go function returns an error. Three fields log what happened: the calls of
  the provider, the calls of the metrics recorder and the goroutines. A pointer to a pending start
  is an index into a heap, so that comparing pointers is comparing indices. What other goroutines
  and the outside world do in between is explicit: a schedule of polls, a list of arrivals for a
  \<open>select\<close>, a sequence of steps of threads; the theorems hold for all of them. A clock reading is an
  argument. Integers whose width matters are reduced to it where the source converts them.

  \<^bold>\<open>What is proved.\<close> Starting: dependencies are satisfied first and each is started once, cycles are
  reported, one start runs per instance however requests interleave, and a failure is delivered
  once. Whatever the order in which the goroutines of a walk over the dependencies run, nothing is
  started early or twice and the walk cannot deadlock; walks that share a dependency never have two
  starts of it under way. Sessions: a session lives until its deadline and is found until then, expired ones are
  removed and reported exactly once and all of them in finitely many sweeps, and a restart keeps
  the live ones. Requests: which instances are started, held or extended; a waiting request returns
  by its deadline. Watchers: exactly the instances that nobody owns are stopped, and exactly those
  inside their window are kept warm. Anti-affinity: reconciliation reaches the state that the
  active groups prescribe. Groups: the registry implements a relation, and reconciliation makes it
  the one that the provider reports. Providers: starting and stopping bring the workload of that
  name, and no other, to the configured state; listings agree with groups; event streams report
  every change; the label cache of systemd cannot be observed; CPU counts come out right up to a nanocore. API: every outcome is mapped to its
  status, and malformed requests start nothing. Process: a configuration without arguments is
  the default one, only a valid one is served, sessions are saved however the server ends, and
  the pages depend on the theme directory alone. Reference pages: every flag has its section, which
  names a variable that the binding reads, a label's comment is read back whole, every metric has its
  row, and the API description does not depend on the run. Theorems that
  show where the program departs from what it says are kept beside the part they concern.

  \<^bold>\<open>Loops and bounds.\<close> The heap loops, the sweeps and the walks over trees terminate by a measure.
  The recursion over dependencies has fuel for its depth; more fuel than there are instances
  reachable from the root is enough, because a longer path repeats a node, and then the search has
  reported the cycle. The concurrent walk makes at most \<open>walk_bound\<close> steps besides its polls, which is
  computed from the graph. The scan of Valkey has fuel for its pages, since only the server bounds the
  cursor; for a server whose scan ends after \<open>n\<close> pages, \<open>n + 1\<close> is enough. A path on disk follows at
  most 40 symbolic links, as the kernel does. Loops that serve until they are cancelled run over
  the list of what arrives.

  \<^bold>\<open>Not modelled.\<close> Libraries are parameters: the clients of Docker, Kubernetes, Proxmox, D-Bus and
  Valkey, the parsers of memory sizes and quantities, pflag and viper, \<open>html/template\<close>, the MIME table, the network.
  Log lines and tracing spans are left out, as are the constructors of OpenTelemetry and the
  derived log handlers. Histograms keep their observations and not the floating-point buckets. In the
  theorems about requests the dependencies of one instance are started one after the other; the
  deliveries of a webhook are a list. What a conversion from floating point to an integer gives out of
  range depends on the machine and is a parameter. The parts of
  \<open>cmd/openapigen\<close> that only call libraries, \<open>cmd/schemagen\<close>, the generated mocks and the helpers of the
  tests are not modelled.
\<close>

end
